(* ===== verification/Prelude.thy ===== *)
theory Prelude
  imports Main "HOL-Library.Sublist"
begin

text \<open>
  Shared vocabulary of the development.  Go strings and byte slices are both \<open>string\<close>
  (a list of 8-bit characters), as the code converts between them freely.  The theory holds
  the run-time panics as values, the result type of an operation that may panic, the parts of
  Go's \<open>strings\<close> package the code uses, and the collections of facts the component
  theories hand to the simplifier.
\<close>

named_theorems go_simps \<open>unfolding rules of the operations of the model\<close>
named_theorems inv_intros \<open>introduction rules for invariants\<close>

type_synonym bytes = string

subsection \<open>Panics as values\<close>

text \<open>The run-time panics the modelled code can raise; \<open>ProcessExit\<close> is \<open>log.Fatal\<close>, which no
  \<open>recover\<close> catches.\<close>

datatype go_panic =
    SendOnClosedChannel
  | CloseOfClosedChannel
  | NilDereference
  | SliceOutOfRange
  | IndexOutOfRange
  | TypeAssertion
  | ExplicitPanic string
  | ProcessExit string

text \<open>An operation that returns a value or panics: \<open>Inl\<close> the panic, \<open>Inr\<close> the value.\<close>

type_synonym 'a run = "go_panic + 'a"

definition run_bind :: "'e + 'a \<Rightarrow> ('a \<Rightarrow> 'e + 'b) \<Rightarrow> 'e + 'b" where
  "run_bind m f = (case m of Inl e \<Rightarrow> Inl e | Inr x \<Rightarrow> f x)"

lemma run_bind_simps [simp]:
  "run_bind (Inl e) f = Inl e"
  "run_bind (Inr x) f = f x"
  by (simp_all add: run_bind_def)

lemma run_bind_eq_Inr_iff:
  "run_bind m f = Inr y \<longleftrightarrow> (\<exists>x. m = Inr x \<and> f x = Inr y)"
  by (cases m) auto

lemma run_bind_eq_Inl_iff:
  "run_bind m f = Inl e \<longleftrightarrow> m = Inl e \<or> (\<exists>x. m = Inr x \<and> f x = Inl e)"
  by (cases m) auto


subsection \<open>Actions on a state\<close>

text \<open>
  A piece of code that changes a state and may panic half-way: the effects up to the panic stay.
\<close>

type_synonym ('s, 'a) act = "'s \<Rightarrow> 'a run \<times> 's"

definition act_return :: "'a \<Rightarrow> ('s, 'a) act" where
  "act_return x = (\<lambda>s. (Inr x, s))"

definition act_panic :: "go_panic \<Rightarrow> ('s, 'a) act" where
  "act_panic p = (\<lambda>s. (Inl p, s))"

definition act_bind :: "('s, 'a) act \<Rightarrow> ('a \<Rightarrow> ('s, 'b) act) \<Rightarrow> ('s, 'b) act" where
  "act_bind m f = (\<lambda>s. case m s of (Inl p, s') \<Rightarrow> (Inl p, s') | (Inr x, s') \<Rightarrow> f x s')"

definition act_seq :: "('s, unit) act \<Rightarrow> ('s, 'b) act \<Rightarrow> ('s, 'b) act" where
  "act_seq m k = act_bind m (\<lambda>_. k)"

definition act_get :: "('s \<Rightarrow> 'a) \<Rightarrow> ('s, 'a) act" where
  "act_get f = (\<lambda>s. (Inr (f s), s))"

definition act_modify :: "('s \<Rightarrow> 's) \<Rightarrow> ('s, unit) act" where
  "act_modify f = (\<lambda>s. (Inr (), f s))"

lemma act_simps [simp]:
  "act_return x s = (Inr x, s)"
  "act_panic p s = (Inl p, s)"
  "act_get f s = (Inr (f s), s)"
  "act_modify g s = (Inr (), g s)"
  by (simp_all add: act_return_def act_panic_def act_get_def act_modify_def)

lemma act_bind_eq:
  "act_bind m f s = (case fst (m s) of Inl p \<Rightarrow> (Inl p, snd (m s)) | Inr x \<Rightarrow> f x (snd (m s)))"
  by (simp add: act_bind_def split: prod.split sum.split)

lemma act_seq_eq:
  "act_seq m k s = (case fst (m s) of Inl p \<Rightarrow> (Inl p, snd (m s)) | Inr x \<Rightarrow> k (snd (m s)))"
  by (simp add: act_seq_def act_bind_eq)

lemmas act_eqs = act_bind_eq act_seq_eq

end
