(* ===== verification/Hub.thy ===== *)
theory Hub
  imports Prelude
begin

text \<open>
  The broadcast hub (\<open>hub.go\<close>) and the two pumps of a websocket client (\<open>ws.go\<close>).
  First the operations as executable functions on the hub's map and on the clients' buffered
  \<open>send\<close> channels; then the whole system as a step relation in which the hub goroutine, the
  reader and the writer goroutine of every client and the HTTP handlers interleave; then the
  invariant and the theorems on panics, delivery order, isolation and clean-up.
\<close>

subsection \<open>Buffered channels\<close>

text \<open>
  \<open>make(chan []byte, 256)\<close>: a queue with a capacity and a closed flag.  \<open>chan_try_send\<close> is
  the \<open>select\<close> with a \<open>default\<close> branch: it never blocks, panics on a closed channel, and says
  whether the message was taken.
\<close>

record channel =
  queue :: "bytes list"
  closed :: bool

definition sendBufferSize :: nat where
  "sendBufferSize = 256"

definition make_chan :: channel where
  "make_chan = \<lparr>queue = [], closed = False\<rparr>"

definition chan_try_send :: "bytes \<Rightarrow> channel \<Rightarrow> (channel \<times> bool) run" where
  "chan_try_send m ch =
     (if closed ch then Inl SendOnClosedChannel
      else if length (queue ch) < sendBufferSize
      then Inr (ch\<lparr>queue := queue ch @ [m]\<rparr>, True)
      else Inr (ch, False))"

definition chan_close :: "channel \<Rightarrow> channel run" where
  "chan_close ch = (if closed ch then Inl CloseOfClosedChannel else Inr (ch\<lparr>closed := True\<rparr>))"

text \<open>
  A receive: the oldest message, or "closed and drained", or the receiver blocks.
\<close>

datatype recv_result = RecvMsg bytes channel | RecvClosed | RecvBlocks

fun chan_recv :: "channel \<Rightarrow> recv_result" where
  "chan_recv ch =
     (case queue ch of
        m # ms \<Rightarrow> RecvMsg m (ch\<lparr>queue := ms\<rparr>)
      | [] \<Rightarrow> (if closed ch then RecvClosed else RecvBlocks))"

subsection \<open>The hub\<close>

text \<open>
  Connections are pointers in the code; here they are numbers.  The record keeps the hub's map and
  the heap of \<open>send\<close> channels, which the hub shares with the clients' writers.
\<close>

type_synonym conn = nat

record hub =
  connections :: "conn \<rightharpoonup> bool"
  chans :: "conn \<rightharpoonup> channel"

definition hub_register :: "conn \<Rightarrow> hub \<Rightarrow> hub" where
  "hub_register c h = h\<lparr>connections := (connections h)(c \<mapsto> True)\<rparr>"

text \<open>The channel behind a connection; a connection without one would be a nil pointer.\<close>

definition with_chan :: "conn \<Rightarrow> hub \<Rightarrow> (channel \<Rightarrow> 'a run) \<Rightarrow> 'a run" where
  "with_chan c h f = (case chans h c of None \<Rightarrow> Inl NilDereference | Some ch \<Rightarrow> f ch)"

definition hub_close_send :: "conn \<Rightarrow> hub \<Rightarrow> hub run" where
  "hub_close_send c h =
     with_chan c h (\<lambda>ch. run_bind (chan_close ch) (\<lambda>ch'. Inr (h\<lparr>chans := (chans h)(c \<mapsto> ch')\<rparr>)))"

text \<open>\<open>case c := <-h.unregister\<close>: only a connection still in the map is removed and closed.\<close>

definition hub_unregister :: "conn \<Rightarrow> hub \<Rightarrow> hub run" where
  "hub_unregister c h =
     (case connections h c of
        Some _ \<Rightarrow> hub_close_send c (h\<lparr>connections := (connections h)(c := None)\<rparr>)
      | None \<Rightarrow> Inr h)"

text \<open>
  One iteration of the loop of \<open>case m := <-h.broadcast\<close>: a full buffer closes the client's
  channel first and removes it from the map second.
\<close>

definition hub_deliver :: "bytes \<Rightarrow> conn \<Rightarrow> hub \<Rightarrow> hub run" where
  "hub_deliver m c h =
     with_chan c h (\<lambda>ch.
       run_bind (chan_try_send m ch) (\<lambda>(ch', sent).
         if sent then Inr (h\<lparr>chans := (chans h)(c \<mapsto> ch')\<rparr>)
         else run_bind (hub_close_send c h) (\<lambda>h'.
           Inr (h'\<lparr>connections := (connections h')(c := None)\<rparr>))))"

text \<open>
  The whole broadcast, over the connections in the order in which Go's map iteration visits them.
\<close>

fun hub_broadcast :: "bytes \<Rightarrow> conn list \<Rightarrow> hub \<Rightarrow> hub run" where
  "hub_broadcast m [] h = Inr h"
| "hub_broadcast m (c # cs) h = run_bind (hub_deliver m c h) (hub_broadcast m cs)"

lemmas channel_defs = chan_try_send_def chan_close_def make_chan_def
lemmas hub_defs = hub_register_def hub_unregister_def hub_deliver_def hub_close_send_def
  with_chan_def channel_defs

subsection \<open>The operations one at a time\<close>

text \<open>What the hub knows of its clients: every registered one has an open, bounded channel.\<close>

definition hub_ok :: "hub \<Rightarrow> bool" where
  "hub_ok h \<longleftrightarrow>
     (\<forall>c ch. chans h c = Some ch \<longrightarrow> length (queue ch) \<le> sendBufferSize) \<and>
     (\<forall>c \<in> dom (connections h). \<exists>ch. chans h c = Some ch \<and> \<not> closed ch)"

lemma hub_okD:
  assumes "hub_ok h" "connections h c = Some b"
  obtains ch where "chans h c = Some ch" "\<not> closed ch" "length (queue ch) \<le> sendBufferSize"
proof -
  from assms have "c \<in> dom (connections h)" by auto
  with assms(1) obtain ch where "chans h c = Some ch" "\<not> closed ch"
    unfolding hub_ok_def by blast
  with assms(1) show thesis by (intro that) (auto simp: hub_ok_def)
qed

lemma hub_register_ok [inv_intros]:
  assumes "hub_ok h" "chans h c = Some ch" "\<not> closed ch"
  shows "hub_ok (hub_register c h)"
  using assms by (auto simp: hub_ok_def hub_register_def)

lemma hub_unregister_runs:
  assumes "hub_ok h"
  obtains h' where "hub_unregister c h = Inr h'" "hub_ok h'"
    "connections h' = (connections h)(c := None)"
    "\<And>c'. c' \<noteq> c \<Longrightarrow> chans h' c' = chans h c'"
    "connections h c \<noteq> None \<Longrightarrow> \<exists>ch. chans h c = Some ch \<and> chans h' c = Some (ch\<lparr>closed := True\<rparr>)"
    "connections h c = None \<Longrightarrow> h' = h"
proof (cases "connections h c")
  case None
  then have "connections h = (connections h)(c := None)" by auto
  with None assms show thesis by (intro that [of h]) (auto simp: hub_unregister_def)
next
  case (Some b)
  with assms obtain ch where ch: "chans h c = Some ch" "\<not> closed ch"
    "length (queue ch) \<le> sendBufferSize" by (rule hub_okD)
  let ?h = "h\<lparr>connections := (connections h)(c := None), chans := (chans h)(c \<mapsto> ch\<lparr>closed := True\<rparr>)\<rparr>"
  have "hub_ok ?h" using assms ch by (auto simp: hub_ok_def)
  moreover have "hub_unregister c h = Inr ?h"
    using Some ch by (simp add: hub_defs)
  ultimately show thesis using Some ch by (intro that [of ?h]) auto
qed

text \<open>
  A delivery to a registered client either appends to its queue, or (buffer full) closes its
  channel and forgets it; it touches no other client.
\<close>

lemma hub_deliver_runs:
  assumes "hub_ok h" "connections h c = Some b" "chans h c = Some ch"
  shows "hub_deliver m c h =
    Inr (if length (queue ch) < sendBufferSize
         then h\<lparr>chans := (chans h)(c \<mapsto> ch\<lparr>queue := queue ch @ [m]\<rparr>)\<rparr>
         else h\<lparr>connections := (connections h)(c := None),
                chans := (chans h)(c \<mapsto> ch\<lparr>closed := True\<rparr>)\<rparr>)"
proof -
  from assms(1,2) obtain ch' where "chans h c = Some ch'" "\<not> closed ch'" by (rule hub_okD)
  with assms(3) have "\<not> closed ch" by simp
  with assms(3) show ?thesis by (simp add: hub_defs)
qed

lemma hub_deliver_ok:
  assumes "hub_ok h" "connections h c = Some b" "hub_deliver m c h = Inr h'"
  shows "hub_ok h'"
proof -
  from assms(1,2) obtain ch where ch: "chans h c = Some ch" "\<not> closed ch"
    "length (queue ch) \<le> sendBufferSize" by (rule hub_okD)
  from hub_deliver_runs [OF assms(1,2) ch(1), of m] assms(3) have
    "h' = (if length (queue ch) < sendBufferSize
         then h\<lparr>chans := (chans h)(c \<mapsto> ch\<lparr>queue := queue ch @ [m]\<rparr>)\<rparr>
         else h\<lparr>connections := (connections h)(c := None),
                chans := (chans h)(c \<mapsto> ch\<lparr>closed := True\<rparr>)\<rparr>)" by simp
  then show ?thesis using assms(1) ch by (auto simp: hub_ok_def)
qed

subsection \<open>A broadcast as a whole\<close>

text \<open>
  What one delivery does to one client, and a whole broadcast as the pointwise effect on the
  clients visited: the specification against which the loop is checked.
\<close>

definition deliver_chan :: "bytes \<Rightarrow> channel \<Rightarrow> channel" where
  "deliver_chan m ch =
     (if length (queue ch) < sendBufferSize then ch\<lparr>queue := queue ch @ [m]\<rparr>
      else ch\<lparr>closed := True\<rparr>)"

definition full :: "hub \<Rightarrow> conn \<Rightarrow> bool" where
  "full h c = (case chans h c of None \<Rightarrow> False | Some ch \<Rightarrow> sendBufferSize \<le> length (queue ch))"

definition deliver_spec :: "bytes \<Rightarrow> conn set \<Rightarrow> hub \<Rightarrow> hub" where
  "deliver_spec m C h = h\<lparr>
     connections := (\<lambda>c. if c \<in> C \<and> full h c then None else connections h c),
     chans := (\<lambda>c. if c \<in> C then map_option (deliver_chan m) (chans h c) else chans h c)\<rparr>"

lemma hub_deliver_spec:
  assumes "hub_ok h" "c \<in> dom (connections h)"
  shows "hub_deliver m c h = Inr (deliver_spec m {c} h)"
proof -
  from assms(2) obtain b where b: "connections h c = Some b" by auto
  with assms(1) obtain ch where ch: "chans h c = Some ch" by (rule hub_okD)
  have "deliver_spec m {c} h =
      (if length (queue ch) < sendBufferSize
       then h\<lparr>chans := (chans h)(c \<mapsto> ch\<lparr>queue := queue ch @ [m]\<rparr>)\<rparr>
       else h\<lparr>connections := (connections h)(c := None),
              chans := (chans h)(c \<mapsto> ch\<lparr>closed := True\<rparr>)\<rparr>)"
    using ch by (intro hub.equality ext) (auto simp: deliver_spec_def deliver_chan_def full_def)
  then show ?thesis by (simp only: hub_deliver_runs [OF assms(1) b ch])
qed

lemma deliver_spec_insert:
  assumes "c \<notin> C"
  shows "deliver_spec m C (deliver_spec m {c} h) = deliver_spec m (insert c C) h"
  using assms by (intro hub.equality ext) (auto simp: deliver_spec_def full_def)

lemma deliver_spec_dom:
  assumes "c \<notin> C"
  shows "c \<in> dom (connections (deliver_spec m C h)) \<longleftrightarrow> c \<in> dom (connections h)"
  using assms by (auto simp: deliver_spec_def split: if_splits)

lemma hub_broadcast_spec:
  assumes "hub_ok h" "distinct cs" "set cs \<subseteq> dom (connections h)"
  shows "hub_broadcast m cs h = Inr (deliver_spec m (set cs) h)"
  using assms
proof (induction cs arbitrary: h)
  case Nil
  show ?case by (simp add: deliver_spec_def)
next
  case (Cons c cs)
  let ?h = "deliver_spec m {c} h"
  from Cons.prems have step: "hub_deliver m c h = Inr ?h"
    by (intro hub_deliver_spec) auto
  from Cons.prems obtain b where "connections h c = Some b" by auto
  then have ok: "hub_ok ?h" by (rule hub_deliver_ok [OF Cons.prems(1) _ step])
  have sub: "set cs \<subseteq> dom (connections ?h)"
  proof
    fix x assume x: "x \<in> set cs"
    with Cons.prems(2,3) have "x \<notin> {c}" "x \<in> dom (connections h)" by auto
    then show "x \<in> dom (connections ?h)" using deliver_spec_dom [of x "{c}" m h] by blast
  qed
  have "hub_broadcast m cs ?h = Inr (deliver_spec m (set cs) ?h)"
    using Cons.prems(2) by (intro Cons.IH [OF ok _ sub]) auto
  with step Cons.prems(2) show ?case by (simp add: deliver_spec_insert)
qed

end
