(* ===== verification/Pumps.thy ===== *)
theory Pumps
  imports Hub
begin

text \<open>
  The running system of \<open>ws.go\<close> and \<open>hub.go\<close>: one hub goroutine, and for every websocket
  client the goroutine of \<open>serveWs\<close>/\<open>readPump\<close> and the goroutine of \<open>writePump\<close>.  A step is
  one goroutine passing one of its blocking points; which one moves is not determined.  The
  channels \<open>register\<close>, \<open>unregister\<close> and \<open>broadcast\<close> are unbuffered, so a send on them is a
  rendezvous with the hub at its \<open>select\<close>.  The loop of a broadcast is not atomic: other
  goroutines move between two deliveries.
\<close>

subsection \<open>State\<close>

datatype frame = TextFrame bytes | PingFrame | CloseFrame

text \<open>
  Where the goroutine of \<open>serveWs\<close> is: not there, blocked on \<open>h.register <- c\<close>, about to start
  the writer, in \<open>ReadMessage\<close>, blocked on \<open>h.broadcast <- message\<close>, blocked on
  \<open>h.unregister <- c\<close> in the deferred function, finished.
\<close>

datatype reader_pc =
    RNone | RRegistering | RStarting | RReading | RBroadcasting bytes | RUnregistering | RDone

datatype writer_pc = WNone | WRunning | WDone

datatype hub_pc = HIdle | HBroadcasting bytes "conn list"

text \<open>
  \<open>wire\<close> is what was written to the peer.  The last three fields are history variables: the
  messages the hub has accepted for broadcast, how many there were when a client registered, and
  what its writer has taken from its channel.
\<close>

record sys =
  hb :: hub
  hpc :: hub_pc
  reader :: "conn \<Rightarrow> reader_pc"
  writer :: "conn \<Rightarrow> writer_pc"
  wire :: "conn \<Rightarrow> frame list"
  crashed :: "go_panic option"
  history :: "bytes list"
  joined :: "conn \<Rightarrow> nat"
  taken :: "conn \<Rightarrow> bytes list"

definition init_sys :: sys where
  "init_sys = \<lparr>hb = \<lparr>connections = Map.empty, chans = Map.empty\<rparr>, hpc = HIdle,
     reader = (\<lambda>_. RNone), writer = (\<lambda>_. WNone), wire = (\<lambda>_. []), crashed = None,
     history = [], joined = (\<lambda>_. 0), taken = (\<lambda>_. [])\<rparr>"

subsection \<open>The moves of the goroutines\<close>

text \<open>\<open>serveWs\<close> after the upgrade: \<open>c := &connection\{send: make(chan []byte, 256), ws: ws\}\<close>.\<close>

definition serveWs_accept :: "conn \<Rightarrow> sys \<Rightarrow> sys" where
  "serveWs_accept c s = s\<lparr>hb := (hb s)\<lparr>chans := (chans (hb s))(c \<mapsto> make_chan)\<rparr>,
     reader := (reader s)(c := RRegistering)\<rparr>"

text \<open>
  \<open>serveWs\<close> as a whole, up to its first blocking point: the method check, the upgrade (whose
  success is an argument) and the new connection.
\<close>

datatype serve_result = MethodNotAllowed405 | UpgradeRefused | Connected

definition serveWs :: "string \<Rightarrow> bool \<Rightarrow> conn \<Rightarrow> sys \<Rightarrow> serve_result \<times> sys" where
  "serveWs meth upgraded c s =
     (if meth \<noteq> ''GET'' then (MethodNotAllowed405, s)
      else if \<not> upgraded then (UpgradeRefused, s)
      else (Connected, serveWs_accept c s))"

text \<open>\<open>h.register <- c\<close> meets the hub.\<close>

definition sys_register :: "conn \<Rightarrow> sys \<Rightarrow> sys" where
  "sys_register c s = s\<lparr>hb := hub_register c (hb s), reader := (reader s)(c := RStarting),
     joined := (joined s)(c := length (history s))\<rparr>"

text \<open>\<open>go c.writePump(); c.readPump()\<close>.\<close>

definition start_pumps :: "conn \<Rightarrow> sys \<Rightarrow> sys" where
  "start_pumps c s = s\<lparr>writer := (writer s)(c := WRunning), reader := (reader s)(c := RReading)\<rparr>"

text \<open>
  \<open>readPump\<close>: \<open>ReadMessage\<close> returns a message, which is to be broadcast, or an error, which
  ends the loop and runs the deferred \<open>h.unregister <- c\<close>.
\<close>

definition readPump_read :: "conn \<Rightarrow> bytes option \<Rightarrow> sys \<Rightarrow> sys" where
  "readPump_read c r s = s\<lparr>reader := (reader s)(c :=
     (case r of Some m \<Rightarrow> RBroadcasting m | None \<Rightarrow> RUnregistering))\<rparr>"

text \<open>The hub takes a message off \<open>h.broadcast\<close> and starts its loop, in some order.\<close>

definition hub_take :: "bytes \<Rightarrow> conn list \<Rightarrow> sys \<Rightarrow> sys" where
  "hub_take m ord s = s\<lparr>hpc := HBroadcasting m ord, history := history s @ [m]\<rparr>"

definition hub_loop :: "bytes \<Rightarrow> conn \<Rightarrow> conn list \<Rightarrow> sys \<Rightarrow> sys" where
  "hub_loop m c cs s =
     (case hub_deliver m c (hb s) of
        Inr h' \<Rightarrow> s\<lparr>hb := h', hpc := HBroadcasting m cs\<rparr>
      | Inl e \<Rightarrow> s\<lparr>crashed := Some e\<rparr>)"

definition sys_unregister :: "conn \<Rightarrow> sys \<Rightarrow> sys" where
  "sys_unregister c s =
     (case hub_unregister c (hb s) of
        Inr h' \<Rightarrow> s\<lparr>hb := h', reader := (reader s)(c := RDone)\<rparr>
      | Inl e \<Rightarrow> s\<lparr>crashed := Some e\<rparr>)"

text \<open>
  One turn of the loop of \<open>writePump\<close> when \<open>c.send\<close> is ready; \<open>ok\<close> says whether the write to the
  websocket succeeds.  A message whose write fails ends the writer; a closed and drained channel
  makes it write a close frame (whose error the code ignores) and end.
\<close>

definition writePump_send :: "conn \<Rightarrow> bool \<Rightarrow> channel \<Rightarrow> sys \<Rightarrow> sys" where
  "writePump_send c ok ch s =
     (case chan_recv ch of
        RecvMsg m ch' \<Rightarrow> s\<lparr>hb := (hb s)\<lparr>chans := (chans (hb s))(c \<mapsto> ch')\<rparr>,
          taken := (taken s)(c := taken s c @ [m]),
          wire := (if ok then (wire s)(c := wire s c @ [TextFrame m]) else wire s),
          writer := (if ok then writer s else (writer s)(c := WDone))\<rparr>
      | RecvClosed \<Rightarrow> s\<lparr>wire := (if ok then (wire s)(c := wire s c @ [CloseFrame]) else wire s),
          writer := (writer s)(c := WDone)\<rparr>
      | RecvBlocks \<Rightarrow> s)"

definition writePump_tick :: "conn \<Rightarrow> bool \<Rightarrow> sys \<Rightarrow> sys" where
  "writePump_tick c ok s =
     (if ok then s\<lparr>wire := (wire s)(c := wire s c @ [PingFrame])\<rparr>
      else s\<lparr>writer := (writer s)(c := WDone)\<rparr>)"

inductive step :: "sys \<Rightarrow> sys \<Rightarrow> bool" where
  accept: "crashed s = None \<Longrightarrow> reader s c = RNone \<Longrightarrow>
    serveWs meth True c s = (Connected, t) \<Longrightarrow> step s t"
| register: "crashed s = None \<Longrightarrow> hpc s = HIdle \<Longrightarrow> reader s c = RRegistering \<Longrightarrow>
    step s (sys_register c s)"
| start: "crashed s = None \<Longrightarrow> reader s c = RStarting \<Longrightarrow> step s (start_pumps c s)"
| read: "crashed s = None \<Longrightarrow> reader s c = RReading \<Longrightarrow> step s (readPump_read c r s)"
| client_broadcast: "crashed s = None \<Longrightarrow> hpc s = HIdle \<Longrightarrow> reader s c = RBroadcasting m \<Longrightarrow>
    distinct ord \<Longrightarrow> set ord = dom (connections (hb s)) \<Longrightarrow>
    step s ((hub_take m ord s)\<lparr>reader := (reader s)(c := RReading)\<rparr>)"
| handler_broadcast: "crashed s = None \<Longrightarrow> hpc s = HIdle \<Longrightarrow>
    distinct ord \<Longrightarrow> set ord = dom (connections (hb s)) \<Longrightarrow> step s (hub_take m ord s)"
| deliver: "crashed s = None \<Longrightarrow> hpc s = HBroadcasting m (c # cs) \<Longrightarrow> step s (hub_loop m c cs s)"
| delivered: "crashed s = None \<Longrightarrow> hpc s = HBroadcasting m [] \<Longrightarrow> step s (s\<lparr>hpc := HIdle\<rparr>)"
| unregister: "crashed s = None \<Longrightarrow> hpc s = HIdle \<Longrightarrow> reader s c = RUnregistering \<Longrightarrow>
    step s (sys_unregister c s)"
| write_send: "crashed s = None \<Longrightarrow> writer s c = WRunning \<Longrightarrow> chans (hb s) c = Some ch \<Longrightarrow>
    chan_recv ch \<noteq> RecvBlocks \<Longrightarrow> step s (writePump_send c ok ch s)"
| write_tick: "crashed s = None \<Longrightarrow> writer s c = WRunning \<Longrightarrow> step s (writePump_tick c ok s)"

inductive reachable :: "sys \<Rightarrow> bool" where
  reachable_init: "reachable init_sys"
| reachable_step: "reachable s \<Longrightarrow> step s t \<Longrightarrow> reachable t"

inductive_cases stepE: "step s t"

lemmas move_defs = serveWs_accept_def sys_register_def start_pumps_def readPump_read_def
  hub_take_def hub_loop_def sys_unregister_def writePump_send_def writePump_tick_def

subsection \<open>The invariant\<close>

text \<open>The text messages among the frames written to a client.\<close>

fun texts :: "frame list \<Rightarrow> bytes list" where
  "texts [] = []"
| "texts (TextFrame m # fs) = m # texts fs"
| "texts (PingFrame # fs) = texts fs"
| "texts (CloseFrame # fs) = texts fs"

lemma texts_append [simp]: "texts (fs @ gs) = texts fs @ texts gs"
  by (induction fs rule: texts.induct) auto

text \<open>The message the running broadcast still has to deliver to a client.\<close>

definition pending :: "sys \<Rightarrow> conn \<Rightarrow> bytes list" where
  "pending s c = (case hpc s of HIdle \<Rightarrow> []
     | HBroadcasting m rem \<Rightarrow> (if c \<in> set rem then [m] else []))"

text \<open>
  What holds of one client, as a predicate on its local data: \<open>reg\<close> says whether it is in the
  hub's map.
\<close>

definition chan_inv :: "bytes list \<Rightarrow> bytes list \<Rightarrow> bool \<Rightarrow> reader_pc \<Rightarrow> channel \<Rightarrow> nat \<Rightarrow> bytes list \<Rightarrow> bool"
  where "chan_inv hist pend reg rd ch jn tk \<longleftrightarrow>
    length (queue ch) \<le> sendBufferSize \<and>
    (if rd = RRegistering then \<not> reg \<and> \<not> closed ch \<and> queue ch = [] \<and> tk = []
     else jn \<le> length hist \<and>
       (if reg then rd \<noteq> RDone \<and> \<not> closed ch \<and> tk @ queue ch @ pend = drop jn hist
        else closed ch \<and> prefix (tk @ queue ch) (drop jn hist)))"

definition wire_inv :: "reader_pc \<Rightarrow> writer_pc \<Rightarrow> channel \<Rightarrow> bytes list \<Rightarrow> frame list \<Rightarrow> bool"
  where "wire_inv rd wr ch tk wi \<longleftrightarrow>
    (wr = WNone \<longleftrightarrow> rd = RRegistering \<or> rd = RStarting) \<and>
    (if wr = WDone
     then prefix (texts wi) tk \<and> CloseFrame \<notin> set (butlast wi) \<and>
       (CloseFrame \<in> set wi \<longrightarrow> closed ch \<and> queue ch = [] \<and> texts wi = tk)
     else texts wi = tk \<and> CloseFrame \<notin> set wi)"

definition client_inv :: "sys \<Rightarrow> conn \<Rightarrow> bool" where
  "client_inv s c \<longleftrightarrow>
     (case chans (hb s) c of
        None \<Rightarrow> reader s c = RNone \<and> connections (hb s) c = None \<and> writer s c = WNone \<and>
          taken s c = [] \<and> wire s c = []
      | Some ch \<Rightarrow> reader s c \<noteq> RNone \<and>
          chan_inv (history s) (pending s c) (connections (hb s) c \<noteq> None) (reader s c) ch
            (joined s c) (taken s c) \<and>
          wire_inv (reader s c) (writer s c) ch (taken s c) (wire s c))"

definition loop_inv :: "sys \<Rightarrow> bool" where
  "loop_inv s \<longleftrightarrow> (case hpc s of HIdle \<Rightarrow> True
     | HBroadcasting m rem \<Rightarrow> distinct rem \<and> set rem \<subseteq> dom (connections (hb s)))"

definition sys_inv :: "sys \<Rightarrow> bool" where
  "sys_inv s \<longleftrightarrow> crashed s = None \<and> loop_inv s \<and> (\<forall>c. client_inv s c)"

lemmas client_defs = client_inv_def chan_inv_def wire_inv_def

lemma sys_inv_hub_ok:
  assumes "sys_inv s" shows "hub_ok (hb s)"
proof -
  have ci: "client_inv s c" for c using assms by (simp add: sys_inv_def)
  have *: "case chans (hb s) c of None \<Rightarrow> connections (hb s) c = None
     | Some ch \<Rightarrow> length (queue ch) \<le> sendBufferSize \<and>
        (connections (hb s) c \<noteq> None \<longrightarrow> \<not> closed ch)" for c
    using ci [of c] by (auto simp: client_defs split: option.splits if_splits)
  show ?thesis
    unfolding hub_ok_def
  proof (intro conjI allI impI ballI)
    fix c ch assume "chans (hb s) c = Some ch"
    with * [of c] show "length (queue ch) \<le> sendBufferSize" by simp
  next
    fix c assume "c \<in> dom (connections (hb s))"
    with * [of c] show "\<exists>ch. chans (hb s) c = Some ch \<and> \<not> closed ch"
      by (auto split: option.splits)
  qed
qed

lemma sys_inv_init: "sys_inv init_sys"
  by (simp add: sys_inv_def init_sys_def loop_inv_def client_inv_def)

text \<open>Every move keeps the invariant: the client that moves by its local data, the others by framing.\<close>

lemma sys_invI [inv_intros]:
  assumes "crashed s = None" "loop_inv s" "\<And>c. client_inv s c"
  shows "sys_inv s"
  using assms by (simp add: sys_inv_def)

lemma sys_invD:
  assumes "sys_inv s"
  shows "crashed s = None" "loop_inv s" "client_inv s c"
  using assms by (simp_all add: sys_inv_def)

lemma client_inv_frame:
  assumes "client_inv s c"
    "chans (hb t) c = chans (hb s) c" "connections (hb t) c = connections (hb s) c"
    "reader t c = reader s c" "writer t c = writer s c" "wire t c = wire s c"
    "taken t c = taken s c" "joined t c = joined s c" "history t = history s"
    "pending t c = pending s c"
  shows "client_inv t c"
  using assms by (auto simp: client_inv_def split: option.splits)

lemma pending_not_registered:
  assumes "loop_inv s" "connections (hb s) c = None"
  shows "pending s c = []"
  using assms by (auto simp: loop_inv_def pending_def split: hub_pc.splits)

lemma inv_accept:
  assumes inv: "sys_inv s" and "reader s c = RNone"
  shows "sys_inv (serveWs_accept c s)" (is "sys_inv ?t")
proof (rule sys_invI)
  show "crashed ?t = None" "loop_inv ?t"
    using sys_invD(1,2) [OF inv] by (auto simp: serveWs_accept_def loop_inv_def split: hub_pc.splits)
  fix c'
  from sys_invD(3) [OF inv, of c'] assms(2) show "client_inv ?t c'"
    by (cases "c' = c")
       (auto simp: client_defs serveWs_accept_def pending_def make_chan_def sendBufferSize_def
         split: option.splits)
qed

lemma inv_register:
  assumes inv: "sys_inv s" and "hpc s = HIdle" "reader s c = RRegistering"
  shows "sys_inv (sys_register c s)" (is "sys_inv ?t")
proof (rule sys_invI)
  show "crashed ?t = None" "loop_inv ?t"
    using sys_invD(1,2) [OF inv] assms(2) by (auto simp: sys_register_def loop_inv_def split: hub_pc.splits)
  fix c'
  from sys_invD(3) [OF inv, of c'] assms(2,3) show "client_inv ?t c'"
    by (cases "c' = c")
       (auto simp: client_defs sys_register_def pending_def hub_register_def split: option.splits)
qed

lemma inv_start:
  assumes inv: "sys_inv s" and "reader s c = RStarting"
  shows "sys_inv (start_pumps c s)" (is "sys_inv ?t")
proof (rule sys_invI)
  show "crashed ?t = None" "loop_inv ?t"
    using sys_invD(1,2) [OF inv] by (auto simp: start_pumps_def loop_inv_def split: hub_pc.splits)
  fix c'
  from sys_invD(3) [OF inv, of c'] assms(2) show "client_inv ?t c'"
    by (cases "c' = c")
       (auto simp: client_defs start_pumps_def pending_def split: option.splits if_splits)
qed

lemma inv_reader_moves:
  assumes inv: "sys_inv s" and "reader s c = r" "r \<notin> {RNone, RRegistering, RStarting, RDone}"
    "r' \<notin> {RNone, RRegistering, RStarting, RDone}"
  shows "sys_inv (s\<lparr>reader := (reader s)(c := r')\<rparr>)" (is "sys_inv ?t")
proof (rule sys_invI)
  show "crashed ?t = None" "loop_inv ?t"
    using sys_invD(1,2) [OF inv] by (auto simp: loop_inv_def split: hub_pc.splits)
  fix c'
  from sys_invD(3) [OF inv, of c'] assms(2-4) show "client_inv ?t c'"
    by (cases "c' = c") (auto simp: client_defs pending_def split: option.splits if_splits)
qed

lemma inv_read:
  assumes "sys_inv s" "reader s c = RReading"
  shows "sys_inv (readPump_read c r s)"
  unfolding readPump_read_def
  using assms by (intro inv_reader_moves [where r = RReading]) (auto split: option.splits)

lemma inv_take:
  assumes inv: "sys_inv s" and "hpc s = HIdle" "distinct ord" "set ord = dom (connections (hb s))"
  shows "sys_inv (hub_take m ord s)" (is "sys_inv ?t")
proof (rule sys_invI)
  show "crashed ?t = None" "loop_inv ?t"
    using sys_invD(1,2) [OF inv] assms(2-4) by (auto simp: hub_take_def loop_inv_def split: hub_pc.splits)
  fix c'
  have pend: "pending ?t c' = (if connections (hb s) c' = None then [] else [m])"
    using assms(4) by (auto simp: pending_def hub_take_def)
  from sys_invD(3) [OF inv, of c'] assms(2) show "client_inv ?t c'"
    unfolding client_inv_def chan_inv_def pend
    by (auto simp: hub_take_def pending_def prefix_def split: option.splits if_splits)
qed

text \<open>One delivery of the running broadcast.\<close>

lemma prefix_of_split:
  "xs @ ys = zs \<Longrightarrow> prefix (xs @ ys) zs"
  "xs @ ys @ ws = zs \<Longrightarrow> prefix (xs @ ys) zs"
  by (auto simp: prefix_def)

lemma inv_loop:
  assumes inv: "sys_inv s" and pc: "hpc s = HBroadcasting m (c # cs)"
  shows "sys_inv (hub_loop m c cs s)"
proof -
  from sys_invD(2) [OF inv] pc have loop: "c \<notin> set cs" "distinct cs" "c \<in> dom (connections (hb s))"
    "set cs \<subseteq> dom (connections (hb s))" by (auto simp: loop_inv_def)
  let ?h = "deliver_spec m {c} (hb s)"
  have "hub_deliver m c (hb s) = Inr ?h"
    using sys_inv_hub_ok [OF inv] loop(3) by (rule hub_deliver_spec)
  then have t: "hub_loop m c cs s = s\<lparr>hb := ?h, hpc := HBroadcasting m cs\<rparr>" (is "_ = ?t")
    by (simp add: hub_loop_def)
  have "sys_inv ?t"
  proof (rule sys_invI)
    show "crashed ?t = None" using sys_invD(1) [OF inv] by simp
    show "loop_inv ?t" using loop by (auto simp: loop_inv_def deliver_spec_def)
    fix c'
    from sys_invD(3) [OF inv, of c'] loop pc show "client_inv ?t c'"
      by (cases "c' = c")
         (auto simp: client_defs pending_def deliver_spec_def deliver_chan_def full_def
           split: option.splits if_splits intro: prefix_of_split)
  qed
  with t show ?thesis by simp
qed

lemma inv_loop_end:
  assumes inv: "sys_inv s" and pc: "hpc s = HBroadcasting m []"
  shows "sys_inv (s\<lparr>hpc := HIdle\<rparr>)" (is "sys_inv ?t")
proof (rule sys_invI)
  show "crashed ?t = None" "loop_inv ?t"
    using sys_invD(1) [OF inv] by (simp_all add: loop_inv_def)
  fix c'
  show "client_inv ?t c'"
    using sys_invD(3) [OF inv, of c'] by (rule client_inv_frame) (simp_all add: pending_def pc)
qed

text \<open>Unregistering: a client still registered is closed; one the hub has evicted is left alone.\<close>

lemma inv_unregister:
  assumes inv: "sys_inv s" and pc: "hpc s = HIdle" "reader s c = RUnregistering"
  shows "sys_inv (sys_unregister c s)"
proof -
  obtain h' where h': "hub_unregister c (hb s) = Inr h'"
    "connections h' = (connections (hb s))(c := None)"
    "\<And>c'. c' \<noteq> c \<Longrightarrow> chans h' c' = chans (hb s) c'"
    "connections (hb s) c \<noteq> None \<Longrightarrow>
       \<exists>ch. chans (hb s) c = Some ch \<and> chans h' c = Some (ch\<lparr>closed := True\<rparr>)"
    "connections (hb s) c = None \<Longrightarrow> h' = hb s"
    using hub_unregister_runs [OF sys_inv_hub_ok [OF inv], of c] by metis
  then have t: "sys_unregister c s = s\<lparr>hb := h', reader := (reader s)(c := RDone)\<rparr>" (is "_ = ?t")
    by (simp add: sys_unregister_def)
  have "sys_inv ?t"
  proof (rule sys_invI)
    show "crashed ?t = None" "loop_inv ?t"
      using sys_invD(1) [OF inv] pc by (simp_all add: loop_inv_def)
    fix c'
    show "client_inv ?t c'"
    proof (cases "c' = c")
      case False
      with h'(2,3) pc show ?thesis
        by (intro client_inv_frame [OF sys_invD(3) [OF inv, of c']]) (simp_all add: pending_def)
    next
      case True
      with sys_invD(3) [OF inv, of c] pc h'(2,4,5) show ?thesis
        by (cases "connections (hb s) c = None")
           (auto simp: client_defs pending_def split: option.splits intro: prefix_of_split)
    qed
  qed
  with t show ?thesis by simp
qed

text \<open>The writer.\<close>

lemma butlast_snoc_CloseFrame: "CloseFrame \<notin> set fs \<Longrightarrow> CloseFrame \<notin> set (butlast (fs @ [f]))"
  by simp

lemma inv_write_send:
  assumes inv: "sys_inv s" and pc: "writer s c = WRunning" "chans (hb s) c = Some ch"
  shows "sys_inv (writePump_send c ok ch s)" (is "sys_inv ?t")
proof (rule sys_invI)
  show "crashed ?t = None" "loop_inv ?t"
    using sys_invD(1,2) [OF inv]
    by (auto simp: writePump_send_def loop_inv_def split: hub_pc.splits recv_result.splits)
  fix c'
  show "client_inv ?t c'"
  proof (cases "c' = c")
    case False
    then show ?thesis
      by (intro client_inv_frame [OF sys_invD(3) [OF inv, of c']])
         (auto simp: pending_def writePump_send_def split: recv_result.splits)
  next
    case True
    have ci: "chan_inv (history s) (pending s c) (connections (hb s) c \<noteq> None) (reader s c) ch
        (joined s c) (taken s c)" "wire_inv (reader s c) WRunning ch (taken s c) (wire s c)"
        "reader s c \<noteq> RNone"
      using sys_invD(3) [OF inv, of c] pc by (simp_all add: client_inv_def)
    have pend: "pending ?t c = pending s c"
      by (auto simp: pending_def writePump_send_def split: recv_result.splits)
    show ?thesis
    proof (cases "queue ch")
      case Nil
      then have "client_inv ?t c" if "closed ch"
        using ci pc that unfolding client_inv_def pend
        by (cases ok) (auto simp: writePump_send_def wire_inv_def dest: in_set_butlastD)
      moreover have "client_inv ?t c" if "\<not> closed ch"
        using that Nil sys_invD(3) [OF inv, of c] by (simp add: writePump_send_def)
      ultimately show ?thesis using True by blast
    next
      case (Cons m ms)
      then have t: "chans (hb ?t) c = Some (ch\<lparr>queue := ms\<rparr>)" "reader ?t c = reader s c"
        "connections (hb ?t) c = connections (hb s) c" "history ?t = history s"
        "joined ?t c = joined s c" "taken ?t c = taken s c @ [m]"
        "wire ?t c = (if ok then wire s c @ [TextFrame m] else wire s c)"
        "writer ?t c = (if ok then WRunning else WDone)"
        using pc by (simp_all add: writePump_send_def)
      have "chan_inv (history s) (pending s c) (connections (hb s) c \<noteq> None) (reader s c)
          (ch\<lparr>queue := ms\<rparr>) (joined s c) (taken s c @ [m])"
        using ci(1) Cons by (auto simp: chan_inv_def split: if_splits)
      moreover have "wire_inv (reader s c) (if ok then WRunning else WDone) (ch\<lparr>queue := ms\<rparr>)
          (taken s c @ [m]) (if ok then wire s c @ [TextFrame m] else wire s c)"
        using ci(2) by (auto simp: wire_inv_def dest: in_set_butlastD)
      ultimately show ?thesis using ci(3) True by (simp add: client_inv_def pend t)
    qed
  qed
qed

lemma inv_write_tick:
  assumes inv: "sys_inv s" and pc: "writer s c = WRunning"
  shows "sys_inv (writePump_tick c ok s)" (is "sys_inv ?t")
proof (rule sys_invI)
  show "crashed ?t = None" "loop_inv ?t"
    using sys_invD(1,2) [OF inv]
    by (auto simp: writePump_tick_def loop_inv_def split: hub_pc.splits)
  fix c'
  from sys_invD(3) [OF inv, of c'] pc show "client_inv ?t c'"
    by (cases "c' = c")
       (auto simp: client_defs pending_def writePump_tick_def
         split: option.splits if_splits dest: in_set_butlastD)
qed

lemma inv_client_take:
  assumes inv: "sys_inv s" and pc: "hpc s = HIdle" "reader s c = RBroadcasting m"
    and ord: "distinct ord" "set ord = dom (connections (hb s))"
  shows "sys_inv ((hub_take m ord s)\<lparr>reader := (reader s)(c := RReading)\<rparr>)"
proof -
  have *: "reader (hub_take m ord s) = reader s" by (simp add: hub_take_def)
  have "sys_inv ((hub_take m ord s)\<lparr>reader := (reader (hub_take m ord s))(c := RReading)\<rparr>)"
    by (rule inv_reader_moves [OF inv_take [OF inv pc(1) ord], where r = "RBroadcasting m"])
       (simp_all add: * pc)
  then show ?thesis by (simp only: *)
qed

lemma step_inv: "step s t \<Longrightarrow> sys_inv s \<Longrightarrow> sys_inv t"
proof (induction rule: step.induct)
  case (client_broadcast s c m ord)
  then show ?case by (intro inv_client_take)
next
  case (accept s c meth t)
  then have "t = serveWs_accept c s" by (simp add: serveWs_def split: if_splits)
  with accept show ?case by (simp only: inv_accept)
qed (blast intro: inv_register inv_start inv_read inv_take inv_loop inv_loop_end
    inv_unregister inv_write_send inv_write_tick)+

lemma reachable_inv: "reachable s \<Longrightarrow> sys_inv s"
  by (induction rule: reachable.induct) (auto intro: sys_inv_init step_inv)

subsection \<open>What the clients see\<close>

lemma reachable_clientE:
  assumes "reachable s" "chans (hb s) c = Some ch"
  obtains "reader s c \<noteq> RNone"
    "chan_inv (history s) (pending s c) (connections (hb s) c \<noteq> None) (reader s c) ch
       (joined s c) (taken s c)"
    "wire_inv (reader s c) (writer s c) ch (taken s c) (wire s c)"
  using sys_invD(3) [OF reachable_inv [OF assms(1)], of c] assms(2) by (auto simp: client_inv_def)

text \<open>A run used as a concrete instance: one client connects and a handler broadcasts.\<close>

definition demo_connected :: sys where
  "demo_connected = start_pumps 0 (sys_register 0 (serveWs_accept 0 init_sys))"

definition demo_taken :: sys where
  "demo_taken = hub_take ''hi'' [0] demo_connected"

definition demo_queued :: sys where
  "demo_queued = (hub_loop ''hi'' 0 [] demo_taken)\<lparr>hpc := HIdle\<rparr>"

lemmas demo_defs = demo_connected_def demo_taken_def demo_queued_def init_sys_def move_defs hub_defs
  sendBufferSize_def

lemma demo_connected_reachable: "reachable demo_connected"
proof -
  have "step init_sys (serveWs_accept 0 init_sys)"
    by (rule step.accept [where c = 0 and meth = "''GET''"]) (simp_all add: serveWs_def init_sys_def)
  then have "reachable (serveWs_accept 0 init_sys)" by (rule reachable_step [OF reachable_init])
  then show ?thesis
    unfolding demo_connected_def
    by (intro reachable_step [OF _ step.start] reachable_step [OF _ step.register])
       (simp_all add: demo_defs)
qed

lemma demo_taken_reachable: "reachable demo_taken"
  unfolding demo_taken_def
  by (intro reachable_step [OF _ step.handler_broadcast] demo_connected_reachable)
     (auto simp: demo_defs)

lemma demo_queued_reachable: "reachable demo_queued"
proof -
  have "reachable (hub_loop ''hi'' 0 [] demo_taken)"
    by (intro reachable_step [OF _ step.deliver] demo_taken_reachable) (simp_all add: demo_defs)
  then show ?thesis
    unfolding demo_queued_def
    by (rule reachable_step [OF _ step.delivered [where m = "''hi''"]]) (simp_all add: demo_defs)
qed

definition demo_written :: sys where
  "demo_written = writePump_send 0 True (the (chans (hb demo_queued) 0)) demo_queued"

lemma demo_written_reachable: "reachable demo_written"
  unfolding demo_written_def
  by (intro reachable_step [OF _ step.write_send] demo_queued_reachable) (simp_all add: demo_defs)

text \<open>
  Property C20.  The hub goroutine never panics: in no interleaving of the hub, the readers, the
  writers and the HTTP handlers does it send on, or close, a channel that is already closed.
\<close>

theorem hub_never_panics:
  assumes "reachable s"
  shows "crashed s = None"
  using reachable_inv [OF assms] by (rule sys_invD)

theorem hub_never_panics_witness: "crashed demo_written = None"
  by (rule hub_never_panics [OF demo_written_reachable])

text \<open>
  Property C21.  Ordered, gap-free delivery: the text messages written to a client are a prefix of
  the messages the hub accepted for broadcast after the client registered, in that order.
\<close>

theorem delivery_in_order:
  assumes "reachable s"
  shows "prefix (texts (wire s c)) (drop (joined s c) (history s))"
proof (cases "chans (hb s) c")
  case None
  with sys_invD(3) [OF reachable_inv [OF assms], of c] show ?thesis by (simp add: client_inv_def)
next
  case (Some ch)
  with assms show ?thesis
    by (rule reachable_clientE)
       (auto simp: chan_inv_def wire_inv_def split: if_splits
         intro: append_prefixD prefix_order.trans prefix_of_split prefixI [OF sym])
qed

theorem delivery_in_order_witness:
  "wire demo_written 0 = [TextFrame ''hi''] \<and>
   prefix (texts (wire demo_written 0)) (drop (joined demo_written 0) (history demo_written))"
  using delivery_in_order [OF demo_written_reachable, of 0]
  by (simp add: demo_written_def demo_defs)

text \<open>
  Property C22.  Nothing is lost for a client that keeps up: while it is registered, its writer is
  alive and no broadcast is under way, what it was sent plus what is still in its buffer is exactly
  the sequence of broadcasts since it registered.
\<close>

theorem registered_client_complete:
  assumes "reachable s" "connections (hb s) c \<noteq> None" "hpc s = HIdle"
    "chans (hb s) c = Some ch" "writer s c = WRunning"
  shows "texts (wire s c) @ queue ch = drop (joined s c) (history s)"
  using assms(1,4)
  by (rule reachable_clientE)
     (use assms in \<open>auto simp: chan_inv_def wire_inv_def pending_def split: if_splits\<close>)

theorem registered_client_complete_witness:
  "texts (wire demo_queued 0) @ [''hi''] = drop (joined demo_queued 0) (history demo_queued)"
  using registered_client_complete [OF demo_queued_reachable, of 0 "\<lparr>queue = [''hi''], closed = False\<rparr>"]
  by (simp add: demo_defs)

text \<open>
  Property C23.  Bounds of a client's connection: its buffer never holds more than 256 messages,
  and a close frame is the last frame written to it.
\<close>

theorem client_bounds:
  assumes "reachable s" "chans (hb s) c = Some ch"
  shows "length (queue ch) \<le> 256 \<and> CloseFrame \<notin> set (butlast (wire s c))"
  using assms
  by (rule reachable_clientE)
     (auto simp: chan_inv_def wire_inv_def sendBufferSize_def split: if_splits dest: in_set_butlastD)

theorem client_bounds_witness:
  "CloseFrame \<notin> set (butlast (wire demo_written 0)) \<and> length ([] :: bytes list) \<le> 256"
  using client_bounds [OF demo_written_reachable, of 0 "\<lparr>queue = [], closed = False\<rparr>"]
  by (simp add: demo_written_def demo_defs)

text \<open>
  Clean-up: once a client's reader has finished, the client is out of the hub's map
  and its channel is closed, so its writer sees the end of the channel and stops.
\<close>

theorem finished_reader_cleaned_up:
  assumes "reachable s" "reader s c = RDone"
  shows "connections (hb s) c = None \<and> (\<exists>ch. chans (hb s) c = Some ch \<and> closed ch)"
proof (cases "chans (hb s) c")
  case None
  with sys_invD(3) [OF reachable_inv [OF assms(1)], of c] assms(2) show ?thesis
    by (simp add: client_inv_def)
next
  case (Some ch)
  with assms(1) show ?thesis
    by (rule reachable_clientE) (use assms Some in \<open>auto simp: chan_inv_def split: if_splits\<close>)
qed

definition demo_gone :: sys where
  "demo_gone = sys_unregister 0 (readPump_read 0 None demo_connected)"

lemma demo_gone_reachable: "reachable demo_gone"
  unfolding demo_gone_def
  by (intro reachable_step [OF _ step.unregister] reachable_step [OF _ step.read]
      demo_connected_reachable) (simp_all add: demo_defs)

theorem finished_reader_cleaned_up_witness:
  "reader demo_gone 0 = RDone \<and> connections (hb demo_gone) 0 = None"
proof -
  have r: "reader demo_gone 0 = RDone" by (simp add: demo_gone_def demo_defs)
  with finished_reader_cleaned_up [OF demo_gone_reachable this] show ?thesis by simp
qed

text \<open>
  Property C24.  A slow client never blocks the hub: from any reachable state the hub, moving
  alone, finishes the broadcast it is in and is back at its \<open>select\<close>.
\<close>

definition hub_only :: "sys \<Rightarrow> sys \<Rightarrow> bool" where
  "hub_only s t \<longleftrightarrow> reader t = reader s \<and> writer t = writer s \<and> wire t = wire s \<and>
     history t = history s"

lemma hub_finishes:
  assumes "sys_inv s" "hpc s = HBroadcasting m rem"
  shows "\<exists>t. step\<^sup>*\<^sup>* s t \<and> hub_only s t \<and> hpc t = HIdle"
  using assms
proof (induction rem arbitrary: s)
  case Nil
  then have "step s (s\<lparr>hpc := HIdle\<rparr>)" by (intro step.delivered) (auto dest: sys_invD(1))
  moreover have "hub_only s (s\<lparr>hpc := HIdle\<rparr>)" by (simp add: hub_only_def)
  ultimately show ?case by (intro exI [of _ "s\<lparr>hpc := HIdle\<rparr>"]) auto
next
  case (Cons c cs)
  let ?u = "hub_loop m c cs s"
  have u: "step s ?u" using Cons.prems by (intro step.deliver) (auto dest: sys_invD(1))
  have inv: "sys_inv ?u" using Cons.prems by (rule inv_loop)
  then have "hpc ?u = HBroadcasting m cs \<and> hub_only s ?u"
    by (auto dest: sys_invD(1) simp: hub_loop_def hub_only_def split: sum.splits)
  with Cons.IH [OF inv] obtain t where "step\<^sup>*\<^sup>* ?u t" "hub_only ?u t" "hpc t = HIdle"
    "hub_only s ?u" by blast
  with u show ?case by (intro exI [of _ t]) (auto simp: hub_only_def)
qed

theorem hub_never_blocked:
  assumes "reachable s"
  shows "\<exists>t. step\<^sup>*\<^sup>* s t \<and> hub_only s t \<and> hpc t = HIdle"
proof (cases "hpc s")
  case HIdle
  then show ?thesis by (intro exI [of _ s]) (simp add: hub_only_def)
next
  case (HBroadcasting m rem)
  with reachable_inv [OF assms] show ?thesis by (rule hub_finishes)
qed

theorem hub_never_blocked_witness:
  "hpc demo_taken = HBroadcasting ''hi'' [0] \<and>
   (\<exists>t. step\<^sup>*\<^sup>* demo_taken t \<and> hub_only demo_taken t \<and> hpc t = HIdle)"
  using hub_never_blocked [OF demo_taken_reachable] by (simp add: demo_defs)

end
