(* ===== verification/GoStrings.thy ===== *)
theory GoStrings
  imports Prelude "HOL-Library.Char_ord" "HOL-Library.List_Lexorder"
begin

text \<open>
  The functions of Go's \<open>strings\<close>, \<open>encoding/hex\<close> and \<open>strconv\<close> that the code calls, on byte
  strings, and the laws the other theories use (splitting undoes joining, trimming, escaping by
  replacement).
\<close>

subsection \<open>Split, join, trim\<close>

text \<open>\<open>strings.Split(s, sep)\<close> with a one-byte separator.\<close>

fun split_on :: "char \<Rightarrow> string \<Rightarrow> string list" where
  "split_on c [] = [[]]"
| "split_on c (x # xs) =
     (if x = c then [] # split_on c xs
      else (case split_on c xs of [] \<Rightarrow> [[x]] | p # ps \<Rightarrow> (x # p) # ps))"

text \<open>\<open>strings.SplitN(s, sep, 2)\<close>: one part when the separator does not occur, two otherwise.\<close>

fun split_two :: "char \<Rightarrow> string \<Rightarrow> string list" where
  "split_two c [] = [[]]"
| "split_two c (x # xs) =
     (if x = c then [[], xs]
      else (case split_two c xs of [] \<Rightarrow> [[x]] | p # ps \<Rightarrow> (x # p) # ps))"

fun join_with :: "string \<Rightarrow> string list \<Rightarrow> string" where
  "join_with sep [] = []"
| "join_with sep [p] = p"
| "join_with sep (p # ps) = p @ sep @ join_with sep ps"

text \<open>\<open>strings.TrimRight(s, c)\<close> for a one-byte cutset.\<close>

definition trim_right :: "char \<Rightarrow> string \<Rightarrow> string" where
  "trim_right c s = rev (dropWhile (\<lambda>x. x = c) (rev s))"

lemma split_on_not_Nil [simp]: "split_on c s \<noteq> []"
  by (induction s) (auto split: list.splits)

lemma split_on_no_sep: "c \<notin> set s \<Longrightarrow> split_on c s = [s]"
  by (induction s) auto

lemma split_on_append:
  "c \<notin> set p \<Longrightarrow> split_on c (p @ c # s) = p # split_on c s"
  by (induction p) auto

lemma split_on_join:
  "ps \<noteq> [] \<Longrightarrow> (\<forall>p \<in> set ps. c \<notin> set p) \<Longrightarrow> split_on c (join_with [c] ps) = ps"
  by (induction "[c]" ps rule: join_with.induct) (auto simp: split_on_no_sep split_on_append)

lemma join_split_on: "join_with [c] (split_on c s) = s"
proof (induction s)
  case (Cons x s)
  then show ?case
    by (cases "split_on c s" rule: list.exhaust; cases "tl (split_on c s)") auto
qed simp

lemma split_two_no_sep: "c \<notin> set s \<Longrightarrow> split_two c s = [s]"
  by (induction s) auto

lemma split_two_append: "c \<notin> set p \<Longrightarrow> split_two c (p @ c # s) = [p, s]"
  by (induction p) auto

lemma trim_right_snoc:
  "trim_right c (s @ [x]) = (if x = c then trim_right c s else s @ [x])"
  by (simp add: trim_right_def)

lemma trim_right_id: "c \<notin> set s \<Longrightarrow> trim_right c s = s"
  by (cases s rule: rev_cases) (auto simp: trim_right_snoc, simp add: trim_right_def)

lemma trim_right_replicate:
  "c \<notin> set s \<Longrightarrow> trim_right c (s @ replicate n c) = s"
proof (induction n)
  case (Suc n)
  have "s @ replicate (Suc n) c = (s @ replicate n c) @ [c]"
    by (simp add: replicate_append_same)
  with Suc show ?case by (simp only: trim_right_snoc) simp
qed (simp add: trim_right_id)

subsection \<open>Case, search, replacement\<close>

definition to_upper_char :: "char \<Rightarrow> char" where
  "to_upper_char c = (let k = of_char c :: nat in
     if 97 \<le> k \<and> k \<le> 122 then char_of (k - 32) else c)"

definition to_lower_char :: "char \<Rightarrow> char" where
  "to_lower_char c = (let k = of_char c :: nat in
     if 65 \<le> k \<and> k \<le> 90 then char_of (k + 32) else c)"

text \<open>\<open>strings.ToUpper\<close> and \<open>strings.EqualFold\<close> on ASCII; other bytes are left alone.\<close>

definition to_upper :: "string \<Rightarrow> string" where
  "to_upper = map to_upper_char"

definition equal_fold :: "string \<Rightarrow> string \<Rightarrow> bool" where
  "equal_fold s t \<longleftrightarrow> map to_lower_char s = map to_lower_char t"

fun contains :: "string \<Rightarrow> string \<Rightarrow> bool" where
  "contains [] sub = (sub = [])"
| "contains (x # xs) sub = (take (length sub) (x # xs) = sub \<or> contains xs sub)"

text \<open>\<open>strings.NewReplacer(old1, new1, ...).Replace(s)\<close>: at each position the first pair that matches.\<close>

definition match_pair :: "(string \<times> string) list \<Rightarrow> string \<Rightarrow> (string \<times> string) option" where
  "match_pair ps s = List.find (\<lambda>(old, new). take (length old) s = old) ps"

function replace_pairs :: "(string \<times> string) list \<Rightarrow> string \<Rightarrow> string" where
  "replace_pairs ps [] = []"
| "replace_pairs ps (x # xs) =
     (case match_pair ps (x # xs) of
        Some (old, new) \<Rightarrow>
          (if old = [] then x # replace_pairs ps xs
           else new @ replace_pairs ps (drop (length old) (x # xs)))
      | None \<Rightarrow> x # replace_pairs ps xs)"
  by pat_completeness auto
termination by (relation "measure (\<lambda>(ps, s). length s)") auto

lemma match_pair_None:
  assumes "\<And>old new. (old, new) \<in> set ps \<Longrightarrow> old \<noteq> [] \<and> hd old \<noteq> x"
  shows "match_pair ps (x # xs) = None"
proof -
  have "take (length old) (x # xs) \<noteq> old" if "(old, new) \<in> set ps" for old new
    using assms [OF that] by (cases old) auto
  then show ?thesis by (auto simp: match_pair_def find_None_iff)
qed

text \<open>A string without the first byte of any pattern is left as it is.\<close>

lemma replace_pairs_id:
  assumes "\<And>old new. (old, new) \<in> set ps \<Longrightarrow> old \<noteq> [] \<and> hd old \<notin> set s"
  shows "replace_pairs ps s = s"
  using assms
proof (induction s)
  case (Cons x s)
  have "match_pair ps (x # s) = None"
    by (rule match_pair_None) (use Cons.prems in force)
  moreover have "replace_pairs ps s = s" using Cons.prems by (intro Cons.IH) fastforce
  ultimately show ?case by simp
qed simp

subsection \<open>Hexadecimal and decimal\<close>

definition hex_digit :: "nat \<Rightarrow> char" where
  "hex_digit n = (if n < 10 then char_of (48 + n) else char_of (87 + n))"

text \<open>\<open>fmt.Sprintf("%x", b)\<close> and \<open>hex.EncodeToString(b)\<close>.\<close>

definition hex_encode :: "bytes \<Rightarrow> string" where
  "hex_encode b = concat (map (\<lambda>c. let k = of_char c :: nat in [hex_digit (k div 16), hex_digit (k mod 16)]) b)"

definition hex_value :: "char \<Rightarrow> nat option" where
  "hex_value c = (let k = of_char c :: nat in
     if 48 \<le> k \<and> k \<le> 57 then Some (k - 48)
     else if 97 \<le> k \<and> k \<le> 102 then Some (k - 87)
     else if 65 \<le> k \<and> k \<le> 70 then Some (k - 55) else None)"

lemma hex_value_digit: "n < 16 \<Longrightarrow> hex_value (hex_digit n) = Some n"
  by (auto simp: hex_value_def hex_digit_def Let_def)

lemma hex_digit_inj: "hex_digit i = hex_digit j \<Longrightarrow> i < 16 \<Longrightarrow> j < 16 \<Longrightarrow> i = j"
  using hex_value_digit by (metis option.inject)

lemma hex_encode_Cons:
  "hex_encode (c # b) = hex_digit (of_char c div 16) # hex_digit (of_char c mod 16) # hex_encode b"
  by (simp add: hex_encode_def Let_def)

lemma length_hex_encode [simp]: "length (hex_encode b) = 2 * length b"
  by (induction b) (simp_all add: hex_encode_Cons, simp add: hex_encode_def)

lemma hex_encode_inj: "hex_encode a = hex_encode b \<Longrightarrow> a = b"
proof (induction a arbitrary: b)
  case Nil
  then have "length (hex_encode b) = 0" by (simp add: hex_encode_def)
  then show ?case by simp
next
  case (Cons x a)
  from Cons.prems have "length (hex_encode b) = length (hex_encode (x # a))" by simp
  then obtain y b' where b: "b = y # b'" by (cases b) auto
  have bd: "(of_char x :: nat) < 256" "(of_char y :: nat) < 256"
    using nat_of_char_less_256 by blast+
  from Cons.prems b have h: "hex_digit (of_char x div 16) = hex_digit (of_char y div 16)"
    "hex_digit (of_char x mod 16) = hex_digit (of_char y mod 16)" "hex_encode a = hex_encode b'"
    by (simp_all add: hex_encode_Cons)
  from h(3) have "a = b'" by (rule Cons.IH)
  have "(of_char x :: nat) div 16 = of_char y div 16" by (rule hex_digit_inj [OF h(1)]) (use bd in arith)+
  moreover have "(of_char x :: nat) mod 16 = of_char y mod 16" by (rule hex_digit_inj [OF h(2)]) simp_all
  ultimately have "(of_char x :: nat) = of_char y" by (metis div_mult_mod_eq)
  with b \<open>a = b'\<close> show ?case by simp
qed

fun digits_rev :: "nat \<Rightarrow> string" where
  "digits_rev n = (if n < 10 then [char_of (48 + n)] else char_of (48 + n mod 10) # digits_rev (n div 10))"

declare digits_rev.simps [simp del]

text \<open>\<open>strconv.Itoa\<close>.\<close>

definition show_nat :: "nat \<Rightarrow> string" where
  "show_nat n = rev (digits_rev n)"

definition show_int :: "int \<Rightarrow> string" where
  "show_int i = (if i < 0 then CHR ''-'' # show_nat (nat (- i)) else show_nat (nat i))"

definition digit_value :: "char \<Rightarrow> nat option" where
  "digit_value c = (let k = of_char c :: nat in if 48 \<le> k \<and> k \<le> 57 then Some (k - 48) else None)"

text \<open>A run of decimal digits, with the value read so far.\<close>

fun read_digits :: "nat \<Rightarrow> string \<Rightarrow> nat \<times> string" where
  "read_digits acc [] = (acc, [])"
| "read_digits acc (c # cs) =
     (case digit_value c of Some d \<Rightarrow> read_digits (10 * acc + d) cs | None \<Rightarrow> (acc, c # cs))"

lemma digit_value_char [simp]: "d < 10 \<Longrightarrow> digit_value (char_of (48 + d)) = Some d"
  by (simp add: digit_value_def)

definition no_digit_next :: "string \<Rightarrow> bool" where
  "no_digit_next s \<longleftrightarrow> (case s of [] \<Rightarrow> True | c # _ \<Rightarrow> digit_value c = None)"

lemma read_digits_stop: "no_digit_next s \<Longrightarrow> read_digits acc s = (acc, s)"
  by (cases s) (auto simp: no_digit_next_def)

lemma read_digits_show_nat:
  "read_digits acc (show_nat n @ s) = read_digits (10 ^ length (show_nat n) * acc + n) s"
  unfolding show_nat_def
proof (induction n arbitrary: s rule: digits_rev.induct)
  case (1 n)
  show ?case
  proof (cases "n < 10")
    case True
    then show ?thesis by (simp add: digits_rev.simps [of n])
  next
    case False
    let ?q = "n div 10" and ?r = "n mod 10"
    have "read_digits acc (rev (digits_rev n) @ s) =
        read_digits acc (rev (digits_rev ?q) @ (char_of (48 + ?r) # s))"
      using False by (simp add: digits_rev.simps [of n])
    also have "\<dots> = read_digits (10 ^ length (digits_rev ?q) * acc + ?q) (char_of (48 + ?r) # s)"
      using "1.IH" [OF False] by simp
    also have "\<dots> = read_digits (10 * (10 ^ length (digits_rev ?q) * acc + ?q) + ?r) s"
      by simp
    also have "10 * (10 ^ length (digits_rev ?q) * acc + ?q) + ?r
        = 10 ^ length (digits_rev n) * acc + n"
      using False by (simp add: digits_rev.simps [of n])
    finally show ?thesis by simp
  qed
qed

lemma digits_rev_digits: "c \<in> set (digits_rev n) \<Longrightarrow> digit_value c \<noteq> None"
proof (induction n rule: digits_rev.induct)
  case (1 n)
  then show ?case by (cases "n < 10") (auto simp: digits_rev.simps [of n])
qed

lemma show_nat_digits: "c \<in> set (show_nat n) \<Longrightarrow> digit_value c \<noteq> None"
  by (simp add: show_nat_def digits_rev_digits)

lemma show_nat_not_Nil [simp]: "show_nat n \<noteq> []"
  by (subst show_nat_def, subst digits_rev.simps) auto

lemma hd_show_nat_zero: "0 < n \<Longrightarrow> hd (show_nat n) \<noteq> CHR ''0''"
  unfolding show_nat_def
proof (induction n rule: digits_rev.induct)
  case (1 n)
  show ?case
  proof (cases "n < 10")
    case True
    have "char_of (48 + n) \<noteq> CHR ''0''"
    proof
      assume "char_of (48 + n) = CHR ''0''"
      then have "digit_value (char_of (48 + n)) = digit_value CHR ''0''" by simp
      with True 1(2) show False by (simp, simp add: digit_value_def)
    qed
    with True show ?thesis by (auto simp: digits_rev.simps [of n])
  next
    case False
    then have "0 < n div 10" by simp
    from "1.IH" [OF False this] False show ?thesis
      by (cases "rev (digits_rev (n div 10))") (auto simp: digits_rev.simps [of n] hd_append,
          metis digits_rev.simps list.discI rev.simps(1) rev_rev_ident)
  qed
qed

end
