(* ===== verification/Base64.thy ===== *)
theory Base64
  imports GoStrings
begin

text \<open>
  \<open>encoding/base64\<close> with the standard and the URL alphabet, and the unpadded segment encodings
  built on it: \<open>joseBase64UrlEncode\<close>/\<open>Decode\<close> of libtrust (\<open>util.go\<close>, and the copy in
  \<open>instance.go\<close>) and \<open>EncodeSegment\<close>/\<open>DecodeSegment\<close> of jwt-go (\<open>jwt.go\<close>).  The theory
  also fixes the interface of an encoding as a locale, which the JSON and token theories use.
\<close>

subsection \<open>The interface of an encoding\<close>

locale codec =
  fixes encode :: "'a \<Rightarrow> 'b" and decode :: "'b \<Rightarrow> 'a option"
  assumes decode_encode: "decode (encode x) = Some x"
begin

lemma encode_inj: "encode x = encode y \<Longrightarrow> x = y"
  by (metis decode_encode option.inject)

lemma encode_eq_iff: "encode x = encode y \<longleftrightarrow> x = y"
  by (auto dest: encode_inj)

lemma decode_map_encode: "map (\<lambda>x. decode (encode x)) xs = map Some xs"
  by (simp add: decode_encode)

end

text \<open>Two encodings one after the other.\<close>

locale codec_chain = inner: codec enc1 dec1 + outer: codec enc2 dec2
  for enc1 :: "'a \<Rightarrow> 'b" and dec1 :: "'b \<Rightarrow> 'a option"
  and enc2 :: "'b \<Rightarrow> 'c" and dec2 :: "'c \<Rightarrow> 'b option"

sublocale codec_chain \<subseteq> composed: codec "\<lambda>x. enc2 (enc1 x)" "\<lambda>y. Option.bind (dec2 y) dec1"
  by unfold_locales (simp add: outer.decode_encode inner.decode_encode)

subsection \<open>The alphabets\<close>

datatype alphabet = StdAlphabet | URLAlphabet

definition b64_char :: "alphabet \<Rightarrow> nat \<Rightarrow> char" where
  "b64_char a n =
     (if n < 26 then char_of (65 + n)
      else if n < 52 then char_of (71 + n)
      else if n < 62 then char_of (n - 4)
      else if n = 62 then (if a = URLAlphabet then CHR ''-'' else CHR ''+'')
      else (if a = URLAlphabet then CHR ''_'' else CHR ''/''))"

definition b64_value :: "alphabet \<Rightarrow> char \<Rightarrow> nat option" where
  "b64_value a c =
     (let k = of_char c :: nat in
      if 65 \<le> k \<and> k \<le> 90 then Some (k - 65)
      else if 97 \<le> k \<and> k \<le> 122 then Some (k - 71)
      else if 48 \<le> k \<and> k \<le> 57 then Some (k + 4)
      else if c = (if a = URLAlphabet then CHR ''-'' else CHR ''+'') then Some 62
      else if c = (if a = URLAlphabet then CHR ''_'' else CHR ''/'') then Some 63
      else None)"

definition pad :: char where
  "pad = CHR ''=''"

lemma b64_value_char [simp]: "n < 64 \<Longrightarrow> b64_value a (b64_char a n) = Some n"
  by (cases a) (auto simp: b64_value_def b64_char_def Let_def not_less)

lemma b64_value_pad [simp]: "b64_value a pad = None"
  by (cases a) (auto simp: b64_value_def pad_def)

lemma b64_char_not_pad [simp]: "n < 64 \<Longrightarrow> b64_char a n \<noteq> pad"
  by (metis b64_value_char b64_value_pad option.distinct(1))

lemma b64_value_dot: "b64_value a CHR ''.'' = None"
  by (cases a) (auto simp: b64_value_def)

lemma b64_char_not_dot: "n < 64 \<Longrightarrow> b64_char a n \<noteq> CHR ''.''"
  by (metis b64_value_char b64_value_dot option.distinct(1))

subsection \<open>Encoding\<close>

definition byte_val :: "char \<Rightarrow> nat" where
  "byte_val c = of_char c"

lemma byte_val_less [simp]: "byte_val c < 256"
  by (simp add: byte_val_def)

lemma char_of_byte_val [simp]: "char_of (byte_val c) = c"
  by (simp add: byte_val_def)

text \<open>The characters of a string without the padding, then with it.\<close>

fun b64_raw :: "alphabet \<Rightarrow> bytes \<Rightarrow> string" where
  "b64_raw a [] = []"
| "b64_raw a [x] =
     [b64_char a (byte_val x div 4), b64_char a (byte_val x mod 4 * 16)]"
| "b64_raw a [x, y] =
     [b64_char a (byte_val x div 4), b64_char a (byte_val x mod 4 * 16 + byte_val y div 16),
      b64_char a (byte_val y mod 16 * 4)]"
| "b64_raw a (x # y # z # r) =
     b64_char a (byte_val x div 4) # b64_char a (byte_val x mod 4 * 16 + byte_val y div 16) #
     b64_char a (byte_val y mod 16 * 4 + byte_val z div 64) # b64_char a (byte_val z mod 64) #
     b64_raw a r"

definition pad_count :: "nat \<Rightarrow> nat" where
  "pad_count n = (if n mod 3 = 0 then 0 else 3 - n mod 3)"

definition b64_encode :: "alphabet \<Rightarrow> bytes \<Rightarrow> string" where
  "b64_encode a b = b64_raw a b @ replicate (pad_count (length b)) pad"

subsection \<open>Decoding\<close>

text \<open>
  Go's decoder skips line breaks, requires the padding, allows it only in the last group and
  does not look at the unused bits before it.
\<close>

fun b64_groups :: "alphabet \<Rightarrow> string \<Rightarrow> bytes option" where
  "b64_groups a [] = Some []"
| "b64_groups a (w # x # y # z # r) =
     (case (b64_value a w, b64_value a x) of
        (Some i, Some j) \<Rightarrow>
          (if y = pad then (if z = pad \<and> r = [] then Some [char_of (i * 4 + j div 16)] else None)
           else (case b64_value a y of
              None \<Rightarrow> None
            | Some k \<Rightarrow>
                (if z = pad then
                   (if r = [] then Some [char_of (i * 4 + j div 16), char_of (j mod 16 * 16 + k div 4)]
                    else None)
                 else (case b64_value a z of
                    None \<Rightarrow> None
                  | Some l \<Rightarrow> map_option (\<lambda>bs. char_of (i * 4 + j div 16) #
                      char_of (j mod 16 * 16 + k div 4) # char_of (k mod 4 * 64 + l) # bs)
                      (b64_groups a r)))))
      | _ \<Rightarrow> None)"
| "b64_groups a _ = None"

definition is_line_break :: "char \<Rightarrow> bool" where
  "is_line_break c \<longleftrightarrow> of_char c = (10 :: nat) \<or> of_char c = (13 :: nat)"

definition b64_decode :: "alphabet \<Rightarrow> string \<Rightarrow> bytes option" where
  "b64_decode a s = b64_groups a (filter (\<lambda>c. \<not> is_line_break c) s)"

text \<open>The facts that make the round trip a computation on the groups.\<close>

lemma pack_unpack:
  fixes a b n :: nat
  assumes "b < n" shows "(a * n + b) div n = a" "(a * n + b) mod n = b"
  using assms by simp_all

lemma b64_bounds:
  "byte_val x div 4 < 64" "byte_val x div 16 < 16" "byte_val x div 64 < 4"
  by (rule less_mult_imp_div_less, simp)+

lemma b64_sextets:
  "byte_val x mod 4 * 16 + byte_val y div 16 < 64" "byte_val y mod 16 * 4 + byte_val z div 64 < 64"
  "byte_val x mod 4 * 16 < 64" "byte_val y mod 16 * 4 < 64"
proof -
  have "byte_val x mod 4 \<le> 3" "byte_val y mod 16 \<le> 15"
    by (simp_all add: less_Suc_eq_le [symmetric])
  with b64_bounds(2) [of y] b64_bounds(3) [of z]
  show "byte_val x mod 4 * 16 + byte_val y div 16 < 64" "byte_val y mod 16 * 4 + byte_val z div 64 < 64"
    "byte_val x mod 4 * 16 < 64" "byte_val y mod 16 * 4 < 64" by linarith+
qed

lemma b64_reassemble:
  "byte_val x div 4 * 4 + (byte_val x mod 4 * 16 + byte_val y div 16) div 16 = byte_val x"
  "(byte_val x mod 4 * 16 + byte_val y div 16) mod 16 * 16 + (byte_val y mod 16 * 4 + byte_val z div 64) div 4
    = byte_val y"
  "(byte_val y mod 16 * 4 + byte_val z div 64) mod 4 * 64 + byte_val z mod 64 = byte_val z"
  "(byte_val x mod 4 * 16 + byte_val y div 16) mod 16 * 16 + (byte_val y mod 16 * 4) div 4 = byte_val y"
  by (simp_all only: pack_unpack [OF b64_bounds(2)] pack_unpack [OF b64_bounds(3)]
      nonzero_mult_div_cancel_right [of 4] div_mult_mod_eq)

lemmas b64_bytes = b64_bounds b64_sextets b64_reassemble

lemma b64_groups_encode: "b64_groups a (b64_encode a b) = Some b"
proof (induction a b rule: b64_raw.induct)
  case (1 a)
  then show ?case by (simp add: b64_encode_def pad_count_def)
next
  case (2 a x)
  then show ?case
    by (simp add: b64_encode_def pad_count_def numeral_2_eq_2 b64_bytes)
next
  case (3 a x y)
  then show ?case
    by (simp add: b64_encode_def pad_count_def b64_bytes)
next
  case (4 a x y z r)
  have "pad_count (Suc (Suc (Suc (length r)))) = pad_count (length r)"
    by (simp add: pad_count_def mod_Suc)
  with 4 show ?case
    by (simp add: b64_encode_def b64_bytes)
qed

lemma b64_raw_chars: "c \<in> set (b64_raw a b) \<Longrightarrow> b64_value a c \<noteq> None"
  by (induction a b rule: b64_raw.induct) (auto simp: b64_bytes)

lemma b64_raw_no_pad: "pad \<notin> set (b64_raw a b)"
  using b64_raw_chars [of pad a b] by auto

lemma b64_raw_no_dot: "CHR ''.'' \<notin> set (b64_raw a b)"
  using b64_raw_chars [of "CHR ''.''" a b] b64_value_dot by auto

lemma b64_value_line_break: "is_line_break c \<Longrightarrow> b64_value a c = None"
  by (auto simp: is_line_break_def b64_value_def Let_def)

lemma b64_encode_no_line_break: "filter (\<lambda>c. \<not> is_line_break c) (b64_encode a b) = b64_encode a b"
proof -
  have "\<not> is_line_break c" if "c \<in> set (b64_encode a b)" for c
    using that b64_raw_chars [of c a b] b64_value_line_break [of c a]
    by (auto simp: b64_encode_def is_line_break_def pad_def)
  then show ?thesis by (simp add: filter_id_conv)
qed

lemma b64_decode_encode: "b64_decode a (b64_encode a b) = Some b"
  by (simp add: b64_decode_def b64_encode_no_line_break b64_groups_encode)

interpretation std64: codec "b64_encode StdAlphabet" "b64_decode StdAlphabet"
  by unfold_locales (rule b64_decode_encode)

subsection \<open>Unpadded segments\<close>

text \<open>\<open>joseBase64UrlEncode\<close> of libtrust and of \<open>instance.go\<close>, \<open>EncodeSegment\<close> of jwt-go.\<close>

definition joseBase64UrlEncode :: "bytes \<Rightarrow> string" where
  "joseBase64UrlEncode b = trim_right pad (b64_encode URLAlphabet b)"

definition joseBase64UrlDecode :: "string \<Rightarrow> bytes option" where
  "joseBase64UrlDecode s =
     (if length s mod 4 = 0 then b64_decode URLAlphabet s
      else if length s mod 4 = 2 then b64_decode URLAlphabet (s @ [pad, pad])
      else if length s mod 4 = 3 then b64_decode URLAlphabet (s @ [pad])
      else None)"

definition EncodeSegment :: "bytes \<Rightarrow> string" where
  "EncodeSegment seg = trim_right pad (b64_encode URLAlphabet seg)"

definition DecodeSegment :: "string \<Rightarrow> bytes option" where
  "DecodeSegment seg =
     (let l = length seg mod 4;
          padded = (if 0 < l then seg @ replicate (4 - l) pad else seg)
      in b64_decode URLAlphabet padded)"

lemma segment_raw:
  "joseBase64UrlEncode b = b64_raw URLAlphabet b" "EncodeSegment b = b64_raw URLAlphabet b"
  by (simp_all add: joseBase64UrlEncode_def EncodeSegment_def b64_encode_def
      trim_right_replicate b64_raw_no_pad)

lemma length_b64_raw: "length (b64_raw a b) mod 4 = (4 - pad_count (length b)) mod 4"
proof (induction a b rule: b64_raw.induct)
  case (4 a x y z r)
  have "pad_count (Suc (Suc (Suc (length r)))) = pad_count (length r)"
    by (simp add: pad_count_def mod_Suc)
  moreover have "Suc (Suc (Suc (Suc (length (b64_raw a r))))) mod 4 = length (b64_raw a r) mod 4"
    by presburger
  ultimately show ?case using 4 by simp
qed (simp_all add: pad_count_def)

lemma pad_count_cases:
  obtains "pad_count n = 0" | "pad_count n = 1" | "pad_count n = 2"
proof -
  have "n mod 3 < 3" by simp
  then have "n mod 3 = 0 \<or> n mod 3 = 1 \<or> n mod 3 = 2" by linarith
  with that show thesis by (auto simp: pad_count_def)
qed

lemma jose_decode_encode: "joseBase64UrlDecode (joseBase64UrlEncode b) = Some b"
  using b64_decode_encode [of URLAlphabet b] length_b64_raw [of URLAlphabet b]
  by (cases rule: pad_count_cases [of "length b"])
     (simp_all add: joseBase64UrlDecode_def segment_raw b64_encode_def numeral_2_eq_2)

lemma segment_decode_encode: "DecodeSegment (EncodeSegment b) = Some b"
  using b64_decode_encode [of URLAlphabet b] length_b64_raw [of URLAlphabet b]
  by (cases rule: pad_count_cases [of "length b"])
     (simp_all add: DecodeSegment_def segment_raw b64_encode_def Let_def numeral_2_eq_2)

interpretation jose: codec joseBase64UrlEncode joseBase64UrlDecode
  by unfold_locales (rule jose_decode_encode)

interpretation segment: codec EncodeSegment DecodeSegment
  by unfold_locales (rule segment_decode_encode)

lemma segment_no_dot [simp]: "CHR ''.'' \<notin> set (EncodeSegment b)"
  by (simp add: segment_raw b64_raw_no_dot)

text \<open>The two decoders agree, except that libtrust rejects the length jwt-go pads to garbage.\<close>

lemma jose_decode_segment:
  "joseBase64UrlDecode s = (if length s mod 4 = 1 then None else DecodeSegment s)"
proof -
  have "length s mod 4 < 4" by simp
  then consider "length s mod 4 = 0" | "length s mod 4 = 1" | "length s mod 4 = 2" | "length s mod 4 = 3"
    by linarith
  then show ?thesis
    by cases (simp_all add: joseBase64UrlDecode_def DecodeSegment_def Let_def numeral_2_eq_2)
qed

text \<open>
  The unpadded base64url encodings of libtrust and jwt-go are inverted by their
  decoders on every byte string, both libraries encode alike, and no encoded segment contains the
  dot that separates the segments of a token.
\<close>

theorem segment_codecs:
  "joseBase64UrlDecode (joseBase64UrlEncode b) = Some b \<and>
   DecodeSegment (EncodeSegment b) = Some b \<and>
   joseBase64UrlEncode b = EncodeSegment b \<and>
   CHR ''.'' \<notin> set (EncodeSegment b)"
  by (intro conjI jose.decode_encode segment.decode_encode segment_no_dot) (simp add: segment_raw)

end
