(* ===== verification/BigInt.thy ===== *)
theory BigInt
  imports Base64
begin

text \<open>
  Numbers as bytes: \<open>big.Int.Bytes\<close> and \<open>SetBytes\<close>, padding to a fixed length, the DER encoding of
  the two kinds of public key, and the base32 groups of a libtrust key identifier
  (\<open>libtrust/util.go\<close>).
\<close>

subsection \<open>Big-endian bytes\<close>

fun nat_bytes :: "nat \<Rightarrow> bytes" where
  "nat_bytes n = (if n = 0 then [] else nat_bytes (n div 256) @ [char_of (n mod 256)])"

declare nat_bytes.simps [simp del]

definition bytes_nat :: "bytes \<Rightarrow> nat" where
  "bytes_nat b = foldl (\<lambda>acc c. acc * 256 + of_char c) 0 b"

definition left_pad :: "nat \<Rightarrow> bytes \<Rightarrow> bytes" where
  "left_pad n b = replicate (n - length b) (char_of (0 :: nat)) @ b"

lemma bytes_nat_snoc: "bytes_nat (b @ [c]) = bytes_nat b * 256 + of_char c"
  by (simp add: bytes_nat_def)

lemma bytes_nat_Nil [simp]: "bytes_nat [] = 0"
  by (simp add: bytes_nat_def)

lemma bytes_nat_nat_bytes [simp]: "bytes_nat (nat_bytes n) = n"
proof (induction n rule: nat_bytes.induct)
  case (1 n)
  then show ?case
    by (cases "n = 0") (simp_all add: nat_bytes.simps [of n] nat_bytes.simps [of 0] bytes_nat_snoc)
qed

lemma bytes_nat_left_pad [simp]: "bytes_nat (left_pad n b) = bytes_nat b"
proof -
  have "bytes_nat (replicate k (char_of (0 :: nat)) @ b) = bytes_nat b" for k
    by (induction k) (simp_all add: bytes_nat_def)
  then show ?thesis by (simp add: left_pad_def)
qed

lemma nat_bytes_zero [simp]: "nat_bytes 0 = []"
  by (simp add: nat_bytes.simps)

lemma nat_bytes_pos: "0 < n \<Longrightarrow> nat_bytes n = nat_bytes (n div 256) @ [char_of (n mod 256)]"
  by (subst nat_bytes.simps) simp

lemma length_nat_bytes: "n < 256 ^ k \<Longrightarrow> length (nat_bytes n) \<le> k"
proof (induction k arbitrary: n)
  case (Suc k)
  show ?case
  proof (cases "n = 0")
    case False
    from Suc.prems have "n div 256 < 256 ^ k" by (simp add: less_mult_imp_div_less mult.commute)
    with Suc.IH False show ?thesis by (simp add: nat_bytes_pos)
  qed simp
qed simp

lemma length_left_pad: "length b \<le> n \<Longrightarrow> length (left_pad n b) = n"
  by (simp add: left_pad_def)

lemma bytes_nat_bound: "bytes_nat b < 256 ^ length b"
proof (induction b rule: rev_induct)
  case (snoc c b)
  have "of_char c < (256 :: nat)" by (metis of_char_mod_256 mod_less_divisor zero_less_numeral)
  moreover from snoc have "Suc (bytes_nat b) * 256 \<le> 256 ^ length b * 256" by (intro mult_right_mono) auto
  ultimately have "bytes_nat (b @ [c]) < 256 ^ length b * 256"
    unfolding bytes_nat_snoc by (simp only: mult_Suc)
  then show ?case by (simp add: mult.commute)
qed simp

lemma nat_bytes_hd: "0 < n \<Longrightarrow> \<exists>c cs. nat_bytes n = c # cs \<and> of_char c \<noteq> (0 :: nat)"
proof (induction n rule: nat_bytes.induct)
  case (1 n)
  show ?case
  proof (cases "n div 256 = 0")
    case True
    with 1(2) show ?thesis by (simp add: nat_bytes_pos)
  next
    case False
    with 1 obtain c cs where "nat_bytes (n div 256) = c # cs" "of_char c \<noteq> (0 :: nat)" by auto
    with 1(2) show ?thesis by (simp add: nat_bytes_pos [of n])
  qed
qed

fun bit_len :: "nat \<Rightarrow> nat" where
  "bit_len n = (if n = 0 then 0 else Suc (bit_len (n div 2)))"

declare bit_len.simps [simp del]

lemma bit_len_bound: "n < 2 ^ bit_len n"
proof (induction n rule: bit_len.induct)
  case (1 n)
  show ?case
  proof (cases "n = 0")
    case False
    with 1 have "n div 2 < 2 ^ bit_len (n div 2)" by blast
    then have "n < 2 * 2 ^ bit_len (n div 2)" by linarith
    with False show ?thesis by (subst bit_len.simps) simp
  qed (simp add: bit_len.simps)
qed

definition octets :: "nat \<Rightarrow> nat" where
  "octets bits = (bits + 7) div 8"

lemma octets_bound: "m < n \<Longrightarrow> length (nat_bytes m) \<le> octets (bit_len n)"
proof (rule length_nat_bytes)
  assume "m < n"
  also have "n < 2 ^ bit_len n" by (rule bit_len_bound)
  also have "(2 :: nat) ^ bit_len n \<le> 2 ^ (8 * octets (bit_len n))"
    by (rule power_increasing) (simp_all add: octets_def)
  also have "(2 :: nat) ^ (8 * octets (bit_len n)) = 256 ^ octets (bit_len n)" by (simp add: power_mult)
  finally show "m < 256 ^ octets (bit_len n)" .
qed

subsection \<open>DER\<close>

definition byte :: "nat \<Rightarrow> char" where
  "byte n = char_of n"

definition der_length :: "nat \<Rightarrow> bytes" where
  "der_length n = (if n < 128 then [byte n] else byte (128 + length (nat_bytes n)) # nat_bytes n)"

definition der_tlv :: "nat \<Rightarrow> bytes \<Rightarrow> bytes" where
  "der_tlv tag b = byte tag # der_length (length b) @ b"

definition der_integer :: "nat \<Rightarrow> bytes" where
  "der_integer n =
     (let b = nat_bytes n in der_tlv 2 (case b of
        [] \<Rightarrow> [byte 0]
      | c # _ \<Rightarrow> if 128 \<le> (of_char c :: nat) then byte 0 # b else b))"

definition der_sequence :: "bytes list \<Rightarrow> bytes" where
  "der_sequence bs = der_tlv 48 (concat bs)"

definition der_bit_string :: "bytes \<Rightarrow> bytes" where
  "der_bit_string b = der_tlv 3 (byte 0 # b)"

definition der_oid :: "nat list \<Rightarrow> bytes" where
  "der_oid bs = der_tlv 6 (map byte bs)"

subsection \<open>Key identifiers\<close>

definition base32_char :: "nat \<Rightarrow> char" where
  "base32_char v = ''ABCDEFGHIJKLMNOPQRSTUVWXYZ234567'' ! v"

fun base32_digits :: "nat \<Rightarrow> nat \<Rightarrow> string" where
  "base32_digits 0 v = []"
| "base32_digits (Suc k) v = base32_digits k (v div 32) @ [base32_char (v mod 32)]"

text \<open>\<open>base32.StdEncoding\<close> without its padding: every five bytes are eight digits.\<close>

fun base32_raw :: "bytes \<Rightarrow> string" where
  "base32_raw [] = []"
| "base32_raw [a] = base32_digits 2 (bytes_nat [a] * 4)"
| "base32_raw [a, b] = base32_digits 4 (bytes_nat [a, b] * 16)"
| "base32_raw [a, b, c] = base32_digits 5 (bytes_nat [a, b, c] * 2)"
| "base32_raw [a, b, c, d] = base32_digits 7 (bytes_nat [a, b, c, d] * 8)"
| "base32_raw (a # b # c # d # e # r) = base32_digits 8 (bytes_nat [a, b, c, d, e]) @ base32_raw r"

text \<open>\<open>keyIDEncode\<close>: groups of four with colons between them, what is left over in the last group.\<close>

fun colon_groups :: "nat \<Rightarrow> string \<Rightarrow> string" where
  "colon_groups 0 s = s"
| "colon_groups (Suc k) s = take 4 s @ '':'' @ colon_groups k (drop 4 s)"

definition keyIDEncode :: "bytes \<Rightarrow> string" where
  "keyIDEncode b = (let s = base32_raw b in colon_groups (length s div 4 - 1) s)"

end
