(* ===== verification/Json.thy ===== *)
theory Json
  imports Base64
begin

text \<open>
  \<open>encoding/json\<close> as far as the code uses it: values, \<open>Marshal\<close>, \<open>MarshalIndent\<close> and
  \<open>Unmarshal\<close> on byte strings, with the round trip between them.  Numbers are integers (the
  code's own numbers are lengths and Unix times); a number with a fraction or an exponent is a
  parse error here.  String bytes of 128 and above are copied, as Go does for valid UTF-8.
\<close>

subsection \<open>Values\<close>

datatype json =
    JNull
  | JBool bool
  | JNum int
  | JStr string
  | JArr "json list"
  | JObj "(string \<times> json) list"

text \<open>A \<open>map[string]interface\{\}\<close> is an object in canonical form: sorted, without duplicates.\<close>

type_synonym obj = "(string \<times> json) list"

fun obj_put :: "string \<Rightarrow> 'v \<Rightarrow> (string \<times> 'v) list \<Rightarrow> (string \<times> 'v) list" where
  "obj_put k v [] = [(k, v)]"
| "obj_put k v ((k', v') # m) =
     (if k = k' then (k, v) # m
      else if k < k' then (k, v) # (k', v') # m
      else (k', v') # obj_put k v m)"

definition obj_of :: "(string \<times> 'v) list \<Rightarrow> (string \<times> 'v) list" where
  "obj_of kvs = fold (\<lambda>(k, v) m. obj_put k v m) kvs []"

definition obj_sorted :: "(string \<times> 'v) list \<Rightarrow> bool" where
  "obj_sorted m \<longleftrightarrow> sorted_wrt (<) (map fst m)"

lemma map_of_obj_put [simp]: "map_of (obj_put k v m) = (map_of m)(k \<mapsto> v)"
  by (induction k v m rule: obj_put.induct) (auto simp: fun_eq_iff)

lemma map_of_fold_put:
  "map_of (fold (\<lambda>(k, v) m. obj_put k v m) kvs m) = map_of m ++ map_of (rev kvs)"
  by (induction kvs arbitrary: m) (auto simp: map_add_def split: option.splits)

lemma map_of_obj_of: "map_of (obj_of kvs) = map_of (rev kvs)"
  by (simp add: obj_of_def map_of_fold_put)

lemma fst_obj_put: "fst ` set (obj_put k v m) = insert k (fst ` set m)"
  by (induction k v m rule: obj_put.induct) auto

lemma obj_put_sorted: "obj_sorted m \<Longrightarrow> obj_sorted (obj_put k v m)"
proof (induction k v m rule: obj_put.induct)
  case (2 k v k' v' m)
  then show ?case
    using fst_obj_put [of k v m]
    by (auto simp: obj_sorted_def not_less le_less dest: less_trans)
qed (simp add: obj_sorted_def)

lemma obj_put_last: "obj_sorted (m @ [(k, v)]) \<Longrightarrow> obj_put k v m = m @ [(k, v)]"
  by (induction k v m rule: obj_put.induct) (auto simp: obj_sorted_def)

lemma fold_put_sorted: "obj_sorted (m @ kvs) \<Longrightarrow> fold (\<lambda>(k, v) m. obj_put k v m) kvs m = m @ kvs"
proof (induction kvs arbitrary: m)
  case (Cons p kvs)
  obtain k v where p: "p = (k, v)" by (cases p)
  from Cons.prems have "obj_sorted (m @ [(k, v)])"
    by (auto simp: obj_sorted_def sorted_wrt_append p)
  then have "obj_put k v m = m @ [(k, v)]" by (rule obj_put_last)
  with Cons p show ?case by simp
qed simp

lemma obj_of_sorted: "obj_sorted m \<Longrightarrow> obj_of m = m"
  using fold_put_sorted [of "[]" m] by (simp add: obj_of_def)

text \<open>Decoding into \<open>interface\{\}\<close>: every object becomes a map, the last of equal keys winning.\<close>

fun canon :: "json \<Rightarrow> json" where
  "canon (JArr vs) = JArr (map canon vs)"
| "canon (JObj kvs) = JObj (obj_of (map (\<lambda>(k, v). (k, canon v)) kvs))"
| "canon v = v"

lemma snd_obj_put: "p \<in> set (obj_put k v m) \<Longrightarrow> p = (k, v) \<or> p \<in> set m"
  by (induction k v m rule: obj_put.induct) (auto split: if_splits)

lemma sorted_fold_put: "obj_sorted m \<Longrightarrow> obj_sorted (fold (\<lambda>(k, v) m. obj_put k v m) kvs m)"
  by (induction kvs arbitrary: m) (auto intro: obj_put_sorted)

lemma set_fold_put: "set (fold (\<lambda>(k, v) m. obj_put k v m) kvs m) \<subseteq> set kvs \<union> set m"
proof (induction kvs arbitrary: m)
  case (Cons p kvs)
  then show ?case using snd_obj_put by (cases p) fastforce
qed simp

lemma canon_canon [simp]: "canon (canon v) = canon v"
proof (induction v rule: canon.induct)
  case (2 kvs)
  let ?m = "obj_of (map (\<lambda>(k, v). (k, canon v)) kvs)"
  have "set ?m \<subseteq> set (map (\<lambda>(k, v). (k, canon v)) kvs)"
    using set_fold_put [of "map (\<lambda>(k, v). (k, canon v)) kvs" "[]"] by (simp add: obj_of_def)
  then have "map (\<lambda>(k, v). (k, canon v)) ?m = ?m"
    using 2 by (intro map_idI) force
  moreover have "obj_sorted ?m"
    unfolding obj_of_def by (rule sorted_fold_put) (simp add: obj_sorted_def)
  ultimately show ?case by (simp add: obj_of_sorted)
qed simp_all

subsection \<open>Printing\<close>

text \<open>No layout for \<open>Marshal\<close>; the prefix and the indentation for \<open>MarshalIndent\<close>.\<close>

type_synonym layout = "(string \<times> string) option"

definition newline :: char where
  "newline = char_of (10 :: nat)"

definition json_nl :: "layout \<Rightarrow> nat \<Rightarrow> string" where
  "json_nl lay d = (case lay of None \<Rightarrow> []
     | Some (pre, indent) \<Rightarrow> newline # pre @ concat (replicate d indent))"

definition json_colon :: "layout \<Rightarrow> string" where
  "json_colon lay = (case lay of None \<Rightarrow> '':'' | Some _ \<Rightarrow> '': '')"

definition escape_char :: "char \<Rightarrow> string" where
  "escape_char c = (let k = of_char c :: nat in
     if c = CHR 0x22 \<or> c = CHR 0x5C then [CHR 0x5C, c]
     else if k = 10 then [CHR 0x5C, CHR ''n'']
     else if k = 13 then [CHR 0x5C, CHR ''r'']
     else if k < 32 \<or> c = CHR ''<'' \<or> c = CHR ''>'' \<or> c = CHR ''&''
     then [CHR 0x5C, CHR ''u'', CHR ''0'', CHR ''0'', hex_digit (k div 16), hex_digit (k mod 16)]
     else [c])"

definition json_string :: "string \<Rightarrow> string" where
  "json_string s = CHR 0x22 # concat (map escape_char s) @ [CHR 0x22]"

function json_print :: "layout \<Rightarrow> nat \<Rightarrow> json \<Rightarrow> string"
  and json_elems :: "layout \<Rightarrow> nat \<Rightarrow> json list \<Rightarrow> string"
  and json_members :: "layout \<Rightarrow> nat \<Rightarrow> (string \<times> json) list \<Rightarrow> string" where
  "json_print lay d JNull = ''null''"
| "json_print lay d (JBool b) = (if b then ''true'' else ''false'')"
| "json_print lay d (JNum n) = show_int n"
| "json_print lay d (JStr s) = json_string s"
| "json_print lay d (JArr vs) =
     (if vs = [] then ''[]'' else CHR ''['' # json_elems lay (Suc d) vs @ json_nl lay d @ '']'')"
| "json_print lay d (JObj kvs) =
     (if kvs = [] then ''{}'' else CHR ''{'' # json_members lay (Suc d) kvs @ json_nl lay d @ ''}'')"
| "json_elems lay d [] = []"
| "json_elems lay d (v # vs) =
     json_nl lay d @ json_print lay d v @ (if vs = [] then [] else CHR '','' # json_elems lay d vs)"
| "json_members lay d [] = []"
| "json_members lay d ((k, v) # kvs) =
     json_nl lay d @ json_string k @ json_colon lay @ json_print lay d v @
     (if kvs = [] then [] else CHR '','' # json_members lay d kvs)"
  by pat_completeness auto
termination
  by (relation "measure (\<lambda>x. case x of Inl (lay, d, v) \<Rightarrow> size v
        | Inr (Inl (lay, d, vs)) \<Rightarrow> size_list size vs
        | Inr (Inr (lay, d, kvs)) \<Rightarrow> size_list (size_prod (\<lambda>_. 0) size) kvs)") auto

definition Marshal :: "json \<Rightarrow> bytes" where
  "Marshal v = json_print None 0 v"

definition MarshalIndent :: "string \<Rightarrow> string \<Rightarrow> json \<Rightarrow> bytes" where
  "MarshalIndent pre indent v = json_print (Some (pre, indent)) 0 v"

subsection \<open>Parsing\<close>

definition is_ws :: "char \<Rightarrow> bool" where
  "is_ws c \<longleftrightarrow> of_char c = (32 :: nat) \<or> of_char c = (9 :: nat) \<or> of_char c = (10 :: nat) \<or>
     of_char c = (13 :: nat)"

definition skip_ws :: "string \<Rightarrow> string" where
  "skip_ws = dropWhile is_ws"

definition unescape :: "char \<Rightarrow> char option" where
  "unescape c =
     (if c = CHR 0x22 \<or> c = CHR 0x5C \<or> c = CHR ''/'' then Some c
      else if c = CHR ''b'' then Some (char_of (8 :: nat))
      else if c = CHR ''f'' then Some (char_of (12 :: nat))
      else if c = CHR ''n'' then Some (char_of (10 :: nat))
      else if c = CHR ''r'' then Some (char_of (13 :: nat))
      else if c = CHR ''t'' then Some (char_of (9 :: nat))
      else None)"

text \<open>\<open>\<backslash>uXXXX\<close>: the UTF-8 bytes of a code point of the basic plane.\<close>

definition utf8 :: "nat \<Rightarrow> string" where
  "utf8 n =
     (if n < 128 then [char_of n]
      else if n < 2048 then [char_of (192 + n div 64), char_of (128 + n mod 64)]
      else [char_of (224 + n div 4096), char_of (128 + n div 64 mod 64), char_of (128 + n mod 64)])"

definition hex4 :: "char \<Rightarrow> char \<Rightarrow> char \<Rightarrow> char \<Rightarrow> nat option" where
  "hex4 a b c d = (case (hex_value a, hex_value b, hex_value c, hex_value d) of
     (Some i, Some j, Some k, Some l) \<Rightarrow> Some (((i * 16 + j) * 16 + k) * 16 + l) | _ \<Rightarrow> None)"

definition prepend :: "string \<Rightarrow> (string \<times> string) option \<Rightarrow> (string \<times> string) option" where
  "prepend p = map_option (\<lambda>(s, r). (p @ s, r))"

text \<open>The body of a string literal, after the opening quote.\<close>

function parse_str :: "string \<Rightarrow> (string \<times> string) option" where
  "parse_str [] = None"
| "parse_str (c # r) =
     (if c = CHR 0x22 then Some ([], r)
      else if c = CHR 0x5C then
        (case r of
           [] \<Rightarrow> None
         | e # r1 \<Rightarrow>
             if e = CHR ''u'' then
               (case r1 of
                  a # b # c # d # r2 \<Rightarrow>
                    (case hex4 a b c d of
                       Some n \<Rightarrow> prepend (utf8 n) (parse_str r2)
                     | None \<Rightarrow> None)
                | _ \<Rightarrow> None)
             else (case unescape e of Some x \<Rightarrow> prepend [x] (parse_str r1) | None \<Rightarrow> None))
      else if (of_char c :: nat) < 32 then None
      else prepend [c] (parse_str r))"
  by pat_completeness auto
termination by (relation "measure length") auto

definition starts :: "string \<Rightarrow> string \<Rightarrow> string option" where
  "starts p s = (if take (length p) s = p then Some (drop (length p) s) else None)"

text \<open>An integer: no leading zeros, and nothing that would make it a fraction.\<close>

definition parse_num :: "string \<Rightarrow> (json \<times> string) option" where
  "parse_num s =
     (let (neg, r) = (case s of c # r \<Rightarrow> if c = CHR ''-'' then (True, r) else (False, s) | [] \<Rightarrow> (False, []))
      in case r of
           [] \<Rightarrow> None
         | c # r' \<Rightarrow>
             (case digit_value c of
                None \<Rightarrow> None
              | Some d \<Rightarrow>
                  (let (n, rest) = (if d = 0 then (0, r') else read_digits d r')
                   in Some (JNum (if neg then - int n else int n), rest))))"

fun parse_value :: "nat \<Rightarrow> string \<Rightarrow> (json \<times> string) option"
  and parse_elems :: "nat \<Rightarrow> string \<Rightarrow> (json list \<times> string) option"
  and parse_members :: "nat \<Rightarrow> string \<Rightarrow> ((string \<times> json) list \<times> string) option" where
  "parse_value 0 s = None"
| "parse_value (Suc f) s =
     (case skip_ws s of
        [] \<Rightarrow> None
      | c # r \<Rightarrow>
          if c = CHR ''{'' then
            (case starts ''}'' (skip_ws r) of
               Some r' \<Rightarrow> Some (JObj [], r')
             | None \<Rightarrow> map_option (\<lambda>(m, r'). (JObj m, r')) (parse_members f r))
          else if c = CHR ''['' then
            (case starts '']'' (skip_ws r) of
               Some r' \<Rightarrow> Some (JArr [], r')
             | None \<Rightarrow> map_option (\<lambda>(vs, r'). (JArr vs, r')) (parse_elems f r))
          else if c = CHR 0x22 then map_option (\<lambda>(t, r'). (JStr t, r')) (parse_str r)
          else if c = CHR ''n'' then map_option (Pair JNull) (starts ''ull'' r)
          else if c = CHR ''t'' then map_option (Pair (JBool True)) (starts ''rue'' r)
          else if c = CHR ''f'' then map_option (Pair (JBool False)) (starts ''alse'' r)
          else parse_num (c # r))"
| "parse_elems 0 s = None"
| "parse_elems (Suc f) s =
     (case parse_value f s of
        None \<Rightarrow> None
      | Some (v, r) \<Rightarrow>
          (case starts '','' (skip_ws r) of
             Some r1 \<Rightarrow> map_option (\<lambda>(vs, r'). (v # vs, r')) (parse_elems f r1)
           | None \<Rightarrow> map_option (\<lambda>r'. ([v], r')) (starts '']'' (skip_ws r))))"
| "parse_members 0 s = None"
| "parse_members (Suc f) s =
     (case starts [CHR 0x22] (skip_ws s) of
        None \<Rightarrow> None
      | Some r0 \<Rightarrow>
          (case parse_str r0 of
             None \<Rightarrow> None
           | Some (k, r1) \<Rightarrow>
               (case starts '':'' (skip_ws r1) of
                  None \<Rightarrow> None
                | Some r2 \<Rightarrow>
                    (case parse_value f r2 of
                       None \<Rightarrow> None
                     | Some (v, r3) \<Rightarrow>
                         (case starts '','' (skip_ws r3) of
                            Some r4 \<Rightarrow> map_option (\<lambda>(m, r'). ((k, v) # m, r')) (parse_members f r4)
                          | None \<Rightarrow> map_option (\<lambda>r'. ([(k, v)], r')) (starts ''}'' (skip_ws r3)))))))"

text \<open>
  \<open>Unmarshal\<close> into a syntax tree; only white space may follow the value.  Every call of the
  parser either consumes a character or is followed by one that does, so twice the length is fuel
  enough.
\<close>

definition Unmarshal :: "bytes \<Rightarrow> json option" where
  "Unmarshal s = (case parse_value (2 * length s + 2) s of
     Some (v, r) \<Rightarrow> (if skip_ws r = [] then Some v else None) | None \<Rightarrow> None)"

subsection \<open>Round trip\<close>

definition layout_ws :: "layout \<Rightarrow> bool" where
  "layout_ws lay \<longleftrightarrow> (case lay of None \<Rightarrow> True
     | Some (pre, indent) \<Rightarrow> (\<forall>c \<in> set pre. is_ws c) \<and> (\<forall>c \<in> set indent. is_ws c))"

lemma is_ws_newline [simp]: "is_ws newline"
  by (simp add: is_ws_def newline_def)

lemma json_nl_ws: "layout_ws lay \<Longrightarrow> c \<in> set (json_nl lay d) \<Longrightarrow> is_ws c"
  by (auto simp: json_nl_def layout_ws_def split: option.splits)

lemma skip_ws_append: "(\<And>c. c \<in> set w \<Longrightarrow> is_ws c) \<Longrightarrow> skip_ws (w @ s) = skip_ws s"
  by (simp add: skip_ws_def dropWhile_append2)

lemma skip_ws_nl [simp]: "layout_ws lay \<Longrightarrow> skip_ws (json_nl lay d @ s) = skip_ws s"
  by (rule skip_ws_append) (rule json_nl_ws)

lemma skip_ws_nonws [simp]: "\<not> is_ws c \<Longrightarrow> skip_ws (c # s) = c # s"
  by (simp add: skip_ws_def)

lemma parse_value_skip: "skip_ws s = skip_ws t \<Longrightarrow> parse_value f s = parse_value f t"
  by (cases f) simp_all

lemma parse_value_nl [simp]: "layout_ws lay \<Longrightarrow> parse_value f (json_nl lay d @ s) = parse_value f s"
  by (rule parse_value_skip) simp

lemma starts_append [simp]: "starts p (p @ s) = Some s"
  by (simp add: starts_def)

lemma starts_Cons [simp]: "starts [c] (x # s) = (if x = c then Some s else None)"
  by (auto simp: starts_def)

lemma starts_Nil [simp]: "starts [c] [] = None"
  by (simp add: starts_def)

lemma hex4_byte:
  assumes "k < 256"
  shows "hex4 CHR ''0'' CHR ''0'' (hex_digit (k div 16)) (hex_digit (k mod 16)) = Some k"
proof -
  have "hex_value CHR ''0'' = Some 0" by (simp add: hex_value_def)
  moreover have "k div 16 < 16" using assms by arith
  ultimately show ?thesis by (simp add: hex4_def hex_value_digit)
qed

lemma parse_str_escape: "parse_str (escape_char c @ s) = prepend [c] (parse_str s)"
proof -
  have un: "unescape CHR ''n'' = Some (char_of (10::nat))" "unescape CHR ''r'' = Some (char_of (13::nat))"
    "unescape CHR 0x22 = Some CHR 0x22" "unescape CHR 0x5C = Some CHR 0x5C"
    by (simp_all add: unescape_def)
  let ?k = "of_char c :: nat"
  have c: "char_of ?k = c" by simp
  have u: "hex4 CHR ''0'' CHR ''0'' (hex_digit (?k div 16)) (hex_digit (?k mod 16)) = Some ?k"
    by (rule hex4_byte) simp
  consider "c = CHR 0x22" | "c = CHR 0x5C" | "?k = 10" "c \<noteq> CHR 0x22" "c \<noteq> CHR 0x5C"
    | "?k = 13" "c \<noteq> CHR 0x22" "c \<noteq> CHR 0x5C"
    | "?k < 32 \<or> c = CHR ''<'' \<or> c = CHR ''>'' \<or> c = CHR ''&''" "?k \<noteq> 10" "?k \<noteq> 13"
      "c \<noteq> CHR 0x22" "c \<noteq> CHR 0x5C"
    | "\<not> (?k < 32 \<or> c = CHR ''<'' \<or> c = CHR ''>'' \<or> c = CHR ''&'')" "?k \<noteq> 10" "?k \<noteq> 13"
      "c \<noteq> CHR 0x22" "c \<noteq> CHR 0x5C"
    by blast
  then show ?thesis
  proof cases
    case 3
    then have "c = char_of (10::nat)" by (metis c)
    with 3 un show ?thesis by (simp add: escape_char_def)
  next
    case 4
    then have "c = char_of (13::nat)" by (metis c)
    with 4 un show ?thesis by (simp add: escape_char_def)
  next
    case 5
    then have "?k < 128" by auto
    with u have "parse_str (CHR 0x5C # CHR ''u'' # CHR ''0'' # CHR ''0'' # hex_digit (?k div 16) #
        hex_digit (?k mod 16) # s) = prepend [c] (parse_str s)"
      by (simp add: utf8_def)
    with 5 show ?thesis by (simp add: escape_char_def Let_def)
  qed (simp_all add: escape_char_def un)
qed

lemma prepend_prepend [simp]: "prepend p (prepend q x) = prepend (p @ q) x"
  by (cases x) (auto simp: prepend_def)

lemma prepend_Some [simp]: "prepend p (Some (s, r)) = Some (p @ s, r)"
  by (simp add: prepend_def)

lemma parse_str_body: "parse_str (concat (map escape_char s) @ CHR 0x22 # r) = Some (s, r)"
  by (induction s) (simp_all add: parse_str_escape)

lemma parse_num_show:
  assumes "no_digit_next r"
  shows "parse_num (show_int n @ r) = Some (JNum n, r)"
proof -
  have nat_case: "(case show_nat m @ r of c # r' \<Rightarrow>
      (case digit_value c of Some d \<Rightarrow> (if d = 0 then (0, r') else read_digits d r'))) = (m, r)
      \<and> (\<exists>c r' d. show_nat m @ r = c # r' \<and> digit_value c = Some d)" for m
  proof -
    obtain c cs where ccs: "show_nat m = c # cs" by (cases "show_nat m") auto
    with show_nat_digits [of c m] obtain d where d: "digit_value c = Some d" by auto
    have all: "read_digits 0 (show_nat m @ r) = (m, r)"
      using read_digits_show_nat [of 0 m r] assms by (simp add: read_digits_stop)
    show ?thesis
    proof (cases "d = 0")
      case False
      with all ccs d show ?thesis by simp
    next
      case True
      have "m = 0"
      proof (rule ccontr)
        assume "m \<noteq> 0"
        then have "c \<noteq> CHR ''0''" using hd_show_nat_zero [of m] ccs by simp
        moreover have "c = CHR ''0''"
        proof -
          from d True have "of_char c = (48::nat)" by (auto simp: digit_value_def Let_def split: if_splits)
          then have "char_of (of_char c :: nat) = (char_of (48::nat) :: char)" by simp
          moreover have "char_of (48::nat) = CHR ''0''" by code_simp
          ultimately show ?thesis by simp
        qed
        ultimately show False by simp
      qed
      with ccs have "cs = []" by (simp add: show_nat_def digits_rev.simps)
      with True ccs d \<open>m = 0\<close> show ?thesis by simp
    qed
  qed
  show ?thesis
  proof (cases "n < 0")
    case True
    from nat_case [of "nat (- n)"] True show ?thesis
      by (auto simp: parse_num_def show_int_def Let_def split: if_splits prod.splits)
  next
    case False
    obtain c cs where ccs: "show_nat (nat n) = c # cs" by (cases "show_nat (nat n)") auto
    with show_nat_digits [of c] have "digit_value c \<noteq> None" by (metis list.set_intros(1))
    then have "c \<noteq> CHR ''-''" by (auto simp: digit_value_def)
    with nat_case [of "nat n"] False ccs show ?thesis
      by (auto simp: parse_num_def show_int_def Let_def split: if_splits prod.splits)
  qed
qed

text \<open>The first character of a printed value, by which the parser chooses its branch.\<close>

definition json_start :: "char \<Rightarrow> bool" where
  "json_start c \<longleftrightarrow> \<not> is_ws c \<and> c \<noteq> CHR '']'' \<and> c \<noteq> CHR ''}'' \<and> c \<noteq> CHR '',''"

lemma digit_json_start: "digit_value c = Some d \<Longrightarrow> json_start c"
  by (auto simp: digit_value_def json_start_def is_ws_def Let_def split: if_splits)

lemma show_int_start: "\<exists>c r. show_int n = c # r \<and> json_start c \<and> c \<notin> {CHR ''{'', CHR ''['', CHR 0x22, CHR ''n'', CHR ''t'', CHR ''f''}"
proof (cases "n < 0")
  case True
  then show ?thesis by (simp add: show_int_def json_start_def is_ws_def)
next
  case False
  obtain c cs where ccs: "show_nat (nat n) = c # cs" by (cases "show_nat (nat n)") auto
  with show_nat_digits [of c "nat n"] obtain d where "digit_value c = Some d" by auto
  moreover from this have "c \<notin> {CHR ''{'', CHR ''['', CHR 0x22, CHR ''n'', CHR ''t'', CHR ''f''}"
    by (auto simp: digit_value_def)
  ultimately show ?thesis using False ccs by (auto simp: show_int_def dest: digit_json_start)
qed

lemma json_print_start: "\<exists>c r. json_print lay d v = c # r \<and> json_start c"
proof (cases v)
  case (JNum n)
  then show ?thesis using show_int_start [of n] by auto
qed (auto simp: json_string_def json_start_def is_ws_def)

lemma json_print_length: "0 < length (json_print lay d v)"
  using json_print_start [of lay d v] by auto

lemma skip_ws_print: "skip_ws (json_print lay d v @ s) = json_print lay d v @ s"
  using json_print_start [of lay d v] by (auto simp: json_start_def)

lemma parse_value_num:
  assumes "no_digit_next rest"
  shows "parse_value (Suc f) (show_int n @ rest) = Some (JNum n, rest)"
proof -
  obtain c r where cr: "show_int n = c # r" "json_start c"
    "c \<notin> {CHR ''{'', CHR ''['', CHR 0x22, CHR ''n'', CHR ''t'', CHR ''f''}"
    using show_int_start [of n] by (elim exE conjE)
  have "parse_num (c # r @ rest) = Some (JNum n, rest)"
    using parse_num_show [OF assms, of n] by (simp only: cr(1) append_Cons)
  moreover have "skip_ws (c # r @ rest) = c # r @ rest" using cr(2) by (simp add: json_start_def)
  ultimately show ?thesis using cr(3) by (simp add: cr(1))
qed

lemma no_digit_next_nl:
  assumes "layout_ws lay" "\<not> json_start c"
  shows "no_digit_next (json_nl lay e @ c # rest)"
proof (cases "json_nl lay e")
  case Nil
  with assms(2) digit_json_start [of c] show ?thesis
    by (cases "digit_value c") (auto simp: no_digit_next_def)
next
  case (Cons x xs)
  with json_nl_ws [OF assms(1), of x e] have "\<not> json_start x" by (simp add: json_start_def)
  with Cons digit_json_start [of x] show ?thesis
    by (cases "digit_value x") (auto simp: no_digit_next_def)
qed

lemma no_digit_next_comma: "no_digit_next (CHR '','' # rest)"
  by (simp add: no_digit_next_def digit_value_def)

lemma skip_ws_colon:
  "skip_ws (json_colon lay @ s) = '':'' @ (case lay of None \<Rightarrow> s | Some _ \<Rightarrow> CHR '' '' # s)"
  by (auto simp: json_colon_def skip_ws_def is_ws_def split: option.splits)

lemma parse_value_space: "parse_value f (CHR '' '' # s) = parse_value f s"
  by (rule parse_value_skip) (simp add: skip_ws_def is_ws_def)

lemma json_start_brackets [simp]: "json_start CHR '']'' = False" "json_start CHR ''}'' = False"
  by (simp_all add: json_start_def)

lemma is_ws_punct [simp]: "\<not> is_ws CHR '']''" "\<not> is_ws CHR ''}''" "\<not> is_ws CHR '',''" "\<not> is_ws CHR ''[''"
  "\<not> is_ws CHR ''{''" "\<not> is_ws CHR 0x22" "\<not> is_ws CHR '':''" "\<not> is_ws CHR ''n''" "\<not> is_ws CHR ''t''"
  "\<not> is_ws CHR ''f''"
  by (simp_all add: is_ws_def)

lemma elems_head: "layout_ws lay \<Longrightarrow> vs \<noteq> [] \<Longrightarrow> starts '']'' (skip_ws (json_elems lay d vs @ s)) = None"
  using json_print_start [of lay d "hd vs"]
  by (cases vs) (auto simp: json_start_def)

lemma members_head: "layout_ws lay \<Longrightarrow> kvs \<noteq> [] \<Longrightarrow>
    starts ''}'' (skip_ws (json_members lay d kvs @ s)) = None"
  by (cases kvs) (auto simp: json_string_def)

lemma parse_print:
  "layout_ws lay \<Longrightarrow> no_digit_next rest \<Longrightarrow> 2 * length (json_print lay d v) \<le> f \<Longrightarrow>
    parse_value f (json_print lay d v @ rest) = Some (v, rest)"
  "layout_ws lay \<Longrightarrow> vs \<noteq> [] \<Longrightarrow> 2 * length (json_elems lay d vs) + 1 \<le> f \<Longrightarrow>
    parse_elems f (json_elems lay d vs @ json_nl lay e @ CHR '']'' # rest) = Some (vs, rest)"
  "layout_ws lay \<Longrightarrow> kvs \<noteq> [] \<Longrightarrow> 2 * length (json_members lay d kvs) + 1 \<le> f \<Longrightarrow>
    parse_members f (json_members lay d kvs @ json_nl lay e @ CHR ''}'' # rest) = Some (kvs, rest)"
proof (induction lay d v and lay d vs and lay d kvs arbitrary: f rest and f rest e and f rest e
    rule: json_print_json_elems_json_members.induct)
  case (2 lay d b)
  then show ?case by (cases f; cases b) (simp_all add: starts_def)
next
  case (3 lay d n)
  have "0 < length (show_int n)" using show_int_start [of n] by auto
  with 3 show ?case by (cases f) (simp_all add: parse_value_num del: parse_value.simps)
next
  case (4 lay d s)
  then show ?case by (cases f) (simp_all add: json_string_def parse_str_body)
next
  case (5 lay d vs)
  show ?case
  proof (cases "vs = []")
    case True
    with 5 show ?thesis by (cases f) simp_all
  next
    case False
    with "5.prems" obtain g where f: "f = Suc g" by (cases f) auto
    have "parse_elems g (json_elems lay (Suc d) vs @ json_nl lay d @ CHR '']'' # rest) = Some (vs, rest)"
      using "5.prems" f False by (intro "5.IH") auto
    with False f elems_head [OF "5.prems"(1) False, of "Suc d"] show ?thesis by simp
  qed
next
  case (6 lay d kvs)
  show ?case
  proof (cases "kvs = []")
    case True
    with 6 show ?thesis by (cases f) simp_all
  next
    case False
    with "6.prems" obtain g where f: "f = Suc g" by (cases f) auto
    have "parse_members g (json_members lay (Suc d) kvs @ json_nl lay d @ CHR ''}'' # rest) = Some (kvs, rest)"
      using "6.prems" f False by (intro "6.IH") auto
    with False f members_head [OF "6.prems"(1) False, of "Suc d"] show ?thesis by simp
  qed
next
  case (8 lay d v vs)
  then obtain g where f: "f = Suc g" by (cases f) auto
  show ?case
  proof (cases "vs = []")
    case True
    have "parse_value g (json_print lay d v @ json_nl lay e @ CHR '']'' # rest) =
        Some (v, json_nl lay e @ CHR '']'' # rest)"
      using "8.prems" f by (intro "8.IH"(1) no_digit_next_nl) auto
    with True f "8.prems"(1) show ?thesis by simp
  next
    case False
    let ?more = "json_elems lay d vs @ json_nl lay e @ CHR '']'' # rest"
    have "parse_value g (json_print lay d v @ CHR '','' # ?more) = Some (v, CHR '','' # ?more)"
      using "8.prems" f by (intro "8.IH"(1) no_digit_next_comma) auto
    moreover have "parse_elems g ?more = Some (vs, rest)"
      using "8.prems" f False by (intro "8.IH"(2)) auto
    ultimately show ?thesis using False f "8.prems"(1) by simp
  qed
next
  case (10 lay d k v kvs)
  then obtain g where f: "f = Suc g" by (cases f) auto
  have key: "starts [CHR 0x22] (skip_ws (json_string k @ s)) =
      Some (concat (map escape_char k) @ CHR 0x22 # s)" for s
    by (simp add: json_string_def)
  have col: "starts '':'' (skip_ws (json_colon lay @ s)) = Some (case lay of None \<Rightarrow> s | Some _ \<Rightarrow> CHR '' '' # s)" for s
    by (simp add: skip_ws_colon)
  have val: "parse_value g (case lay of None \<Rightarrow> s | Some _ \<Rightarrow> CHR '' '' # s) = parse_value g s" for s
    by (simp add: parse_value_space split: option.splits)
  show ?case
  proof (cases "kvs = []")
    case True
    have "parse_value g (json_print lay d v @ json_nl lay e @ CHR ''}'' # rest) =
        Some (v, json_nl lay e @ CHR ''}'' # rest)"
      using "10.prems" f by (intro "10.IH"(1) no_digit_next_nl) auto
    with True f "10.prems"(1) show ?thesis by (simp add: key parse_str_body col val)
  next
    case False
    let ?more = "json_members lay d kvs @ json_nl lay e @ CHR ''}'' # rest"
    have "parse_value g (json_print lay d v @ CHR '','' # ?more) = Some (v, CHR '','' # ?more)"
      using "10.prems" f by (intro "10.IH"(1) no_digit_next_comma) auto
    moreover have "parse_members g ?more = Some (kvs, rest)"
      using "10.prems" f False by (intro "10.IH"(2)) auto
    ultimately show ?thesis using False f "10.prems"(1) by (simp add: key parse_str_body col val)
  qed
qed (case_tac [!] f, auto simp: starts_def)

lemma Unmarshal_print:
  assumes "layout_ws lay" "\<And>c. c \<in> set w \<Longrightarrow> is_ws c"
  shows "Unmarshal (json_print lay d v @ w) = Some v"
proof -
  have "no_digit_next w"
  proof (cases w)
    case (Cons c w')
    with assms(2) [of c] have "is_ws c" by simp
    then have "\<not> json_start c" by (simp add: json_start_def)
    with digit_json_start [of c] have "digit_value c = None" by (cases "digit_value c") auto
    with Cons show ?thesis by (simp add: no_digit_next_def)
  qed (simp add: no_digit_next_def)
  with assms(1) have "parse_value (2 * length (json_print lay d v @ w) + 2) (json_print lay d v @ w) = Some (v, w)"
    by (intro parse_print(1)) simp_all
  moreover have "skip_ws w = []" using assms(2) skip_ws_append [of w "[]"] by (simp add: skip_ws_def)
  ultimately show ?thesis by (simp add: Unmarshal_def)
qed

lemma Unmarshal_Marshal: "Unmarshal (Marshal v) = Some v"
  using Unmarshal_print [of None "[]" 0 v] by (simp add: Marshal_def layout_ws_def)

interpretation json_codec: codec Marshal Unmarshal
  by unfold_locales (rule Unmarshal_Marshal)

text \<open>The segment of a token that carries a JSON value.\<close>

interpretation json_segment: codec_chain Marshal Unmarshal EncodeSegment DecodeSegment ..

lemma Unmarshal_MarshalIndent:
  "(\<And>c. c \<in> set pre \<Longrightarrow> is_ws c) \<Longrightarrow> (\<And>c. c \<in> set indent \<Longrightarrow> is_ws c) \<Longrightarrow>
    Unmarshal (MarshalIndent pre indent v) = Some v"
  using Unmarshal_print [of "Some (pre, indent)" "[]" 0 v]
  by (simp add: MarshalIndent_def layout_ws_def)

end
