(* ===== verification/GoDecode.thy ===== *)
theory GoDecode
  imports Json
begin

text \<open>
  Decoding a JSON object into the fields of a Go struct: the keys are matched without regard to
  case, null leaves a field alone, the last occurrence wins, and a value of the wrong kind is
  skipped and makes the whole call report an error at its end.  Every decoder returns whether it
  succeeded and the value it leaves.
\<close>

definition members_named :: "string \<Rightarrow> (string \<times> json) list \<Rightarrow> json list" where
  "members_named name kvs = map snd (filter (\<lambda>(k, v). equal_fold k name) kvs)"

fun decode_string :: "json list \<Rightarrow> string \<Rightarrow> bool \<times> string" where
  "decode_string [] old = (True, old)"
| "decode_string (v # vs) old =
     (case v of
        JStr s \<Rightarrow> decode_string vs s
      | JNull \<Rightarrow> decode_string vs old
      | _ \<Rightarrow> (False, snd (decode_string vs old)))"

fun decode_bool :: "json list \<Rightarrow> bool \<Rightarrow> bool \<times> bool" where
  "decode_bool [] old = (True, old)"
| "decode_bool (v # vs) old =
     (case v of
        JBool b \<Rightarrow> decode_bool vs b
      | JNull \<Rightarrow> decode_bool vs old
      | _ \<Rightarrow> (False, snd (decode_bool vs old)))"

text \<open>A field of type \<open>interface\{\}\<close> takes the value, an object in canonical form.\<close>

fun decode_any :: "json list \<Rightarrow> json \<Rightarrow> json" where
  "decode_any [] old = old"
| "decode_any (v # vs) old = decode_any vs (canon v)"

text \<open>A field of type \<open>map[string]interface\{\}\<close>: the members of an object are added to the map there is;
  null makes it nil.\<close>

fun decode_map :: "json list \<Rightarrow> obj option \<Rightarrow> bool \<times> obj option" where
  "decode_map [] old = (True, old)"
| "decode_map (v # vs) old =
     (case v of
        JObj kvs \<Rightarrow> decode_map vs (Some (fold (\<lambda>(k, x) m. obj_put k (canon x) m) kvs (case old of None \<Rightarrow> [] | Some m \<Rightarrow> m)))
      | JNull \<Rightarrow> decode_map vs None
      | _ \<Rightarrow> (False, snd (decode_map vs old)))"

text \<open>A value into a slice: the elements are decoded over those there are already, or over a zero value;
  null makes the slice nil (\<open>None\<close>).\<close>

fun decode_elems :: "(json \<Rightarrow> 'a \<Rightarrow> bool \<times> 'a) \<Rightarrow> 'a \<Rightarrow> json list \<Rightarrow> 'a list \<Rightarrow> bool \<times> 'a list" where
  "decode_elems f zero [] old = (True, [])"
| "decode_elems f zero (v # vs) old =
     (let (ok, x) = f v (case old of [] \<Rightarrow> zero | o' # _ \<Rightarrow> o');
          (oks, xs) = decode_elems f zero vs (tl old)
      in (ok \<and> oks, x # xs))"

fun decode_slice :: "(json \<Rightarrow> 'a \<Rightarrow> bool \<times> 'a) \<Rightarrow> 'a \<Rightarrow> json list \<Rightarrow> 'a list option \<Rightarrow> bool \<times> 'a list option" where
  "decode_slice f zero [] old = (True, old)"
| "decode_slice f zero (v # vs) old =
     (case v of
        JArr es \<Rightarrow>
          (let (ok, xs) = decode_elems f zero es (case old of None \<Rightarrow> [] | Some o' \<Rightarrow> o');
               (ok', r) = decode_slice f zero vs (Some xs)
           in (ok \<and> ok', r))
      | JNull \<Rightarrow> decode_slice f zero vs None
      | _ \<Rightarrow> (False, snd (decode_slice f zero vs old)))"

text \<open>A \<open>json.RawMessage\<close> keeps the value as it is; \<open>None\<close> is the nil message.\<close>

fun decode_raw :: "json list \<Rightarrow> json option \<Rightarrow> json option" where
  "decode_raw [] old = old"
| "decode_raw (v # vs) old = decode_raw vs (Some v)"

text \<open>The members of the top-level value; \<open>None\<close> for a value that no struct can take.\<close>

fun struct_members :: "json \<Rightarrow> (string \<times> json) list option" where
  "struct_members (JObj kvs) = Some kvs"
| "struct_members JNull = Some []"
| "struct_members _ = None"

lemma equal_fold_refl [simp]: "equal_fold s s"
  by (simp add: equal_fold_def)

lemma members_named_Nil [simp]: "members_named name [] = []"
  by (simp add: members_named_def)

lemma members_named_Cons [simp]:
  "members_named name ((k, v) # kvs) = (if equal_fold k name then [v] else []) @ members_named name kvs"
  by (simp add: members_named_def)

text \<open>A JSON value into a \<open>map[string]interface\{\}\<close> variable that is nil.\<close>

definition unmarshal_map :: "bytes \<Rightarrow> obj option" where
  "unmarshal_map b = (case Unmarshal b of
     Some (JObj kvs) \<Rightarrow> snd (decode_map [JObj kvs] None) | Some JNull \<Rightarrow> Some [] | _ \<Rightarrow> None)"

subsection \<open>Objects in canonical form\<close>

definition canonical :: "obj \<Rightarrow> bool" where
  "canonical m \<longleftrightarrow> obj_sorted m \<and> (\<forall>(k, v) \<in> set m. canon v = v)"

lemma fold_canon:
  "(\<forall>(k, v) \<in> set kvs. canon v = v) \<Longrightarrow>
   fold (\<lambda>(k, x) m. obj_put k (canon x) m) kvs m = fold (\<lambda>(k, x) m. obj_put k x m) kvs m"
  by (induction kvs arbitrary: m) auto

lemma unmarshal_map_Marshal: "canonical m \<Longrightarrow> unmarshal_map (Marshal (JObj m)) = Some m"
  using fold_put_sorted [of "[]" m]
  by (simp add: unmarshal_map_def Unmarshal_Marshal canonical_def fold_canon)

lemma canonical_put: "canonical m \<Longrightarrow> canon v = v \<Longrightarrow> canonical (obj_put k v m)"
proof -
  assume m: "canonical m" and v: "canon v = v"
  have "p \<in> set (obj_put k v m) \<Longrightarrow> p = (k, v) \<or> p \<in> set m" for p
    by (induction k v m rule: obj_put.induct) (auto split: if_splits)
  with m v obj_put_sorted [of m k v] show ?thesis by (fastforce simp: canonical_def)
qed

lemma canonical_Nil [simp]: "canonical []"
  by (simp add: canonical_def obj_sorted_def)

lemma canonical_fold: "canonical m \<Longrightarrow> (\<forall>(k, v) \<in> set kvs. canon v = v) \<Longrightarrow>
    canonical (fold (\<lambda>(k, v) m. obj_put k v m) kvs m)"
  by (induction kvs arbitrary: m) (auto intro: canonical_put)

lemma canonical_obj_of: "(\<forall>(k, v) \<in> set kvs. canon v = v) \<Longrightarrow> canonical (obj_of kvs)"
  unfolding obj_of_def by (rule canonical_fold) simp_all

lemma canonical_unmarshal: "unmarshal_map b = Some m \<Longrightarrow> canonical m"
proof -
  have f: "canonical m0 \<Longrightarrow> canonical (fold (\<lambda>(k, x) m. obj_put k (canon x) m) kvs m0)" for kvs m0
    by (induction kvs arbitrary: m0) (auto simp: canonical_put)
  show "unmarshal_map b = Some m \<Longrightarrow> canonical m"
    by (auto simp: unmarshal_map_def intro: f split: option.splits json.splits)
qed

text \<open>Sorted objects are determined by what they map.\<close>

lemma obj_eqI: "obj_sorted a \<Longrightarrow> obj_sorted b \<Longrightarrow> map_of a = map_of b \<Longrightarrow> a = b"
proof (induction a arbitrary: b)
  case Nil
  then have "map_of b = Map.empty" by simp
  then show ?case by (cases b) (auto simp: fun_eq_iff split: if_splits)
next
  case (Cons p a)
  obtain k v where p: "p = (k, v)" by (cases p)
  from Cons.prems(3) have "map_of b k = Some v" by (simp add: p fun_eq_iff) (metis (full_types))
  then obtain k2 v2 b2 where b: "b = (k2, v2) # b2" by (cases b) auto
  have lo: "k' \<in> set (map fst a) \<Longrightarrow> k < k'" "k' \<in> set (map fst b2) \<Longrightarrow> k2 < k'" for k'
    using Cons.prems(1,2) by (auto simp: obj_sorted_def p b)
  have "dom (map_of (p # a)) = dom (map_of b)" by (simp only: Cons.prems(3))
  then have d: "insert k (fst ` set a) = insert k2 (fst ` set b2)"
    by (simp add: p b dom_map_of_conv_image_fst del: fun_upd_apply)
  have "k2 = k"
  proof (rule ccontr)
    assume "k2 \<noteq> k"
    with d have "k2 \<in> set (map fst a)" "k \<in> set (map fst b2)" by auto
    with lo [of k2] lo(2) [of k] show False by simp
  qed
  moreover from this Cons.prems(3) have "v2 = v" by (auto simp: p b dest: fun_cong [of _ _ k])
  moreover have "map_of a = map_of b2"
  proof
    fix x
    have n: "map_of a k = None" "map_of b2 k = None"
      using lo [of k] \<open>k2 = k\<close> by (auto simp: map_of_eq_None_iff)
    from fun_cong [OF Cons.prems(3), of x] \<open>k2 = k\<close> n show "map_of a x = map_of b2 x"
      by (cases "x = k") (simp_all add: p b)
  qed
  ultimately show ?case using Cons.IH [of b2] Cons.prems by (simp add: p b obj_sorted_def)
qed

definition obj_del :: "string \<Rightarrow> obj \<Rightarrow> obj" where
  "obj_del k m = filter (\<lambda>(k', v). k' \<noteq> k) m"

lemma map_of_obj_del [simp]: "map_of (obj_del k m) = (map_of m)(k := None)"
  by (induction m) (auto simp: obj_del_def)

lemma obj_del_sorted: "obj_sorted m \<Longrightarrow> obj_sorted (obj_del k m)"
  by (induction m) (auto simp: obj_del_def obj_sorted_def)

lemma obj_del_put: "obj_sorted m \<Longrightarrow> map_of m k = None \<Longrightarrow> obj_del k (obj_put k v m) = m"
  by (rule obj_eqI) (auto simp: obj_del_sorted obj_put_sorted)

lemma obj_del_put_other:
  "obj_sorted m \<Longrightarrow> k \<noteq> k' \<Longrightarrow> obj_del k (obj_put k' v m) = obj_put k' v (obj_del k m)"
  by (rule obj_eqI) (auto simp: obj_del_sorted obj_put_sorted)

end
