(* ===== verification/Hash.thy ===== *)
theory Hash
  imports GoStrings "HOL-Library.Word"
begin

unbundle bit_operations_syntax

text \<open>
  The hash functions of Go's \<open>crypto\<close> packages that the code calls: SHA-1 for passwords, SHA-256 for
  thumbprints, and the HMACs of the token signatures, from FIPS 180-4 and RFC 2104, on byte
  strings.  Words wrap around as in the standard.
\<close>

subsection \<open>Bytes and words\<close>

definition byte_word :: "char \<Rightarrow> 'a::len word" where
  "byte_word c = word_of_nat (of_char c)"

text \<open>Big-endian words of \<open>n\<close> bytes.\<close>

definition bytes_word :: "bytes \<Rightarrow> 'a::len word" where
  "bytes_word bs = foldl (\<lambda>w c. (push_bit 8 w) OR byte_word c) 0 bs"

definition word_bytes :: "nat \<Rightarrow> 'a::len word \<Rightarrow> bytes" where
  "word_bytes n w = map (\<lambda>i. char_of (unat (drop_bit (8 * i) w AND 0xFF))) (rev [0..<n])"

fun chunks :: "nat \<Rightarrow> nat \<Rightarrow> 'a list \<Rightarrow> 'a list list" where
  "chunks 0 n xs = []"
| "chunks (Suc f) n xs = (if xs = [] then [] else take n xs # chunks f n (drop n xs))"

text \<open>Merkle-Damgard padding for blocks of \<open>b\<close> bytes with a length field of \<open>l\<close> bytes.\<close>

definition md_pad :: "nat \<Rightarrow> nat \<Rightarrow> bytes \<Rightarrow> bytes" where
  "md_pad b l m =
     (let n = length m;
          z = (2 * b - 1 - l - n mod b) mod b;
          len = map (\<lambda>i. char_of ((8 * n) div 256 ^ i mod 256)) (rev [0..<l])
      in m @ [char_of (128 :: nat)] @ replicate z (char_of (0 :: nat)) @ len)"

definition blocks :: "nat \<Rightarrow> nat \<Rightarrow> bytes \<Rightarrow> 'a::len word list list" where
  "blocks b l m = (let p = md_pad b l m in
     map (\<lambda>blk. map bytes_word (chunks (length blk) (b div 16) blk)) (chunks (length p) b p))"

subsection \<open>SHA-1\<close>

definition rotl :: "nat \<Rightarrow> 'a::len word \<Rightarrow> 'a word" where
  "rotl = word_rotl"

definition rotr :: "nat \<Rightarrow> 'a::len word \<Rightarrow> 'a word" where
  "rotr = word_rotr"

definition sha1_schedule :: "32 word list \<Rightarrow> 32 word list" where
  "sha1_schedule blk =
     fold (\<lambda>t w. w @ [rotl 1 (w ! (t - 3) XOR w ! (t - 8) XOR w ! (t - 14) XOR w ! (t - 16))]) [16..<80] blk"

definition sha1_round :: "nat \<times> 32 word \<Rightarrow> 32 word \<times> 32 word \<times> 32 word \<times> 32 word \<times> 32 word \<Rightarrow>
    32 word \<times> 32 word \<times> 32 word \<times> 32 word \<times> 32 word" where
  "sha1_round = (\<lambda>(t, w) (a, b, c, d, e).
     let (f, k) = (if t < 20 then ((b AND c) OR (NOT b AND d), 0x5A827999)
                   else if t < 40 then (b XOR c XOR d, 0x6ED9EBA1)
                   else if t < 60 then ((b AND c) OR (b AND d) OR (c AND d), 0x8F1BBCDC)
                   else (b XOR c XOR d, 0xCA62C1D6))
     in (rotl 5 a + f + e + k + w, a, rotl 30 b, c, d))"

definition sha1_block :: "32 word list \<Rightarrow> 32 word list \<Rightarrow> 32 word list" where
  "sha1_block blk h =
     (case fold sha1_round (zip [0..<80] (sha1_schedule blk)) (h ! 0, h ! 1, h ! 2, h ! 3, h ! 4) of
        (a, b, c, d, e) \<Rightarrow> [h ! 0 + a, h ! 1 + b, h ! 2 + c, h ! 3 + d, h ! 4 + e])"

definition sha1 :: "bytes \<Rightarrow> bytes" where
  "sha1 m = concat (map (word_bytes 4)
     (fold sha1_block (blocks 64 8 m) [0x67452301, 0xEFCDAB89, 0x98BADCFE, 0x10325476, 0xC3D2E1F0]))"

subsection \<open>SHA-2\<close>

text \<open>The rotation amounts of the four sigma functions, the round constants and the block size.\<close>

record 'w sha2 =
  sig0 :: "nat \<times> nat \<times> nat"
  sig1 :: "nat \<times> nat \<times> nat"
  Sig0 :: "nat \<times> nat \<times> nat"
  Sig1 :: "nat \<times> nat \<times> nat"
  sha2_K :: "'w list"
  block_bytes :: nat
  word_size :: nat

definition small_sigma :: "nat \<times> nat \<times> nat \<Rightarrow> 'a::len word \<Rightarrow> 'a word" where
  "small_sigma r x = (case r of (i, j, k) \<Rightarrow> rotr i x XOR rotr j x XOR drop_bit k x)"

definition big_sigma :: "nat \<times> nat \<times> nat \<Rightarrow> 'a::len word \<Rightarrow> 'a word" where
  "big_sigma r x = (case r of (i, j, k) \<Rightarrow> rotr i x XOR rotr j x XOR rotr k x)"

definition sha2_schedule :: "('a::len word) sha2 \<Rightarrow> 'a word list \<Rightarrow> 'a word list" where
  "sha2_schedule p blk =
     fold (\<lambda>t w. w @ [small_sigma (sig1 p) (w ! (t - 2)) + w ! (t - 7) + small_sigma (sig0 p) (w ! (t - 15)) + w ! (t - 16)])
       [16..<length (sha2_K p)] blk"

definition sha2_round :: "('a::len word) sha2 \<Rightarrow> 'a word \<times> 'a word \<Rightarrow>
    'a word \<times> 'a word \<times> 'a word \<times> 'a word \<times> 'a word \<times> 'a word \<times> 'a word \<times> 'a word \<Rightarrow>
    'a word \<times> 'a word \<times> 'a word \<times> 'a word \<times> 'a word \<times> 'a word \<times> 'a word \<times> 'a word" where
  "sha2_round p = (\<lambda>(k, w) (a, b, c, d, e, f, g, h).
     let t1 = h + big_sigma (Sig1 p) e + ((e AND f) XOR (NOT e AND g)) + k + w;
         t2 = big_sigma (Sig0 p) a + ((a AND b) XOR (a AND c) XOR (b AND c))
     in (t1 + t2, a, b, c, d + t1, e, f, g))"

definition sha2_block :: "('a::len word) sha2 \<Rightarrow> 'a word list \<Rightarrow> 'a word list \<Rightarrow> 'a word list" where
  "sha2_block p blk s =
     (case fold (sha2_round p) (zip (sha2_K p) (sha2_schedule p blk))
         (s ! 0, s ! 1, s ! 2, s ! 3, s ! 4, s ! 5, s ! 6, s ! 7) of
        (a, b, c, d, e, f, g, h) \<Rightarrow>
          [s ! 0 + a, s ! 1 + b, s ! 2 + c, s ! 3 + d, s ! 4 + e, s ! 5 + f, s ! 6 + g, s ! 7 + h])"

definition sha2_sum :: "('a::len word) sha2 \<Rightarrow> 'a word list \<Rightarrow> bytes \<Rightarrow> bytes" where
  "sha2_sum p iv m = concat (map (word_bytes (word_size p))
     (fold (sha2_block p) (blocks (block_bytes p) (2 * word_size p) m) iv))"

definition sha256_param :: "32 word sha2" where
  "sha256_param = \<lparr>sig0 = (7, 18, 3), sig1 = (17, 19, 10), Sig0 = (2, 13, 22), Sig1 = (6, 11, 25),
     sha2_K =
     [0x428A2F98, 0x71374491, 0xB5C0FBCF, 0xE9B5DBA5, 0x3956C25B, 0x59F111F1, 0x923F82A4, 0xAB1C5ED5,
      0xD807AA98, 0x12835B01, 0x243185BE, 0x550C7DC3, 0x72BE5D74, 0x80DEB1FE, 0x9BDC06A7, 0xC19BF174,
      0xE49B69C1, 0xEFBE4786, 0x0FC19DC6, 0x240CA1CC, 0x2DE92C6F, 0x4A7484AA, 0x5CB0A9DC, 0x76F988DA,
      0x983E5152, 0xA831C66D, 0xB00327C8, 0xBF597FC7, 0xC6E00BF3, 0xD5A79147, 0x06CA6351, 0x14292967,
      0x27B70A85, 0x2E1B2138, 0x4D2C6DFC, 0x53380D13, 0x650A7354, 0x766A0ABB, 0x81C2C92E, 0x92722C85,
      0xA2BFE8A1, 0xA81A664B, 0xC24B8B70, 0xC76C51A3, 0xD192E819, 0xD6990624, 0xF40E3585, 0x106AA070,
      0x19A4C116, 0x1E376C08, 0x2748774C, 0x34B0BCB5, 0x391C0CB3, 0x4ED8AA4A, 0x5B9CCA4F, 0x682E6FF3,
      0x748F82EE, 0x78A5636F, 0x84C87814, 0x8CC70208, 0x90BEFFFA, 0xA4506CEB, 0xBEF9A3F7, 0xC67178F2],
     block_bytes = 64, word_size = 4\<rparr>"

definition sha512_param :: "64 word sha2" where
  "sha512_param = \<lparr>sig0 = (1, 8, 7), sig1 = (19, 61, 6), Sig0 = (28, 34, 39), Sig1 = (14, 18, 41),
     sha2_K =
     [0x428A2F98D728AE22, 0x7137449123EF65CD, 0xB5C0FBCFEC4D3B2F, 0xE9B5DBA58189DBBC,
      0x3956C25BF348B538, 0x59F111F1B605D019, 0x923F82A4AF194F9B, 0xAB1C5ED5DA6D8118,
      0xD807AA98A3030242, 0x12835B0145706FBE, 0x243185BE4EE4B28C, 0x550C7DC3D5FFB4E2,
      0x72BE5D74F27B896F, 0x80DEB1FE3B1696B1, 0x9BDC06A725C71235, 0xC19BF174CF692694,
      0xE49B69C19EF14AD2, 0xEFBE4786384F25E3, 0x0FC19DC68B8CD5B5, 0x240CA1CC77AC9C65,
      0x2DE92C6F592B0275, 0x4A7484AA6EA6E483, 0x5CB0A9DCBD41FBD4, 0x76F988DA831153B5,
      0x983E5152EE66DFAB, 0xA831C66D2DB43210, 0xB00327C898FB213F, 0xBF597FC7BEEF0EE4,
      0xC6E00BF33DA88FC2, 0xD5A79147930AA725, 0x06CA6351E003826F, 0x142929670A0E6E70,
      0x27B70A8546D22FFC, 0x2E1B21385C26C926, 0x4D2C6DFC5AC42AED, 0x53380D139D95B3DF,
      0x650A73548BAF63DE, 0x766A0ABB3C77B2A8, 0x81C2C92E47EDAEE6, 0x92722C851482353B,
      0xA2BFE8A14CF10364, 0xA81A664BBC423001, 0xC24B8B70D0F89791, 0xC76C51A30654BE30,
      0xD192E819D6EF5218, 0xD69906245565A910, 0xF40E35855771202A, 0x106AA07032BBD1B8,
      0x19A4C116B8D2D0C8, 0x1E376C085141AB53, 0x2748774CDF8EEB99, 0x34B0BCB5E19B48A8,
      0x391C0CB3C5C95A63, 0x4ED8AA4AE3418ACB, 0x5B9CCA4F7763E373, 0x682E6FF3D6B2B8A3,
      0x748F82EE5DEFB2FC, 0x78A5636F43172F60, 0x84C87814A1F0AB72, 0x8CC702081A6439EC,
      0x90BEFFFA23631E28, 0xA4506CEBDE82BDE9, 0xBEF9A3F7B2C67915, 0xC67178F2E372532B,
      0xCA273ECEEA26619C, 0xD186B8C721C0C207, 0xEADA7DD6CDE0EB1E, 0xF57D4F7FEE6ED178,
      0x06F067AA72176FBA, 0x0A637DC5A2C898A6, 0x113F9804BEF90DAE, 0x1B710B35131C471B,
      0x28DB77F523047D84, 0x32CAAB7B40C72493, 0x3C9EBE0A15C9BEBC, 0x431D67C49C100D4C,
      0x4CC5D4BECB3E42B6, 0x597F299CFC657E2A, 0x5FCB6FAB3AD6FAEC, 0x6C44198C4A475817],
     block_bytes = 128, word_size = 8\<rparr>"

definition sha256 :: "bytes \<Rightarrow> bytes" where
  "sha256 m = sha2_sum sha256_param
     [0x6A09E667, 0xBB67AE85, 0x3C6EF372, 0xA54FF53A, 0x510E527F, 0x9B05688C, 0x1F83D9AB, 0x5BE0CD19] m"

definition sha512 :: "bytes \<Rightarrow> bytes" where
  "sha512 m = sha2_sum sha512_param
     [0x6A09E667F3BCC908, 0xBB67AE8584CAA73B, 0x3C6EF372FE94F82B, 0xA54FF53A5F1D36F1,
      0x510E527FADE682D1, 0x9B05688C2B3E6C1F, 0x1F83D9ABFB41BD6B, 0x5BE0CD19137E2179] m"

definition sha384 :: "bytes \<Rightarrow> bytes" where
  "sha384 m = take 48 (sha2_sum sha512_param
     [0xCBBB9D5DC1059ED8, 0x629A292A367CD507, 0x9159015A3070DD17, 0x152FECD8F70E5939,
      0x67332667FFC00B31, 0x8EB44A8768581511, 0xDB0C2E0D64F98FA7, 0x47B5481DBEFA4FA4] m)"

subsection \<open>HMAC\<close>

datatype crypto_hash = SHA256 | SHA384 | SHA512

fun hash_sum :: "crypto_hash \<Rightarrow> bytes \<Rightarrow> bytes" where
  "hash_sum SHA256 m = sha256 m"
| "hash_sum SHA384 m = sha384 m"
| "hash_sum SHA512 m = sha512 m"

fun hash_block :: "crypto_hash \<Rightarrow> nat" where
  "hash_block SHA256 = 64"
| "hash_block SHA384 = 128"
| "hash_block SHA512 = 128"

definition xor_byte :: "nat \<Rightarrow> char \<Rightarrow> char" where
  "xor_byte k c = char_of (of_char c XOR k)"

definition hmac :: "crypto_hash \<Rightarrow> bytes \<Rightarrow> bytes \<Rightarrow> bytes" where
  "hmac h key m =
     (let k0 = (if hash_block h < length key then hash_sum h key else key);
          k = k0 @ replicate (hash_block h - length k0) (char_of (0 :: nat))
      in hash_sum h (map (xor_byte 0x5C) k @ hash_sum h (map (xor_byte 0x36) k @ m)))"

end
