(* ===== verification/Keys.thy ===== *)
theory Keys
  imports BigInt GoDecode Hash
begin

text \<open>
  The keys of libtrust (\<open>key.go\<close>, \<open>rsa_key.go\<close>, \<open>ec_key.go\<close>, \<open>hash.go\<close>, \<open>util.go\<close>, \<open>filter.go\<close>): public
  and private RSA and elliptic curve keys, their identifiers, their JSON web key form, signing and
  verifying.  RSA with the padding of PKCS \#1 1.5 is modelled down to the modular powers; the
  ECDSA primitives and the X.509 parser are arguments (the record \<open>crypto_ops\<close>), and so is the source of
  randomness, as the choice an operation makes.
\<close>

subsection \<open>Errors\<close>

datatype trust_error =
    ErrMissingValue string
  | ErrNotString string
  | ErrBase64
  | ErrOctets
  | ErrCurve
  | ErrKeyType
  | ErrKidMismatch
  | ErrPrivateExponent
  | ErrOtherPrimes
  | ErrUnmarshal
  | ErrAlgorithm
  | ErrVerification
  | ErrSigning
  | ErrCertificate
  | ErrInvalidJSONContent
  | ErrMissingSignatureKey
  | ErrMissingSignatures
  | ErrMissingPublicKey
  | ErrFormat string
  | ErrPayloadsDiffer
  | ErrRandom

text \<open>A call ends in a value, an error or a panic.\<close>

datatype failure = Panics go_panic | Fails trust_error

type_synonym 'a result = "failure + 'a"

definition or_fail :: "trust_error \<Rightarrow> 'a option \<Rightarrow> 'a result" where
  "or_fail e x = (case x of None \<Rightarrow> Inl (Fails e) | Some v \<Rightarrow> Inr v)"

definition check :: "bool \<Rightarrow> trust_error \<Rightarrow> unit result" where
  "check b e = (if b then Inr () else Inl (Fails e))"

lemma or_fail_simps [simp]: "or_fail e (Some v) = Inr v" "or_fail e None = Inl (Fails e)"
  by (simp_all add: or_fail_def)

lemma check_simps [simp]: "check True e = Inr ()" "check False e = Inl (Fails e)"
  by (simp_all add: check_def)

lemma or_fail_Inr: "or_fail e x = Inr v \<longleftrightarrow> x = Some v"
  by (cases x) auto

lemma check_Inr: "check b e = Inr u \<longleftrightarrow> b"
  by (cases b) auto

subsection \<open>Signature algorithms\<close>

record signatureAlgorithm =
  HeaderParam :: string
  HashID :: crypto_hash

definition rs256 :: signatureAlgorithm where "rs256 = \<lparr>HeaderParam = ''RS256'', HashID = SHA256\<rparr>"
definition rs384 :: signatureAlgorithm where "rs384 = \<lparr>HeaderParam = ''RS384'', HashID = SHA384\<rparr>"
definition rs512 :: signatureAlgorithm where "rs512 = \<lparr>HeaderParam = ''RS512'', HashID = SHA512\<rparr>"
definition es256 :: signatureAlgorithm where "es256 = \<lparr>HeaderParam = ''ES256'', HashID = SHA256\<rparr>"
definition es384 :: signatureAlgorithm where "es384 = \<lparr>HeaderParam = ''ES384'', HashID = SHA384\<rparr>"
definition es512 :: signatureAlgorithm where "es512 = \<lparr>HeaderParam = ''ES512'', HashID = SHA512\<rparr>"

lemmas algorithms = rs256_def rs384_def rs512_def es256_def es384_def es512_def

definition rsaSignatureAlgorithmByName :: "string \<Rightarrow> signatureAlgorithm result" where
  "rsaSignatureAlgorithmByName alg =
     (if alg = ''RS256'' then Inr rs256
      else if alg = ''RS384'' then Inr rs384
      else if alg = ''RS512'' then Inr rs512
      else Inl (Fails ErrAlgorithm))"

fun rsaPKCS1v15SignatureAlgorithmForHashID :: "crypto_hash \<Rightarrow> signatureAlgorithm" where
  "rsaPKCS1v15SignatureAlgorithmForHashID SHA512 = rs512"
| "rsaPKCS1v15SignatureAlgorithmForHashID SHA384 = rs384"
| "rsaPKCS1v15SignatureAlgorithmForHashID SHA256 = rs256"

subsection \<open>Keys\<close>

datatype curve = P256 | P384 | P521

fun BitSize :: "curve \<Rightarrow> nat" where
  "BitSize P256 = 256"
| "BitSize P384 = 384"
| "BitSize P521 = 521"

fun curveName :: "curve \<Rightarrow> string" where
  "curveName P256 = ''P-256''"
| "curveName P384 = ''P-384''"
| "curveName P521 = ''P-521''"

fun curve_algorithm :: "curve \<Rightarrow> signatureAlgorithm" where
  "curve_algorithm P256 = es256"
| "curve_algorithm P384 = es384"
| "curve_algorithm P521 = es512"

definition curve_by_name :: "string \<Rightarrow> curve result" where
  "curve_by_name crv =
     (if crv = ''P-256'' then Inr P256
      else if crv = ''P-384'' then Inr P384
      else if crv = ''P-521'' then Inr P521
      else Inl (Fails ErrCurve))"

record rsaPublicKey =
  RsaN :: nat
  RsaE :: nat
  rsa_extended :: obj

record ecPublicKey =
  EcCurve :: curve
  EcX :: nat
  EcY :: nat
  ec_extended :: obj

datatype PublicKey = RsaPublic rsaPublicKey | EcPublic ecPublicKey

text \<open>The values that speed up signing; \<open>None\<close> for a \<open>CRTValue\<close> that was never filled in.\<close>

record rsaPrivateKey =
  rsaPublic :: rsaPublicKey
  RsaD :: nat
  Primes :: "nat list"
  RsaDp :: nat
  RsaDq :: nat
  RsaQinv :: nat
  CRTValues :: "(nat \<times> nat \<times> nat) option list"

record ecPrivateKey =
  ecPublic :: ecPublicKey
  EcD :: nat

datatype PrivateKey = RsaPrivate rsaPrivateKey | EcPrivate ecPrivateKey

record crypto_ops =
  ecdsa_verify :: "curve \<Rightarrow> nat \<times> nat \<Rightarrow> bytes \<Rightarrow> nat \<Rightarrow> nat \<Rightarrow> bool"
  ecdsa_sign :: "curve \<Rightarrow> nat \<Rightarrow> bytes \<Rightarrow> (nat \<times> nat) option"
  cert_key :: "bytes \<Rightarrow> PublicKey option"

fun PublicKeyOf :: "PrivateKey \<Rightarrow> PublicKey" where
  "PublicKeyOf (RsaPrivate k) = RsaPublic (rsaPublic k)"
| "PublicKeyOf (EcPrivate k) = EcPublic (ecPublic k)"

fun KeyType :: "PublicKey \<Rightarrow> string" where
  "KeyType (RsaPublic k) = ''RSA''"
| "KeyType (EcPublic k) = ''EC''"

fun extended :: "PublicKey \<Rightarrow> obj" where
  "extended (RsaPublic k) = rsa_extended k"
| "extended (EcPublic k) = ec_extended k"

fun AddExtendedField :: "string \<Rightarrow> json \<Rightarrow> PublicKey \<Rightarrow> PublicKey" where
  "AddExtendedField f v (RsaPublic k) = RsaPublic (k\<lparr>rsa_extended := obj_put f v (rsa_extended k)\<rparr>)"
| "AddExtendedField f v (EcPublic k) = EcPublic (k\<lparr>ec_extended := obj_put f v (ec_extended k)\<rparr>)"

definition GetExtendedField :: "string \<Rightarrow> PublicKey \<Rightarrow> json option" where
  "GetExtendedField f k = map_of (extended k) f"

subsection \<open>Identifiers\<close>

text \<open>\<open>x509.MarshalPKIXPublicKey\<close>.\<close>

fun curve_oid :: "curve \<Rightarrow> bytes" where
  "curve_oid P256 = der_oid [0x2A, 0x86, 0x48, 0xCE, 0x3D, 0x03, 0x01, 0x07]"
| "curve_oid P384 = der_oid [0x2B, 0x81, 0x04, 0x00, 0x22]"
| "curve_oid P521 = der_oid [0x2B, 0x81, 0x04, 0x00, 0x23]"

fun pkix :: "PublicKey \<Rightarrow> bytes" where
  "pkix (RsaPublic k) = der_sequence
     [der_sequence [der_oid [0x2A, 0x86, 0x48, 0x86, 0xF7, 0x0D, 0x01, 0x01, 0x01], der_tlv 5 []],
      der_bit_string (der_sequence [der_integer (RsaN k), der_integer (RsaE k)])]"
| "pkix (EcPublic k) = der_sequence
     [der_sequence [der_oid [0x2A, 0x86, 0x48, 0xCE, 0x3D, 0x02, 0x01], curve_oid (EcCurve k)],
      der_bit_string (byte 4 # left_pad (octets (BitSize (EcCurve k))) (nat_bytes (EcX k)) @
        left_pad (octets (BitSize (EcCurve k))) (nat_bytes (EcY k)))]"

text \<open>\<open>keyIDFromCryptoKey\<close>.\<close>

definition KeyID :: "PublicKey \<Rightarrow> string" where
  "KeyID k = keyIDEncode (take 30 (sha256 (pkix k)))"

subsection \<open>The parameters of a JSON web key\<close>

text \<open>\<open>stringFromMap\<close> takes the value out of the map.\<close>

definition stringFromMap :: "obj \<Rightarrow> string \<Rightarrow> (string \<times> obj) result" where
  "stringFromMap m key =
     (case map_of m key of
        None \<Rightarrow> Inl (Fails (ErrMissingValue key))
      | Some (JStr s) \<Rightarrow> Inr (s, obj_del key m)
      | Some _ \<Rightarrow> Inl (Fails (ErrNotString key)))"

definition parseECCoordinate :: "string \<Rightarrow> curve \<Rightarrow> nat result" where
  "parseECCoordinate cB64Url c =
     run_bind (or_fail ErrBase64 (joseBase64UrlDecode cB64Url)) (\<lambda>cBytes.
       run_bind (check (length cBytes = octets (BitSize c)) ErrOctets) (\<lambda>_. Inr (bytes_nat cBytes)))"

text \<open>The order of each curve has as many octets as its field.\<close>

definition parseECPrivateParam :: "string \<Rightarrow> curve \<Rightarrow> nat result" where
  "parseECPrivateParam dB64Url c =
     run_bind (or_fail ErrBase64 (joseBase64UrlDecode dB64Url)) (\<lambda>dBytes.
       run_bind (check (length dBytes = octets (BitSize c)) ErrOctets) (\<lambda>_. Inr (bytes_nat dBytes)))"

definition parseRSAModulusParam :: "string \<Rightarrow> nat result" where
  "parseRSAModulusParam nB64Url =
     run_bind (or_fail ErrBase64 (joseBase64UrlDecode nB64Url)) (\<lambda>nBytes. Inr (bytes_nat nBytes))"

text \<open>The exponent as four bytes without their leading zeros; the loop runs to 8, off the end of a
  zero.\<close>

definition serializeRSAPublicExponentParam :: "nat \<Rightarrow> bytes result" where
  "serializeRSAPublicExponentParam e =
     (let b = dropWhile (\<lambda>c. c = byte 0) (left_pad 4 (nat_bytes (e mod 2 ^ 32)))
      in if b = [] then Inl (Panics IndexOutOfRange) else Inr b)"

text \<open>\<open>make([]byte, 4-byteLen, 4)\<close> panics for more than four bytes.\<close>

definition parseRSAPublicExponentParam :: "string \<Rightarrow> nat result" where
  "parseRSAPublicExponentParam eB64Url =
     run_bind (or_fail ErrBase64 (joseBase64UrlDecode eB64Url)) (\<lambda>eBytes.
       if 4 < length eBytes then Inl (Panics SliceOutOfRange) else Inr (bytes_nat eBytes))"

definition parseRSAPrivateKeyParamFromMap :: "obj \<Rightarrow> string \<Rightarrow> (nat \<times> obj) result" where
  "parseRSAPrivateKeyParamFromMap m key =
     run_bind (stringFromMap m key) (\<lambda>(b64Url, m').
       run_bind (or_fail ErrBase64 (joseBase64UrlDecode b64Url)) (\<lambda>paramBytes. Inr (bytes_nat paramBytes, m')))"

subsection \<open>Public keys as JSON web keys\<close>

definition rsaPublic_toMap :: "rsaPublicKey \<Rightarrow> obj result" where
  "rsaPublic_toMap k =
     run_bind (serializeRSAPublicExponentParam (RsaE k)) (\<lambda>e. Inr
       (obj_put ''e'' (JStr (joseBase64UrlEncode e))
        (obj_put ''n'' (JStr (joseBase64UrlEncode (nat_bytes (RsaN k))))
        (obj_put ''kid'' (JStr (KeyID (RsaPublic k)))
        (obj_put ''kty'' (JStr ''RSA'') (rsa_extended k))))))"

definition ecPublic_toMap :: "ecPublicKey \<Rightarrow> obj result" where
  "ecPublic_toMap k =
     (let octetLength = octets (BitSize (EcCurve k));
          xBytes = nat_bytes (EcX k);
          yBytes = nat_bytes (EcY k)
      in if octetLength < length xBytes \<or> octetLength < length yBytes then Inl (Panics SliceOutOfRange)
         else Inr
           (obj_put ''y'' (JStr (joseBase64UrlEncode (left_pad octetLength yBytes)))
           (obj_put ''x'' (JStr (joseBase64UrlEncode (left_pad octetLength xBytes)))
           (obj_put ''crv'' (JStr (curveName (EcCurve k)))
           (obj_put ''kid'' (JStr (KeyID (EcPublic k)))
           (obj_put ''kty'' (JStr ''EC'') (ec_extended k)))))))"

declare rsaPublic_toMap_def [simp] ecPublic_toMap_def [simp]

fun public_toMap :: "PublicKey \<Rightarrow> obj result" where
  "public_toMap (RsaPublic k) = rsaPublic_toMap k"
| "public_toMap (EcPublic k) = ecPublic_toMap k"

text \<open>The optional \<open>kid\<close>, which has to be the identifier of the key.\<close>

definition check_kid :: "string \<Rightarrow> obj \<Rightarrow> obj result" where
  "check_kid keyid jwk =
     (if map_of jwk ''kid'' = None then Inr jwk
      else run_bind (stringFromMap jwk ''kid'') (\<lambda>(kid, jwk').
        run_bind (check (kid = keyid) ErrKidMismatch) (\<lambda>_. Inr jwk')))"

definition rsaPublicKeyFromMap :: "obj \<Rightarrow> rsaPublicKey result" where
  "rsaPublicKeyFromMap jwk =
     run_bind (stringFromMap jwk ''n'') (\<lambda>(nB64Url, jwk1).
     run_bind (parseRSAModulusParam nB64Url) (\<lambda>n.
     run_bind (stringFromMap jwk1 ''e'') (\<lambda>(eB64Url, jwk2).
     run_bind (parseRSAPublicExponentParam eB64Url) (\<lambda>e.
     run_bind (check_kid (KeyID (RsaPublic \<lparr>RsaN = n, RsaE = e, rsa_extended = []\<rparr>)) jwk2) (\<lambda>jwk3.
     run_bind (check (map_of jwk3 ''d'' = None) ErrPrivateExponent) (\<lambda>_.
       Inr \<lparr>RsaN = n, RsaE = e, rsa_extended = jwk3\<rparr>))))))"

definition ecPublicKeyFromMap :: "obj \<Rightarrow> ecPublicKey result" where
  "ecPublicKeyFromMap jwk =
     run_bind (stringFromMap jwk ''crv'') (\<lambda>(crv, jwk1).
     run_bind (curve_by_name crv) (\<lambda>c.
     run_bind (stringFromMap jwk1 ''x'') (\<lambda>(xB64Url, jwk2).
     run_bind (parseECCoordinate xB64Url c) (\<lambda>x.
     run_bind (stringFromMap jwk2 ''y'') (\<lambda>(yB64Url, jwk3).
     run_bind (parseECCoordinate yB64Url c) (\<lambda>y.
     run_bind (check_kid (KeyID (EcPublic \<lparr>EcCurve = c, EcX = x, EcY = y, ec_extended = []\<rparr>)) jwk3) (\<lambda>jwk4.
       Inr \<lparr>EcCurve = c, EcX = x, EcY = y, ec_extended = jwk4\<rparr>)))))))"

definition UnmarshalPublicKeyJWK :: "bytes \<Rightarrow> PublicKey result" where
  "UnmarshalPublicKeyJWK data =
     run_bind (or_fail ErrUnmarshal (unmarshal_map data)) (\<lambda>jwk.
     run_bind (stringFromMap jwk ''kty'') (\<lambda>(kty, jwk1).
       if kty = ''EC'' then run_bind (ecPublicKeyFromMap jwk1) (\<lambda>k. Inr (EcPublic k))
       else if kty = ''RSA'' then run_bind (rsaPublicKeyFromMap jwk1) (\<lambda>k. Inr (RsaPublic k))
       else Inl (Fails ErrKeyType)))"

definition public_MarshalJSON :: "PublicKey \<Rightarrow> bytes result" where
  "public_MarshalJSON k = run_bind (public_toMap k) (\<lambda>m. Inr (Marshal (JObj m)))"


subsection \<open>Private keys as JSON web keys\<close>

fun oth_infos :: "nat list \<Rightarrow> (nat \<times> nat \<times> nat) option list \<Rightarrow> json list result" where
  "oth_infos [] crt = Inr []"
| "oth_infos (r # rs) [] = Inl (Panics IndexOutOfRange)"
| "oth_infos (r # rs) (None # crt) = Inl (Panics NilDereference)"
| "oth_infos (r # rs) (Some (Exp, Coeff, R) # crt) =
     run_bind (oth_infos rs crt) (\<lambda>infos. Inr
       (JObj [(''d'', JStr (joseBase64UrlEncode (nat_bytes Exp))),
              (''r'', JStr (joseBase64UrlEncode (nat_bytes r))),
              (''t'', JStr (joseBase64UrlEncode (nat_bytes Coeff)))] # infos))"

definition rsaPrivate_toMap :: "rsaPrivateKey \<Rightarrow> obj result" where
  "rsaPrivate_toMap k =
     run_bind (public_toMap (RsaPublic (rsaPublic k))) (\<lambda>jwk.
       case Primes k of
         p # q # otherPrimes \<Rightarrow>
           (let jwk1 = obj_put ''qi'' (JStr (joseBase64UrlEncode (nat_bytes (RsaQinv k))))
              (obj_put ''dq'' (JStr (joseBase64UrlEncode (nat_bytes (RsaDq k))))
              (obj_put ''dp'' (JStr (joseBase64UrlEncode (nat_bytes (RsaDp k))))
              (obj_put ''q'' (JStr (joseBase64UrlEncode (nat_bytes q)))
              (obj_put ''p'' (JStr (joseBase64UrlEncode (nat_bytes p)))
              (obj_put ''d'' (JStr (joseBase64UrlEncode (nat_bytes (RsaD k)))) jwk)))))
            in if otherPrimes = [] then Inr jwk1
               else run_bind (oth_infos otherPrimes (CRTValues k)) (\<lambda>infos. Inr (obj_put ''oth'' (JArr infos) jwk1)))
       | _ \<Rightarrow> Inl (Panics IndexOutOfRange))"

definition ecPrivate_toMap :: "ecPrivateKey \<Rightarrow> obj result" where
  "ecPrivate_toMap k =
     run_bind (public_toMap (EcPublic (ecPublic k))) (\<lambda>jwk.
       (let octetLength = octets (BitSize (EcCurve (ecPublic k)));
            dBytes = nat_bytes (EcD k)
        in if octetLength < length dBytes then Inl (Panics SliceOutOfRange)
           else Inr (obj_put ''d'' (JStr (joseBase64UrlEncode (left_pad octetLength dBytes))) jwk)))"

declare rsaPrivate_toMap_def [simp] ecPrivate_toMap_def [simp]

fun private_toMap :: "PrivateKey \<Rightarrow> obj result" where
  "private_toMap (RsaPrivate k) = rsaPrivate_toMap k"
| "private_toMap (EcPrivate k) = ecPrivate_toMap k"

definition private_MarshalJSON :: "PrivateKey \<Rightarrow> bytes result" where
  "private_MarshalJSON k = run_bind (private_toMap k) (\<lambda>m. Inr (Marshal (JObj m)))"

text \<open>The primes after the first two.  The loop fills in a copy of each CRT value, so that the values
  themselves stay empty.\<close>

fun other_primes :: "json list \<Rightarrow> nat list result" where
  "other_primes [] = Inr []"
| "other_primes (val # vals) =
     (case val of
        JObj info \<Rightarrow>
          run_bind (parseRSAPrivateKeyParamFromMap info ''r'') (\<lambda>(otherPrimeFactor, info1).
          run_bind (parseRSAPrivateKeyParamFromMap info1 ''d'') (\<lambda>(otherFactorCRT, info2).
          run_bind (parseRSAPrivateKeyParamFromMap info2 ''t'') (\<lambda>(otherCrtCoeff, info3).
          run_bind (other_primes vals) (\<lambda>primes. Inr (otherPrimeFactor # primes)))))
      | _ \<Rightarrow> Inl (Fails ErrOtherPrimes))"

definition rsaPrivateKeyFromMap :: "obj \<Rightarrow> rsaPrivateKey result" where
  "rsaPrivateKeyFromMap jwk =
     run_bind (parseRSAPrivateKeyParamFromMap jwk ''d'') (\<lambda>(privateExponent, jwk1).
     run_bind (parseRSAPrivateKeyParamFromMap jwk1 ''p'') (\<lambda>(firstPrimeFactor, jwk2).
     run_bind (parseRSAPrivateKeyParamFromMap jwk2 ''q'') (\<lambda>(secondPrimeFactor, jwk3).
     run_bind (parseRSAPrivateKeyParamFromMap jwk3 ''dp'') (\<lambda>(firstFactorCRT, jwk4).
     run_bind (parseRSAPrivateKeyParamFromMap jwk4 ''dq'') (\<lambda>(secondFactorCRT, jwk5).
     run_bind (parseRSAPrivateKeyParamFromMap jwk5 ''qi'') (\<lambda>(crtCoeff, jwk6).
     run_bind (rsaPublicKeyFromMap (obj_del ''oth'' jwk6)) (\<lambda>publicKey.
     run_bind
       (case map_of jwk6 ''oth'' of
          None \<Rightarrow> Inr []
        | Some JNull \<Rightarrow> Inr []
        | Some (JArr otherPrimesInfo) \<Rightarrow>
            if otherPrimesInfo = [] then Inl (Fails ErrOtherPrimes) else other_primes otherPrimesInfo
        | Some _ \<Rightarrow> Inl (Fails ErrOtherPrimes)) (\<lambda>otherPrimeFactors.
       Inr \<lparr>rsaPublic = publicKey, RsaD = privateExponent,
            Primes = [firstPrimeFactor, secondPrimeFactor] @ otherPrimeFactors,
            RsaDp = firstFactorCRT, RsaDq = secondFactorCRT, RsaQinv = crtCoeff,
            CRTValues = replicate (length otherPrimeFactors) None\<rparr>))))))))"

definition ecPrivateKeyFromMap :: "obj \<Rightarrow> ecPrivateKey result" where
  "ecPrivateKeyFromMap jwk =
     run_bind (stringFromMap jwk ''d'') (\<lambda>(dB64Url, jwk1).
     run_bind (ecPublicKeyFromMap jwk1) (\<lambda>publicKey.
     run_bind (parseECPrivateParam dB64Url (EcCurve publicKey)) (\<lambda>d.
       Inr \<lparr>ecPublic = publicKey, EcD = d\<rparr>)))"

definition UnmarshalPrivateKeyJWK :: "bytes \<Rightarrow> PrivateKey result" where
  "UnmarshalPrivateKeyJWK data =
     run_bind (or_fail ErrUnmarshal (unmarshal_map data)) (\<lambda>jwk.
     run_bind (stringFromMap jwk ''kty'') (\<lambda>(kty, jwk1).
       if kty = ''EC'' then run_bind (ecPrivateKeyFromMap jwk1) (\<lambda>k. Inr (EcPrivate k))
       else if kty = ''RSA'' then run_bind (rsaPrivateKeyFromMap jwk1) (\<lambda>k. Inr (RsaPrivate k))
       else Inl (Fails ErrKeyType)))"

subsection \<open>Signing and verifying\<close>

fun mod_pow :: "nat \<Rightarrow> nat \<Rightarrow> nat \<Rightarrow> nat" where
  "mod_pow b e n =
     (if e = 0 then 1 mod n
      else let r = mod_pow (b * b mod n) (e div 2) n in if even e then r else b * r mod n)"

declare mod_pow.simps [simp del]

lemma mod_pow_eq: "mod_pow b e n = b ^ e mod n"
proof (induction b e n rule: mod_pow.induct)
  case (1 b e n)
  show ?case
  proof (cases "e = 0")
    case False
    let ?r = "mod_pow (b * b mod n) (e div 2) n"
    have r: "?r = (b * b) ^ (e div 2) mod n" using 1 False by (simp add: power_mod)
    have p: "b ^ e = (if even e then (b * b) ^ (e div 2) else b * (b * b) ^ (e div 2))"
      by (auto simp: power2_eq_square [symmetric] power_mult [symmetric] elim!: evenE oddE)
    show ?thesis
      using False by (subst mod_pow.simps) (simp add: r p Let_def mod_mult_right_eq)
  qed (simp add: mod_pow.simps)
qed

fun hash_size :: "crypto_hash \<Rightarrow> nat" where
  "hash_size SHA256 = 32"
| "hash_size SHA384 = 48"
| "hash_size SHA512 = 64"

fun hash_number :: "crypto_hash \<Rightarrow> nat" where
  "hash_number SHA256 = 1"
| "hash_number SHA384 = 2"
| "hash_number SHA512 = 3"

text \<open>The start of the DER form of a \<open>DigestInfo\<close>: the algorithm, 2.16.840.1.101.3.4.2 and the number of
  the hash, and the head of the octet string that the hash is.\<close>

definition hash_prefix :: "crypto_hash \<Rightarrow> bytes" where
  "hash_prefix h =
     [byte 48, byte (17 + hash_size h)] @
     der_sequence [der_oid ([96, 134, 72, 1, 101] @ [3, 4, 2, hash_number h]), der_tlv 5 []] @
     [byte 4, byte (hash_size h)]"

text \<open>The encoded message: \<open>00 01 FF .. FF 00\<close>, the prefix of the hash and the hash, if it fits.\<close>

definition pkcs1_message :: "crypto_hash \<Rightarrow> bytes \<Rightarrow> nat \<Rightarrow> bytes option" where
  "pkcs1_message h hashed k =
     (let t = hash_prefix h @ hashed in
      if k < length t + 11 then None
      else Some ([byte 0, byte 1] @ replicate (k - length t - 3) (byte 255) @ [byte 0] @ t))"

definition SignPKCS1v15 :: "rsaPrivateKey \<Rightarrow> crypto_hash \<Rightarrow> bytes \<Rightarrow> bytes option" where
  "SignPKCS1v15 priv h hashed =
     (let n = RsaN (rsaPublic priv); k = octets (bit_len n) in
      case pkcs1_message h hashed k of
        None \<Rightarrow> None
      | Some em \<Rightarrow>
          (let m = bytes_nat em in
           if n < m then None else Some (left_pad k (nat_bytes (mod_pow m (RsaD priv) n)))))"

definition VerifyPKCS1v15 :: "rsaPublicKey \<Rightarrow> crypto_hash \<Rightarrow> bytes \<Rightarrow> bytes \<Rightarrow> bool" where
  "VerifyPKCS1v15 pub h hashed sig =
     (let k = octets (bit_len (RsaN pub)) in
      case pkcs1_message h hashed k of
        None \<Rightarrow> False
      | Some em \<Rightarrow> left_pad k (nat_bytes (mod_pow (bytes_nat sig) (RsaE pub) (RsaN pub))) = em)"

definition rsa_public_Verify :: "rsaPublicKey \<Rightarrow> bytes \<Rightarrow> string \<Rightarrow> bytes \<Rightarrow> unit result" where
  "rsa_public_Verify k data alg signature =
     run_bind (rsaSignatureAlgorithmByName alg) (\<lambda>sigAlg.
       check (VerifyPKCS1v15 k (HashID sigAlg) (hash_sum (HashID sigAlg) data) signature) ErrVerification)"

definition ec_public_Verify :: "crypto_ops \<Rightarrow> ecPublicKey \<Rightarrow> bytes \<Rightarrow> string \<Rightarrow> bytes \<Rightarrow> unit result" where
  "ec_public_Verify ops k data alg signature =
     run_bind (check (HeaderParam (curve_algorithm (EcCurve k)) = alg) ErrAlgorithm) (\<lambda>_.
     run_bind (check (length signature = 2 * octets (BitSize (EcCurve k))) ErrOctets) (\<lambda>_.
       (let half = length signature div 2;
            r = bytes_nat (take half signature);
            s = bytes_nat (drop half signature)
        in check (ecdsa_verify ops (EcCurve k) (EcX k, EcY k)
             (hash_sum (HashID (curve_algorithm (EcCurve k))) data) r s) ErrVerification)))"

declare rsa_public_Verify_def [simp] ec_public_Verify_def [simp]

fun public_Verify :: "crypto_ops \<Rightarrow> PublicKey \<Rightarrow> bytes \<Rightarrow> string \<Rightarrow> bytes \<Rightarrow> unit result" where
  "public_Verify ops (RsaPublic k) = rsa_public_Verify k"
| "public_Verify ops (EcPublic k) = ec_public_Verify ops k"

definition rsa_private_Sign :: "rsaPrivateKey \<Rightarrow> bytes \<Rightarrow> crypto_hash \<Rightarrow> (bytes \<times> string) result" where
  "rsa_private_Sign k data hashID =
     (let sigAlg = rsaPKCS1v15SignatureAlgorithmForHashID hashID in
      run_bind (or_fail ErrSigning (SignPKCS1v15 k (HashID sigAlg) (hash_sum (HashID sigAlg) data))) (\<lambda>signature.
        Inr (signature, HeaderParam sigAlg)))"

text \<open>A curve has one algorithm; the hash that is asked for is not used.\<close>

definition ec_private_Sign :: "crypto_ops \<Rightarrow> ecPrivateKey \<Rightarrow> bytes \<Rightarrow> crypto_hash \<Rightarrow> (bytes \<times> string) result" where
  "ec_private_Sign ops k data hashID =
     (let c = EcCurve (ecPublic k); sigAlg = curve_algorithm c; octetLength = octets (BitSize c) in
      run_bind (or_fail ErrSigning (ecdsa_sign ops c (EcD k) (hash_sum (HashID sigAlg) data))) (\<lambda>(r, s).
        if octetLength < length (nat_bytes r) \<or> octetLength < length (nat_bytes s)
        then Inl (Panics SliceOutOfRange)
        else Inr (left_pad octetLength (nat_bytes r) @ left_pad octetLength (nat_bytes s), HeaderParam sigAlg)))"

declare rsa_private_Sign_def [simp] ec_private_Sign_def [simp]

fun private_Sign :: "crypto_ops \<Rightarrow> PrivateKey \<Rightarrow> bytes \<Rightarrow> crypto_hash \<Rightarrow> (bytes \<times> string) result" where
  "private_Sign ops (RsaPrivate k) = rsa_private_Sign k"
| "private_Sign ops (EcPrivate k) = ec_private_Sign ops k"

subsection \<open>Filtering by host\<close>

text \<open>The \<open>hosts\<close> field of a key; \<open>glob\<close> is \<open>filepath.Match\<close>, which fails on a bad pattern.  A key is
  added once for every pattern that matches.\<close>

definition key_hosts :: "PublicKey \<Rightarrow> string list" where
  "key_hosts k =
     (case GetExtendedField ''hosts'' k of
        Some (JArr vs) \<Rightarrow> concat (map (\<lambda>v. case v of JStr h \<Rightarrow> [h] | _ \<Rightarrow> []) vs)
      | _ \<Rightarrow> [])"

fun match_hosts :: "(string \<Rightarrow> string \<Rightarrow> bool option) \<Rightarrow> string \<Rightarrow> PublicKey \<Rightarrow> string list \<Rightarrow> PublicKey list option" where
  "match_hosts glob host k [] = Some []"
| "match_hosts glob host k (p # ps) =
     (case glob p host of
        None \<Rightarrow> None
      | Some m \<Rightarrow> map_option (\<lambda>r. (if m then [k] else []) @ r) (match_hosts glob host k ps))"

fun FilterByHosts :: "(string \<Rightarrow> string \<Rightarrow> bool option) \<Rightarrow> PublicKey list \<Rightarrow> string \<Rightarrow> bool \<Rightarrow> PublicKey list option" where
  "FilterByHosts glob [] host includeEmpty = Some []"
| "FilterByHosts glob (k # ks) host includeEmpty =
     (let hosts = key_hosts k in
      case (if hosts = [] then Some (if includeEmpty then [k] else []) else match_hosts glob host k hosts) of
        None \<Rightarrow> None
      | Some now \<Rightarrow> map_option (\<lambda>rest. now @ rest) (FilterByHosts glob ks host includeEmpty))"

end
