(* ===== verification/KeysSpec.thy ===== *)
theory KeysSpec
  imports Keys
begin

text \<open>
  What the keys promise: a key survives its JSON web key form, and what a key signs its public key
  verifies.
\<close>

subsection \<open>JSON web key forms\<close>

definition plain_fields :: "string set \<Rightarrow> obj \<Rightarrow> bool" where
  "plain_fields reserved m \<longleftrightarrow> canonical m \<and> (\<forall>k \<in> reserved. map_of m k = None)"

fun public_ok :: "PublicKey \<Rightarrow> bool" where
  "public_ok (RsaPublic k) \<longleftrightarrow> 0 < RsaE k \<and> RsaE k < 2 ^ 32 \<and>
     plain_fields {''kty'', ''kid'', ''n'', ''e'', ''d''} (rsa_extended k)"
| "public_ok (EcPublic k) \<longleftrightarrow> EcX k < 256 ^ octets (BitSize (EcCurve k)) \<and> EcY k < 256 ^ octets (BitSize (EcCurve k)) \<and>
     plain_fields {''kty'', ''kid'', ''crv'', ''x'', ''y''} (ec_extended k)"

lemma canonical_sorted: "canonical m \<Longrightarrow> obj_sorted m"
  by (simp add: canonical_def)

lemma stringFromMap_Some: "map_of m key = Some (JStr s) \<Longrightarrow> stringFromMap m key = Inr (s, obj_del key m)"
  by (simp add: stringFromMap_def)

lemma KeyID_fields: "KeyID (RsaPublic (k\<lparr>rsa_extended := m\<rparr>)) = KeyID (RsaPublic k)"
  "KeyID (EcPublic (k'\<lparr>ec_extended := m\<rparr>)) = KeyID (EcPublic k')"
  by (simp_all add: KeyID_def)

lemma KeyID_simps [simp]:
  "KeyID (RsaPublic \<lparr>RsaN = RsaN k, RsaE = RsaE k, rsa_extended = []\<rparr>) = KeyID (RsaPublic k)"
  "KeyID (EcPublic \<lparr>EcCurve = EcCurve k', EcX = EcX k', EcY = EcY k', ec_extended = []\<rparr>) = KeyID (EcPublic k')"
  by (simp_all add: KeyID_def)

lemma serialize_exponent:
  assumes "0 < e" "e < 2 ^ 32"
  shows "serializeRSAPublicExponentParam e = Inr (nat_bytes e)"
    and "parseRSAPublicExponentParam (joseBase64UrlEncode (nat_bytes e)) = Inr e"
proof -
  from nat_bytes_hd [OF assms(1)] obtain c cs where c: "nat_bytes e = c # cs" and z: "of_char c \<noteq> (0 :: nat)"
    by blast
  from z have nz: "c \<noteq> byte 0" by (auto simp: byte_def)
  have "dropWhile (\<lambda>c. c = byte 0) (replicate k (byte 0) @ nat_bytes e) = nat_bytes e" for k
    by (induction k) (simp_all add: c nz)
  then have "dropWhile (\<lambda>c. c = byte 0) (left_pad 4 (nat_bytes e)) = nat_bytes e"
    by (simp add: left_pad_def byte_def)
  with assms c show "serializeRSAPublicExponentParam e = Inr (nat_bytes e)"
    by (simp add: serializeRSAPublicExponentParam_def Let_def)
  have "length (nat_bytes e) \<le> 4" using assms(2) by (intro length_nat_bytes) simp
  then show "parseRSAPublicExponentParam (joseBase64UrlEncode (nat_bytes e)) = Inr e"
    by (simp add: parseRSAPublicExponentParam_def jose_decode_encode)
qed

lemma parse_coordinate:
  assumes "x < 256 ^ octets (BitSize c)"
  shows "parseECCoordinate (joseBase64UrlEncode (left_pad (octets (BitSize c)) (nat_bytes x))) c = Inr x"
    and "parseECPrivateParam (joseBase64UrlEncode (left_pad (octets (BitSize c)) (nat_bytes x))) c = Inr x"
  using length_nat_bytes [OF assms]
  by (simp_all add: parseECCoordinate_def parseECPrivateParam_def jose_decode_encode length_left_pad)

lemma check_kid_Some: "map_of jwk ''kid'' = Some (JStr kid) \<Longrightarrow> check_kid kid jwk = Inr (obj_del ''kid'' jwk)"
  by (simp add: check_kid_def stringFromMap_Some)

lemma parse_modulus: "parseRSAModulusParam (joseBase64UrlEncode (nat_bytes n)) = Inr n"
  by (simp add: parseRSAModulusParam_def jose_decode_encode)

lemma rsa_public_fromMap:
  assumes "0 < RsaE k" "RsaE k < 2 ^ 32"
    and "map_of jwk ''n'' = Some (JStr (joseBase64UrlEncode (nat_bytes (RsaN k))))"
    and "map_of jwk ''e'' = Some (JStr (joseBase64UrlEncode (nat_bytes (RsaE k))))"
    and "map_of jwk ''kid'' = Some (JStr (KeyID (RsaPublic k)))" "map_of jwk ''d'' = None"
  shows "rsaPublicKeyFromMap jwk =
    Inr (k\<lparr>rsa_extended := obj_del ''kid'' (obj_del ''e'' (obj_del ''n'' jwk))\<rparr>)"
  using assms
  by (simp add: rsaPublicKeyFromMap_def stringFromMap_Some parse_modulus serialize_exponent check_kid_Some)

lemma ec_public_fromMap:
  assumes "EcX k < 256 ^ octets (BitSize (EcCurve k))" "EcY k < 256 ^ octets (BitSize (EcCurve k))"
    and "map_of jwk ''crv'' = Some (JStr (curveName (EcCurve k)))"
    and "map_of jwk ''x'' = Some (JStr (joseBase64UrlEncode (left_pad (octets (BitSize (EcCurve k))) (nat_bytes (EcX k)))))"
    and "map_of jwk ''y'' = Some (JStr (joseBase64UrlEncode (left_pad (octets (BitSize (EcCurve k))) (nat_bytes (EcY k)))))"
    and "map_of jwk ''kid'' = Some (JStr (KeyID (EcPublic k)))"
  shows "ecPublicKeyFromMap jwk =
    Inr (k\<lparr>ec_extended := obj_del ''kid'' (obj_del ''y'' (obj_del ''x'' (obj_del ''crv'' jwk)))\<rparr>)"
proof -
  have "curve_by_name (curveName c) = Inr c" for c by (cases c) (simp_all add: curve_by_name_def)
  with assms show ?thesis
    by (simp add: ecPublicKeyFromMap_def stringFromMap_Some parse_coordinate check_kid_Some)
qed

lemma public_toMap_ok:
  assumes "public_ok k"
  shows "\<exists>m. public_toMap k = Inr m \<and> canonical m \<and> map_of m ''kty'' = Some (JStr (KeyType k)) \<and>
    (\<forall>jwk. obj_sorted jwk \<longrightarrow> map_of jwk = (map_of m)(''kty'' := None) \<longrightarrow>
      (case k of RsaPublic r \<Rightarrow> rsaPublicKeyFromMap jwk = Inr r | EcPublic e \<Rightarrow> ecPublicKeyFromMap jwk = Inr e))"
  supply obj_put.simps [simp del]
proof (cases k)
  case (RsaPublic r)
  let ?m = "obj_put ''e'' (JStr (joseBase64UrlEncode (nat_bytes (RsaE r))))
        (obj_put ''n'' (JStr (joseBase64UrlEncode (nat_bytes (RsaN r))))
        (obj_put ''kid'' (JStr (KeyID (RsaPublic r)))
        (obj_put ''kty'' (JStr ''RSA'') (rsa_extended r))))"
  from assms have e: "0 < RsaE r" "RsaE r < 2 ^ 32" and c: "canonical (rsa_extended r)"
    and n: "map_of (rsa_extended r) ''kty'' = None" "map_of (rsa_extended r) ''kid'' = None"
      "map_of (rsa_extended r) ''n'' = None" "map_of (rsa_extended r) ''e'' = None" "map_of (rsa_extended r) ''d'' = None"
    by (simp_all add: RsaPublic plain_fields_def)
  show ?thesis
  proof (intro exI [of _ ?m] conjI allI impI)
    show "public_toMap k = Inr ?m" using e by (simp add: RsaPublic serialize_exponent)
    show cm: "canonical ?m" using c by (simp add: canonical_put)
    show "map_of ?m ''kty'' = Some (JStr (KeyType k))" by (simp add: RsaPublic)
    fix jwk assume j: "obj_sorted jwk" "map_of jwk = (map_of ?m)(''kty'' := None)"
    have "obj_del ''kid'' (obj_del ''e'' (obj_del ''n'' jwk)) = rsa_extended r"
      by (rule obj_eqI) (use j c n in \<open>simp_all add: obj_del_sorted canonical_sorted fun_eq_iff\<close>)
    with rsa_public_fromMap [of r jwk] e n j(2)
    show "case k of RsaPublic r \<Rightarrow> rsaPublicKeyFromMap jwk = Inr r | EcPublic e \<Rightarrow> ecPublicKeyFromMap jwk = Inr e"
      by (simp add: RsaPublic)
  qed
next
  case (EcPublic r)
  let ?o = "octets (BitSize (EcCurve r))"
  let ?m = "obj_put ''y'' (JStr (joseBase64UrlEncode (left_pad ?o (nat_bytes (EcY r)))))
        (obj_put ''x'' (JStr (joseBase64UrlEncode (left_pad ?o (nat_bytes (EcX r)))))
        (obj_put ''crv'' (JStr (curveName (EcCurve r)))
        (obj_put ''kid'' (JStr (KeyID (EcPublic r)))
        (obj_put ''kty'' (JStr ''EC'') (ec_extended r)))))"
  from assms have x: "EcX r < 256 ^ ?o" "EcY r < 256 ^ ?o" and c: "canonical (ec_extended r)"
    and n: "map_of (ec_extended r) ''kty'' = None" "map_of (ec_extended r) ''kid'' = None"
      "map_of (ec_extended r) ''crv'' = None" "map_of (ec_extended r) ''x'' = None" "map_of (ec_extended r) ''y'' = None"
    by (simp_all add: EcPublic plain_fields_def)
  show ?thesis
  proof (intro exI [of _ ?m] conjI allI impI)
    show "public_toMap k = Inr ?m"
      using length_nat_bytes [OF x(1)] length_nat_bytes [OF x(2)] by (simp add: EcPublic Let_def)
    show cm: "canonical ?m" using c by (simp add: canonical_put)
    show "map_of ?m ''kty'' = Some (JStr (KeyType k))" by (simp add: EcPublic)
    fix jwk assume j: "obj_sorted jwk" "map_of jwk = (map_of ?m)(''kty'' := None)"
    have "obj_del ''kid'' (obj_del ''y'' (obj_del ''x'' (obj_del ''crv'' jwk))) = ec_extended r"
      by (rule obj_eqI) (use j c n in \<open>simp_all add: obj_del_sorted canonical_sorted fun_eq_iff\<close>)
    with ec_public_fromMap [of r jwk] x n j(2)
    show "case k of RsaPublic r \<Rightarrow> rsaPublicKeyFromMap jwk = Inr r | EcPublic e \<Rightarrow> ecPublicKeyFromMap jwk = Inr e"
      by (simp add: EcPublic)
  qed
qed


lemma UnmarshalPublic_toMap:
  assumes "public_ok k" "public_toMap k = Inr m"
  shows "UnmarshalPublicKeyJWK (Marshal (JObj m)) = Inr k"
proof -
  from public_toMap_ok [OF assms(1)] obtain m' where m': "public_toMap k = Inr m'"
    and c: "canonical m'" and t: "map_of m' ''kty'' = Some (JStr (KeyType k))"
    and f: "\<forall>jwk. obj_sorted jwk \<longrightarrow> map_of jwk = (map_of m')(''kty'' := None) \<longrightarrow>
      (case k of RsaPublic r \<Rightarrow> rsaPublicKeyFromMap jwk = Inr r | EcPublic e \<Rightarrow> ecPublicKeyFromMap jwk = Inr e)"
    by blast
  have m: "m' = m" using m' assms(2) by simp
  have "case k of RsaPublic r \<Rightarrow> rsaPublicKeyFromMap (obj_del ''kty'' m') = Inr r
      | EcPublic e \<Rightarrow> ecPublicKeyFromMap (obj_del ''kty'' m') = Inr e"
    by (rule f [rule_format]) (simp_all add: obj_del_sorted canonical_sorted c)
  with t show ?thesis
    by (cases k) (simp_all add: UnmarshalPublicKeyJWK_def unmarshal_map_Marshal [OF c [unfolded m]] stringFromMap_Some m)
qed

subsection \<open>Signatures\<close>

text \<open>
  A key with which signing can succeed and verify: for RSA the private power undoes the public one,
  for a curve the ECDSA primitives agree.  Both are what the key generators promise.
\<close>

fun valid_key :: "crypto_ops \<Rightarrow> PrivateKey \<Rightarrow> bool" where
  "valid_key ops (RsaPrivate k) \<longleftrightarrow>
     (\<forall>m < RsaN (rsaPublic k). ((m ^ RsaD k mod RsaN (rsaPublic k)) ^ RsaE (rsaPublic k)) mod RsaN (rsaPublic k) = m)"
| "valid_key ops (EcPrivate k) \<longleftrightarrow>
     (\<forall>h r s. ecdsa_sign ops (EcCurve (ecPublic k)) (EcD k) h = Some (r, s) \<longrightarrow>
        ecdsa_verify ops (EcCurve (ecPublic k)) (EcX (ecPublic k), EcY (ecPublic k)) h r s)"

text \<open>The interface of signing: what a good key signs its public key verifies.\<close>

locale signing_keys =
  fixes ops :: crypto_ops and good :: "PrivateKey \<Rightarrow> bool"
  assumes verifies: "good key \<Longrightarrow> private_Sign ops key data h = Inr (sig, alg) \<Longrightarrow>
    public_Verify ops (PublicKeyOf key) data alg sig = Inr ()"
begin

lemma sign_or_fail:
  "good key \<Longrightarrow> (\<exists>sig alg. private_Sign ops key data h = Inr (sig, alg) \<and>
     public_Verify ops (PublicKeyOf key) data alg sig = Inr ()) \<or> (\<exists>e. private_Sign ops key data h = Inl e)"
  using verifies by (cases "private_Sign ops key data h") force+

end

lemma pkcs1_message_bound:
  assumes "pkcs1_message h hashed k = Some em"
  shows "bytes_nat em < 256 ^ (k - 1)" "length em = k" "11 \<le> k"
proof -
  from assms obtain rest where em: "em = byte 0 # rest" "length em = k" "11 \<le> k"
    by (auto simp: pkcs1_message_def Let_def split: if_splits)
  have "bytes_nat em = bytes_nat rest"
    using bytes_nat_left_pad [of "Suc (length rest)" rest] by (simp add: em left_pad_def byte_def)
  with bytes_nat_bound [of rest] em show "bytes_nat em < 256 ^ (k - 1)" "length em = k" "11 \<le> k" by auto
qed

lemma modulus_bound: "0 < n \<Longrightarrow> 2 ^ (bit_len n - 1) \<le> n"
proof (induction n rule: bit_len.induct)
  case (1 n)
  show ?case
  proof (cases "n div 2 = 0")
    case True
    then have "n = 1" using 1 by auto
    then show ?thesis by (simp add: bit_len.simps)
  next
    case False
    with 1 have "2 ^ (bit_len (n div 2) - 1) \<le> n div 2" by auto
    moreover have "0 < bit_len (n div 2)" using False by (subst bit_len.simps) simp
    moreover have "bit_len n = Suc (bit_len (n div 2))" using 1 by (subst bit_len.simps) simp
    ultimately show ?thesis by (cases "bit_len (n div 2)") auto
  qed
qed

lemma left_pad_bytes: "length em = k \<Longrightarrow> left_pad k (nat_bytes (bytes_nat em)) = em"
proof (induction em arbitrary: k rule: rev_induct)
  case (snoc c b)
  show ?case
  proof (cases "bytes_nat b = 0 \<and> of_char c = (0 :: nat)")
    case True
    then have z: "c = char_of (0 :: nat)" by (metis char_of_char)
    have "left_pad (length b) (nat_bytes (bytes_nat b)) = b" by (rule snoc.IH) simp
    with True have "replicate (length b) (char_of (0 :: nat)) = b" by (simp add: left_pad_def)
    moreover from snoc.prems have "left_pad k [] = replicate (length b) (char_of (0 :: nat)) @ [char_of (0 :: nat)]"
      by (auto simp: left_pad_def replicate_append_same)
    ultimately show ?thesis using True z by (simp add: bytes_nat_snoc)
  next
    case False
    have c: "of_char c < (256 :: nat)" by (metis of_char_mod_256 mod_less_divisor zero_less_numeral)
    have p: "0 < bytes_nat (b @ [c])" using False by (auto simp: bytes_nat_snoc)
    have "bytes_nat (b @ [c]) mod 256 = of_char c" using c by (simp add: bytes_nat_snoc)
    then have "char_of (bytes_nat (b @ [c]) mod 256) = c" by (simp only: char_of_char)
    then have d1: "char_of (bytes_nat (b @ [c])) = c" by (metis char_of_mod_256)
    have d2: "bytes_nat (b @ [c]) div 256 = bytes_nat b" using c by (simp add: bytes_nat_snoc)
    note d = d1 d2
    have "left_pad (length b) (nat_bytes (bytes_nat b)) = b" by (rule snoc.IH) simp
    then show ?thesis
      using snoc.prems by (auto simp: nat_bytes_pos [OF p] d left_pad_def)
  qed
qed (simp add: left_pad_def)

lemma rsa_sign_verifies:
  assumes "valid_key ops (RsaPrivate k)" "SignPKCS1v15 k h hashed = Some sig"
  shows "VerifyPKCS1v15 (rsaPublic k) h hashed sig"
proof -
  let ?n = "RsaN (rsaPublic k)" and ?k = "octets (bit_len (RsaN (rsaPublic k)))"
  from assms(2) obtain em where em: "pkcs1_message h hashed ?k = Some em" "\<not> ?n < bytes_nat em"
    and s: "sig = left_pad ?k (nat_bytes (bytes_nat em ^ RsaD k mod ?n))"
    by (auto simp: SignPKCS1v15_def Let_def mod_pow_eq split: option.splits if_splits)
  note b = pkcs1_message_bound [OF em(1)]
  have "0 < ?n"
  proof (rule ccontr)
    assume "\<not> 0 < ?n"
    then have "?k = 0" by (simp add: bit_len.simps octets_def)
    with b show False by simp
  qed
  then have "2 ^ (bit_len ?n - 1) \<le> ?n" by (rule modulus_bound)
  moreover have "(256 :: nat) ^ (?k - 1) \<le> 2 ^ (bit_len ?n - 1)"
  proof -
    have "8 * (?k - 1) \<le> bit_len ?n - 1" by (simp add: octets_def)
    then have "(2 :: nat) ^ (8 * (?k - 1)) \<le> 2 ^ (bit_len ?n - 1)" by (intro power_increasing) auto
    then show ?thesis by (simp add: power_mult)
  qed
  ultimately have "bytes_nat em < ?n" using b(1) by linarith
  then have "(bytes_nat em ^ RsaD k mod ?n) ^ RsaE (rsaPublic k) mod ?n = bytes_nat em"
    using assms(1) by simp
  with em(1) s show ?thesis
    using left_pad_bytes [OF b(2)] by (simp add: VerifyPKCS1v15_def Let_def mod_pow_eq)
qed

lemma private_sign_verifies:
  assumes "valid_key ops key" "private_Sign ops key data h = Inr (sig, alg)"
  shows "public_Verify ops (PublicKeyOf key) data alg sig = Inr ()"
proof (cases key)
  case (RsaPrivate k)
  let ?a = "rsaPKCS1v15SignatureAlgorithmForHashID h"
  from assms(2) have s: "SignPKCS1v15 k (HashID ?a) (hash_sum (HashID ?a) data) = Some sig" "alg = HeaderParam ?a"
    by (auto simp: RsaPrivate run_bind_eq_Inr_iff or_fail_Inr Let_def)
  have "rsaSignatureAlgorithmByName (HeaderParam ?a) = Inr ?a"
    by (cases h) (simp_all add: rsaSignatureAlgorithmByName_def algorithms)
  with s rsa_sign_verifies [OF assms(1) [unfolded RsaPrivate] s(1)] show ?thesis by (simp add: RsaPrivate)
next
  case (EcPrivate k)
  let ?c = "EcCurve (ecPublic k)"
  let ?o = "octets (BitSize ?c)"
  from assms(2) obtain r s where
    rs: "ecdsa_sign ops ?c (EcD k) (hash_sum (HashID (curve_algorithm ?c)) data) = Some (r, s)"
    and l: "length (nat_bytes r) \<le> ?o" "length (nat_bytes s) \<le> ?o"
    and sig: "sig = left_pad ?o (nat_bytes r) @ left_pad ?o (nat_bytes s)" "alg = HeaderParam (curve_algorithm ?c)"
    by (auto simp: EcPrivate run_bind_eq_Inr_iff or_fail_Inr Let_def split: if_splits)
  from assms(1) rs have "ecdsa_verify ops ?c (EcX (ecPublic k), EcY (ecPublic k))
      (hash_sum (HashID (curve_algorithm ?c)) data) r s" by (simp add: EcPrivate)
  with sig length_left_pad [OF l(1)] length_left_pad [OF l(2)] show ?thesis
    by (simp add: EcPrivate Let_def mult_2 [symmetric])
qed

interpretation trust_keys: signing_keys ops "valid_key ops"
  by unfold_locales (rule private_sign_verifies)

subsection \<open>Private keys\<close>

fun private_ok :: "PrivateKey \<Rightarrow> bool" where
  "private_ok (RsaPrivate k) \<longleftrightarrow> public_ok (RsaPublic (rsaPublic k)) \<and> length (Primes k) = 2 \<and> CRTValues k = [] \<and>
     (\<forall>f \<in> {''d'', ''p'', ''q'', ''dp'', ''dq'', ''qi'', ''oth''}. map_of (rsa_extended (rsaPublic k)) f = None)"
| "private_ok (EcPrivate k) \<longleftrightarrow> public_ok (EcPublic (ecPublic k)) \<and> EcD k < 256 ^ octets (BitSize (EcCurve (ecPublic k))) \<and>
     map_of (ec_extended (ecPublic k)) ''d'' = None"

lemma parse_private_param:
  "map_of m key = Some (JStr (joseBase64UrlEncode (nat_bytes v))) \<Longrightarrow>
   parseRSAPrivateKeyParamFromMap m key = Inr (v, obj_del key m)"
  by (simp add: parseRSAPrivateKeyParamFromMap_def stringFromMap_Some jose_decode_encode)

lemma public_toMap_fields:
  "public_toMap k = Inr m \<Longrightarrow> f \<notin> {''kty'', ''kid'', ''n'', ''e'', ''crv'', ''x'', ''y''} \<Longrightarrow>
    map_of m f = map_of (extended k) f"
  by (cases k) (auto simp: run_bind_eq_Inr_iff Let_def split: if_splits)

lemma rsa_private_fromMap:
  assumes "private_ok (RsaPrivate k)" "private_toMap (RsaPrivate k) = Inr m"
  shows "canonical m \<and> map_of m ''kty'' = Some (JStr ''RSA'') \<and> rsaPrivateKeyFromMap (obj_del ''kty'' m) = Inr k"
proof -
  let ?r = "rsaPublic k"
  from assms(1) obtain p q where pq: "Primes k = [p, q]" by (auto simp: length_Suc_conv numeral_2_eq_2)
  from assms(1) have po: "public_ok (RsaPublic ?r)" by simp
  from public_toMap_ok [OF po] obtain pm where pm: "public_toMap (RsaPublic ?r) = Inr pm" "canonical pm"
    "map_of pm ''kty'' = Some (JStr ''RSA'')"
    and f: "\<forall>jwk. obj_sorted jwk \<longrightarrow> map_of jwk = (map_of pm)(''kty'' := None) \<longrightarrow> rsaPublicKeyFromMap jwk = Inr ?r"
    by auto
  have n: "map_of pm ''d'' = None" "map_of pm ''p'' = None" "map_of pm ''q'' = None" "map_of pm ''dp'' = None"
    "map_of pm ''dq'' = None" "map_of pm ''qi'' = None" "map_of pm ''oth'' = None"
    using public_toMap_fields [OF pm(1)] assms(1) by simp_all
  from assms(2) have m: "m = obj_put ''qi'' (JStr (joseBase64UrlEncode (nat_bytes (RsaQinv k))))
              (obj_put ''dq'' (JStr (joseBase64UrlEncode (nat_bytes (RsaDq k))))
              (obj_put ''dp'' (JStr (joseBase64UrlEncode (nat_bytes (RsaDp k))))
              (obj_put ''q'' (JStr (joseBase64UrlEncode (nat_bytes q)))
              (obj_put ''p'' (JStr (joseBase64UrlEncode (nat_bytes p)))
              (obj_put ''d'' (JStr (joseBase64UrlEncode (nat_bytes (RsaD k)))) pm)))))"
    by (simp add: pm pq Let_def del: obj_put.simps public_toMap.simps)
  define jwk where "jwk = obj_del ''oth'' (obj_del ''qi'' (obj_del ''dq'' (obj_del ''dp'' (obj_del ''q'' (obj_del ''p'' (obj_del ''d'' (obj_del ''kty'' m)))))))"
  have cm: "canonical m" using pm(2) by (simp add: m canonical_put del: obj_put.simps)
  have j: "map_of jwk = (map_of pm)(''kty'' := None)"
    using n by (simp add: jwk_def m fun_eq_iff del: obj_put.simps)
  have "rsaPublicKeyFromMap jwk = Inr ?r"
    by (rule f [rule_format, OF _ j]) (simp add: jwk_def obj_del_sorted canonical_sorted cm)
  moreover have "map_of m ''oth'' = None" using n by (simp add: m del: obj_put.simps)
  moreover have "map_of m ''d'' = Some (JStr (joseBase64UrlEncode (nat_bytes (RsaD k))))"
    "map_of m ''p'' = Some (JStr (joseBase64UrlEncode (nat_bytes p)))"
    "map_of m ''q'' = Some (JStr (joseBase64UrlEncode (nat_bytes q)))"
    "map_of m ''dp'' = Some (JStr (joseBase64UrlEncode (nat_bytes (RsaDp k))))"
    "map_of m ''dq'' = Some (JStr (joseBase64UrlEncode (nat_bytes (RsaDq k))))"
    "map_of m ''qi'' = Some (JStr (joseBase64UrlEncode (nat_bytes (RsaQinv k))))"
    by (simp_all add: m del: obj_put.simps)
  ultimately have "rsaPrivateKeyFromMap (obj_del ''kty'' m) = Inr k"
    using assms(1) pq by (simp add: rsaPrivateKeyFromMap_def parse_private_param jwk_def [symmetric])
  with cm pm(3) show ?thesis by (simp add: m del: obj_put.simps)
qed

lemma ec_private_fromMap:
  assumes "private_ok (EcPrivate k)" "private_toMap (EcPrivate k) = Inr m"
  shows "canonical m \<and> map_of m ''kty'' = Some (JStr ''EC'') \<and> ecPrivateKeyFromMap (obj_del ''kty'' m) = Inr k"
proof -
  let ?r = "ecPublic k" and ?o = "octets (BitSize (EcCurve (ecPublic k)))"
  from assms(1) have po: "public_ok (EcPublic ?r)" and d: "EcD k < 256 ^ ?o" by simp_all
  from public_toMap_ok [OF po] obtain pm where pm: "public_toMap (EcPublic ?r) = Inr pm" "canonical pm"
    "map_of pm ''kty'' = Some (JStr ''EC'')"
    and f: "\<forall>jwk. obj_sorted jwk \<longrightarrow> map_of jwk = (map_of pm)(''kty'' := None) \<longrightarrow> ecPublicKeyFromMap jwk = Inr ?r"
    by auto
  have n: "map_of pm ''d'' = None" using public_toMap_fields [OF pm(1)] assms(1) by simp
  from assms(2) have m: "m = obj_put ''d'' (JStr (joseBase64UrlEncode (left_pad ?o (nat_bytes (EcD k))))) pm"
    by (simp add: pm Let_def del: obj_put.simps public_toMap.simps split: if_splits)
  have cm: "canonical m" using pm(2) by (simp add: m canonical_put del: obj_put.simps)
  have "ecPublicKeyFromMap (obj_del ''d'' (obj_del ''kty'' m)) = Inr ?r"
    by (rule f [rule_format]) (use n in \<open>simp_all add: obj_del_sorted canonical_sorted cm fun_eq_iff m del: obj_put.simps,
        simp add: obj_del_sorted obj_put_sorted canonical_sorted pm(2) del: obj_put.simps\<close>)
  moreover have "map_of m ''d'' = Some (JStr (joseBase64UrlEncode (left_pad ?o (nat_bytes (EcD k)))))"
    by (simp add: m del: obj_put.simps)
  ultimately have "ecPrivateKeyFromMap (obj_del ''kty'' m) = Inr k"
    using d by (simp add: ecPrivateKeyFromMap_def stringFromMap_Some parse_coordinate)
  with cm pm(3) show ?thesis by (simp add: m del: obj_put.simps)
qed

lemma private_toMap_defined:
  assumes "private_ok k" shows "\<exists>m. private_toMap k = Inr m"
proof (cases k)
  case (RsaPrivate r)
  from assms obtain p q where "Primes r = [p, q]" by (auto simp: RsaPrivate length_Suc_conv numeral_2_eq_2)
  moreover from assms obtain pm where "public_toMap (RsaPublic (rsaPublic r)) = Inr pm"
    using public_toMap_ok [of "RsaPublic (rsaPublic r)"] by (auto simp: RsaPrivate)
  ultimately show ?thesis by (simp add: RsaPrivate Let_def del: public_toMap.simps obj_put.simps)
next
  case (EcPrivate r)
  from assms have "length (nat_bytes (EcD r)) \<le> octets (BitSize (EcCurve (ecPublic r)))"
    by (intro length_nat_bytes) (simp add: EcPrivate)
  moreover from assms obtain pm where "public_toMap (EcPublic (ecPublic r)) = Inr pm"
    using public_toMap_ok [of "EcPublic (ecPublic r)"] by (auto simp: EcPrivate)
  ultimately show ?thesis by (simp add: EcPrivate Let_def del: public_toMap.simps obj_put.simps)
qed

lemma Unmarshal_private:
  assumes "private_ok k" "private_toMap k = Inr m"
  shows "canonical m" "UnmarshalPrivateKeyJWK (Marshal (JObj m)) = Inr k"
proof -
  have c: "canonical m \<and> map_of m ''kty'' = Some (JStr (KeyType (PublicKeyOf k))) \<and>
    (case k of RsaPrivate r \<Rightarrow> rsaPrivateKeyFromMap (obj_del ''kty'' m) = Inr r
      | EcPrivate e \<Rightarrow> ecPrivateKeyFromMap (obj_del ''kty'' m) = Inr e)"
    using assms rsa_private_fromMap ec_private_fromMap by (cases k) auto
  then show "canonical m" by blast
  then show "UnmarshalPrivateKeyJWK (Marshal (JObj m)) = Inr k"
    using c by (cases k) (simp_all add: UnmarshalPrivateKeyJWK_def unmarshal_map_Marshal stringFromMap_Some)
qed

text \<open>
  Property C40.  A key whose parameters fit their encodings and whose extra fields do not use the names
  of parameters can be written as a JSON web key, and the JSON web key reads back as the same key,
  extra fields included: for the private key (on a curve, or with two primes) and for its public key.
  In particular the key identifier written is the one the reader computes.
\<close>

theorem key_roundtrips:
  assumes "private_ok k"
  shows "(\<exists>data. private_MarshalJSON k = Inr data \<and> UnmarshalPrivateKeyJWK data = Inr k) \<and>
    (\<exists>data. public_MarshalJSON (PublicKeyOf k) = Inr data \<and> UnmarshalPublicKeyJWK data = Inr (PublicKeyOf k))"
proof -
  from private_toMap_defined [OF assms] obtain m where m: "private_toMap k = Inr m" ..
  have po: "public_ok (PublicKeyOf k)" using assms by (cases k) auto
  from public_toMap_ok [OF po] obtain pm where pm: "public_toMap (PublicKeyOf k) = Inr pm" by blast
  from Unmarshal_private [OF assms m] UnmarshalPublic_toMap [OF po pm] m pm show ?thesis
    by (simp add: private_MarshalJSON_def public_MarshalJSON_def)
qed

lemma other_primes_length:
  "rsaPrivateKeyFromMap jwk = Inr k \<Longrightarrow> \<exists>others. length (Primes k) = 2 + others \<and> CRTValues k = replicate others None"
  by (auto simp: rsaPrivateKeyFromMap_def run_bind_eq_Inr_iff)

text \<open>
  Reading a key with more than two primes loses their CRT values, as the loop fills in
  copies: the key reads without an error, and writing it again is a nil dereference.
\<close>

lemma multi_prime_key_unusable:
  assumes "rsaPrivateKeyFromMap jwk = Inr k" "2 < length (Primes k)" "RsaE (rsaPublic k) mod 2 ^ 32 \<noteq> 0"
  shows "private_MarshalJSON (RsaPrivate k) = Inl (Panics NilDereference)"
proof -
  from other_primes_length [OF assms(1)] obtain others where
    o: "length (Primes k) = 2 + others" "CRTValues k = replicate others None" by blast
  with assms(2) obtain n where "others = Suc n" by (cases others) auto
  with o have l: "length (Primes k) = Suc (Suc (Suc n))" and c: "CRTValues k = replicate (Suc n) None" by simp_all
  then obtain p q r rs where "Primes k = p # q # r # rs" by (auto simp: length_Suc_conv)
  moreover from serialize_exponent(1) [of "RsaE (rsaPublic k) mod 2 ^ 32"] assms(3) have
    "\<exists>e. serializeRSAPublicExponentParam (RsaE (rsaPublic k)) = Inr e"
    by (auto simp: serializeRSAPublicExponentParam_def Let_def)
  ultimately show ?thesis using c by (auto simp: private_MarshalJSON_def Let_def simp del: obj_put.simps)
qed

text \<open>
  A public JSON web key whose exponent has more than four bytes makes the parser panic.
\<close>

theorem long_exponent_panics:
  assumes "unmarshal_map data = Some jwk" "map_of jwk ''kty'' = Some (JStr ''RSA'')"
    and "map_of jwk ''n'' = Some (JStr n)" "joseBase64UrlDecode n = Some nBytes"
    and "map_of jwk ''e'' = Some (JStr e)" "joseBase64UrlDecode e = Some eBytes" "4 < length eBytes"
  shows "UnmarshalPublicKeyJWK data = Inl (Panics SliceOutOfRange)"
  using assms
  by (simp add: UnmarshalPublicKeyJWK_def rsaPublicKeyFromMap_def stringFromMap_Some parseRSAModulusParam_def
      parseRSAPublicExponentParam_def)

text \<open>
  \<open>FilterByHosts\<close> gives back a key once for every one of its host patterns that matches.
\<close>

lemma FilterByHosts_multiplicity:
  assumes "\<And>p. glob p host \<noteq> None"
  shows "FilterByHosts glob keys host includeEmpty = Some (concat (map (\<lambda>k.
    if key_hosts k = [] then (if includeEmpty then [k] else [])
    else replicate (length (filter (\<lambda>p. glob p host = Some True) (key_hosts k))) k) keys))"
proof -
  have m: "match_hosts glob host k ps = Some (replicate (length (filter (\<lambda>p. glob p host = Some True) ps)) k)" for k ps
  proof (induction ps)
    case (Cons p ps)
    with assms [of p] show ?case by (cases "glob p host") auto
  qed simp
  show ?thesis by (induction keys) (simp_all add: m Let_def)
qed


subsection \<open>Witnesses\<close>

definition example_rsa_key :: rsaPrivateKey where
  "example_rsa_key = \<lparr>rsaPublic = \<lparr>RsaN = 3233, RsaE = 17, rsa_extended = []\<rparr>, RsaD = 2753, Primes = [61, 53],
     RsaDp = 53, RsaDq = 49, RsaQinv = 38, CRTValues = []\<rparr>"

theorem key_roundtrips_witness:
  "\<exists>data. private_MarshalJSON (RsaPrivate example_rsa_key) = Inr data \<and>
     UnmarshalPrivateKeyJWK data = Inr (RsaPrivate example_rsa_key)"
proof -
  have "private_ok (RsaPrivate example_rsa_key)"
    by (simp add: example_rsa_key_def plain_fields_def)
  from key_roundtrips [OF this] show ?thesis by blast
qed

definition long_exponent_jwk :: obj where
  "long_exponent_jwk = [(''e'', JStr (joseBase64UrlEncode ''abcde'')), (''kty'', JStr ''RSA''),
     (''n'', JStr (joseBase64UrlEncode ''n''))]"

theorem long_exponent_panics_witness:
  "UnmarshalPublicKeyJWK (Marshal (JObj long_exponent_jwk)) = Inl (Panics SliceOutOfRange)"
proof -
  have "canonical long_exponent_jwk"
    by (simp add: long_exponent_jwk_def canonical_def obj_sorted_def)
  then have "unmarshal_map (Marshal (JObj long_exponent_jwk)) = Some long_exponent_jwk"
    by (rule unmarshal_map_Marshal)
  moreover have "4 < length ''abcde''" by simp
  ultimately show ?thesis
    using long_exponent_panics [OF _ _ _ jose_decode_encode _ jose_decode_encode,
        of "Marshal (JObj long_exponent_jwk)" long_exponent_jwk "''n''" "''abcde''"]
    by (simp add: long_exponent_jwk_def)
qed

end
