(* ===== verification/JsonSign.thy ===== *)
theory JsonSign
  imports KeysSpec "HOL-Library.Product_Lexorder"
begin

text \<open>
  Signed JSON of libtrust (\<open>jsonsign.go\<close>): a payload with signatures, each over a protected header
  that records how the payload was formatted; the JWS form and the form with the signatures inside
  the payload.  The current time is an argument.
\<close>

subsection \<open>Signatures\<close>

record jsHeader =
  js_jwk :: "PublicKey option"
  js_alg :: string
  js_chain :: "string list"

record jsSignature =
  js_header :: jsHeader
  js_signature :: string
  js_protected :: string

record JSONSignature =
  js_payload :: string
  signatures :: "jsSignature list"
  indent :: string
  formatLength :: int
  formatTail :: bytes

definition newJSONSignature :: JSONSignature where
  "newJSONSignature = \<lparr>js_payload = [], signatures = [], indent = [], formatLength = 0, formatTail = []\<rparr>"

definition Payload_bytes :: "JSONSignature \<Rightarrow> bytes result" where
  "Payload_bytes js = or_fail ErrBase64 (joseBase64UrlDecode (js_payload js))"

text \<open>\<open>sort.Sort(jsSignaturesSorted(...))\<close>: by key identifier, then by signature; comparing a signature
  that has no key is a nil dereference.\<close>

definition sort_signatures :: "jsSignature list \<Rightarrow> jsSignature list result" where
  "sort_signatures sigs =
     (if 2 \<le> length sigs \<and> (\<exists>s \<in> set sigs. js_jwk (js_header s) = None) then Inl (Panics NilDereference)
      else Inr (sort_key (\<lambda>s. (case js_jwk (js_header s) of None \<Rightarrow> [] | Some k \<Rightarrow> KeyID k, js_signature s)) sigs))"

definition protectedHeader :: "string \<Rightarrow> JSONSignature \<Rightarrow> string" where
  "protectedHeader now js = joseBase64UrlEncode (Marshal (JObj
     [(''formatLength'', JNum (formatLength js)),
      (''formatTail'', JStr (joseBase64UrlEncode (formatTail js))),
      (''time'', JStr now)]))"

definition signBytes :: "JSONSignature \<Rightarrow> string \<Rightarrow> bytes" where
  "signBytes js protected = protected @ ''.'' @ js_payload js"

definition js_Sign :: "crypto_ops \<Rightarrow> string \<Rightarrow> PrivateKey \<Rightarrow> JSONSignature \<Rightarrow> JSONSignature result" where
  "js_Sign ops now key js =
     (let protected = protectedHeader now js in
      run_bind (private_Sign ops key (signBytes js protected) SHA256) (\<lambda>(sigBytes, algorithm).
        Inr (js\<lparr>signatures := signatures js @
          [\<lparr>js_header = \<lparr>js_jwk = Some (PublicKeyOf key), js_alg = algorithm, js_chain = []\<rparr>,
            js_signature = joseBase64UrlEncode sigBytes, js_protected = protected\<rparr>]\<rparr>)))"

text \<open>A chain is given by the bytes of its certificates.\<close>

definition js_SignWithChain :: "crypto_ops \<Rightarrow> string \<Rightarrow> PrivateKey \<Rightarrow> bytes list \<Rightarrow> JSONSignature \<Rightarrow> JSONSignature result" where
  "js_SignWithChain ops now key chain js =
     (let protected = protectedHeader now js in
      run_bind (private_Sign ops key (signBytes js protected) SHA256) (\<lambda>(sigBytes, algorithm).
        Inr (js\<lparr>signatures := signatures js @
          [\<lparr>js_header = \<lparr>js_jwk = None, js_alg = algorithm, js_chain = map (b64_encode StdAlphabet) chain\<rparr>,
            js_signature = joseBase64UrlEncode sigBytes, js_protected = protected\<rparr>]\<rparr>)))"

definition signature_key :: "crypto_ops \<Rightarrow> jsHeader \<Rightarrow> PublicKey result" where
  "signature_key ops hd' =
     (case js_chain hd' of
        c # _ \<Rightarrow> run_bind (or_fail ErrBase64 (b64_decode StdAlphabet c)) (\<lambda>certBytes.
          or_fail ErrCertificate (cert_key ops certBytes))
      | [] \<Rightarrow> (case js_jwk hd' of Some k \<Rightarrow> Inr k | None \<Rightarrow> Inl (Fails ErrMissingPublicKey)))"

fun verify_signatures :: "crypto_ops \<Rightarrow> JSONSignature \<Rightarrow> jsSignature list \<Rightarrow> PublicKey list result" where
  "verify_signatures ops js [] = Inr []"
| "verify_signatures ops js (s # sigs) =
     run_bind (signature_key ops (js_header s)) (\<lambda>publicKey.
     run_bind (or_fail ErrBase64 (joseBase64UrlDecode (js_signature s))) (\<lambda>sigBytes.
     run_bind (public_Verify ops publicKey (signBytes js (js_protected s)) (js_alg (js_header s)) sigBytes) (\<lambda>_.
     run_bind (verify_signatures ops js sigs) (\<lambda>keys. Inr (publicKey # keys)))))"

definition js_Verify :: "crypto_ops \<Rightarrow> JSONSignature \<Rightarrow> PublicKey list result" where
  "js_Verify ops js = verify_signatures ops js (signatures js)"

fun decode_chain :: "string list \<Rightarrow> bytes list result" where
  "decode_chain [] = Inr []"
| "decode_chain (c # cs) =
     run_bind (or_fail ErrBase64 (b64_decode StdAlphabet c)) (\<lambda>b. run_bind (decode_chain cs) (\<lambda>bs. Inr (b # bs)))"

text \<open>\<open>VerifyChains\<close>: \<open>verify_chain\<close> parses the intermediates and checks the chain of a certificate against the
  given roots; signatures without a chain are not checked.\<close>

fun verify_chains :: "crypto_ops \<Rightarrow> (bytes \<Rightarrow> bytes list \<Rightarrow> 'c list option) \<Rightarrow> JSONSignature \<Rightarrow> jsSignature list \<Rightarrow> 'c list result" where
  "verify_chains ops verify_chain js [] = Inr []"
| "verify_chains ops verify_chain js (s # sigs) =
     (case js_chain (js_header s) of
        [] \<Rightarrow> verify_chains ops verify_chain js sigs
      | c # cs \<Rightarrow>
          run_bind (or_fail ErrBase64 (b64_decode StdAlphabet c)) (\<lambda>certBytes.
          run_bind (or_fail ErrCertificate (cert_key ops certBytes)) (\<lambda>publicKey.
          run_bind (decode_chain cs) (\<lambda>intermediates.
          run_bind (or_fail ErrCertificate (verify_chain certBytes intermediates)) (\<lambda>verified.
          run_bind (or_fail ErrBase64 (joseBase64UrlDecode (js_signature s))) (\<lambda>sigBytes.
          run_bind (public_Verify ops publicKey (signBytes js (js_protected s)) (js_alg (js_header s)) sigBytes) (\<lambda>_.
          run_bind (verify_chains ops verify_chain js sigs) (\<lambda>chains. Inr (verified @ chains)))))))))"

definition js_VerifyChains :: "crypto_ops \<Rightarrow> (bytes \<Rightarrow> bytes list \<Rightarrow> 'c list option) \<Rightarrow> JSONSignature \<Rightarrow> 'c list result" where
  "js_VerifyChains ops verify_chain js = verify_chains ops verify_chain js (signatures js)"

subsection \<open>Printing\<close>

definition header_json :: "jsHeader \<Rightarrow> json result" where
  "header_json hd' =
     run_bind (case js_jwk hd' of None \<Rightarrow> Inr [] | Some k \<Rightarrow> run_bind (public_toMap k) (\<lambda>m. Inr [(''jwk'', JObj m)])) (\<lambda>jwk.
       Inr (JObj (jwk @ [(''alg'', JStr (js_alg hd'))] @
         (if js_chain hd' = [] then [] else [(''x5c'', JArr (map JStr (js_chain hd')))]))))"

definition signature_json :: "jsSignature \<Rightarrow> json result" where
  "signature_json s =
     run_bind (header_json (js_header s)) (\<lambda>h. Inr
       (JObj ([(''header'', h), (''signature'', JStr (js_signature s))] @
         (if js_protected s = [] then [] else [(''protected'', JStr (js_protected s))]))))"

fun signatures_json :: "jsSignature list \<Rightarrow> json list result" where
  "signatures_json [] = Inr []"
| "signatures_json (s # sigs) =
     run_bind (signature_json s) (\<lambda>v. run_bind (signatures_json sigs) (\<lambda>vs. Inr (v # vs)))"

text \<open>\<open>JWS\<close> and \<open>PrettySignature\<close> also leave the signatures sorted.\<close>

definition js_JWS :: "JSONSignature \<Rightarrow> (bytes \<times> JSONSignature) result" where
  "js_JWS js =
     (if signatures js = [] then Inl (Fails ErrMissingSignatures)
      else run_bind (sort_signatures (signatures js)) (\<lambda>sigs.
        run_bind (signatures_json sigs) (\<lambda>vs.
          Inr (MarshalIndent [] ''   '' (JObj [(''payload'', JStr (js_payload js)), (''signatures'', JArr vs)]),
               js\<lparr>signatures := sigs\<rparr>))))"

definition js_PrettySignature :: "JSONSignature \<Rightarrow> string \<Rightarrow> (bytes \<times> JSONSignature) result" where
  "js_PrettySignature js signatureKey =
     (if signatures js = [] then Inl (Fails ErrMissingSignatures)
      else run_bind (Payload_bytes js) (\<lambda>payload.
        if formatLength js < 0 \<or> int (length payload) < formatLength js then Inl (Panics SliceOutOfRange)
        else run_bind (sort_signatures (signatures js)) (\<lambda>sigs.
          run_bind (signatures_json sigs) (\<lambda>vs.
            (let marshalled = (if indent js \<noteq> [] then MarshalIndent (indent js) (indent js) (JArr vs) else Marshal (JArr vs))
             in Inr (take (nat (formatLength js)) payload @ '','' @
                  (if indent js \<noteq> []
                   then [newline] @ indent js @ [CHR 0x22] @ signatureKey @ [CHR 0x22] @ '': '' @ marshalled @ [newline]
                   else [CHR 0x22] @ signatureKey @ [CHR 0x22] @ '':'' @ marshalled) @ ''}'',
                  js\<lparr>signatures := sigs\<rparr>))))))"

text \<open>\<open>Signatures\<close>: the signatures as separate documents.\<close>

definition js_Signatures :: "JSONSignature \<Rightarrow> (bytes list \<times> JSONSignature) result" where
  "js_Signatures js =
     run_bind (sort_signatures (signatures js)) (\<lambda>sigs.
       run_bind (signatures_json sigs) (\<lambda>vs. Inr (map Marshal vs, js\<lparr>signatures := sigs\<rparr>)))"

definition js_Merge :: "JSONSignature \<Rightarrow> JSONSignature list \<Rightarrow> JSONSignature result" where
  "js_Merge js others =
     (if \<exists>other \<in> set others. js_payload js \<noteq> js_payload other then Inl (Fails ErrPayloadsDiffer)
      else Inr (js\<lparr>signatures := signatures js @ concat (map signatures others)\<rparr>))"

subsection \<open>Reading\<close>

record jsParsedHeader =
  ph_jwk :: "json option"
  ph_alg :: string
  ph_chain :: "string list option"

record jsParsedSignature =
  ps_header :: jsParsedHeader
  ps_signature :: string
  ps_protected :: string

definition no_header :: jsParsedHeader where
  "no_header = \<lparr>ph_jwk = None, ph_alg = [], ph_chain = None\<rparr>"

definition no_signature :: jsParsedSignature where
  "no_signature = \<lparr>ps_header = no_header, ps_signature = [], ps_protected = []\<rparr>"

text \<open>One value into a \<open>jsParsedHeader\<close> or \<open>jsParsedSignature\<close>, over what is there.\<close>

definition decode_string_elem :: "json \<Rightarrow> string \<Rightarrow> bool \<times> string" where
  "decode_string_elem v old = decode_string [v] old"

fun decode_header :: "json list \<Rightarrow> jsParsedHeader \<Rightarrow> bool \<times> jsParsedHeader" where
  "decode_header [] old = (True, old)"
| "decode_header (v # vs) old =
     (case struct_members v of
        None \<Rightarrow> (False, snd (decode_header vs old))
      | Some kvs \<Rightarrow>
          (let (ok1, alg) = decode_string (members_named ''alg'' kvs) (ph_alg old);
               (ok2, chain) = decode_slice decode_string_elem [] (members_named ''x5c'' kvs) (ph_chain old);
               (ok3, r) = decode_header vs
                 \<lparr>ph_jwk = decode_raw (members_named ''jwk'' kvs) (ph_jwk old), ph_alg = alg, ph_chain = chain\<rparr>
           in (ok1 \<and> ok2 \<and> ok3, r)))"

definition decode_signature :: "json \<Rightarrow> jsParsedSignature \<Rightarrow> bool \<times> jsParsedSignature" where
  "decode_signature v old =
     (case struct_members v of
        None \<Rightarrow> (False, old)
      | Some kvs \<Rightarrow>
          (let (ok1, h) = decode_header (members_named ''header'' kvs) (ps_header old);
               (ok2, s) = decode_string (members_named ''signature'' kvs) (ps_signature old);
               (ok3, p) = decode_string (members_named ''protected'' kvs) (ps_protected old)
           in (ok1 \<and> ok2 \<and> ok3, \<lparr>ps_header = h, ps_signature = s, ps_protected = p\<rparr>)))"

definition parse_signature :: "jsParsedSignature \<Rightarrow> jsSignature result" where
  "parse_signature p =
     run_bind (case ph_jwk (ps_header p) of
         None \<Rightarrow> Inr None
       | Some raw \<Rightarrow> run_bind (UnmarshalPublicKeyJWK (Marshal raw)) (\<lambda>k. Inr (Some k))) (\<lambda>jwk.
       Inr \<lparr>js_header = \<lparr>js_jwk = jwk, js_alg = ph_alg (ps_header p),
              js_chain = (case ph_chain (ps_header p) of None \<Rightarrow> [] | Some c \<Rightarrow> c)\<rparr>,
            js_signature = ps_signature p, js_protected = ps_protected p\<rparr>)"

fun parse_signatures :: "jsParsedSignature list \<Rightarrow> jsSignature list result" where
  "parse_signatures [] = Inr []"
| "parse_signatures (p # ps) =
     run_bind (parse_signature p) (\<lambda>s. run_bind (parse_signatures ps) (\<lambda>sigs. Inr (s # sigs)))"

definition detectJSONIndent :: "bytes \<Rightarrow> string" where
  "detectJSONIndent content =
     (if 2 < length content \<and> content ! 0 = CHR ''{'' \<and> content ! 1 = newline \<and> CHR 0x22 \<in> set (tl content)
      then takeWhile (\<lambda>c. c \<noteq> CHR 0x22) (drop 2 content) else [])"

text \<open>\<open>bytes.LastIndexFunc(content, notSpace)\<close> on content that is JSON.\<close>

definition last_nonspace :: "bytes \<Rightarrow> nat option" where
  "last_nonspace b = (case dropWhile is_ws (rev b) of [] \<Rightarrow> None | _ # r \<Rightarrow> Some (length r))"

fun unmarshal_signature_docs :: "bytes list \<Rightarrow> jsSignature list result" where
  "unmarshal_signature_docs [] = Inr []"
| "unmarshal_signature_docs (d # ds) =
     run_bind (or_fail ErrUnmarshal (Option.bind (Unmarshal d) (\<lambda>v.
         case decode_signature v no_signature of (ok, p) \<Rightarrow> if ok then Some p else None))) (\<lambda>p.
     run_bind (parse_signature p) (\<lambda>s.
     run_bind (unmarshal_signature_docs ds) (\<lambda>sigs. Inr (s # sigs))))"

definition NewJSONSignature :: "bytes \<Rightarrow> bytes list \<Rightarrow> JSONSignature result" where
  "NewJSONSignature content sigdocs =
     run_bind (or_fail ErrUnmarshal (unmarshal_map content)) (\<lambda>dataMap.
       case last_nonspace content of
         None \<Rightarrow> Inl (Panics IndexOutOfRange)
       | Some closeIndex \<Rightarrow>
           if content ! closeIndex \<noteq> CHR ''}'' then Inl (Fails ErrInvalidJSONContent)
           else (case last_nonspace (take closeIndex content) of
               None \<Rightarrow> Inl (Panics IndexOutOfRange)
             | Some lastRuneIndex \<Rightarrow>
                 if content ! lastRuneIndex = CHR '','' then Inl (Fails ErrInvalidJSONContent)
                 else run_bind (unmarshal_signature_docs sigdocs) (\<lambda>sigs.
                   Inr \<lparr>js_payload = joseBase64UrlEncode content, signatures = sigs, indent = detectJSONIndent content,
                        formatLength = int (lastRuneIndex + 1), formatTail = drop (lastRuneIndex + 1) content\<rparr>)))"

definition NewJSONSignatureFromMap :: "obj \<Rightarrow> JSONSignature" where
  "NewJSONSignatureFromMap content =
     (let payload = MarshalIndent [] ''   '' (JObj content)
      in \<lparr>js_payload = joseBase64UrlEncode payload, signatures = [], indent = ''   '',
          formatLength = int (length payload) - 2, formatTail = drop (length payload - 2) payload\<rparr>)"

definition ParseJWS :: "bytes \<Rightarrow> JSONSignature result" where
  "ParseJWS content =
     run_bind (or_fail ErrUnmarshal (Option.bind (Unmarshal content) struct_members)) (\<lambda>kvs.
       (let (ok1, p) = decode_string (members_named ''payload'' kvs) [];
            (ok2, sigs) = decode_slice decode_signature no_signature (members_named ''signatures'' kvs) None
        in run_bind (check (ok1 \<and> ok2) ErrUnmarshal) (\<lambda>_.
           run_bind (check (sigs \<noteq> None \<and> sigs \<noteq> Some []) ErrMissingSignatures) (\<lambda>_.
           run_bind (or_fail ErrBase64 (joseBase64UrlDecode p)) (\<lambda>payload.
           run_bind (NewJSONSignature payload []) (\<lambda>js.
           run_bind (parse_signatures (case sigs of None \<Rightarrow> [] | Some ss \<Rightarrow> ss)) (\<lambda>ss.
             Inr (js\<lparr>signatures := ss\<rparr>))))))))"

definition readIntFromMap :: "string \<Rightarrow> obj \<Rightarrow> int option" where
  "readIntFromMap key m = (case map_of m key of Some (JNum i) \<Rightarrow> Some i | _ \<Rightarrow> None)"

definition readStringFromMap :: "string \<Rightarrow> obj \<Rightarrow> string option" where
  "readStringFromMap key m = (case map_of m key of Some (JStr s) \<Rightarrow> Some s | _ \<Rightarrow> None)"

text \<open>The loop over the signature blocks: the format length and tail have to agree, where a length of 0
  or an empty tail counts as not set yet.\<close>

fun pretty_blocks :: "jsParsedSignature list \<Rightarrow> int \<Rightarrow> bytes \<Rightarrow> (int \<times> bytes \<times> jsSignature list) result" where
  "pretty_blocks [] fl ft = Inr (fl, ft, [])"
| "pretty_blocks (block # rest) fl ft =
     run_bind (or_fail ErrBase64 (joseBase64UrlDecode (ps_protected block))) (\<lambda>protectedBytes.
     run_bind (or_fail ErrUnmarshal (unmarshal_map protectedBytes)) (\<lambda>header.
     run_bind (or_fail (ErrFormat ''missing formatted length'') (readIntFromMap ''formatLength'' header)) (\<lambda>len.
     run_bind (or_fail (ErrFormat ''missing formatted tail'') (readStringFromMap ''formatTail'' header)) (\<lambda>encodedTail.
     run_bind (or_fail ErrBase64 (joseBase64UrlDecode encodedTail)) (\<lambda>tail.
     run_bind (check (fl = 0 \<or> fl = len) (ErrFormat ''conflicting format length'')) (\<lambda>_.
     run_bind (check (ft = [] \<or> ft = tail) (ErrFormat ''conflicting format tail'')) (\<lambda>_.
     run_bind (parse_signature block) (\<lambda>s.
     run_bind (pretty_blocks rest (if fl = 0 then len else fl) (if ft = [] then tail else ft)) (\<lambda>(fl', ft', sigs).
       Inr (fl', ft', s # sigs))))))))))"

definition ParsePrettySignature :: "bytes \<Rightarrow> string \<Rightarrow> JSONSignature result" where
  "ParsePrettySignature content signatureKey =
     run_bind (or_fail ErrUnmarshal (Option.bind (Unmarshal content) struct_members)) (\<lambda>contentMap.
     run_bind (or_fail ErrMissingSignatureKey (map_of (rev contentMap) signatureKey)) (\<lambda>sigMessage.
       (let (ok, blocks) = decode_slice decode_signature no_signature [sigMessage] None
        in run_bind (check ok ErrUnmarshal) (\<lambda>_.
           run_bind (pretty_blocks (case blocks of None \<Rightarrow> [] | Some bs \<Rightarrow> bs) 0 []) (\<lambda>(fl, ft, sigs).
             if int (length content) < fl then Inl (Fails (ErrFormat ''invalid format length''))
             else if fl < 0 then Inl (Panics SliceOutOfRange)
             else (let formatted = take (nat fl) content @ ft in
               Inr \<lparr>js_payload = joseBase64UrlEncode formatted, signatures = sigs,
                    indent = detectJSONIndent formatted, formatLength = fl, formatTail = ft\<rparr>))))))"

end
