(* ===== verification/AppData.thy ===== *)
theory AppData
  imports JsonSign
begin

text \<open>
  The data of the program (\<open>identity.go\<close>, \<open>instance.go\<close>, \<open>routingTable.go\<close>, \<open>main.go\<close>): identities with
  their keys, signed payloads, instances, settings, the routing table, and their JSON forms.  A Go map
  with string keys is an association list in key order (\<open>None\<close> the nil map), as it prints.
\<close>

subsection \<open>Payloads\<close>

text \<open>The program's own \<open>jsHeader\<close> and \<open>jsSignature\<close> have the fields of the parsed ones of libtrust.\<close>

type_synonym app_signature = jsParsedSignature

record PayloadIdentities =
  can_archive :: bool
  can_modify :: bool
  can_remove :: bool

record Payload =
  payload_id :: string
  payload_owner :: string
  perm_identities :: "(string \<times> PayloadIdentities) list option"
  perm_public :: bool
  schema :: string
  payload_data :: json
  payload_signatures :: "app_signature list option"

definition zero_permission :: PayloadIdentities where
  "zero_permission = \<lparr>can_archive = False, can_modify = False, can_remove = False\<rparr>"

definition zero_payload :: Payload where
  "zero_payload = \<lparr>payload_id = [], payload_owner = [], perm_identities = None, perm_public = False,
     schema = [], payload_data = JNull, payload_signatures = None\<rparr>"

subsubsection \<open>Encoding\<close>

definition app_header_json :: "jsParsedHeader \<Rightarrow> json" where
  "app_header_json h =
     JObj ((case ph_jwk h of None \<Rightarrow> [] | Some v \<Rightarrow> [(''jwk'', v)]) @ [(''alg'', JStr (ph_alg h))] @
       (case ph_chain h of None \<Rightarrow> [] | Some c \<Rightarrow> if c = [] then [] else [(''x5c'', JArr (map JStr c))]))"

definition app_signature_json :: "app_signature \<Rightarrow> json" where
  "app_signature_json s =
     JObj [(''header'', app_header_json (ps_header s)), (''signature'', JStr (ps_signature s)),
           (''protected'', JStr (ps_protected s))]"

definition permission_json :: "PayloadIdentities \<Rightarrow> json" where
  "permission_json p =
     JObj [(''archive'', JBool (can_archive p)), (''modify'', JBool (can_modify p)), (''remove'', JBool (can_remove p))]"

definition permissions_json :: "Payload \<Rightarrow> json" where
  "permissions_json p =
     JObj [(''identities'', case perm_identities p of None \<Rightarrow> JNull
             | Some m \<Rightarrow> JObj (map (\<lambda>(k, v). (k, permission_json v)) m)),
           (''public'', JBool (perm_public p))]"

definition payload_members :: "Payload \<Rightarrow> (string \<times> json) list" where
  "payload_members p =
     [(''id'', JStr (payload_id p)), (''owner'', JStr (payload_owner p)), (''permissions'', permissions_json p),
      (''schema'', JStr (schema p)), (''data'', payload_data p)]"

definition payload_json :: "Payload \<Rightarrow> json" where
  "payload_json p =
     JObj (payload_members p @ (case payload_signatures p of None \<Rightarrow> []
       | Some sigs \<Rightarrow> if sigs = [] then [] else [(''signatures'', JArr (map app_signature_json sigs))]))"

definition Payload_ToJSON :: "Payload \<Rightarrow> bytes" where
  "Payload_ToJSON p = MarshalIndent [] ''    '' (payload_json p)"

subsubsection \<open>Decoding\<close>

definition decode_permission :: "json \<Rightarrow> PayloadIdentities \<Rightarrow> bool \<times> PayloadIdentities" where
  "decode_permission v old =
     (case struct_members v of
        None \<Rightarrow> (False, old)
      | Some kvs \<Rightarrow>
          (let (ok1, a) = decode_bool (members_named ''archive'' kvs) (can_archive old);
               (ok2, m) = decode_bool (members_named ''modify'' kvs) (can_modify old);
               (ok3, r) = decode_bool (members_named ''remove'' kvs) (can_remove old)
           in (ok1 \<and> ok2 \<and> ok3, \<lparr>can_archive = a, can_modify = m, can_remove = r\<rparr>)))"

text \<open>A map of structs: every member is decoded over a zero value and stored, also when it is of the wrong
  kind.\<close>

fun decode_permission_map ::
  "(string \<times> json) list \<Rightarrow> (string \<times> PayloadIdentities) list \<Rightarrow> bool \<times> (string \<times> PayloadIdentities) list" where
  "decode_permission_map [] m = (True, m)"
| "decode_permission_map ((k, v) # kvs) m =
     (let (ok, x) = decode_permission v zero_permission;
          (oks, r) = decode_permission_map kvs (obj_put k x m)
      in (ok \<and> oks, r))"

fun decode_identities ::
  "json list \<Rightarrow> (string \<times> PayloadIdentities) list option \<Rightarrow> bool \<times> (string \<times> PayloadIdentities) list option" where
  "decode_identities [] old = (True, old)"
| "decode_identities (v # vs) old =
     (case v of
        JObj kvs \<Rightarrow>
          (let (ok, m) = decode_permission_map kvs (case old of None \<Rightarrow> [] | Some m \<Rightarrow> m);
               (oks, r) = decode_identities vs (Some m)
           in (ok \<and> oks, r))
      | JNull \<Rightarrow> decode_identities vs None
      | _ \<Rightarrow> (False, snd (decode_identities vs old)))"

fun decode_permissions :: "json list \<Rightarrow> Payload \<Rightarrow> bool \<times> Payload" where
  "decode_permissions [] p = (True, p)"
| "decode_permissions (v # vs) p =
     (case struct_members v of
        None \<Rightarrow> (False, snd (decode_permissions vs p))
      | Some kvs \<Rightarrow>
          (let (ok1, ids) = decode_identities (members_named ''identities'' kvs) (perm_identities p);
               (ok2, pub) = decode_bool (members_named ''public'' kvs) (perm_public p);
               (ok3, r) = decode_permissions vs (p\<lparr>perm_identities := ids, perm_public := pub\<rparr>)
           in (ok1 \<and> ok2 \<and> ok3, r)))"

definition decode_payload :: "json \<Rightarrow> Payload \<Rightarrow> bool \<times> Payload" where
  "decode_payload v p =
     (case struct_members v of
        None \<Rightarrow> (False, p)
      | Some kvs \<Rightarrow>
          (let (ok1, i) = decode_string (members_named ''id'' kvs) (payload_id p);
               (ok2, ow) = decode_string (members_named ''owner'' kvs) (payload_owner p);
               (ok3, p1) = decode_permissions (members_named ''permissions'' kvs) p;
               (ok4, sch) = decode_string (members_named ''schema'' kvs) (schema p);
               dat = decode_any (members_named ''data'' kvs) (payload_data p);
               (ok5, sigs) = decode_slice decode_signature no_signature (members_named ''signatures'' kvs) (payload_signatures p)
           in (ok1 \<and> ok2 \<and> ok3 \<and> ok4 \<and> ok5,
               p1\<lparr>payload_id := i, payload_owner := ow, schema := sch, payload_data := dat, payload_signatures := sigs\<rparr>)))"

text \<open>\<open>json.Unmarshal\<close> into a payload: text that is no JSON changes nothing.\<close>

definition SetPayloadFromJson :: "bytes \<Rightarrow> Payload \<Rightarrow> bool \<times> Payload" where
  "SetPayloadFromJson b p = (case Unmarshal b of None \<Rightarrow> (False, p) | Some v \<Rightarrow> decode_payload v p)"

subsection \<open>Identities\<close>

record Identity =
  identity_id :: string
  hostname :: string
  PrivateJwk :: "obj option"
  PublicJwk :: "obj option"
  Passhash :: string
  FirstName :: string
  LastName :: string

definition zero_identity :: Identity where
  "zero_identity = \<lparr>identity_id = [], hostname = [], PrivateJwk = None, PublicJwk = None, Passhash = [],
     FirstName = [], LastName = []\<rparr>"

definition jwk_json :: "obj option \<Rightarrow> json" where
  "jwk_json m = (case m of None \<Rightarrow> JNull | Some kvs \<Rightarrow> JObj kvs)"

text \<open>The private key and the password hash are not encoded and not decoded.\<close>

definition identity_json :: "Identity \<Rightarrow> json" where
  "identity_json s =
     JObj [(''id'', JStr (identity_id s)), (''hostname'', JStr (hostname s)), (''jwk'', jwk_json (PublicJwk s)),
           (''firstName'', JStr (FirstName s)), (''lastName'', JStr (LastName s))]"

definition decode_identity :: "json \<Rightarrow> Identity \<Rightarrow> bool \<times> Identity" where
  "decode_identity v s =
     (case struct_members v of
        None \<Rightarrow> (False, s)
      | Some kvs \<Rightarrow>
          (let (ok1, i) = decode_string (members_named ''id'' kvs) (identity_id s);
               (ok2, h) = decode_string (members_named ''hostname'' kvs) (hostname s);
               (ok3, j) = decode_map (members_named ''jwk'' kvs) (PublicJwk s);
               (ok4, f) = decode_string (members_named ''firstName'' kvs) (FirstName s);
               (ok5, l) = decode_string (members_named ''lastName'' kvs) (LastName s)
           in (ok1 \<and> ok2 \<and> ok3 \<and> ok4 \<and> ok5,
               s\<lparr>identity_id := i, hostname := h, PublicJwk := j, FirstName := f, LastName := l\<rparr>)))"

text \<open>A pointer to an identity prints as null when it is nil.\<close>

definition self_json :: "Identity option \<Rightarrow> json" where
  "self_json s = (case s of None \<Rightarrow> JNull | Some i \<Rightarrow> identity_json i)"

subsubsection \<open>Keys\<close>

text \<open>\<open>json.MarshalIndent\<close> of a value with its own \<open>MarshalJSON\<close>: what that gives is indented.\<close>

definition key_indented :: "bytes result \<Rightarrow> string \<Rightarrow> bytes result" where
  "key_indented r ind =
     run_bind r (\<lambda>b. or_fail ErrUnmarshal (map_option (MarshalIndent [] ind) (Unmarshal b)))"

definition makeThumbprint :: "PrivateKey \<Rightarrow> string result" where
  "makeThumbprint rsaKey =
     run_bind (key_indented (private_MarshalJSON rsaKey) []) (\<lambda>privateJWKJSON.
       case map_option canon (Unmarshal privateJWKJSON) of
         None \<Rightarrow> Inl (Fails ErrUnmarshal)
       | Some (JObj privateJWKMap) \<Rightarrow>
           (let get = (\<lambda>k. case map_of privateJWKMap k of None \<Rightarrow> JNull | Some v \<Rightarrow> v);
                jwkSimple = obj_put ''n'' (get ''n'') (obj_put ''kty'' (get ''kty'') (obj_put ''e'' (get ''e'') []))
            in Inr (hex_encode (sha256 (Marshal (JObj jwkSimple)))))
       | Some _ \<Rightarrow> Inl (Panics TypeAssertion))"

text \<open>\<open>json.Unmarshal\<close> into a map field.\<close>

definition unmarshal_into :: "bytes \<Rightarrow> obj option \<Rightarrow> bool \<times> obj option" where
  "unmarshal_into b old = (case Unmarshal b of None \<Rightarrow> (False, old) | Some v \<Rightarrow> decode_map [v] old)"

text \<open>\<open>Init\<close> with the key that was generated (\<open>None\<close>: an error); it leaves the fields it has set when it fails
  later.\<close>

definition Identity_Init :: "PrivateKey option \<Rightarrow> Identity \<Rightarrow> unit result \<times> Identity" where
  "Identity_Init generated s =
     (case generated of
        None \<Rightarrow> (Inl (Fails ErrRandom), s)
      | Some rsaKey \<Rightarrow>
          (case key_indented (private_MarshalJSON rsaKey) ''    '' of
             Inl e \<Rightarrow> (Inl e, s)
           | Inr privateJWKJSON \<Rightarrow>
               (let (ok1, m1) = unmarshal_into privateJWKJSON (PrivateJwk s); s1 = s\<lparr>PrivateJwk := m1\<rparr> in
                if \<not> ok1 then (Inl (Fails ErrUnmarshal), s1)
                else (case key_indented (public_MarshalJSON (PublicKeyOf rsaKey)) ''    '' of
                   Inl e \<Rightarrow> (Inl e, s1)
                 | Inr publicJWKJSON \<Rightarrow>
                     (let (ok2, m2) = unmarshal_into publicJWKJSON (PublicJwk s1); s2 = s1\<lparr>PublicJwk := m2\<rparr> in
                      if \<not> ok2 then (Inl (Fails ErrUnmarshal), s2)
                      else (case makeThumbprint rsaKey of
                         Inl e \<Rightarrow> (Inl e, s2)
                       | Inr thumbprint \<Rightarrow> (Inr (), s2\<lparr>identity_id := thumbprint\<rparr>)))))))"

definition GetPrivateKeyJson :: "Identity \<Rightarrow> bytes" where
  "GetPrivateKeyJson s = MarshalIndent [] [] (jwk_json (PrivateJwk s))"

definition GetPublicKeyJson :: "Identity \<Rightarrow> bytes" where
  "GetPublicKeyJson s = MarshalIndent [] [] (jwk_json (PublicJwk s))"

definition GetPrivateKey :: "Identity \<Rightarrow> PrivateKey result" where
  "GetPrivateKey s = UnmarshalPrivateKeyJWK (GetPrivateKeyJson s)"

definition GetPublicKey :: "Identity \<Rightarrow> PublicKey result" where
  "GetPublicKey s = UnmarshalPublicKeyJWK (GetPublicKeyJson s)"

definition GetURI :: "Identity \<Rightarrow> string" where
  "GetURI s = ''https://'' @ hostname s"

subsection \<open>Instances\<close>

record Instance =
  instance_id :: string
  instance_owner :: "Identity option"
  instance_payload :: Payload

definition instance_json :: "Instance \<Rightarrow> json" where
  "instance_json s =
     JObj [(''id'', JStr (instance_id s)), (''owner'', self_json (instance_owner s)),
           (''payload'', payload_json (instance_payload s))]"

definition Instance_ToJSON :: "Instance \<Rightarrow> bytes" where
  "Instance_ToJSON s = MarshalIndent [] ''    '' (instance_json s)"

definition GetProperJWS :: "Instance \<Rightarrow> JSONSignature result" where
  "GetProperJWS s = ParsePrettySignature (Payload_ToJSON (instance_payload s)) ''signatures''"

text \<open>The struct \<open>JSONSignature\<close> of the program, decoded from the JWS form; only its signatures are used.\<close>

definition decode_jws :: "bytes \<Rightarrow> app_signature list option result" where
  "decode_jws b =
     run_bind (or_fail ErrUnmarshal (Option.bind (Unmarshal b) struct_members)) (\<lambda>kvs.
       (let (ok1, p) = decode_string (members_named ''payload'' kvs) [];
            (ok2, sigs) = decode_slice decode_signature no_signature (members_named ''signatures'' kvs) None
        in run_bind (check (ok1 \<and> ok2) ErrUnmarshal) (\<lambda>_. Inr sigs)))"

definition Instance_Sign :: "crypto_ops \<Rightarrow> string \<Rightarrow> Instance \<Rightarrow> Instance result" where
  "Instance_Sign ops now s =
     run_bind (NewJSONSignature (Payload_ToJSON (instance_payload s)) []) (\<lambda>js.
     run_bind (case instance_owner s of None \<Rightarrow> Inl (Panics NilDereference) | Some owner \<Rightarrow> GetPrivateKey owner) (\<lambda>jwk.
     run_bind (js_Sign ops now jwk js) (\<lambda>js1.
     run_bind (js_JWS js1) (\<lambda>(jsJSON, js2).
     run_bind (decode_jws jsJSON) (\<lambda>sigs.
       Inr (s\<lparr>instance_payload := (instance_payload s)\<lparr>payload_signatures := sigs\<rparr>\<rparr>))))))"

definition Instance_Verify :: "crypto_ops \<Rightarrow> Instance \<Rightarrow> bool result" where
  "Instance_Verify ops s =
     run_bind (GetProperJWS s) (\<lambda>jws. run_bind (js_Verify ops jws) (\<lambda>keys. Inr True))"

subsection \<open>Envelopes, settings and the routing table\<close>

definition envelope_json :: "string \<Rightarrow> json \<Rightarrow> json" where
  "envelope_json type data = JObj [(''type'', JStr type), (''data'', data)]"

definition Envelope_ToJSON :: "string \<Rightarrow> json \<Rightarrow> bytes" where
  "Envelope_ToJSON type data = MarshalIndent [] ''    '' (envelope_json type data)"

record KV =
  kv_key :: string
  kv_value :: string

definition kv_json :: "KV \<Rightarrow> json" where
  "kv_json kv = JObj [(''key'', JStr (kv_key kv)), (''value'', JStr (kv_value kv))]"

record routingTable =
  self :: "Identity option"
  rt_identities :: "string \<rightharpoonup> Identity"

definition newRoutingTable :: routingTable where
  "newRoutingTable = \<lparr>self = None, rt_identities = Map.empty\<rparr>"

definition insertIdentity :: "Identity \<Rightarrow> routingTable \<Rightarrow> routingTable" where
  "insertIdentity identity s = s\<lparr>rt_identities := (rt_identities s)(identity_id identity \<mapsto> identity)\<rparr>"

definition rt_Get :: "string \<Rightarrow> routingTable \<Rightarrow> Identity option" where
  "rt_Get ID s = rt_identities s ID"

end
