(* ===== verification/JwtToken.thy ===== *)
theory JwtToken
  imports GoDecode Hash
begin

text \<open>
  JSON web tokens (\<open>jwt-go\<close>: \<open>jwt.go\<close>, \<open>hmac.go\<close>, \<open>signing_method.go\<close>, \<open>errors.go\<close>): building a
  signed token and parsing, checking and validating one.  The HMAC methods are modelled down to
  the hash; RSA signing and verification are the arguments \<open>rsa\<close>, called only with a key in PEM
  form.  The time is in seconds.
\<close>

subsection \<open>Signing methods\<close>

datatype jwt_key = KeyBytes bytes | KeyOther

datatype jwt_error =
    ErrInvalidKey
  | ErrSignatureInvalid
  | ErrSegment
  | ErrKeyMustBePEMEncoded
  | ErrRSA

datatype SigningMethod =
    SigningMethodHMAC string crypto_hash
  | SigningMethodRSA string crypto_hash

record rsa_ops =
  rsa_verify :: "crypto_hash \<Rightarrow> bytes \<Rightarrow> string \<Rightarrow> bytes \<Rightarrow> jwt_error option"
  rsa_sign :: "crypto_hash \<Rightarrow> bytes \<Rightarrow> string \<Rightarrow> jwt_error + bytes"

fun Alg :: "SigningMethod \<Rightarrow> string" where
  "Alg (SigningMethodHMAC name h) = name"
| "Alg (SigningMethodRSA name h) = name"

definition SigningMethodHS256 :: SigningMethod where
  "SigningMethodHS256 = SigningMethodHMAC ''HS256'' SHA256"

text \<open>The table the \<open>init\<close> functions fill.\<close>

definition signingMethods :: "string \<rightharpoonup> SigningMethod" where
  "signingMethods = map_of
     [(''HS256'', SigningMethodHS256), (''HS384'', SigningMethodHMAC ''HS384'' SHA384),
      (''HS512'', SigningMethodHMAC ''HS512'' SHA512), (''RS256'', SigningMethodRSA ''RS256'' SHA256),
      (''RS384'', SigningMethodRSA ''RS384'' SHA384), (''RS512'', SigningMethodRSA ''RS512'' SHA512)]"

definition GetSigningMethod :: "string \<Rightarrow> SigningMethod option" where
  "GetSigningMethod alg = signingMethods alg"

definition hmac_Verify :: "crypto_hash \<Rightarrow> string \<Rightarrow> string \<Rightarrow> jwt_key \<Rightarrow> jwt_error option" where
  "hmac_Verify h signingString signature key =
     (case key of
        KeyBytes keyBytes \<Rightarrow>
          (case DecodeSegment signature of
             None \<Rightarrow> Some ErrSegment
           | Some sig \<Rightarrow> if sig = hmac h keyBytes signingString then None else Some ErrSignatureInvalid)
      | _ \<Rightarrow> Some ErrInvalidKey)"

definition hmac_Sign :: "crypto_hash \<Rightarrow> string \<Rightarrow> jwt_key \<Rightarrow> jwt_error + string" where
  "hmac_Sign h signingString key =
     (case key of
        KeyBytes keyBytes \<Rightarrow> Inr (EncodeSegment (hmac h keyBytes signingString))
      | _ \<Rightarrow> Inl ErrInvalidKey)"

text \<open>A PEM block must begin at the start of the key or of a line.\<close>

definition has_pem :: "bytes \<Rightarrow> bool" where
  "has_pem key \<longleftrightarrow> prefix ''-----BEGIN'' key \<or> contains key (newline # ''-----BEGIN'')"

definition rsa_Verify :: "rsa_ops \<Rightarrow> crypto_hash \<Rightarrow> string \<Rightarrow> string \<Rightarrow> jwt_key \<Rightarrow> jwt_error option" where
  "rsa_Verify rsa h signingString signature key =
     (case DecodeSegment signature of
        None \<Rightarrow> Some ErrSegment
      | Some sig \<Rightarrow>
          (case key of
             KeyBytes k \<Rightarrow> if \<not> has_pem k then Some ErrKeyMustBePEMEncoded else rsa_verify rsa h k signingString sig
           | KeyOther \<Rightarrow> Some ErrInvalidKey))"

definition rsa_Sign :: "rsa_ops \<Rightarrow> crypto_hash \<Rightarrow> string \<Rightarrow> jwt_key \<Rightarrow> jwt_error + string" where
  "rsa_Sign rsa h signingString key =
     (case key of
        KeyBytes k \<Rightarrow>
          (if \<not> has_pem k then Inl ErrKeyMustBePEMEncoded
           else (case rsa_sign rsa h k signingString of Inl e \<Rightarrow> Inl e | Inr sig \<Rightarrow> Inr (EncodeSegment sig)))
      | KeyOther \<Rightarrow> Inl ErrInvalidKey)"

fun Verify :: "rsa_ops \<Rightarrow> SigningMethod \<Rightarrow> string \<Rightarrow> string \<Rightarrow> jwt_key \<Rightarrow> jwt_error option" where
  "Verify rsa (SigningMethodHMAC name h) = hmac_Verify h"
| "Verify rsa (SigningMethodRSA name h) = rsa_Verify rsa h"

fun Sign :: "rsa_ops \<Rightarrow> SigningMethod \<Rightarrow> string \<Rightarrow> jwt_key \<Rightarrow> jwt_error + string" where
  "Sign rsa (SigningMethodHMAC name h) = hmac_Sign h"
| "Sign rsa (SigningMethodRSA name h) = rsa_Sign rsa h"

text \<open>
  What tokens need of a signing method: with a usable key signing gives a string that verifies and
  fits in a token, and only the bytes of that signature verify.
\<close>

locale signing_method =
  fixes sign :: "string \<Rightarrow> 'k \<Rightarrow> 'e + string"
    and verify :: "string \<Rightarrow> string \<Rightarrow> 'k \<Rightarrow> 'e option"
    and usable :: "'k \<Rightarrow> bool"
  assumes sign_usable: "usable k \<Longrightarrow> \<exists>sig. sign s k = Inr sig \<and> CHR ''.'' \<notin> set sig"
    and sign_unusable: "\<not> usable k \<Longrightarrow> \<exists>e. sign s k = Inl e"
    and verify_sign: "sign s k = Inr sig \<Longrightarrow> verify s sig k = None"
    and verify_only: "verify s sig k = None \<Longrightarrow> \<exists>sig'. sign s k = Inr sig' \<and> DecodeSegment sig = DecodeSegment sig'"
begin

lemma verify_usable: "verify s sig k = None \<Longrightarrow> usable k"
  using verify_only [of s sig k] sign_unusable [of k s] by fastforce

lemma verify_same_bytes:
  "verify s sig k = None \<Longrightarrow> verify s sig' k = None \<Longrightarrow> DecodeSegment sig = DecodeSegment sig'"
  using verify_only [of s sig k] verify_only [of s sig' k] by auto

end

interpretation hmac_method: signing_method "hmac_Sign h" "hmac_Verify h" "\<lambda>k. \<exists>b. k = KeyBytes b"
  by unfold_locales
    (auto simp: hmac_Sign_def hmac_Verify_def segment.decode_encode split: jwt_key.splits option.splits if_splits)

subsection \<open>Tokens\<close>

record Token =
  Raw :: string
  TokMethod :: "SigningMethod option"
  Header :: obj
  Claims :: obj
  Signature :: string
  Valid :: bool

definition token_New :: "SigningMethod option \<Rightarrow> Token run" where
  "token_New meth =
     (case meth of
        None \<Rightarrow> Inl NilDereference
      | Some m \<Rightarrow> Inr \<lparr>Raw = [], TokMethod = Some m,
          Header = obj_of [(''typ'', JStr ''JWT''), (''alg'', JStr (Alg m))],
          Claims = [], Signature = [], Valid = False\<rparr>)"

definition SigningString :: "Token \<Rightarrow> string" where
  "SigningString t = join_with ''.'' [EncodeSegment (Marshal (JObj (Header t))), EncodeSegment (Marshal (JObj (Claims t)))]"

definition SignedString :: "rsa_ops \<Rightarrow> Token \<Rightarrow> jwt_key \<Rightarrow> (jwt_error + string) run" where
  "SignedString rsa t key =
     (case TokMethod t of
        None \<Rightarrow> Inl NilDereference
      | Some m \<Rightarrow> Inr (let sstr = SigningString t in
          case Sign rsa m sstr key of Inl e \<Rightarrow> Inl e | Inr sig \<Rightarrow> Inr (join_with ''.'' [sstr, sig])))"

subsection \<open>Validation errors\<close>

definition ValidationErrorMalformed :: "32 word" where "ValidationErrorMalformed = push_bit 0 1"
definition ValidationErrorUnverifiable :: "32 word" where "ValidationErrorUnverifiable = push_bit 1 1"
definition ValidationErrorSignatureInvalid :: "32 word" where "ValidationErrorSignatureInvalid = push_bit 2 1"
definition ValidationErrorExpired :: "32 word" where "ValidationErrorExpired = push_bit 3 1"
definition ValidationErrorNotValidYet :: "32 word" where "ValidationErrorNotValidYet = push_bit 4 1"

text \<open>The bit field of the error; its message is not modelled.\<close>

definition error_valid :: "32 word \<Rightarrow> bool" where
  "error_valid errors \<longleftrightarrow> \<not> 0 < errors"

lemmas validation_bits = ValidationErrorMalformed_def ValidationErrorUnverifiable_def
  ValidationErrorSignatureInvalid_def ValidationErrorExpired_def ValidationErrorNotValidYet_def

subsection \<open>Parsing\<close>

text \<open>A numeric claim as a \<open>float64\<close> converted to \<open>int64\<close>; exact up to \<open>2^53\<close>.\<close>

definition claim_num :: "obj \<Rightarrow> string \<Rightarrow> int option" where
  "claim_num claims k = (case map_of claims k of Some (JNum i) \<Rightarrow> Some i | _ \<Rightarrow> None)"

definition claim_str :: "obj \<Rightarrow> string \<Rightarrow> string option" where
  "claim_str claims k = (case map_of claims k of Some (JStr s) \<Rightarrow> Some s | _ \<Rightarrow> None)"

definition time_errors :: "int \<Rightarrow> obj \<Rightarrow> 32 word" where
  "time_errors now claims =
     (let e1 = (case claim_num claims ''exp'' of Some exp \<Rightarrow> if exp < now then ValidationErrorExpired else 0 | None \<Rightarrow> 0)
      in case claim_num claims ''nbf'' of Some nbf \<Rightarrow> if now < nbf then e1 OR ValidationErrorNotValidYet else e1 | None \<Rightarrow> e1)"

text \<open>
  \<open>Parse\<close> (\<open>token_Parse\<close>): the token as far as it was filled in, and the error bits, \<open>None\<close> for no error.  A
  \<open>Keyfunc\<close> returns the key or an error.
\<close>

definition token_Parse :: "rsa_ops \<Rightarrow> int \<Rightarrow> string \<Rightarrow> (Token \<Rightarrow> jwt_key option) \<Rightarrow> Token option \<times> 32 word option" where
  "token_Parse rsa now tokenString keyFunc =
     (let parts = split_on (CHR ''.'') tokenString in
      if length parts \<noteq> 3 then (None, Some ValidationErrorMalformed)
      else
        (let token = \<lparr>Raw = tokenString, TokMethod = None, Header = [], Claims = [], Signature = [], Valid = False\<rparr> in
         case Option.bind (DecodeSegment (parts ! 0)) unmarshal_map of
           None \<Rightarrow> (Some token, Some ValidationErrorMalformed)
         | Some header \<Rightarrow>
             (let token1 = token\<lparr>Header := header\<rparr> in
              case Option.bind (DecodeSegment (parts ! 1)) unmarshal_map of
                None \<Rightarrow> (Some token1, Some ValidationErrorMalformed)
              | Some claims \<Rightarrow>
                  (let token2 = token1\<lparr>Claims := claims\<rparr> in
                   case Option.bind (claim_str header ''alg'') GetSigningMethod of
                     None \<Rightarrow> (Some token2, Some ValidationErrorUnverifiable)
                   | Some meth \<Rightarrow>
                       (let token3 = token2\<lparr>TokMethod := Some meth\<rparr> in
                        case keyFunc token3 of
                          None \<Rightarrow> (Some token3, Some ValidationErrorUnverifiable)
                        | Some key \<Rightarrow>
                            (let e1 = time_errors now claims;
                                 e2 = (case Verify rsa meth (join_with ''.'' (take 2 parts)) (parts ! 2) key of
                                         None \<Rightarrow> e1 | Some _ \<Rightarrow> e1 OR ValidationErrorSignatureInvalid)
                             in if error_valid e2 then (Some (token3\<lparr>Valid := True\<rparr>), None)
                                else (Some token3, Some e2)))))))"

text \<open>\<open>ParseFromRequest\<close>: the \<open>Authorization\<close> header, then the form value \<open>access_token\<close>, which is an
  argument.  \<open>None\<close> when the request has no token.\<close>

definition ParseFromRequest ::
  "rsa_ops \<Rightarrow> int \<Rightarrow> string \<Rightarrow> string \<Rightarrow> (Token \<Rightarrow> jwt_key option) \<Rightarrow> (Token option \<times> 32 word option) option run" where
  "ParseFromRequest rsa now ah access_token keyFunc =
     (if ah \<noteq> [] \<and> 6 < length ah \<and> to_upper (take 6 ah) = ''BEARER''
      then Inr (Some (token_Parse rsa now (drop 7 ah) keyFunc))
      else if access_token \<noteq> [] then Inr (Some (token_Parse rsa now access_token keyFunc))
      else Inr None)"


subsection \<open>The error bits\<close>

lemma error_valid_iff: "error_valid e \<longleftrightarrow> e = 0"
  by (simp add: error_valid_def word_neq_0_conv [symmetric])

lemma signature_bit: "e OR ValidationErrorSignatureInvalid \<noteq> 0"
  by (simp add: validation_bits or_eq_0_iff)

lemma time_errors_zero:
  "time_errors now claims = 0 \<longleftrightarrow>
     (\<forall>exp. claim_num claims ''exp'' = Some exp \<longrightarrow> now \<le> exp) \<and>
     (\<forall>nbf. claim_num claims ''nbf'' = Some nbf \<longrightarrow> nbf \<le> now)"
  by (auto simp: time_errors_def Let_def validation_bits or_eq_0_iff split: option.splits)

subsection \<open>Round trip and exact acceptance\<close>

lemma join_three: "join_with ''.'' [join_with ''.'' [a, b], c] = join_with ''.'' [a, b, c]"
  by simp

lemma split_three:
  assumes "CHR ''.'' \<notin> set a" "CHR ''.'' \<notin> set b" "CHR ''.'' \<notin> set c"
  shows "split_on (CHR ''.'') (join_with ''.'' [a, b, c]) = [a, b, c]"
  by (rule split_on_join) (use assms in auto)

text \<open>What makes a token with the segments \<open>h.c.s\<close> acceptable under a byte key that is not PEM.\<close>

definition acceptable :: "int \<Rightarrow> bytes \<Rightarrow> string \<Rightarrow> obj \<Rightarrow> bool" where
  "acceptable now key tok claims \<longleftrightarrow>
     (case split_on (CHR ''.'') tok of
        [h, c, s] \<Rightarrow>
          (case (Option.bind (DecodeSegment h) unmarshal_map, Option.bind (DecodeSegment c) unmarshal_map) of
             (Some header, Some claims') \<Rightarrow> claims' = claims \<and>
               (case Option.bind (claim_str header ''alg'') GetSigningMethod of
                  Some (SigningMethodHMAC name hash) \<Rightarrow> DecodeSegment s = Some (hmac hash key (h @ ''.'' @ c))
                | _ \<Rightarrow> False) \<and> time_errors now claims = 0
           | _ \<Rightarrow> False)
      | _ \<Rightarrow> False)"

lemma verify_bytes:
  assumes "\<not> has_pem key"
  shows "Verify rsa m s sig (KeyBytes key) = None \<longleftrightarrow>
    (case m of SigningMethodHMAC name h \<Rightarrow> DecodeSegment sig = Some (hmac h key s) | _ \<Rightarrow> False)"
  using assms
  by (cases m) (auto simp: hmac_Verify_def rsa_Verify_def split: option.splits)

lemma three_parts: "length xs = 3 \<longleftrightarrow> (\<exists>a b c. xs = [a, b, c])"
  by (auto simp: numeral_3_eq_3 length_Suc_conv)

lemma parse_accepts:
  assumes "\<not> has_pem key"
  shows "(\<exists>t. token_Parse rsa now tok (\<lambda>_. Some (KeyBytes key)) = (Some t, None) \<and> Claims t = claims \<and> Valid t) \<longleftrightarrow>
    acceptable now key tok claims"
proof (cases "length (split_on (CHR ''.'') tok) = 3")
  case False
  then have "\<not> acceptable now key tok claims"
    by (auto simp: acceptable_def split: list.splits)
  with False show ?thesis by (simp add: token_Parse_def)
next
  case True
  then obtain h c s where p: "split_on (CHR ''.'') tok = [h, c, s]" by (auto simp: three_parts)
  show ?thesis
  proof (cases "Option.bind (DecodeSegment h) unmarshal_map")
    case None
    with p show ?thesis by (simp add: token_Parse_def acceptable_def Let_def)
  next
    case h: (Some header)
    show ?thesis
    proof (cases "Option.bind (DecodeSegment c) unmarshal_map")
      case None
      with p h show ?thesis by (simp add: token_Parse_def acceptable_def Let_def)
    next
      case c: (Some cl)
      show ?thesis
      proof (cases "Option.bind (claim_str header ''alg'') GetSigningMethod")
        case None
        with p h c show ?thesis by (simp add: token_Parse_def acceptable_def Let_def)
      next
        case m: (Some m)
        show ?thesis
          using p h c m verify_bytes [OF assms, of rsa m "join_with ''.'' (take 2 [h, c, s])" s]
          by (auto simp: token_Parse_def acceptable_def Let_def error_valid_iff signature_bit numeral_2_eq_2
              split: option.splits SigningMethod.splits)
      qed
    qed
  qed
qed

lemma signed_token_acceptable:
  assumes "TokMethod t = Some (SigningMethodHMAC name h)" "GetSigningMethod name = Some (SigningMethodHMAC name h)"
    and "claim_str (Header t) ''alg'' = Some name" "canonical (Header t)" "canonical (Claims t)"
    and "SignedString rsa t (KeyBytes key) = Inr (Inr s)"
  shows "acceptable now key s claims \<longleftrightarrow> claims = Claims t \<and> time_errors now claims = 0"
proof -
  let ?h = "EncodeSegment (Marshal (JObj (Header t)))" and ?c = "EncodeSegment (Marshal (JObj (Claims t)))"
  let ?s = "EncodeSegment (hmac h key (join_with ''.'' [?h, ?c]))"
  have "s = join_with ''.'' [?h, ?c, ?s]"
    using assms(1,6) by (simp add: SignedString_def hmac_Sign_def Let_def SigningString_def)
  then have "split_on (CHR ''.'') s = [?h, ?c, ?s]" by (simp only: split_three [OF segment_no_dot segment_no_dot segment_no_dot])
  then show ?thesis
    using assms(2-5) by (auto simp: acceptable_def segment.decode_encode unmarshal_map_Marshal)
qed

end
