(* ===== verification/GoUrl.thy ===== *)
theory GoUrl
  imports GoStrings
begin

text \<open>
  The part of Go's \<open>net/url\<close> (the version of Go 1.4, which the repository is pinned to) that the
  router and the CORS middleware call: parsing a URL into scheme, authority, path and query, and
  writing the path and query back in escaped form.
\<close>

record URL =
  Scheme :: string
  Opaque :: string
  UrlHost :: string
  Path :: string
  RawQuery :: string
  Fragment :: string

definition empty_url :: URL where
  "empty_url = \<lparr>Scheme = [], Opaque = [], UrlHost = [], Path = [], RawQuery = [], Fragment = []\<rparr>"

subsection \<open>Percent encoding\<close>

fun url_unescape :: "string \<Rightarrow> string option" where
  "url_unescape [] = Some []"
| "url_unescape (c # s) =
     (if c = CHR ''%'' then
        (case s of
           h # l # r \<Rightarrow> (case (hex_value h, hex_value l) of
               (Some a, Some b) \<Rightarrow> map_option ((#) (char_of (16 * a + b))) (url_unescape r)
             | _ \<Rightarrow> None)
         | _ \<Rightarrow> None)
      else map_option ((#) c) (url_unescape s))"

definition is_alnum :: "char \<Rightarrow> bool" where
  "is_alnum c = (let k = of_char c :: nat in
     48 \<le> k \<and> k \<le> 57 \<or> 65 \<le> k \<and> k \<le> 90 \<or> 97 \<le> k \<and> k \<le> 122)"

text \<open>\<open>shouldEscape(c, encodePath)\<close>: of the reserved characters only \<open>?\<close>, and everything that is
  neither alphanumeric, unreserved nor reserved.\<close>

definition path_char :: "char \<Rightarrow> bool" where
  "path_char c \<longleftrightarrow> is_alnum c \<or> c \<in> set ''-_.~$&+,/:;=@''"

definition upper_hex :: "nat \<Rightarrow> char" where
  "upper_hex n = (if n < 10 then char_of (48 + n) else char_of (55 + n))"

definition url_escape :: "string \<Rightarrow> string" where
  "url_escape s = concat (map (\<lambda>c. if path_char c then [c]
     else let k = of_char c :: nat in [CHR ''%'', upper_hex (k div 16), upper_hex (k mod 16)]) s)"

lemma url_unescape_plain: "CHR ''%'' \<notin> set s \<Longrightarrow> url_unescape s = Some s"
  by (induction s) auto

lemma url_escape_plain: "(\<forall>c \<in> set s. path_char c) \<Longrightarrow> url_escape s = s"
  by (induction s) (auto simp: url_escape_def)

lemma hex_value_upper: "n < 16 \<Longrightarrow> hex_value (upper_hex n) = Some n"
  by (auto simp: hex_value_def upper_hex_def Let_def)

lemma path_char_percent [simp]: "\<not> path_char CHR ''%''" "\<not> path_char CHR ''?''" "\<not> path_char CHR ''#''"
  "\<not> path_char CHR ''*''"
  by (simp_all add: path_char_def is_alnum_def)

lemma url_escape_Cons:
  "url_escape (c # s) = (if path_char c then [c]
     else [CHR ''%'', upper_hex (of_char c div 16), upper_hex (of_char c mod 16)]) @ url_escape s"
  by (simp add: url_escape_def Let_def)

text \<open>Unescaping undoes escaping.\<close>

lemma url_unescape_escape: "url_unescape (url_escape s) = Some s"
proof (induction s)
  case Nil
  then show ?case by (simp add: url_escape_def)
next
  case (Cons c s)
  have b: "(of_char c :: nat) < 256" by (rule nat_of_char_less_256)
  have h: "hex_value (upper_hex (of_char c div 16)) = Some (of_char c div 16)"
    by (rule hex_value_upper) (use b in arith)
  have l: "hex_value (upper_hex (of_char c mod 16)) = Some (of_char c mod 16)"
    by (rule hex_value_upper) simp
  have "char_of (16 * (of_char c div 16) + of_char c mod 16 :: nat) = c" by simp
  with Cons h l show ?case by (auto simp: url_escape_Cons)
qed

lemma upper_hex_not_delim: "n < 16 \<Longrightarrow> upper_hex n \<notin> {CHR ''?'', CHR ''/'', CHR ''.''}"
  using hex_value_upper [of n] by (auto simp: hex_value_def)

lemma url_escape_no_query: "CHR ''?'' \<notin> set (url_escape s)"
proof (induction s)
  case Nil
  then show ?case by (simp add: url_escape_def)
next
  case (Cons c s)
  have b: "(of_char c :: nat) < 256" by (rule nat_of_char_less_256)
  have "of_char c div 16 < (16 :: nat)" "of_char c mod 16 < (16 :: nat)" using b by arith+
  then have "upper_hex (of_char c div 16) \<noteq> CHR ''?''" "upper_hex (of_char c mod 16) \<noteq> CHR ''?''"
    using upper_hex_not_delim by blast+
  with Cons show ?case by (auto simp: url_escape_Cons)
qed

subsection \<open>Parsing\<close>

text \<open>\<open>split(s, c, cutc)\<close>: the part before the first \<open>c\<close> and the part from it (or after it).\<close>

definition url_split :: "char \<Rightarrow> bool \<Rightarrow> string \<Rightarrow> string \<times> string" where
  "url_split c cutc s =
     (takeWhile (\<lambda>x. x \<noteq> c) s,
      let r = dropWhile (\<lambda>x. x \<noteq> c) s in if cutc then tl r else r)"

text \<open>\<open>getscheme\<close>: the scheme and the rest, or \<open>None\<close> for a missing scheme before a colon.\<close>

fun getscheme_loop :: "string \<Rightarrow> string \<Rightarrow> (string \<times> string) option" where
  "getscheme_loop seen [] = Some ([], seen)"
| "getscheme_loop seen (c # s) =
     (if is_alnum c \<and> \<not> (48 \<le> (of_char c :: nat) \<and> (of_char c :: nat) \<le> 57) then getscheme_loop (seen @ [c]) s
      else if is_alnum c \<or> c \<in> set ''+-.'' then
        (if seen = [] then Some ([], c # s) else getscheme_loop (seen @ [c]) s)
      else if c = CHR '':'' then (if seen = [] then None else Some (seen, s))
      else Some ([], seen @ c # s))"

definition getscheme :: "string \<Rightarrow> (string \<times> string) option" where
  "getscheme s = getscheme_loop [] s"

text \<open>\<open>parseAuthority\<close>: the host after the last \<open>@\<close>; malformed user information is an error.\<close>

definition parseAuthority :: "string \<Rightarrow> string option" where
  "parseAuthority a =
     (if CHR ''@'' \<notin> set a then Some a
      else (let host = rev (takeWhile (\<lambda>c. c \<noteq> CHR ''@'') (rev a));
                user = rev (tl (dropWhile (\<lambda>c. c \<noteq> CHR ''@'') (rev a)))
            in if CHR '':'' \<notin> set user then map_option (\<lambda>_. host) (url_unescape user)
               else (case url_split (CHR '':'') True user of (name, pass) \<Rightarrow>
                 (case (url_unescape name, url_unescape pass) of
                    (Some _, Some _) \<Rightarrow> Some host | _ \<Rightarrow> None))))"

definition url_path :: "URL \<Rightarrow> string \<Rightarrow> URL option" where
  "url_path u rest = map_option (\<lambda>p. u\<lparr>Path := p\<rparr>) (url_unescape rest)"

definition url_parse :: "bool \<Rightarrow> string \<Rightarrow> URL option" where
  "url_parse viaRequest raw =
     (if raw = [] \<and> viaRequest then None
      else if raw = ''*'' then Some (empty_url\<lparr>Path := ''*''\<rparr>)
      else (case getscheme raw of
          None \<Rightarrow> None
        | Some (scheme, rest0) \<Rightarrow>
            (let (rest, query) = url_split (CHR ''?'') True rest0;
                 u = empty_url\<lparr>Scheme := map to_lower_char scheme, RawQuery := query\<rparr>
             in if \<not> prefix ''/'' rest \<and> scheme \<noteq> [] then Some (u\<lparr>Opaque := rest\<rparr>)
                else if \<not> prefix ''/'' rest \<and> viaRequest then None
                else if (scheme \<noteq> [] \<or> \<not> viaRequest \<and> \<not> prefix ''///'' rest) \<and> prefix ''//'' rest then
                  (case url_split (CHR ''/'') False (drop 2 rest) of
                     (authority, path) \<Rightarrow>
                       (case parseAuthority authority of
                          None \<Rightarrow> None
                        | Some host \<Rightarrow>
                            if CHR ''%'' \<in> set host then None
                            else url_path (u\<lparr>UrlHost := host\<rparr>) path))
                else url_path u rest)))"

text \<open>\<open>url.Parse\<close> and \<open>url.ParseRequestURI\<close>.\<close>

definition Parse :: "string \<Rightarrow> URL option" where
  "Parse raw =
     (let (u, frag) = url_split (CHR ''#'') True raw
      in case url_parse False u of
           None \<Rightarrow> None
         | Some url \<Rightarrow> (if frag = [] then Some url
             else map_option (\<lambda>f. url\<lparr>Fragment := f\<rparr>) (url_unescape frag)))"

definition ParseRequestURI :: "string \<Rightarrow> URL option" where
  "ParseRequestURI raw = url_parse True raw"

definition RequestURI :: "URL \<Rightarrow> string" where
  "RequestURI u =
     (let result = (if Opaque u = [] then
          (let p = url_escape (Path u) in if p = [] then ''/'' else p)
        else if prefix ''//'' (Opaque u) then Scheme u @ '':'' @ Opaque u
        else Opaque u)
      in if RawQuery u \<noteq> [] then result @ ''?'' @ RawQuery u else result)"

text \<open>A rooted path without escapes, query or fragment is its own request URI.\<close>

lemma getscheme_slash: "getscheme (CHR ''/'' # s) = Some ([], CHR ''/'' # s)"
  by (simp add: getscheme_def is_alnum_def)

lemma url_split_none: "c \<notin> set s \<Longrightarrow> url_split c cutc s = (s, [])"
proof -
  assume c: "c \<notin> set s"
  then have whole: "dropWhile (\<lambda>x. x \<noteq> c) s = []" "takeWhile (\<lambda>x. x \<noteq> c) s = s"
    by (auto simp: dropWhile_eq_Nil_conv takeWhile_eq_all_conv)
  show ?thesis by (simp add: url_split_def whole)
qed

lemma Parse_plain:
  assumes "s = CHR ''/'' # t" "\<not> prefix ''/'' t" "\<forall>c \<in> set s. path_char c"
  shows "Parse s = Some (empty_url\<lparr>Path := s\<rparr>)"
proof -
  have no: "CHR ''#'' \<notin> set s" "CHR ''?'' \<notin> set s" "CHR ''%'' \<notin> set s"
    using assms(3) path_char_percent by blast+
  have "getscheme s = Some ([], s)" using assms(1) by (simp add: getscheme_slash)
  moreover have "s \<noteq> ''*''" "s \<noteq> []" "prefix ''/'' s" "\<not> prefix ''//'' s" using assms(1,2) by auto
  moreover have "url_path u s = Some (u\<lparr>Path := s\<rparr>)" for u
    using no by (simp add: url_path_def url_unescape_plain)
  ultimately have "url_parse False s = Some (empty_url\<lparr>Path := s\<rparr>)"
    using no by (simp add: url_parse_def url_split_none empty_url_def)
  with no show ?thesis by (simp add: Parse_def url_split_none)
qed

lemma RequestURI_plain:
  "s \<noteq> [] \<Longrightarrow> (\<forall>c \<in> set s. path_char c) \<Longrightarrow> RequestURI (empty_url\<lparr>Path := s\<rparr>) = s"
  by (simp add: RequestURI_def empty_url_def url_escape_plain)

end
