(* ===== verification/Http.thy ===== *)
theory Http
  imports GoUrl Json
begin

text \<open>
  Requests, responses and the stack of response writers of go-json-rest (\<open>rest/request.go\<close>,
  \<open>rest/response.go\<close>, \<open>rest/recorder.go\<close>, \<open>rest/json_indent.go\<close>, \<open>rest/jsonp.go\<close>).  A writer
  is the list of layers the middlewares have put around the base writer, outermost first.  Below
  it is the connection of \<open>net/http\<close>: the first \<open>WriteHeader\<close> wins and freezes the headers, and
  writing a body without one sends a 200; writing to it does not fail here.
\<close>

subsection \<open>Headers\<close>

type_synonym header = "(string \<times> string list) list"

text \<open>\<open>http.CanonicalHeaderKey\<close>: a capital after the start and after each hyphen.\<close>

fun canonical_from :: "bool \<Rightarrow> string \<Rightarrow> string" where
  "canonical_from upper [] = []"
| "canonical_from upper (c # s) =
     (if upper then to_upper_char c else to_lower_char c) # canonical_from (c = CHR ''-'') s"

definition CanonicalHeaderKey :: "string \<Rightarrow> string" where
  "CanonicalHeaderKey s = canonical_from True s"

definition header_values :: "header \<Rightarrow> string \<Rightarrow> string list" where
  "header_values h key = (case map_of h (CanonicalHeaderKey key) of None \<Rightarrow> [] | Some vs \<Rightarrow> vs)"

definition header_get :: "header \<Rightarrow> string \<Rightarrow> string" where
  "header_get h key = (case header_values h key of [] \<Rightarrow> [] | v # vs \<Rightarrow> v)"

definition header_set :: "string \<Rightarrow> string \<Rightarrow> header \<Rightarrow> header" where
  "header_set key value h = obj_put (CanonicalHeaderKey key) [value] h"

definition header_add :: "string \<Rightarrow> string \<Rightarrow> header \<Rightarrow> header" where
  "header_add key value h = obj_put (CanonicalHeaderKey key) (header_values h key @ [value]) h"

lemma header_get_set: "header_get (header_set k v h) k' =
    (if CanonicalHeaderKey k' = CanonicalHeaderKey k then v else header_get h k')"
  by (simp add: header_get_def header_values_def header_set_def)

subsection \<open>Requests\<close>

datatype env_value = EnvString string | EnvInt int | EnvTime int | EnvDuration int | EnvClaims obj

record Request =
  Method :: string
  ReqUrl :: URL
  ReqHeader :: header
  ReqHost :: string
  Body :: "bytes option"
  ContentLength :: int
  PathParams :: "string \<rightharpoonup> string"
  Env :: "string \<rightharpoonup> env_value"

text \<open>The body is \<open>None\<close> when reading it fails.\<close>

definition PathParam :: "Request \<Rightarrow> string \<Rightarrow> string" where
  "PathParam r name = (case PathParams r name of None \<Rightarrow> [] | Some v \<Rightarrow> v)"

text \<open>\<open>DecodeJsonPayload\<close> up to the assignment of the decoded value to the fields of its target,
  which the callers make.\<close>

definition DecodeJsonPayload :: "Request \<Rightarrow> json option" where
  "DecodeJsonPayload r = (case Body r of None \<Rightarrow> None | Some content \<Rightarrow> Unmarshal content)"

definition BaseUrl :: "Request \<Rightarrow> URL" where
  "BaseUrl r =
     (let scheme = (if Scheme (ReqUrl r) = [] then ''http'' else Scheme (ReqUrl r));
          host = (if 0 < length (ReqHost r) \<and> last (ReqHost r) = CHR ''/''
                  then take (length (ReqHost r) - 1) (ReqHost r) else ReqHost r)
      in empty_url\<lparr>Scheme := scheme, UrlHost := host\<rparr>)"

record CorsInfo =
  IsCors :: bool
  IsPreflight :: bool
  Origin :: string
  AccessControlRequestMethod :: string
  AccessControlRequestHeaders :: "string list"

definition is_space :: "char \<Rightarrow> bool" where
  "is_space c = (let k = of_char c :: nat in k = 32 \<or> 9 \<le> k \<and> k \<le> 13)"

definition TrimSpace :: "string \<Rightarrow> string" where
  "TrimSpace s = rev (dropWhile is_space (rev (dropWhile is_space s)))"

definition GetCorsInfo :: "Request \<Rightarrow> CorsInfo" where
  "GetCorsInfo r =
     (let origin = header_get (ReqHeader r) ''Origin'';
          isCors = (if origin = [] then False
                    else if origin = ''null'' then True
                    else (case ParseRequestURI origin of
                        None \<Rightarrow> False
                      | Some originUrl \<Rightarrow> ReqHost r \<noteq> UrlHost originUrl));
          reqMethod = header_get (ReqHeader r) ''Access-Control-Request-Method'';
          reqHeaders = concat (map (\<lambda>raw. map (\<lambda>h. CanonicalHeaderKey (TrimSpace h)) (split_on (CHR '','') raw))
            (header_values (ReqHeader r) ''Access-Control-Request-Headers''))
      in \<lparr>IsCors = isCors,
          IsPreflight = isCors \<and> Method r = ''OPTIONS'' \<and> reqMethod \<noteq> [],
          Origin = origin,
          AccessControlRequestMethod = to_upper reqMethod,
          AccessControlRequestHeaders = reqHeaders\<rparr>)"

subsection \<open>The connection\<close>

record Response =
  RespHeader :: header
  Status :: "nat option"
  SentHeader :: header
  RespBody :: bytes

definition http_write_header :: "nat \<Rightarrow> Response \<Rightarrow> Response" where
  "http_write_header code resp =
     (case Status resp of
        None \<Rightarrow> resp\<lparr>Status := Some code, SentHeader := RespHeader resp\<rparr>
      | Some _ \<Rightarrow> resp)"

definition http_write :: "bytes \<Rightarrow> Response \<Rightarrow> Response" where
  "http_write b resp =
     (let resp' = (if Status resp = None then http_write_header 200 resp else resp)
      in resp'\<lparr>RespBody := RespBody resp' @ b\<rparr>)"

subsection \<open>The base writer and its layers\<close>

record responseWriter =
  Conn :: Response
  baseWroteHeader :: bool

datatype layer =
    RecorderLayer (statusCode: nat) (recWroteHeader: bool) (bytesWritten: nat)
  | JsonIndentLayer (indWroteHeader: bool) (indPrefix: string) (indIndent: string)
  | JsonpLayer (jsonpWroteHeader: bool) (callbackName: string)

type_synonym writer = "layer list \<times> responseWriter"

definition base_set_header :: "string \<Rightarrow> string \<Rightarrow> responseWriter \<Rightarrow> responseWriter" where
  "base_set_header k v w = w\<lparr>Conn := (Conn w)\<lparr>RespHeader := header_set k v (RespHeader (Conn w))\<rparr>\<rparr>"

definition base_add_header :: "string \<Rightarrow> string \<Rightarrow> responseWriter \<Rightarrow> responseWriter" where
  "base_add_header k v w = w\<lparr>Conn := (Conn w)\<lparr>RespHeader := header_add k v (RespHeader (Conn w))\<rparr>\<rparr>"

definition base_WriteHeader :: "nat \<Rightarrow> responseWriter \<Rightarrow> responseWriter" where
  "base_WriteHeader code w =
     (let w1 = (if header_get (RespHeader (Conn w)) ''Content-Type'' = []
                then base_set_header ''Content-Type'' ''application/json'' w else w)
      in w1\<lparr>Conn := http_write_header code (Conn w1), baseWroteHeader := True\<rparr>)"

definition base_Write :: "bytes \<Rightarrow> responseWriter \<Rightarrow> responseWriter" where
  "base_Write b w =
     (let w1 = (if \<not> baseWroteHeader w then base_WriteHeader 200 w else w)
      in w1\<lparr>Conn := http_write b (Conn w1)\<rparr>)"

fun WriteHeader :: "nat \<Rightarrow> layer list \<Rightarrow> responseWriter \<Rightarrow> writer" where
  "WriteHeader code [] w = ([], base_WriteHeader code w)"
| "WriteHeader code (RecorderLayer sc wh n # ls) w =
     (let (ls', w') = WriteHeader code ls w in (RecorderLayer code True n # ls', w'))"
| "WriteHeader code (JsonIndentLayer wh p i # ls) w =
     (let (ls', w') = WriteHeader code ls w in (JsonIndentLayer True p i # ls', w'))"
| "WriteHeader code (JsonpLayer wh cb # ls) w =
     (let (ls', w') = WriteHeader code ls (base_set_header ''Content-Type'' ''text/javascript'' w)
      in (JsonpLayer True cb # ls', w'))"

definition wrote_header :: "layer \<Rightarrow> bool" where
  "wrote_header l = (case l of RecorderLayer sc wh n \<Rightarrow> wh | JsonIndentLayer wh p i \<Rightarrow> wh | JsonpLayer wh cb \<Rightarrow> wh)"

text \<open>\<open>Write\<close>: the header first if this layer has not written one, then the layer below.\<close>

lemma length_WriteHeader [simp]: "length (fst (WriteHeader code ls w)) = length ls"
  by (induction code ls w rule: WriteHeader.induct) (auto split: prod.splits)

lemma WriteHeader_Cons:
  "(l1 # ls1, w1) = WriteHeader code ls w \<Longrightarrow> length ls = Suc (length ls1)"
  by (metis fst_conv length_Cons length_WriteHeader)

function Write :: "bytes \<Rightarrow> layer list \<Rightarrow> responseWriter \<Rightarrow> writer" where
  "Write b [] w = ([], base_Write b w)"
| "Write b (l # ls) w =
     (if \<not> wrote_header l then
        (case WriteHeader 200 (l # ls) w of
           ([], w1) \<Rightarrow> ([], w1)
         | (l1 # ls1, w1) \<Rightarrow>
             (let (ls2, w2) = Write b ls1 w1 in
               ((case l1 of RecorderLayer sc wh n \<Rightarrow> RecorderLayer sc wh (n + length b) | _ \<Rightarrow> l1) # ls2, w2)))
      else
        (let (ls2, w2) = Write b ls w in
          ((case l of RecorderLayer sc wh n \<Rightarrow> RecorderLayer sc wh (n + length b) | _ \<Rightarrow> l) # ls2, w2)))"
  by pat_completeness auto
termination
  by (relation "measure (\<lambda>(b, ls, w). length ls)") (auto dest!: WriteHeader_Cons)

fun EncodeJson :: "layer list \<Rightarrow> json \<Rightarrow> bytes" where
  "EncodeJson [] v = Marshal v"
| "EncodeJson (JsonIndentLayer wh p i # ls) v = MarshalIndent p i v"
| "EncodeJson (l # ls) v = EncodeJson ls v"

text \<open>\<open>WriteJson\<close>: every layer overrides it, so only the outermost one counts.\<close>

definition WriteJson :: "json \<Rightarrow> layer list \<Rightarrow> responseWriter \<Rightarrow> writer" where
  "WriteJson v ls w =
     (let b = EncodeJson ls v in
      case ls of
        JsonpLayer wh cb # _ \<Rightarrow>
          (let (ls1, w1) = Write (cb @ ''('') ls w; (ls2, w2) = Write b ls1 w1 in Write '')'' ls2 w2)
      | _ \<Rightarrow> Write b ls w)"

definition error_json :: "string \<Rightarrow> json" where
  "error_json msg = JObj [(''Error'', JStr msg)]"

text \<open>\<open>rest.Error\<close>.\<close>

definition write_error :: "string \<Rightarrow> nat \<Rightarrow> layer list \<Rightarrow> responseWriter \<Rightarrow> writer" where
  "write_error msg code ls w =
     (let (ls1, w1) = WriteHeader code ls w in WriteJson (error_json msg) ls1 w1)"


subsection \<open>What reaches the connection\<close>

text \<open>A handler's calls of its writer.\<close>

datatype wop =
    OpWriteHeader nat
  | OpWrite bytes
  | OpWriteJson json
  | OpSetHeader string string
  | OpAddHeader string string

fun run_op :: "wop \<Rightarrow> writer \<Rightarrow> writer" where
  "run_op (OpWriteHeader code) (ls, w) = WriteHeader code ls w"
| "run_op (OpWrite b) (ls, w) = Write b ls w"
| "run_op (OpWriteJson v) (ls, w) = WriteJson v ls w"
| "run_op (OpSetHeader k v) (ls, w) = (ls, base_set_header k v w)"
| "run_op (OpAddHeader k v) (ls, w) = (ls, base_add_header k v w)"

definition run_ops :: "wop list \<Rightarrow> writer \<Rightarrow> writer" where
  "run_ops ops = fold run_op ops"

text \<open>The status codes a sequence of calls writes, explicitly or by writing a body first.\<close>

fun op_codes :: "bool \<Rightarrow> wop list \<Rightarrow> nat list" where
  "op_codes wrote [] = []"
| "op_codes wrote (OpWriteHeader code # ops) = code # op_codes True ops"
| "op_codes wrote (OpWrite b # ops) = (if wrote then [] else [200]) @ op_codes True ops"
| "op_codes wrote (OpWriteJson v # ops) = (if wrote then [] else [200]) @ op_codes True ops"
| "op_codes wrote (op # ops) = op_codes wrote ops"

fun op_body :: "layer list \<Rightarrow> wop \<Rightarrow> bytes" where
  "op_body ls (OpWrite b) = b"
| "op_body ls (OpWriteJson v) = EncodeJson ls v"
| "op_body ls op = []"

definition ops_body :: "layer list \<Rightarrow> wop list \<Rightarrow> bytes" where
  "ops_body ls ops = concat (map (op_body ls) ops)"

text \<open>
  A writer whose response has the status codes \<open>cs\<close> and the body \<open>b\<close> so far: the first code is
  the one sent; every recorder has the last code and the number of bytes.
\<close>

definition layer_ok :: "nat list \<Rightarrow> bytes \<Rightarrow> layer \<Rightarrow> bool" where
  "layer_ok cs b l = (case l of
     RecorderLayer sc wh n \<Rightarrow> sc = (if cs = [] then 0 else last cs) \<and> wh = (cs \<noteq> []) \<and> n = length b
   | JsonIndentLayer wh p i \<Rightarrow> wh = (cs \<noteq> [])
   | JsonpLayer wh cb \<Rightarrow> False)"

definition base_ok :: "nat list \<Rightarrow> bytes \<Rightarrow> responseWriter \<Rightarrow> bool" where
  "base_ok cs b w \<longleftrightarrow>
     baseWroteHeader w = (cs \<noteq> []) \<and> Status (Conn w) = (if cs = [] then None else Some (hd cs)) \<and>
     RespBody (Conn w) = b \<and> (cs = [] \<longrightarrow> b = []) \<and>
     (cs \<noteq> [] \<longrightarrow> header_get (SentHeader (Conn w)) ''Content-Type'' \<noteq> [])"

definition writer_ok :: "nat list \<Rightarrow> bytes \<Rightarrow> writer \<Rightarrow> bool" where
  "writer_ok cs b x \<longleftrightarrow> list_all (layer_ok cs b) (fst x) \<and> base_ok cs b (snd x)"

fun mark :: "nat \<Rightarrow> layer \<Rightarrow> layer" where
  "mark code (RecorderLayer sc wh n) = RecorderLayer code True n"
| "mark code (JsonIndentLayer wh p i) = JsonIndentLayer True p i"
| "mark code (JsonpLayer wh cb) = JsonpLayer True cb"

fun count :: "bytes \<Rightarrow> layer \<Rightarrow> layer" where
  "count b (RecorderLayer sc wh n) = RecorderLayer sc wh (n + length b)"
| "count b l = l"

definition no_jsonp :: "layer list \<Rightarrow> bool" where
  "no_jsonp ls \<longleftrightarrow> list_all (\<lambda>l. case l of JsonpLayer wh cb \<Rightarrow> False | _ \<Rightarrow> True) ls"

lemma no_jsonp_simps [simp]:
  "no_jsonp []" "no_jsonp (RecorderLayer sc wh n # ls) = no_jsonp ls"
  "no_jsonp (JsonIndentLayer wh' p i # ls) = no_jsonp ls" "\<not> no_jsonp (JsonpLayer wh cb # ls)"
  by (simp_all add: no_jsonp_def)

lemma WriteHeader_eq: "no_jsonp ls \<Longrightarrow> WriteHeader code ls w = (map (mark code) ls, base_WriteHeader code w)"
  by (induction code ls w rule: WriteHeader.induct) auto

lemma WriteJson_no_jsonp: "no_jsonp ls \<Longrightarrow> WriteJson v ls w = Write (EncodeJson ls v) ls w"
  unfolding WriteJson_def Let_def
  by (cases ls; cases "hd ls") (simp_all del: Write.simps EncodeJson.simps)

lemma case_count: "(case l of RecorderLayer sc wh n \<Rightarrow> RecorderLayer sc wh (n + length b) | JsonIndentLayer x xa xb \<Rightarrow> l
     | JsonpLayer x xa \<Rightarrow> l) = count b l"
  by (cases l) auto

lemma Write_wrote: "list_all wrote_header ls \<Longrightarrow> Write b ls w = (map (count b) ls, base_Write b w)"
  by (induction ls) (simp_all add: case_count)

lemma wrote_header_mark [simp]: "wrote_header (mark code l)"
  by (cases l) (simp_all add: wrote_header_def)

lemma Write_fresh:
  assumes "no_jsonp (l # ls)" "\<not> wrote_header l"
  shows "Write b (l # ls) w = (map (count b \<circ> mark 200) (l # ls), base_Write b (base_WriteHeader 200 w))"
proof -
  have "list_all wrote_header (map (mark 200) ls)" by (simp add: list_all_iff)
  with assms show ?thesis by (simp add: WriteHeader_eq Write_wrote case_count)
qed

lemma header_get_content_type [simp]:
  "header_get (header_set ''Content-Type'' v h) ''Content-Type'' = v"
  by (simp add: header_get_set)

lemma base_WriteHeader_ok: "base_ok cs b w \<Longrightarrow> base_ok (cs @ [code]) b (base_WriteHeader code w)"
  by (cases cs)
    (auto simp: base_ok_def base_WriteHeader_def base_set_header_def http_write_header_def Let_def)

lemma base_Write_ok:
  "base_ok cs b w \<Longrightarrow> base_ok (cs @ (if cs = [] then [200] else [])) (b @ x) (base_Write x w)"
  by (cases cs)
    (auto simp: base_ok_def base_WriteHeader_def base_Write_def base_set_header_def http_write_header_def
      http_write_def Let_def)

lemma base_Write_wrote: "baseWroteHeader w \<Longrightarrow> base_Write x w = w\<lparr>Conn := http_write x (Conn w)\<rparr>"
  by (simp add: base_Write_def)

lemma baseWroteHeader_WriteHeader [simp]: "baseWroteHeader (base_WriteHeader code w)"
  by (simp add: base_WriteHeader_def Let_def)

lemma layer_ok_mark: "layer_ok cs b l \<Longrightarrow> layer_ok (cs @ [code]) b (mark code l)"
  by (cases l) (auto simp: layer_ok_def)

lemma layer_ok_count: "layer_ok cs b l \<Longrightarrow> cs \<noteq> [] \<Longrightarrow> layer_ok cs (b @ x) (count x l)"
  by (cases l) (auto simp: layer_ok_def)

lemma layers_no_jsonp: "list_all (layer_ok cs b) ls \<Longrightarrow> no_jsonp ls"
  by (induction ls) (auto simp: layer_ok_def no_jsonp_def split: layer.splits)

lemma layers_wrote: "list_all (layer_ok cs b) ls \<Longrightarrow> cs \<noteq> [] \<Longrightarrow> list_all wrote_header ls"
  by (induction ls) (auto simp: layer_ok_def wrote_header_def split: layer.splits)

lemma layer_fresh: "layer_ok [] b l \<Longrightarrow> \<not> wrote_header l"
  by (cases l) (auto simp: layer_ok_def wrote_header_def)

lemma WriteHeader_ok: "writer_ok cs b (ls, w) \<Longrightarrow> writer_ok (cs @ [code]) b (WriteHeader code ls w)"
  by (auto simp: writer_ok_def WriteHeader_eq layers_no_jsonp base_WriteHeader_ok list_all_iff layer_ok_mark)

lemma Write_ok:
  assumes "writer_ok cs b (ls, w)"
  shows "writer_ok (cs @ (if cs = [] then [200] else [])) (b @ x) (Write x ls w)"
proof (cases "cs = []")
  case False
  with assms layers_wrote [of cs b ls] base_Write_ok [of cs b w x] show ?thesis
    by (auto simp: writer_ok_def Write_wrote list_all_iff layer_ok_count)
next
  case True
  show ?thesis
  proof (cases ls)
    case Nil
    with assms base_Write_ok [of cs b w x] show ?thesis by (simp add: writer_ok_def)
  next
    case (Cons l ls')
    have n: "no_jsonp (l # ls')" "\<not> wrote_header l"
      using assms True Cons layers_no_jsonp [of cs b "l # ls'"] layer_fresh by (auto simp: writer_ok_def)
    have "list_all (layer_ok [200] (b @ x)) (map (count x \<circ> mark 200) (l # ls'))"
      using assms True Cons layer_ok_mark [of "[]" b _ 200] layer_ok_count [of "[200]" b _ x]
      by (auto simp: writer_ok_def list_all_iff)
    moreover have "base_ok [200] (b @ x) (base_Write x (base_WriteHeader 200 w))"
      using base_Write_ok [of "[200]" b "base_WriteHeader 200 w" x] base_WriteHeader_ok [of "[]" b w 200] assms True
      by (simp add: writer_ok_def)
    ultimately show ?thesis using True Cons Write_fresh [OF n] by (simp add: writer_ok_def)
  qed
qed

lemma run_op_ok:
  assumes "writer_ok cs b x"
  shows "writer_ok (cs @ op_codes (cs \<noteq> []) [op]) (b @ op_body (fst x) op) (run_op op x)"
proof -
  obtain ls w where x: "x = (ls, w)" by fastforce
  have j: "WriteJson v ls w = Write (EncodeJson ls v) ls w" for v
    using assms layers_no_jsonp [of cs b ls] x by (auto intro: WriteJson_no_jsonp simp: writer_ok_def)
  have h: "base_ok cs b (base_set_header k v w)" "base_ok cs b (base_add_header k v w)" for k v
    using assms x by (auto simp: writer_ok_def base_ok_def base_set_header_def base_add_header_def)
  show ?thesis
    using assms WriteHeader_ok [of cs b ls w] Write_ok [of cs b ls w] j h
    by (cases op) (auto simp: x writer_ok_def)
qed

fun same_shape :: "layer \<Rightarrow> layer \<Rightarrow> bool" where
  "same_shape (RecorderLayer sc wh n) (RecorderLayer sc' wh' n') = True"
| "same_shape (JsonIndentLayer wh p i) (JsonIndentLayer wh' p' i') = (p = p' \<and> i = i')"
| "same_shape (JsonpLayer wh cb) (JsonpLayer wh' cb') = (cb = cb')"
| "same_shape l l' = False"

lemma same_shape_refl [simp]: "same_shape l l"
  by (cases l) auto

lemma shape_trans: "same_shape a b \<Longrightarrow> same_shape b c \<Longrightarrow> same_shape a c"
  by (cases a; cases b; cases c) auto

lemma EncodeJson_shape: "list_all2 same_shape ls ls' \<Longrightarrow> EncodeJson ls v = EncodeJson ls' v"
proof (induction rule: list_all2_induct)
  case (Cons l ls l' ls')
  then show ?case by (cases l; cases l') auto
qed simp

lemma shape_mark_count:
  "same_shape (mark code l) l" "same_shape (count x l) l" "same_shape (count x (mark code l)) l"
  by (cases l; simp)+

lemma run_op_shape:
  assumes "writer_ok cs b x"
  shows "list_all2 same_shape (fst (run_op op x)) (fst x)"
proof -
  obtain ls w where x: "x = (ls, w)" by fastforce
  have n: "no_jsonp ls" using assms x layers_no_jsonp by (auto simp: writer_ok_def)
  have id: "list_all2 same_shape ls ls" by (simp add: list_all2_refl)
  have m: "list_all2 same_shape (map f ls) ls" if "\<And>l. same_shape (f l) l" for f
    using that by (simp add: list_all2_map1 list_all2_same)
  have wr: "list_all2 same_shape (fst (Write y ls w)) ls" for y
  proof (cases "cs = [] \<and> ls \<noteq> []")
    case True
    then obtain l ls' where l: "ls = l # ls'" by (cases ls) auto
    with assms x True have "\<not> wrote_header l" by (auto simp: writer_ok_def layer_fresh)
    with Write_fresh [of l ls' y w] n l m [of "count y \<circ> mark 200"] show ?thesis
      by (simp add: shape_mark_count)
  next
    case False
    then have "list_all wrote_header ls" using assms x layers_wrote [of cs b ls] by (auto simp: writer_ok_def)
    with m [of "count y"] show ?thesis by (simp add: Write_wrote shape_mark_count)
  qed
  have j: "WriteJson v ls w = Write (EncodeJson ls v) ls w" for v
    using n by (rule WriteJson_no_jsonp)
  show ?thesis
    using m [of "mark code" for code] n id wr by (cases op) (auto simp: x WriteHeader_eq shape_mark_count j)
qed

text \<open>The response of a sequence of calls.\<close>

lemma run_ops_ok:
  "writer_ok cs b x \<Longrightarrow>
   writer_ok (cs @ op_codes (cs \<noteq> []) ops) (b @ ops_body (fst x) ops) (run_ops ops x) \<and>
   list_all2 same_shape (fst (run_ops ops x)) (fst x)"
proof (induction ops arbitrary: cs b x)
  case Nil
  then show ?case by (simp add: run_ops_def ops_body_def list_all2_refl)
next
  case (Cons op ops)
  let ?y = "run_op op x"
  have y: "writer_ok (cs @ op_codes (cs \<noteq> []) [op]) (b @ op_body (fst x) op) ?y"
    and sh: "list_all2 same_shape (fst ?y) (fst x)"
    using Cons.prems run_op_ok run_op_shape by blast+
  have "op_body (fst ?y) o' = op_body (fst x) o'" for o'
    using EncodeJson_shape [OF sh] by (cases o') auto
  then have body: "ops_body (fst ?y) ops = ops_body (fst x) ops" by (simp add: ops_body_def cong: map_cong)
  have codes: "op_codes (cs \<noteq> []) [op] @ op_codes (cs @ op_codes (cs \<noteq> []) [op] \<noteq> []) ops = op_codes (cs \<noteq> []) (op # ops)"
    by (cases op) auto
  have "list_all2 same_shape (fst (run_ops ops ?y)) (fst x)"
    using Cons.IH [OF y] sh by (blast intro: list_all2_trans [of same_shape same_shape same_shape] shape_trans)
  moreover have "run_ops (op # ops) x = run_ops ops ?y" "ops_body (fst x) (op # ops) = op_body (fst x) op @ ops_body (fst x) ops"
    by (simp_all add: run_ops_def ops_body_def)
  ultimately show ?case
    using Cons.IH [OF y] unfolding body codes [symmetric] by simp
qed

end
