(* ===== verification/GoMime.thy ===== *)
theory GoMime
  imports Http
begin

text \<open>
  \<open>mime.ParseMediaType\<close> of Go 1.4, as the content-type checker calls it.  The continuation syntax
  of RFC 2231 (parameter names with an asterisk) is not interpreted: such parameters are skipped.
\<close>

definition is_token_char :: "char \<Rightarrow> bool" where
  "is_token_char c = (let k = of_char c :: nat in 32 < k \<and> k < 127 \<and>
     c \<notin> set ''()<>@,;:/[]?='' \<and> c \<noteq> CHR 0x22 \<and> c \<noteq> CHR 0x5C)"

definition consumeToken :: "string \<Rightarrow> string \<times> string" where
  "consumeToken v = (takeWhile is_token_char v, dropWhile is_token_char v)"

definition trim_left :: "string \<Rightarrow> string" where
  "trim_left = dropWhile is_space"

text \<open>The rest of a quoted string: its value and what follows, unless it is malformed.\<close>

fun quoted_string :: "string \<Rightarrow> (string \<times> string) option" where
  "quoted_string [] = None"
| "quoted_string (c # s) =
     (if c = CHR 0x22 then Some ([], s)
      else if c = CHR 0x5C then
        (case s of [] \<Rightarrow> None | x # r \<Rightarrow> map_option (\<lambda>(v, t). (x # v, t)) (quoted_string r))
      else if c = char_of (13 :: nat) \<or> c = char_of (10 :: nat) then None
      else map_option (\<lambda>(v, t). (c # v, t)) (quoted_string s))"

definition consumeValue :: "string \<Rightarrow> string \<times> string" where
  "consumeValue v =
     (case v of
        c # s \<Rightarrow> (if c = CHR 0x22 then (case quoted_string s of None \<Rightarrow> ([], v) | Some r \<Rightarrow> r)
                  else consumeToken v)
      | [] \<Rightarrow> ([], []))"

text \<open>One parameter: its name in lower case, its value and the rest; no name for a parse error.\<close>

definition consumeMediaParam :: "string \<Rightarrow> (string \<times> string \<times> string) option" where
  "consumeMediaParam v =
     (case trim_left v of
        c # s \<Rightarrow>
          (if c \<noteq> CHR '';'' then None
           else (case consumeToken (trim_left s) of (param, r1) \<Rightarrow>
             (if param = [] then None
              else (case trim_left r1 of
                  e # r2 \<Rightarrow>
                    (if e \<noteq> CHR ''='' then None
                     else (case consumeValue (trim_left r2) of (value, r3) \<Rightarrow>
                       (if value = [] then None else Some (map to_lower_char param, value, r3))))
                | [] \<Rightarrow> None))))
      | [] \<Rightarrow> None)"

definition valid_media_type :: "string \<Rightarrow> bool" where
  "valid_media_type s =
     (case consumeToken s of (typ, rest) \<Rightarrow>
       typ \<noteq> [] \<and> (rest = [] \<or>
         (case rest of
            c # r \<Rightarrow> c = CHR ''/'' \<and> fst (consumeToken r) \<noteq> [] \<and> snd (consumeToken r) = []
          | [] \<Rightarrow> False)))"

lemma quoted_string_length: "quoted_string s = Some (v, r) \<Longrightarrow> length r < length s"
  by (induction s arbitrary: v r rule: quoted_string.induct)
    (fastforce split: if_splits list.splits)+

lemma trim_left_length: "length (trim_left s) \<le> length s"
  by (simp add: trim_left_def length_dropWhile_le)

lemma consumeToken_length: "consumeToken s = (t, r) \<Longrightarrow> length r \<le> length s"
  by (auto simp: consumeToken_def length_dropWhile_le)

lemma consumeValue_length: "consumeValue s = (v, r) \<Longrightarrow> length r \<le> length s"
  by (auto simp: consumeValue_def split: list.splits if_splits option.splits
      dest: consumeToken_length dest!: quoted_string_length)

lemma consumeMediaParam_length:
  assumes "consumeMediaParam v = Some (k, x, r)"
  shows "length r < length v"
proof -
  from assms obtain s param r1 r2 where s: "trim_left v = CHR '';'' # s"
    "consumeToken (trim_left s) = (param, r1)" "trim_left r1 = CHR ''='' # r2"
    "consumeValue (trim_left r2) = (x, r)"
    by (auto simp: consumeMediaParam_def split: list.splits if_splits prod.splits)
  have "length r \<le> length r2" using consumeValue_length [OF s(4)] trim_left_length [of r2] by simp
  also have "\<dots> < length r1" using s(3) trim_left_length [of r1] by simp
  also have "\<dots> \<le> length s" using consumeToken_length [OF s(2)] trim_left_length [of s] by simp
  also have "\<dots> < length v" using s(1) trim_left_length [of v] by simp
  finally show ?thesis .
qed

function media_params :: "string \<Rightarrow> (string \<rightharpoonup> string) \<Rightarrow> (string \<rightharpoonup> string) option" where
  "media_params v params =
     (if trim_left v = [] then Some params
      else (case consumeMediaParam (trim_left v) of
          None \<Rightarrow> (if TrimSpace (trim_left v) = '';'' then Some params else None)
        | Some (key, value, rest) \<Rightarrow>
            (if CHR ''*'' \<in> set key then media_params rest params
             else if params key \<noteq> None then None
             else media_params rest (params(key \<mapsto> value)))))"
  by pat_completeness auto
termination
  by (relation "measure (\<lambda>(v, p). length v)")
    (auto dest!: consumeMediaParam_length intro: less_le_trans trim_left_length)

text \<open>On an error the media type is empty and there are no parameters.\<close>

definition ParseMediaType :: "string \<Rightarrow> string \<times> (string \<rightharpoonup> string)" where
  "ParseMediaType v =
     (let mediatype = TrimSpace (map to_lower_char (takeWhile (\<lambda>c. c \<noteq> CHR '';'') v))
      in if \<not> valid_media_type mediatype then ([], Map.empty)
         else (case media_params (dropWhile (\<lambda>c. c \<noteq> CHR '';'') v) Map.empty of
             None \<Rightarrow> ([], Map.empty)
           | Some params \<Rightarrow> (mediatype, params)))"

end
