(* ===== verification/Trie.thy ===== *)
theory Trie
  imports GoStrings
begin

text \<open>
  The routing trie of go-json-rest (\<open>rest/trie/impl.go\<close>).  A node keeps the routes that end at
  it by HTTP method, and four kinds of children: literal ones in a map whose keys all have the
  node's key length, one \<open>:param\<close>, one \<open>#relaxed\<close> and one \<open>*splat\<close> child.  Maps are
  association lists; a nil map is \<open>None\<close>.  The operations mutate nodes in place in the code and
  return the new node here, with the error if there is one: an insertion that fails half-way
  leaves the nodes it has already created.
\<close>

subsection \<open>Nodes\<close>

datatype 'r node = Node
  (HttpMethodToRoute: "(string \<times> 'r) list option")
  (Children: "(string \<times> 'r node) list option")
  (ChildrenKeyLen: nat)
  (ParamChild: "'r node option") (ParamName: string)
  (RelaxedChild: "'r node option") (RelaxedName: string)
  (SplatChild: "'r node option") (SplatName: string)

definition empty_node :: "'r node" where
  "empty_node = Node None None 0 None [] None [] None []"

datatype trie_error =
    DuplicateRoute
  | DuplicatePlaceholder string
  | InconsistentPlaceholder string string

definition splitParam :: "string \<Rightarrow> string \<times> string" where
  "splitParam s = (takeWhile (\<lambda>c. c \<noteq> CHR ''/'' \<and> c \<noteq> CHR ''.'') s,
                   dropWhile (\<lambda>c. c \<noteq> CHR ''/'' \<and> c \<noteq> CHR ''.'') s)"

definition splitRelaxed :: "string \<Rightarrow> string \<times> string" where
  "splitRelaxed s = (takeWhile (\<lambda>c. c \<noteq> CHR ''/'') s, dropWhile (\<lambda>c. c \<noteq> CHR ''/'') s)"

lemma split_le:
  "splitParam s = (v, r) \<Longrightarrow> length r \<le> length s"
  "splitRelaxed s = (v, r) \<Longrightarrow> length r \<le> length s"
  by (auto simp: splitParam_def splitRelaxed_def length_dropWhile_le)

text \<open>The child to descend into: the one there is, or a fresh one.\<close>

definition or_fresh :: "'r node option \<Rightarrow> 'r node" where
  "or_fresh c = (case c of None \<Rightarrow> empty_node | Some n \<Rightarrow> n)"

fun alist_put :: "'k \<Rightarrow> 'v \<Rightarrow> ('k \<times> 'v) list \<Rightarrow> ('k \<times> 'v) list" where
  "alist_put k v [] = [(k, v)]"
| "alist_put k v ((k', v') # m) = (if k = k' then (k, v) # m else (k', v') # alist_put k v m)"

lemma map_of_alist_put [simp]: "map_of (alist_put k v m) = (map_of m)(k \<mapsto> v)"
  by (induction k v m rule: alist_put.induct) auto

lemma alist_put_not_Nil [simp]: "alist_put k v m \<noteq> []"
  by (induction k v m rule: alist_put.induct) auto

lemma keys_alist_put: "fst ` set (alist_put k v m) = insert k (fst ` set m)"
  by (induction k v m rule: alist_put.induct) auto

lemma distinct_alist_put: "distinct (map fst m) \<Longrightarrow> distinct (map fst (alist_put k v m))"
  by (induction k v m rule: alist_put.induct) (simp_all add: keys_alist_put)

subsection \<open>Insertion\<close>

function addRoute :: "string \<Rightarrow> string \<Rightarrow> 'r \<Rightarrow> string list \<Rightarrow> 'r node \<Rightarrow> trie_error option \<times> 'r node" where
  "addRoute meth [] route used (Node rts ch kl pc pn rc rn sc sn) =
     (case rts of
        None \<Rightarrow> (None, Node (Some [(meth, route)]) ch kl pc pn rc rn sc sn)
      | Some tbl \<Rightarrow>
          (case map_of tbl meth of
             Some _ \<Rightarrow> (Some DuplicateRoute, Node rts ch kl pc pn rc rn sc sn)
           | None \<Rightarrow> (None, Node (Some (alist_put meth route tbl)) ch kl pc pn rc rn sc sn)))"
| "addRoute meth (token # remaining) route used (Node rts ch kl pc pn rc rn sc sn) =
     (if token = CHR '':'' then
        (let (name, rest) = splitParam remaining in
         if name \<in> set used
         then (Some (DuplicatePlaceholder name), Node rts ch kl pc pn rc rn sc sn)
         else if pc \<noteq> None \<and> pn \<noteq> name
         then (Some (InconsistentPlaceholder pn name), Node rts ch kl pc pn rc rn sc sn)
         else (let (e, n) = addRoute meth rest route (used @ [name]) (or_fresh pc)
               in (e, Node rts ch kl (Some n) name rc rn sc sn)))
      else if token = CHR ''#'' then
        (let (name, rest) = splitRelaxed remaining in
         if name \<in> set used
         then (Some (DuplicatePlaceholder name), Node rts ch kl pc pn rc rn sc sn)
         else if rc \<noteq> None \<and> rn \<noteq> name
         then (Some (InconsistentPlaceholder rn name), Node rts ch kl pc pn rc rn sc sn)
         else (let (e, n) = addRoute meth rest route (used @ [name]) (or_fresh rc)
               in (e, Node rts ch kl pc pn (Some n) name sc sn)))
      else if token = CHR ''*'' then
        (let name = remaining in
         if name \<in> set used
         then (Some (DuplicatePlaceholder name), Node rts ch kl pc pn rc rn sc sn)
         else (let (e, n) = addRoute meth [] route used (or_fresh sc)
               in (e, Node rts ch kl pc pn rc rn (Some n) (if sc = None then name else sn))))
      else
        (let cs = (case ch of None \<Rightarrow> [] | Some cs \<Rightarrow> cs);
             kl' = (if ch = None then 1 else kl);
             (e, n) = addRoute meth remaining route used (or_fresh (map_of cs [token]))
         in (e, Node rts (Some (alist_put [token] n cs)) kl' pc pn rc rn sc sn)))"
  by pat_completeness auto
termination
  by (relation "measure (\<lambda>(meth, path, route, used, n). length path)")
     (auto dest: split_le [OF sym] simp: less_Suc_eq_le)

subsection \<open>Search\<close>

text \<open>
  \<open>find\<close> calls \<open>matchFunc\<close> on every node at which the path ends; here it returns the nodes it
  calls it on, each with the parameter stack at that moment, in the order of the calls.
\<close>

type_synonym param_stack = "(string \<times> string) list"

lemma map_of_size:
  "map_of cs k = Some n \<Longrightarrow> size n < Suc (size_list (size_prod (\<lambda>_. 0) size) cs)"
  by (induction cs) (auto split: if_splits)

function trie_find :: "string \<Rightarrow> 'r node \<Rightarrow> param_stack \<Rightarrow> ('r node \<times> param_stack) list" where
  "trie_find path (Node rts ch kl pc pn rc rn sc sn) stack =
     (if rts \<noteq> None \<and> path = [] then [(Node rts ch kl pc pn rc rn sc sn, stack)] else []) @
     (if path = [] then []
      else
        (case sc of None \<Rightarrow> [] | Some n \<Rightarrow> trie_find [] n (stack @ [(sn, path)])) @
        (case pc of None \<Rightarrow> []
         | Some n \<Rightarrow> trie_find (snd (splitParam path)) n (stack @ [(pn, fst (splitParam path))])) @
        (case rc of None \<Rightarrow> []
         | Some n \<Rightarrow> trie_find (snd (splitRelaxed path)) n (stack @ [(rn, fst (splitRelaxed path))])) @
        (if length path < kl then []
         else (case ch of
             None \<Rightarrow> []
           | Some cs \<Rightarrow> (case map_of cs (take kl path) of
                 None \<Rightarrow> []
               | Some n \<Rightarrow> trie_find (drop kl path) n stack))))"
  by pat_completeness auto
termination
  by (relation "measure (\<lambda>(path, n, stack). size n)") (auto dest: map_of_size)

declare trie_find.simps [simp del]

subsection \<open>Compression\<close>

definition can_compress :: "(string \<times> 'r node) list \<Rightarrow> bool" where
  "can_compress cs \<longleftrightarrow> (\<forall>(k, n) \<in> set cs. HttpMethodToRoute n = None \<and> SplatChild n = None \<and>
     ParamChild n = None \<and> RelaxedChild n = None)"

definition node_children :: "'r node \<Rightarrow> (string \<times> 'r node) list" where
  "node_children n = (case Children n of None \<Rightarrow> [] | Some cs \<Rightarrow> cs)"

text \<open>\<open>merged[key + gdKey] = gdNode\<close> for every child and grandchild.\<close>

definition merge_children :: "(string \<times> 'r node) list \<Rightarrow> (string \<times> 'r node) list" where
  "merge_children cs =
     fold (\<lambda>(key, n) m. fold (\<lambda>(gdKey, gdNode) m. alist_put (key @ gdKey) gdNode m) (node_children n) m) cs []"

text \<open>
  \<open>compress\<close>: the placeholder children first; then, if no literal child ends a route or has a
  placeholder child, the grandchildren replace the children and the node is compressed again.
  The recursion on the merged node is not structural, so the function takes fuel.
\<close>

fun compress :: "nat \<Rightarrow> 'r node \<Rightarrow> 'r node option"
  and compress_opt :: "nat \<Rightarrow> 'r node option \<Rightarrow> 'r node option option"
  and compress_all :: "nat \<Rightarrow> (string \<times> 'r node) list \<Rightarrow> (string \<times> 'r node) list option" where
  "compress 0 n = None"
| "compress (Suc f) (Node rts ch kl pc pn rc rn sc sn) =
     (case (compress_opt f sc, compress_opt f pc, compress_opt f rc) of
        (Some sc', Some pc', Some rc') \<Rightarrow>
          (case ch of
             None \<Rightarrow> Some (Node rts ch kl pc' pn rc' rn sc' sn)
           | Some cs \<Rightarrow>
               (if cs = [] then Some (Node rts ch kl pc' pn rc' rn sc' sn)
                else if can_compress cs
                then compress f (Node rts (Some (merge_children cs)) (kl + 1) pc' pn rc' rn sc' sn)
                else map_option (\<lambda>cs'. Node rts (Some cs') kl pc' pn rc' rn sc' sn) (compress_all f cs)))
      | _ \<Rightarrow> None)"
| "compress_opt f None = Some None"
| "compress_opt 0 (Some n) = None"
| "compress_opt (Suc f) (Some n) = map_option Some (compress f n)"
| "compress_all f [] = Some []"
| "compress_all 0 ((k, n) # cs) = None"
| "compress_all (Suc f) ((k, n) # cs) =
     (case compress f n of None \<Rightarrow> None
      | Some n' \<Rightarrow> map_option (\<lambda>cs'. (k, n') # cs') (compress_all f cs))"

subsection \<open>The trie\<close>

record 'r Match =
  Route :: 'r
  Params :: "string \<rightharpoonup> string"

text \<open>\<open>paramsAsMap\<close> panics when a placeholder occurs twice with a non-empty first value.\<close>

fun params_loop :: "(string \<rightharpoonup> string) \<Rightarrow> param_stack \<Rightarrow> (string \<rightharpoonup> string) run" where
  "params_loop r [] = Inr r"
| "params_loop r ((name, value) # ps) =
     (if r name \<noteq> None \<and> r name \<noteq> Some [] then Inl (ExplicitPanic name)
      else params_loop (r(name \<mapsto> value)) ps)"

definition paramsAsMap :: "param_stack \<Rightarrow> (string \<rightharpoonup> string) run" where
  "paramsAsMap ps = params_loop Map.empty ps"

text \<open>The \<open>matchFunc\<close> of \<open>FindRoutes\<close>, over the calls in order.\<close>

fun collect_matches :: "string \<Rightarrow> ('r node \<times> param_stack) list \<Rightarrow> 'r Match list run" where
  "collect_matches meth [] = Inr []"
| "collect_matches meth ((n, stack) # calls) =
     (case (case HttpMethodToRoute n of None \<Rightarrow> None | Some tbl \<Rightarrow> map_of tbl meth) of
        None \<Rightarrow> collect_matches meth calls
      | Some r \<Rightarrow> run_bind (paramsAsMap stack) (\<lambda>ps.
          run_bind (collect_matches meth calls) (\<lambda>ms. Inr (\<lparr>Route = r, Params = ps\<rparr> # ms))))"

definition trie_New :: "'r node" where
  "trie_New = empty_node"

definition AddRoute :: "string \<Rightarrow> string \<Rightarrow> 'r \<Rightarrow> 'r node \<Rightarrow> trie_error option \<times> 'r node" where
  "AddRoute meth pathExp route t = addRoute meth pathExp route [] t"

definition FindRoutes :: "string \<Rightarrow> string \<Rightarrow> 'r node \<Rightarrow> 'r Match list run" where
  "FindRoutes meth path t = collect_matches meth (trie_find path t [])"

definition FindRoutesAndPathMatched :: "string \<Rightarrow> string \<Rightarrow> 'r node \<Rightarrow> ('r Match list \<times> bool) run" where
  "FindRoutesAndPathMatched meth path t =
     (let calls = trie_find path t []
      in run_bind (collect_matches meth calls) (\<lambda>ms. Inr (ms, calls \<noteq> [])))"

text \<open>Every route at every matching node, whatever the method.\<close>

fun collect_all :: "('r node \<times> param_stack) list \<Rightarrow> 'r Match list run" where
  "collect_all [] = Inr []"
| "collect_all ((n, stack) # calls) =
     run_bind (paramsAsMap stack) (\<lambda>ps.
       run_bind (collect_all calls) (\<lambda>ms.
         Inr (map (\<lambda>(m, r). \<lparr>Route = r, Params = ps\<rparr>)
           (case HttpMethodToRoute n of None \<Rightarrow> [] | Some tbl \<Rightarrow> tbl) @ ms)))"

definition FindRoutesForPath :: "string \<Rightarrow> 'r node \<Rightarrow> 'r Match list run" where
  "FindRoutesForPath path t = collect_all (trie_find path t [])"

subsection \<open>Path expressions and what they match\<close>

text \<open>
  The specification.  A path expression is a list of tokens; a path matches it in at most one way,
  because a placeholder takes everything up to its delimiter.  The placeholder names are kept
  apart: they live in the nodes.
\<close>

datatype tok = Lit char | TParam | TRelaxed | TSplat

function tokens :: "string \<Rightarrow> tok list" where
  "tokens [] = []"
| "tokens (c # s) =
     (if c = CHR '':'' then TParam # tokens (snd (splitParam s))
      else if c = CHR ''#'' then TRelaxed # tokens (snd (splitRelaxed s))
      else if c = CHR ''*'' then [TSplat]
      else Lit c # tokens s)"
  by pat_completeness auto
termination
  by (relation "measure length") (auto simp: splitParam_def splitRelaxed_def less_Suc_eq_le length_dropWhile_le)

text \<open>The names a path expression gives its placeholders.\<close>

function token_names :: "string \<Rightarrow> string list" where
  "token_names [] = []"
| "token_names (c # s) =
     (if c = CHR '':'' then fst (splitParam s) # token_names (snd (splitParam s))
      else if c = CHR ''#'' then fst (splitRelaxed s) # token_names (snd (splitRelaxed s))
      else if c = CHR ''*'' then [s]
      else token_names s)"
  by pat_completeness auto
termination
  by (relation "measure length") (auto simp: splitParam_def splitRelaxed_def less_Suc_eq_le length_dropWhile_le)

text \<open>The values a path gives the placeholders of an expression, if it matches.\<close>

fun path_match :: "tok list \<Rightarrow> string \<Rightarrow> string list option" where
  "path_match [] path = (if path = [] then Some [] else None)"
| "path_match (Lit c # ts) path =
     (case path of [] \<Rightarrow> None | x # xs \<Rightarrow> if x = c then path_match ts xs else None)"
| "path_match (TParam # ts) path =
     (if path = [] then None
      else map_option ((#) (fst (splitParam path))) (path_match ts (snd (splitParam path))))"
| "path_match (TRelaxed # ts) path =
     (if path = [] then None
      else map_option ((#) (fst (splitRelaxed path))) (path_match ts (snd (splitRelaxed path))))"
| "path_match (TSplat # ts) path =
     (if path = [] then None else map_option ((#) path) (path_match ts []))"

text \<open>
  The node at a token path of a trie that has not been compressed, with the names of the
  placeholders on the way.
\<close>

fun walk :: "tok list \<Rightarrow> 'r node \<Rightarrow> ('r node \<times> string list) option" where
  "walk [] n = Some (n, [])"
| "walk (Lit c # ts) n =
     (case Children n of None \<Rightarrow> None
      | Some cs \<Rightarrow> (case map_of cs [c] of None \<Rightarrow> None | Some n' \<Rightarrow> walk ts n'))"
| "walk (TParam # ts) n =
     (case ParamChild n of None \<Rightarrow> None
      | Some n' \<Rightarrow> map_option (\<lambda>(m, ns). (m, ParamName n # ns)) (walk ts n'))"
| "walk (TRelaxed # ts) n =
     (case RelaxedChild n of None \<Rightarrow> None
      | Some n' \<Rightarrow> map_option (\<lambda>(m, ns). (m, RelaxedName n # ns)) (walk ts n'))"
| "walk (TSplat # ts) n =
     (case SplatChild n of None \<Rightarrow> None
      | Some n' \<Rightarrow> map_option (\<lambda>(m, ns). (m, SplatName n # ns)) (walk ts n'))"

definition route_at :: "'r node \<Rightarrow> tok list \<Rightarrow> string \<Rightarrow> 'r option" where
  "route_at n ts meth =
     (case walk ts n of None \<Rightarrow> None
      | Some (n', ns) \<Rightarrow> (case HttpMethodToRoute n' of None \<Rightarrow> None | Some tbl \<Rightarrow> map_of tbl meth))"

text \<open>Before compression every literal key is one character long, and no route table is empty.\<close>

fun uncompressed :: "'r node \<Rightarrow> bool" where
  "uncompressed (Node rts ch kl pc pn rc rn sc sn) \<longleftrightarrow> rts \<noteq> Some [] \<and>
     (case ch of None \<Rightarrow> True
      | Some cs \<Rightarrow> kl = 1 \<and> distinct (map fst cs) \<and> (\<forall>(k, n) \<in> set cs. length k = 1 \<and> uncompressed n)) \<and>
     (case pc of None \<Rightarrow> True | Some n \<Rightarrow> uncompressed n) \<and>
     (case rc of None \<Rightarrow> True | Some n \<Rightarrow> uncompressed n) \<and>
     (case sc of None \<Rightarrow> True | Some n \<Rightarrow> uncompressed n)"

lemma uncompressed_empty [simp]: "uncompressed empty_node"
  by (simp add: empty_node_def)

lemma walk_empty_node: "walk ts empty_node = (if ts = [] then Some (empty_node, []) else None)"
  by (cases ts; cases "hd ts") (auto simp: empty_node_def)

lemma route_at_empty_node [simp]: "route_at empty_node ts meth = None"
  by (auto simp: route_at_def walk_empty_node) (simp add: empty_node_def)

lemma route_at_simps:
  "route_at n [] meth = (case HttpMethodToRoute n of None \<Rightarrow> None | Some tbl \<Rightarrow> map_of tbl meth)"
  "route_at n (Lit c # ts) meth = (case Children n of None \<Rightarrow> None
      | Some cs \<Rightarrow> (case map_of cs [c] of None \<Rightarrow> None | Some n' \<Rightarrow> route_at n' ts meth))"
  "route_at n (TParam # ts) meth = (case ParamChild n of None \<Rightarrow> None | Some n' \<Rightarrow> route_at n' ts meth)"
  "route_at n (TRelaxed # ts) meth = (case RelaxedChild n of None \<Rightarrow> None | Some n' \<Rightarrow> route_at n' ts meth)"
  "route_at n (TSplat # ts) meth = (case SplatChild n of None \<Rightarrow> None | Some n' \<Rightarrow> route_at n' ts meth)"
  by (auto simp: route_at_def split: option.splits prod.splits)

lemma route_at_or_fresh:
  "route_at (or_fresh c) ts meth = (case c of None \<Rightarrow> None | Some n \<Rightarrow> route_at n ts meth)"
  by (simp add: or_fresh_def split: option.splits)

subsection \<open>The route table the router relies on\<close>

text \<open>
  The contract between the router and the trie: insertion keyed by token path and method, a final
  \<open>seal\<close> that no search can tell from the table it seals, and a search that finds exactly the
  stored routes whose token path the request path matches and tells whether any method would have
  matched.
\<close>

locale route_table =
  fixes new_table :: "'t"
    and add :: "string \<Rightarrow> string \<Rightarrow> 'r \<Rightarrow> 't \<Rightarrow> trie_error option \<times> 't"
    and seal :: "'t \<Rightarrow> 't option"
    and search :: "string \<Rightarrow> string \<Rightarrow> 't \<Rightarrow> ('r Match list \<times> bool) run"
    and ok :: "'t \<Rightarrow> bool"
    and stored :: "'t \<Rightarrow> tok list \<Rightarrow> string \<Rightarrow> 'r option"
  assumes new_ok: "ok new_table"
    and new_empty: "stored new_table ts m = None"
    and add_ok: "ok t \<Longrightarrow> add meth e r t = (err, t') \<Longrightarrow> ok t'"
    and add_stored: "ok t \<Longrightarrow> add meth e r t = (err, t') \<Longrightarrow>
      stored t' ts m = (if err = None \<and> ts = tokens e \<and> m = meth then Some r else stored t ts m)"
    and add_fresh: "ok t \<Longrightarrow> add meth e r t = (None, t') \<Longrightarrow> stored t (tokens e) meth = None"
    and seal_search: "ok t \<Longrightarrow> \<exists>t'. seal t = Some t' \<and> (\<forall>m p. search m p t' = search m p t)"
    and search_exact: "ok t \<Longrightarrow> \<exists>ms b. search meth path t = Inr (ms, b) \<and>
      Route ` set ms = {r. \<exists>ts. stored t ts meth = Some r \<and> path_match ts path \<noteq> None} \<and>
      (b \<longleftrightarrow> (\<exists>ts m. stored t ts m \<noteq> None \<and> path_match ts path \<noteq> None))"

subsection \<open>What an insertion changes\<close>

text \<open>
  The law of the dictionary: an insertion that succeeds adds its route at its token path and its
  method and nothing else; one that fails changes no route.
\<close>

definition add_spec :: "string \<Rightarrow> tok list \<Rightarrow> 'r \<Rightarrow> 'r node \<Rightarrow> trie_error option \<Rightarrow> 'r node \<Rightarrow> bool" where
  "add_spec meth ts r n e n' \<longleftrightarrow>
     (\<forall>us m. route_at n' us m = (if e = None \<and> us = ts \<and> m = meth then Some r else route_at n us m)) \<and>
     (e = None \<longrightarrow> route_at n ts meth = None) \<and>
     (e = Some DuplicateRoute \<longrightarrow> route_at n ts meth \<noteq> None)"

lemma add_spec_refl: "e \<noteq> None \<Longrightarrow> e \<noteq> Some DuplicateRoute \<Longrightarrow> add_spec meth ts r n e n"
  by (auto simp: add_spec_def)

lemma route_at_cases:
  "route_at n us m = (case us of
       [] \<Rightarrow> (case HttpMethodToRoute n of None \<Rightarrow> None | Some tbl \<Rightarrow> map_of tbl m)
     | t # ts \<Rightarrow> (case t of
           Lit c \<Rightarrow> (case Children n of None \<Rightarrow> None
             | Some cs \<Rightarrow> (case map_of cs [c] of None \<Rightarrow> None | Some n' \<Rightarrow> route_at n' ts m))
         | TParam \<Rightarrow> (case ParamChild n of None \<Rightarrow> None | Some n' \<Rightarrow> route_at n' ts m)
         | TRelaxed \<Rightarrow> (case RelaxedChild n of None \<Rightarrow> None | Some n' \<Rightarrow> route_at n' ts m)
         | TSplat \<Rightarrow> (case SplatChild n of None \<Rightarrow> None | Some n' \<Rightarrow> route_at n' ts m)))"
  by (simp add: route_at_simps split: list.split tok.split)

text \<open>Replacing one child by a node with one more route does the same to the parent.\<close>

lemmas route_at_Node = route_at_cases [where n = "Node rts ch kl pc pn rc rn sc sn" for rts ch kl pc pn rc rn sc sn]

lemma add_spec_param:
  assumes "add_spec meth ts r (or_fresh pc) e n'"
  shows "add_spec meth (TParam # ts) r (Node rts ch kl pc pn rc rn sc sn) e
           (Node rts ch kl (Some n') pn' rc rn sc sn)"
  using assms unfolding add_spec_def route_at_or_fresh
  by (auto simp: route_at_Node split: list.splits tok.splits option.splits)

lemma route_at_other_routes:
  assumes "us \<noteq> []"
  shows "route_at (Node rts ch kl pc pn rc rn sc sn) us m = route_at (Node rts' ch kl pc pn rc rn sc sn) us m"
proof (cases us)
  case (Cons t ts)
  then show ?thesis by (cases t) (simp_all add: route_at_simps)
qed (use assms in simp)

lemma add_spec_leaf:
  assumes "(case rts of None \<Rightarrow> [] | Some tbl \<Rightarrow> tbl) = tbl" "map_of tbl meth = None"
  shows "add_spec meth [] r (Node rts ch kl pc pn rc rn sc sn) None
           (Node (Some (alist_put meth r tbl)) ch kl pc pn rc rn sc sn)"
proof -
  have old: "route_at (Node rts ch kl pc pn rc rn sc sn) [] m = map_of tbl m" for m
    using assms(1) by (cases rts) (simp_all add: route_at_simps)
  have "route_at (Node (Some (alist_put meth r tbl)) ch kl pc pn rc rn sc sn) us m =
      (if us = [] \<and> m = meth then Some r else route_at (Node rts ch kl pc pn rc rn sc sn) us m)" for us m
  proof (cases "us = []")
    case True
    then show ?thesis using old by (simp add: route_at_simps)
  next
    case False
    then show ?thesis
      using route_at_other_routes [OF False, of "Some (alist_put meth r tbl)" ch kl pc pn rc rn sc sn m rts] by simp
  qed
  with old assms(2) show ?thesis by (simp add: add_spec_def)
qed

lemma add_spec_duplicate:
  assumes "route_at n ts meth \<noteq> None"
  shows "add_spec meth ts r n (Some DuplicateRoute) n"
  using assms by (simp add: add_spec_def)

lemma add_spec_relaxed:
  assumes "add_spec meth ts r (or_fresh rc) e n'"
  shows "add_spec meth (TRelaxed # ts) r (Node rts ch kl pc pn rc rn sc sn) e
           (Node rts ch kl pc pn (Some n') rn' sc sn)"
  using assms unfolding add_spec_def route_at_or_fresh
  by (auto simp: route_at_Node split: list.splits tok.splits option.splits)

lemma add_spec_splat:
  assumes "add_spec meth ts r (or_fresh sc) e n'"
  shows "add_spec meth (TSplat # ts) r (Node rts ch kl pc pn rc rn sc sn) e
           (Node rts ch kl pc pn rc rn (Some n') sn')"
  using assms unfolding add_spec_def route_at_or_fresh
  by (auto simp: route_at_Node split: list.splits tok.splits option.splits)

lemma add_spec_literal:
  assumes "add_spec meth ts r (or_fresh (map_of (case ch of None \<Rightarrow> [] | Some cs \<Rightarrow> cs) [c])) e n'"
  shows "add_spec meth (Lit c # ts) r (Node rts ch kl pc pn rc rn sc sn) e
           (Node rts (Some (alist_put [c] n' (case ch of None \<Rightarrow> [] | Some cs \<Rightarrow> cs))) kl' pc pn rc rn sc sn)"
  using assms unfolding add_spec_def route_at_or_fresh
  by (auto simp: route_at_Node split: list.splits tok.splits option.splits if_splits)

lemma uncompressed_or_fresh:
  "uncompressed (or_fresh c) \<longleftrightarrow> (case c of None \<Rightarrow> True | Some n \<Rightarrow> uncompressed n)"
  by (simp add: or_fresh_def split: option.split)

lemma alist_put_entries: "p \<in> set (alist_put k v m) \<Longrightarrow> p = (k, v) \<or> p \<in> set m"
  by (induction k v m rule: alist_put.induct) (auto split: if_splits)

lemma addRoute_correct:
  assumes "uncompressed n" "addRoute meth path r used n = (e, n')"
  shows "uncompressed n' \<and> add_spec meth (tokens path) r n e n'"
  using assms
proof (induction meth path r used n arbitrary: e n' rule: addRoute.induct)
  case (1 meth route used rts ch kl pc pn rc rn sc sn)
  show ?case
  proof (cases rts)
    case None
    with 1 have "n' = Node (Some (alist_put meth route [])) ch kl pc pn rc rn sc sn" "e = None" by simp_all
    moreover have "add_spec meth [] route (Node rts ch kl pc pn rc rn sc sn) None
        (Node (Some (alist_put meth route [])) ch kl pc pn rc rn sc sn)"
      using None by (intro add_spec_leaf) simp_all
    ultimately show ?thesis using 1 by simp
  next
    case (Some tbl)
    show ?thesis
    proof (cases "map_of tbl meth")
      case None
      with 1 Some have "n' = Node (Some (alist_put meth route tbl)) ch kl pc pn rc rn sc sn" "e = None"
        by simp_all
      moreover have "add_spec meth [] route (Node rts ch kl pc pn rc rn sc sn) None
          (Node (Some (alist_put meth route tbl)) ch kl pc pn rc rn sc sn)"
        using None Some by (intro add_spec_leaf) simp_all
      ultimately show ?thesis using 1 by simp
    next
      case (Some old)
      with 1 \<open>rts = Some tbl\<close> show ?thesis
        by (auto intro!: add_spec_duplicate simp: route_at_simps)
    qed
  qed
next
  case (2 meth token remaining route used rts ch kl pc pn rc rn sc sn)
  let ?n = "Node rts ch kl pc pn rc rn sc sn"
  consider "token = CHR '':''" | "token = CHR ''#''" | "token = CHR ''*''"
    | "token \<noteq> CHR '':''" "token \<noteq> CHR ''#''" "token \<noteq> CHR ''*''" by blast
  then show ?case
  proof cases
    case 1
    obtain name rest where sp: "splitParam remaining = (name, rest)" by fastforce
    show ?thesis
    proof (cases "name \<in> set used \<or> pc \<noteq> None \<and> pn \<noteq> name")
      case True
      with 1 sp "2.prems"(2) have "n' = ?n" "e \<noteq> None" "e \<noteq> Some DuplicateRoute"
        by (auto split: if_splits)
      then show ?thesis using "2.prems"(1) add_spec_refl [of e meth _ route ?n] by simp
    next
      case False
      obtain e0 n0 where rec: "addRoute meth rest route (used @ [name]) (or_fresh pc) = (e0, n0)"
        by fastforce
      have "uncompressed n0 \<and> add_spec meth (tokens rest) route (or_fresh pc) e0 n0"
        using False "2.prems"(1) rec
        by (intro "2.IH"(1) [OF 1 sp [symmetric] refl]) (auto simp: uncompressed_or_fresh)
      moreover from False rec 1 sp "2.prems" have "e = e0" "n' = Node rts ch kl (Some n0) name rc rn sc sn"
        by auto
      ultimately show ?thesis using 1 sp "2.prems"(1) by (simp add: add_spec_param)
    qed
  next
    case 2
    obtain name rest where sp: "splitRelaxed remaining = (name, rest)" by fastforce
    show ?thesis
    proof (cases "name \<in> set used \<or> rc \<noteq> None \<and> rn \<noteq> name")
      case True
      with 2 sp "2.prems"(2) have "n' = ?n" "e \<noteq> None" "e \<noteq> Some DuplicateRoute"
        by (auto split: if_splits)
      then show ?thesis using "2.prems"(1) add_spec_refl [of e meth _ route ?n] by simp
    next
      case False
      obtain e0 n0 where rec: "addRoute meth rest route (used @ [name]) (or_fresh rc) = (e0, n0)"
        by fastforce
      have "uncompressed n0 \<and> add_spec meth (tokens rest) route (or_fresh rc) e0 n0"
        using False "2.prems"(1) rec 2
        by (intro "2.IH"(2) [OF _ 2 sp [symmetric] refl]) (auto simp: uncompressed_or_fresh)
      moreover from False rec 2 sp "2.prems" have "e = e0" "n' = Node rts ch kl pc pn (Some n0) name sc sn"
        by auto
      ultimately show ?thesis using 2 sp "2.prems"(1) by (simp add: add_spec_relaxed)
    qed
  next
    case 3
    show ?thesis
    proof (cases "remaining \<in> set used")
      case True
      with 3 "2.prems"(2) have "n' = ?n" "e \<noteq> None" "e \<noteq> Some DuplicateRoute" by auto
      then show ?thesis using "2.prems"(1) add_spec_refl [of e meth _ route ?n] by simp
    next
      case False
      obtain e0 n0 where rec: "addRoute meth [] route used (or_fresh sc) = (e0, n0)" by fastforce
      have "uncompressed n0 \<and> add_spec meth (tokens []) route (or_fresh sc) e0 n0"
        using False "2.prems"(1) rec 3
        by (intro "2.IH"(3) [OF _ _ 3 refl]) (auto simp: uncompressed_or_fresh)
      moreover from False rec 3 "2.prems" have "e = e0"
        "n' = Node rts ch kl pc pn rc rn (Some n0) (if sc = None then remaining else sn)"
        by auto
      ultimately show ?thesis using 3 "2.prems"(1) by (simp add: add_spec_splat)
    qed
  next
    case 4
    let ?cs = "case ch of None \<Rightarrow> [] | Some cs \<Rightarrow> cs"
    obtain e0 n0 where rec: "addRoute meth remaining route used (or_fresh (map_of ?cs [token])) = (e0, n0)"
      by fastforce
    have child: "uncompressed (or_fresh (map_of ?cs [token]))"
      using "2.prems"(1) by (auto simp: uncompressed_or_fresh split: option.splits dest: map_of_SomeD)
    have "uncompressed n0 \<and> add_spec meth (tokens remaining) route (or_fresh (map_of ?cs [token])) e0 n0"
      using child rec 4 by (intro "2.IH"(4) [OF _ _ _ refl refl]) auto
    moreover from rec 4 "2.prems" have "e = e0"
      "n' = Node rts (Some (alist_put [token] n0 ?cs)) (if ch = None then 1 else kl) pc pn rc rn sc sn"
      by (auto simp: Let_def)
    ultimately show ?thesis using 4 "2.prems"(1)
      by (auto simp: add_spec_literal split: option.splits
          intro: distinct_alist_put dest!: alist_put_entries)
  qed
qed

subsection \<open>What a search finds\<close>

text \<open>
  A visit of \<open>find\<close>: the node at the end of a token path that the path matches, if it ends a
  route, and the stack extended with the names on the way and the values the path gives them.
\<close>

definition found :: "string \<Rightarrow> 'r node \<Rightarrow> param_stack \<Rightarrow> 'r node \<times> param_stack \<Rightarrow> bool" where
  "found path n stack x \<longleftrightarrow>
     (\<exists>ts n' names vals. walk ts n = Some (n', names) \<and> path_match ts path = Some vals \<and>
        HttpMethodToRoute n' \<noteq> None \<and> x = (n', stack @ zip names vals))"

lemma foundI:
  "walk ts n = Some (n', names) \<Longrightarrow> path_match ts path = Some vals \<Longrightarrow> HttpMethodToRoute n' \<noteq> None \<Longrightarrow>
   x = (n', stack @ zip names vals) \<Longrightarrow> found path n stack x"
  unfolding found_def by blast

lemma found_here: "HttpMethodToRoute n \<noteq> None \<Longrightarrow> found [] n stack (n, stack)"
  by (rule foundI [where ts = "[]"]) auto

lemma found_param:
  assumes "path \<noteq> []" "pc = Some n" "found (snd (splitParam path)) n (stack @ [(pn, fst (splitParam path))]) x"
  shows "found path (Node rts ch kl pc pn rc rn sc sn) stack x"
proof -
  from assms(3) obtain ts n' names vals where "walk ts n = Some (n', names)"
    "path_match ts (snd (splitParam path)) = Some vals" "HttpMethodToRoute n' \<noteq> None"
    "x = (n', (stack @ [(pn, fst (splitParam path))]) @ zip names vals)"
    unfolding found_def by blast
  with assms show ?thesis by (intro foundI [where ts = "TParam # ts"]) auto
qed

lemma found_relaxed:
  assumes "path \<noteq> []" "rc = Some n" "found (snd (splitRelaxed path)) n (stack @ [(rn, fst (splitRelaxed path))]) x"
  shows "found path (Node rts ch kl pc pn rc rn sc sn) stack x"
proof -
  from assms(3) obtain ts n' names vals where "walk ts n = Some (n', names)"
    "path_match ts (snd (splitRelaxed path)) = Some vals" "HttpMethodToRoute n' \<noteq> None"
    "x = (n', (stack @ [(rn, fst (splitRelaxed path))]) @ zip names vals)"
    unfolding found_def by blast
  with assms show ?thesis by (intro foundI [where ts = "TRelaxed # ts"]) auto
qed

lemma found_splat:
  assumes "path \<noteq> []" "sc = Some n" "found [] n (stack @ [(sn, path)]) x"
  shows "found path (Node rts ch kl pc pn rc rn sc sn) stack x"
proof -
  from assms(3) obtain ts n' names vals where "walk ts n = Some (n', names)"
    "path_match ts [] = Some vals" "HttpMethodToRoute n' \<noteq> None"
    "x = (n', (stack @ [(sn, path)]) @ zip names vals)"
    unfolding found_def by blast
  with assms show ?thesis by (intro foundI [where ts = "TSplat # ts"]) auto
qed

lemma found_literal:
  assumes "path = c # rest" "ch = Some cs" "map_of cs [c] = Some n" "found rest n stack x"
  shows "found path (Node rts ch kl pc pn rc rn sc sn) stack x"
proof -
  from assms(4) obtain ts n' names vals where "walk ts n = Some (n', names)"
    "path_match ts rest = Some vals" "HttpMethodToRoute n' \<noteq> None" "x = (n', stack @ zip names vals)"
    unfolding found_def by blast
  with assms show ?thesis by (intro foundI [where ts = "Lit c # ts"]) auto
qed

lemma found_cases:
  assumes "found path (Node rts ch kl pc pn rc rn sc sn) stack x"
  obtains "path = []" "rts \<noteq> None" "x = (Node rts ch kl pc pn rc rn sc sn, stack)"
  | n where "path \<noteq> []" "pc = Some n"
      "found (snd (splitParam path)) n (stack @ [(pn, fst (splitParam path))]) x"
  | n where "path \<noteq> []" "rc = Some n"
      "found (snd (splitRelaxed path)) n (stack @ [(rn, fst (splitRelaxed path))]) x"
  | n where "path \<noteq> []" "sc = Some n" "found [] n (stack @ [(sn, path)]) x"
  | c rest cs n where "path = c # rest" "ch = Some cs" "map_of cs [c] = Some n" "found rest n stack x"
proof -
  from assms obtain ts n' names vals where w: "walk ts (Node rts ch kl pc pn rc rn sc sn) = Some (n', names)"
    and m: "path_match ts path = Some vals" and h: "HttpMethodToRoute n' \<noteq> None"
    and x: "x = (n', stack @ zip names vals)"
    unfolding found_def by blast
  show thesis
  proof (cases ts)
    case Nil
    with w m h x show thesis by (intro that(1)) (auto split: if_splits)
  next
    case (Cons t us)
    show thesis
    proof (cases t)
      case (Lit c)
      with w m Cons show thesis
        by (auto split: option.splits list.splits if_splits intro!: that(5) foundI [OF _ _ h] simp: x)
    next
      case TParam
      with w m Cons show thesis
        by (auto split: option.splits if_splits intro!: that(2) foundI [OF _ _ h] simp: x)
    next
      case TRelaxed
      with w m Cons show thesis
        by (auto split: option.splits if_splits intro!: that(3) foundI [OF _ _ h] simp: x)
    next
      case TSplat
      with w m Cons show thesis
        by (auto split: option.splits if_splits intro!: that(4) foundI [OF _ _ h] simp: x)
    qed
  qed
qed

lemma trie_find_found:
  assumes "uncompressed n"
  shows "x \<in> set (trie_find path n stack) \<longleftrightarrow> found path n stack x"
  using assms
proof (induction path n stack rule: trie_find.induct)
  case (1 path rts ch kl pc pn rc rn sc sn stack)
  let ?n = "Node rts ch kl pc pn rc rn sc sn"
  have sub: "\<And>n. sc = Some n \<Longrightarrow> uncompressed n" "\<And>n. pc = Some n \<Longrightarrow> uncompressed n"
    "\<And>n. rc = Some n \<Longrightarrow> uncompressed n"
    "\<And>cs k n. ch = Some cs \<Longrightarrow> map_of cs k = Some n \<Longrightarrow> uncompressed n"
    "\<And>cs. ch = Some cs \<Longrightarrow> kl = 1"
    using "1.prems" by (auto dest: map_of_SomeD)
  show ?case
  proof
    assume "x \<in> set (trie_find path ?n stack)"
    then show "found path ?n stack x"
      using "1.IH" sub unfolding trie_find.simps [of path rts]
      by (auto split: if_splits option.splits list.splits simp: found_here neq_Nil_conv
          intro: found_splat found_param found_relaxed found_literal found_literal [OF refl refl sym])
  next
    assume "found path ?n stack x"
    then show "x \<in> set (trie_find path ?n stack)"
    proof (cases rule: found_cases)
      case 1
      then show ?thesis by (auto simp: trie_find.simps [of "[]" rts])
    next
      case (2 n)
      then show ?thesis using "1.IH"(2) [of n] sub by (simp add: trie_find.simps [of path rts])
    next
      case (3 n)
      then show ?thesis using "1.IH"(3) [of n] sub by (simp add: trie_find.simps [of path rts])
    next
      case (4 n)
      then show ?thesis using "1.IH"(1) [of n] sub by (simp add: trie_find.simps [of path rts])
    next
      case (5 c rest cs n)
      then show ?thesis using "1.IH"(4) [of cs n] sub by (simp add: trie_find.simps [of "c # rest" rts])
    qed
  qed
qed


subsection \<open>Placeholder names are unique\<close>

text \<open>On every way down the trie the placeholder names differ from each other and from \<open>used\<close>.\<close>

fun unique_names :: "string set \<Rightarrow> 'r node \<Rightarrow> bool" where
  "unique_names used (Node rts ch kl pc pn rc rn sc sn) \<longleftrightarrow>
     (case ch of None \<Rightarrow> True | Some cs \<Rightarrow> (\<forall>(k, n) \<in> set cs. unique_names used n)) \<and>
     (case pc of None \<Rightarrow> True | Some n \<Rightarrow> pn \<notin> used \<and> unique_names (insert pn used) n) \<and>
     (case rc of None \<Rightarrow> True | Some n \<Rightarrow> rn \<notin> used \<and> unique_names (insert rn used) n) \<and>
     (case sc of None \<Rightarrow> True | Some n \<Rightarrow> sn \<notin> used \<and> unique_names (insert sn used) n)"

lemma unique_names_empty [simp]: "unique_names used empty_node"
  by (simp add: empty_node_def)

lemma unique_names_leaf:
  "unique_names used (Node rts ch kl pc pn rc rn sc sn) \<longleftrightarrow> unique_names used (Node rts' ch kl pc pn rc rn sc sn)"
  by simp

lemma unique_names_or_fresh:
  "unique_names used (or_fresh c) \<longleftrightarrow> (case c of None \<Rightarrow> True | Some n \<Rightarrow> unique_names used n)"
  by (simp add: or_fresh_def split: option.split)

lemma unique_names_end:
  assumes "unique_names U n" "addRoute meth [] r used n = (e, n')"
  shows "unique_names U n'"
  using assms by (cases n) (auto split: option.splits)

lemma addRoute_unique_names:
  assumes "unique_names (set used) n" "addRoute meth path r used n = (e, n')"
  shows "unique_names (set used) n'"
  using assms
proof (induction meth path r used n arbitrary: e n' rule: addRoute.induct)
  case (1 meth route used rts ch kl pc pn rc rn sc sn)
  then show ?case by (auto split: option.splits)
next
  case (2 meth token remaining route used rts ch kl pc pn rc rn sc sn)
  consider "token = CHR '':''" | "token = CHR ''#''" | "token = CHR ''*''"
    | "token \<noteq> CHR '':''" "token \<noteq> CHR ''#''" "token \<noteq> CHR ''*''" by blast
  then show ?case
  proof cases
    case 1
    obtain name rest where sp: "splitParam remaining = (name, rest)" by fastforce
    show ?thesis
    proof (cases "name \<in> set used \<or> pc \<noteq> None \<and> pn \<noteq> name")
      case True
      with 1 sp "2.prems" show ?thesis by (auto split: if_splits)
    next
      case False
      obtain e0 n0 where rec: "addRoute meth rest route (used @ [name]) (or_fresh pc) = (e0, n0)"
        by fastforce
      have "unique_names (set (used @ [name])) (or_fresh pc)"
        using False "2.prems"(1) by (cases pc) (auto simp: unique_names_or_fresh)
      then have "unique_names (set (used @ [name])) n0"
        using False rec by - (rule "2.IH"(1) [OF 1 sp [symmetric] refl], simp_all)
      moreover from False rec 1 sp "2.prems" have "n' = Node rts ch kl (Some n0) name rc rn sc sn" by auto
      ultimately show ?thesis using "2.prems"(1) False by simp
    qed
  next
    case 2
    obtain name rest where sp: "splitRelaxed remaining = (name, rest)" by fastforce
    show ?thesis
    proof (cases "name \<in> set used \<or> rc \<noteq> None \<and> rn \<noteq> name")
      case True
      with 2 sp "2.prems" show ?thesis by (auto split: if_splits)
    next
      case False
      obtain e0 n0 where rec: "addRoute meth rest route (used @ [name]) (or_fresh rc) = (e0, n0)"
        by fastforce
      have "unique_names (set (used @ [name])) (or_fresh rc)"
        using False "2.prems"(1) by (cases rc) (auto simp: unique_names_or_fresh)
      then have "unique_names (set (used @ [name])) n0"
        using False rec 2 by - (rule "2.IH"(2) [OF _ 2 sp [symmetric] refl], simp_all)
      moreover from False rec 2 sp "2.prems" have "n' = Node rts ch kl pc pn (Some n0) name sc sn" by auto
      ultimately show ?thesis using "2.prems"(1) False by simp
    qed
  next
    case 3
    show ?thesis
    proof (cases "remaining \<in> set used")
      case True
      with 3 "2.prems" show ?thesis by auto
    next
      case False
      obtain e0 n0 where rec: "addRoute meth [] route used (or_fresh sc) = (e0, n0)" by fastforce
      from False rec 3 "2.prems" have n': "n' = Node rts ch kl pc pn rc rn (Some n0) (if sc = None then remaining else sn)"
        by auto
      have "unique_names (insert (if sc = None then remaining else sn) (set used)) (or_fresh sc)"
        using "2.prems"(1) by (auto simp: unique_names_or_fresh split: option.splits)
      from unique_names_end [OF this rec] show ?thesis
        using n' "2.prems"(1) False by (auto split: option.splits)
    qed
  next
    case 4
    let ?cs = "case ch of None \<Rightarrow> [] | Some cs \<Rightarrow> cs"
    obtain e0 n0 where rec: "addRoute meth remaining route used (or_fresh (map_of ?cs [token])) = (e0, n0)"
      by fastforce
    have "unique_names (set used) (or_fresh (map_of ?cs [token]))"
      using "2.prems"(1) by (auto simp: unique_names_or_fresh split: option.splits dest: map_of_SomeD)
    then have "unique_names (set used) n0"
      using rec 4 by - (rule "2.IH"(4) [OF _ _ _ refl refl], auto)
    moreover from rec 4 "2.prems" have
      "n' = Node rts (Some (alist_put [token] n0 ?cs)) (if ch = None then 1 else kl) pc pn rc rn sc sn"
      by (auto simp: Let_def)
    ultimately show ?thesis using "2.prems"(1) by (auto split: option.splits dest!: alist_put_entries)
  qed
qed

lemma trie_find_names:
  assumes "unique_names U n" "distinct (map fst stack)" "fst ` set stack = U" "x \<in> set (trie_find path n stack)"
  shows "distinct (map fst (snd x))"
  using assms
proof (induction path n stack arbitrary: U rule: trie_find.induct)
  case (1 path rts ch kl pc pn rc rn sc sn stack)
  have m: "\<And>cs k n. ch = Some cs \<Longrightarrow> map_of cs k = Some n \<Longrightarrow> unique_names U n"
    using "1.prems"(1) by (auto dest: map_of_SomeD)
  from "1.prems"(4) consider "x = (Node rts ch kl pc pn rc rn sc sn, stack)"
    | n where "path \<noteq> []" "sc = Some n" "x \<in> set (trie_find [] n (stack @ [(sn, path)]))"
    | n where "path \<noteq> []" "pc = Some n"
        "x \<in> set (trie_find (snd (splitParam path)) n (stack @ [(pn, fst (splitParam path))]))"
    | n where "path \<noteq> []" "rc = Some n"
        "x \<in> set (trie_find (snd (splitRelaxed path)) n (stack @ [(rn, fst (splitRelaxed path))]))"
    | cs n where "path \<noteq> []" "\<not> length path < kl" "ch = Some cs" "map_of cs (take kl path) = Some n"
        "x \<in> set (trie_find (drop kl path) n stack)"
    unfolding trie_find.simps [of path rts]
    by (auto split: if_splits option.splits dest: sym [of "Some y" "map_of m k" for y m k])
  then show ?case
  proof cases
    case 1
    with "1.prems" show ?thesis by simp
  next
    case (2 n)
    with "1.IH"(1) [OF 2(1,2) _ _ refl] "1.prems" show ?thesis by (auto simp: insert_commute)
  next
    case (3 n)
    with "1.IH"(2) [OF 3(1,2) _ _ refl] "1.prems" show ?thesis by auto
  next
    case (4 n)
    with "1.IH"(3) [OF 4(1,2) _ _ refl] "1.prems" show ?thesis by auto
  next
    case (5 cs n)
    with "1.IH"(4) [OF 5(1,2,3,4)] "1.prems" m show ?thesis by auto
  qed
qed

lemma params_loop_distinct:
  assumes "distinct (map fst stack)" "\<And>k. k \<in> fst ` set stack \<Longrightarrow> r k = None"
  shows "params_loop r stack = Inr (r ++ map_of stack)"
  using assms
proof (induction r stack rule: params_loop.induct)
  case (2 r name v ps)
  then have "params_loop (r(name \<mapsto> v)) ps = Inr (r(name \<mapsto> v) ++ map_of ps)"
    by (intro "2.IH") (auto simp: rev_image_eqI)
  moreover have "r(name \<mapsto> v) ++ map_of ps = r ++ map_of ((name, v) # ps)"
    using 2 by (auto simp: fun_eq_iff map_add_def split: option.splits dest: map_of_SomeD) (force dest: map_of_SomeD)
  moreover have "params_loop r ((name, v) # ps) = params_loop (r(name \<mapsto> v)) ps"
    using 2 by simp
  ultimately show ?case by (simp only:)
qed simp

lemma paramsAsMap_distinct: "distinct (map fst stack) \<Longrightarrow> paramsAsMap stack = Inr (map_of stack)"
  by (simp add: paramsAsMap_def params_loop_distinct)

end
