(* ===== verification/TrieSpec.thy ===== *)
theory TrieSpec
  imports Trie
begin

text \<open>
  Compression of the routing trie (\<open>Compress\<close>, \<open>compress\<close> of \<open>rest/trie/impl.go\<close>) keeps every
  search, and the properties of the trie as a dictionary from path expressions and methods to
  routes.  The fuel of \<open>compress\<close> is the size of the node, which every recursive call lowers.
\<close>

subsection \<open>Compression keeps every search\<close>

text \<open>
  What \<open>compress\<close> meets: the keys of a node have one length, and its literal children either have
  not been touched yet or cannot be merged.
\<close>

fun uniform :: "'r node \<Rightarrow> bool" where
  "uniform (Node rts ch kl pc pn rc rn sc sn) \<longleftrightarrow>
     (case ch of None \<Rightarrow> True
      | Some cs \<Rightarrow> distinct (map fst cs) \<and> (\<forall>(k, n) \<in> set cs. length k = kl) \<and>
          ((\<forall>(k, n) \<in> set cs. uncompressed n) \<or> \<not> can_compress cs) \<and> (\<forall>(k, n) \<in> set cs. uniform n)) \<and>
     (case pc of None \<Rightarrow> True | Some n \<Rightarrow> uniform n) \<and>
     (case rc of None \<Rightarrow> True | Some n \<Rightarrow> uniform n) \<and>
     (case sc of None \<Rightarrow> True | Some n \<Rightarrow> uniform n)"

lemma uncompressed_uniform: "uncompressed n \<Longrightarrow> uniform n"
  by (induction n rule: uncompressed.induct) (auto split: option.splits)

text \<open>\<open>n'\<close> ends routes where \<open>n\<close> does and every search visits the same routes in the same order.\<close>

definition visits :: "string \<Rightarrow> 'r node \<Rightarrow> param_stack \<Rightarrow> ((string \<times> 'r) list option \<times> param_stack) list" where
  "visits path n stack = map (\<lambda>(m, s). (HttpMethodToRoute m, s)) (trie_find path n stack)"

definition same_routes :: "'r node \<Rightarrow> 'r node \<Rightarrow> bool" where
  "same_routes n' n \<longleftrightarrow> HttpMethodToRoute n' = HttpMethodToRoute n \<and>
     (ParamChild n' = None \<longleftrightarrow> ParamChild n = None) \<and> (RelaxedChild n' = None \<longleftrightarrow> RelaxedChild n = None) \<and>
     (SplatChild n' = None \<longleftrightarrow> SplatChild n = None) \<and>
     (\<forall>path stack. visits path n' stack = visits path n stack)"

lemma same_routes_refl [simp]: "same_routes n n"
  by (simp add: same_routes_def)

lemma same_routes_trans: "same_routes a b \<Longrightarrow> same_routes b c \<Longrightarrow> same_routes a c"
  by (simp add: same_routes_def)

definition literal_visits :: "string \<Rightarrow> nat \<Rightarrow> (string \<times> 'r node) list option \<Rightarrow> param_stack \<Rightarrow>
    ((string \<times> 'r) list option \<times> param_stack) list" where
  "literal_visits path kl ch stack =
     (if path = [] \<or> length path < kl then []
      else (case ch of None \<Rightarrow> []
        | Some cs \<Rightarrow> (case map_of cs (take kl path) of None \<Rightarrow> [] | Some n \<Rightarrow> visits (drop kl path) n stack)))"

lemma visits_simps:
  "visits path (Node rts ch kl pc pn rc rn sc sn) stack =
     (if rts \<noteq> None \<and> path = [] then [(rts, stack)] else []) @
     (if path = [] then []
      else
        (case sc of None \<Rightarrow> [] | Some n \<Rightarrow> visits [] n (stack @ [(sn, path)])) @
        (case pc of None \<Rightarrow> []
         | Some n \<Rightarrow> visits (snd (splitParam path)) n (stack @ [(pn, fst (splitParam path))])) @
        (case rc of None \<Rightarrow> []
         | Some n \<Rightarrow> visits (snd (splitRelaxed path)) n (stack @ [(rn, fst (splitRelaxed path))]))) @
     literal_visits path kl ch stack"
  unfolding visits_def literal_visits_def trie_find.simps [of path rts] by (simp split: option.split)

lemma same_routes_Node:
  assumes "rel_option same_routes pc' pc" "rel_option same_routes rc' rc" "rel_option same_routes sc' sc"
    and "\<And>path stack. literal_visits path kl' ch' stack = literal_visits path kl ch stack"
  shows "same_routes (Node rts ch' kl' pc' pn rc' rn sc' sn) (Node rts ch kl pc pn rc rn sc sn)"
proof -
  have h: "(case c' of None \<Rightarrow> [] | Some n \<Rightarrow> visits path n stack) = (case c of None \<Rightarrow> [] | Some n \<Rightarrow> visits path n stack)"
    if "rel_option same_routes c' c" for c' c path stack
    using that by (cases rule: option.rel_cases) (auto simp: same_routes_def)
  have n: "c' = None \<longleftrightarrow> c = None" if "rel_option same_routes c' c" for c' c
    using that by (cases rule: option.rel_cases) auto
  show ?thesis
    using n [OF assms(1)] n [OF assms(2)] n [OF assms(3)]
    by (simp add: same_routes_def visits_simps assms(4) h [OF assms(1)] h [OF assms(2)] h [OF assms(3)])
qed

text \<open>Merging a node's children with its grandchildren.\<close>

lemma merge_one:
  assumes "distinct (map fst gs)"
  shows "map_of (fold (\<lambda>(g, n) m. alist_put (key @ g) n m) gs m) k =
    (if take (length key) k = key then (case map_of gs (drop (length key) k) of None \<Rightarrow> map_of m k | Some n \<Rightarrow> Some n)
     else map_of m k)"
  using assms
proof (induction gs arbitrary: m)
  case Nil
  then show ?case by simp
next
  case (Cons a gs)
  obtain g n where a: "a = (g, n)" by fastforce
  have none: "map_of gs g = None" using Cons.prems a by (auto simp: map_of_eq_None_iff)
  have "k = key @ g \<longleftrightarrow> take (length key) k = key \<and> drop (length key) k = g"
    by (metis append_eq_conv_conj)
  then show ?case using Cons none by (auto simp: a split: option.splits)
qed

lemma merge_children_lookup:
  assumes "distinct (map fst cs)" "\<forall>(k, n) \<in> set cs. length k = kl \<and> distinct (map fst (node_children n))"
  shows "map_of (merge_children cs) k =
    (case map_of cs (take kl k) of None \<Rightarrow> None | Some n \<Rightarrow> map_of (node_children n) (drop kl k))"
proof -
  have "map_of (fold (\<lambda>(key, n) m. fold (\<lambda>(g, x) m. alist_put (key @ g) x m) (node_children n) m) cs m) k =
    (case map_of cs (take kl k) of None \<Rightarrow> map_of m k
     | Some n \<Rightarrow> (case map_of (node_children n) (drop kl k) of None \<Rightarrow> map_of m k | Some x \<Rightarrow> Some x))" for m
    using assms
  proof (induction cs arbitrary: m)
    case Nil
    then show ?case by simp
  next
    case (Cons a cs)
    obtain key n where a: "a = (key, n)" by fastforce
    have l: "length key = kl" and d: "distinct (map fst (node_children n))" using Cons.prems a by auto
    have none: "map_of cs key = None" using Cons.prems a by (auto simp: map_of_eq_None_iff)
    have "map_of (fold (\<lambda>(key, n) m. fold (\<lambda>(g, x) m. alist_put (key @ g) x m) (node_children n) m) (a # cs) m) k =
      (case map_of cs (take kl k) of
         None \<Rightarrow> map_of (fold (\<lambda>(g, x) m. alist_put (key @ g) x m) (node_children n) m) k
       | Some n' \<Rightarrow> (case map_of (node_children n') (drop kl k) of
           None \<Rightarrow> map_of (fold (\<lambda>(g, x) m. alist_put (key @ g) x m) (node_children n) m) k | Some x \<Rightarrow> Some x))"
      using Cons.IH [of "fold (\<lambda>(g, x) m. alist_put (key @ g) x m) (node_children n) m"] Cons.prems a by simp
    then show ?case
      unfolding merge_one [OF d] using l none by (auto simp: a split: option.splits)
  qed
  from this [of "[]"] show ?thesis
    unfolding merge_children_def by (simp add: option.case_eq_if)
qed

lemma merge_children_entries:
  assumes "(k, x) \<in> set (merge_children cs)"
  shows "\<exists>key n g. (key, n) \<in> set cs \<and> (g, x) \<in> set (node_children n) \<and> k = key @ g"
proof -
  have one: "(k, x) \<in> set m \<or> (\<exists>g. (g, x) \<in> set gs \<and> k = key @ g)"
    if "(k, x) \<in> set (fold (\<lambda>(g, n) m. alist_put (key @ g) n m) gs m)" for key gs and m :: "(string \<times> 'a node) list"
    using that by (induction gs arbitrary: m) (fastforce dest: alist_put_entries)+
  have "(k, x) \<in> set m \<or> (\<exists>key n g. (key, n) \<in> set cs \<and> (g, x) \<in> set (node_children n) \<and> k = key @ g)"
    if "(k, x) \<in> set (fold (\<lambda>(key, n) m. fold (\<lambda>(g, x) m. alist_put (key @ g) x m) (node_children n) m) cs m)" for m
    using that by (induction cs arbitrary: m) (fastforce dest: one)+
  from this [of "[]"] assms show ?thesis unfolding merge_children_def by simp
qed

lemma merge_children_distinct: "distinct (map fst (merge_children cs))"
proof -
  have one: "distinct (map fst (fold (\<lambda>(g, n) m. alist_put (key @ g) n m) gs m))"
    if "distinct (map fst m)" for key gs and m :: "(string \<times> 'a node) list"
    using that by (induction gs arbitrary: m) (auto simp: distinct_alist_put)
  have "distinct (map fst (fold (\<lambda>(key, n) m. fold (\<lambda>(g, x) m. alist_put (key @ g) x m) (node_children n) m) cs m))"
    if "distinct (map fst m)" for m
    using that by (induction cs arbitrary: m) (auto simp: one)
  from this [of "[]"] show ?thesis unfolding merge_children_def by simp
qed


lemma visits_childless:
  assumes "HttpMethodToRoute n = None" "ParamChild n = None" "RelaxedChild n = None" "SplatChild n = None"
    and "uncompressed n"
  shows "visits path n stack = literal_visits path 1 (Some (node_children n)) stack"
  using assms by (cases n) (auto simp: visits_simps node_children_def literal_visits_def split: option.splits)

lemma uncompressed_children:
  "uncompressed n \<Longrightarrow> distinct (map fst (node_children n))"
  "uncompressed n \<Longrightarrow> (k, x) \<in> set (node_children n) \<Longrightarrow> length k = 1 \<and> uncompressed x"
  by (cases n; auto simp: node_children_def split: option.splits)+

lemma literal_visits_merge:
  assumes "distinct (map fst cs)" "\<forall>(k, n) \<in> set cs. length k = kl \<and> uncompressed n" "can_compress cs"
  shows "literal_visits path (kl + 1) (Some (merge_children cs)) stack = literal_visits path kl (Some cs) stack"
proof (cases "path = [] \<or> length path < kl")
  case True
  then show ?thesis by (auto simp: literal_visits_def)
next
  case False
  have look: "map_of (merge_children cs) (take (kl + 1) path) =
      (case map_of cs (take kl path) of None \<Rightarrow> None | Some n \<Rightarrow> map_of (node_children n) (take 1 (drop kl path)))"
  proof -
    have d: "\<forall>(k, n) \<in> set cs. length k = kl \<and> distinct (map fst (node_children n))"
      using assms(2) uncompressed_children(1) by blast
    have "drop kl (take (kl + 1) path) = take 1 (drop kl path)" "take kl (take (kl + 1) path) = take kl path"
      by (simp_all add: drop_take min_def)
    with merge_children_lookup [OF assms(1) d, of "take (kl + 1) path"] show ?thesis by (simp only:)
  qed
  show ?thesis
  proof (cases "map_of cs (take kl path)")
    case None
    with look show ?thesis by (simp add: literal_visits_def)
  next
    case (Some n)
    then have n: "(take kl path, n) \<in> set cs" by (rule map_of_SomeD)
    then have "visits (drop kl path) n stack = literal_visits (drop kl path) 1 (Some (node_children n)) stack"
      using assms by (intro visits_childless) (auto simp: can_compress_def)
    with look Some False show ?thesis
      by (auto simp: literal_visits_def le_Suc_eq not_less split: option.splits)
  qed
qed

lemma uniform_merge:
  assumes "uniform (Node rts (Some cs) kl pc pn rc rn sc sn)" "can_compress cs"
  shows "uniform (Node rts (Some (merge_children cs)) (kl + 1) pc pn rc rn sc sn)"
proof -
  have u: "uncompressed n" "length k = kl" if "(k, n) \<in> set cs" for k n
    using assms that by auto
  have "length k = kl + 1 \<and> uncompressed x" if kx: "(k, x) \<in> set (merge_children cs)" for k x
  proof -
    from merge_children_entries [OF kx] obtain key n g where
      "(key, n) \<in> set cs" "(g, x) \<in> set (node_children n)" "k = key @ g" by blast
    with u [of key n] uncompressed_children [of n] show ?thesis by auto
  qed
  with assms show ?thesis by (auto simp: merge_children_distinct intro: uncompressed_uniform)
qed

subsubsection \<open>The size of a node bounds the recursion\<close>

lemma size_alist_put:
  "size_list (size_prod (\<lambda>_. 0) size) (alist_put k (n :: 'r node) m) \<le>
   size_list (size_prod (\<lambda>_. 0) size) m + size n + 2"
  by (induction k n m rule: alist_put.induct) auto

lemma size_merge:
  assumes "cs \<noteq> []"
  shows "size_list (size_prod (\<lambda>_. 0) size) (merge_children (cs :: (string \<times> 'r node) list)) <
    size_list (size_prod (\<lambda>_. 0) size) cs"
proof -
  have one: "size_list (size_prod (\<lambda>_. 0) size) (fold (\<lambda>(g, n) m. alist_put (key @ g) n m) gs m) \<le>
      size_list (size_prod (\<lambda>_. 0) size) gs + size_list (size_prod (\<lambda>_. 0) size) m"
    for key and gs m :: "(string \<times> 'r node) list"
  proof (induction gs arbitrary: m)
    case (Cons a gs)
    then show ?case
      using size_alist_put [of "key @ fst a" "snd a" m] by (cases a) (fastforce intro: order_trans)
  qed simp
  have child: "size_list (size_prod (\<lambda>_. 0) size) (node_children n) \<le> size n" for n :: "'r node"
    by (cases n) (auto simp: node_children_def split: option.splits)
  have "size_list (size_prod (\<lambda>_. 0) size)
      (fold (\<lambda>(key, n) m. fold (\<lambda>(g, x) m. alist_put (key @ g) x m) (node_children n) m) cs m) + length cs \<le>
      size_list (size_prod (\<lambda>_. 0) size) cs + size_list (size_prod (\<lambda>_. 0) size) m"
    for m :: "(string \<times> 'r node) list"
  proof (induction cs arbitrary: m)
    case (Cons a cs)
    obtain key n where a: "a = (key, n)" by fastforce
    show ?case
      using Cons [of "fold (\<lambda>(g, x) m. alist_put (key @ g) x m) (node_children n) m"]
        one [of key "node_children n" m] child [of n] a by simp
  qed simp
  from this [of "[]"] assms show ?thesis
    unfolding merge_children_def by (cases cs) auto
qed


subsubsection \<open>Compression\<close>

definition compress_ok :: "'r node \<Rightarrow> 'r node option \<Rightarrow> bool" where
  "compress_ok n res \<longleftrightarrow> (\<exists>n'. res = Some n' \<and> size n' \<le> size n \<and> (uniform n \<longrightarrow> uniform n' \<and> same_routes n' n))"

definition compress_opt_ok :: "'r node option \<Rightarrow> 'r node option option \<Rightarrow> bool" where
  "compress_opt_ok c res \<longleftrightarrow> (\<exists>c'. res = Some c' \<and> rel_option (\<lambda>_ _. True) c' c \<and> size_option size c' \<le> size_option size c \<and>
     (pred_option uniform c \<longrightarrow> pred_option uniform c' \<and> rel_option same_routes c' c))"

definition compress_all_ok :: "(string \<times> 'r node) list \<Rightarrow> (string \<times> 'r node) list option \<Rightarrow> bool" where
  "compress_all_ok cs res \<longleftrightarrow> (\<exists>cs'. res = Some cs' \<and> map fst cs' = map fst cs \<and>
     size_list (size_prod (\<lambda>_. 0) size) cs' \<le> size_list (size_prod (\<lambda>_. 0) size) cs \<and>
     ((\<forall>(k, n) \<in> set cs. uniform n) \<longrightarrow>
        (\<forall>(k, n) \<in> set cs'. uniform n) \<and>
        list_all2 (\<lambda>(k', n') (k, n). k' = k \<and> same_routes n' n) cs' cs))"

lemma list_all2_map_of:
  assumes "list_all2 (\<lambda>(k', n') (k, n). k' = k \<and> R n' n) cs' cs"
  shows "rel_option R (map_of cs' k) (map_of cs k)"
  using assms by (induction rule: list_all2_induct) auto

lemma same_routes_can_compress:
  assumes "list_all2 (\<lambda>(k', n') (k, n). k' = k \<and> same_routes n' n) cs' cs"
  shows "can_compress cs' = can_compress cs"
proof -
  have "can_compress ((k, n') # cs') = can_compress ((k, n) # cs)"
    if "same_routes n' n" "can_compress cs' = can_compress cs" for k n n' and cs cs' :: "(string \<times> 'a node) list"
    using that by (simp add: can_compress_def same_routes_def)
  with assms show ?thesis by (induction rule: list_all2_induct) (simp, clarify, blast)
qed

lemma literal_visits_all:
  assumes "list_all2 (\<lambda>(k', n') (k, n). k' = k \<and> same_routes n' n) cs' cs"
  shows "literal_visits path kl (Some cs') stack = literal_visits path kl (Some cs) stack"
  using list_all2_map_of [OF assms, of "take kl path"]
  by (cases rule: option.rel_cases) (auto simp: literal_visits_def same_routes_def)

lemma pred_option_case: "pred_option P c \<longleftrightarrow> (case c of None \<Rightarrow> True | Some n \<Rightarrow> P n)"
  by (cases c) auto

lemma compress_okI:
  "size n' \<le> size n \<Longrightarrow> (uniform n \<Longrightarrow> uniform n' \<and> same_routes n' n) \<Longrightarrow> compress_ok n (Some n')"
  unfolding compress_ok_def by blast

lemma compress_ok_trans:
  assumes "compress_ok m res" "size m < size n" "uniform n \<Longrightarrow> uniform m \<and> same_routes m n"
  shows "compress_ok n res"
proof -
  from assms(1) obtain n' where "res = Some n'" "size n' \<le> size m" "uniform m \<longrightarrow> uniform n' \<and> same_routes n' m"
    unfolding compress_ok_def by blast
  with assms(2,3) same_routes_trans [of n' m n] show ?thesis
    unfolding compress_ok_def by (intro exI [of _ n'] conjI impI) (simp_all only: le_trans less_imp_le)
qed

lemma compress_correct:
  "size (n :: 'r node) < f \<Longrightarrow> compress_ok n (compress f n)"
  "size_option size (c :: 'r node option) < f \<Longrightarrow> compress_opt_ok c (compress_opt f c)"
  "size_list (size_prod (\<lambda>_. 0) size) (cs :: (string \<times> 'r node) list) < f \<Longrightarrow> compress_all_ok cs (compress_all f cs)"
proof (induction f n and f c and f cs rule: compress_compress_opt_compress_all.induct)
  case (1 n)
  then show ?case by simp
next
  case (2 f rts ch kl pc pn rc rn sc sn)
  let ?n = "Node rts ch kl pc pn rc rn sc sn"
  have "compress_opt_ok sc (compress_opt f sc)" "compress_opt_ok pc (compress_opt f pc)"
    "compress_opt_ok rc (compress_opt f rc)"
    using 2 by simp_all
  then obtain sc' pc' rc' where
    c: "compress_opt f sc = Some sc'" "compress_opt f pc = Some pc'" "compress_opt f rc = Some rc'"
    and sz: "size_option size sc' \<le> size_option size sc" "size_option size pc' \<le> size_option size pc"
      "size_option size rc' \<le> size_option size rc"
    and u: "pred_option uniform sc \<Longrightarrow> pred_option uniform sc' \<and> rel_option same_routes sc' sc"
      "pred_option uniform pc \<Longrightarrow> pred_option uniform pc' \<and> rel_option same_routes pc' pc"
      "pred_option uniform rc \<Longrightarrow> pred_option uniform rc' \<and> rel_option same_routes rc' rc"
    unfolding compress_opt_ok_def by blast
  have up: "pred_option uniform sc" "pred_option uniform pc" "pred_option uniform rc" if "uniform ?n"
    using that by (simp_all add: pred_option_case)
  have rel: "rel_option same_routes pc' pc" "rel_option same_routes rc' rc" "rel_option same_routes sc' sc"
    if "uniform ?n"
    using u up [OF that] by blast+
  show ?case
  proof (cases "ch = None \<or> ch = Some []")
    case True
    then have "compress (Suc f) ?n = Some (Node rts ch kl pc' pn rc' rn sc' sn)" using c by auto
    moreover have "uniform (Node rts ch kl pc' pn rc' rn sc' sn) \<and> same_routes (Node rts ch kl pc' pn rc' rn sc' sn) ?n"
      if "uniform ?n"
      using u up [OF that] that by (auto intro!: same_routes_Node simp: pred_option_case)
    ultimately show ?thesis using sz by (simp add: compress_ok_def)
  next
    case False
    then obtain cs where cs: "ch = Some cs" "cs \<noteq> []" by auto
    show ?thesis
    proof (cases "can_compress cs")
      case True
      let ?m = "Node rts (Some (merge_children cs)) (kl + 1) pc' pn rc' rn sc' sn"
      have e: "compress (Suc f) ?n = compress f ?m" using c cs True by simp
      have "size ?m < size ?n" using sz size_merge [OF cs(2)] cs(1) by simp
      then have ok: "compress_ok ?m (compress f ?m)" using 2 c cs True by simp
      have same: "uniform ?m \<and> same_routes ?m ?n" if un: "uniform ?n"
      proof
        have "uniform (Node rts (Some cs) kl pc' pn rc' rn sc' sn)"
          using un u up cs by (simp add: pred_option_case)
        then show "uniform ?m" using True by (rule uniform_merge)
        have keys: "distinct (map fst cs)" "\<forall>(k, n) \<in> set cs. length k = kl \<and> uncompressed n"
          using un cs True by auto
        show "same_routes ?m ?n"
          unfolding cs(1) by (rule same_routes_Node [OF rel [OF un] literal_visits_merge [OF keys True]])
      qed
      show ?thesis unfolding e using ok \<open>size ?m < size ?n\<close> same by (rule compress_ok_trans)
    next
      case False
      have "compress_all_ok cs (compress_all f cs)" using 2 c cs False by simp
      then obtain cs' where cs': "compress_all f cs = Some cs'" "map fst cs' = map fst cs"
        "size_list (size_prod (\<lambda>_. 0) size) cs' \<le> size_list (size_prod (\<lambda>_. 0) size) cs"
        and ucs: "(\<forall>(k, n) \<in> set cs. uniform n) \<Longrightarrow> (\<forall>(k, n) \<in> set cs'. uniform n) \<and>
          list_all2 (\<lambda>(k', n') (k, n). k' = k \<and> same_routes n' n) cs' cs"
        unfolding compress_all_ok_def by blast
      let ?m = "Node rts (Some cs') kl pc' pn rc' rn sc' sn"
      have e: "compress (Suc f) ?n = Some ?m" using c cs False cs' by simp
      have same: "uniform ?m \<and> same_routes ?m ?n" if un: "uniform ?n"
      proof -
        have all: "\<forall>(k, n) \<in> set cs'. uniform n"
          "list_all2 (\<lambda>(k', n') (k, n). k' = k \<and> same_routes n' n) cs' cs"
          using ucs un cs by auto
        have len: "\<forall>(k, n) \<in> set cs'. length k = kl"
        proof clarify
          fix k n assume "(k, n) \<in> set cs'"
          then have "k \<in> set (map fst cs)" unfolding cs'(2) [symmetric] by force
          with un cs show "length k = kl" by auto
        qed
        have "\<not> can_compress cs'" using same_routes_can_compress [OF all(2)] False by simp
        then have "uniform ?m" using un u up all len cs cs' by (simp add: pred_option_case)
        moreover have "same_routes ?m ?n"
          unfolding cs(1) by (rule same_routes_Node [OF rel [OF un] literal_visits_all [OF all(2)]])
        ultimately show ?thesis ..
      qed
      have "size ?m \<le> size ?n" using cs' sz cs by simp
      then show ?thesis unfolding e using same by (rule compress_okI)
    qed
  qed
next
  case (3 f)
  then show ?case by (simp add: compress_opt_ok_def)
next
  case (4 n)
  then show ?case by simp
next
  case (5 f n)
  then have "compress_ok n (compress f n)" by simp
  then show ?case by (auto simp: compress_ok_def compress_opt_ok_def)
next
  case (6 f)
  then show ?case by (simp add: compress_all_ok_def)
next
  case (7 k n cs)
  then show ?case by simp
next
  case (8 f k n cs)
  then have "compress_ok n (compress f n)" by simp
  then obtain n' where n': "compress f n = Some n'" "size n' \<le> size n" "uniform n \<Longrightarrow> uniform n' \<and> same_routes n' n"
    unfolding compress_ok_def by blast
  with 8 have "compress_all_ok cs (compress_all f cs)" by simp
  with n' show ?case by (auto simp: compress_all_ok_def)
qed


subsection \<open>The properties of the trie\<close>

definition Compress :: "'r node \<Rightarrow> 'r node option" where
  "Compress t = compress (Suc (size t)) t"

text \<open>What holds of every trie built by \<open>AddRoute\<close> and not compressed yet.\<close>

definition trie_ok :: "'r node \<Rightarrow> bool" where
  "trie_ok t \<longleftrightarrow> uncompressed t \<and> unique_names {} t"

lemma trie_ok_New [simp]: "trie_ok trie_New"
  by (simp add: trie_ok_def trie_New_def)

lemma AddRoute_law:
  assumes "trie_ok t" "AddRoute meth pathExp r t = (e, t')"
  shows "trie_ok t'" "add_spec meth (tokens pathExp) r t e t'"
proof -
  from assms have a: "addRoute meth pathExp r [] t = (e, t')" "uncompressed t" "unique_names (set []) t"
    by (simp_all add: trie_ok_def AddRoute_def)
  from addRoute_correct [OF a(2,1)] addRoute_unique_names [OF a(3,1)]
  show "trie_ok t'" "add_spec meth (tokens pathExp) r t e t'" by (simp_all add: trie_ok_def)
qed

lemma same_visits:
  assumes "map (\<lambda>(m, s). (HttpMethodToRoute m, s)) calls = map (\<lambda>(m, s). (HttpMethodToRoute m, s)) calls'"
  shows "list_all2 (\<lambda>x y. HttpMethodToRoute (fst x) = HttpMethodToRoute (fst y) \<and> snd x = snd y) calls calls'"
proof -
  have "list_all2 (\<lambda>x y. (case x of (m, s) \<Rightarrow> (HttpMethodToRoute m, s)) = (case y of (m, s) \<Rightarrow> (HttpMethodToRoute m, s)))
      calls calls'"
    using assms by (simp add: list_all2_conv_all_nth list_eq_iff_nth_eq)
  then show ?thesis by (rule list_all2_mono) (simp split: prod.splits)
qed

lemma collect_matches_visits:
  assumes "map (\<lambda>(m, s). (HttpMethodToRoute m, s)) calls = map (\<lambda>(m, s). (HttpMethodToRoute m, s)) calls'"
  shows "collect_matches meth calls = collect_matches meth calls'"
  using same_visits [OF assms]
  by (induction rule: list_all2_induct) (simp, clarsimp cong: option.case_cong)

lemma collect_all_visits:
  assumes "map (\<lambda>(m, s). (HttpMethodToRoute m, s)) calls = map (\<lambda>(m, s). (HttpMethodToRoute m, s)) calls'"
  shows "collect_all calls = collect_all calls'"
  using same_visits [OF assms] by (induction rule: list_all2_induct) (simp, clarsimp)

lemma collect_matches_distinct:
  assumes "\<And>x. x \<in> set calls \<Longrightarrow> distinct (map fst (snd x))"
  shows "\<exists>ms. collect_matches meth calls = Inr ms \<and>
    (\<forall>m. m \<in> set ms \<longleftrightarrow> (\<exists>(n, stack) \<in> set calls. \<exists>tbl. HttpMethodToRoute n = Some tbl \<and>
       map_of tbl meth = Some (Route m) \<and> Params m = map_of stack))"
  using assms
proof (induction calls)
  case (Cons c calls)
  obtain n stack where c: "c = (n, stack)" by fastforce
  from Cons obtain ms where ms: "collect_matches meth calls = Inr ms"
    "\<And>m. m \<in> set ms \<longleftrightarrow> (\<exists>(n, stack) \<in> set calls. \<exists>tbl. HttpMethodToRoute n = Some tbl \<and>
       map_of tbl meth = Some (Route m) \<and> Params m = map_of stack)" by (meson list.set_intros(2))
  show ?case
  proof (cases "case HttpMethodToRoute n of None \<Rightarrow> None | Some tbl \<Rightarrow> map_of tbl meth")
    case None
    with ms c show ?thesis by (auto split: option.splits)
  next
    case (Some r)
    have "paramsAsMap stack = Inr (map_of stack)" using Cons.prems c by (intro paramsAsMap_distinct) force
    moreover have "m = \<lparr>Route = r, Params = ps\<rparr> \<longleftrightarrow> Route m = r \<and> Params m = ps" for m :: "'a Match" and ps
      by (cases m) auto
    ultimately show ?thesis using ms Some c by (auto split: option.splits)
  qed
qed simp

text \<open>
  \<open>AddRoute\<close> is a dictionary insertion keyed by the token path of the expression and
  the HTTP method.  On a trie built by \<open>AddRoute\<close> it either succeeds, and then the key was free and
  the route at it is the only one that changes, or it fails and every route stays what it was; the
  error for a duplicate is given only when the key is taken.
\<close>

theorem AddRoute_dictionary:
  assumes "trie_ok t" "AddRoute meth pathExp r t = (e, t')"
  shows "trie_ok t' \<and>
    (\<forall>ts m. route_at t' ts m = (if e = None \<and> ts = tokens pathExp \<and> m = meth then Some r else route_at t ts m)) \<and>
    (e = None \<longrightarrow> route_at t (tokens pathExp) meth = None) \<and>
    (e = Some DuplicateRoute \<longrightarrow> route_at t (tokens pathExp) meth \<noteq> None)"
  using AddRoute_law [OF assms] unfolding add_spec_def by blast

theorem AddRoute_dictionary_witness:
  "route_at (snd (AddRoute ''GET'' ''/:id'' (7 :: nat) trie_New)) [Lit (CHR ''/''), TParam] ''GET'' = Some 7"
proof -
  obtain e t' where a: "AddRoute ''GET'' ''/:id'' (7 :: nat) trie_New = (e, t')" by fastforce
  moreover have "e = None"
    using a by (auto simp: AddRoute_def trie_New_def empty_node_def or_fresh_def splitParam_def)
  ultimately show ?thesis
    using AddRoute_dictionary [OF trie_ok_New a] by (simp add: splitParam_def)
qed

lemma matches_law:
  assumes "trie_ok t"
  shows "\<exists>ms. FindRoutes meth path t = Inr ms \<and>
    (\<forall>m. m \<in> set ms \<longleftrightarrow>
       (\<exists>ts n names vals. walk ts t = Some (n, names) \<and> path_match ts path = Some vals \<and>
          route_at t ts meth = Some (Route m) \<and> Params m = map_of (zip names vals)))"
proof -
  have d: "distinct (map fst (snd x))" if "x \<in> set (trie_find path t [])" for x
    using trie_find_names [of "{}" t "[]"] assms that by (simp add: trie_ok_def)
  from collect_matches_distinct [OF d] obtain ms where ms: "FindRoutes meth path t = Inr ms"
    "\<And>m. m \<in> set ms \<longleftrightarrow> (\<exists>(n, stack) \<in> set (trie_find path t []). \<exists>tbl. HttpMethodToRoute n = Some tbl \<and>
       map_of tbl meth = Some (Route m) \<and> Params m = map_of stack)"
    unfolding FindRoutes_def by blast
  have f: "x \<in> set (trie_find path t []) \<longleftrightarrow> found path t [] x" for x
    using assms by (simp add: trie_find_found trie_ok_def)
  show ?thesis
    by (rule exI [of _ ms]) (fastforce simp: ms f found_def route_at_def split: option.splits)
qed

text \<open>
  Property C32.  \<open>FindRoutes\<close> never panics on a trie built by \<open>AddRoute\<close>, and returns exactly the
  routes whose expression matches the path: a match for every token path that the request path
  matches and that carries a route for the method, with each placeholder bound to the part of the
  path it stands for, and nothing else.
\<close>

theorem FindRoutes_exact:
  assumes "trie_ok t"
  shows "\<exists>ms. FindRoutes meth path t = Inr ms \<and>
    (\<forall>m. m \<in> set ms \<longleftrightarrow>
       (\<exists>ts n names vals. walk ts t = Some (n, names) \<and> path_match ts path = Some vals \<and>
          route_at t ts meth = Some (Route m) \<and> Params m = map_of (zip names vals)))"
  by (rule matches_law [OF assms])

theorem FindRoutes_exact_witness:
  "\<exists>ms. FindRoutes ''GET'' ''/7'' (snd (AddRoute ''GET'' ''/:id'' (7 :: nat) trie_New)) = Inr ms \<and>
     \<lparr>Route = 7, Params = [''id'' \<mapsto> ''7'']\<rparr> \<in> set ms"
proof -
  let ?t = "snd (AddRoute ''GET'' ''/:id'' (7 :: nat) trie_New)"
  have "trie_ok ?t" by (rule AddRoute_law(1) [OF trie_ok_New prod.collapse [symmetric]])
  moreover have "walk [Lit (CHR ''/''), TParam] ?t = Some (Node (Some [(''GET'', 7)]) None 0 None [] None [] None [], [''id''])"
    by (simp add: AddRoute_def trie_New_def empty_node_def or_fresh_def splitParam_def)
  moreover have "path_match [Lit (CHR ''/''), TParam] ''/7'' = Some [''7'']"
    by (simp add: splitParam_def)
  ultimately show ?thesis
    using FindRoutes_exact [of ?t "''GET''" "''/7''"] by (fastforce simp: route_at_def)
qed

lemma compress_law:
  assumes "trie_ok t"
  shows "\<exists>t'. Compress t = Some t' \<and>
    (\<forall>meth path. FindRoutes meth path t' = FindRoutes meth path t \<and>
       FindRoutesAndPathMatched meth path t' = FindRoutesAndPathMatched meth path t \<and>
       FindRoutesForPath path t' = FindRoutesForPath path t)"
proof -
  have "uniform t" using assms by (simp add: trie_ok_def uncompressed_uniform)
  with compress_correct(1) [of t "Suc (size t)"] obtain t' where
    t': "Compress t = Some t'" and "same_routes t' t"
    unfolding compress_ok_def Compress_def by auto
  then have v: "map (\<lambda>(m, s). (HttpMethodToRoute m, s)) (trie_find path t' []) =
      map (\<lambda>(m, s). (HttpMethodToRoute m, s)) (trie_find path t [])" for path
    by (simp add: same_routes_def visits_def)
  then have "trie_find path t' [] = [] \<longleftrightarrow> trie_find path t [] = []" for path
    by (metis map_is_Nil_conv)
  with t' show ?thesis
    by (simp add: FindRoutes_def FindRoutesAndPathMatched_def FindRoutesForPath_def Let_def
        collect_matches_visits [OF v] collect_all_visits [OF v])
qed

text \<open>
  Property C33.  \<open>Compress\<close> terminates on every trie built by \<open>AddRoute\<close>, and is invisible: every
  search for every method and path returns the same matches in the same order, and the same
  answer to whether the path was matched at all.
\<close>

theorem Compress_invisible:
  assumes "trie_ok t"
  shows "\<exists>t'. Compress t = Some t' \<and>
    (\<forall>meth path. FindRoutes meth path t' = FindRoutes meth path t \<and>
       FindRoutesAndPathMatched meth path t' = FindRoutesAndPathMatched meth path t \<and>
       FindRoutesForPath path t' = FindRoutesForPath path t)"
  by (rule compress_law [OF assms])

theorem Compress_invisible_witness:
  "\<exists>t'. Compress (snd (AddRoute ''GET'' ''/ab'' (7 :: nat) trie_New)) = Some t' \<and>
     FindRoutes ''GET'' ''/ab'' t' = FindRoutes ''GET'' ''/ab'' (snd (AddRoute ''GET'' ''/ab'' (7 :: nat) trie_New))"
proof -
  have "trie_ok (snd (AddRoute ''GET'' ''/ab'' (7 :: nat) trie_New))"
    by (rule AddRoute_law(1) [OF trie_ok_New prod.collapse [symmetric]])
  from Compress_invisible [OF this] show ?thesis by blast
qed


subsection \<open>The trie is a route table\<close>

lemma walk_uncompressed: "uncompressed n \<Longrightarrow> walk ts n = Some (n', names) \<Longrightarrow> uncompressed n'"
proof (induction ts n arbitrary: names rule: walk.induct)
  case (2 c ts n)
  then show ?case by (cases n) (fastforce split: option.splits dest: map_of_SomeD)
next
  case (3 ts n)
  then show ?case by (cases n) (auto split: option.splits)
next
  case (4 ts n)
  then show ?case by (cases n) (auto split: option.splits)
next
  case (5 ts n)
  then show ?case by (cases n) (auto split: option.splits)
qed simp

lemma uncompressed_table: "uncompressed n \<Longrightarrow> HttpMethodToRoute n \<noteq> Some []"
  by (cases n) simp

lemma table_has_method:
  "uncompressed n \<Longrightarrow> HttpMethodToRoute n = Some tbl \<Longrightarrow> \<exists>m. map_of tbl m \<noteq> None"
  using uncompressed_table [of n] by (cases tbl) auto

lemma path_matched_iff:
  assumes "trie_ok t"
  shows "trie_find path t [] \<noteq> [] \<longleftrightarrow> (\<exists>ts m. route_at t ts m \<noteq> None \<and> path_match ts path \<noteq> None)"
proof -
  have u: "uncompressed t" using assms by (simp add: trie_ok_def)
  have "trie_find path t [] \<noteq> [] \<longleftrightarrow> (\<exists>x. found path t [] x)"
    unfolding trie_find_found [OF u, symmetric] by (cases "trie_find path t []") (auto intro: exI)
  also have "\<dots> \<longleftrightarrow> (\<exists>ts m. route_at t ts m \<noteq> None \<and> path_match ts path \<noteq> None)"
  proof
    assume "\<exists>x. found path t [] x"
    then obtain ts n names vals where w: "walk ts t = Some (n, names)" "path_match ts path = Some vals"
      "HttpMethodToRoute n \<noteq> None" unfolding found_def by blast
    then obtain tbl where tbl: "HttpMethodToRoute n = Some tbl" by blast
    from table_has_method [OF walk_uncompressed [OF u w(1)] tbl] obtain m where "map_of tbl m \<noteq> None" ..
    with w tbl have "route_at t ts m \<noteq> None" by (simp add: route_at_def)
    with w show "\<exists>ts m. route_at t ts m \<noteq> None \<and> path_match ts path \<noteq> None" by blast
  next
    assume "\<exists>ts m. route_at t ts m \<noteq> None \<and> path_match ts path \<noteq> None"
    then show "\<exists>x. found path t [] x"
      by (fastforce simp: route_at_def found_def split: option.splits)
  qed
  finally show ?thesis .
qed

lemma search_law:
  assumes "trie_ok t"
  shows "\<exists>ms b. FindRoutesAndPathMatched meth path t = Inr (ms, b) \<and>
    Route ` set ms = {r. \<exists>ts. route_at t ts meth = Some r \<and> path_match ts path \<noteq> None} \<and>
    (b \<longleftrightarrow> (\<exists>ts m. route_at t ts m \<noteq> None \<and> path_match ts path \<noteq> None))"
proof -
  from matches_law [OF assms] obtain ms where ms: "collect_matches meth (trie_find path t []) = Inr ms"
    "\<And>m. m \<in> set ms \<longleftrightarrow> (\<exists>ts n names vals. walk ts t = Some (n, names) \<and> path_match ts path = Some vals \<and>
          route_at t ts meth = Some (Route m) \<and> Params m = map_of (zip names vals))"
    unfolding FindRoutes_def by blast
  have "Route ` set ms = {r. \<exists>ts. route_at t ts meth = Some r \<and> path_match ts path \<noteq> None}"
  proof (intro equalityI subsetI)
    fix r assume "r \<in> Route ` set ms"
    then show "r \<in> {r. \<exists>ts. route_at t ts meth = Some r \<and> path_match ts path \<noteq> None}"
      using ms(2) by force
  next
    fix r assume "r \<in> {r. \<exists>ts. route_at t ts meth = Some r \<and> path_match ts path \<noteq> None}"
    then obtain ts where ts: "route_at t ts meth = Some r" "path_match ts path \<noteq> None" by blast
    then obtain n names vals where "walk ts t = Some (n, names)" "path_match ts path = Some vals"
      "route_at t ts meth = Some r" unfolding route_at_def by (cases "walk ts t") auto
    then have "\<lparr>Route = r, Params = map_of (zip names vals)\<rparr> \<in> set ms" using ms(2) by auto
    then show "r \<in> Route ` set ms" by force
  qed
  with ms(1) path_matched_iff [OF assms] show ?thesis
    by (simp add: FindRoutesAndPathMatched_def Let_def)
qed

interpretation trie: route_table trie_New AddRoute Compress FindRoutesAndPathMatched trie_ok route_at
proof unfold_locales
  show "trie_ok trie_New" by simp
  show "route_at trie_New ts m = None" for ts m by (simp add: trie_New_def)
  show "trie_ok t'" if "trie_ok t" "AddRoute meth e r t = (err, t')" for t t' :: "'r node" and meth e r err
    using AddRoute_law [OF that] by simp
  show "route_at t' ts m = (if err = None \<and> ts = tokens e \<and> m = meth then Some r else route_at t ts m)"
    if "trie_ok t" "AddRoute meth e r t = (err, t')" for t t' :: "'r node" and meth e r err ts m
    using AddRoute_law(2) [OF that] unfolding add_spec_def by blast
  show "route_at t (tokens e) meth = None"
    if "trie_ok t" "AddRoute meth e r t = (None, t')" for t t' :: "'r node" and meth e r
    using AddRoute_law(2) [OF that] unfolding add_spec_def by blast
  show "\<exists>t'. Compress t = Some t' \<and> (\<forall>m p. FindRoutesAndPathMatched m p t' = FindRoutesAndPathMatched m p t)"
    if "trie_ok t" for t :: "'r node"
    using compress_law [OF that] by blast
qed (rule search_law)

end
