(* ===== verification/Router.thy ===== *)
theory Router
  imports GoUrl TrieSpec
begin

text \<open>
  The router of go-json-rest (\<open>rest/router.go\<close>, \<open>rest/route.go\<close>): it escapes the path expressions,
  fills a route table with them once, and for each request picks, among the routes that match, the
  one defined first.  A \<open>*Route\<close> is the position of the route in the router's list.
\<close>

subsection \<open>Routes\<close>

record 'h RouteDef =
  HttpMethod :: string
  PathExp :: string
  Func :: 'h

definition Get :: "string \<Rightarrow> 'h \<Rightarrow> 'h RouteDef" where
  "Get pathExp handlerFunc = \<lparr>HttpMethod = ''GET'', PathExp = pathExp, Func = handlerFunc\<rparr>"

definition Post :: "string \<Rightarrow> 'h \<Rightarrow> 'h RouteDef" where
  "Post pathExp handlerFunc = \<lparr>HttpMethod = ''POST'', PathExp = pathExp, Func = handlerFunc\<rparr>"

definition Put :: "string \<Rightarrow> 'h \<Rightarrow> 'h RouteDef" where
  "Put pathExp handlerFunc = \<lparr>HttpMethod = ''PUT'', PathExp = pathExp, Func = handlerFunc\<rparr>"

definition Delete :: "string \<Rightarrow> 'h \<Rightarrow> 'h RouteDef" where
  "Delete pathExp handlerFunc = \<lparr>HttpMethod = ''DELETE'', PathExp = pathExp, Func = handlerFunc\<rparr>"

text \<open>\<open>MakePath\<close>: the parameters in the order the map iteration yields them.\<close>

definition MakePath :: "'h RouteDef \<Rightarrow> (string \<times> string) list \<Rightarrow> string" where
  "MakePath route pathParams =
     fold (\<lambda>(name, value) path.
         replace_pairs [(CHR '':'' # name, value), (CHR ''*'' # name, value), (CHR ''#'' # name, value)] path)
       pathParams (PathExp route)"

subsection \<open>Escaping\<close>

definition escapedPath :: "URL \<Rightarrow> string" where
  "escapedPath urlObj = split_two (CHR ''?'') (RequestURI urlObj) ! 0"

definition preEscape :: "(string \<times> string) list" where
  "preEscape = [(''*'', ''__SPLAT_PLACEHOLDER__''), (''#'', ''__RELAXED_PLACEHOLDER__'')]"

definition postEscape :: "(string \<times> string) list" where
  "postEscape = [(''__SPLAT_PLACEHOLDER__'', ''*''), (''__RELAXED_PLACEHOLDER__'', ''#'')]"

datatype router_error =
    EmptyPathExp
  | PathExpNoSlash
  | PathExpHasQuery
  | BadPathExpUrl
  | TrieError trie_error
  | CompressOutOfFuel

definition escapedPathExp :: "string \<Rightarrow> router_error + string" where
  "escapedPathExp pathExp =
     (if pathExp = [] then Inl EmptyPathExp
      else if pathExp ! 0 \<noteq> CHR ''/'' then Inl PathExpNoSlash
      else if contains pathExp ''?'' then Inl PathExpHasQuery
      else (case Parse (replace_pairs preEscape pathExp) of
          None \<Rightarrow> Inl BadPathExpUrl
        | Some urlObj \<Rightarrow> Inr (replace_pairs postEscape (RequestURI urlObj))))"

subsection \<open>The router\<close>

text \<open>\<open>CompressOutOfFuel\<close> is the fuel of the model's \<open>Compress\<close>; \<open>start_no_fuel_error\<close> shows it never occurs.\<close>

record 'h router =
  Routes :: "'h RouteDef list"
  disableTrieCompression :: bool
  index :: "nat \<rightharpoonup> nat"
  trie :: "nat node"

text \<open>The loop of \<open>start\<close>: route \<open>i\<close> and the ones after it.\<close>

fun start_loop :: "nat \<Rightarrow> 'h RouteDef list \<Rightarrow> nat node \<times> (nat \<rightharpoonup> nat) \<Rightarrow>
    router_error + nat node \<times> (nat \<rightharpoonup> nat)" where
  "start_loop i [] s = Inr s"
| "start_loop i (route # routes) (t, idx) =
     (case escapedPathExp (PathExp route) of
        Inl e \<Rightarrow> Inl e
      | Inr pathExp \<Rightarrow>
          (case AddRoute (to_upper (HttpMethod route)) pathExp i t of
             (Some e, t') \<Rightarrow> Inl (TrieError e)
           | (None, t') \<Rightarrow> start_loop (i + 1) routes (t', idx(i \<mapsto> i))))"

definition start :: "'h router \<Rightarrow> router_error + 'h router" where
  "start rt =
     (case start_loop 0 (Routes rt) (trie_New, Map.empty) of
        Inl e \<Rightarrow> Inl e
      | Inr (t, idx) \<Rightarrow>
          (if disableTrieCompression rt then Inr (rt\<lparr>index := idx, trie := t\<rparr>)
           else (case Compress t of
               None \<Rightarrow> Inl CompressOutOfFuel
             | Some t' \<Rightarrow> Inr (rt\<lparr>index := idx, trie := t'\<rparr>))))"

definition MakeRouter :: "'h RouteDef list \<Rightarrow> router_error + 'h router" where
  "MakeRouter routes =
     start \<lparr>Routes = routes, disableTrieCompression = False, index = Map.empty, trie = trie_New\<rparr>"

text \<open>\<open>minIndex\<close> is \<open>-1\<close> until the first result.\<close>

fun best_match :: "(nat \<rightharpoonup> nat) \<Rightarrow> int \<Rightarrow> nat Match option \<Rightarrow> nat Match list \<Rightarrow> nat Match option" where
  "best_match idx minIndex bestMatch [] = bestMatch"
| "best_match idx minIndex bestMatch (result # matches) =
     (let routeIndex = int (case idx (Route result) of None \<Rightarrow> 0 | Some i \<Rightarrow> i) in
      if minIndex = -1 \<or> routeIndex < minIndex
      then best_match idx routeIndex (Some result) matches
      else best_match idx minIndex bestMatch matches)"

definition ofFirstDefinedRoute :: "'h router \<Rightarrow> nat Match list \<Rightarrow> nat Match option" where
  "ofFirstDefinedRoute rt matches = best_match (index rt) (-1) None matches"

definition findRouteFromURL ::
  "'h router \<Rightarrow> string \<Rightarrow> URL \<Rightarrow> (nat option \<times> (string \<rightharpoonup> string) \<times> bool) run" where
  "findRouteFromURL rt httpMethod urlObj =
     run_bind (FindRoutesAndPathMatched (to_upper httpMethod) (escapedPath urlObj) (trie rt))
       (\<lambda>(matches, pathMatched).
         if length matches = 0 then Inr (None, Map.empty, pathMatched)
         else if length matches = 1
         then Inr (Some (Route (matches ! 0)), Params (matches ! 0), pathMatched)
         else (case ofFirstDefinedRoute rt matches of
             None \<Rightarrow> Inl NilDereference
           | Some result \<Rightarrow> Inr (Some (Route result), Params result, pathMatched)))"

definition findRoute ::
  "'h router \<Rightarrow> string \<Rightarrow> string \<Rightarrow> (nat option \<times> (string \<rightharpoonup> string) \<times> bool) option run" where
  "findRoute rt httpMethod urlStr =
     (case Parse urlStr of
        None \<Rightarrow> Inr None
      | Some urlObj \<Rightarrow> run_bind (findRouteFromURL rt httpMethod urlObj) (\<lambda>x. Inr (Some x)))"

subsection \<open>The first defined match\<close>

lemma best_match_step:
  assumes "\<And>m. m \<in> set ms \<Longrightarrow> idx (Route m) = Some (Route m)"
  shows "best_match idx (int (Route b)) (Some b) ms \<noteq> None \<and>
    (\<forall>r. best_match idx (int (Route b)) (Some b) ms = Some r \<longrightarrow>
       r \<in> insert b (set ms) \<and> (\<forall>m \<in> insert b (set ms). Route r \<le> Route m))"
  using assms
proof (induction ms arbitrary: b)
  case (Cons m ms)
  have m: "idx (Route m) = Some (Route m)" using Cons.prems by simp
  show ?case
  proof (cases "Route m < Route b")
    case True
    with m have "best_match idx (int (Route b)) (Some b) (m # ms) = best_match idx (int (Route m)) (Some m) ms"
      by simp
    with Cons.IH [of m] Cons.prems True show ?thesis by fastforce
  next
    case False
    with m have "best_match idx (int (Route b)) (Some b) (m # ms) = best_match idx (int (Route b)) (Some b) ms"
      by simp
    with Cons.IH [of b] Cons.prems False show ?thesis by fastforce
  qed
qed simp

lemma ofFirstDefinedRoute_min:
  assumes "ms \<noteq> []" "\<And>m. m \<in> set ms \<Longrightarrow> index rt (Route m) = Some (Route m)"
  shows "\<exists>r \<in> set ms. ofFirstDefinedRoute rt ms = Some r \<and> (\<forall>m \<in> set ms. Route r \<le> Route m)"
proof -
  obtain b bs where ms: "ms = b # bs" using assms(1) by (cases ms) auto
  then have "ofFirstDefinedRoute rt ms = best_match (index rt) (int (Route b)) (Some b) bs"
    using assms(2) by (simp add: ofFirstDefinedRoute_def)
  moreover have "index rt (Route m) = Some (Route m)" if "m \<in> set bs" for m
    using assms(2) that ms by simp
  ultimately show ?thesis using best_match_step [of bs "index rt" b] ms by auto
qed


subsection \<open>The table holds the routes by position\<close>

definition numbered :: "'k list \<Rightarrow> 'k \<Rightarrow> nat option" where
  "numbered keys = map_of (zip keys [0..<length keys])"

lemma numbered_None: "numbered keys k = None \<longleftrightarrow> k \<notin> set keys"
  unfolding numbered_def map_of_eq_None_iff by (metis length_map list.set_map map_fst_zip map_nth length_upt diff_zero)

lemma numbered_snoc:
  assumes "numbered keys k = None"
  shows "numbered (keys @ [k]) = (numbered keys)(k \<mapsto> length keys)"
proof -
  have z: "zip (keys @ [k]) [0..<length (keys @ [k])] = zip keys [0..<length keys] @ [(k, length keys)]"
    by (simp add: zip_append1)
  show ?thesis
    using assms unfolding numbered_def z by (simp add: map_add_upd_left dom_def)
qed

lemma numbered_Some:
  assumes "distinct keys"
  shows "numbered keys k = Some i \<longleftrightarrow> i < length keys \<and> keys ! i = k"
proof -
  have "distinct (map fst (zip keys [0..<length keys]))" using assms by simp
  then show ?thesis
    unfolding numbered_def by (auto simp: map_of_eq_Some_iff in_set_zip)
qed

locale numbered_route_table = route_table new_table add seal search ok stored
  for new_table :: "'t"
    and add :: "string \<Rightarrow> string \<Rightarrow> nat \<Rightarrow> 't \<Rightarrow> trie_error option \<times> 't"
    and seal :: "'t \<Rightarrow> 't option"
    and search :: "string \<Rightarrow> string \<Rightarrow> 't \<Rightarrow> (nat Match list \<times> bool) run"
    and ok :: "'t \<Rightarrow> bool"
    and stored :: "'t \<Rightarrow> tok list \<Rightarrow> string \<Rightarrow> nat option"
begin

lemma add_next:
  assumes "ok t" "\<And>ts m. stored t ts m = numbered keys (ts, m)" "add meth e (length keys) t = (None, t')"
  shows "ok t' \<and> (tokens e, meth) \<notin> set keys \<and> (\<forall>ts m. stored t' ts m = numbered (keys @ [(tokens e, meth)]) (ts, m))"
proof -
  have "numbered keys (tokens e, meth) = None" using add_fresh [OF assms(1,3)] assms(2) by simp
  with add_ok [OF assms(1,3)] add_stored [OF assms(1,3)] assms(2) show ?thesis
    by (simp add: numbered_snoc numbered_None)
qed

lemma search_numbered:
  assumes "ok t" "distinct keys" "\<And>ts m. stored t ts m = numbered keys (ts, m)"
  shows "\<exists>ms b. search meth path t = Inr (ms, b) \<and>
    Route ` set ms = {i. i < length keys \<and> snd (keys ! i) = meth \<and> path_match (fst (keys ! i)) path \<noteq> None} \<and>
    (b \<longleftrightarrow> (\<exists>k \<in> set keys. path_match (fst k) path \<noteq> None))"
proof -
  have some: "stored t ts m = Some i \<longleftrightarrow> i < length keys \<and> keys ! i = (ts, m)" for ts m i
    using assms(2,3) by (simp add: numbered_Some)
  have none: "stored t ts m \<noteq> None \<longleftrightarrow> (ts, m) \<in> set keys" for ts m
    unfolding assms(3) numbered_None by simp
  have "{r. \<exists>ts. stored t ts meth = Some r \<and> path_match ts path \<noteq> None} =
      {i. i < length keys \<and> snd (keys ! i) = meth \<and> path_match (fst (keys ! i)) path \<noteq> None}"
    unfolding some by (auto, metis prod.collapse)
  moreover have "(\<exists>ts m. stored t ts m \<noteq> None \<and> path_match ts path \<noteq> None) \<longleftrightarrow>
      (\<exists>k \<in> set keys. path_match (fst k) path \<noteq> None)"
    unfolding none by force
  ultimately show ?thesis using search_exact [OF assms(1), of meth path] by simp
qed

end

interpretation numbered_trie: numbered_route_table trie_New AddRoute Compress FindRoutesAndPathMatched trie_ok route_at
  by unfold_locales


subsection \<open>Dispatch\<close>

text \<open>What it means for a route to match a request, by its path alone and with its method.\<close>

definition route_path_matches :: "'h RouteDef \<Rightarrow> URL \<Rightarrow> bool" where
  "route_path_matches r u =
     (case escapedPathExp (PathExp r) of Inl e \<Rightarrow> False | Inr e \<Rightarrow> path_match (tokens e) (escapedPath u) \<noteq> None)"

definition route_matches :: "'h RouteDef \<Rightarrow> string \<Rightarrow> URL \<Rightarrow> bool" where
  "route_matches r meth u \<longleftrightarrow> route_path_matches r u \<and> to_upper (HttpMethod r) = to_upper meth"

definition first_match :: "'h RouteDef list \<Rightarrow> string \<Rightarrow> URL \<Rightarrow> nat option" where
  "first_match routes meth u = List.find (\<lambda>i. route_matches (routes ! i) meth u) [0..<length routes]"

definition route_key :: "'h RouteDef \<Rightarrow> tok list \<times> string" where
  "route_key r = (case escapedPathExp (PathExp r) of Inl e \<Rightarrow> ([], []) | Inr e \<Rightarrow> (tokens e, to_upper (HttpMethod r)))"

text \<open>The table a successful \<open>start\<close> leaves.\<close>

definition table_holds :: "nat node \<Rightarrow> (nat \<rightharpoonup> nat) \<Rightarrow> (tok list \<times> string) list \<Rightarrow> bool" where
  "table_holds t idx keys \<longleftrightarrow> trie_ok t \<and> distinct keys \<and>
     (\<forall>ts m. route_at t ts m = numbered keys (ts, m)) \<and> (\<forall>j < length keys. idx j = Some j)"

lemma start_loop_holds:
  assumes "start_loop (length keys) routes (t, idx) = Inr (t', idx')" "table_holds t idx keys"
  shows "table_holds t' idx' (keys @ map route_key routes) \<and>
    (\<forall>r \<in> set routes. \<exists>e. escapedPathExp (PathExp r) = Inr e)"
  using assms
proof (induction routes arbitrary: keys t idx)
  case Nil
  then show ?case by simp
next
  case (Cons r routes)
  from Cons.prems(1) obtain e t1 where e: "escapedPathExp (PathExp r) = Inr e"
    and a: "AddRoute (to_upper (HttpMethod r)) e (length keys) t = (None, t1)"
    and l: "start_loop (length keys + 1) routes (t1, idx(length keys \<mapsto> length keys)) = Inr (t', idx')"
    by (auto split: sum.splits prod.splits option.splits)
  have k: "route_key r = (tokens e, to_upper (HttpMethod r))" using e by (simp add: route_key_def)
  from Cons.prems(2) have h: "trie_ok t" "\<And>ts m. route_at t ts m = numbered keys (ts, m)"
    "distinct keys" "\<forall>j < length keys. idx j = Some j" by (simp_all add: table_holds_def)
  from numbered_trie.add_next [OF h(1,2) a] h(3,4) k
  have "table_holds t1 (idx(length keys \<mapsto> length keys)) (keys @ [route_key r])"
    by (auto simp: table_holds_def)
  with Cons.IH [of "keys @ [route_key r]"] l e show ?case by simp
qed

lemma start_no_fuel_error: "start rt \<noteq> Inl CompressOutOfFuel"
proof -
  have "start_loop i routes (t, idx) \<noteq> Inl CompressOutOfFuel" for i routes t idx
  proof (induction routes arbitrary: i t idx)
    case (Cons r routes)
    have "escapedPathExp (PathExp r) \<noteq> Inl CompressOutOfFuel"
      by (auto simp: escapedPathExp_def split: option.splits)
    with Cons show ?case by (auto split: sum.splits prod.splits option.splits)
  qed simp
  moreover have "Compress t \<noteq> None" if "start_loop 0 (Routes rt) (trie_New, Map.empty) = Inr (t, idx)" for t idx
  proof -
    have "table_holds trie_New Map.empty []"
      by (simp add: table_holds_def numbered_def trie.new_empty)
    from start_loop_holds [of "[]" "Routes rt" trie_New Map.empty t idx] this that have "trie_ok t" by (simp add: table_holds_def)
    with compress_law show ?thesis by fastforce
  qed
  ultimately show ?thesis
    by (auto simp: start_def split: sum.splits option.splits if_splits)
qed

lemma MakeRouter_table:
  assumes "MakeRouter routes = Inr rt"
  obtains t where "table_holds t (index rt) (map route_key routes)"
    "\<And>m p. FindRoutesAndPathMatched m p (trie rt) = FindRoutesAndPathMatched m p t"
    "\<And>r. r \<in> set routes \<Longrightarrow> \<exists>e. escapedPathExp (PathExp r) = Inr e" "Routes rt = routes"
proof -
  from assms obtain t idx t' where l: "start_loop 0 routes (trie_New, Map.empty) = Inr (t, idx)"
    and c: "Compress t = Some t'" and rt: "index rt = idx" "trie rt = t'" "Routes rt = routes"
    by (auto simp: MakeRouter_def start_def split: sum.splits option.splits)
  have "table_holds trie_New Map.empty []"
    by (simp add: table_holds_def numbered_def trie.new_empty)
  with start_loop_holds [of "[]" routes trie_New Map.empty t idx] l
  have h: "table_holds t idx (map route_key routes)" "\<forall>r \<in> set routes. \<exists>e. escapedPathExp (PathExp r) = Inr e"
    by simp_all
  from h(1) have "trie_ok t" by (simp add: table_holds_def)
  from compress_law [OF this] c have "FindRoutesAndPathMatched m p t' = FindRoutesAndPathMatched m p t" for m p
    by auto
  with h rt that show thesis by blast
qed

lemma find_min:
  assumes "i < n" "P i" "\<And>j. j < n \<Longrightarrow> P j \<Longrightarrow> i \<le> j"
  shows "List.find P [0..<n] = Some i"
proof -
  have "\<not> P j" if "j < i" for j using assms that by (meson leD less_trans)
  then show ?thesis
    unfolding find_Some_iff using assms by (intro exI [of _ i]) simp
qed

lemma dispatch_law:
  assumes "MakeRouter routes = Inr rt"
  shows "\<exists>params. findRouteFromURL rt meth u =
    Inr (first_match routes meth u, params, \<exists>r \<in> set routes. route_path_matches r u)"
proof -
  from MakeRouter_table [OF assms] obtain t where
    h: "table_holds t (index rt) (map route_key routes)" and
    s: "\<And>m p. FindRoutesAndPathMatched m p (trie rt) = FindRoutesAndPathMatched m p t" and
    e: "\<And>r. r \<in> set routes \<Longrightarrow> \<exists>e. escapedPathExp (PathExp r) = Inr e" by metis
  have k: "path_match (fst (route_key r)) (escapedPath u) \<noteq> None \<longleftrightarrow> route_path_matches r u"
    "snd (route_key r) = to_upper (HttpMethod r)" if "r \<in> set routes" for r
    using e [OF that] by (auto simp: route_key_def route_path_matches_def)
  obtain ms b where f: "FindRoutesAndPathMatched (to_upper meth) (escapedPath u) t = Inr (ms, b)"
    and ms: "Route ` set ms = {i. i < length routes \<and> route_matches (routes ! i) meth u}"
    and b: "b \<longleftrightarrow> (\<exists>r \<in> set routes. route_path_matches r u)"
  proof -
    have "trie_ok t" "distinct (map route_key routes)" "\<And>ts m. route_at t ts m = numbered (map route_key routes) (ts, m)"
      using h by (simp_all add: table_holds_def)
    from numbered_trie.search_numbered [OF this, of "to_upper meth" "escapedPath u"]
    obtain ms b where f: "FindRoutesAndPathMatched (to_upper meth) (escapedPath u) t = Inr (ms, b)"
      and ms: "Route ` set ms = {i. i < length (map route_key routes) \<and>
         snd (map route_key routes ! i) = to_upper meth \<and>
         path_match (fst (map route_key routes ! i)) (escapedPath u) \<noteq> None}"
      and b: "b \<longleftrightarrow> (\<exists>k \<in> set (map route_key routes). path_match (fst k) (escapedPath u) \<noteq> None)"
      by blast
    have "Route ` set ms = {i. i < length routes \<and> route_matches (routes ! i) meth u}"
      unfolding ms
    proof (rule Collect_cong)
      fix i
      show "(i < length (map route_key routes) \<and> snd (map route_key routes ! i) = to_upper meth \<and>
          path_match (fst (map route_key routes ! i)) (escapedPath u) \<noteq> None) \<longleftrightarrow>
        (i < length routes \<and> route_matches (routes ! i) meth u)"
      proof (cases "i < length routes")
        case True
        then have "routes ! i \<in> set routes" by simp
        from k [OF this] True show ?thesis by (auto simp: route_matches_def)
      qed simp
    qed
    moreover have "b \<longleftrightarrow> (\<exists>r \<in> set routes. route_path_matches r u)"
      unfolding b using k by (simp add: image_iff) 
    ultimately show thesis using f that by blast
  qed
  have idx: "index rt (Route m) = Some (Route m)" if "m \<in> set ms" for m
  proof -
    have "Route m \<in> Route ` set ms" using that by simp
    with ms h show ?thesis by (auto simp: table_holds_def)
  qed
  consider "ms = []" | m where "ms = [m]" | "length ms \<ge> 2"
    by (cases ms; cases "tl ms") auto
  then show ?thesis
  proof cases
    case 1
    with ms have "first_match routes meth u = None"
      by (auto simp: first_match_def find_None_iff)
    with 1 f b s show ?thesis by (simp add: findRouteFromURL_def)
  next
    case (2 m)
    with ms have one: "{i. i < length routes \<and> route_matches (routes ! i) meth u} = {Route m}" by simp
    have iff: "(i < length routes \<and> route_matches (routes ! i) meth u) \<longleftrightarrow> i = Route m" for i
    proof -
      have "i \<in> {i. i < length routes \<and> route_matches (routes ! i) meth u} \<longleftrightarrow> i \<in> {Route m}"
        by (simp only: one)
      then show ?thesis by simp
    qed
    have "Route m < length routes" "route_matches (routes ! Route m) meth u"
      "\<And>j. j < length routes \<Longrightarrow> route_matches (routes ! j) meth u \<Longrightarrow> Route m \<le> j"
      using iff [THEN iffD2, OF refl] by (blast, blast) (use iff [THEN iffD1, OF conjI] in \<open>simp only: order_refl\<close>)
    then have "first_match routes meth u = Some (Route m)"
      unfolding first_match_def by (rule find_min)
    with 2 f b s show ?thesis by (simp add: findRouteFromURL_def)
  next
    case 3
    then have ne: "ms \<noteq> []" by auto
    from ofFirstDefinedRoute_min [OF ne idx] obtain r where r: "r \<in> set ms"
      "ofFirstDefinedRoute rt ms = Some r" "\<forall>m \<in> set ms. Route r \<le> Route m" by blast
    have "Route r \<in> Route ` set ms" using r(1) by simp
    then have "Route r < length routes" "route_matches (routes ! Route r) meth u" unfolding ms by blast+
    moreover have "Route r \<le> j" if "j < length routes" "route_matches (routes ! j) meth u" for j
    proof -
      have "j \<in> Route ` set ms" unfolding ms using that by simp
      then obtain m where "m \<in> set ms" "j = Route m" by blast
      with r(3) show ?thesis by blast
    qed
    ultimately have "first_match routes meth u = Some (Route r)"
      unfolding first_match_def by (rule find_min)
    with 3 ne r f b s show ?thesis by (simp add: findRouteFromURL_def)
  qed
qed


subsection \<open>Path expressions survive escaping\<close>

text \<open>A character that \<open>escapedPathExp\<close> leaves alone: an unescaped path character other than the
  underscore that starts the placeholders of \<open>preEscape\<close>, or one of the two it protects.\<close>

definition plain_exp_char :: "char \<Rightarrow> bool" where
  "plain_exp_char c \<longleftrightarrow> path_char c \<and> c \<noteq> CHR ''_'' \<or> c = CHR ''*'' \<or> c = CHR ''#''"

lemma replace_pairs_Cons_None:
  "match_pair ps (x # xs) = None \<Longrightarrow> replace_pairs ps (x # xs) = x # replace_pairs ps xs"
  by simp

lemma preEscape_Cons:
  "replace_pairs preEscape (c # s) =
    (if c = CHR ''*'' then ''__SPLAT_PLACEHOLDER__''
     else if c = CHR ''#'' then ''__RELAXED_PLACEHOLDER__'' else [c]) @ replace_pairs preEscape s"
  by (simp add: preEscape_def match_pair_def)

lemma placeholder_path_chars:
  "\<forall>c \<in> set ''__SPLAT_PLACEHOLDER__''. path_char c" "\<forall>c \<in> set ''__RELAXED_PLACEHOLDER__''. path_char c"
  by code_simp+

lemma preEscape_path_chars:
  "(\<forall>c \<in> set s. plain_exp_char c) \<Longrightarrow> c \<in> set (replace_pairs preEscape s) \<Longrightarrow> path_char c"
proof (induction s)
  case (Cons x s)
  show ?case
  proof (cases "c \<in> set (replace_pairs preEscape s)")
    case True
    with Cons show ?thesis by simp
  next
    case False
    with Cons.prems(2) have "c \<in> set (if x = CHR ''*'' then ''__SPLAT_PLACEHOLDER__''
        else if x = CHR ''#'' then ''__RELAXED_PLACEHOLDER__'' else [x])"
      unfolding preEscape_Cons set_append by blast
    then consider "c \<in> set ''__SPLAT_PLACEHOLDER__''" | "c \<in> set ''__RELAXED_PLACEHOLDER__''"
      | "c \<in> set [x]" "x \<noteq> CHR ''*''" "x \<noteq> CHR ''#''"
      by (cases "x = CHR ''*''"; cases "x = CHR ''#''") (simp_all only: if_True if_False simp_thms)
    then show ?thesis
    proof cases
      case 3
      with Cons.prems(1) show ?thesis by (simp add: plain_exp_char_def)
    qed (use placeholder_path_chars in blast)+
  qed
qed simp

lemma postEscape_preEscape:
  "(\<forall>c \<in> set s. plain_exp_char c) \<Longrightarrow> replace_pairs postEscape (replace_pairs preEscape s) = s"
proof (induction s)
  case (Cons x s)
  have ih: "replace_pairs postEscape (replace_pairs preEscape s) = s" using Cons by simp
  consider "x = CHR ''*''" | "x = CHR ''#''" | "x \<noteq> CHR ''*''" "x \<noteq> CHR ''#''" "x \<noteq> CHR ''_''"
    using Cons.prems by (auto simp: plain_exp_char_def)
  then show ?case
  proof cases
    case 1
    have "match_pair postEscape (''__SPLAT_PLACEHOLDER__'' @ r) = Some (''__SPLAT_PLACEHOLDER__'', ''*'')" for r
      by (simp add: match_pair_def postEscape_def)
    then have "replace_pairs postEscape (''__SPLAT_PLACEHOLDER__'' @ r) = CHR ''*'' # replace_pairs postEscape r" for r
      by simp
    moreover have "replace_pairs preEscape (x # s) = ''__SPLAT_PLACEHOLDER__'' @ replace_pairs preEscape s"
      using 1 by (simp only: preEscape_Cons simp_thms if_True)
    ultimately show ?thesis using 1 ih by (simp only:)
  next
    case 2
    have "match_pair postEscape (''__RELAXED_PLACEHOLDER__'' @ r) = Some (''__RELAXED_PLACEHOLDER__'', ''#'')" for r
      by (simp add: match_pair_def postEscape_def)
    then have "replace_pairs postEscape (''__RELAXED_PLACEHOLDER__'' @ r) = CHR ''#'' # replace_pairs postEscape r" for r
      by simp
    moreover have "replace_pairs preEscape (x # s) = ''__RELAXED_PLACEHOLDER__'' @ replace_pairs preEscape s"
      unfolding preEscape_Cons 2 by (simp del: replace_pairs.simps)
    ultimately show ?thesis using 2 ih by (simp only:)
  next
    case 3
    then have "match_pair postEscape (x # r) = None" for r
      by (intro match_pair_None) (auto simp: postEscape_def)
    then have "replace_pairs postEscape (x # r) = x # replace_pairs postEscape r" for r
      by (rule replace_pairs_Cons_None)
    moreover have "replace_pairs preEscape (x # s) = x # replace_pairs preEscape s"
      unfolding preEscape_Cons using 3 by (simp del: replace_pairs.simps)
    ultimately show ?thesis using ih by (simp only:)
  qed
qed simp

lemma escapedPathExp_plain:
  assumes "e = CHR ''/'' # t" "\<not> prefix ''/'' t" "\<forall>c \<in> set e. plain_exp_char c"
  shows "escapedPathExp e = Inr e"
proof -
  have e: "replace_pairs preEscape e = CHR ''/'' # replace_pairs preEscape t"
    using assms(1) by (simp add: preEscape_Cons del: replace_pairs.simps)
  have t: "\<not> prefix ''/'' (replace_pairs preEscape t)"
    using assms(2) by (cases t) (auto simp: preEscape_Cons simp del: replace_pairs.simps(2))
  have c: "\<forall>c \<in> set (replace_pairs preEscape e). path_char c"
    using preEscape_path_chars [OF assms(3)] by blast
  have "\<not> plain_exp_char CHR ''?''" by (simp add: plain_exp_char_def)
  with assms(3) have "CHR ''?'' \<notin> set e" by blast
  then have "\<not> contains e ''?''" by (induction e) auto
  moreover have "Parse (replace_pairs preEscape e) = Some (empty_url\<lparr>Path := replace_pairs preEscape e\<rparr>)"
    by (rule Parse_plain [OF e t c])
  moreover have "RequestURI (empty_url\<lparr>Path := replace_pairs preEscape e\<rparr>) = replace_pairs preEscape e"
    using e c by (intro RequestURI_plain) simp_all
  ultimately show ?thesis
    using assms(1) postEscape_preEscape [OF assms(3)] by (simp add: escapedPathExp_def)
qed

lemma escapedPath_path:
  assumes "Opaque u = []"
  shows "escapedPath u = (if Path u = [] then ''/'' else url_escape (Path u))"
proof -
  have e: "url_escape s = [] \<longleftrightarrow> s = []" for s
    by (cases s) (simp_all add: url_escape_def Let_def)
  let ?p = "if Path u = [] then ''/'' else url_escape (Path u)"
  have q: "CHR ''?'' \<notin> set ?p" by (simp add: url_escape_no_query)
  have "RequestURI u = ?p \<or> RequestURI u = ?p @ CHR ''?'' # RawQuery u"
    using assms e by (auto simp: RequestURI_def Let_def)
  then show ?thesis
    unfolding escapedPath_def using split_two_no_sep [OF q] split_two_append [OF q] by auto
qed

subsection \<open>The properties of the router\<close>

text \<open>
  Property C31.  A router made by \<open>MakeRouter\<close> never panics, and \<open>findRouteFromURL\<close> returns the
  first route, in the order of definition, whose method (compared in upper case) and path
  expression match the request, or none when there is none; the flag that tells a 405 from a 404
  is set exactly when the path of some route matches, whatever its method.
\<close>

theorem dispatch_first_defined:
  assumes "MakeRouter routes = Inr rt"
  shows "\<exists>params. findRouteFromURL rt meth u =
    Inr (first_match routes meth u, params, \<exists>r \<in> set routes. route_path_matches r u)"
  by (rule dispatch_law [OF assms])

text \<open>
  A rooted path expression of unescaped path characters is entered in the trie as it
  was written: the detour through \<open>url.Parse\<close> and \<open>RequestURI\<close> with the two placeholder
  replacements neither loses a \<open>*\<close> or \<open>#\<close> nor changes any other character.
\<close>

theorem escapedPathExp_identity:
  assumes "e = CHR ''/'' # t" "\<not> prefix ''/'' t" "\<forall>c \<in> set e. plain_exp_char c"
  shows "escapedPathExp e = Inr e"
  by (rule escapedPathExp_plain [OF assms])

theorem escapedPathExp_identity_witness: "escapedPathExp ''/f/*p'' = Inr ''/f/*p''"
  by (rule escapedPathExp_identity [where t = "''f/*p''"])
    (simp_all add: plain_exp_char_def path_char_def is_alnum_def)

theorem dispatch_first_defined_witness:
  "\<exists>rt params. MakeRouter [Get ''/a'' (), Post ''/a'' ()] = Inr rt \<and>
     findRouteFromURL rt ''post'' (empty_url\<lparr>Path := ''/a''\<rparr>) = Inr (Some 1, params, True)"
proof -
  have e: "escapedPathExp ''/a'' = Inr ''/a''"
    by (rule escapedPathExp_plain [where t = "''a''"]) (simp_all add: plain_exp_char_def path_char_def is_alnum_def)
  have up: "to_upper ''GET'' = ''GET''" "to_upper ''POST'' = ''POST''" "to_upper ''post'' = ''POST''"
    by code_simp+
  let ?rs = "[Get ''/a'' (), Post ''/a'' ()]"
  have "\<exists>t. start_loop 0 ?rs (trie_New, Map.empty) = Inr t"
    by (simp add: Get_def Post_def e up AddRoute_def trie_New_def empty_node_def or_fresh_def)
  then obtain t idx where l: "start_loop 0 ?rs (trie_New, Map.empty) = Inr (t, idx)" by (metis prod.collapse)
  have "start \<lparr>Routes = ?rs, disableTrieCompression = False, index = Map.empty, trie = trie_New\<rparr> \<noteq> Inl CompressOutOfFuel"
    by (rule start_no_fuel_error)
  then obtain rt where m: "MakeRouter ?rs = Inr rt"
    using l by (auto simp: MakeRouter_def start_def split: option.splits)
  have u: "escapedPath (empty_url\<lparr>Path := ''/a''\<rparr>) = ''/a''"
    by (simp add: escapedPath_path empty_url_def url_escape_def path_char_def is_alnum_def)
  have f: "first_match ?rs ''post'' (empty_url\<lparr>Path := ''/a''\<rparr>) = Some 1"
    by (simp add: first_match_def route_matches_def route_path_matches_def Get_def Post_def e u up upt_rec)
  have p: "\<exists>r \<in> set ?rs. route_path_matches r (empty_url\<lparr>Path := ''/a''\<rparr>)"
    by (simp add: route_path_matches_def Get_def Post_def e u)
  from dispatch_first_defined [OF m] obtain params where
    "findRouteFromURL rt ''post'' (empty_url\<lparr>Path := ''/a''\<rparr>) =
       Inr (first_match ?rs ''post'' (empty_url\<lparr>Path := ''/a''\<rparr>), params,
         \<exists>r \<in> set ?rs. route_path_matches r (empty_url\<lparr>Path := ''/a''\<rparr>))" by blast
  then have "findRouteFromURL rt ''post'' (empty_url\<lparr>Path := ''/a''\<rparr>) = Inr (Some 1, params, True)"
    using p by (simp only: f simp_thms)
  with m show ?thesis by blast
qed

text \<open>
  The name of a splat is not checked for consistency, unlike the names of the other
  placeholders: a second route under the same splat is accepted whatever its splat is called, and
  its matches report the value under the name the first route used.
\<close>

theorem splat_name_of_first_route:
  "let t1 = snd (AddRoute ''GET'' ''/*x'' (0 :: nat) trie_New);
       (e, t2) = AddRoute ''POST'' ''/*y'' 1 t1
   in e = None \<and> FindRoutes ''POST'' ''/q'' t2 = Inr [\<lparr>Route = 1, Params = [''x'' \<mapsto> ''q'']\<rparr>]"
  by (simp add: AddRoute_def trie_New_def empty_node_def or_fresh_def FindRoutes_def trie_find.simps
      paramsAsMap_def)

end
