(* ===== verification/Middleware.thy ===== *)
theory Middleware
  imports GoMime Router
begin

text \<open>
  The middleware stack of go-json-rest (\<open>rest/middleware.go\<close>, \<open>rest/api.go\<close> and one file per
  middleware) and the application function of the router.  A handler acts on a connection state:
  the request, its writer, the log, a clock, the counters of the status middleware and the state
  of the program around it.  A handler that panics leaves the effects it has had so far.
\<close>

subsection \<open>Handlers\<close>

record status_mw =
  responseCounts :: "nat \<Rightarrow> nat"
  totalResponseTime :: int

record 's conn =
  Req :: Request
  Out :: writer
  LogLines :: "string list"
  Clock :: "nat \<Rightarrow> int"
  Ticks :: nat
  Stats :: status_mw
  World :: 's

type_synonym 's handler = "('s conn, unit) act"

type_synonym 's middleware = "'s handler \<Rightarrow> 's handler"

text \<open>\<open>time.Now()\<close>: the next reading of the clock.\<close>

definition time_now :: "('s conn, int) act" where
  "time_now = (\<lambda>c. (Inr (Clock c (Ticks c)), c\<lparr>Ticks := Suc (Ticks c)\<rparr>))"

definition out_op :: "wop \<Rightarrow> 's handler" where
  "out_op op = act_modify (\<lambda>c. c\<lparr>Out := run_op op (Out c)\<rparr>)"

abbreviation write_json :: "json \<Rightarrow> 's handler" where
  "write_json v \<equiv> out_op (OpWriteJson v)"

abbreviation write_header :: "nat \<Rightarrow> 's handler" where
  "write_header code \<equiv> out_op (OpWriteHeader code)"

abbreviation set_header :: "string \<Rightarrow> string \<Rightarrow> 's handler" where
  "set_header k v \<equiv> out_op (OpSetHeader k v)"

abbreviation add_header :: "string \<Rightarrow> string \<Rightarrow> 's handler" where
  "add_header k v \<equiv> out_op (OpAddHeader k v)"

definition set_env :: "string \<Rightarrow> env_value \<Rightarrow> 's handler" where
  "set_env k v = act_modify (\<lambda>c. c\<lparr>Req := (Req c)\<lparr>Env := (Env (Req c))(k \<mapsto> v)\<rparr>\<rparr>)"

text \<open>\<open>rest.Error\<close> and \<open>rest.NotFound\<close>; encoding a string map does not fail.\<close>

definition Error :: "string \<Rightarrow> nat \<Rightarrow> 's handler" where
  "Error msg code = act_seq (write_header code) (write_json (error_json msg))"

definition NotFound :: "'s handler" where
  "NotFound = Error ''Resource not found'' 404"

text \<open>Running a handler with a layer around the writer, which is off again afterwards; \<open>k\<close> gets the
  layer as the handler left it.\<close>

definition with_layer :: "layer \<Rightarrow> 's handler \<Rightarrow> (layer \<Rightarrow> 's handler) \<Rightarrow> 's handler" where
  "with_layer l h k c =
     (case h (c\<lparr>Out := (l # fst (Out c), snd (Out c))\<rparr>) of
        (r, c') \<Rightarrow>
          (let c'' = c'\<lparr>Out := (tl (fst (Out c')), snd (Out c'))\<rparr>
           in case r of
                Inl p \<Rightarrow> (Inl p, c'')
              | Inr _ \<Rightarrow> (case fst (Out c') of [] \<Rightarrow> (Inr (), c'') | l' # _ \<Rightarrow> k l' c'')))"

subsection \<open>The middlewares\<close>

definition RecorderMiddleware :: "'s middleware" where
  "RecorderMiddleware h =
     with_layer (RecorderLayer 0 False 0) h
       (\<lambda>l. act_seq (set_env ''STATUS_CODE'' (EnvInt (int (statusCode l))))
                    (set_env ''BYTES_WRITTEN'' (EnvInt (int (bytesWritten l)))))"

definition JsonIndentMiddleware :: "string \<Rightarrow> string \<Rightarrow> 's middleware" where
  "JsonIndentMiddleware Prefix Indent handler =
     with_layer (JsonIndentLayer False Prefix (if Indent = [] then ''  '' else Indent)) handler (\<lambda>l. act_return ())"

text \<open>\<open>URL.Query().Get(key)\<close> is the argument of the JSONP middleware.\<close>

definition JsonpMiddleware :: "(string \<Rightarrow> string \<Rightarrow> string) \<Rightarrow> string \<Rightarrow> 's middleware" where
  "JsonpMiddleware query CallbackNameKey h c =
     (let key = (if CallbackNameKey = [] then ''callback'' else CallbackNameKey);
          callback = query (RawQuery (ReqUrl (Req c))) key
      in if callback \<noteq> [] then with_layer (JsonpLayer False callback) h (\<lambda>l. act_return ()) c else h c)"

definition TimerMiddleware :: "'s middleware" where
  "TimerMiddleware h =
     act_bind time_now (\<lambda>start.
       act_seq (set_env ''START_TIME'' (EnvTime start))
         (act_seq h
           (act_bind time_now (\<lambda>finish. set_env ''ELAPSED_TIME'' (EnvDuration (finish - start))))))"

definition PoweredByMiddleware :: "string \<Rightarrow> 's middleware" where
  "PoweredByMiddleware XPoweredBy h =
     act_seq (add_header ''X-Powered-By'' (if XPoweredBy \<noteq> [] then XPoweredBy else ''go-json-rest'')) h"

text \<open>\<open>logError\<close>; \<open>message\<close> is the panic value and the stack trace, which is an argument.\<close>

definition logError :: "bool \<Rightarrow> string \<Rightarrow> 's handler" where
  "logError asJson message =
     act_modify (\<lambda>c. c\<lparr>LogLines := LogLines c @ [if asJson then Marshal (JObj [(''error'', JStr message)]) else message]\<rparr>)"

definition RecoverMiddleware :: "(go_panic \<Rightarrow> string) \<Rightarrow> bool \<Rightarrow> bool \<Rightarrow> 's middleware" where
  "RecoverMiddleware trace EnableLogAsJson EnableResponseStackTrace h c =
     (case h c of
        (Inr _, c') \<Rightarrow> (Inr (), c')
      | (Inl (ProcessExit msg), c') \<Rightarrow> (Inl (ProcessExit msg), c')
      | (Inl p, c') \<Rightarrow>
          act_seq (logError EnableLogAsJson (trace p))
            (if EnableResponseStackTrace then Error (trace p) 500
             else Error ''Internal Server Error'' 500) c')"

definition ContentTypeCheckerMiddleware :: "'s middleware" where
  "ContentTypeCheckerMiddleware handler c =
     (let (mediatype, params) = ParseMediaType (header_get (ReqHeader (Req c)) ''Content-Type'');
          charset = (case params ''charset'' of None \<Rightarrow> ''UTF-8'' | Some v \<Rightarrow> v)
      in if 0 < ContentLength (Req c) \<and> \<not> (mediatype = ''application/json'' \<and> to_upper charset = ''UTF-8'')
         then Error (''Bad Content-Type or charset, expected '' @ [CHR 0x27] @ ''application/json'' @ [CHR 0x27]) 415 c
         else handler c)"

record CorsMiddleware =
  RejectNonCorsRequests :: bool
  OriginValidator :: "string \<Rightarrow> Request \<Rightarrow> bool"
  AllowedMethods :: "string list"
  AllowedHeaders :: "string list"
  AccessControlExposeHeaders :: "string list"
  AccessControlAllowCredentials :: bool
  AccessControlMaxAge :: int

definition allowedMethods :: "CorsMiddleware \<Rightarrow> string list" where
  "allowedMethods mw = map to_upper (AllowedMethods mw)"

definition allowedHeaders :: "CorsMiddleware \<Rightarrow> string list" where
  "allowedHeaders mw = map CanonicalHeaderKey (AllowedHeaders mw)"

definition cors_preflight :: "CorsMiddleware \<Rightarrow> CorsInfo \<Rightarrow> 's handler" where
  "cors_preflight mw corsInfo =
     (if AccessControlRequestMethod corsInfo \<notin> set (allowedMethods mw)
      then Error ''Invalid Preflight Request'' 403
      else if \<exists>h \<in> set (AccessControlRequestHeaders corsInfo). h \<notin> set (allowedHeaders mw)
      then Error ''Invalid Preflight Request'' 403
      else act_seq (set_header ''Access-Control-Allow-Methods'' (join_with '','' (allowedMethods mw)))
        (act_seq (set_header ''Access-Control-Allow-Headers'' (join_with '','' (allowedHeaders mw)))
        (act_seq (set_header ''Access-Control-Allow-Origin'' (Origin corsInfo))
        (act_seq (if AccessControlAllowCredentials mw
                  then set_header ''Access-Control-Allow-Credentials'' ''true'' else act_return ())
        (act_seq (set_header ''Access-Control-Max-Age'' (show_int (AccessControlMaxAge mw)))
          (write_header 200))))))"

definition cors_actual :: "CorsMiddleware \<Rightarrow> CorsInfo \<Rightarrow> 's handler \<Rightarrow> 's handler" where
  "cors_actual mw corsInfo handler =
     act_seq (fold (\<lambda>exposed m. act_seq m (add_header ''Access-Control-Expose-Headers'' exposed))
                (AccessControlExposeHeaders mw) (act_return ()))
     (act_seq (set_header ''Access-Control-Allow-Origin'' (Origin corsInfo))
     (act_seq (if AccessControlAllowCredentials mw
               then set_header ''Access-Control-Allow-Credentials'' ''true'' else act_return ())
       handler))"

definition Cors_MiddlewareFunc :: "CorsMiddleware \<Rightarrow> 's middleware" where
  "Cors_MiddlewareFunc mw handler c =
     (let corsInfo = GetCorsInfo (Req c) in
      if \<not> IsCors corsInfo then
        (if RejectNonCorsRequests mw then Error ''Non CORS request'' 403 c else handler c)
      else if \<not> OriginValidator mw (Origin corsInfo) (Req c) then Error ''Invalid Origin'' 403 c
      else if IsPreflight corsInfo then cors_preflight mw corsInfo c
      else cors_actual mw corsInfo handler c)"

text \<open>A missing branch is the wrapped handler itself; \<open>Condition\<close> is required.\<close>

definition IfMiddleware ::
  "(Request \<Rightarrow> bool) \<Rightarrow> 's middleware option \<Rightarrow> 's middleware option \<Rightarrow> 's middleware" where
  "IfMiddleware Condition IfTrue IfFalse h =
     (let ifTrueHandler = (case IfTrue of Some m \<Rightarrow> m h | None \<Rightarrow> h);
          ifFalseHandler = (case IfFalse of Some m \<Rightarrow> m h | None \<Rightarrow> h)
      in (\<lambda>c. if Condition (Req c) then ifTrueHandler c else ifFalseHandler c))"

subsubsection \<open>Basic authentication\<close>

record AuthBasicMiddleware =
  BasicRealm :: string
  BasicAuthenticator :: "string \<Rightarrow> string \<Rightarrow> bool"
  BasicAuthorizator :: "string \<Rightarrow> Request \<Rightarrow> bool"

definition basic_unauthorized :: "AuthBasicMiddleware \<Rightarrow> 's handler" where
  "basic_unauthorized mw =
     act_seq (set_header ''WWW-Authenticate'' (''Basic realm='' @ BasicRealm mw)) (Error ''Not Authorized'' 401)"

definition decodeBasicAuthHeader :: "string \<Rightarrow> (string \<times> string) option" where
  "decodeBasicAuthHeader header =
     (let parts = split_two (CHR '' '') header in
      if \<not> (length parts = 2 \<and> parts ! 0 = ''Basic'') then None
      else (case b64_decode StdAlphabet (parts ! 1) of
          None \<Rightarrow> None
        | Some decoded \<Rightarrow>
            (let creds = split_two (CHR '':'') decoded in
             if length creds \<noteq> 2 then None else Some (creds ! 0, creds ! 1))))"

definition Basic_MiddlewareFunc :: "AuthBasicMiddleware \<Rightarrow> 's middleware" where
  "Basic_MiddlewareFunc mw handler c =
     (let authHeader = header_get (ReqHeader (Req c)) ''Authorization'' in
      if authHeader = [] then basic_unauthorized mw c
      else (case decodeBasicAuthHeader authHeader of
          None \<Rightarrow> Error ''Invalid authentication'' 400 c
        | Some (user, password) \<Rightarrow>
            if \<not> BasicAuthenticator mw user password then basic_unauthorized mw c
            else if \<not> BasicAuthorizator mw user (Req c) then basic_unauthorized mw c
            else act_seq (set_env ''REMOTE_USER'' (EnvString user)) handler c))"

subsubsection \<open>Counters and access logs\<close>

definition StatusMiddleware :: "'s middleware" where
  "StatusMiddleware h =
     act_seq h (\<lambda>c.
       case Env (Req c) ''STATUS_CODE'' of
         None \<Rightarrow> (Inl (ProcessExit ''STATUS_CODE is nil''), c)
       | Some v \<Rightarrow>
           (case v of
              EnvInt sc \<Rightarrow>
                (case Env (Req c) ''ELAPSED_TIME'' of
                   None \<Rightarrow> (Inl (ProcessExit ''ELAPSED_TIME is nil''), c)
                 | Some (EnvDuration d) \<Rightarrow>
                     (Inr (), c\<lparr>Stats := (Stats c)
                        \<lparr>responseCounts := (responseCounts (Stats c))(nat sc := responseCounts (Stats c) (nat sc) + 1),
                         totalResponseTime := totalResponseTime (Stats c) + d\<rparr>\<rparr>)
                 | Some _ \<Rightarrow> (Inl TypeAssertion, c))
            | _ \<Rightarrow> (Inl TypeAssertion, c)))"

text \<open>The accessors of an access log record: a missing entry is the zero value, one of another type
  panics.\<close>

record access_record =
  LogRemoteUser :: string
  LogStartTime :: "int option"
  LogStatusCode :: int
  LogResponseTime :: "int option"
  LogBytesWritten :: int

definition env_string :: "(string \<rightharpoonup> env_value) \<Rightarrow> string \<Rightarrow> string run" where
  "env_string env k = (case env k of None \<Rightarrow> Inr [] | Some (EnvString s) \<Rightarrow> Inr s | Some _ \<Rightarrow> Inl TypeAssertion)"

definition env_int :: "(string \<rightharpoonup> env_value) \<Rightarrow> string \<Rightarrow> int run" where
  "env_int env k = (case env k of None \<Rightarrow> Inr 0 | Some (EnvInt i) \<Rightarrow> Inr i | Some _ \<Rightarrow> Inl TypeAssertion)"

definition env_time :: "(string \<rightharpoonup> env_value) \<Rightarrow> string \<Rightarrow> int option run" where
  "env_time env k = (case env k of None \<Rightarrow> Inr None | Some (EnvTime i) \<Rightarrow> Inr (Some i) | Some _ \<Rightarrow> Inl TypeAssertion)"

definition env_duration :: "(string \<rightharpoonup> env_value) \<Rightarrow> string \<Rightarrow> int option run" where
  "env_duration env k =
     (case env k of None \<Rightarrow> Inr None | Some (EnvDuration i) \<Rightarrow> Inr (Some i) | Some _ \<Rightarrow> Inl TypeAssertion)"

definition makeAccessLogRecord :: "Request \<Rightarrow> access_record run" where
  "makeAccessLogRecord r =
     run_bind (env_time (Env r) ''START_TIME'') (\<lambda>timestamp.
     run_bind (env_int (Env r) ''STATUS_CODE'') (\<lambda>sc.
     run_bind (env_duration (Env r) ''ELAPSED_TIME'') (\<lambda>responseTime.
     run_bind (env_string (Env r) ''REMOTE_USER'') (\<lambda>remoteUser.
     run_bind (env_int (Env r) ''BYTES_WRITTEN'') (\<lambda>bytes.
       Inr \<lparr>LogRemoteUser = remoteUser, LogStartTime = timestamp, LogStatusCode = sc,
            LogResponseTime = responseTime, LogBytesWritten = bytes\<rparr>)))))"

text \<open>The two access log middlewares: \<open>render\<close> is the text template, or the JSON encoder, that turns
  the request and its record into a line.\<close>

definition AccessLogMiddleware :: "(Request \<Rightarrow> access_record \<Rightarrow> string) \<Rightarrow> 's middleware" where
  "AccessLogMiddleware render h =
     act_seq h (\<lambda>c. case makeAccessLogRecord (Req c) of
         Inl p \<Rightarrow> (Inl p, c)
       | Inr rec \<Rightarrow> (Inr (), c\<lparr>LogLines := LogLines c @ [render (Req c) rec]\<rparr>))"

subsection \<open>The stack\<close>

definition WrapMiddlewares :: "'s middleware list \<Rightarrow> 's handler \<Rightarrow> 's handler" where
  "WrapMiddlewares middlewares handler = foldr (\<lambda>m wrapped. m wrapped) middlewares handler"

text \<open>\<open>adapterFunc\<close>: a fresh request and writer around the original ones.\<close>

definition adapterFunc :: "'s handler \<Rightarrow> 's handler" where
  "adapterFunc handler c =
     handler (c\<lparr>Req := (Req c)\<lparr>PathParams := Map.empty, Env := Map.empty\<rparr>,
                Out := ([], \<lparr>Conn = Conn (snd (Out c)), baseWroteHeader = False\<rparr>)\<rparr>)"

record 's Api =
  api_stack :: "'s middleware list"
  api_app :: "'s handler option"

definition NewApi :: "'s Api" where
  "NewApi = \<lparr>api_stack = [], api_app = None\<rparr>"

definition Use :: "'s middleware list \<Rightarrow> 's Api \<Rightarrow> 's Api" where
  "Use middlewares api = api\<lparr>api_stack := api_stack api @ middlewares\<rparr>"

definition SetApp :: "'s handler \<Rightarrow> 's Api \<Rightarrow> 's Api" where
  "SetApp a api = api\<lparr>api_app := Some a\<rparr>"

definition MakeHandler :: "'s Api \<Rightarrow> 's handler" where
  "MakeHandler api =
     (let appFunc = (case api_app api of Some f \<Rightarrow> f | None \<Rightarrow> act_return ())
      in adapterFunc (WrapMiddlewares (api_stack api) appFunc))"

definition DefaultDevStack ::
  "(Request \<Rightarrow> access_record \<Rightarrow> string) \<Rightarrow> (go_panic \<Rightarrow> string) \<Rightarrow> 's middleware list" where
  "DefaultDevStack render trace =
     [AccessLogMiddleware render, TimerMiddleware, RecorderMiddleware, PoweredByMiddleware [],
      RecoverMiddleware trace False True, JsonIndentMiddleware [] [], ContentTypeCheckerMiddleware]"

definition DefaultCommonStack :: "(go_panic \<Rightarrow> string) \<Rightarrow> 's middleware list" where
  "DefaultCommonStack trace =
     [TimerMiddleware, RecorderMiddleware, PoweredByMiddleware [], RecoverMiddleware trace False False]"

subsection \<open>The application function of the router\<close>

definition AppFunc :: "'s handler router \<Rightarrow> 's handler" where
  "AppFunc rt c =
     (case findRouteFromURL rt (Method (Req c)) (ReqUrl (Req c)) of
        Inl p \<Rightarrow> (Inl p, c)
      | Inr (None, params, pathMatched) \<Rightarrow>
          (if pathMatched then Error ''Method not allowed'' 405 c else NotFound c)
      | Inr (Some route, params, pathMatched) \<Rightarrow>
          Func (Routes rt ! route) (c\<lparr>Req := (Req c)\<lparr>PathParams := params\<rparr>\<rparr>))"

end
