(* ===== verification/MiddlewareSpec.thy ===== *)
theory MiddlewareSpec
  imports Middleware
begin

text \<open>
  The properties of the middleware stack: what a guarding middleware lets through, CORS, the
  accounting of responses, and that the development stack answers every request.
\<close>

subsection \<open>Guards\<close>

text \<open>
  The contract of a middleware that decides from the connection state whether the wrapped handler
  runs at all: when it does not, nothing but the response changes.
\<close>

locale guard_middleware =
  fixes mw :: "'s middleware" and pass :: "'s conn \<Rightarrow> bool"
  assumes blocked: "\<not> pass c \<Longrightarrow> World (snd (mw h c)) = World c"
    and passed: "pass c \<Longrightarrow> \<exists>c'. mw h c = h c' \<and> World c' = World c"
begin

lemma effect_needs_pass: "World (snd (mw h c)) \<noteq> World c \<Longrightarrow> pass c"
  using blocked by blast

lemma preserves:
  assumes "\<And>c. I (World c) \<Longrightarrow> I (World (snd (h c)))" "I (World c)"
  shows "I (World (snd (mw h c)))"
  using assms blocked [of c h] passed [of c h] by (cases "pass c") auto

end

lemma act_seq_passes: "fst (m c) = Inr () \<Longrightarrow> act_seq m h c = h (snd (m c))"
  by (simp add: act_seq_eq)

lemma out_op_simps [simp]:
  "fst (out_op op c) = Inr ()" "World (snd (out_op op c)) = World c" "Req (snd (out_op op c)) = Req c"
  "Out (snd (out_op op c)) = run_op op (Out c)" "Stats (snd (out_op op c)) = Stats c"
  "LogLines (snd (out_op op c)) = LogLines c" "Clock (snd (out_op op c)) = Clock c"
  by (simp_all add: out_op_def)

lemma Error_simps [simp]:
  "fst (Error msg code c) = Inr ()" "World (snd (Error msg code c)) = World c"
  "Req (snd (Error msg code c)) = Req c" "Stats (snd (Error msg code c)) = Stats c"
  "Out (snd (Error msg code c)) = run_ops [OpWriteHeader code, OpWriteJson (error_json msg)] (Out c)"
  "LogLines (snd (Error msg code c)) = LogLines c" "Clock (snd (Error msg code c)) = Clock c"
  by (simp_all add: Error_def act_seq_eq run_ops_def)

lemma set_env_simps [simp]:
  "fst (set_env k v c) = Inr ()" "World (snd (set_env k v c)) = World c" "Out (snd (set_env k v c)) = Out c"
  "Stats (snd (set_env k v c)) = Stats c" "Env (Req (snd (set_env k v c))) = (Env (Req c))(k \<mapsto> v)"
  "LogLines (snd (set_env k v c)) = LogLines c" "Clock (snd (set_env k v c)) = Clock c"
  "ReqHeader (Req (snd (set_env k v c))) = ReqHeader (Req c)"
  by (simp_all add: set_env_def)

definition content_type_pass :: "'s conn \<Rightarrow> bool" where
  "content_type_pass c \<longleftrightarrow> \<not> 0 < ContentLength (Req c) \<or>
     (let (mediatype, params) = ParseMediaType (header_get (ReqHeader (Req c)) ''Content-Type'')
      in mediatype = ''application/json'' \<and>
         to_upper (case params ''charset'' of None \<Rightarrow> ''UTF-8'' | Some v \<Rightarrow> v) = ''UTF-8'')"

interpretation content_type: guard_middleware ContentTypeCheckerMiddleware content_type_pass
proof
  show "World (snd (ContentTypeCheckerMiddleware h c)) = World c"
    if "\<not> content_type_pass c" for h :: "'s handler" and c
    using that by (auto simp: ContentTypeCheckerMiddleware_def content_type_pass_def split: prod.splits)
  show "\<exists>c'. ContentTypeCheckerMiddleware h c = h c' \<and> World c' = World c"
    if "content_type_pass c" for h :: "'s handler" and c
    using that by (auto simp: ContentTypeCheckerMiddleware_def content_type_pass_def Let_def split: prod.splits)
qed

definition cors_pass :: "CorsMiddleware \<Rightarrow> 's conn \<Rightarrow> bool" where
  "cors_pass mw c \<longleftrightarrow> (let i = GetCorsInfo (Req c) in
     if IsCors i then OriginValidator mw (Origin i) (Req c) \<and> \<not> IsPreflight i
     else \<not> RejectNonCorsRequests mw)"

lemma cors_preflight_simps [simp]:
  "fst (cors_preflight mw i c) = Inr ()" "World (snd (cors_preflight mw i c)) = World c"
  by (simp_all add: cors_preflight_def act_seq_eq)

lemma expose_fold:
  assumes "fst (m c) = Inr ()" "World (snd (m c)) = World c" "Req (snd (m c)) = Req c" "Clock (snd (m c)) = Clock c"
  shows "fst (fold (\<lambda>x m. act_seq m (add_header k x)) xs m c) = Inr () \<and>
    World (snd (fold (\<lambda>x m. act_seq m (add_header k x)) xs m c)) = World c \<and>
    Req (snd (fold (\<lambda>x m. act_seq m (add_header k x)) xs m c)) = Req c \<and>
    Clock (snd (fold (\<lambda>x m. act_seq m (add_header k x)) xs m c)) = Clock c"
  using assms by (induction xs arbitrary: m) (simp_all add: act_seq_eq)

lemma cors_actual_passes:
  "\<exists>c'. cors_actual mw i h c = h c' \<and> World c' = World c \<and> Req c' = Req c \<and> Clock c' = Clock c"
proof -
  let ?m = "fold (\<lambda>exposed m. act_seq m (add_header ''Access-Control-Expose-Headers'' exposed))
    (AccessControlExposeHeaders mw) (act_return ())"
  have m: "fst (?m c) = Inr ()" "World (snd (?m c)) = World c" "Req (snd (?m c)) = Req c" "Clock (snd (?m c)) = Clock c"
    using expose_fold [of "act_return ()" c] by simp_all
  let ?m3 = "if AccessControlAllowCredentials mw
    then set_header ''Access-Control-Allow-Credentials'' ''true'' else act_return ()"
  let ?c2 = "snd (set_header ''Access-Control-Allow-Origin'' (Origin i) (snd (?m c)))"
  have m3: "fst (?m3 x) = Inr ()" "World (snd (?m3 x)) = World x" "Req (snd (?m3 x)) = Req x"
    "Clock (snd (?m3 x)) = Clock x" for x :: "'a conn"
    by simp_all
  have "cors_actual mw i h c = h (snd (?m3 ?c2))"
    unfolding cors_actual_def by (simp only: act_seq_passes m(1) m3(1) out_op_simps(1))
  moreover have "World (snd (?m3 ?c2)) = World c" "Req (snd (?m3 ?c2)) = Req c"
    "Clock (snd (?m3 ?c2)) = Clock c" using m m3 by simp_all
  ultimately show ?thesis by blast
qed

interpretation cors: guard_middleware "Cors_MiddlewareFunc mw" "cors_pass mw"
proof
  show "World (snd (Cors_MiddlewareFunc mw h c)) = World c"
    if "\<not> cors_pass mw c" for h :: "'s handler" and c
    using that by (auto simp: Cors_MiddlewareFunc_def cors_pass_def Let_def)
  show "\<exists>c'. Cors_MiddlewareFunc mw h c = h c' \<and> World c' = World c"
    if "cors_pass mw c" for h :: "'s handler" and c
    using that cors_actual_passes [of mw "GetCorsInfo (Req c)" h c]
    by (auto simp: Cors_MiddlewareFunc_def cors_pass_def Let_def split: if_splits)
qed

definition basic_pass :: "AuthBasicMiddleware \<Rightarrow> 's conn \<Rightarrow> bool" where
  "basic_pass mw c \<longleftrightarrow> (case decodeBasicAuthHeader (header_get (ReqHeader (Req c)) ''Authorization'') of
     None \<Rightarrow> False
   | Some (user, password) \<Rightarrow> BasicAuthenticator mw user password \<and> BasicAuthorizator mw user (Req c))"

lemma basic_unauthorized_simps [simp]:
  "fst (basic_unauthorized mw c) = Inr ()" "World (snd (basic_unauthorized mw c)) = World c"
  by (simp_all add: basic_unauthorized_def act_seq_eq)

lemma decode_basic_empty: "decodeBasicAuthHeader [] = None"
  by (simp add: decodeBasicAuthHeader_def)

interpretation basic: guard_middleware "Basic_MiddlewareFunc mw" "basic_pass mw"
proof
  show "World (snd (Basic_MiddlewareFunc mw h c)) = World c"
    if "\<not> basic_pass mw c" for h :: "'s handler" and c
    using that by (auto simp: Basic_MiddlewareFunc_def basic_pass_def Let_def split: option.splits)
  show "\<exists>c'. Basic_MiddlewareFunc mw h c = h c' \<and> World c' = World c"
    if "basic_pass mw c" for h :: "'s handler" and c
  proof -
    have "header_get (ReqHeader (Req c)) ''Authorization'' \<noteq> []"
      using that by (auto simp: basic_pass_def decode_basic_empty)
    with that show ?thesis
      by (auto simp: Basic_MiddlewareFunc_def basic_pass_def Let_def act_seq_eq split: option.splits)
  qed
qed


subsection \<open>Well-behaved handlers\<close>

text \<open>
  What the stack relies on: a handler uses its writer through its methods, leaves the entries that
  the surrounding middlewares keep in \<open>Env\<close> and the counters alone, sets \<open>REMOTE_USER\<close> only to a
  string, and does not end the process.  It may panic.
\<close>

definition stack_keys :: "string set" where
  "stack_keys = {''START_TIME'', ''STATUS_CODE'', ''ELAPSED_TIME'', ''BYTES_WRITTEN''}"

definition user_ok :: "Request \<Rightarrow> bool" where
  "user_ok r \<longleftrightarrow> (\<exists>s. env_string (Env r) ''REMOTE_USER'' = Inr s)"

definition keeps_stack :: "'s conn \<Rightarrow> 's conn \<Rightarrow> bool" where
  "keeps_stack c c' \<longleftrightarrow> Stats c' = Stats c \<and> Clock c' = Clock c \<and>
     (\<forall>k \<in> stack_keys. Env (Req c') k = Env (Req c) k) \<and> (user_ok (Req c) \<longrightarrow> user_ok (Req c'))"

definition no_exit :: "'a run \<Rightarrow> bool" where
  "no_exit r \<longleftrightarrow> (\<forall>m. r \<noteq> Inl (ProcessExit m))"

definition well_behaved :: "'s handler \<Rightarrow> bool" where
  "well_behaved h \<longleftrightarrow> (\<forall>c. no_exit (fst (h c)) \<and> keeps_stack c (snd (h c)) \<and>
     (\<exists>ops. Out (snd (h c)) = run_ops ops (Out c)))"

lemma keeps_stack_refl [simp]: "keeps_stack c c"
  by (simp add: keeps_stack_def)

lemma keeps_stack_trans: "keeps_stack a b \<Longrightarrow> keeps_stack b c \<Longrightarrow> keeps_stack a c"
  by (simp add: keeps_stack_def)

lemma no_exit_Inr [simp]: "no_exit (Inr x)"
  by (simp add: no_exit_def)

lemma run_ops_append: "run_ops (ops @ ops') x = run_ops ops' (run_ops ops x)"
  by (simp add: run_ops_def)

lemma run_ops_Nil [simp]: "run_ops [] x = x"
  by (simp add: run_ops_def)

lemma well_behaved_out_op: "well_behaved (out_op op)"
  unfolding well_behaved_def keeps_stack_def by (auto intro!: exI [of _ "[op]"] simp: run_ops_def)

lemma well_behaved_Error: "well_behaved (Error msg code)"
  unfolding well_behaved_def keeps_stack_def by (auto intro!: exI)

lemma well_behaved_return: "well_behaved (act_return ())"
  unfolding well_behaved_def by (auto intro!: exI [of _ "[]"])

lemma well_behaved_seq:
  assumes "well_behaved m" "well_behaved h"
  shows "well_behaved (act_seq m h)"
  unfolding well_behaved_def
proof
  fix c
  from assms(1) obtain ops where m: "no_exit (fst (m c))" "keeps_stack c (snd (m c))"
    "Out (snd (m c)) = run_ops ops (Out c)" unfolding well_behaved_def by blast
  from assms(2) obtain ops' where h: "no_exit (fst (h (snd (m c))))" "keeps_stack (snd (m c)) (snd (h (snd (m c))))"
    "Out (snd (h (snd (m c)))) = run_ops ops' (Out (snd (m c)))" unfolding well_behaved_def by blast
  show "no_exit (fst (act_seq m h c)) \<and> keeps_stack c (snd (act_seq m h c)) \<and>
      (\<exists>ops. Out (snd (act_seq m h c)) = run_ops ops (Out c))"
  proof (cases "fst (m c)")
    case (Inl p)
    with m show ?thesis by (auto simp: act_seq_eq no_exit_def)
  next
    case (Inr u)
    with m h keeps_stack_trans [OF m(2) h(2)] show ?thesis
      by (auto simp: act_seq_eq intro!: exI [of _ "ops @ ops'"] simp: run_ops_append)
  qed
qed

lemma well_behaved_if:
  assumes "well_behaved h" "well_behaved h'"
  shows "well_behaved (\<lambda>c. if P c then h c else h' c)"
  using assms unfolding well_behaved_def by simp

lemma well_behaved_pointwise:
  assumes "\<And>c. \<exists>h'. well_behaved h' \<and> h c = h' c"
  shows "well_behaved h"
  unfolding well_behaved_def
proof
  fix c
  from assms obtain h' where "well_behaved h'" "h c = h' c" by blast
  then show "no_exit (fst (h c)) \<and> keeps_stack c (snd (h c)) \<and> (\<exists>ops. Out (snd (h c)) = run_ops ops (Out c))"
    unfolding well_behaved_def by simp
qed

lemma well_behaved_ContentType:
  assumes "well_behaved h"
  shows "well_behaved (ContentTypeCheckerMiddleware h)"
proof (rule well_behaved_pointwise)
  fix c :: "'a conn"
  consider msg where "ContentTypeCheckerMiddleware h c = Error msg 415 c" | "ContentTypeCheckerMiddleware h c = h c"
    by (fastforce simp: ContentTypeCheckerMiddleware_def Let_def split: prod.splits if_splits)
  then show "\<exists>h'. well_behaved h' \<and> ContentTypeCheckerMiddleware h c = h' c"
    using assms well_behaved_Error by cases blast+
qed

lemma well_behaved_preflight: "well_behaved (cors_preflight mw i)"
  unfolding cors_preflight_def
  by (intro well_behaved_seq well_behaved_out_op | simp add: well_behaved_Error well_behaved_return well_behaved_out_op
      well_behaved_seq)+

lemma well_behaved_fold:
  "well_behaved m \<Longrightarrow> well_behaved (fold (\<lambda>x m. act_seq m (add_header k x)) xs m)"
  by (induction xs arbitrary: m) (simp_all add: well_behaved_seq well_behaved_out_op)

lemma well_behaved_actual: "well_behaved h \<Longrightarrow> well_behaved (cors_actual mw i h)"
  unfolding cors_actual_def
  by (intro well_behaved_seq well_behaved_fold well_behaved_out_op well_behaved_return)
    (simp_all add: well_behaved_out_op well_behaved_return)

lemma well_behaved_Cors:
  assumes "well_behaved h"
  shows "well_behaved (Cors_MiddlewareFunc mw h)"
proof (rule well_behaved_pointwise)
  fix c :: "'a conn"
  let ?i = "GetCorsInfo (Req c)"
  consider msg where "Cors_MiddlewareFunc mw h c = Error msg 403 c" | "Cors_MiddlewareFunc mw h c = h c"
    | "Cors_MiddlewareFunc mw h c = cors_preflight mw ?i c" | "Cors_MiddlewareFunc mw h c = cors_actual mw ?i h c"
    by (cases "IsCors ?i"; cases "RejectNonCorsRequests mw"; cases "OriginValidator mw (Origin ?i) (Req c)";
        cases "IsPreflight ?i"; simp add: Cors_MiddlewareFunc_def Let_def)
  then show "\<exists>h'. well_behaved h' \<and> Cors_MiddlewareFunc mw h c = h' c"
    using assms well_behaved_Error well_behaved_preflight well_behaved_actual by cases blast+
qed

subsection \<open>Through the stack\<close>

text \<open>On a writer that has not written anything yet.\<close>

definition fresh_ok :: "'s handler \<Rightarrow> bool" where
  "fresh_ok h \<longleftrightarrow> (\<forall>c. writer_ok [] [] (Out c) \<longrightarrow> no_exit (fst (h c)) \<and> keeps_stack c (snd (h c)) \<and>
     (\<exists>cs b. writer_ok cs b (Out (snd (h c))) \<and> list_all2 same_shape (fst (Out (snd (h c)))) (fst (Out c))))"

lemma fresh_okD:
  assumes "fresh_ok h" "writer_ok [] [] (Out c)"
  obtains cs b where "no_exit (fst (h c))" "keeps_stack c (snd (h c))" "writer_ok cs b (Out (snd (h c)))"
    "list_all2 same_shape (fst (Out (snd (h c)))) (fst (Out c))"
  using assms unfolding fresh_ok_def by blast

lemma well_behaved_fresh:
  assumes "well_behaved h"
  shows "fresh_ok h"
  unfolding fresh_ok_def
proof (intro allI impI)
  fix c :: "'a conn" assume w: "writer_ok [] [] (Out c)"
  from assms obtain ops where "no_exit (fst (h c))" "keeps_stack c (snd (h c))"
    "Out (snd (h c)) = run_ops ops (Out c)" unfolding well_behaved_def by blast
  with run_ops_ok [OF w, of ops] show "no_exit (fst (h c)) \<and> keeps_stack c (snd (h c)) \<and>
     (\<exists>cs b. writer_ok cs b (Out (snd (h c))) \<and> list_all2 same_shape (fst (Out (snd (h c)))) (fst (Out c)))"
    by auto
qed


text \<open>A handler that always returns.\<close>

definition answers :: "'s handler \<Rightarrow> bool" where
  "answers h \<longleftrightarrow> fresh_ok h \<and> (\<forall>c. writer_ok [] [] (Out c) \<longrightarrow> fst (h c) = Inr ())"

definition push :: "layer \<Rightarrow> 's conn \<Rightarrow> 's conn" where
  "push l c = c\<lparr>Out := (l # fst (Out c), snd (Out c))\<rparr>"

lemma writer_ok_push: "layer_ok [] [] l \<Longrightarrow> writer_ok [] [] (Out c) \<Longrightarrow> writer_ok [] [] (Out (push l c))"
  by (simp add: writer_ok_def push_def)

lemma keeps_stack_Out [simp]:
  "keeps_stack (c\<lparr>Out := x\<rparr>) c' = keeps_stack c c'" "keeps_stack c (c'\<lparr>Out := x\<rparr>) = keeps_stack c c'"
  "keeps_stack (push l c) c' = keeps_stack c c'"
  by (simp_all add: keeps_stack_def push_def)

lemma with_layer_fresh:
  assumes "fresh_ok h" "writer_ok [] [] (Out c)" "layer_ok [] [] l"
  obtains r l' c' cs b where "h (push l c) = (r, c')" "no_exit r" "keeps_stack c c'"
    "fst (Out c') = l' # tl (fst (Out c'))" "same_shape l' l" "layer_ok cs b l'"
    "writer_ok cs b (tl (fst (Out c')), snd (Out c'))"
    "list_all2 same_shape (tl (fst (Out c'))) (fst (Out c))"
    "with_layer l h k c = (case r of Inl p \<Rightarrow> (Inl p, c'\<lparr>Out := (tl (fst (Out c')), snd (Out c'))\<rparr>)
       | Inr _ \<Rightarrow> k l' (c'\<lparr>Out := (tl (fst (Out c')), snd (Out c'))\<rparr>))"
proof -
  obtain r c' where h: "h (push l c) = (r, c')" by fastforce
  from fresh_okD [OF assms(1) writer_ok_push [OF assms(3,2)]] h obtain cs b where
    f: "no_exit r" "keeps_stack c c'" "writer_ok cs b (Out c')"
      "list_all2 same_shape (fst (Out c')) (l # fst (Out c))"
    by (auto simp: push_def)
  from f(4) obtain l' ls' where l: "fst (Out c') = l' # ls'" "same_shape l' l" "list_all2 same_shape ls' (fst (Out c))"
    by (auto simp: list_all2_Cons2)
  have "with_layer l h k c = (case r of Inl p \<Rightarrow> (Inl p, c'\<lparr>Out := (tl (fst (Out c')), snd (Out c'))\<rparr>)
       | Inr _ \<Rightarrow> k l' (c'\<lparr>Out := (tl (fst (Out c')), snd (Out c'))\<rparr>))"
    using h l(1) by (simp add: with_layer_def push_def Let_def split: sum.split)
  then have wl: "with_layer l h k c = (case r of Inl p \<Rightarrow> (Inl p, c'\<lparr>Out := (tl (fst (Out c')), snd (Out c'))\<rparr>)
       | Inr _ \<Rightarrow> k l' (c'\<lparr>Out := (tl (fst (Out c')), snd (Out c'))\<rparr>))" .
  have top: "fst (Out c') = l' # tl (fst (Out c'))" using l(1) by simp
  have lo: "layer_ok cs b l'" "writer_ok cs b (tl (fst (Out c')), snd (Out c'))"
    using f(3) l(1) by (simp_all add: writer_ok_def)
  have sh: "list_all2 same_shape (tl (fst (Out c'))) (fst (Out c))" using l by simp
  from that [OF h f(1,2) top l(2) lo sh wl] show thesis .
qed

lemma fresh_JsonIndent:
  assumes "fresh_ok h"
  shows "fresh_ok (JsonIndentMiddleware p i h)"
  unfolding fresh_ok_def
proof (intro allI impI)
  fix c :: "'a conn" assume w: "writer_ok [] [] (Out c)"
  let ?l = "JsonIndentLayer False p (if i = [] then ''  '' else i)"
  have "layer_ok [] [] ?l" by (simp add: layer_ok_def)
  from assms w this obtain r l' c' cs b where "h (push ?l c) = (r, c')"
    "no_exit r" "keeps_stack c c'" "fst (Out c') = l' # tl (fst (Out c'))" "same_shape l' ?l" "layer_ok cs b l'"
    "writer_ok cs b (tl (fst (Out c')), snd (Out c'))"
    "list_all2 same_shape (tl (fst (Out c'))) (fst (Out c))"
    "with_layer ?l h (\<lambda>l. act_return ()) c = (case r of Inl p \<Rightarrow> (Inl p, c'\<lparr>Out := (tl (fst (Out c')), snd (Out c'))\<rparr>)
       | Inr _ \<Rightarrow> act_return () (c'\<lparr>Out := (tl (fst (Out c')), snd (Out c'))\<rparr>))"
    by (rule with_layer_fresh)
  moreover have "JsonIndentMiddleware p i h c = with_layer ?l h (\<lambda>l. act_return ()) c"
    by (simp add: JsonIndentMiddleware_def)
  ultimately show "no_exit (fst (JsonIndentMiddleware p i h c)) \<and> keeps_stack c (snd (JsonIndentMiddleware p i h c)) \<and>
     (\<exists>cs b. writer_ok cs b (Out (snd (JsonIndentMiddleware p i h c))) \<and>
        list_all2 same_shape (fst (Out (snd (JsonIndentMiddleware p i h c)))) (fst (Out c)))"
    by (cases r) (simp_all add: no_exit_def, blast+)
qed

text \<open>Recovering: the panic becomes a 500 on top of whatever the handler has written.\<close>

definition recovered :: "(go_panic \<Rightarrow> string) \<Rightarrow> bool \<Rightarrow> bool \<Rightarrow> go_panic \<Rightarrow> 's handler" where
  "recovered trace asJson showTrace p =
     act_seq (logError asJson (trace p))
       (if showTrace then Error (trace p) 500 else Error ''Internal Server Error'' 500)"

lemma Recover_eq:
  "no_exit (fst (h c)) \<Longrightarrow> RecoverMiddleware trace a s h c =
     (case fst (h c) of Inr _ \<Rightarrow> (Inr (), snd (h c)) | Inl p \<Rightarrow> recovered trace a s p (snd (h c)))"
  by (auto simp: RecoverMiddleware_def recovered_def no_exit_def split: prod.splits sum.splits go_panic.splits)

lemma recovered_simps:
  "fst (recovered trace a s p c) = Inr ()" "keeps_stack c (snd (recovered trace a s p c))"
  "World (snd (recovered trace a s p c)) = World c"
  "Out (snd (recovered trace a s p c)) = run_ops [OpWriteHeader 500,
     OpWriteJson (error_json (if s then trace p else ''Internal Server Error''))] (Out c)"
  by (simp_all add: recovered_def act_seq_eq logError_def keeps_stack_def)

lemma answers_Recover:
  assumes "fresh_ok h"
  shows "answers (RecoverMiddleware trace a s h)"
proof -
  have "fst (RecoverMiddleware trace a s h c) = Inr () \<and> keeps_stack c (snd (RecoverMiddleware trace a s h c)) \<and>
     (\<exists>cs b. writer_ok cs b (Out (snd (RecoverMiddleware trace a s h c))) \<and>
        list_all2 same_shape (fst (Out (snd (RecoverMiddleware trace a s h c)))) (fst (Out c)))"
    if w: "writer_ok [] [] (Out c)" for c
  proof -
    from fresh_okD [OF assms w] obtain cs b where f: "no_exit (fst (h c))" "keeps_stack c (snd (h c))"
      "writer_ok cs b (Out (snd (h c)))" "list_all2 same_shape (fst (Out (snd (h c)))) (fst (Out c))" .
    show ?thesis
    proof (cases "fst (h c)")
      case (Inr u)
      with f show ?thesis by (auto simp: Recover_eq)
    next
      case (Inl p)
      let ?ops = "[OpWriteHeader 500, OpWriteJson (error_json (if s then trace p else ''Internal Server Error''))]"
      have "RecoverMiddleware trace a s h c = recovered trace a s p (snd (h c))"
        using Inl f by (simp add: Recover_eq)
      moreover have "keeps_stack c (snd (recovered trace a s p (snd (h c))))"
        using f(2) recovered_simps(2) keeps_stack_trans by blast
      moreover have "list_all2 same_shape (fst (run_ops ?ops (Out (snd (h c))))) (fst (Out c))"
        using run_ops_ok [OF f(3), of ?ops] f(4)
        by (blast intro: list_all2_trans [of same_shape same_shape same_shape] shape_trans)
      moreover have "\<exists>cs b. writer_ok cs b (run_ops ?ops (Out (snd (h c))))"
        using run_ops_ok [OF f(3), of ?ops] by blast
      ultimately show ?thesis
        by (simp only: recovered_simps simp_thms ex_simps)
    qed
  qed
  then show ?thesis unfolding answers_def fresh_ok_def by (metis no_exit_Inr)
qed

lemma answers_PoweredBy:
  assumes "answers h"
  shows "answers (PoweredByMiddleware x h)"
proof -
  let ?op = "OpAddHeader ''X-Powered-By'' (if x \<noteq> [] then x else ''go-json-rest'')"
  have e: "PoweredByMiddleware x h c = h (snd (out_op ?op c))" for c
    by (simp add: PoweredByMiddleware_def act_seq_passes)
  have w: "writer_ok [] [] (Out (snd (out_op ?op c)))" if "writer_ok [] [] (Out c)" for c :: "'a conn"
    using run_op_ok [OF that, of ?op] by simp
  have k: "keeps_stack (snd (out_op ?op c)) c' = keeps_stack c c'" for c c' :: "'a conn"
    by (simp add: keeps_stack_def)
  have l: "fst (Out (snd (out_op ?op c))) = fst (Out c)" for c :: "'a conn"
    by (cases "Out c") simp
  show ?thesis
    using assms w unfolding answers_def fresh_ok_def e by (metis k l)
qed


text \<open>What the recorder leaves in the request.\<close>

definition accounted :: "nat list \<Rightarrow> bytes \<Rightarrow> Request \<Rightarrow> bool" where
  "accounted cs b r \<longleftrightarrow>
     Env r ''STATUS_CODE'' = Some (EnvInt (int (if cs = [] then 0 else last cs))) \<and>
     Env r ''BYTES_WRITTEN'' = Some (EnvInt (int (length b)))"

lemma user_ok_upd: "k \<noteq> ''REMOTE_USER'' \<Longrightarrow> user_ok (r\<lparr>Env := (Env r)(k \<mapsto> v)\<rparr>) = user_ok r"
  by (simp add: user_ok_def env_string_def)

subsection \<open>The application function\<close>

lemma first_match_less: "first_match routes m u = Some i \<Longrightarrow> i < length routes"
  by (auto simp: first_match_def find_Some_iff)

lemma well_behaved_params:
  assumes "well_behaved h"
  shows "well_behaved (\<lambda>c. h (c\<lparr>Req := (Req c)\<lparr>PathParams := params\<rparr>\<rparr>))"
  unfolding well_behaved_def
proof
  fix c :: "'a conn"
  let ?c = "c\<lparr>Req := (Req c)\<lparr>PathParams := params\<rparr>\<rparr>"
  from assms obtain ops where "no_exit (fst (h ?c))" "keeps_stack ?c (snd (h ?c))"
    "Out (snd (h ?c)) = run_ops ops (Out ?c)" unfolding well_behaved_def by blast
  then show "no_exit (fst (h ?c)) \<and> keeps_stack c (snd (h ?c)) \<and> (\<exists>ops. Out (snd (h ?c)) = run_ops ops (Out c))"
    by (auto simp: keeps_stack_def user_ok_def)
qed

lemma AppFunc_cases:
  assumes "MakeRouter routes = Inr rt"
  obtains i params where "first_match routes (Method (Req c)) (ReqUrl (Req c)) = Some i" "i < length routes"
    "AppFunc rt c = Func (routes ! i) (c\<lparr>Req := (Req c)\<lparr>PathParams := params\<rparr>\<rparr>)"
  | "first_match routes (Method (Req c)) (ReqUrl (Req c)) = None"
    "\<exists>r \<in> set routes. route_path_matches r (ReqUrl (Req c))" "AppFunc rt c = Error ''Method not allowed'' 405 c"
  | "first_match routes (Method (Req c)) (ReqUrl (Req c)) = None"
    "\<not> (\<exists>r \<in> set routes. route_path_matches r (ReqUrl (Req c)))" "AppFunc rt c = NotFound c"
proof -
  from dispatch_law [OF assms, of "Method (Req c)" "ReqUrl (Req c)"] obtain params where
    f: "findRouteFromURL rt (Method (Req c)) (ReqUrl (Req c)) =
      Inr (first_match routes (Method (Req c)) (ReqUrl (Req c)), params,
        \<exists>r \<in> set routes. route_path_matches r (ReqUrl (Req c)))" ..
  have rt: "Routes rt = routes" using assms by (rule MakeRouter_table)
  show thesis
  proof (cases "first_match routes (Method (Req c)) (ReqUrl (Req c))")
    case None
    with f that(2,3) show thesis by (auto simp: AppFunc_def split: if_splits)
  next
    case (Some i)
    with f rt that(1) first_match_less [OF Some] show thesis by (simp add: AppFunc_def)
  qed
qed

lemma well_behaved_AppFunc:
  assumes "MakeRouter routes = Inr rt" "\<And>r. r \<in> set routes \<Longrightarrow> well_behaved (Func r)"
  shows "well_behaved (AppFunc rt)"
proof (rule well_behaved_pointwise)
  fix c
  from assms(1) show "\<exists>h'. well_behaved h' \<and> AppFunc rt c = h' c"
  proof (cases rule: AppFunc_cases [where c = c])
    case (1 i params)
    then have "well_behaved (\<lambda>c. Func (routes ! i) (c\<lparr>Req := (Req c)\<lparr>PathParams := params\<rparr>\<rparr>))"
      by (intro well_behaved_params assms(2)) simp
    with 1 show ?thesis by blast
  next
    case 2
    then show ?thesis using well_behaved_Error by blast
  next
    case 3
    then show ?thesis using well_behaved_Error unfolding NotFound_def by blast
  qed
qed

subsection \<open>The properties of the stack\<close>

text \<open>
  The router answers a request by the first defined route that matches it, with the
  matched parameters in the request; without one it answers 405 when some route matches the path
  with another method, and 404 otherwise.
\<close>

theorem AppFunc_dispatch:
  assumes "MakeRouter routes = Inr rt"
  shows "case first_match routes (Method (Req c)) (ReqUrl (Req c)) of
     Some i \<Rightarrow> \<exists>params. AppFunc rt c = Func (routes ! i) (c\<lparr>Req := (Req c)\<lparr>PathParams := params\<rparr>\<rparr>)
   | None \<Rightarrow> AppFunc rt c = (if \<exists>r \<in> set routes. route_path_matches r (ReqUrl (Req c))
       then Error ''Method not allowed'' 405 c else Error ''Resource not found'' 404 c)"
  by (rule AppFunc_cases [OF assms, of c]) (auto simp: NotFound_def)

text \<open>
  CORS pre-flight requests never reach the application: the result does not depend on
  the wrapped handler and leaves the program's state alone, and on a fresh response the status is
  200 exactly when the requested method and all requested headers are allowed, and 403 otherwise.
\<close>

theorem cors_preflight_exact:
  assumes "IsCors (GetCorsInfo (Req c))" "IsPreflight (GetCorsInfo (Req c))"
    and "OriginValidator mw (Origin (GetCorsInfo (Req c))) (Req c)" "writer_ok [] [] (Out c)"
  shows "Cors_MiddlewareFunc mw h c = Cors_MiddlewareFunc mw h' c \<and>
    fst (Cors_MiddlewareFunc mw h c) = Inr () \<and> World (snd (Cors_MiddlewareFunc mw h c)) = World c \<and>
    Status (Conn (snd (Out (snd (Cors_MiddlewareFunc mw h c))))) =
      Some (if AccessControlRequestMethod (GetCorsInfo (Req c)) \<in> set (allowedMethods mw) \<and>
               set (AccessControlRequestHeaders (GetCorsInfo (Req c))) \<subseteq> set (allowedHeaders mw)
            then 200 else 403)"
proof -
  let ?i = "GetCorsInfo (Req c)"
  have e: "Cors_MiddlewareFunc mw h c = cors_preflight mw ?i c" for h
    using assms by (simp add: Cors_MiddlewareFunc_def Let_def)
  have st: "Status (Conn (snd (run_ops ops (Out c)))) = Some code" if "op_codes False ops = [code]" for ops code
    using run_ops_ok [OF assms(4), of ops] that by (simp add: writer_ok_def base_ok_def)
  have ops: "\<exists>ops. Out (snd (cors_preflight mw ?i c)) = run_ops ops (Out c) \<and>
      op_codes False ops = [if AccessControlRequestMethod ?i \<in> set (allowedMethods mw) \<and>
               set (AccessControlRequestHeaders ?i) \<subseteq> set (allowedHeaders mw) then 200 else 403]"
  proof (cases "AccessControlRequestMethod ?i \<in> set (allowedMethods mw) \<and>
               set (AccessControlRequestHeaders ?i) \<subseteq> set (allowedHeaders mw)")
    case False
    then have "cors_preflight mw ?i c = Error ''Invalid Preflight Request'' 403 c"
      by (auto simp: cors_preflight_def)
    with False show ?thesis
      by (intro exI [of _ "[OpWriteHeader 403, OpWriteJson (error_json ''Invalid Preflight Request'')]"]) auto
  next
    case True
    let ?cred = "if AccessControlAllowCredentials mw then [OpSetHeader ''Access-Control-Allow-Credentials'' ''true''] else []"
    let ?ops = "[OpSetHeader ''Access-Control-Allow-Methods'' (join_with '','' (allowedMethods mw)),
      OpSetHeader ''Access-Control-Allow-Headers'' (join_with '','' (allowedHeaders mw)),
      OpSetHeader ''Access-Control-Allow-Origin'' (Origin ?i)] @ ?cred @
      [OpSetHeader ''Access-Control-Max-Age'' (show_int (AccessControlMaxAge mw)), OpWriteHeader 200]"
    have "Out (snd (cors_preflight mw ?i c)) = run_ops ?ops (Out c)"
      using True by (cases "AccessControlAllowCredentials mw") (auto simp: cors_preflight_def act_seq_passes run_ops_def)
    moreover have "op_codes False ?ops = [200]" by simp
    ultimately show ?thesis using True by (intro exI [of _ ?ops]) simp
  qed
  then obtain ops where "Out (snd (cors_preflight mw ?i c)) = run_ops ops (Out c)"
    "op_codes False ops = [if AccessControlRequestMethod ?i \<in> set (allowedMethods mw) \<and>
               set (AccessControlRequestHeaders ?i) \<subseteq> set (allowedHeaders mw) then 200 else 403]" by blast
  with st [OF this(2)] show ?thesis by (simp only: e cors_preflight_simps simp_thms)
qed

text \<open>
  The user name and password of a Basic authorization header are read back exactly, for
  every user name without a colon.
\<close>

theorem basic_header_roundtrip:
  assumes "CHR '':'' \<notin> set user"
  shows "decodeBasicAuthHeader (''Basic '' @ b64_encode StdAlphabet (user @ '':'' @ password)) = Some (user, password)"
proof -
  have "split_two (CHR '' '') (''Basic'' @ CHR '' '' # s) = [''Basic'', s]" for s
    by (rule split_two_append) simp
  then have "split_two (CHR '' '') (''Basic '' @ s) = [''Basic'', s]" for s by simp
  moreover have "split_two (CHR '':'') (user @ '':'' @ password) = [user, password]"
    using split_two_append [OF assms] by simp
  ultimately show ?thesis
    by (simp add: decodeBasicAuthHeader_def b64_decode_encode)
qed

theorem basic_header_roundtrip_witness:
  "decodeBasicAuthHeader (''Basic '' @ b64_encode StdAlphabet (''bob'' @ '':'' @ ''s:3'')) = Some (''bob'', ''s:3'')"
  by (rule basic_header_roundtrip) simp


subsection \<open>Witnesses\<close>

definition example_request :: Request where
  "example_request = \<lparr>Method = ''GET'', ReqUrl = empty_url\<lparr>Path := ''/a''\<rparr>, ReqHeader = [], ReqHost = ''h'',
     Body = Some [], ContentLength = 0, PathParams = Map.empty, Env = Map.empty\<rparr>"

definition example_conn :: "Request \<Rightarrow> 's \<Rightarrow> 's conn" where
  "example_conn r s = \<lparr>Req = r,
     Out = ([], \<lparr>Conn = \<lparr>RespHeader = [], Status = None, SentHeader = [], RespBody = []\<rparr>, baseWroteHeader = False\<rparr>),
     LogLines = [], Clock = int, Ticks = 0, Stats = \<lparr>responseCounts = (\<lambda>_. 0), totalResponseTime = 0\<rparr>,
     World = s\<rparr>"

definition example_routes :: "unit handler RouteDef list" where
  "example_routes = [Get ''/a'' (write_json JNull)]"

lemma example_router: "\<exists>rt. MakeRouter example_routes = Inr rt"
proof -
  have e: "escapedPathExp ''/a'' = Inr ''/a''"
    by (rule escapedPathExp_plain [where t = "''a''"]) (simp_all add: plain_exp_char_def path_char_def is_alnum_def)
  have "\<exists>t. start_loop 0 example_routes (trie_New, Map.empty) = Inr t"
    by (simp add: example_routes_def Get_def e AddRoute_def trie_New_def empty_node_def or_fresh_def)
  moreover have "start \<lparr>Routes = example_routes, disableTrieCompression = False, index = Map.empty, trie = trie_New\<rparr> \<noteq> Inl CompressOutOfFuel"
    by (rule start_no_fuel_error)
  ultimately show ?thesis by (auto simp: MakeRouter_def start_def split: option.splits)
qed

lemma example_first_match: "first_match example_routes ''GET'' (empty_url\<lparr>Path := ''/a''\<rparr>) = Some 0"
proof -
  have e: "escapedPathExp ''/a'' = Inr ''/a''"
    by (rule escapedPathExp_plain [where t = "''a''"]) (simp_all add: plain_exp_char_def path_char_def is_alnum_def)
  have u: "escapedPath (empty_url\<lparr>Path := ''/a''\<rparr>) = ''/a''"
    by (simp add: escapedPath_path empty_url_def url_escape_def path_char_def is_alnum_def)
  show ?thesis
    by (simp add: first_match_def route_matches_def route_path_matches_def example_routes_def Get_def e u)
qed

lemma example_well_behaved: "\<forall>r \<in> set example_routes. well_behaved (Func r)"
  by (simp add: example_routes_def Get_def well_behaved_out_op)

definition example_cors :: CorsMiddleware where
  "example_cors = \<lparr>RejectNonCorsRequests = False, OriginValidator = (\<lambda>_ _. True), AllowedMethods = [''get''],
      AllowedHeaders = [], AccessControlExposeHeaders = [], AccessControlAllowCredentials = True,
      AccessControlMaxAge = 3600\<rparr>"

definition example_preflight :: Request where
  "example_preflight = example_request\<lparr>Method := ''OPTIONS'',
     ReqHeader := [(''Access-Control-Request-Method'', [''GET'']), (''Origin'', [''null''])]\<rparr>"

lemma example_fresh: "writer_ok [] [] (Out (example_conn r s))"
  by (simp add: example_conn_def writer_ok_def base_ok_def)

theorem AppFunc_dispatch_witness:
  "\<exists>rt params. MakeRouter example_routes = Inr rt \<and>
     AppFunc rt (example_conn example_request ()) =
       write_json JNull ((example_conn example_request ())\<lparr>Req := example_request\<lparr>PathParams := params\<rparr>\<rparr>)"
proof -
  from example_router obtain rt where rt: "MakeRouter example_routes = Inr rt" ..
  have r: "Req (example_conn example_request ()) = example_request" "Method example_request = ''GET''"
    "ReqUrl example_request = empty_url\<lparr>Path := ''/a''\<rparr>"
    by (simp_all add: example_conn_def example_request_def)
  have "Func (example_routes ! 0) = write_json JNull" by (simp add: example_routes_def Get_def)
  with AppFunc_dispatch [OF rt, of "example_conn example_request ()"] rt show ?thesis
    unfolding r example_first_match by auto
qed

theorem cors_preflight_exact_witness:
  "Status (Conn (snd (Out (snd (Cors_MiddlewareFunc example_cors (act_panic NilDereference)
     (example_conn example_preflight ())))))) = Some 200"
proof -
  have h: "CanonicalHeaderKey ''Origin'' = ''Origin''"
    "CanonicalHeaderKey ''Access-Control-Request-Method'' = ''Access-Control-Request-Method''"
    "CanonicalHeaderKey ''Access-Control-Request-Headers'' = ''Access-Control-Request-Headers''"
    "to_upper ''GET'' = ''GET''" "to_upper ''get'' = ''GET''"
    by code_simp+
  have i: "GetCorsInfo (Req (example_conn example_preflight ())) =
    \<lparr>IsCors = True, IsPreflight = True, Origin = ''null'', AccessControlRequestMethod = ''GET'',
     AccessControlRequestHeaders = []\<rparr>"
    by (simp add: GetCorsInfo_def example_conn_def example_preflight_def example_request_def header_get_def
        header_values_def h)
  have "IsCors (GetCorsInfo (Req (example_conn example_preflight ())))"
    "IsPreflight (GetCorsInfo (Req (example_conn example_preflight ())))"
    "OriginValidator example_cors (Origin (GetCorsInfo (Req (example_conn example_preflight ())))) (Req (example_conn example_preflight ()))"
    by (simp_all add: i example_cors_def)
  note pre = cors_preflight_exact [OF this example_fresh, of "act_panic NilDereference" "act_return ()",
    THEN conjunct2, THEN conjunct2, THEN conjunct2]
  have "allowedMethods example_cors = [''GET'']" by (simp add: allowedMethods_def example_cors_def h)
  then show ?thesis unfolding pre by (simp add: i)
qed

end
