(* ===== verification/JwtMiddleware.thy ===== *)
theory JwtMiddleware
  imports JwtToken MiddlewareSpec
begin

text \<open>
  The token middleware (\<open>go-json-rest-middleware-jwt/auth_jwt.go\<close>): it lets a request with a valid
  bearer token through, issues tokens for a user name and password and refreshes them.  Times are
  nanoseconds on the clock of the connection and seconds in a token.
\<close>

definition second :: int where
  "second = 1000000000"

definition hour :: int where
  "hour = 3600 * second"

text \<open>\<open>Time.Unix()\<close>.\<close>

definition unix :: "int \<Rightarrow> int" where
  "unix t = t div second"

record 's JWTMiddleware =
  Realm :: string
  SigningAlgorithm :: string
  Key :: "bytes option"
  Timeout :: int
  MaxRefresh :: int
  Authenticator :: "('s \<Rightarrow> string \<Rightarrow> string \<Rightarrow> bool run) option"
  Authorizator :: "(string \<Rightarrow> Request \<Rightarrow> bool) option"
  PayloadFunc :: "(string \<Rightarrow> obj) option"

text \<open>The checks and defaults of \<open>MiddlewareFunc\<close>, at the time the handler is built.\<close>

definition jwt_setup :: "'s JWTMiddleware \<Rightarrow> 's JWTMiddleware run" where
  "jwt_setup mw =
     (if Realm mw = [] then Inl (ProcessExit ''Realm is required'')
      else (let mw1 = (if SigningAlgorithm mw = [] then mw\<lparr>SigningAlgorithm := ''HS256''\<rparr> else mw) in
        if Key mw1 = None then Inl (ProcessExit ''Key required'')
        else (let mw2 = (if Timeout mw1 = 0 then mw1\<lparr>Timeout := hour\<rparr> else mw1) in
          if Authenticator mw2 = None then Inl (ProcessExit ''Authenticator is required'')
          else Inr (if Authorizator mw2 = None then mw2\<lparr>Authorizator := Some (\<lambda>userId request. True)\<rparr> else mw2))))"

definition jwt_unauthorized :: "'s JWTMiddleware \<Rightarrow> 's handler" where
  "jwt_unauthorized mw =
     act_seq (set_header ''WWW-Authenticate'' (''JWT realm='' @ Realm mw)) (Error ''Not Authorized'' 401)"

definition the_key :: "'s JWTMiddleware \<Rightarrow> bytes" where
  "the_key mw = (case Key mw of None \<Rightarrow> [] | Some k \<Rightarrow> k)"

definition bearer :: "Request \<Rightarrow> string option" where
  "bearer request =
     (let authHeader = header_get (ReqHeader request) ''Authorization'';
          parts = split_two (CHR '' '') authHeader
      in if authHeader = [] then None
         else if \<not> (length parts = 2 \<and> parts ! 0 = ''Bearer'') then None
         else Some (parts ! 1))"

definition parseToken :: "rsa_ops \<Rightarrow> bytes \<Rightarrow> ('s conn, Token option) act" where
  "parseToken rsa key =
     act_bind (act_get (\<lambda>c. bearer (Req c))) (\<lambda>b.
       case b of
         None \<Rightarrow> act_return None
       | Some tok \<Rightarrow> act_bind time_now (\<lambda>now.
           act_return (case token_Parse rsa (unix now) tok (\<lambda>_. Some (KeyBytes key)) of
               (Some token, None) \<Rightarrow> Some token | _ \<Rightarrow> None)))"

definition middlewareImpl :: "rsa_ops \<Rightarrow> 's JWTMiddleware \<Rightarrow> 's middleware" where
  "middlewareImpl rsa mw handler =
     act_bind (parseToken rsa (the_key mw)) (\<lambda>tok.
       case tok of
         None \<Rightarrow> jwt_unauthorized mw
       | Some token \<Rightarrow>
           (case claim_str (Claims token) ''id'' of
              None \<Rightarrow> act_panic TypeAssertion
            | Some userId \<Rightarrow>
                (case Authorizator mw of
                   None \<Rightarrow> act_panic NilDereference
                 | Some authorized \<Rightarrow>
                     (\<lambda>c. if \<not> authorized userId (Req c) then jwt_unauthorized mw c
                          else act_seq (set_env ''REMOTE_USER'' (EnvString userId))
                            (act_seq (set_env ''JWT_PAYLOAD'' (EnvClaims (Claims token))) handler) c))))"

text \<open>The struct \<open>login\<close>; \<open>None\<close> for a payload that does not decode.\<close>

definition decode_login :: "json \<Rightarrow> (string \<times> string) option" where
  "decode_login v =
     (case struct_members v of
        None \<Rightarrow> None
      | Some kvs \<Rightarrow>
          (let (ok1, username) = decode_string (members_named ''username'' kvs) [];
               (ok2, password) = decode_string (members_named ''password'' kvs) []
           in if ok1 \<and> ok2 then Some (username, password) else None))"

definition token_reply :: "string \<Rightarrow> json" where
  "token_reply tokenString = JObj [(''token'', JStr tokenString)]"

text \<open>The rest of \<open>LoginHandler\<close>, for an authenticated user: the claims, signed.\<close>

definition login_claims :: "'s JWTMiddleware \<Rightarrow> string \<Rightarrow> int \<Rightarrow> int \<Rightarrow> obj" where
  "login_claims mw username now now' =
     (let c0 = (case PayloadFunc mw of None \<Rightarrow> [] | Some f \<Rightarrow> f username);
          c1 = obj_put ''id'' (JStr username) c0;
          c2 = obj_put ''exp'' (JNum (unix (now + Timeout mw))) c1
      in if MaxRefresh mw \<noteq> 0 then obj_put ''orig_iat'' (JNum (unix now')) c2 else c2)"

definition issue :: "rsa_ops \<Rightarrow> 's JWTMiddleware \<Rightarrow> obj \<Rightarrow> 's handler" where
  "issue rsa mw claims =
     (case token_New (GetSigningMethod (SigningAlgorithm mw)) of
        Inl p \<Rightarrow> act_panic p
      | Inr token \<Rightarrow>
          (case SignedString rsa (token\<lparr>Claims := claims\<rparr>) (KeyBytes (the_key mw)) of
             Inl p \<Rightarrow> act_panic p
           | Inr (Inl e) \<Rightarrow> jwt_unauthorized mw
           | Inr (Inr tokenString) \<Rightarrow> write_json (token_reply tokenString)))"

definition LoginHandler :: "rsa_ops \<Rightarrow> 's JWTMiddleware \<Rightarrow> 's handler" where
  "LoginHandler rsa mw c =
     (case Option.bind (DecodeJsonPayload (Req c)) decode_login of
        None \<Rightarrow> jwt_unauthorized mw c
      | Some (username, password) \<Rightarrow>
          (case Authenticator mw of
             None \<Rightarrow> act_panic NilDereference c
           | Some authenticate \<Rightarrow>
               (case authenticate (World c) username password of
                  Inl p \<Rightarrow> act_panic p c
                | Inr False \<Rightarrow> jwt_unauthorized mw c
                | Inr True \<Rightarrow>
                    act_bind time_now (\<lambda>now.
                      (if MaxRefresh mw \<noteq> 0
                       then act_bind time_now (\<lambda>now'. issue rsa mw (login_claims mw username now now'))
                       else issue rsa mw (login_claims mw username now now))) c)))"

definition refresh_claims :: "'s JWTMiddleware \<Rightarrow> obj \<Rightarrow> int \<Rightarrow> int \<Rightarrow> obj" where
  "refresh_claims mw claims origIat now =
     (let c0 = fold (\<lambda>(k, v) m. obj_put k v m) claims [];
          c1 = obj_put ''id'' (case map_of claims ''id'' of None \<Rightarrow> JNull | Some v \<Rightarrow> v) c0;
          c2 = obj_put ''exp'' (JNum (unix (now + Timeout mw))) c1
      in obj_put ''orig_iat'' (JNum origIat) c2)"

definition RefreshHandler :: "rsa_ops \<Rightarrow> 's JWTMiddleware \<Rightarrow> 's handler" where
  "RefreshHandler rsa mw =
     act_bind (parseToken rsa (the_key mw)) (\<lambda>tok.
       case tok of
         None \<Rightarrow> jwt_unauthorized mw
       | Some token \<Rightarrow>
           (case claim_num (Claims token) ''orig_iat'' of
              None \<Rightarrow> act_panic TypeAssertion
            | Some origIat \<Rightarrow>
                act_bind time_now (\<lambda>now.
                  if origIat < unix (now - MaxRefresh mw) then jwt_unauthorized mw
                  else act_bind time_now (\<lambda>now'. issue rsa mw (refresh_claims mw (Claims token) origIat now')))))"


subsection \<open>The token middleware is a guard\<close>

lemma jwt_unauthorized_simps [simp]:
  "fst (jwt_unauthorized mw c) = Inr ()" "World (snd (jwt_unauthorized mw c)) = World c"
  by (simp_all add: jwt_unauthorized_def act_seq_passes)

lemma issue_World [simp]: "World (snd (issue rsa mw claims c)) = World c"
  by (simp add: issue_def split: sum.split)

text \<open>The claims of an acceptable bearer token with a user the authorizator admits.\<close>

definition token_of :: "rsa_ops \<Rightarrow> bytes \<Rightarrow> int \<Rightarrow> Request \<Rightarrow> Token option" where
  "token_of rsa key now r =
     (case bearer r of
        None \<Rightarrow> None
      | Some tok \<Rightarrow> (case token_Parse rsa (unix now) tok (\<lambda>_. Some (KeyBytes key)) of
          (Some token, None) \<Rightarrow> Some token | _ \<Rightarrow> None))"

definition jwt_pass :: "rsa_ops \<Rightarrow> 's JWTMiddleware \<Rightarrow> 's conn \<Rightarrow> bool" where
  "jwt_pass rsa mw c \<longleftrightarrow>
     (case token_of rsa (the_key mw) (Clock c (Ticks c)) (Req c) of
        None \<Rightarrow> False
      | Some token \<Rightarrow>
          (case (claim_str (Claims token) ''id'', Authorizator mw) of
             (Some userId, Some authorized) \<Rightarrow> authorized userId (Req c)
           | _ \<Rightarrow> False))"

lemma parseToken_eq:
  "\<exists>c'. parseToken rsa key c = (Inr (token_of rsa key (Clock c (Ticks c)) (Req c)), c') \<and> World c' = World c \<and> Req c' = Req c \<and>
     Out c' = Out c \<and> Clock c' = Clock c"
  by (simp add: parseToken_def token_of_def act_bind_eq time_now_def split: option.split)

lemma middlewareImpl_cases:
  obtains c' where "World c' = World c" "Req c' = Req c"
    "token_of rsa (the_key mw) (Clock c (Ticks c)) (Req c) = None" "middlewareImpl rsa mw h c = jwt_unauthorized mw c'"
  | token c' where "World c' = World c" "token_of rsa (the_key mw) (Clock c (Ticks c)) (Req c) = Some token"
    "claim_str (Claims token) ''id'' = None" "middlewareImpl rsa mw h c = (Inl TypeAssertion, c')"
  | c' where "World c' = World c" "Authorizator mw = None" "middlewareImpl rsa mw h c = (Inl NilDereference, c')"
  | token userId authorized c' where "World c' = World c"
    "token_of rsa (the_key mw) (Clock c (Ticks c)) (Req c) = Some token"
    "claim_str (Claims token) ''id'' = Some userId" "Authorizator mw = Some authorized"
    "\<not> authorized userId (Req c)" "middlewareImpl rsa mw h c = jwt_unauthorized mw c'"
  | token userId authorized c' where "World c' = World c"
    "token_of rsa (the_key mw) (Clock c (Ticks c)) (Req c) = Some token"
    "claim_str (Claims token) ''id'' = Some userId" "Authorizator mw = Some authorized"
    "authorized userId (Req c)" "middlewareImpl rsa mw h c = h c'"
    "Req c' = (Req c)\<lparr>Env := (Env (Req c))(''REMOTE_USER'' \<mapsto> EnvString userId, ''JWT_PAYLOAD'' \<mapsto> EnvClaims (Claims token))\<rparr>"
proof -
  obtain c1 where p: "parseToken rsa (the_key mw) c = (Inr (token_of rsa (the_key mw) (Clock c (Ticks c)) (Req c)), c1)"
    and c1: "World c1 = World c" "Req c1 = Req c" using parseToken_eq by blast
  show thesis
  proof (cases "token_of rsa (the_key mw) (Clock c (Ticks c)) (Req c)")
    case None
    with p c1 show thesis by (intro that(1) [of c1]) (simp_all add: middlewareImpl_def act_bind_eq)
  next
    case t: (Some token)
    show thesis
    proof (cases "claim_str (Claims token) ''id''")
      case None
      with p c1 t show thesis by (intro that(2) [of c1 token]) (simp_all add: middlewareImpl_def act_bind_eq)
    next
      case i: (Some userId)
      show thesis
      proof (cases "Authorizator mw")
        case None
        with p c1 t i show thesis by (intro that(3) [of c1]) (simp_all add: middlewareImpl_def act_bind_eq)
      next
        case a: (Some authorized)
        show thesis
        proof (cases "authorized userId (Req c)")
          case False
          with p c1 t i a show thesis
            by (intro that(4) [of c1 token userId authorized]) (simp_all add: middlewareImpl_def act_bind_eq)
        next
          case True
          let ?c2 = "snd (set_env ''JWT_PAYLOAD'' (EnvClaims (Claims token)) (snd (set_env ''REMOTE_USER'' (EnvString userId) c1)))"
          have "middlewareImpl rsa mw h c = h ?c2"
            using p t i a True c1 by (simp add: middlewareImpl_def act_bind_eq act_seq_passes)
          moreover have "Req ?c2 = (Req c)\<lparr>Env := (Env (Req c))(''REMOTE_USER'' \<mapsto> EnvString userId, ''JWT_PAYLOAD'' \<mapsto> EnvClaims (Claims token))\<rparr>"
            using c1 by (simp add: set_env_def)
          ultimately show thesis using c1 t i a True
            by (intro that(5) [of ?c2 token userId authorized]) simp_all
        qed
      qed
    qed
  qed
qed

interpretation jwt: guard_middleware "middlewareImpl rsa mw" "jwt_pass rsa mw"
proof
  show "World (snd (middlewareImpl rsa mw h c)) = World c" if "\<not> jwt_pass rsa mw c" for h c
    by (rule middlewareImpl_cases [where rsa = rsa and mw = mw and h = h and c = c])
      (use that in \<open>auto simp: jwt_pass_def split: option.splits\<close>)
  show "\<exists>c'. middlewareImpl rsa mw h c = h c' \<and> World c' = World c" if "jwt_pass rsa mw c" for h c
    by (rule middlewareImpl_cases [where rsa = rsa and mw = mw and h = h and c = c])
      (use that in \<open>auto simp: jwt_pass_def split: option.splits\<close>)
qed


subsection \<open>What a token gives\<close>

lemma bearer_header:
  "header_get (ReqHeader r) ''Authorization'' = ''Bearer '' @ tok \<Longrightarrow> bearer r = Some tok"
proof -
  assume h: "header_get (ReqHeader r) ''Authorization'' = ''Bearer '' @ tok"
  have "split_two (CHR '' '') (''Bearer'' @ CHR '' '' # tok) = [''Bearer'', tok]"
    by (rule split_two_append) simp
  with h show ?thesis by (simp add: bearer_def)
qed

lemma token_of_acceptable:
  assumes "\<not> has_pem key" "bearer r = Some tok"
  shows "(\<exists>t. token_of rsa key now r = Some t \<and> Claims t = claims) \<longleftrightarrow> acceptable (unix now) key tok claims"
proof -
  have "Valid t" if "token_Parse rsa n tok kf = (Some t, None)" for n kf t
    using that by (auto simp: token_Parse_def Let_def split: if_splits option.splits)
  then show ?thesis
    using parse_accepts [OF assms(1), of rsa "unix now" tok claims] assms(2)
    by (auto simp: token_of_def split: prod.splits option.splits)
qed

text \<open>Issuing: with a registered HMAC method the reply carries a token that is acceptable until it
  expires.\<close>

lemma issue_token:
  assumes "GetSigningMethod (SigningAlgorithm mw) = Some (SigningMethodHMAC (SigningAlgorithm mw) h)" "canonical claims"
  shows "\<exists>tok. issue rsa mw claims = write_json (token_reply tok) \<and>
    (\<forall>now cl. acceptable now (the_key mw) tok cl \<longleftrightarrow> cl = claims \<and> time_errors now claims = 0)"
proof -
  let ?m = "SigningMethodHMAC (SigningAlgorithm mw) h"
  let ?hd = "obj_of [(''typ'', JStr ''JWT''), (''alg'', JStr (Alg ?m))]"
  let ?t = "\<lparr>Raw = [], TokMethod = Some ?m, Header = ?hd, Claims = claims, Signature = [], Valid = False\<rparr>"
  have n: "token_New (GetSigningMethod (SigningAlgorithm mw)) = Inr (?t\<lparr>Claims := []\<rparr>)"
    using assms(1) by (simp add: token_New_def)
  obtain tok where s: "SignedString rsa ?t (KeyBytes (the_key mw)) = Inr (Inr tok)"
    by (simp add: SignedString_def hmac_Sign_def Let_def)
  have "canonical ?hd" by (rule canonical_obj_of) simp
  moreover have "claim_str ?hd ''alg'' = Some (SigningAlgorithm mw)"
    by (simp add: claim_str_def map_of_obj_of)
  ultimately have "acceptable now (the_key mw) tok cl \<longleftrightarrow> cl = claims \<and> time_errors now claims = 0" for now cl
    using signed_token_acceptable [of ?t "SigningAlgorithm mw" h rsa "the_key mw" tok now cl] assms s by auto
  moreover have "issue rsa mw claims = write_json (token_reply tok)"
    using n s by (simp add: issue_def)
  ultimately show ?thesis by blast
qed


lemma token_of_issued:
  assumes "\<not> has_pem key" "bearer r = Some tok"
    and "\<And>n cl. acceptable n key tok cl \<longleftrightarrow> cl = claims \<and> time_errors n claims = 0"
  shows "if time_errors (unix now) claims = 0
    then \<exists>t. token_of rsa key now r = Some t \<and> Claims t = claims else token_of rsa key now r = None"
proof (cases "time_errors (unix now) claims = 0")
  case True
  with token_of_acceptable [OF assms(1,2)] assms(3) show ?thesis by simp
next
  case False
  then have "\<not> (\<exists>t. token_of rsa key now r = Some t)"
    using token_of_acceptable [OF assms(1,2), of rsa now] assms(3) by blast
  with False show ?thesis by simp
qed

text \<open>The claims of a login.\<close>

lemma login_claims_facts:
  assumes "PayloadFunc mw = None"
  shows "canonical (login_claims mw user now now')"
    "claim_str (login_claims mw user now now') ''id'' = Some user"
    "claim_num (login_claims mw user now now') ''exp'' = Some (unix (now + Timeout mw))"
    "claim_num (login_claims mw user now now') ''nbf'' = None"
    "claim_num (login_claims mw user now now') ''orig_iat'' = (if MaxRefresh mw \<noteq> 0 then Some (unix now') else None)"
  using assms by (simp_all add: login_claims_def Let_def canonical_put claim_str_def claim_num_def del: obj_put.simps)

lemma login_issues:
  assumes "Option.bind (DecodeJsonPayload (Req c)) decode_login = Some (user, password)"
    and "Authenticator mw = Some authenticate" "authenticate (World c) user password = Inr True"
  shows "\<exists>now' c1. LoginHandler rsa mw c = issue rsa mw (login_claims mw user (Clock c (Ticks c)) now') c1 \<and>
    World c1 = World c"
proof (cases "MaxRefresh mw = 0")
  case True
  with assms show ?thesis
    by (intro exI [of _ "Clock c (Ticks c)"] exI [of _ "c\<lparr>Ticks := Suc (Ticks c)\<rparr>"])
      (simp add: LoginHandler_def act_bind_eq time_now_def)
next
  case False
  with assms show ?thesis
    by (intro exI [of _ "Clock c (Suc (Ticks c))"] exI [of _ "c\<lparr>Ticks := Suc (Suc (Ticks c))\<rparr>"])
      (simp add: LoginHandler_def act_bind_eq time_now_def)
qed

lemma time_errors_exp:
  "claim_num claims ''exp'' = Some e \<Longrightarrow> claim_num claims ''nbf'' = None \<Longrightarrow> time_errors n claims = 0 \<longleftrightarrow> n \<le> e"
  by (simp add: time_errors_zero)

text \<open>
  Property C34.  Logging in and using the token.  When the authenticator accepts the user name and
  password of a login request, \<open>LoginHandler\<close> replies with a token; a later request with that token
  in its \<open>Authorization\<close> header is passed to the wrapped handler, as that user, as long as the
  timeout has not run out and the authorizator agrees, and never afterwards.
\<close>

theorem login_then_admitted:
  assumes "GetSigningMethod (SigningAlgorithm mw) = Some (SigningMethodHMAC (SigningAlgorithm mw) h)"
    and "\<not> has_pem (the_key mw)" "PayloadFunc mw = None"
    and "Option.bind (DecodeJsonPayload (Req c)) decode_login = Some (user, password)"
    and "Authenticator mw = Some authenticate" "authenticate (World c) user password = Inr True"
    and "Authorizator mw = Some authorized"
  shows "\<exists>tok c1. LoginHandler rsa mw c = write_json (token_reply tok) c1 \<and> World c1 = World c \<and>
    (\<forall>c2 handler. header_get (ReqHeader (Req c2)) ''Authorization'' = ''Bearer '' @ tok \<longrightarrow>
       (if unix (Clock c2 (Ticks c2)) \<le> unix (Clock c (Ticks c) + Timeout mw) \<and> authorized user (Req c2)
        then \<exists>c3. middlewareImpl rsa mw handler c2 = handler c3 \<and> World c3 = World c2 \<and>
               Env (Req c3) ''REMOTE_USER'' = Some (EnvString user)
        else \<exists>c3. middlewareImpl rsa mw handler c2 = jwt_unauthorized mw c3 \<and> World c3 = World c2))"
proof -
  from login_issues [OF assms(4,5,6)] obtain now' c1 where
    l: "LoginHandler rsa mw c = issue rsa mw (login_claims mw user (Clock c (Ticks c)) now') c1" "World c1 = World c"
    by blast
  let ?cl = "login_claims mw user (Clock c (Ticks c)) now'"
  note facts = login_claims_facts [OF assms(3), of user "Clock c (Ticks c)" now']
  from issue_token [OF assms(1) facts(1)] obtain tok where
    tok: "issue rsa mw ?cl = write_json (token_reply tok)"
      "\<And>now cl. acceptable now (the_key mw) tok cl \<longleftrightarrow> cl = ?cl \<and> time_errors now ?cl = 0" by blast
  have m: "if unix (Clock c2 (Ticks c2)) \<le> unix (Clock c (Ticks c) + Timeout mw) \<and> authorized user (Req c2)
        then \<exists>c3. middlewareImpl rsa mw handler c2 = handler c3 \<and> World c3 = World c2 \<and>
               Env (Req c3) ''REMOTE_USER'' = Some (EnvString user)
        else \<exists>c3. middlewareImpl rsa mw handler c2 = jwt_unauthorized mw c3 \<and> World c3 = World c2"
    if h: "header_get (ReqHeader (Req c2)) ''Authorization'' = ''Bearer '' @ tok" for c2 handler
  proof -
    have b: "bearer (Req c2) = Some tok" by (rule bearer_header [OF h])
    have te: "time_errors (unix (Clock c2 (Ticks c2))) ?cl = 0 \<longleftrightarrow>
        unix (Clock c2 (Ticks c2)) \<le> unix (Clock c (Ticks c) + Timeout mw)"
      by (rule time_errors_exp [OF facts(3,4)])
    note to = token_of_issued [OF assms(2) b tok(2), of "Clock c2 (Ticks c2)" rsa, unfolded te]
    show ?thesis
      by (rule middlewareImpl_cases [where rsa = rsa and mw = mw and h = handler and c = c2])
        (use to facts(2) assms(7) in \<open>auto split: if_splits\<close>)
  qed
  show ?thesis
    by (rule exI [of _ tok], rule exI [of _ c1], intro conjI allI impI)
      (simp only: l tok(1), rule l(2), rule m)
qed


subsection \<open>Refreshing\<close>

lemma token_of_claims:
  assumes "token_of rsa key now r = Some t"
  shows "canonical (Claims t)"
proof -
  have "canonical (Claims t)" if "token_Parse rsa n tok kf = (Some t, None)" for n tok kf t
    using that by (auto simp: token_Parse_def Let_def split: if_splits option.splits bind_splits intro: canonical_unmarshal)
  with assms show ?thesis by (auto simp: token_of_def split: option.splits prod.splits)
qed

lemma token_of_bearer: "token_of rsa key now r = Some t \<Longrightarrow> \<exists>tok. bearer r = Some tok"
  by (auto simp: token_of_def split: option.splits)

lemma RefreshHandler_eq:
  assumes "token_of rsa (the_key mw) (Clock c (Ticks c)) (Req c) = Some t"
  shows "RefreshHandler rsa mw c =
    (case claim_num (Claims t) ''orig_iat'' of
       None \<Rightarrow> (Inl TypeAssertion, c\<lparr>Ticks := Suc (Ticks c)\<rparr>)
     | Some o' \<Rightarrow>
         if o' < unix (Clock c (Suc (Ticks c)) - MaxRefresh mw)
         then jwt_unauthorized mw (c\<lparr>Ticks := Suc (Suc (Ticks c))\<rparr>)
         else issue rsa mw (refresh_claims mw (Claims t) o' (Clock c (Suc (Suc (Ticks c)))))
           (c\<lparr>Ticks := Suc (Suc (Suc (Ticks c)))\<rparr>))"
  using assms token_of_bearer [OF assms]
  by (auto simp: RefreshHandler_def parseToken_def token_of_def act_bind_eq time_now_def split: option.splits)

lemma refresh_claims_facts:
  assumes "canonical claims"
  shows "canonical (refresh_claims mw claims o' now)"
    and "map_of (refresh_claims mw claims o' now) = (map_of claims)
      (''id'' \<mapsto> (case map_of claims ''id'' of None \<Rightarrow> JNull | Some v \<Rightarrow> v),
       ''exp'' \<mapsto> JNum (unix (now + Timeout mw)), ''orig_iat'' \<mapsto> JNum o')"
proof -
  have f: "fold (\<lambda>(k, v) m. obj_put k v m) claims [] = claims"
    using fold_put_sorted [of "[]" claims] assms by (simp add: canonical_def)
  have v: "canon (case map_of claims ''id'' of None \<Rightarrow> JNull | Some v \<Rightarrow> v) = (case map_of claims ''id'' of None \<Rightarrow> JNull | Some v \<Rightarrow> v)"
    using assms by (auto simp: canonical_def dest: map_of_SomeD split: option.split)
  show "canonical (refresh_claims mw claims o' now)"
    unfolding refresh_claims_def Let_def f
    by (rule canonical_put [OF canonical_put [OF canonical_put [OF assms v]]]) simp_all
  show "map_of (refresh_claims mw claims o' now) = (map_of claims)
      (''id'' \<mapsto> (case map_of claims ''id'' of None \<Rightarrow> JNull | Some v \<Rightarrow> v),
       ''exp'' \<mapsto> JNum (unix (now + Timeout mw)), ''orig_iat'' \<mapsto> JNum o')"
    unfolding refresh_claims_def Let_def f by simp
qed

text \<open>
  Refreshing.  A valid token is refused once its first issue lies more than
  \<open>MaxRefresh\<close> back; otherwise \<open>RefreshHandler\<close> replies with a token that has the claims of the old one
  but for the expiry, which is the timeout counted from now; it keeps the time of first issue, so that
  refreshing again does not extend the limit.  Nothing else in the program changes.
\<close>

theorem refresh_keeps_first_issue:
  assumes "GetSigningMethod (SigningAlgorithm mw) = Some (SigningMethodHMAC (SigningAlgorithm mw) h)"
    and "token_of rsa (the_key mw) (Clock c (Ticks c)) (Req c) = Some t"
    and "claim_num (Claims t) ''orig_iat'' = Some issued" "claim_str (Claims t) ''id'' = Some user"
  shows "if issued < unix (Clock c (Suc (Ticks c)) - MaxRefresh mw)
    then \<exists>c1. RefreshHandler rsa mw c = jwt_unauthorized mw c1 \<and> World c1 = World c
    else \<exists>tok claims c1. RefreshHandler rsa mw c = write_json (token_reply tok) c1 \<and> World c1 = World c \<and>
      map_of claims = (map_of (Claims t))(''exp'' \<mapsto> JNum (unix (Clock c (Suc (Suc (Ticks c))) + Timeout mw))) \<and>
      (\<forall>now cl. acceptable now (the_key mw) tok cl \<longleftrightarrow> cl = claims \<and> time_errors now claims = 0)"
proof (cases "issued < unix (Clock c (Suc (Ticks c)) - MaxRefresh mw)")
  case True
  with RefreshHandler_eq [OF assms(2)] assms(3) show ?thesis by auto
next
  case False
  let ?cl = "refresh_claims mw (Claims t) issued (Clock c (Suc (Suc (Ticks c))))"
  note facts = refresh_claims_facts [OF token_of_claims [OF assms(2)], of mw issued "Clock c (Suc (Suc (Ticks c)))"]
  from issue_token [OF assms(1) facts(1)] obtain tok where
    tok: "issue rsa mw ?cl = write_json (token_reply tok)"
      "\<forall>now cl. acceptable now (the_key mw) tok cl \<longleftrightarrow> cl = ?cl \<and> time_errors now ?cl = 0" by blast
  have m: "map_of ?cl = (map_of (Claims t))(''exp'' \<mapsto> JNum (unix (Clock c (Suc (Suc (Ticks c))) + Timeout mw)))"
    unfolding facts(2) using assms(3,4)
    by (auto simp: fun_eq_iff claim_num_def claim_str_def split: option.splits json.splits)
  have "RefreshHandler rsa mw c = issue rsa mw ?cl (c\<lparr>Ticks := Suc (Suc (Suc (Ticks c)))\<rparr>)"
    using RefreshHandler_eq [OF assms(2)] assms(3) False by simp
  with False tok m show ?thesis
    by (simp, intro exI [of _ tok] exI [of _ "c\<lparr>Ticks := Suc (Suc (Suc (Ticks c)))\<rparr>"] conjI exI [of _ ?cl]) simp_all
qed

text \<open>
  A middleware whose \<open>MaxRefresh\<close> is 0, which its comment calls \<open>not refreshable\<close>, gives
  out tokens without a time of first issue, and \<open>RefreshHandler\<close> panics in its type assertion on such
  a token instead of refusing it, for as long as the token is valid.
\<close>

theorem refresh_panics_without_limit:
  assumes "GetSigningMethod (SigningAlgorithm mw) = Some (SigningMethodHMAC (SigningAlgorithm mw) h)"
    and "\<not> has_pem (the_key mw)" "PayloadFunc mw = None" "MaxRefresh mw = 0"
    and "Option.bind (DecodeJsonPayload (Req c)) decode_login = Some (user, password)"
    and "Authenticator mw = Some authenticate" "authenticate (World c) user password = Inr True"
  shows "\<exists>tok c1. LoginHandler rsa mw c = write_json (token_reply tok) c1 \<and>
    (\<forall>c2. header_get (ReqHeader (Req c2)) ''Authorization'' = ''Bearer '' @ tok \<longrightarrow>
       unix (Clock c2 (Ticks c2)) \<le> unix (Clock c (Ticks c) + Timeout mw) \<longrightarrow>
       fst (RefreshHandler rsa mw c2) = Inl TypeAssertion)"
proof -
  from login_issues [OF assms(5,6,7)] obtain now' c1 where
    l: "LoginHandler rsa mw c = issue rsa mw (login_claims mw user (Clock c (Ticks c)) now') c1"
    by blast
  let ?cl = "login_claims mw user (Clock c (Ticks c)) now'"
  note facts = login_claims_facts [OF assms(3), of user "Clock c (Ticks c)" now']
  from issue_token [OF assms(1) facts(1)] obtain tok where
    tok: "issue rsa mw ?cl = write_json (token_reply tok)"
      "\<And>now cl. acceptable now (the_key mw) tok cl \<longleftrightarrow> cl = ?cl \<and> time_errors now ?cl = 0" by blast
  have "fst (RefreshHandler rsa mw c2) = Inl TypeAssertion"
    if h: "header_get (ReqHeader (Req c2)) ''Authorization'' = ''Bearer '' @ tok"
      and t: "unix (Clock c2 (Ticks c2)) \<le> unix (Clock c (Ticks c) + Timeout mw)" for c2
  proof -
    have "time_errors (unix (Clock c2 (Ticks c2))) ?cl = 0" using t by (simp add: time_errors_exp [OF facts(3,4)])
    with token_of_issued [OF assms(2) bearer_header [OF h] tok(2), of "Clock c2 (Ticks c2)" rsa] obtain t where
      "token_of rsa (the_key mw) (Clock c2 (Ticks c2)) (Req c2) = Some t" "Claims t = ?cl" by auto
    with facts(5) assms(4) show ?thesis by (simp add: RefreshHandler_eq)
  qed
  with l tok(1) show ?thesis by auto
qed

text \<open>
  Property C35.  The middleware as a guard.  Whatever the wrapped handler does, the program around it
  changes only for a request with a bearer token of three segments whose header names an HMAC method,
  whose signature is the HMAC of the first two under the configured key, whose time claims hold now,
  and whose \<open>id\<close> the authorizator admits.  In particular a token that names an RSA method never passes.
\<close>

theorem jwt_effect_needs_token:
  assumes "\<not> has_pem (the_key mw)"
    and "World (snd (middlewareImpl rsa mw handler c)) \<noteq> World c"
  shows "\<exists>tok claims user authorized. bearer (Req c) = Some tok \<and>
    acceptable (unix (Clock c (Ticks c))) (the_key mw) tok claims \<and> claim_str claims ''id'' = Some user \<and>
    Authorizator mw = Some authorized \<and> authorized user (Req c)"
proof -
  from jwt.effect_needs_pass [OF assms(2)] obtain t user authorized where
    t: "token_of rsa (the_key mw) (Clock c (Ticks c)) (Req c) = Some t"
    and u: "claim_str (Claims t) ''id'' = Some user" "Authorizator mw = Some authorized" "authorized user (Req c)"
    by (auto simp: jwt_pass_def split: option.splits)
  from token_of_bearer [OF t] obtain tok where b: "bearer (Req c) = Some tok" ..
  from token_of_acceptable [OF assms(1) b, of rsa "Clock c (Ticks c)" "Claims t"] t
  have "acceptable (unix (Clock c (Ticks c))) (the_key mw) tok (Claims t)" by blast
  with b u show ?thesis by blast
qed

subsection \<open>Witnesses\<close>

definition example_rsa :: rsa_ops where
  "example_rsa = \<lparr>rsa_verify = (\<lambda>_ _ _ _. Some ErrRSA), rsa_sign = (\<lambda>_ _ _. Inl ErrRSA)\<rparr>"

definition example_jwt :: "int \<Rightarrow> bool JWTMiddleware" where
  "example_jwt refresh = \<lparr>Realm = ''jwt auth'', SigningAlgorithm = ''HS256'', Key = Some ''secret key'', Timeout = hour,
     MaxRefresh = refresh, Authenticator = Some (\<lambda>_ user password. Inr (user = ''bob'' \<and> password = ''pw'')),
     Authorizator = Some (\<lambda>_ _. True), PayloadFunc = None\<rparr>"

definition example_login :: "bool conn" where
  "example_login = example_conn (example_request\<lparr>Body :=
     Some (Marshal (JObj [(''password'', JStr ''pw''), (''username'', JStr ''bob'')]))\<rparr>) False"

definition example_bearer :: "string \<Rightarrow> bool conn" where
  "example_bearer tok = example_conn (example_request\<lparr>ReqHeader := [(''Authorization'', [''Bearer '' @ tok])]\<rparr>) False"

lemma example_jwt_facts:
  "GetSigningMethod (SigningAlgorithm (example_jwt r)) = Some (SigningMethodHMAC (SigningAlgorithm (example_jwt r)) SHA256)"
  "\<not> has_pem (the_key (example_jwt r))" "PayloadFunc (example_jwt r) = None" "MaxRefresh (example_jwt r) = r"
  "Timeout (example_jwt r) = hour" "Authorizator (example_jwt r) = Some (\<lambda>_ _. True)"
  "Authenticator (example_jwt r) = Some (\<lambda>_ user password. Inr (user = ''bob'' \<and> password = ''pw''))"
proof -
  have "\<not> has_pem ''secret key''" by code_simp
  then show "\<not> has_pem (the_key (example_jwt r))" by (simp add: example_jwt_def the_key_def)
qed (simp_all add: example_jwt_def GetSigningMethod_def signingMethods_def SigningMethodHS256_def)

lemma example_login_decodes:
  "Option.bind (DecodeJsonPayload (Req example_login)) decode_login = Some (''bob'', ''pw'')"
proof -
  have "\<not> equal_fold ''password'' ''username''" "\<not> equal_fold ''username'' ''password''" by code_simp+
  then show ?thesis
    by (simp add: DecodeJsonPayload_def example_login_def example_conn_def Unmarshal_Marshal decode_login_def)
qed

lemma example_bearer_header:
  "header_get (ReqHeader (Req (example_bearer tok))) ''Authorization'' = ''Bearer '' @ tok"
proof -
  have "CanonicalHeaderKey ''Authorization'' = ''Authorization''" by code_simp
  then show ?thesis by (simp add: header_get_def header_values_def example_bearer_def example_conn_def)
qed

lemma example_times: "unix (int 0) \<le> unix (int 0 + hour)" "unix (int 0) = 0" "unix (int (Suc 0)) = 0"
  by code_simp+

lemma example_bearer_simps [simp]:
  "Clock (example_bearer tok) = int" "Ticks (example_bearer tok) = 0"
  "Clock example_login = int" "Ticks example_login = 0"
  "World (example_bearer tok) = False"
  by (simp_all add: example_bearer_def example_login_def example_conn_def)

text \<open>The token of a login at time 0.\<close>

lemma example_token:
  obtains tok t where "token_of example_rsa (the_key (example_jwt r)) 0 (Req (example_bearer tok)) = Some t"
    "Claims t = login_claims (example_jwt r) ''bob'' 0 0"
proof -
  let ?cl = "login_claims (example_jwt r) ''bob'' 0 0"
  note facts = login_claims_facts [OF example_jwt_facts(3) [of r], of "''bob''" 0 0]
  from issue_token [OF example_jwt_facts(1) [of r] facts(1)] obtain tok where
    tok: "\<And>now cl. acceptable now (the_key (example_jwt r)) tok cl \<longleftrightarrow> cl = ?cl \<and> time_errors now ?cl = 0" by blast
  have "time_errors (unix 0) ?cl = 0"
    using example_times(1) by (simp add: time_errors_exp [OF facts(3,4)] example_jwt_facts)
  with token_of_issued [OF example_jwt_facts(2) [of r] bearer_header [OF example_bearer_header] tok, of 0 example_rsa]
  show thesis using that by auto
qed

theorem login_then_admitted_witness:
  "\<exists>tok c1. LoginHandler example_rsa (example_jwt 0) example_login = write_json (token_reply tok) c1 \<and>
     (\<exists>c3. middlewareImpl example_rsa (example_jwt 0) (act_modify (\<lambda>c. c\<lparr>World := True\<rparr>)) (example_bearer tok) =
        act_modify (\<lambda>c. c\<lparr>World := True\<rparr>) c3)"
proof -
  from login_then_admitted [OF example_jwt_facts(1) [of 0] example_jwt_facts(2,3) example_login_decodes example_jwt_facts(7) _
      example_jwt_facts(6), of example_rsa] obtain tok c1 where
    l: "LoginHandler example_rsa (example_jwt 0) example_login = write_json (token_reply tok) c1"
    and m: "\<forall>c2 handler. header_get (ReqHeader (Req c2)) ''Authorization'' = ''Bearer '' @ tok \<longrightarrow>
       (if unix (Clock c2 (Ticks c2)) \<le> unix (Clock example_login (Ticks example_login) + Timeout (example_jwt 0)) \<and> True
        then \<exists>c3. middlewareImpl example_rsa (example_jwt 0) handler c2 = handler c3 \<and> World c3 = World c2 \<and>
               Env (Req c3) ''REMOTE_USER'' = Some (EnvString ''bob'')
        else \<exists>c3. middlewareImpl example_rsa (example_jwt 0) handler c2 = jwt_unauthorized (example_jwt 0) c3 \<and> World c3 = World c2)"
    by blast
  from m [rule_format, OF example_bearer_header, of "act_modify (\<lambda>c. c\<lparr>World := True\<rparr>)"] example_times(1) l show ?thesis
    by (auto simp: example_jwt_facts)
qed

theorem refresh_keeps_first_issue_witness:
  "\<exists>tok tok' c1. RefreshHandler example_rsa (example_jwt hour) (example_bearer tok) = write_json (token_reply tok') c1"
proof -
  from example_token [of hour] obtain tok t where
    t: "token_of example_rsa (the_key (example_jwt hour)) 0 (Req (example_bearer tok)) = Some t"
      "Claims t = login_claims (example_jwt hour) ''bob'' 0 0" .
  note facts = login_claims_facts [OF example_jwt_facts(3) [of hour], of "''bob''" 0 0]
  have h: "hour \<noteq> 0" "\<not> unix 0 < unix (int (Suc 0) - hour)" by code_simp+
  have "claim_num (Claims t) ''orig_iat'' = Some (unix 0)" "claim_str (Claims t) ''id'' = Some ''bob''"
    using facts h(1) by (simp_all add: t(2) example_jwt_facts)
  from refresh_keeps_first_issue [where c = "example_bearer tok" and rsa = example_rsa, OF example_jwt_facts(1) [of hour] _ this] t(1) h(2)
  show ?thesis by (auto simp: example_jwt_facts)
qed

theorem refresh_panics_without_limit_witness:
  "\<exists>tok. fst (RefreshHandler example_rsa (example_jwt 0) (example_bearer tok)) = Inl TypeAssertion"
proof -
  from refresh_panics_without_limit [OF example_jwt_facts(1,2,3) example_jwt_facts(4) example_login_decodes
      example_jwt_facts(7), of example_rsa] obtain tok where
    "\<And>c2. header_get (ReqHeader (Req c2)) ''Authorization'' = ''Bearer '' @ tok \<Longrightarrow>
       unix (Clock c2 (Ticks c2)) \<le> unix (Clock example_login (Ticks example_login) + Timeout (example_jwt 0)) \<Longrightarrow>
       fst (RefreshHandler example_rsa (example_jwt 0) c2) = Inl TypeAssertion" by auto
  from this [OF example_bearer_header] example_times(1) show ?thesis by (auto simp: example_jwt_facts)
qed

theorem jwt_effect_needs_token_witness:
  "\<exists>tok claims. World (snd (middlewareImpl example_rsa (example_jwt 0) (act_modify (\<lambda>c. c\<lparr>World := True\<rparr>)) (example_bearer tok))) \<and>
     acceptable 0 (the_key (example_jwt 0)) tok claims"
proof -
  from example_token [of 0] obtain tok t where
    t: "token_of example_rsa (the_key (example_jwt 0)) 0 (Req (example_bearer tok)) = Some t"
      "Claims t = login_claims (example_jwt 0) ''bob'' 0 0" .
  note facts = login_claims_facts [OF example_jwt_facts(3) [of 0], of "''bob''" 0 0]
  have "jwt_pass example_rsa (example_jwt 0) (example_bearer tok)"
    using t facts(2) by (simp add: jwt_pass_def example_jwt_facts)
  from jwt.passed [OF this, of "act_modify (\<lambda>c. c\<lparr>World := True\<rparr>)"]
  have "World (snd (middlewareImpl example_rsa (example_jwt 0) (act_modify (\<lambda>c. c\<lparr>World := True\<rparr>)) (example_bearer tok)))
    \<noteq> World (example_bearer tok)" by auto
  from jwt_effect_needs_token [OF example_jwt_facts(2) this] this example_times(2)
    bearer_header [OF example_bearer_header, of tok]
  show ?thesis by auto
qed

end
