(* ===== verification/Uuid.thy ===== *)
theory Uuid
  imports Hash
begin

text \<open>
  The identifiers of instances (\<open>twinj/uuid\<close>: \<open>uuid.go\<close>, \<open>array.go\<close>, \<open>struct.go\<close>, \<open>rfc4122.go\<close>,
  \<open>state.go\<close>, \<open>timestamp.go\<close>).  Words have their Go widths.  Random numbers, clock readings, the network
  interfaces and the saved state are arguments; a hash is given as the function from what was
  written to its sum.
\<close>

subsection \<open>Bytes of an identifier\<close>

definition word_byte :: "8 word \<Rightarrow> char" where
  "word_byte w = char_of (unat w)"

lemma word_byte_word [simp]: "byte_word (word_byte w) = w"
proof -
  have "unat w < 256" using unsigned_less [of w, where 'a = nat] by simp
  then show ?thesis by (simp add: byte_word_def word_byte_def)
qed

lemma byte_word_byte [simp]: "word_byte (byte_word c) = c"
proof -
  have "(of_char c :: nat) < 256" by (metis of_char_mod_256 mod_less_divisor zero_less_numeral)
  then show ?thesis by (simp add: byte_word_def word_byte_def unat_of_nat)
qed

definition ReservedNCS :: "8 word" where "ReservedNCS = 0x00"
definition ReservedRFC4122 :: "8 word" where "ReservedRFC4122 = 0x80"
definition ReservedMicrosoft :: "8 word" where "ReservedMicrosoft = 0xC0"
definition ReservedFuture :: "8 word" where "ReservedFuture = 0xE0"

lemmas variants = ReservedNCS_def ReservedRFC4122_def ReservedMicrosoft_def ReservedFuture_def

definition variantSet :: "8 word" where "variantSet = 0x3F"
definition variantGet :: "8 word" where "variantGet = 0xE0"

text \<open>\<open>variant\<close> and \<open>setVariant\<close>.\<close>

definition variant :: "8 word \<Rightarrow> 8 word" where
  "variant pVariant =
     (let v = pVariant AND variantGet in
      if v = ReservedRFC4122 \<or> v = 0xA0 then ReservedRFC4122
      else if v = ReservedMicrosoft then ReservedMicrosoft
      else if v = ReservedFuture then ReservedFuture
      else ReservedNCS)"

definition setVariant :: "8 word \<Rightarrow> 8 word \<Rightarrow> 8 word run" where
  "setVariant pByte pVariant =
     (if pVariant = ReservedRFC4122 then Inr ((pByte AND variantSet) OR pVariant)
      else if pVariant = ReservedFuture \<or> pVariant = ReservedMicrosoft then Inr ((pByte AND 0x1F) OR pVariant)
      else if pVariant = ReservedNCS then Inr ((pByte AND 0x7F) OR pVariant)
      else Inl (ExplicitPanic ''UUID.setVariant: invalid variant mask''))"

subsection \<open>The array form\<close>

text \<open>An array is a list of 16 bytes.\<close>

type_synonym UUIDArray = bytes

definition array_Version :: "UUIDArray \<Rightarrow> nat" where
  "array_Version u = unat (drop_bit 4 (byte_word (u ! 6) :: 8 word))"

definition array_setVersion :: "nat \<Rightarrow> UUIDArray \<Rightarrow> UUIDArray" where
  "array_setVersion pVersion u =
     u[6 := word_byte ((byte_word (u ! 6) AND 0x0F) OR push_bit 4 (word_of_nat pVersion))]"

definition array_Variant :: "UUIDArray \<Rightarrow> 8 word" where
  "array_Variant u = variant (byte_word (u ! 8))"

definition array_setRFC4122Variant :: "UUIDArray \<Rightarrow> UUIDArray" where
  "array_setRFC4122Variant u = u[8 := word_byte ((byte_word (u ! 8) AND 0x3F) OR ReservedRFC4122)]"

definition array_Unmarshal :: "bytes \<Rightarrow> UUIDArray \<Rightarrow> UUIDArray" where
  "array_Unmarshal pData u = take (length u) pData @ drop (length pData) u"

definition zero_array :: UUIDArray where
  "zero_array = replicate 16 (char_of (0 :: nat))"

subsection \<open>The struct form\<close>

record UUIDStruct =
  timeLow :: "32 word"
  timeMid :: "16 word"
  timeHiAndVersion :: "16 word"
  sequenceHiAndVariant :: "8 word"
  sequenceLow :: "8 word"
  node_id :: bytes
  uuid_size :: nat

definition struct_Version :: "UUIDStruct \<Rightarrow> nat" where
  "struct_Version u = unat (drop_bit 12 (timeHiAndVersion u))"

definition struct_Variant :: "UUIDStruct \<Rightarrow> 8 word" where
  "struct_Variant u = variant (sequenceHiAndVariant u)"

definition struct_setVersion :: "nat \<Rightarrow> UUIDStruct \<Rightarrow> UUIDStruct" where
  "struct_setVersion pVersion u =
     u\<lparr>timeHiAndVersion := (timeHiAndVersion u AND 0x0FFF) OR push_bit 12 (word_of_nat pVersion)\<rparr>"

definition struct_setRFC4122Variant :: "UUIDStruct \<Rightarrow> UUIDStruct" where
  "struct_setRFC4122Variant u =
     u\<lparr>sequenceHiAndVariant := (sequenceHiAndVariant u AND variantSet) OR ReservedRFC4122\<rparr>"

text \<open>\<open>Unmarshal\<close> reads the first ten bytes and keeps the rest up to the size as the node.\<close>

definition struct_Unmarshal :: "bytes \<Rightarrow> UUIDStruct \<Rightarrow> UUIDStruct run" where
  "struct_Unmarshal pData u =
     (if length pData < 10 then Inl IndexOutOfRange
      else if uuid_size u < 10 \<or> length pData < uuid_size u then Inl SliceOutOfRange
      else Inr (u\<lparr>
        timeLow := byte_word (pData ! 3) OR push_bit 8 (byte_word (pData ! 2)) OR
          push_bit 16 (byte_word (pData ! 1)) OR push_bit 24 (byte_word (pData ! 0)),
        timeMid := byte_word (pData ! 5) OR push_bit 8 (byte_word (pData ! 4)),
        timeHiAndVersion := byte_word (pData ! 7) OR push_bit 8 (byte_word (pData ! 6)),
        sequenceHiAndVariant := byte_word (pData ! 8),
        sequenceLow := byte_word (pData ! 9),
        node_id := take (uuid_size u - 10) (drop 10 pData)\<rparr>))"

definition struct_Bytes :: "UUIDStruct \<Rightarrow> bytes" where
  "struct_Bytes u =
     [word_byte (ucast (drop_bit 24 (timeLow u))), word_byte (ucast (drop_bit 16 (timeLow u))),
      word_byte (ucast (drop_bit 8 (timeLow u))), word_byte (ucast (timeLow u)),
      word_byte (ucast (drop_bit 8 (timeMid u))), word_byte (ucast (timeMid u)),
      word_byte (ucast (drop_bit 8 (timeHiAndVersion u))), word_byte (ucast (timeHiAndVersion u)),
      word_byte (sequenceHiAndVariant u), word_byte (sequenceLow u)] @ node_id u"

subsection \<open>The interface\<close>

datatype UUID = UArray UUIDArray | UStruct UUIDStruct

fun Bytes :: "UUID \<Rightarrow> bytes" where
  "Bytes (UArray u) = u"
| "Bytes (UStruct u) = struct_Bytes u"

fun Size :: "UUID \<Rightarrow> nat" where
  "Size (UArray u) = 16"
| "Size (UStruct u) = uuid_size u"

fun Version :: "UUID \<Rightarrow> nat" where
  "Version (UArray u) = array_Version u"
| "Version (UStruct u) = struct_Version u"

fun Variant :: "UUID \<Rightarrow> 8 word" where
  "Variant (UArray u) = array_Variant u"
| "Variant (UStruct u) = struct_Variant u"

fun UUID_Unmarshal :: "bytes \<Rightarrow> UUID \<Rightarrow> UUID run" where
  "UUID_Unmarshal b (UArray u) = Inr (UArray (array_Unmarshal b u))"
| "UUID_Unmarshal b (UStruct u) = run_bind (struct_Unmarshal b u) (\<lambda>u'. Inr (UStruct u'))"

text \<open>\<open>UnmarshalBinary\<close>: an error (\<open>None\<close>) for data of another length.\<close>

definition UnmarshalBinary :: "bytes \<Rightarrow> UUID \<Rightarrow> UUID option run" where
  "UnmarshalBinary pData u =
     (if length pData \<noteq> Size u then Inr None else run_bind (UUID_Unmarshal pData u) (\<lambda>u'. Inr (Some u')))"

subsection \<open>Printing\<close>

text \<open>\<open>fmt.Sprintf\<close> with \<open>%x\<close> and \<open>%X\<close> for byte slices.\<close>

function sprintf_hex :: "string \<Rightarrow> bytes list \<Rightarrow> string" where
  "sprintf_hex [] args = []"
| "sprintf_hex (c # f) args =
     (if c = CHR ''%'' then
        (case (f, args) of
           (v # f', a # args') \<Rightarrow>
             (if v = CHR ''x'' then hex_encode a else if v = CHR ''X'' then to_upper (hex_encode a) else []) @
             sprintf_hex f' args'
         | _ \<Rightarrow> [])
      else c # sprintf_hex f args)"
  by pat_completeness auto
termination by (relation "measure (\<lambda>(f, args). length f)") auto

definition Clean :: string where "Clean = ''%x%x%x%x%x%x''"
definition Curly :: string where "Curly = ''{%x%x%x%x%x%x}''"
definition Bracket :: string where "Bracket = ''(%x%x%x%x%x%x)''"
definition CleanHyphen :: string where "CleanHyphen = ''%x-%x-%x-%x%x-%x''"
definition CurlyHyphen :: string where "CurlyHyphen = ''{%x-%x-%x-%x%x-%x}''"
definition BracketHyphen :: string where "BracketHyphen = ''(%x-%x-%x-%x%x-%x)''"
definition GoIdFormat :: string where "GoIdFormat = ''[%X-%X-%x-%X%X-%x]''"

text \<open>\<open>formatter\<close> slices the bytes; an identifier of fewer than ten bytes panics.\<close>

definition formatter :: "UUID \<Rightarrow> string \<Rightarrow> string run" where
  "formatter u pFormat =
     (let b = Bytes u in
      if length b < 10 \<or> Size u < 10 \<or> length b < Size u then Inl SliceOutOfRange
      else Inr (sprintf_hex pFormat
        [take 4 b, take 2 (drop 4 b), take 2 (drop 6 b), take 1 (drop 8 b), take 1 (drop 9 b),
         take (Size u - 10) (drop 10 b)]))"

definition six_groups :: "string \<Rightarrow> bool" where
  "six_groups pFormat \<longleftrightarrow> length (filter (\<lambda>c. c = CHR ''%'') pFormat) = 6"

definition Formatter :: "UUID \<Rightarrow> string \<Rightarrow> string run" where
  "Formatter u pFormat =
     (if \<not> six_groups pFormat then Inl (ExplicitPanic ''UUID.SwitchFormat: invalid formatting'')
      else formatter u pFormat)"

text \<open>\<open>SwitchFormat\<close> gives the new default format; \<open>String\<close> and \<open>Equal\<close> print with the default format.\<close>

definition SwitchFormat :: "string \<Rightarrow> string run" where
  "SwitchFormat pFormat =
     (if \<not> six_groups pFormat then Inl (ExplicitPanic ''UUID.SwitchFormat: invalid formatting'') else Inr pFormat)"

definition SwitchFormatUpper :: "string \<Rightarrow> string run" where
  "SwitchFormatUpper pFormat = SwitchFormat (to_upper pFormat)"

definition UUID_Equal :: "string \<Rightarrow> UUID \<Rightarrow> UUID \<Rightarrow> bool run" where
  "UUID_Equal fmt p1 p2 =
     run_bind (formatter p1 fmt) (\<lambda>s1. run_bind (formatter p2 fmt) (\<lambda>s2. Inr (s1 = s2)))"

subsection \<open>Reading\<close>

text \<open>\<open>hex.DecodeString\<close>.\<close>

fun hex_decode :: "string \<Rightarrow> bytes option" where
  "hex_decode [] = Some []"
| "hex_decode [c] = None"
| "hex_decode (c # d # s) =
     (case (hex_value c, hex_value d, hex_decode s) of
        (Some x, Some y, Some b) \<Rightarrow> Some (char_of (16 * x + y) # b)
      | _ \<Rightarrow> None)"

definition New :: "bytes \<Rightarrow> UUID run" where
  "New pData =
     (if length pData < 16 then Inl SliceOutOfRange else Inr (UArray (array_Unmarshal (take 16 pData) zero_array)))"

definition NewHex :: "string \<Rightarrow> UUID run" where
  "NewHex pUuid = (case hex_decode pUuid of None \<Rightarrow> Inl (ExplicitPanic ''hex'') | Some b \<Rightarrow> New b)"

text \<open>
  The pattern of \<open>ParseUUID\<close>.  Its optional parts begin with characters that what follows them cannot
  begin with, so that it is read from left to right.
\<close>

definition opt_in :: "string \<Rightarrow> string \<Rightarrow> string" where
  "opt_in cs s = (case s of c # r \<Rightarrow> if c \<in> set cs then r else s | [] \<Rightarrow> [])"

definition hex_group :: "nat \<Rightarrow> string \<Rightarrow> (string \<times> string) option" where
  "hex_group n s =
     (if length s < n \<or> \<not> list_all (\<lambda>c. hex_value c \<noteq> None) (take n s) then None else Some (take n s, drop n s))"

definition match_uuid :: "string \<Rightarrow> string option" where
  "match_uuid s0 =
     (let s1 = (if take 9 s0 = ''urn:uuid:'' then drop 9 s0 else s0) in
      Option.bind (hex_group 8 (opt_in ''{(['' s1)) (\<lambda>(g2, s2).
      Option.bind (hex_group 4 (opt_in ''-'' s2)) (\<lambda>(g3, s3).
      Option.bind (hex_group 4 (opt_in ''-'' s3)) (\<lambda>(g4, s4).
      if hd g4 \<notin> set ''12345'' then None else
      Option.bind (hex_group 4 (opt_in ''-'' s4)) (\<lambda>(g5, s5).
      Option.bind (hex_group 12 (opt_in ''-'' s5)) (\<lambda>(g6, s6).
      if opt_in '']})'' s6 = [] then Some (g2 @ g3 @ g4 @ g5 @ g6) else None))))))"

definition ParseUUID :: "string \<Rightarrow> UUID option run" where
  "ParseUUID pUUID =
     (case match_uuid pUUID of None \<Rightarrow> Inr None | Some md \<Rightarrow> run_bind (NewHex md) (\<lambda>u. Inr (Some u)))"

subsection \<open>Versions 3, 4 and 5\<close>

definition NewName :: "string \<Rightarrow> string list \<Rightarrow> string" where
  "NewName salt pNames = concat pNames @ salt"

definition Digest :: "UUID \<Rightarrow> UUID \<Rightarrow> string \<Rightarrow> (bytes \<Rightarrow> bytes) \<Rightarrow> UUID run" where
  "Digest u pNs pName pHash =
     (let sum' = pHash (Bytes pNs @ pName) in
      if length sum' < Size u then Inl SliceOutOfRange else UUID_Unmarshal (take (Size u) sum') u)"

definition NewV3 :: "(bytes \<Rightarrow> bytes) \<Rightarrow> UUID \<Rightarrow> string \<Rightarrow> UUID run" where
  "NewV3 md5 pNs pName =
     run_bind (Digest (UArray zero_array) pNs pName md5) (\<lambda>u.
       Inr (UArray (array_setVersion 3 (array_setRFC4122Variant (Bytes u)))))"

text \<open>\<open>None\<close> when the random source fails.\<close>

definition NewV4 :: "bytes option \<Rightarrow> UUID run" where
  "NewV4 random =
     (case random of
        None \<Rightarrow> Inl (ExplicitPanic ''rand'')
      | Some b \<Rightarrow> Inr (UArray (array_setVersion 4 (array_setRFC4122Variant b))))"

definition NewV5 :: "UUID \<Rightarrow> string \<Rightarrow> UUID run" where
  "NewV5 pNs pName =
     run_bind (Digest (UArray zero_array) pNs pName sha1) (\<lambda>u.
       Inr (UArray (array_setVersion 5 (array_setRFC4122Variant (Bytes u)))))"

subsection \<open>Version 1: timestamps\<close>

definition ticksPerSecond :: "64 word" where "ticksPerSecond = 10000000"
definition gregorianToUNIXOffset :: "64 word" where "gregorianToUNIXOffset = 0x01B21DD213814000"
definition uuidsPerTimestamp :: nat where "uuidsPerTimestamp = 1024"

text \<open>\<open>timestamp\<close> from a clock reading in seconds and nanoseconds.\<close>

definition timestamp :: "64 word \<Rightarrow> 64 word \<Rightarrow> 64 word" where
  "timestamp sec nsec = sec * ticksPerSecond + nsec div 100 + gregorianToUNIXOffset"

record ticker =
  lastTimestamp :: "64 word"
  uuidsThisTimestamp :: nat
  ts_reads :: nat

definition initial_ticker :: ticker where
  "initial_ticker = \<lparr>lastTimestamp = 0, uuidsThisTimestamp = uuidsPerTimestamp, ts_reads = 0\<rparr>"

text \<open>\<open>currentUUIDTimestamp\<close>: the loop reads the clock until it has moved on or the count for this
  reading is not used up; \<open>None\<close> when the fuel runs out first.\<close>

fun currentUUIDTimestamp :: "nat \<Rightarrow> (nat \<Rightarrow> 64 word) \<Rightarrow> ticker \<Rightarrow> (64 word \<times> ticker) option" where
  "currentUUIDTimestamp 0 clock t = None"
| "currentUUIDTimestamp (Suc fuel) clock t =
     (let timeNow = clock (ts_reads t); t1 = t\<lparr>ts_reads := Suc (ts_reads t)\<rparr> in
      if lastTimestamp t \<noteq> timeNow
      then Some (timeNow, t1\<lparr>uuidsThisTimestamp := 0, lastTimestamp := timeNow\<rparr>)
      else if uuidsThisTimestamp t < uuidsPerTimestamp
      then Some (timeNow + word_of_nat (Suc (uuidsThisTimestamp t)), t1\<lparr>uuidsThisTimestamp := Suc (uuidsThisTimestamp t)\<rparr>)
      else currentUUIDTimestamp fuel clock t1)"

subsection \<open>Version 1: the state of the generator\<close>

text \<open>The file the state is saved to, when there is one.\<close>

record stateEntity =
  se_past :: "64 word"
  se_node :: bytes
  se_sequence :: "16 word"

record State =
  randomNode :: bool
  randomSequence :: bool
  past :: "64 word"
  next_save :: "64 word"
  st_node :: bytes
  sequence :: "16 word"

definition nodeId :: bytes where
  "nodeId = map char_of [0x00 :: nat, 0xC0, 0x4F, 0xD4, 0x30, 0xC8]"

definition random_sequence :: "nat \<Rightarrow> 16 word" where
  "random_sequence r = word_of_nat r AND 0x3FFF"

definition State_read :: "nat \<Rightarrow> 64 word \<Rightarrow> bytes \<Rightarrow> State \<Rightarrow> State" where
  "State_read r pNow pNode st =
     (let st1 = (if pNode = st_node st \<or> randomSequence st then st\<lparr>sequence := random_sequence r\<rparr>
                 else if pNow < past st then st\<lparr>sequence := sequence st + 1\<rparr>
                 else st)
      in st1\<lparr>past := pNow, st_node := pNode\<rparr>)"

text \<open>A network interface: its flag bits, its addresses (\<open>None\<close> when they cannot be read) and its
  hardware address.\<close>

record net_interface =
  if_flags :: nat
  if_addrs :: "string list option"
  if_hardware :: bytes

definition usable_addr :: "net_interface \<Rightarrow> bool" where
  "usable_addr i \<longleftrightarrow> (case if_addrs i of
     None \<Rightarrow> False
   | Some addrs \<Rightarrow> (\<exists>a \<in> set addrs. a \<noteq> ''0.0.0.0'' \<and> if_hardware i \<noteq> replicate (length (if_hardware i)) (char_of (0 :: nat))))"

text \<open>The code tests the bit \<open>1 << net.FlagUp\<close>, where \<open>FlagUp\<close> is 1.\<close>

definition getHardwareAddress :: "net_interface list \<Rightarrow> bytes option" where
  "getHardwareAddress pInterfaces =
     map_option if_hardware (List.find (\<lambda>i. if_flags i AND 2 \<noteq> 0 \<and> usable_addr i) pInterfaces)"

definition State_init :: "net_interface list option \<Rightarrow> State \<Rightarrow> State" where
  "State_init intfcs st0 =
     (let st = st0\<lparr>randomSequence := False\<rparr> in
      case Option.bind intfcs getHardwareAddress of
        None \<Rightarrow> st
      | Some a \<Rightarrow>
          (let st1 = (if a = st_node st then st\<lparr>sequence := sequence st + 1\<rparr> else st)
           in st1\<lparr>st_node := a, randomNode := False\<rparr>))"

text \<open>\<open>Save\<close>: the state is written when the schedule is due; gives the new file and state.\<close>

definition State_Save :: "64 word \<Rightarrow> State \<Rightarrow> stateEntity option \<Rightarrow> State \<times> stateEntity option" where
  "State_Save SaveSchedule st file =
     (if past st \<ge> next_save st then
        (case file of
           None \<Rightarrow> (st, None)
         | Some _ \<Rightarrow> (st\<lparr>next_save := past st + SaveSchedule * ticksPerSecond\<rparr>,
             Some \<lparr>se_past = past st, se_node = st_node st, se_sequence = sequence st\<rparr>))
      else (st, file))"

text \<open>\<open>SaveStateOS.Init\<close> on a file that is there or can be created.\<close>

definition State_Init :: "64 word \<Rightarrow> State \<Rightarrow> stateEntity option \<Rightarrow> State \<times> stateEntity option" where
  "State_Init now st file =
     (let entity = (case file of Some e \<Rightarrow> e | None \<Rightarrow> \<lparr>se_past = past st, se_node = st_node st, se_sequence = sequence st\<rparr>);
          st1 = st\<lparr>past := se_past entity, st_node := se_node entity, sequence := se_sequence entity, randomSequence := False\<rparr>;
          st2 = (if now \<le> past st1 then st1\<lparr>sequence := sequence st1 + 1\<rparr> else st1)
      in (st2\<lparr>next_save := past st2\<rparr>, Some entity))"

definition currentUUIDNodeId :: "bytes option \<Rightarrow> State \<Rightarrow> bytes" where
  "currentUUIDNodeId random st =
     (if randomNode st then
        (case random of
           None \<Rightarrow> nodeId
         | Some b \<Rightarrow>
             (let node = take 6 (sha1 (b @ [word_byte (ucast (sequence st)), word_byte (ucast (drop_bit 8 (sequence st)))]))
              in node[0 := word_byte (byte_word (node ! 0) OR 0x01)]))
      else st_node st)"

definition formatV1 :: "64 word \<Rightarrow> 16 word \<Rightarrow> 8 word \<Rightarrow> bytes \<Rightarrow> 16 word \<Rightarrow> UUIDStruct" where
  "formatV1 pNow pVersion pVariant pNode sq =
     \<lparr>timeLow = ucast (pNow AND 0xFFFFFFFF),
      timeMid = ucast (drop_bit 32 pNow AND 0xFFFF),
      timeHiAndVersion = ucast (drop_bit 48 pNow AND 0x0FFF) OR push_bit 12 pVersion,
      sequenceHiAndVariant = ucast (drop_bit 8 (sq AND 0x3F00)) OR pVariant,
      sequenceLow = ucast (sq AND 0xFF),
      node_id = pNode, uuid_size = 16\<rparr>"

text \<open>\<open>NewV1\<close> after the clock has been read; \<open>persist\<close> works on the file only.\<close>

definition NewV1 :: "64 word \<Rightarrow> nat \<Rightarrow> bytes option \<Rightarrow> State \<Rightarrow> UUID \<times> State" where
  "NewV1 now r random st =
     (let st' = State_read r now (currentUUIDNodeId random st) st
      in (UStruct (formatV1 now 1 ReservedRFC4122 (st_node st') (sequence st')), st'))"

text \<open>\<open>GoId\<close>: a digest whose first ten bytes are replaced by the timestamp and a sequence.\<close>

definition formatGoId :: "UUIDStruct \<Rightarrow> 64 word \<Rightarrow> 16 word \<Rightarrow> 8 word \<Rightarrow> 16 word \<Rightarrow> UUIDStruct" where
  "formatGoId u pNow pVersion pVariant pSequence =
     u\<lparr>timeLow := ucast (pNow AND 0xFFFFFFFF),
       timeMid := ucast (drop_bit 32 pNow AND 0xFFFF),
       timeHiAndVersion := ucast (drop_bit 48 pNow AND 0x0FFF) OR push_bit 12 pVersion,
       sequenceLow := ucast (pSequence AND 0xFF),
       sequenceHiAndVariant := ucast (drop_bit 8 (pSequence AND 0x3F00)) OR pVariant\<rparr>"

definition GoId :: "64 word \<Rightarrow> nat \<Rightarrow> nat \<Rightarrow> (bytes \<Rightarrow> bytes) \<Rightarrow> UUID \<Rightarrow> string \<Rightarrow> UUID run" where
  "GoId now r hashSize pHash pNs pName =
     run_bind (Digest (UStruct (formatV1 0 0 0 [] 0\<lparr>uuid_size := hashSize\<rparr>)) pNs pName pHash) (\<lambda>u.
       case u of
         UStruct s \<Rightarrow> Inr (UStruct (formatGoId s now 15 ReservedFuture (random_sequence r)))
       | UArray _ \<Rightarrow> Inr u)"

end
