(* ===== verification/AppHandlers.thy ===== *)
theory AppHandlers
  imports AppData JwtMiddleware Uuid
begin

text \<open>
  The handlers of the program (\<open>handlers.go\<close>) and what they call in \<open>identity.go\<close> and \<open>instance.go\<close>, as actions
  on a connection whose world is the state of the process: the database, the routing table and what
  was sent.  A collection is the list of its documents, which read back as they were stored.  The
  environment says which database calls fail, what is drawn at random, which keys are generated,
  what other hosts answer and how the goroutines of \<open>Push\<close> are scheduled.
\<close>

subsection \<open>The process\<close>

record database =
  col_identities :: "Identity list"
  col_instances :: "Instance list"
  col_settings :: "KV list"

record app =
  app_db :: "database option"
  rt :: routingTable
  db_calls :: nat
  draws :: nat
  keys_made :: nat
  posts :: "(string \<times> bytes) list"
  broadcasts :: "bytes list"

text \<open>What the scheduler does next in \<open>Push\<close>: an iteration of the loop, which starts a goroutine, or a goroutine
  that was started reads the loop variable.\<close>

datatype push_move = Iterate | ReadVar

record environment =
  db_error :: "nat \<Rightarrow> string option"
  random16 :: "nat \<Rightarrow> bytes option"
  new_key :: "nat \<Rightarrow> PrivateKey option"
  post_reply :: "nat \<Rightarrow> string \<Rightarrow> bytes \<Rightarrow> bytes option"
  signing :: crypto_ops
  time_text :: "int \<Rightarrow> string"
  error_text :: "trust_error \<Rightarrow> string"
  push_order :: "string list \<Rightarrow> string list"
  push_schedule :: "push_move list"

text \<open>An action on the process, in a handler.\<close>

definition world :: "('s, 'a) act \<Rightarrow> ('s conn, 'a) act" where
  "world m c = (case m (World c) of (r, w) \<Rightarrow> (r, c\<lparr>World := w\<rparr>))"

subsection \<open>The database\<close>

text \<open>A call: a nil dereference without a database, else an error (\<open>Inl\<close>) or the result.\<close>

definition db_call :: "environment \<Rightarrow> (database \<Rightarrow> 'a \<times> database) \<Rightarrow> (app, string + 'a) act" where
  "db_call env f w =
     (case app_db w of
        None \<Rightarrow> (Inl NilDereference, w)
      | Some d \<Rightarrow>
          (let w1 = w\<lparr>db_calls := Suc (db_calls w)\<rparr> in
           case db_error env (db_calls w) of
             Some e \<Rightarrow> (Inr (Inl e), w1)
           | None \<Rightarrow> (case f d of (x, d') \<Rightarrow> (Inr (Inr x), w1\<lparr>app_db := Some d'\<rparr>))))"

fun upsert :: "('d \<Rightarrow> string) \<Rightarrow> 'd \<Rightarrow> 'd list \<Rightarrow> 'd list" where
  "upsert key doc [] = [doc]"
| "upsert key doc (d # ds) = (if key d = key doc then doc # ds else d # upsert key doc ds)"

definition find_key :: "('d \<Rightarrow> string) \<Rightarrow> string \<Rightarrow> 'd list \<Rightarrow> 'd option" where
  "find_key key k ds = List.find (\<lambda>d. key d = k) ds"

definition upsert_identity :: "environment \<Rightarrow> Identity \<Rightarrow> (app, string + unit) act" where
  "upsert_identity env i = db_call env (\<lambda>d. ((), d\<lparr>col_identities := upsert identity_id i (col_identities d)\<rparr>))"

definition upsert_instance :: "environment \<Rightarrow> Instance \<Rightarrow> (app, string + unit) act" where
  "upsert_instance env i = db_call env (\<lambda>d. ((), d\<lparr>col_instances := upsert instance_id i (col_instances d)\<rparr>))"

definition upsert_setting :: "environment \<Rightarrow> KV \<Rightarrow> (app, string + unit) act" where
  "upsert_setting env kv = db_call env (\<lambda>d. ((), d\<lparr>col_settings := upsert kv_key kv (col_settings d)\<rparr>))"

text \<open>\<open>Find(bson.M\{"_id": \dots\}).One\<close>: \<open>None\<close> is the error \<open>not found\<close>.\<close>

definition find_setting :: "environment \<Rightarrow> string \<Rightarrow> (app, string + KV option) act" where
  "find_setting env k = db_call env (\<lambda>d. (find_key kv_key k (col_settings d), d))"

definition find_identity :: "environment \<Rightarrow> string \<Rightarrow> (app, string + Identity option) act" where
  "find_identity env k = db_call env (\<lambda>d. (find_key identity_id k (col_identities d), d))"

subsection \<open>Other hosts\<close>

text \<open>\<open>http.Post\<close>: the request is recorded; the body of the answer, or \<open>None\<close> when there is none.\<close>

definition http_post :: "environment \<Rightarrow> string \<Rightarrow> bytes \<Rightarrow> app \<Rightarrow> bytes option \<times> app" where
  "http_post env uri body w =
     (post_reply env (length (posts w)) uri body, w\<lparr>posts := posts w @ [(uri, body)]\<rparr>)"

definition FetchIdentity :: "environment \<Rightarrow> string \<Rightarrow> app \<Rightarrow> Identity option \<times> app" where
  "FetchIdentity env uri w =
     (case http_post env uri (Marshal (self_json (self (rt w)))) w of
        (reply, w') \<Rightarrow>
          (Option.bind reply (\<lambda>body. Option.bind (Unmarshal body) (\<lambda>v.
             case decode_identity v zero_identity of (ok, i) \<Rightarrow> if ok then Some i else None)), w'))"

definition Identity_Send :: "environment \<Rightarrow> Identity \<Rightarrow> Payload \<Rightarrow> app \<Rightarrow> app" where
  "Identity_Send env s p w = snd (http_post env (GetURI s @ ''/instances'') (Marshal (payload_json p)) w)"

text \<open>One goroutine of \<open>Push\<close>, with the value of the loop variable it reads.\<close>

definition push_one :: "environment \<Rightarrow> Payload \<Rightarrow> string \<Rightarrow> app \<Rightarrow> app" where
  "push_one env p identityHostname w =
     (case find_identity env identityHostname w of
        (Inr (Inr (Some i)), w') \<Rightarrow> (if hostname i \<noteq> [] \<and> GetURI i \<noteq> [] then Identity_Send env i p w' else w')
      | (_, w') \<Rightarrow> w')"

text \<open>
  \<open>Push\<close> starts a goroutine for every key of the map, in the order of the \<open>range\<close>.  The closure captures the loop
  variable, of which there is one for the whole loop, and reads it when the goroutine runs: \<open>key_var\<close> is that
  variable, \<open>keys_left\<close> what the loop has still to visit, \<open>started\<close> how many goroutines have not read it yet, and
  \<open>keys_read\<close> what the others found.  Which of the waiting goroutines reads makes no difference, as they are
  alike.
\<close>

record push_state =
  key_var :: string
  keys_left :: "string list"
  started :: nat
  keys_read :: "string list"

fun push_step :: "push_move \<Rightarrow> push_state \<Rightarrow> push_state" where
  "push_step Iterate s =
     (case keys_left s of
        [] \<Rightarrow> s
      | k # ks \<Rightarrow> s\<lparr>key_var := k, keys_left := ks, started := Suc (started s)\<rparr>)"
| "push_step ReadVar s =
     (if started s = 0 then s else s\<lparr>started := started s - 1, keys_read := keys_read s @ [key_var s]\<rparr>)"

text \<open>The scheduled moves, then the rest of the loop, then the goroutines that are left.\<close>

definition push_run :: "push_move list \<Rightarrow> string list \<Rightarrow> push_state" where
  "push_run moves ks =
     fold push_step (moves @ replicate (length ks) Iterate @ replicate (length ks) ReadVar)
       \<lparr>key_var = [], keys_left = ks, started = 0, keys_read = []\<rparr>"

definition push_targets :: "environment \<Rightarrow> Payload \<Rightarrow> string list" where
  "push_targets env p =
     keys_read (push_run (push_schedule env)
       (push_order env (case perm_identities p of None \<Rightarrow> [] | Some m \<Rightarrow> map fst m)))"

definition Push :: "environment \<Rightarrow> Payload \<Rightarrow> app \<Rightarrow> app" where
  "Push env p = fold (push_one env p) (push_targets env p)"

text \<open>The send on the channel of the hub, which is recorded; the hub that receives it is modelled with the
  pumps, where the send waits for it.\<close>

definition Broadcast :: "Payload \<Rightarrow> app \<Rightarrow> app" where
  "Broadcast p w = w\<lparr>broadcasts := broadcasts w @ [Envelope_ToJSON ''instance'' (payload_json p)]\<rparr>"

subsection \<open>Error answers\<close>

definition clientError :: "string \<Rightarrow> 's handler" where
  "clientError errorString = Error errorString 400"

definition internal :: "string \<Rightarrow> 's handler" where
  "internal errorString = Error errorString 500"

definition unauthorized :: "'s handler" where
  "unauthorized = Error ''Unauthorized'' 401"

definition unprocessable :: "'s handler" where
  "unprocessable = Error ''Unprocessable'' 422"

subsection \<open>Registration\<close>

text \<open>The host of \<open>net.SplitHostPort\<close>, empty when it reports an error.\<close>

definition split_host :: "string \<Rightarrow> string" where
  "split_host hostport =
     (let i = length hostport - 1 - length (takeWhile (\<lambda>c. c \<noteq> CHR '':'') (rev hostport)) in
      if CHR '':'' \<notin> set hostport then []
      else if hd hostport = CHR ''['' then
        (let inner = takeWhile (\<lambda>c. c \<noteq> CHR '']'') (tl hostport); close = Suc (length inner) in
         if CHR '']'' \<notin> set hostport \<or> Suc close \<noteq> i \<or> CHR ''['' \<in> set (tl hostport) \<or>
            CHR '']'' \<in> set (drop (Suc close) hostport) then []
         else inner)
      else (let host = take i hostport in
        if CHR '':'' \<in> set host \<or> CHR ''['' \<in> set hostport \<or> CHR '']'' \<in> set hostport then [] else host))"

definition decode_setup :: "json \<Rightarrow> (string \<times> string \<times> string) option" where
  "decode_setup v =
     (case struct_members v of
        None \<Rightarrow> None
      | Some kvs \<Rightarrow>
          (let (ok1, pw) = decode_string (members_named ''password'' kvs) [];
               (ok2, f) = decode_string (members_named ''firstName'' kvs) [];
               (ok3, l) = decode_string (members_named ''lastName'' kvs) []
           in if ok1 \<and> ok2 \<and> ok3 then Some (pw, f, l) else None))"

definition generate_key :: "environment \<Rightarrow> (app, PrivateKey option) act" where
  "generate_key env w = (Inr (new_key env (keys_made w)), w\<lparr>keys_made := Suc (keys_made w)\<rparr>)"

definition set_self :: "Identity \<Rightarrow> app \<Rightarrow> app" where
  "set_self i w = w\<lparr>rt := (rt w)\<lparr>self := Some i\<rparr>\<rparr>"

text \<open>The rest of the handler once the new identity has its keys; the error of \<open>Init\<close> is ignored.\<close>

definition store_registration :: "environment \<Rightarrow> Identity \<Rightarrow> app handler" where
  "store_registration env identity =
     act_bind (world (upsert_identity env identity)) (\<lambda>r1.
       case r1 of
         Inl e \<Rightarrow> internal ''Could not insert identity''
       | Inr _ \<Rightarrow>
           act_bind (world (upsert_setting env \<lparr>kv_key = ''hostname'', kv_value = hostname identity\<rparr>)) (\<lambda>r2.
             case r2 of
               Inl e \<Rightarrow> internal ''Could not insert setting''
             | Inr _ \<Rightarrow> act_seq (world (act_modify (set_self identity))) (write_json (identity_json identity))))"

definition new_registration :: "string \<Rightarrow> string \<Rightarrow> string \<Rightarrow> string \<Rightarrow> Identity" where
  "new_registration host password firstName lastName =
     zero_identity\<lparr>hostname := host, FirstName := firstName, LastName := lastName, Passhash := hex_encode (sha1 password)\<rparr>"

definition request_host :: "Request \<Rightarrow> string" where
  "request_host r = (if CHR '':'' \<in> set (ReqHost r) then split_host (ReqHost r) else ReqHost r)"

definition HandlePublicRegisterPost :: "environment \<Rightarrow> app handler" where
  "HandlePublicRegisterPost env =
     act_bind (world (find_setting env ''hostname'')) (\<lambda>found.
       case found of
         Inr (Some kv) \<Rightarrow> unauthorized
       | _ \<Rightarrow> act_bind (act_get Req) (\<lambda>r.
           case Option.bind (DecodeJsonPayload r) decode_setup of
             None \<Rightarrow> unprocessable
           | Some (password, firstName, lastName) \<Rightarrow>
               act_bind (world (generate_key env)) (\<lambda>key.
                 case Identity_Init key (new_registration (request_host r) password firstName lastName) of
                   (Inl (Panics p), identity) \<Rightarrow> act_panic p
                 | (_, identity) \<Rightarrow> store_registration env identity)))"

subsection \<open>The identity\<close>

definition write_self :: "app handler" where
  "write_self = act_bind (act_get (\<lambda>c. self (rt (World c)))) (\<lambda>s. write_json (self_json s))"

definition HandlePublicIndex :: "app handler" where
  "HandlePublicIndex =
     act_bind (act_get (\<lambda>c. Env (Req c) ''REMOTE_USER'')) (\<lambda>u. case u of Some _ \<Rightarrow> write_self | None \<Rightarrow> write_self)"

definition read_identity :: "Request \<Rightarrow> Identity option" where
  "read_identity r =
     Option.bind (DecodeJsonPayload r) (\<lambda>v. case decode_identity v zero_identity of (ok, i) \<Rightarrow> if ok then Some i else None)"

definition HandlePublicIndexPost :: "environment \<Rightarrow> app handler" where
  "HandlePublicIndexPost env =
     act_bind (act_get Req) (\<lambda>r.
       case read_identity r of
         None \<Rightarrow> unprocessable
       | Some identity \<Rightarrow> act_bind (world (upsert_identity env identity)) (\<lambda>_. write_self))"

subsection \<open>Instances\<close>

definition HandleInstances :: "environment \<Rightarrow> app handler" where
  "HandleInstances env =
     act_bind (world (db_call env (\<lambda>d. (col_instances d, d)))) (\<lambda>r.
       case r of
         Inr is \<Rightarrow> write_json (JArr (map (\<lambda>i. payload_json (instance_payload i)) is))
       | Inl e \<Rightarrow> internal e)"

text \<open>After an instance was stored: the answer, then the other hosts and the sockets.\<close>

definition announce :: "environment \<Rightarrow> Payload \<Rightarrow> app handler" where
  "announce env p =
     act_seq (write_json (payload_json p))
       (world (act_modify (\<lambda>w. Broadcast p (Push env p w))))"

definition new_uuid :: "environment \<Rightarrow> (app, string) act" where
  "new_uuid env w =
     (run_bind (NewV4 (random16 env (draws w))) (\<lambda>u. Formatter u CleanHyphen), w\<lparr>draws := Suc (draws w)\<rparr>)"

definition post_own :: "environment \<Rightarrow> Payload \<Rightarrow> app handler" where
  "post_own env payload =
     act_bind (act_get (\<lambda>c. self (rt (World c)))) (\<lambda>owner.
     act_bind (world (new_uuid env)) (\<lambda>i.
       case owner of
         None \<Rightarrow> act_panic NilDereference
       | Some ow \<Rightarrow>
           act_bind time_now (\<lambda>now.
             case Instance_Sign (signing env) (time_text env now)
                 \<lparr>instance_id = i, instance_owner = Some ow,
                  instance_payload = payload\<lparr>payload_id := i, payload_owner := identity_id ow\<rparr>\<rparr> of
               Inl (Panics p) \<Rightarrow> act_panic p
             | Inl (Fails e) \<Rightarrow> clientError (error_text env e)
             | Inr inst \<Rightarrow>
                 act_bind (world (upsert_instance env inst)) (\<lambda>r.
                   case r of
                     Inl e \<Rightarrow> clientError e
                   | Inr _ \<Rightarrow> announce env (instance_payload inst)))))"

text \<open>The instance of another host keeps the zero identifier and owner.  When storing it fails, the error is
  in an inner variable and \<open>err.Error()\<close> is called on the outer one, which is nil.\<close>

definition post_foreign :: "environment \<Rightarrow> Payload \<Rightarrow> app handler" where
  "post_foreign env payload =
     act_bind (act_get (\<lambda>c. self (rt (World c)))) (\<lambda>s.
       case s of
         None \<Rightarrow> act_panic NilDereference
       | Some me \<Rightarrow>
           if payload_owner payload = identity_id me
           then clientError (''An authenticated request is required to post as this identity'' @ [CHR 0x27] @ ''s owner'')
           else (let inst = \<lparr>instance_id = [], instance_owner = None, instance_payload = payload\<rparr> in
             case Instance_Verify (signing env) inst of
               Inl (Panics p) \<Rightarrow> act_panic p
             | Inl (Fails e) \<Rightarrow> clientError ''Could not validate signature''
             | Inr False \<Rightarrow> clientError ''Invalid signature''
             | Inr True \<Rightarrow>
                 act_bind (world (upsert_instance env inst)) (\<lambda>r.
                   case r of
                     Inl e \<Rightarrow> act_panic NilDereference
                   | Inr _ \<Rightarrow> announce env payload)))"

definition max_body :: nat where
  "max_body = 1048576"

definition HandleInstancesPost :: "environment \<Rightarrow> app handler" where
  "HandleInstancesPost env =
     act_bind (act_get Req) (\<lambda>r.
       case Body r of
         None \<Rightarrow> act_panic (ExplicitPanic ''read'')
       | Some content \<Rightarrow>
           (let payload = snd (SetPayloadFromJson (take max_body content) zero_payload) in
            case Env r ''REMOTE_USER'' of
              Some _ \<Rightarrow> post_own env payload
            | None \<Rightarrow> post_foreign env payload))"

subsection \<open>Identities and settings\<close>

text \<open>A nil slice, which an empty collection or an error leaves, prints as null.\<close>

definition list_json :: "('d \<Rightarrow> json) \<Rightarrow> (string + 'd list) \<Rightarrow> json" where
  "list_json f r = (case r of Inl e \<Rightarrow> JNull | Inr [] \<Rightarrow> JNull | Inr ds \<Rightarrow> JArr (map f ds))"

definition HandleOwnIdentities :: "environment \<Rightarrow> app handler" where
  "HandleOwnIdentities env =
     act_bind (world (db_call env (\<lambda>d. (col_identities d, d)))) (\<lambda>r. write_json (list_json identity_json r))"

definition HandleOwnIdentitiesPost :: "environment \<Rightarrow> app handler" where
  "HandleOwnIdentitiesPost env =
     act_bind (act_get Req) (\<lambda>r.
       case read_identity r of
         None \<Rightarrow>
           act_seq (set_header ''Content-Type'' ''application/json; charset=UTF-8'')
             (act_seq (write_header 422) (write_json (JStr ''nop'')))
       | Some identity \<Rightarrow>
           if hostname identity = [] then clientError ''Missing hostname''
           else act_bind (world (\<lambda>w. case FetchIdentity env (GetURI identity) w of (i, w') \<Rightarrow> (Inr i, w'))) (\<lambda>fetched.
             case fetched of
               None \<Rightarrow> clientError ''Could not retrieve identity''
             | Some i \<Rightarrow>
                 act_bind (world (upsert_identity env i)) (\<lambda>e.
                   case e of
                     Inl _ \<Rightarrow> internal ''Could not upsert identity''
                   | Inr _ \<Rightarrow> write_json (identity_json i))))"

definition HandleOwnSettings :: "environment \<Rightarrow> app handler" where
  "HandleOwnSettings env =
     act_bind (world (db_call env (\<lambda>d. (col_settings d, d)))) (\<lambda>r. write_json (list_json kv_json r))"

end
