(* ===== verification/Application.thy ===== *)
theory Application
  imports AppHandlers
begin

text \<open>
  The program put together (\<open>main.go\<close>): the token middleware and its authenticator, the routes, the
  middleware stack, and what happens at start.
\<close>

definition main_cors :: CorsMiddleware where
  "main_cors = \<lparr>RejectNonCorsRequests = False, OriginValidator = (\<lambda>origin request. True),
     AllowedMethods = [''GET'', ''POST'', ''PUT'', ''PATCH'', ''DELETE''],
     AllowedHeaders = [''Accept'', ''Authorization'', ''Content-Type'', ''X-Custom-Header'', ''Origin''],
     AccessControlExposeHeaders = [], AccessControlAllowCredentials = True, AccessControlMaxAge = 3600\<rparr>"

definition authenticate :: "app \<Rightarrow> string \<Rightarrow> string \<Rightarrow> bool run" where
  "authenticate w userId password =
     (case self (rt w) of
        None \<Rightarrow> Inl NilDereference
      | Some me \<Rightarrow> Inr (Passhash me = hex_encode (sha1 password) \<and> userId = hostname me))"

definition jwtMiddleware :: "app JWTMiddleware" where
  "jwtMiddleware = \<lparr>Realm = ''jwt auth'', SigningAlgorithm = ''HS256'', Key = Some ''foobar'', Timeout = hour,
     MaxRefresh = hour * 24, Authenticator = Some authenticate, Authorizator = None, PayloadFunc = None\<rparr>"

text \<open>The handlers are wrapped before the program serves, which fills in the defaults.\<close>

definition jwt_ready :: "app JWTMiddleware" where
  "jwt_ready = (case jwt_setup jwtMiddleware of Inr mw \<Rightarrow> mw | Inl p \<Rightarrow> jwtMiddleware)"

definition jwtMiddlewareOptionally :: "rsa_ops \<Rightarrow> app middleware" where
  "jwtMiddlewareOptionally rsa =
     IfMiddleware (\<lambda>request. header_get (ReqHeader request) ''Authorization'' \<noteq> [])
       (Some (middlewareImpl rsa jwt_ready)) None"

definition main_routes :: "rsa_ops \<Rightarrow> environment \<Rightarrow> app handler RouteDef list" where
  "main_routes rsa env =
     [Post ''/login'' (LoginHandler rsa jwt_ready),
      Get ''/refresh_token'' (RefreshHandler rsa jwt_ready),
      Post ''/register'' (HandlePublicRegisterPost env),
      Get ''/'' (jwtMiddlewareOptionally rsa HandlePublicIndex),
      Post ''/'' (HandlePublicIndexPost env),
      Post ''/instances'' (jwtMiddlewareOptionally rsa (HandleInstancesPost env)),
      Get ''/instances'' (HandleInstances env),
      Get ''/identities'' (jwtMiddlewareOptionally rsa (HandleOwnIdentities env)),
      Post ''/identities'' (HandleOwnIdentitiesPost env),
      Get ''/settings'' (HandleOwnSettings env)]"

text \<open>The handler the program serves under \<open>/\<close>; \<open>log.Fatal\<close> when the router cannot be made.\<close>

definition main_handler ::
  "rsa_ops \<Rightarrow> environment \<Rightarrow> (Request \<Rightarrow> access_record \<Rightarrow> string) \<Rightarrow> (go_panic \<Rightarrow> string) \<Rightarrow> app handler run" where
  "main_handler rsa env render trace =
     (case MakeRouter (main_routes rsa env) of
        Inl e \<Rightarrow> Inl (ProcessExit ''router'')
      | Inr router \<Rightarrow>
          Inr (MakeHandler (SetApp (AppFunc router) (Use [Cors_MiddlewareFunc main_cors]
            (Use (DefaultDevStack render trace) (Use [StatusMiddleware] NewApi))))))"

text \<open>At start: without a database address the process exits; else the identity whose host name is the
  setting is loaded, and it has to be there when the setting is.\<close>

definition getenvOrDefault :: "(string \<Rightarrow> string) \<Rightarrow> string \<Rightarrow> string \<Rightarrow> string" where
  "getenvOrDefault getenv key def = (if getenv key = [] then def else getenv key)"

definition load_self :: "environment \<Rightarrow> (string \<Rightarrow> string) \<Rightarrow> database \<Rightarrow> (app, unit) act" where
  "load_self env getenv mongo =
     (if getenv ''MONGOLAB_URI'' \<noteq> [] then
        act_seq (act_modify (\<lambda>w. w\<lparr>app_db := Some mongo\<rparr>))
        (act_bind (find_setting env ''hostname'') (\<lambda>found.
          case found of
            Inr (Some kv) \<Rightarrow>
              act_bind (db_call env (\<lambda>d. (find_key hostname (kv_value kv) (col_identities d), d))) (\<lambda>me.
                case me of
                  Inr (Some i) \<Rightarrow> act_modify (set_self i)
                | _ \<Rightarrow> act_panic (ProcessExit ''Could not find identity''))
          | _ \<Rightarrow> act_return ()))
      else act_panic (ProcessExit ''Missing db connection''))"

definition initial_app :: app where
  "initial_app = \<lparr>app_db = None, rt = newRoutingTable, db_calls = 0, draws = 0, keys_made = 0, posts = [], broadcasts = []\<rparr>"

end
