(* ===== verification/PassThrough.thy ===== *)
theory PassThrough
  imports MiddlewareSpec
begin

text \<open>
  The middlewares of the stack change the state of the program only as the handler does that they wrap,
  called on the request they got: shown for each of them and for any stack of them.
\<close>

text \<open>What a middleware may not change before it calls the handler it wraps.\<close>

definition same_request :: "'s conn \<Rightarrow> 's conn \<Rightarrow> bool" where
  "same_request c c0 \<longleftrightarrow> World c0 = World c \<and> ReqHeader (Req c0) = ReqHeader (Req c) \<and> Body (Req c0) = Body (Req c) \<and>
     ReqHost (Req c0) = ReqHost (Req c) \<and> Clock c0 = Clock c \<and>
     Env (Req c0) ''REMOTE_USER'' = Env (Req c) ''REMOTE_USER''"

lemma same_request_refl [simp]: "same_request c c"
  by (simp add: same_request_def)

lemma same_request_trans: "same_request a b \<Longrightarrow> same_request b c \<Longrightarrow> same_request a c"
  by (simp add: same_request_def)

text \<open>A tame middleware changes the world only as the handler does that it wraps, called on the same request.\<close>

definition passes_on :: "'s handler \<Rightarrow> 's handler \<Rightarrow> bool" where
  "passes_on h' h \<longleftrightarrow> (\<forall>c. World (snd (h' c)) = World c \<or>
     (\<exists>c0. same_request c c0 \<and> World (snd (h' c)) = World (snd (h c0))))"

definition tame :: "'s middleware \<Rightarrow> bool" where
  "tame mw \<longleftrightarrow> (\<forall>h. passes_on (mw h) h)"

lemma passes_on_trans: "passes_on a b \<Longrightarrow> passes_on b c \<Longrightarrow> passes_on a c"
  unfolding passes_on_def
proof (intro allI)
  fix x :: "'a conn"
  assume ab: "\<forall>c. World (snd (a c)) = World c \<or> (\<exists>c0. same_request c c0 \<and> World (snd (a c)) = World (snd (b c0)))"
    and bc: "\<forall>x. World (snd (b x)) = World x \<or> (\<exists>c0. same_request x c0 \<and> World (snd (b x)) = World (snd (c c0)))"
  from ab consider "World (snd (a x)) = World x" | c0 where "same_request x c0" "World (snd (a x)) = World (snd (b c0))" by blast
  then show "World (snd (a x)) = World x \<or> (\<exists>c0. same_request x c0 \<and> World (snd (a x)) = World (snd (c c0)))"
  proof cases
    case 2
    from bc consider "World (snd (b c0)) = World c0" | c1 where "same_request c0 c1" "World (snd (b c0)) = World (snd (c c1))" by blast
    then show ?thesis
    proof cases
      case 1
      with 2 show ?thesis by (simp add: same_request_def)
    next
      case 2
      with \<open>same_request x c0\<close> \<open>World (snd (a x)) = World (snd (b c0))\<close> show ?thesis by (metis same_request_trans)
    qed
  qed blast
qed

lemma passes_on_refl: "passes_on h h"
  unfolding passes_on_def using same_request_refl by blast

lemma tameI:
  "(\<And>h c. World (snd (mw h c)) = World c \<or> (\<exists>c0. same_request c c0 \<and> World (snd (mw h c)) = World (snd (h c0)))) \<Longrightarrow> tame mw"
  by (simp add: tame_def passes_on_def)

lemma World_seq_after:
  assumes "\<And>c. World (snd (k c)) = World c"
  shows "World (snd (act_seq h k c)) = World (snd (h c))"
  using assms by (simp add: act_seq_eq split: sum.split)

lemma tame_with_layer:
  assumes "\<And>l c. World (snd (k l c)) = World c"
  shows "tame (\<lambda>h. with_layer l h k)"
proof (rule tameI)
  fix h and c :: "'a conn"
  let ?c = "c\<lparr>Out := (l # fst (Out c), snd (Out c))\<rparr>"
  have "World (snd (with_layer l h k c)) = World (snd (h ?c))"
    using assms by (auto simp: with_layer_def Let_def split: prod.split sum.split list.split)
  moreover have "same_request c ?c" by (simp add: same_request_def)
  ultimately show "World (snd (with_layer l h k c)) = World c \<or>
      (\<exists>c0. same_request c c0 \<and> World (snd (with_layer l h k c)) = World (snd (h c0)))" by blast
qed

lemma tame_Recorder: "tame RecorderMiddleware"
  unfolding RecorderMiddleware_def by (rule tame_with_layer) (simp add: act_seq_eq)

lemma tame_JsonIndent: "tame (JsonIndentMiddleware p i)"
  unfolding JsonIndentMiddleware_def by (rule tame_with_layer) simp

lemma tame_before:
  assumes "\<And>c. fst (m c) = Inr () \<and> same_request c (snd (m c))"
  shows "tame (\<lambda>h. act_seq m h)"
  by (rule tameI) (use assms in \<open>force simp: act_seq_passes\<close>)

lemma same_request_out_op: "same_request c (snd (out_op op c))"
  by (simp add: same_request_def)

lemma tame_PoweredBy: "tame (PoweredByMiddleware x)"
  unfolding PoweredByMiddleware_def by (rule tame_before) (simp add: same_request_out_op)

lemma same_request_set_env: "k \<noteq> ''REMOTE_USER'' \<Longrightarrow> same_request c (snd (set_env k v c))"
  by (simp add: same_request_def set_env_def)

lemma tame_Timer: "tame TimerMiddleware"
proof (rule tameI)
  fix h and c :: "'a conn"
  let ?c1 = "c\<lparr>Ticks := Suc (Ticks c)\<rparr>" and ?v = "EnvTime (Clock c (Ticks c))"
  have after: "World (snd (act_bind time_now (\<lambda>finish. set_env k (EnvDuration (finish - s))) c')) = World c'"
    for k s and c' :: "'a conn" by (simp add: act_bind_eq time_now_def)
  have "World (snd (TimerMiddleware h c)) = World (snd (h (snd (set_env ''START_TIME'' ?v ?c1))))"
    by (simp add: TimerMiddleware_def act_bind_eq time_now_def act_seq_passes World_seq_after [OF after, unfolded time_now_def])
  moreover have "same_request c (snd (set_env ''START_TIME'' ?v ?c1))" by (simp add: same_request_def set_env_def)
  ultimately show "World (snd (TimerMiddleware h c)) = World c \<or>
      (\<exists>c0. same_request c c0 \<and> World (snd (TimerMiddleware h c)) = World (snd (h c0)))" by blast
qed

lemma tame_after:
  assumes "\<And>h c. World (snd (mw h c)) = World (snd (h c))"
  shows "tame mw"
  by (rule tameI) (use assms same_request_refl in blast)

lemma tame_Recover: "tame (RecoverMiddleware trace j s)"
proof (rule tame_after)
  fix h and c :: "'a conn"
  show "World (snd (RecoverMiddleware trace j s h c)) = World (snd (h c))"
    by (cases "h c") (auto simp: RecoverMiddleware_def act_seq_eq logError_def split: sum.split go_panic.split)
qed

lemma tame_AccessLog: "tame (AccessLogMiddleware render)"
  by (rule tame_after) (auto simp: AccessLogMiddleware_def intro!: World_seq_after split: sum.split)

lemma tame_Status: "tame StatusMiddleware"
  by (rule tame_after)
    (auto simp: StatusMiddleware_def intro!: World_seq_after split: option.split env_value.split)

lemma tame_ContentType: "tame ContentTypeCheckerMiddleware"
proof (rule tameI)
  fix h and c :: "'a conn"
  have "ContentTypeCheckerMiddleware h c = h c \<or> World (snd (ContentTypeCheckerMiddleware h c)) = World c"
    by (auto simp: ContentTypeCheckerMiddleware_def Let_def split: prod.split)
  then show "World (snd (ContentTypeCheckerMiddleware h c)) = World c \<or>
      (\<exists>c0. same_request c c0 \<and> World (snd (ContentTypeCheckerMiddleware h c)) = World (snd (h c0)))"
    using same_request_refl [of c] by metis
qed

lemma tame_Cors: "tame (Cors_MiddlewareFunc mw)"
proof (rule tameI)
  fix h and c :: "'a conn"
  from cors_actual_passes [of mw "GetCorsInfo (Req c)" h c] obtain c' where
    c': "cors_actual mw (GetCorsInfo (Req c)) h c = h c'" "same_request c c'" by (auto simp: same_request_def)
  have "Cors_MiddlewareFunc mw h c \<in> {h c, h c'} \<or> World (snd (Cors_MiddlewareFunc mw h c)) = World c"
    by (auto simp: Cors_MiddlewareFunc_def Let_def c'(1))
  then show "World (snd (Cors_MiddlewareFunc mw h c)) = World c \<or>
      (\<exists>c0. same_request c c0 \<and> World (snd (Cors_MiddlewareFunc mw h c)) = World (snd (h c0)))"
    using c'(2) same_request_refl [of c] by (metis insertE singletonD)
qed

lemma tame_Wrap: "list_all tame ms \<Longrightarrow> passes_on (WrapMiddlewares ms h) h"
  unfolding WrapMiddlewares_def
  by (induction ms) (auto simp: tame_def intro: passes_on_trans passes_on_refl)

end
