(* ===== verification/JsonSignSpec.thy ===== *)
theory JsonSignSpec
  imports JsonSign "HOL-Library.Multiset"
begin

text \<open>
  What signed JSON promises: a signature verifies, in the object it was added to, after a round trip
  through its JWS form, and after a round trip through the form with the signatures inside the payload.
\<close>

subsection \<open>Verifying what was signed\<close>

lemma verify_payload: "js_payload js = js_payload js' \<Longrightarrow> verify_signatures ops js sigs = verify_signatures ops js' sigs"
  by (induction sigs) (simp_all add: signBytes_def)

lemma verify_append:
  "verify_signatures ops js (a @ b) =
     run_bind (verify_signatures ops js a) (\<lambda>ks. run_bind (verify_signatures ops js b) (\<lambda>ks'. Inr (ks @ ks')))"
proof (induction a)
  case Nil
  then show ?case by (cases "verify_signatures ops js b") simp_all
next
  case (Cons s a)
  have assoc: "run_bind (run_bind m f) g = run_bind m (\<lambda>x. run_bind (f x) g)"
    for m :: "'e + 'x" and f :: "'x \<Rightarrow> 'e + 'y" and g :: "'y \<Rightarrow> 'e + 'z"
    by (cases m) simp_all
  show ?case by (simp add: Cons assoc)
qed

context signing_keys
begin

lemma Sign_fields:
  "js_Sign ops now key js = Inr js' \<Longrightarrow> \<exists>s. js' = js\<lparr>signatures := signatures js @ [s]\<rparr> \<and>
     js_protected s = protectedHeader now js \<and> js_header s = \<lparr>js_jwk = Some (PublicKeyOf key), js_alg = js_alg (js_header s), js_chain = []\<rparr>"
  by (auto simp: js_Sign_def Let_def run_bind_eq_Inr_iff)

lemma Sign_verifies:
  assumes "good key" "js_Sign ops now key js = Inr js'" "js_Verify ops js = Inr keys"
  shows "js_Verify ops js' = Inr (keys @ [PublicKeyOf key])"
proof -
  let ?p = "protectedHeader now js"
  from assms(2) obtain sig alg where
    s: "private_Sign ops key (signBytes js ?p) SHA256 = Inr (sig, alg)"
    and js': "js' = js\<lparr>signatures := signatures js @
      [\<lparr>js_header = \<lparr>js_jwk = Some (PublicKeyOf key), js_alg = alg, js_chain = []\<rparr>,
        js_signature = joseBase64UrlEncode sig, js_protected = ?p\<rparr>]\<rparr>"
    by (auto simp: js_Sign_def Let_def run_bind_eq_Inr_iff)
  have "public_Verify ops (PublicKeyOf key) (signBytes js' ?p) alg sig = Inr ()"
    using verifies [OF assms(1) s] by (simp add: js' signBytes_def)
  moreover have "verify_signatures ops js' (signatures js) = Inr keys"
    using assms(3) verify_payload [of js js'] by (simp add: js_Verify_def js')
  ultimately show ?thesis
    by (simp add: js_Verify_def js' verify_append signature_key_def jose_decode_encode)
qed

end

subsection \<open>Signatures as JSON\<close>

lemma name_folds:
  "\<not> equal_fold ''alg'' ''jwk''" "\<not> equal_fold ''x5c'' ''jwk''" "\<not> equal_fold ''jwk'' ''alg''" "\<not> equal_fold ''x5c'' ''alg''"
  "\<not> equal_fold ''jwk'' ''x5c''" "\<not> equal_fold ''alg'' ''x5c''"
  "\<not> equal_fold ''header'' ''signature''" "\<not> equal_fold ''header'' ''protected''" "\<not> equal_fold ''signature'' ''header''"
  "\<not> equal_fold ''signature'' ''protected''" "\<not> equal_fold ''protected'' ''header''" "\<not> equal_fold ''protected'' ''signature''"
  "\<not> equal_fold ''payload'' ''signatures''" "\<not> equal_fold ''signatures'' ''payload''"
  by code_simp+

text \<open>Signatures whose keys have a JSON form.\<close>

definition signature_ok :: "jsSignature \<Rightarrow> bool" where
  "signature_ok s \<longleftrightarrow> (case js_jwk (js_header s) of None \<Rightarrow> True | Some k \<Rightarrow> public_ok k)"

lemma decode_strings: "decode_elems decode_string_elem [] (map JStr cs) [] = (True, cs)"
  by (induction cs) (simp_all add: decode_string_elem_def)

lemma signature_json_ok:
  assumes "signature_ok s"
  shows "\<exists>v p. signature_json s = Inr v \<and> decode_signature v no_signature = (True, p) \<and> parse_signature p = Inr s \<and>
    ps_protected p = js_protected s"
proof -
  let ?h = "js_header s"
  obtain jwk raw where j: "(case js_jwk ?h of None \<Rightarrow> Inr [] | Some k \<Rightarrow> run_bind (public_toMap k) (\<lambda>m. Inr [(''jwk'', JObj m)])) = Inr jwk"
    and r: "jwk = (case raw of None \<Rightarrow> [] | Some v \<Rightarrow> [(''jwk'', v)])"
    and u: "(case raw of None \<Rightarrow> Inr None | Some v \<Rightarrow> run_bind (UnmarshalPublicKeyJWK (Marshal v)) (\<lambda>k. Inr (Some k))) = Inr (js_jwk ?h)"
  proof (cases "js_jwk ?h")
    case None
    then show thesis by (intro that [of "[]" None]) simp_all
  next
    case (Some k)
    with assms have k: "public_ok k" by (simp add: signature_ok_def)
    from public_toMap_ok [OF k] obtain m where m: "public_toMap k = Inr m" by blast
    show thesis
      by (rule that [of "[(''jwk'', JObj m)]" "Some (JObj m)"]) (simp_all add: Some m UnmarshalPublic_toMap [OF k m])
  qed
  define hv where "hv = JObj (jwk @ [(''alg'', JStr (js_alg ?h))] @
         (if js_chain ?h = [] then [] else [(''x5c'', JArr (map JStr (js_chain ?h)))]))"
  define ph where "ph = \<lparr>ph_jwk = raw, ph_alg = js_alg ?h, ph_chain = if js_chain ?h = [] then None else Some (js_chain ?h)\<rparr>"
  let ?v = "JObj ([(''header'', hv), (''signature'', JStr (js_signature s))] @
         (if js_protected s = [] then [] else [(''protected'', JStr (js_protected s))]))"
  let ?p = "\<lparr>ps_header = ph, ps_signature = js_signature s, ps_protected = js_protected s\<rparr>"
  have h: "decode_header [hv] no_header = (True, ph)"
    by (auto simp: hv_def ph_def r no_header_def name_folds decode_strings split: option.split)
  have "signature_json s = Inr ?v"
    by (simp add: signature_json_def header_json_def j hv_def)
  moreover have "decode_signature ?v no_signature = (True, ?p)"
    using h by (simp add: decode_signature_def no_signature_def name_folds del: decode_header.simps)
  moreover have "parse_signature ?p = Inr s"
    by (cases s, cases "js_header s") (auto simp: parse_signature_def ph_def u)
  moreover have "ps_protected ?p = js_protected s" by simp
  ultimately show ?thesis by blast
qed

lemma signatures_json_ok:
  "\<forall>s \<in> set sigs. signature_ok s \<Longrightarrow> \<exists>vs ps. signatures_json sigs = Inr vs \<and>
     decode_elems decode_signature no_signature vs [] = (True, ps) \<and> parse_signatures ps = Inr sigs \<and>
     map ps_protected ps = map js_protected sigs \<and> length vs = length sigs"
proof (induction sigs)
  case (Cons s sigs)
  from signature_json_ok [of s] Cons.prems obtain v p where
    "signature_json s = Inr v" "decode_signature v no_signature = (True, p)" "parse_signature p = Inr s"
    "ps_protected p = js_protected s" by auto
  moreover from Cons obtain vs ps where "signatures_json sigs = Inr vs"
    "decode_elems decode_signature no_signature vs [] = (True, ps)" "parse_signatures ps = Inr sigs"
    "map ps_protected ps = map js_protected sigs" "length vs = length sigs" by auto
  ultimately show ?case by (intro exI [of _ "v # vs"] exI [of _ "p # ps"]) simp
qed simp

subsection \<open>The JWS form\<close>

lemma verify_keys:
  "verify_signatures ops js sigs = Inr keys \<longleftrightarrow> (\<forall>s \<in> set sigs. \<exists>k. verify_signatures ops js [s] = Inr [k]) \<and>
     keys = concat (map (\<lambda>s. case verify_signatures ops js [s] of Inl _ \<Rightarrow> [] | Inr ks \<Rightarrow> ks) sigs)"
proof (induction sigs arbitrary: keys)
  case (Cons s sigs)
  have one: "verify_signatures ops js [s] = Inr ks \<Longrightarrow> \<exists>k. ks = [k]" for ks
    by (auto simp: run_bind_eq_Inr_iff)
  show ?case
    using verify_append [of ops js "[s]" sigs] one
    by (cases "verify_signatures ops js [s]") (auto simp: Cons.IH run_bind_eq_Inr_iff simp del: verify_signatures.simps)
qed auto

lemma verify_permuted:
  assumes "mset sigs = mset sigs'" "verify_signatures ops js sigs = Inr keys"
  shows "\<exists>keys'. verify_signatures ops js sigs' = Inr keys' \<and> mset keys' = mset keys"
proof -
  let ?f = "\<lambda>s. case verify_signatures ops js [s] of Inl _ \<Rightarrow> [] | Inr ks \<Rightarrow> ks"
  have "mset (concat (map ?f sigs)) = mset (concat (map ?f sigs'))"
    using assms(1) by (simp add: mset_concat comp_def) (metis (no_types, lifting) image_mset.compositionality mset_map sum_mset_sum_list map_map)
  moreover have "set sigs = set sigs'" using assms(1) by (metis set_mset_mset)
  ultimately show ?thesis using assms(2) verify_keys [of ops js sigs keys] verify_keys [of ops js sigs'] by auto
qed


lemma New_payload: "NewJSONSignature content [] = Inr js \<Longrightarrow> js_payload js = joseBase64UrlEncode content \<and> signatures js = []"
  by (auto simp: NewJSONSignature_def run_bind_eq_Inr_iff split: option.splits if_splits)

definition keyed :: "jsSignature \<Rightarrow> bool" where
  "keyed s \<longleftrightarrow> (\<exists>k. js_jwk (js_header s) = Some k \<and> public_ok k)"

lemma keyed_ok: "keyed s \<Longrightarrow> signature_ok s"
  by (auto simp: keyed_def signature_ok_def)

lemma sort_keyed:
  assumes "\<forall>s \<in> set sigs. keyed s"
  shows "\<exists>sigs'. sort_signatures sigs = Inr sigs' \<and> mset sigs' = mset sigs"
  using assms by (auto simp: sort_signatures_def keyed_def)

lemma JWS_parse:
  assumes "NewJSONSignature content [] = Inr js0" "sigs \<noteq> []" "\<forall>s \<in> set sigs. keyed s"
  shows "\<exists>b sigs'. js_JWS (js0\<lparr>signatures := sigs\<rparr>) = Inr (b, js0\<lparr>signatures := sigs'\<rparr>) \<and>
    ParseJWS b = Inr (js0\<lparr>signatures := sigs'\<rparr>) \<and> mset sigs' = mset sigs"
proof -
  from sort_keyed [OF assms(3)] obtain sigs' where
    so: "sort_signatures sigs = Inr sigs'" and ms: "mset sigs' = mset sigs" by blast
  then have "set sigs' = set sigs" by (metis set_mset_mset)
  with assms(3) have "\<forall>s \<in> set sigs'. signature_ok s" by (auto simp: keyed_ok)
  from signatures_json_ok [OF this] obtain vs ps where vs: "signatures_json sigs' = Inr vs"
    "decode_elems decode_signature no_signature vs [] = (True, ps)" "parse_signatures ps = Inr sigs'"
    "map ps_protected ps = map js_protected sigs'" by blast
  let ?v = "JObj [(''payload'', JStr (js_payload js0)), (''signatures'', JArr vs)]"
  let ?b = "MarshalIndent [] ''   '' ?v"
  have "sigs' \<noteq> []" using ms assms(2) by auto
  with vs(4) have ps: "ps \<noteq> []" by auto
  have u: "Unmarshal ?b = Some ?v" by (rule Unmarshal_MarshalIndent) (auto simp: is_ws_def)
  have pay: "joseBase64UrlDecode (js_payload js0) = Some content"
    using New_payload [OF assms(1)] by (simp add: jose_decode_encode)
  have "js_JWS (js0\<lparr>signatures := sigs\<rparr>) = Inr (?b, js0\<lparr>signatures := sigs'\<rparr>)"
    using assms(2) so vs(1) by (simp add: js_JWS_def)
  moreover have "ParseJWS ?b = Inr (js0\<lparr>signatures := sigs'\<rparr>)"
    using ps vs(2,3) assms(1) by (simp add: ParseJWS_def u name_folds pay)
  ultimately show ?thesis using ms by blast
qed

text \<open>
  Property C37.  Signing, sending and checking.  For content that is a JSON object, a signature by a
  valid key whose parameters fit their encodings goes through the JWS form: the receiver reads the
  same content, and verifying gives exactly the public keys that signed, one for each signature.
\<close>

theorem JWS_roundtrip:
  assumes "NewJSONSignature content [] = Inr js0" "js_Verify ops (js0\<lparr>signatures := sigs\<rparr>) = Inr keys"
    and "\<forall>s \<in> set sigs. keyed s"
    and "valid_key ops key" "public_ok (PublicKeyOf key)"
    and "js_Sign ops now key (js0\<lparr>signatures := sigs\<rparr>) = Inr js1"
  shows "\<exists>b js2 keys'. js_JWS js1 = Inr (b, js2) \<and> ParseJWS b = Inr js2 \<and> Payload_bytes js2 = Inr content \<and>
    js_Verify ops js2 = Inr keys' \<and> mset keys' = mset (keys @ [PublicKeyOf key])"
proof -
  from trust_keys.Sign_fields [OF assms(6)] obtain s where
    js1: "js1 = js0\<lparr>signatures := sigs @ [s]\<rparr>" and "js_jwk (js_header s) = Some (PublicKeyOf key)"
    by (cases js0) (auto, metis jsHeader.select_convs(1))
  with assms(3,5) have k: "\<forall>s \<in> set (sigs @ [s]). keyed s" by (auto simp: keyed_def)
  from trust_keys.Sign_verifies [OF assms(4,6,2)] have v: "js_Verify ops js1 = Inr (keys @ [PublicKeyOf key])" .
  from JWS_parse [OF assms(1) _ k] obtain b sigs' where
    b: "js_JWS js1 = Inr (b, js0\<lparr>signatures := sigs'\<rparr>)" "ParseJWS b = Inr (js0\<lparr>signatures := sigs'\<rparr>)"
    and ms: "mset sigs' = mset (sigs @ [s])" by (auto simp: js1)
  have "verify_signatures ops js1 (sigs @ [s]) = Inr (keys @ [PublicKeyOf key])"
    using v by (simp add: js_Verify_def js1)
  from verify_permuted [OF ms [symmetric] this] obtain keys' where
    k': "verify_signatures ops js1 sigs' = Inr keys'" "mset keys' = mset (keys @ [PublicKeyOf key])" by blast
  then have "js_Verify ops (js0\<lparr>signatures := sigs'\<rparr>) = Inr keys'"
    using verify_payload [of js1 "js0\<lparr>signatures := sigs'\<rparr>"] by (simp add: js_Verify_def js1)
  moreover have "Payload_bytes (js0\<lparr>signatures := sigs'\<rparr>) = Inr content"
    using New_payload [OF assms(1)] by (simp add: Payload_bytes_def jose_decode_encode)
  ultimately show ?thesis using b k'(2) by blast
qed

subsection \<open>Objects as text\<close>

lemma json_members_append:
  "kvs \<noteq> [] \<Longrightarrow> kvs' \<noteq> [] \<Longrightarrow> json_members lay d (kvs @ kvs') = json_members lay d kvs @ CHR '','' # json_members lay d kvs'"
  by (induction kvs) auto


text \<open>Nothing that is printed ends in white space or a comma.\<close>

lemma value_end_chars: "\<not> is_ws CHR ''l''" "\<not> is_ws CHR ''e''" "\<not> is_ws CHR 0x22" "digit_value CHR '','' = None"
  by code_simp+

lemma digit_not_ws: "digit_value c \<noteq> None \<Longrightarrow> \<not> is_ws c \<and> c \<noteq> CHR '',''"
  using digit_json_start [of c] value_end_chars(4) by (auto simp: json_start_def)

lemma show_int_last: "\<not> is_ws (last (show_int n)) \<and> last (show_int n) \<noteq> CHR '',''"
proof -
  have n: "show_nat k \<noteq> []" for k by (simp add: show_nat_def digits_rev.simps [of k])
  then have "last (show_nat k) \<in> set (digits_rev k)" for k
    using last_in_set [OF n [of k]] by (simp add: show_nat_def)
  then have "\<not> is_ws (last (show_nat k)) \<and> last (show_nat k) \<noteq> CHR '',''" for k
    using digits_rev_digits digit_not_ws by blast
  with n show ?thesis by (simp add: show_int_def)
qed

lemma json_print_last: "\<not> is_ws (last (json_print lay d v)) \<and> last (json_print lay d v) \<noteq> CHR '',''"
proof (cases v)
  case (JNum n)
  then show ?thesis using show_int_last by simp
qed (auto simp: json_string_def value_end_chars)

lemma json_print_nonempty [simp]: "json_print lay d v \<noteq> []"
  using json_print_length [of lay d v] by auto

lemma json_members_last:
  "kvs \<noteq> [] \<Longrightarrow> json_members lay d kvs \<noteq> [] \<and>
    \<not> is_ws (last (json_members lay d kvs)) \<and> last (json_members lay d kvs) \<noteq> CHR '',''"
proof (induction kvs)
  case (Cons p kvs)
  obtain k v where p: "p = (k, v)" by (cases p)
  show ?case
  proof (cases "kvs = []")
    case True
    then show ?thesis using json_print_last [of lay d v] by (simp add: p)
  next
    case False
    with Cons show ?thesis by (simp add: p)
  qed
qed simp

lemma last_nonspace_append:
  "a \<noteq> [] \<Longrightarrow> \<not> is_ws (last a) \<Longrightarrow> \<forall>c \<in> set w. is_ws c \<Longrightarrow> last_nonspace (a @ w) = Some (length a - 1)"
proof -
  assume a: "a \<noteq> []" "\<not> is_ws (last a)" "\<forall>c \<in> set w. is_ws c"
  then obtain b x where x: "a = b @ [x]" by (metis append_butlast_last_id)
  have "dropWhile is_ws (rev (a @ w)) = dropWhile is_ws (rev a)"
    unfolding rev_append by (rule dropWhile_append2) (use a(3) in auto)
  with a(2) show ?thesis by (simp add: last_nonspace_def x)
qed

text \<open>An object that is printed as a document, and the format information \<open>NewJSONSignature\<close> finds in it.\<close>

definition body_length :: "layout \<Rightarrow> (string \<times> json) list \<Rightarrow> nat" where
  "body_length lay kvs = Suc (length (json_members lay 1 kvs))"

definition closing :: "layout \<Rightarrow> bytes" where
  "closing lay = json_nl lay 0 @ ''}''"

lemma print_object:
  "kvs \<noteq> [] \<Longrightarrow> json_print lay 0 (JObj kvs) = (CHR ''{'' # json_members lay 1 kvs) @ closing lay"
  by (simp add: closing_def)

lemma print_object_append:
  assumes "kvs \<noteq> []" "kvs' \<noteq> []"
  shows "take (body_length lay kvs) (json_print lay 0 (JObj (kvs @ kvs'))) = CHR ''{'' # json_members lay 1 kvs"
    "body_length lay kvs \<le> length (json_print lay 0 (JObj (kvs @ kvs')))"
  using assms by (simp_all add: body_length_def json_members_append)

lemma NewJSONSignature_print:
  assumes "layout_ws lay" "kvs \<noteq> []"
  shows "NewJSONSignature (json_print lay 0 (JObj kvs)) [] = Inr
    \<lparr>js_payload = joseBase64UrlEncode (json_print lay 0 (JObj kvs)), signatures = [],
     indent = detectJSONIndent (json_print lay 0 (JObj kvs)),
     formatLength = int (body_length lay kvs), formatTail = closing lay\<rparr>"
proof -
  let ?b = "CHR ''{'' # json_members lay 1 kvs" and ?c = "json_print lay 0 (JObj kvs)"
  have c: "?c = ?b @ closing lay" by (rule print_object [OF assms(2)])
  have "Unmarshal ?c = Some (JObj kvs)" using Unmarshal_print [OF assms(1), of "[]" 0 "JObj kvs"] by (simp del: json_print.simps)
  then have u: "\<exists>m. unmarshal_map ?c = Some m" by (simp add: unmarshal_map_def)
  have l: "\<not> is_ws (last ?b)" "last ?b \<noteq> CHR '',''" using json_members_last [OF assms(2)] by simp_all
  have "last_nonspace ((?b @ json_nl lay 0 @ ''}'') @ []) = Some (length (?b @ json_nl lay 0 @ ''}'') - 1)"
    by (rule last_nonspace_append) simp_all
  then have close: "last_nonspace ?c = Some (length ?b + length (json_nl lay 0))"
    unfolding c closing_def by simp
  have at: "?c ! (length ?b + length (json_nl lay 0)) = CHR ''}''"
    "take (length ?b + length (json_nl lay 0)) ?c = ?b @ json_nl lay 0"
    unfolding c closing_def by (simp_all add: nth_append)
  have "last_nonspace (?b @ json_nl lay 0) = Some (length ?b - 1)"
    by (rule last_nonspace_append) (use l json_nl_ws [OF assms(1)] in auto)
  moreover have "?c ! (length ?b - 1) = last ?b"
    unfolding c by (simp add: nth_append last_conv_nth)
  moreover have "drop (length ?b) ?c = closing lay" unfolding c by simp
  ultimately show ?thesis
    using u close at l(2) by (auto simp: NewJSONSignature_def body_length_def)
qed


subsection \<open>Signatures inside the payload\<close>

lemma protected_header_reads:
  "\<exists>m. joseBase64UrlDecode (protectedHeader now js) = Some (Marshal (JObj m)) \<and> unmarshal_map (Marshal (JObj m)) = Some m \<and>
     readIntFromMap ''formatLength'' m = Some (formatLength js) \<and>
     readStringFromMap ''formatTail'' m = Some (joseBase64UrlEncode (formatTail js))"
proof -
  let ?m = "[(''formatLength'', JNum (formatLength js)), (''formatTail'', JStr (joseBase64UrlEncode (formatTail js))),
      (''time'', JStr now)]"
  have "canonical ?m" by (simp add: canonical_def obj_sorted_def)
  then show ?thesis
    by (intro exI [of _ ?m])
      (simp add: protectedHeader_def jose_decode_encode unmarshal_map_Marshal readIntFromMap_def readStringFromMap_def)
qed

lemma pretty_blocks_ok:
  assumes "\<forall>p \<in> set ps. \<exists>now. ps_protected p = protectedHeader now js" "parse_signatures ps = Inr sigs"
    and "fl \<in> {0, formatLength js}" "ft \<in> {[], formatTail js}"
  shows "pretty_blocks ps fl ft = Inr (if ps = [] then fl else formatLength js, if ps = [] then ft else formatTail js, sigs)"
  using assms
proof (induction ps arbitrary: sigs fl ft)
  case (Cons p ps)
  from Cons.prems(1) obtain now where "ps_protected p = protectedHeader now js" by auto
  with protected_header_reads [of now js] obtain m where
    m: "joseBase64UrlDecode (ps_protected p) = Some (Marshal (JObj m))" "unmarshal_map (Marshal (JObj m)) = Some m"
      "readIntFromMap ''formatLength'' m = Some (formatLength js)"
      "readStringFromMap ''formatTail'' m = Some (joseBase64UrlEncode (formatTail js))" by auto
  from Cons.prems(2) obtain s ss where s: "parse_signature p = Inr s" "parse_signatures ps = Inr ss" "sigs = s # ss"
    by (auto simp: run_bind_eq_Inr_iff)
  have "pretty_blocks ps (formatLength js) (formatTail js) = Inr (formatLength js, formatTail js, ss)"
    using Cons.IH [of ss "formatLength js" "formatTail js"] Cons.prems(1) s(2) by auto
  then show ?case
    using Cons.prems(3,4) m s by (auto simp: jose_decode_encode)
qed auto

lemma Unmarshal_object:
  "layout_ws lay \<Longrightarrow> Unmarshal (json_print lay 0 (JObj kvs)) = Some (JObj kvs)"
  using Unmarshal_print [of lay "[]" 0 "JObj kvs"] by (simp del: json_print.simps)

text \<open>
  The document with the signatures as its last member reads as the signed document, with its
  signatures.
\<close>

lemma ParsePretty_prefix:
  assumes lay: "layout_ws lay" and kvs: "kvs \<noteq> []"
    and new: "NewJSONSignature (json_print lay 0 (JObj kvs)) [] = Inr js0"
    and sigs: "sigs \<noteq> []" "\<forall>s \<in> set sigs. signature_ok s \<and> (\<exists>now. js_protected s = protectedHeader now js0)"
    and vs: "signatures_json sigs = Inr vs"
    and doc: "Unmarshal doc = Some (JObj (kvs' @ [(key, JArr vs)]))"
    and pre: "take (body_length lay kvs) doc = CHR ''{'' # json_members lay 1 kvs" "body_length lay kvs \<le> length doc"
  shows "ParsePrettySignature doc key = Inr (js0\<lparr>signatures := sigs\<rparr>)"
proof -
  from signatures_json_ok [of sigs] sigs(2) vs obtain ps where ps:
    "decode_elems decode_signature no_signature vs [] = (True, ps)" "parse_signatures ps = Inr sigs"
    "map ps_protected ps = map js_protected sigs" by auto
  have js0: "js0 = \<lparr>js_payload = joseBase64UrlEncode (json_print lay 0 (JObj kvs)), signatures = [],
     indent = detectJSONIndent (json_print lay 0 (JObj kvs)),
     formatLength = int (body_length lay kvs), formatTail = closing lay\<rparr>"
    using NewJSONSignature_print [OF lay kvs] new by simp
  have "\<forall>p \<in> set ps. \<exists>now. ps_protected p = protectedHeader now js0"
  proof
    fix p assume "p \<in> set ps"
    then have "ps_protected p \<in> set (map js_protected sigs)" unfolding ps(3) [symmetric] by simp
    with sigs(2) show "\<exists>now. ps_protected p = protectedHeader now js0" by auto
  qed
  from pretty_blocks_ok [OF this ps(2), of 0 "[]"] ps(3) sigs(1)
  have blocks: "pretty_blocks ps 0 [] = Inr (int (body_length lay kvs), closing lay, sigs)"
    by (auto simp: js0)
  have "take (body_length lay kvs) doc @ closing lay = json_print lay 0 (JObj kvs)"
    using pre(1) print_object [OF kvs, of lay] by (simp del: json_print.simps)
  then show ?thesis
    using blocks ps(1) doc pre(2)
    by (simp add: ParsePrettySignature_def js0 Let_def del: json_print.simps)
qed

lemma ParsePretty_print:
  assumes lay: "layout_ws lay" and kvs: "kvs \<noteq> []"
    and new: "NewJSONSignature (json_print lay 0 (JObj kvs)) [] = Inr js0"
    and sigs: "sigs \<noteq> []" "\<forall>s \<in> set sigs. signature_ok s \<and> (\<exists>now. js_protected s = protectedHeader now js0)"
    and vs: "signatures_json sigs = Inr vs"
  shows "ParsePrettySignature (json_print lay 0 (JObj (kvs @ [(key, JArr vs)]))) key = Inr (js0\<lparr>signatures := sigs\<rparr>)"
  by (rule ParsePretty_prefix [OF assms Unmarshal_object [OF lay]])
    (rule print_object_append(1) [OF kvs] print_object_append(2) [OF kvs]; simp)+

text \<open>Printing at a greater depth is printing with a prefix.\<close>

lemma print_deeper:
  "json_print (Some (pre, ind)) (Suc d) v = json_print (Some (pre @ ind, ind)) d v"
  "json_elems (Some (pre, ind)) (Suc d) vs = json_elems (Some (pre @ ind, ind)) d vs"
  "json_members (Some (pre, ind)) (Suc d) kvs = json_members (Some (pre @ ind, ind)) d kvs"
proof -
  have nl: "json_nl (Some (pre, ind)) (Suc d) = json_nl (Some (pre @ ind, ind)) d" for d
    by (simp add: json_nl_def)
  have col: "json_colon (Some (a, b)) = json_colon (Some (a', b'))" for a b a' b' by (simp add: json_colon_def)
  have "lay = Some (pre @ ind, ind) \<Longrightarrow> json_print (Some (pre, ind)) (Suc d) v = json_print lay d v"
    "lay = Some (pre @ ind, ind) \<Longrightarrow> json_elems (Some (pre, ind)) (Suc d) vs = json_elems lay d vs"
    "lay = Some (pre @ ind, ind) \<Longrightarrow> json_members (Some (pre, ind)) (Suc d) kvs = json_members lay d kvs" for lay
    by (induction lay d v and lay d vs and lay d kvs rule: json_print_json_elems_json_members.induct)
      (simp_all add: nl json_colon_def)
  then show "json_print (Some (pre, ind)) (Suc d) v = json_print (Some (pre @ ind, ind)) d v"
    "json_elems (Some (pre, ind)) (Suc d) vs = json_elems (Some (pre @ ind, ind)) d vs"
    "json_members (Some (pre, ind)) (Suc d) kvs = json_members (Some (pre @ ind, ind)) d kvs" by blast+
qed

lemma compact_depth: "json_print None d v = json_print None 0 v"
proof (induction d)
  case (Suc d)
  have "lay = None \<Longrightarrow> json_print lay (Suc d) v = json_print lay d v"
    "lay = None \<Longrightarrow> json_elems lay (Suc d) vs = json_elems lay d vs"
    "lay = None \<Longrightarrow> json_members lay (Suc d) kvs = json_members lay d kvs" for lay d vs kvs
    by (induction lay d v and lay d vs and lay d kvs rule: json_print_json_elems_json_members.induct)
      (simp_all add: json_nl_def json_colon_def)
  from this(1) [OF refl] Suc show ?case by simp
qed simp

text \<open>The layouts of a signed document: compact, or one member a line.\<close>

definition doc_layout :: "layout \<Rightarrow> bool" where
  "doc_layout lay \<longleftrightarrow> (case lay of None \<Rightarrow> True | Some (pre, ind) \<Rightarrow> pre = [] \<and> ind \<noteq> [] \<and> (\<forall>c \<in> set ind. is_ws c))"

definition layout_indent :: "layout \<Rightarrow> string" where
  "layout_indent lay = (case lay of None \<Rightarrow> [] | Some (pre, ind) \<Rightarrow> ind)"

lemma doc_layout_ws: "doc_layout lay \<Longrightarrow> layout_ws lay"
  by (auto simp: doc_layout_def layout_ws_def split: option.splits)

lemma detect_print:
  assumes "doc_layout lay" "kvs \<noteq> []"
  shows "detectJSONIndent (json_print lay 0 (JObj kvs)) = layout_indent lay"
proof -
  obtain k v r where kvs: "kvs = (k, v) # r" using assms(2) by (cases kvs) auto
  have q: "\<not> is_ws CHR 0x22" "newline \<noteq> CHR 0x22" by code_simp+
  show ?thesis
  proof (cases lay)
    case None
    then show ?thesis using q(2) by (simp add: kvs json_nl_def json_string_def detectJSONIndent_def layout_indent_def)
  next
    case (Some l)
    then obtain ind where l: "lay = Some ([], ind)" and i: "ind \<noteq> []" "\<forall>c \<in> set ind. is_ws c"
      using assms(1) by (cases l) (auto simp: doc_layout_def)
    have nq: "\<forall>c \<in> set ind. c \<noteq> CHR 0x22" using i(2) q(1) by auto
    then have "takeWhile (\<lambda>c. c \<noteq> CHR 0x22) (ind @ CHR 0x22 # x) = ind" for x by simp
    with i(1) show ?thesis
      by (simp add: kvs l json_nl_def json_string_def detectJSONIndent_def layout_indent_def newline_def)
  qed
qed

lemma plain_string:
  assumes "\<forall>c \<in> set key. escape_char c = [c]"
  shows "json_string key = CHR 0x22 # key @ [CHR 0x22]"
proof -
  have "concat (map escape_char key) = key" using assms by (induction key) simp_all
  then show ?thesis by (simp add: json_string_def)
qed

text \<open>What \<open>PrettySignature\<close> writes after the payload and the comma.\<close>

definition pretty_tail :: "string \<Rightarrow> string \<Rightarrow> json \<Rightarrow> bytes" where
  "pretty_tail ind key v =
     (let marshalled = (if ind \<noteq> [] then MarshalIndent ind ind v else Marshal v)
      in (if ind \<noteq> []
          then [newline] @ ind @ [CHR 0x22] @ key @ [CHR 0x22] @ '': '' @ marshalled @ [newline]
          else [CHR 0x22] @ key @ [CHR 0x22] @ '':'' @ marshalled) @ ''}'')"

text \<open>\<open>PrettySignature\<close> prints the document with the signatures as its last member.\<close>

lemma Pretty_print:
  assumes lay: "doc_layout lay" and kvs: "kvs \<noteq> []" and key: "\<forall>c \<in> set key. escape_char c = [c]"
    and new: "NewJSONSignature (json_print lay 0 (JObj kvs)) [] = Inr js0"
    and sigs: "sigs \<noteq> []" "sort_signatures sigs = Inr sigs'" "signatures_json sigs' = Inr vs"
  shows "js_PrettySignature (js0\<lparr>signatures := sigs\<rparr>) key =
    Inr (json_print lay 0 (JObj (kvs @ [(key, JArr vs)])), js0\<lparr>signatures := sigs'\<rparr>)"
proof -
  have js0: "js0 = \<lparr>js_payload = joseBase64UrlEncode (json_print lay 0 (JObj kvs)), signatures = [],
     indent = layout_indent lay, formatLength = int (body_length lay kvs), formatTail = closing lay\<rparr>"
    using NewJSONSignature_print [OF doc_layout_ws [OF lay] kvs] new detect_print [OF lay kvs] by simp
  have tk: "take (body_length lay kvs) (json_print lay 0 (JObj kvs)) = CHR ''{'' # json_members lay 1 kvs"
    unfolding print_object [OF kvs] by (simp add: body_length_def)
  have len: "\<not> int (length (json_print lay 0 (JObj kvs))) < int (body_length lay kvs)"
    unfolding print_object [OF kvs] by (simp add: body_length_def)
  have doc: "json_print lay 0 (JObj (kvs @ [(key, JArr vs)])) =
      CHR ''{'' # json_members lay 1 kvs @ '','' @ json_nl lay 1 @ json_string key @ json_colon lay @
        json_print lay 1 (JArr vs) @ closing lay"
    using kvs by (simp add: json_members_append closing_def del: json_print.simps(5))
  have tail: "pretty_tail (layout_indent lay) key (JArr vs) =
      json_nl lay 1 @ json_string key @ json_colon lay @ json_print lay 1 (JArr vs) @ closing lay"
  proof (cases lay)
    case None
    show ?thesis
      using compact_depth [of 1 "JArr vs"]
      by (simp add: None pretty_tail_def layout_indent_def plain_string [OF key] json_nl_def json_colon_def closing_def Marshal_def del: json_print.simps)
  next
    case (Some l)
    then obtain ind where l: "lay = Some ([], ind)" and i: "ind \<noteq> []"
      using lay by (cases l) (auto simp: doc_layout_def)
    have "json_print lay 1 (JArr vs) = MarshalIndent ind ind (JArr vs)"
      using print_deeper(1) [of "[]" ind 0 "JArr vs"] by (simp add: l MarshalIndent_def del: json_print.simps)
    with i show ?thesis
      by (simp add: l pretty_tail_def layout_indent_def plain_string [OF key] json_nl_def json_colon_def closing_def del: json_print.simps)
  qed
  have "js_PrettySignature (js0\<lparr>signatures := sigs\<rparr>) key =
      Inr (take (body_length lay kvs) (json_print lay 0 (JObj kvs)) @ '','' @ pretty_tail (layout_indent lay) key (JArr vs),
        js0\<lparr>signatures := sigs'\<rparr>)"
    using sigs len
    by (simp add: js_PrettySignature_def Payload_bytes_def jose_decode_encode js0 pretty_tail_def Let_def del: json_print.simps)
  then show ?thesis unfolding tail tk doc by simp
qed

text \<open>
  Property C36.  Signing an object in place.  An object printed compactly or with an indentation,
  signed by valid keys, comes back from \<open>PrettySignature\<close> as the same object with the signatures as its
  last member, in the same layout; reading that document gives back the payload byte for byte, and
  verifying it gives exactly the keys that signed.
\<close>

theorem Pretty_roundtrip:
  assumes "doc_layout lay" "kvs \<noteq> []" "\<forall>c \<in> set key. escape_char c = [c]"
    and "NewJSONSignature (json_print lay 0 (JObj kvs)) [] = Inr js0"
    and "valid_key ops k" "public_ok (PublicKeyOf k)" "js_Sign ops now k js0 = Inr js1"
  shows "\<exists>vs. js_PrettySignature js1 key = Inr (json_print lay 0 (JObj (kvs @ [(key, JArr vs)])), js1) \<and>
    ParsePrettySignature (json_print lay 0 (JObj (kvs @ [(key, JArr vs)]))) key = Inr js1 \<and>
    Payload_bytes js1 = Inr (json_print lay 0 (JObj kvs)) \<and> js_Verify ops js1 = Inr [PublicKeyOf k]"
proof -
  have n: "js_payload js0 = joseBase64UrlEncode (json_print lay 0 (JObj kvs))" "signatures js0 = []"
    using New_payload [OF assms(4)] by simp_all
  from trust_keys.Sign_fields [OF assms(7)] obtain s where s: "js1 = js0\<lparr>signatures := [s]\<rparr>"
    "js_protected s = protectedHeader now js0" and h: "js_jwk (js_header s) = Some (PublicKeyOf k)"
    by (simp add: n) (metis jsHeader.select_convs(1))
  have ok: "signature_ok s" using assms(6) h by (simp add: signature_ok_def)
  then obtain vs where vs: "signatures_json [s] = Inr vs" using signatures_json_ok [of "[s]"] by auto
  have "js_Verify ops js0 = Inr []" by (simp add: js_Verify_def n)
  from trust_keys.Sign_verifies [OF assms(5,7) this] have "js_Verify ops js1 = Inr [PublicKeyOf k]" by simp
  moreover have "Payload_bytes js1 = Inr (json_print lay 0 (JObj kvs))"
    by (simp add: s(1) n Payload_bytes_def jose_decode_encode del: json_print.simps)
  moreover have "js_PrettySignature js1 key = Inr (json_print lay 0 (JObj (kvs @ [(key, JArr vs)])), js1)"
    unfolding s(1) by (rule Pretty_print [OF assms(1-4) _ _ vs]) (simp_all add: sort_signatures_def)
  moreover have "ParsePrettySignature (json_print lay 0 (JObj (kvs @ [(key, JArr vs)]))) key = Inr js1"
    unfolding s(1) by (rule ParsePretty_print [OF doc_layout_ws [OF assms(1)] assms(2,4) _ _ vs]) (use ok s(2) in auto)
  ultimately show ?thesis by blast
qed


subsection \<open>Witnesses\<close>

text \<open>A signature scheme that satisfies the interface: the private number is the first coordinate, and a
  signature is that number with the hash.\<close>

definition example_ops :: crypto_ops where
  "example_ops = \<lparr>
     ecdsa_verify = (\<lambda>c (x, y) h r s. r = x \<and> s = bytes_nat (take 32 h)),
     ecdsa_sign = (\<lambda>c d h. Some (d, bytes_nat (take 32 h))),
     cert_key = (\<lambda>_. None)\<rparr>"

definition example_key :: PrivateKey where
  "example_key = EcPrivate \<lparr>ecPublic = \<lparr>EcCurve = P256, EcX = 7, EcY = 9, ec_extended = []\<rparr>, EcD = 7\<rparr>"

lemma example_key_ok: "valid_key example_ops example_key" "public_ok (PublicKeyOf example_key)"
proof -
  have b: "(7 :: nat) < 256 ^ 32" "(9 :: nat) < 256 ^ 32" "octets 256 = 32" by (simp_all add: octets_def)
  show "valid_key example_ops example_key" by (simp add: example_ops_def example_key_def)
  show "public_ok (PublicKeyOf example_key)"
    using b(1,2) by (simp add: example_key_def b(3) plain_fields_def)
qed

lemma example_signs: "\<exists>js'. js_Sign example_ops now example_key js = Inr js'"
proof -
  have b: "(7 :: nat) < 256 ^ 32" "octets 256 = 32" by (simp_all add: octets_def)
  have "\<not> 32 < length (nat_bytes (bytes_nat (take 32 h)))" for h
  proof -
    have "bytes_nat (take 32 h) < 256 ^ length (take 32 h)" by (rule bytes_nat_bound)
    from length_nat_bytes [OF this] show ?thesis by simp
  qed
  moreover have "\<not> 32 < length (nat_bytes 7)" using length_nat_bytes [OF b(1)] by (simp only: not_less)
  ultimately show ?thesis
    by (simp add: js_Sign_def example_key_def example_ops_def b(2) Let_def)
qed

definition example_object :: "(string \<times> json) list" where
  "example_object = [(''a'', JNum 1)]"

theorem JWS_roundtrip_witness:
  "\<exists>js1 b js2. ParseJWS b = Inr js2 \<and> js_JWS js1 = Inr (b, js2) \<and> js_Verify example_ops js2 = Inr [PublicKeyOf example_key]"
proof -
  let ?c = "json_print None 0 (JObj example_object)"
  obtain js0 where n: "NewJSONSignature ?c [] = Inr js0"
    using NewJSONSignature_print [of None example_object] by (auto simp: layout_ws_def example_object_def)
  obtain js1 where s: "js_Sign example_ops [] example_key (js0\<lparr>signatures := []\<rparr>) = Inr js1"
    using example_signs by blast
  have v: "js_Verify example_ops (js0\<lparr>signatures := []\<rparr>) = Inr []" by (simp add: js_Verify_def)
  from JWS_roundtrip [OF n v _ example_key_ok s] show ?thesis by auto
qed

theorem Pretty_roundtrip_witness:
  "\<exists>js1 doc. ParsePrettySignature doc ''signatures'' = Inr js1 \<and> js_Verify example_ops js1 = Inr [PublicKeyOf example_key]"
proof -
  let ?l = "Some ([], ''    '')"
  have l: "doc_layout ?l" by (simp add: doc_layout_def is_ws_def)
  have o: "example_object \<noteq> []" by (simp add: example_object_def)
  have e: "\<forall>c \<in> set ''signatures''. escape_char c = [c]" by code_simp
  obtain js0 where n: "NewJSONSignature (json_print ?l 0 (JObj example_object)) [] = Inr js0"
    using NewJSONSignature_print [OF doc_layout_ws [OF l] o] by blast
  obtain js1 where s: "js_Sign example_ops [] example_key js0 = Inr js1" using example_signs by blast
  from Pretty_roundtrip [OF l o e n example_key_ok s] show ?thesis by blast
qed

end
