(* ===== verification/AppDataSpec.thy ===== *)
theory AppDataSpec
  imports AppData JsonSignSpec
begin

text \<open>
  What the data promises: payloads and identities survive their JSON form, a new identity has the keys and
  the thumbprint it should have, and a signed instance verifies wherever it is sent.
\<close>

subsection \<open>Round trips\<close>

lemma equal_fold_length: "equal_fold s t \<Longrightarrow> length s = length t"
  by (auto simp: equal_fold_def dest: map_eq_imp_length_eq)

lemma length_not_equal_fold: "length s \<noteq> length t \<Longrightarrow> \<not> equal_fold s t"
  by (auto dest: equal_fold_length)

lemma payload_names:
  "\<not> equal_fold ''id'' ''owner''" "\<not> equal_fold ''id'' ''permissions''" "\<not> equal_fold ''id'' ''schema''"
  "\<not> equal_fold ''id'' ''data''" "\<not> equal_fold ''id'' ''signatures''" "\<not> equal_fold ''owner'' ''id''"
  "\<not> equal_fold ''owner'' ''permissions''" "\<not> equal_fold ''owner'' ''schema''"
  "\<not> equal_fold ''owner'' ''data''" "\<not> equal_fold ''owner'' ''signatures''"
  "\<not> equal_fold ''permissions'' ''id''" "\<not> equal_fold ''permissions'' ''owner''"
  "\<not> equal_fold ''permissions'' ''schema''" "\<not> equal_fold ''permissions'' ''data''"
  "\<not> equal_fold ''permissions'' ''signatures''" "\<not> equal_fold ''schema'' ''id''"
  "\<not> equal_fold ''schema'' ''owner''" "\<not> equal_fold ''schema'' ''permissions''"
  "\<not> equal_fold ''schema'' ''data''" "\<not> equal_fold ''schema'' ''signatures''"
  "\<not> equal_fold ''data'' ''id''" "\<not> equal_fold ''data'' ''owner''" "\<not> equal_fold ''data'' ''permissions''"
  "\<not> equal_fold ''data'' ''schema''" "\<not> equal_fold ''data'' ''signatures''"
  "\<not> equal_fold ''signatures'' ''id''" "\<not> equal_fold ''signatures'' ''owner''"
  "\<not> equal_fold ''signatures'' ''permissions''" "\<not> equal_fold ''signatures'' ''schema''"
  "\<not> equal_fold ''signatures'' ''data''"
  by (simp_all add: length_not_equal_fold)

lemma permission_names:
  "\<not> equal_fold ''archive'' ''modify''" "\<not> equal_fold ''archive'' ''remove''"
  "\<not> equal_fold ''modify'' ''archive''" "\<not> equal_fold ''modify'' ''remove''"
  "\<not> equal_fold ''remove'' ''archive''" "\<not> equal_fold ''remove'' ''modify''"
  by code_simp+

lemma permissions_names: "\<not> equal_fold ''identities'' ''public''" "\<not> equal_fold ''public'' ''identities''"
  by (simp_all add: length_not_equal_fold)

lemma hostname_lastName: "\<not> equal_fold ''hostname'' ''lastName''" "\<not> equal_fold ''lastName'' ''hostname''"
  by code_simp+

lemma identity_names:
  "\<not> equal_fold ''id'' ''hostname''" "\<not> equal_fold ''id'' ''jwk''" "\<not> equal_fold ''id'' ''firstName''"
  "\<not> equal_fold ''id'' ''lastName''" "\<not> equal_fold ''hostname'' ''id''" "\<not> equal_fold ''hostname'' ''jwk''"
  "\<not> equal_fold ''hostname'' ''firstName''" "\<not> equal_fold ''hostname'' ''lastName''"
  "\<not> equal_fold ''jwk'' ''id''" "\<not> equal_fold ''jwk'' ''hostname''" "\<not> equal_fold ''jwk'' ''firstName''"
  "\<not> equal_fold ''jwk'' ''lastName''" "\<not> equal_fold ''firstName'' ''id''"
  "\<not> equal_fold ''firstName'' ''hostname''" "\<not> equal_fold ''firstName'' ''jwk''"
  "\<not> equal_fold ''firstName'' ''lastName''" "\<not> equal_fold ''lastName'' ''id''"
  "\<not> equal_fold ''lastName'' ''hostname''" "\<not> equal_fold ''lastName'' ''jwk''"
  "\<not> equal_fold ''lastName'' ''firstName''"
  by (simp_all add: hostname_lastName length_not_equal_fold)

definition app_signature_ok :: "app_signature \<Rightarrow> bool" where
  "app_signature_ok s \<longleftrightarrow> ph_chain (ps_header s) \<noteq> Some []"

lemma decode_app_signature:
  "app_signature_ok s \<Longrightarrow> decode_signature (app_signature_json s) no_signature = (True, s)"
  by (cases s; cases "ps_header s")
    (auto simp: app_signature_ok_def decode_signature_def app_signature_json_def app_header_json_def no_signature_def
      no_header_def name_folds decode_strings split: option.splits)

lemma decode_app_signatures:
  "\<forall>s \<in> set sigs. app_signature_ok s \<Longrightarrow> decode_elems decode_signature no_signature (map app_signature_json sigs) [] = (True, sigs)"
  by (induction sigs) (simp_all add: decode_app_signature)

lemma decode_permission_json: "decode_permission (permission_json p) zero_permission = (True, p)"
  by (cases p) (simp add: decode_permission_def permission_json_def zero_permission_def permission_names)

lemma decode_permission_members:
  "decode_permission_map (map (\<lambda>(k, v). (k, permission_json v)) kvs) m = (True, fold (\<lambda>(k, v) m. obj_put k v m) kvs m)"
  by (induction kvs arbitrary: m) (auto simp: decode_permission_json)

text \<open>Payloads as they come out of the code: maps in order, data as a decoded value, signatures as decoded.\<close>

definition payload_ok :: "Payload \<Rightarrow> bool" where
  "payload_ok p \<longleftrightarrow> (\<forall>m. perm_identities p = Some m \<longrightarrow> obj_sorted m) \<and> canon (payload_data p) = payload_data p \<and>
     (\<forall>sigs. payload_signatures p = Some sigs \<longrightarrow> sigs \<noteq> [] \<and> (\<forall>s \<in> set sigs. app_signature_ok s))"

lemma decode_permissions_json:
  assumes "\<forall>m. perm_identities p = Some m \<longrightarrow> obj_sorted m" "perm_identities q = None"
  shows "decode_permissions [permissions_json p] q = (True, q\<lparr>perm_identities := perm_identities p, perm_public := perm_public p\<rparr>)"
  using assms by (auto simp: permissions_json_def permissions_names decode_permission_members obj_of_def [symmetric] obj_of_sorted split: option.split)

lemma decode_payload_json:
  assumes "payload_ok p"
  shows "decode_payload (payload_json p) zero_payload = (True, p)"
proof -
  have "decode_permissions [permissions_json p] zero_payload =
      (True, zero_payload\<lparr>perm_identities := perm_identities p, perm_public := perm_public p\<rparr>)"
    using assms by (intro decode_permissions_json) (simp_all add: payload_ok_def zero_payload_def)
  moreover have "decode_slice decode_signature no_signature
      (case payload_signatures p of None \<Rightarrow> [] | Some sigs \<Rightarrow> if sigs = [] then [] else [JArr (map app_signature_json sigs)])
      None = (True, payload_signatures p)"
    using assms by (auto simp: payload_ok_def decode_app_signatures split: option.split)
  ultimately show ?thesis using assms
    by (cases p) (simp add: decode_payload_def payload_json_def payload_members_def payload_names payload_ok_def zero_payload_def
        del: decode_permissions.simps split: option.splits)
qed

lemma payload_wire: "payload_ok p \<Longrightarrow> SetPayloadFromJson (Marshal (payload_json p)) zero_payload = (True, p)"
  by (simp add: SetPayloadFromJson_def Unmarshal_Marshal decode_payload_json)

text \<open>Every payload that is decoded is well typed.\<close>

definition payload_typed :: "Payload \<Rightarrow> bool" where
  "payload_typed p \<longleftrightarrow> (\<forall>m. perm_identities p = Some m \<longrightarrow> obj_sorted m) \<and> canon (payload_data p) = payload_data p"

lemma decode_permission_map_sorted: "obj_sorted m \<Longrightarrow> obj_sorted (snd (decode_permission_map kvs m))"
  by (induction kvs arbitrary: m) (auto simp: Let_def obj_put_sorted split: prod.splits, metis obj_put_sorted snd_conv)

lemma decode_identities_sorted:
  "(\<forall>m. old = Some m \<longrightarrow> obj_sorted m) \<Longrightarrow> snd (decode_identities vs old) = Some m \<Longrightarrow> obj_sorted m"
proof (induction vs arbitrary: old)
  case (Cons v vs)
  show ?case
  proof (cases v)
    case (JObj kvs)
    let ?m = "snd (decode_permission_map kvs (case old of None \<Rightarrow> [] | Some m \<Rightarrow> m))"
    have "obj_sorted ?m" using Cons.prems(1) by (intro decode_permission_map_sorted) (auto simp: obj_sorted_def split: option.split)
    with Cons.IH [of "Some ?m"] Cons.prems(2) show ?thesis by (auto simp: JObj Let_def split: prod.splits)
  qed (use Cons in \<open>auto split: prod.splits\<close>)
qed simp

lemma decode_permissions_typed:
  "payload_typed p \<Longrightarrow> payload_typed (snd (decode_permissions vs p))"
proof (induction vs arbitrary: p)
  case (Cons v vs)
  show ?case
  proof (cases "struct_members v")
    case None
    with Cons show ?thesis by simp
  next
    case (Some kvs)
    let ?ids = "snd (decode_identities (members_named ''identities'' kvs) (perm_identities p))"
      and ?pub = "snd (decode_bool (members_named ''public'' kvs) (perm_public p))"
    have "\<forall>m. ?ids = Some m \<longrightarrow> obj_sorted m" using Cons.prems decode_identities_sorted by (auto simp: payload_typed_def)
    then have "payload_typed (p\<lparr>perm_identities := ?ids, perm_public := ?pub\<rparr>)" using Cons.prems by (simp add: payload_typed_def)
    from Cons.IH [OF this] show ?thesis by (simp add: Some Let_def case_prod_beta)
  qed
qed simp

lemma decode_any_canon: "canon old = old \<Longrightarrow> canon (decode_any vs old) = decode_any vs old"
  by (induction vs arbitrary: old) simp_all

lemma payload_typed_fields:
  "payload_typed (p\<lparr>payload_id := i, payload_owner := w, schema := s, payload_data := d, payload_signatures := g\<rparr>) =
    ((\<forall>m. perm_identities p = Some m \<longrightarrow> obj_sorted m) \<and> canon d = d)"
  by (simp add: payload_typed_def)

lemma decode_payload_typed: "payload_typed p \<Longrightarrow> payload_typed (snd (decode_payload v p))"
  using decode_permissions_typed [of p] decode_any_canon [of "payload_data p"]
  by (auto simp: decode_payload_def Let_def case_prod_beta payload_typed_def split: option.split)

lemma SetPayload_typed: "payload_typed (snd (SetPayloadFromJson b zero_payload))"
proof -
  have "payload_typed zero_payload" by (simp add: payload_typed_def zero_payload_def)
  then show ?thesis using decode_payload_typed by (simp add: SetPayloadFromJson_def split: option.split)
qed

text \<open>
  What comes back of a payload that was printed: a list of signatures or of certificates without elements is
  not printed (\<open>omitempty\<close>) and comes back as no list; everything else is kept.
\<close>

definition kept_list :: "'a list option \<Rightarrow> 'a list option" where
  "kept_list xs = (if xs = Some [] then None else xs)"

definition kept_signature :: "app_signature \<Rightarrow> app_signature" where
  "kept_signature s = s\<lparr>ps_header := (ps_header s)\<lparr>ph_chain := kept_list (ph_chain (ps_header s))\<rparr>\<rparr>"

definition kept_payload :: "Payload \<Rightarrow> Payload" where
  "kept_payload p = p\<lparr>payload_signatures := kept_list (map_option (map kept_signature) (payload_signatures p))\<rparr>"

lemma kept_signature_json [simp]: "app_signature_json (kept_signature s) = app_signature_json s"
  by (auto simp: app_signature_json_def app_header_json_def kept_signature_def kept_list_def split: option.split)

lemma kept_payload_json [simp]: "payload_json (kept_payload p) = payload_json p"
  by (auto simp: payload_json_def payload_members_def permissions_json_def kept_payload_def kept_list_def comp_def split: option.split)

lemma kept_payload_ok: "payload_typed p \<Longrightarrow> payload_ok (kept_payload p)"
  by (auto simp: payload_ok_def payload_typed_def kept_payload_def kept_list_def app_signature_ok_def kept_signature_def
      split: if_splits)

text \<open>
  Property C10.  Payloads on the wire.  Every payload of the program's type (its permissions a map with each
  identity once, its data a JSON value whose objects have each name once, both kept in key order here)
  prints, indented or not, to bytes that decode to that payload without an error, but for empty lists of
  signatures and of certificates, which come back absent; and whatever bytes are received, what is decoded is
  such a payload, also when decoding reports an error.
\<close>

theorem decoded_payload_typed:
  assumes "payload_typed q"
  shows "SetPayloadFromJson (Marshal (payload_json q)) zero_payload = (True, kept_payload q) \<and>
    SetPayloadFromJson (Payload_ToJSON q) zero_payload = (True, kept_payload q) \<and>
    payload_typed (snd (SetPayloadFromJson b zero_payload))"
proof -
  have d: "decode_payload (payload_json q) zero_payload = (True, kept_payload q)"
    using decode_payload_json [OF kept_payload_ok [OF assms]] by simp
  have "Unmarshal (Payload_ToJSON q) = Some (payload_json q)"
    unfolding Payload_ToJSON_def by (rule Unmarshal_MarshalIndent) (auto simp: is_ws_def)
  with d show ?thesis using SetPayload_typed [of b] by (simp add: SetPayloadFromJson_def [of "Marshal _"] SetPayloadFromJson_def [of "Payload_ToJSON _"] Unmarshal_Marshal)
qed

definition identity_ok :: "Identity \<Rightarrow> bool" where
  "identity_ok s \<longleftrightarrow> (\<forall>m. PublicJwk s = Some m \<longrightarrow> canonical m)"

text \<open>What a peer reads of an identity: everything but the private key and the password hash.\<close>

lemma identity_wire:
  assumes "identity_ok s"
  shows "decode_identity (identity_json s) zero_identity = (True, s\<lparr>PrivateJwk := None, Passhash := []\<rparr>)"
  using assms fold_put_sorted [of "[]"]
  by (cases s) (auto simp: decode_identity_def identity_json_def identity_names zero_identity_def identity_ok_def canonical_def
      fold_canon jwk_json_def split: option.split)


subsection \<open>Keys of a new identity\<close>

lemma indented_key:
  "r = Inr (Marshal v) \<Longrightarrow> (\<forall>c \<in> set ind. is_ws c) \<Longrightarrow> key_indented r ind = Inr (MarshalIndent [] ind v)"
  by (simp add: key_indented_def Unmarshal_Marshal)

lemma unmarshal_into_object:
  "canonical m \<Longrightarrow> (\<forall>c \<in> set ind. is_ws c) \<Longrightarrow> unmarshal_into (MarshalIndent [] ind (JObj m)) None = (True, Some m)"
  using fold_put_sorted [of "[]" m] Unmarshal_MarshalIndent [of "[]" ind]
  by (simp add: unmarshal_into_def canonical_def fold_canon)

lemma unmarshal_map_indent:
  "(\<forall>c \<in> set ind. is_ws c) \<Longrightarrow> unmarshal_map (MarshalIndent [] ind v) = unmarshal_map (Marshal v)"
  using Unmarshal_MarshalIndent [of "[]" ind] by (simp add: unmarshal_map_def Unmarshal_Marshal)

definition thumbprint_of :: "rsaPublicKey \<Rightarrow> string" where
  "thumbprint_of k = hex_encode (sha256 (Marshal (JObj
     [(''e'', JStr (joseBase64UrlEncode (nat_bytes (RsaE k)))), (''kty'', JStr ''RSA''),
      (''n'', JStr (joseBase64UrlEncode (nat_bytes (RsaN k))))])))"

lemma rsa_private_map:
  assumes "private_toMap (RsaPrivate k) = Inr m" "private_ok (RsaPrivate k)"
  shows "map_of m ''e'' = Some (JStr (joseBase64UrlEncode (nat_bytes (RsaE (rsaPublic k)))))"
    "map_of m ''kty'' = Some (JStr ''RSA'')" "map_of m ''n'' = Some (JStr (joseBase64UrlEncode (nat_bytes (RsaN (rsaPublic k)))))"
  using assms by (auto simp: run_bind_eq_Inr_iff serialize_exponent Let_def simp del: obj_put.simps split: list.splits if_splits)

lemma makeThumbprint_rsa:
  assumes "private_ok (RsaPrivate k)"
  shows "makeThumbprint (RsaPrivate k) = Inr (thumbprint_of (rsaPublic k))"
proof -
  obtain m where m: "private_toMap (RsaPrivate k) = Inr m" using private_toMap_defined [OF assms] ..
  have c: "canonical m" by (rule Unmarshal_private(1) [OF assms m])
  have "key_indented (private_MarshalJSON (RsaPrivate k)) [] = Inr (MarshalIndent [] [] (JObj m))"
    using m by (intro indented_key) (simp_all add: private_MarshalJSON_def)
  moreover have "canon (JObj m) = JObj m"
    using c obj_of_sorted [of m] by (auto simp: canonical_def obj_of_def map_idI case_prod_beta)
  ultimately show ?thesis
    using rsa_private_map [OF m assms] Unmarshal_MarshalIndent [of "[]" "[]"]
    by (simp add: makeThumbprint_def thumbprint_of_def)
qed

lemma Init_keys:
  assumes "private_ok (RsaPrivate k)" "PrivateJwk s = None" "PublicJwk s = None"
  shows "\<exists>s'. Identity_Init (Some (RsaPrivate k)) s = (Inr (), s') \<and>
    GetPrivateKey s' = Inr (RsaPrivate k) \<and> GetPublicKey s' = Inr (RsaPublic (rsaPublic k)) \<and>
    identity_id s' = thumbprint_of (rsaPublic k) \<and> identity_ok s' \<and>
    hostname s' = hostname s \<and> Passhash s' = Passhash s \<and> FirstName s' = FirstName s \<and> LastName s' = LastName s"
proof -
  let ?ind = "''    ''"
  have w: "\<forall>c \<in> set ?ind. is_ws c" by (simp add: is_ws_def)
  obtain m where m: "private_toMap (RsaPrivate k) = Inr m" using private_toMap_defined [OF assms(1)] ..
  have po: "public_ok (RsaPublic (rsaPublic k))" using assms(1) by simp
  obtain pm where pm: "public_toMap (RsaPublic (rsaPublic k)) = Inr pm" "canonical pm" using public_toMap_ok [OF po] by blast
  have c: "canonical m" by (rule Unmarshal_private(1) [OF assms(1) m])
  let ?s = "s\<lparr>PrivateJwk := Some m, PublicJwk := Some pm, identity_id := thumbprint_of (rsaPublic k)\<rparr>"
  have "key_indented (private_MarshalJSON (RsaPrivate k)) ?ind = Inr (MarshalIndent [] ?ind (JObj m))"
    "key_indented (public_MarshalJSON (PublicKeyOf (RsaPrivate k))) ?ind = Inr (MarshalIndent [] ?ind (JObj pm))"
    using m pm w by (auto intro!: indented_key simp: private_MarshalJSON_def public_MarshalJSON_def)
  then have "Identity_Init (Some (RsaPrivate k)) s = (Inr (), ?s)"
    using assms unmarshal_into_object [OF c w] unmarshal_into_object [OF pm(2) w] makeThumbprint_rsa [OF assms(1)]
    by (simp add: Identity_Init_def Let_def)
  moreover have "GetPrivateKey ?s = Inr (RsaPrivate k)"
    using Unmarshal_private(2) [OF assms(1) m] unmarshal_map_indent [of "[]" "JObj m"]
    by (simp add: GetPrivateKey_def GetPrivateKeyJson_def jwk_json_def UnmarshalPrivateKeyJWK_def)
  moreover have "GetPublicKey ?s = Inr (RsaPublic (rsaPublic k))"
    using UnmarshalPublic_toMap [OF po pm(1)] unmarshal_map_indent [of "[]" "JObj pm"]
    by (simp add: GetPublicKey_def GetPublicKeyJson_def jwk_json_def UnmarshalPublicKeyJWK_def)
  ultimately show ?thesis using pm(2) by (intro exI [of _ ?s]) (simp add: identity_ok_def)
qed

text \<open>
  A new identity.  With the RSA key that was generated (two primes, parameters that fit
  their encodings) \<open>Init\<close> succeeds; the private and the public key read back from the stored JSON web keys
  are that key and its public half, the identifier is the SHA-256 thumbprint of the canonical public
  key, and host name, names and password hash are left alone.
\<close>

theorem new_identity:
  assumes "private_ok (RsaPrivate k)" "PrivateJwk s = None" "PublicJwk s = None"
  shows "\<exists>s'. Identity_Init (Some (RsaPrivate k)) s = (Inr (), s') \<and>
    GetPrivateKey s' = Inr (RsaPrivate k) \<and> GetPublicKey s' = Inr (RsaPublic (rsaPublic k)) \<and>
    identity_id s' = thumbprint_of (rsaPublic k) \<and> identity_ok s' \<and>
    hostname s' = hostname s \<and> Passhash s' = Passhash s \<and> FirstName s' = FirstName s \<and> LastName s' = LastName s"
  by (rule Init_keys [OF assms])

subsection \<open>Signed instances\<close>

lemma jose_encode_nonempty: "b \<noteq> [] \<Longrightarrow> joseBase64UrlEncode b \<noteq> []"
proof
  assume b: "b \<noteq> []" "joseBase64UrlEncode b = []"
  have "joseBase64UrlEncode [] = []" by code_simp
  then have "joseBase64UrlDecode (joseBase64UrlEncode b) = joseBase64UrlDecode (joseBase64UrlEncode [])" by (simp only: b(2))
  with b(1) show False by (simp add: jose_decode_encode)
qed

lemma protectedHeader_nonempty: "protectedHeader now js \<noteq> []"
  unfolding protectedHeader_def by (rule jose_encode_nonempty) (simp add: Marshal_def del: json_print.simps)

text \<open>A signature of libtrust, decoded by the program and printed again, is what libtrust printed.\<close>

lemma signature_reprints:
  assumes "signature_json s = Inr v" "js_protected s \<noteq> []"
  shows "\<exists>p. decode_signature v no_signature = (True, p) \<and> app_signature_json p = v \<and> app_signature_ok p"
proof -
  let ?h = "js_header s"
  from assms(1) obtain hv where h: "header_json ?h = Inr hv"
    and v: "v = JObj [(''header'', hv), (''signature'', JStr (js_signature s)), (''protected'', JStr (js_protected s))]"
    using assms(2) by (auto simp: signature_json_def run_bind_eq_Inr_iff)
  from h obtain raw where hv: "hv = JObj ((case raw of None \<Rightarrow> [] | Some r \<Rightarrow> [(''jwk'', r)]) @ [(''alg'', JStr (js_alg ?h))] @
         (if js_chain ?h = [] then [] else [(''x5c'', JArr (map JStr (js_chain ?h)))]))"
  proof (cases "js_jwk ?h")
    case None
    with h show thesis by (intro that [of None]) (simp add: header_json_def)
  next
    case (Some k)
    with h obtain m where "public_toMap k = Inr m" by (auto simp: header_json_def run_bind_eq_Inr_iff)
    with h Some show thesis by (intro that [of "Some (JObj m)"]) (simp add: header_json_def)
  qed
  let ?p = "\<lparr>ps_header = \<lparr>ph_jwk = raw, ph_alg = js_alg ?h, ph_chain = if js_chain ?h = [] then None else Some (js_chain ?h)\<rparr>,
    ps_signature = js_signature s, ps_protected = js_protected s\<rparr>"
  have "app_signature_json ?p = v" by (simp add: app_signature_json_def app_header_json_def v hv)
  moreover have "app_signature_ok ?p" by (simp add: app_signature_ok_def)
  ultimately show ?thesis using decode_app_signature [of ?p] by auto
qed

lemma layout4: "doc_layout (Some ([], ''    ''))"
  by (simp add: doc_layout_def is_ws_def)

lemma ToJSON_print: "Payload_ToJSON p = json_print (Some ([], ''    '')) 0 (payload_json p)"
  by (simp add: Payload_ToJSON_def MarshalIndent_def)

lemma payload_members_nonempty [simp]: "payload_members p \<noteq> []"
  by (simp add: payload_members_def)

lemma decode_jws_one:
  assumes "decode_signature v no_signature = (True, p)"
  shows "decode_jws (MarshalIndent [] ''   '' (JObj [(''payload'', JStr x), (''signatures'', JArr [v])])) = Inr (Some [p])"
  using assms Unmarshal_MarshalIndent [of "[]" "''   ''"]
  by (simp add: decode_jws_def name_folds is_ws_def)

text \<open>What \<open>Sign\<close> leaves in an instance without signatures.\<close>

lemma Sign_result:
  assumes "payload_signatures (instance_payload i) = None" "instance_owner i = Some ow" "GetPrivateKey ow = Inr k"
    and "Instance_Sign ops now i = Inr i'"
  shows "\<exists>js0 js1 s p v. NewJSONSignature (Payload_ToJSON (instance_payload i)) [] = Inr js0 \<and>
    js_Sign ops now k js0 = Inr js1 \<and> js1 = js0\<lparr>signatures := [s]\<rparr> \<and> signatures_json [s] = Inr [v] \<and>
    js_protected s = protectedHeader now js0 \<and> js_jwk (js_header s) = Some (PublicKeyOf k) \<and>
    i' = i\<lparr>instance_payload := (instance_payload i)\<lparr>payload_signatures := Some [p]\<rparr>\<rparr> \<and>
    app_signature_json p = v \<and> app_signature_ok p"
proof -
  from assms obtain js0 js1 b js2 sigs where n: "NewJSONSignature (Payload_ToJSON (instance_payload i)) [] = Inr js0"
    and s: "js_Sign ops now k js0 = Inr js1" and j: "js_JWS js1 = Inr (b, js2)" and d: "decode_jws b = Inr sigs"
    and i': "i' = i\<lparr>instance_payload := (instance_payload i)\<lparr>payload_signatures := sigs\<rparr>\<rparr>"
    by (auto simp: Instance_Sign_def run_bind_eq_Inr_iff)
  have "signatures js0 = []" using New_payload [OF n] by simp
  with trust_keys.Sign_fields [OF s] obtain t where t: "js1 = js0\<lparr>signatures := [t]\<rparr>" "js_protected t = protectedHeader now js0"
    "js_jwk (js_header t) = Some (PublicKeyOf k)" by (auto, metis jsHeader.select_convs(1))
  from j obtain v where v: "signature_json t = Inr v"
    and b: "b = MarshalIndent [] ''   '' (JObj [(''payload'', JStr (js_payload js0)), (''signatures'', JArr [v])])"
    by (auto simp: t(1) js_JWS_def sort_signatures_def run_bind_eq_Inr_iff)
  from signature_reprints [OF v] t(2) obtain p where p: "decode_signature v no_signature = (True, p)" "app_signature_json p = v"
    "app_signature_ok p" using protectedHeader_nonempty by auto
  from decode_jws_one [OF p(1)] d b have "sigs = Some [p]" by simp
  with n s t v p i' show ?thesis
    by (intro exI [of _ js0] exI [of _ js1] exI [of _ t] exI [of _ p] exI [of _ v]) simp
qed

lemma signed_verifies:
  assumes unsigned: "payload_signatures (instance_payload i) = None" and owner: "instance_owner i = Some ow" "GetPrivateKey ow = Inr k"
    and key: "valid_key ops k" "public_ok (PublicKeyOf k)" and signed: "Instance_Sign ops now i = Inr i'"
    and j: "instance_payload j = instance_payload i'"
  shows "\<exists>js. GetProperJWS j = Inr js \<and> js_Verify ops js = Inr [PublicKeyOf k] \<and>
    Payload_bytes js = Inr (Payload_ToJSON (instance_payload i))"
proof -
  let ?l = "Some ([], ''    '')" and ?p = "instance_payload i"
  from Sign_result [OF unsigned owner signed] obtain js0 js1 s p v where
    n: "NewJSONSignature (Payload_ToJSON ?p) [] = Inr js0" and sg: "js_Sign ops now k js0 = Inr js1"
    and js1: "js1 = js0\<lparr>signatures := [s]\<rparr>" and v: "signatures_json [s] = Inr [v]"
    and s: "js_protected s = protectedHeader now js0" "js_jwk (js_header s) = Some (PublicKeyOf k)"
    and i': "i' = i\<lparr>instance_payload := ?p\<lparr>payload_signatures := Some [p]\<rparr>\<rparr>" and pv: "app_signature_json p = v" by blast
  have plain: "payload_json ?p = JObj (payload_members ?p)" by (simp add: payload_json_def unsigned)
  have full: "payload_json (instance_payload i') = JObj (payload_members ?p @ [(''signatures'', JArr [v])])"
    by (simp add: i' payload_json_def payload_members_def permissions_json_def pv)
  have ok: "\<forall>s' \<in> set [s]. signature_ok s' \<and> (\<exists>now. js_protected s' = protectedHeader now js0)"
    using s key(2) by (auto simp: signature_ok_def)
  have "GetProperJWS j = Inr js1"
    using ParsePretty_print [OF doc_layout_ws [OF layout4] payload_members_nonempty _ _ ok v, of ?p "''signatures''"] n
    by (simp add: GetProperJWS_def j ToJSON_print full plain js1 del: json_print.simps)
  moreover have "js_Verify ops js0 = Inr []" using New_payload [OF n] by (simp add: js_Verify_def)
  from trust_keys.Sign_verifies [OF key(1) sg this] have "js_Verify ops js1 = Inr [PublicKeyOf k]" by simp
  moreover have "Payload_bytes js1 = Inr (Payload_ToJSON ?p)"
    using New_payload [OF n] by (simp add: js1 Payload_bytes_def jose_decode_encode)
  ultimately show ?thesis by blast
qed

text \<open>
  Property C3.  A signed instance verifies at the peer it is sent to.  Signing a payload without
  signatures by an owner with a usable key keeps everything but the signatures; the bytes that are sent
  decode at the receiver to the very same payload; and whatever instance holds it verifies, with
  exactly the owner's public key over exactly the bytes that were signed.
\<close>

theorem signed_instance_travels:
  assumes "payload_ok (instance_payload i)" "payload_signatures (instance_payload i) = None"
    and "instance_owner i = Some ow" "GetPrivateKey ow = Inr k" "valid_key ops k" "public_ok (PublicKeyOf k)"
    and "Instance_Sign ops now i = Inr i'" "instance_payload j = instance_payload i'"
  shows "(instance_payload i')\<lparr>payload_signatures := None\<rparr> = instance_payload i \<and>
    SetPayloadFromJson (Marshal (payload_json (instance_payload i'))) zero_payload = (True, instance_payload i') \<and>
    Instance_Verify ops j = Inr True \<and>
    (\<exists>js. GetProperJWS j = Inr js \<and> js_Verify ops js = Inr [PublicKeyOf k] \<and>
      Payload_bytes js = Inr (Payload_ToJSON (instance_payload i)))"
proof -
  from signed_verifies [OF assms(2-8)] obtain js where js: "GetProperJWS j = Inr js" "js_Verify ops js = Inr [PublicKeyOf k]"
    "Payload_bytes js = Inr (Payload_ToJSON (instance_payload i))" by blast
  from Sign_result [OF assms(2-4,7)] obtain p where p: "i' = i\<lparr>instance_payload := (instance_payload i)\<lparr>payload_signatures := Some [p]\<rparr>\<rparr>"
    "app_signature_ok p" by blast
  have "payload_ok (instance_payload i')" using assms(1) p by (simp add: payload_ok_def)
  from payload_wire [OF this] js p assms(2) show ?thesis by (simp add: Instance_Verify_def)
qed


subsection \<open>Numbers at the end of a signed payload\<close>

lemma show_int_digit: "0 < n \<Longrightarrow> 0 \<le> d \<Longrightarrow> d < 10 \<Longrightarrow> show_int (10 * n + d) = show_int n @ [char_of (48 + nat d)]"
proof -
  assume n: "0 < n" and d: "0 \<le> d" "d < 10"
  have e: "nat (10 * n + d) = 10 * nat n + nat d" and k: "nat d < 10" "0 < nat n" using n d by simp_all
  have "digits_rev (10 * nat n + nat d) = char_of (48 + nat d) # digits_rev (nat n)"
    using k by (subst digits_rev.simps) (auto simp: digits_rev.simps [of 0])
  with n d e show ?thesis by (simp add: show_int_def show_nat_def)
qed

text \<open>
  What a signature does not cover.  The signature of a payload that ends in a positive number
  also verifies for the payload with a digit appended to that number, whoever appends it: the recorded
  format length only says how much of the received text was signed.
\<close>

theorem number_extension_verifies:
  assumes "payload_signatures (instance_payload i) = None" "instance_owner i = Some ow" "GetPrivateKey ow = Inr k"
    and "valid_key ops k" "public_ok (PublicKeyOf k)" "Instance_Sign ops now i = Inr i'"
    and "payload_data (instance_payload i) = JNum n" "0 < n" "0 \<le> d" "d < 10"
    and "instance_payload j = (instance_payload i')\<lparr>payload_data := JNum (10 * n + d)\<rparr>"
  shows "Instance_Verify ops j = Inr True \<and> payload_data (instance_payload j) \<noteq> payload_data (instance_payload i')"
proof -
  let ?l = "Some ([], ''    '')" and ?p = "instance_payload i"
  from Sign_result [OF assms(1-3,6)] obtain js0 js1 s p v where
    n: "NewJSONSignature (Payload_ToJSON ?p) [] = Inr js0" and sg: "js_Sign ops now k js0 = Inr js1"
    and js1: "js1 = js0\<lparr>signatures := [s]\<rparr>" and v: "signatures_json [s] = Inr [v]"
    and s: "js_protected s = protectedHeader now js0" "js_jwk (js_header s) = Some (PublicKeyOf k)"
    and i': "i' = i\<lparr>instance_payload := ?p\<lparr>payload_signatures := Some [p]\<rparr>\<rparr>" and pv: "app_signature_json p = v" by blast
  define ms where "ms = take 4 (payload_members ?p)"
  define kvs where "kvs = payload_members ?p"
  define kvs' where "kvs' = ms @ [(''data'', JNum (10 * n + d))]"
  have kvs: "kvs = ms @ [(''data'', JNum n)]" and ms: "ms \<noteq> []"
    using assms(7) by (simp_all add: kvs_def ms_def payload_members_def)
  have ok: "\<forall>s' \<in> set [s]. signature_ok s' \<and> (\<exists>now. js_protected s' = protectedHeader now js0)"
    using s assms(5) by (auto simp: signature_ok_def)
  have doc: "Payload_ToJSON (instance_payload j) = json_print ?l 0 (JObj (kvs' @ [(''signatures'', JArr [v])]))"
    by (simp add: assms(11) i' ToJSON_print payload_json_def kvs'_def ms_def payload_members_def permissions_json_def pv
        del: json_print.simps)
  have plain: "Payload_ToJSON ?p = json_print ?l 0 (JObj kvs)"
    by (simp add: ToJSON_print payload_json_def assms(1) kvs_def del: json_print.simps)
  have ext: "json_members ?l 1 kvs' = json_members ?l 1 kvs @ [char_of (48 + nat d)]"
    using ms show_int_digit [OF assms(8-10)] by (simp add: kvs kvs'_def json_members_append)
  have "json_members ?l 1 (kvs' @ [(''signatures'', JArr [v])]) = json_members ?l 1 kvs' @ CHR '','' # json_members ?l 1 [(''signatures'', JArr [v])]"
    by (rule json_members_append) (simp_all add: kvs'_def)
  then have "\<exists>r. Payload_ToJSON (instance_payload j) = (CHR ''{'' # json_members ?l 1 kvs) @ r"
    using ext unfolding doc by (simp del: json_members.simps)
  then obtain r where r: "Payload_ToJSON (instance_payload j) = (CHR ''{'' # json_members ?l 1 kvs) @ r" ..
  have "GetProperJWS j = Inr js1"
    unfolding GetProperJWS_def js1
  proof (rule ParsePretty_prefix [where lay = ?l and kvs = kvs and vs = "[v]" and kvs' = kvs'])
    show "Unmarshal (Payload_ToJSON (instance_payload j)) = Some (JObj (kvs' @ [(''signatures'', JArr [v])]))"
      unfolding doc by (rule Unmarshal_object [OF doc_layout_ws [OF layout4]])
    show "take (body_length ?l kvs) (Payload_ToJSON (instance_payload j)) = CHR ''{'' # json_members ?l 1 kvs"
      "body_length ?l kvs \<le> length (Payload_ToJSON (instance_payload j))"
      by (simp_all add: r body_length_def)
  qed (use n v ok ms in \<open>simp_all only: plain doc_layout_ws [OF layout4]\<close>, auto simp: kvs)
  moreover have "js_Verify ops js0 = Inr []" using New_payload [OF n] by (simp add: js_Verify_def)
  from trust_keys.Sign_verifies [OF assms(4) sg this] have "js_Verify ops js1 = Inr [PublicKeyOf k]" by simp
  ultimately show ?thesis using assms(7-9,11) i' by (simp add: Instance_Verify_def)
qed

text \<open>Signing succeeds when the owner's key signs.\<close>

lemma Sign_succeeds:
  assumes "payload_signatures (instance_payload i) = None" "instance_owner i = Some ow" "GetPrivateKey ow = Inr k"
    and "public_ok (PublicKeyOf k)" "\<And>js. \<exists>js'. js_Sign ops now k js = Inr js'"
  shows "\<exists>i'. Instance_Sign ops now i = Inr i'"
proof -
  have "NewJSONSignature (json_print (Some ([], ''    '')) 0 (JObj (payload_members (instance_payload i)))) [] \<noteq> Inl e" for e
    using NewJSONSignature_print [OF doc_layout_ws [OF layout4] payload_members_nonempty] by simp
  then obtain js0 where n: "NewJSONSignature (Payload_ToJSON (instance_payload i)) [] = Inr js0"
    by (cases "NewJSONSignature (Payload_ToJSON (instance_payload i)) []")
      (auto simp: ToJSON_print payload_json_def assms(1) simp del: json_print.simps)
  obtain js1 where s: "js_Sign ops now k js0 = Inr js1" using assms(5) by blast
  have "signatures js0 = []" using New_payload [OF n] by simp
  with trust_keys.Sign_fields [OF s] obtain t where t: "js1 = js0\<lparr>signatures := [t]\<rparr>" "js_protected t = protectedHeader now js0"
    "js_jwk (js_header t) = Some (PublicKeyOf k)" by (auto, metis jsHeader.select_convs(1))
  then have "signature_ok t" using assms(4) by (simp add: signature_ok_def)
  from signature_json_ok [OF this] obtain v p where v: "signature_json t = Inr v" "decode_signature v no_signature = (True, p)" by blast
  with n s t assms(2,3) decode_jws_one [OF v(2)] show ?thesis
    by (simp add: Instance_Sign_def js_JWS_def sort_signatures_def)
qed

subsection \<open>Witnesses\<close>

theorem new_identity_witness:
  "\<exists>s'. Identity_Init (Some (RsaPrivate example_rsa_key)) zero_identity = (Inr (), s') \<and>
     GetPrivateKey s' = Inr (RsaPrivate example_rsa_key)"
proof -
  have "private_ok (RsaPrivate example_rsa_key)" by (simp add: example_rsa_key_def plain_fields_def)
  from new_identity [OF this, of zero_identity] show ?thesis by (auto simp: zero_identity_def)
qed

definition example_owner :: Identity where
  "example_owner = zero_identity\<lparr>identity_id := ''me'', hostname := ''h'',
     PrivateJwk := (case private_toMap example_key of Inr m \<Rightarrow> Some m | Inl _ \<Rightarrow> None)\<rparr>"

lemma example_owner_key: "GetPrivateKey example_owner = Inr example_key"
proof -
  have "(7 :: nat) < 256 ^ 32" "octets 256 = 32" by (simp_all add: octets_def)
  then have k: "private_ok example_key" using example_key_ok(2) by (simp add: example_key_def)
  then obtain m where m: "private_toMap example_key = Inr m" using private_toMap_defined by blast
  show ?thesis
    using Unmarshal_private(2) [OF k m] unmarshal_map_indent [of "[]" "JObj m"] m
    by (simp add: example_owner_def GetPrivateKey_def GetPrivateKeyJson_def jwk_json_def UnmarshalPrivateKeyJWK_def
        del: private_toMap.simps)
qed

definition example_instance :: "string \<Rightarrow> Instance" where
  "example_instance ow = \<lparr>instance_id = [], instance_owner = Some example_owner,
     instance_payload = zero_payload\<lparr>payload_owner := ow, payload_data := JStr ''hello''\<rparr>\<rparr>"

lemma example_instance_ok: "payload_ok (instance_payload (example_instance ow))"
    "payload_signatures (instance_payload (example_instance ow)) = None"
    "instance_owner (example_instance ow) = Some example_owner"
  by (simp_all add: example_instance_def payload_ok_def zero_payload_def)

theorem signed_instance_travels_witness:
  "\<exists>i'. Instance_Sign example_ops [] (example_instance ''me'') = Inr i' \<and> Instance_Verify example_ops i' = Inr True"
proof -
  from Sign_succeeds [OF example_instance_ok(2,3) example_owner_key example_key_ok(2), of example_ops "[]"] example_signs
  obtain i' where i': "Instance_Sign example_ops [] (example_instance ''me'') = Inr i'" by blast
  from signed_instance_travels [OF example_instance_ok example_owner_key example_key_ok i' refl] i' show ?thesis by blast
qed


theorem number_extension_verifies_witness:
  "\<exists>j. Instance_Verify example_ops j = Inr True \<and> payload_data (instance_payload j) = JNum 1000"
proof -
  define i where "i = (example_instance ''me'')\<lparr>instance_payload := (instance_payload (example_instance ''me''))\<lparr>payload_data := JNum 100\<rparr>\<rparr>"
  have u: "payload_signatures (instance_payload i) = None" "instance_owner i = Some example_owner"
    "payload_data (instance_payload i) = JNum 100" by (simp_all add: i_def example_instance_ok)
  from Sign_succeeds [OF u(1,2) example_owner_key example_key_ok(2), of example_ops "[]"] example_signs
  obtain i' where i': "Instance_Sign example_ops [] i = Inr i'" by blast
  from number_extension_verifies [OF u(1,2) example_owner_key example_key_ok i' u(3),
      of 0 "i'\<lparr>instance_payload := (instance_payload i')\<lparr>payload_data := JNum 1000\<rparr>\<rparr>"]
  show ?thesis by (intro exI [of _ "i'\<lparr>instance_payload := (instance_payload i')\<lparr>payload_data := JNum 1000\<rparr>\<rparr>"]) simp
qed

definition example_payload :: Payload where
  "example_payload = zero_payload\<lparr>payload_id := ''i'', perm_identities := Some [(''a'', zero_permission)],
     payload_data := JObj [(''b'', JNum 1), (''c'', JArr [JNull])], payload_signatures := Some []\<rparr>"

theorem decoded_payload_typed_witness:
  "SetPayloadFromJson (Marshal (payload_json example_payload)) zero_payload =
     (True, example_payload\<lparr>payload_signatures := None\<rparr>) \<and>
   payload_typed (snd (SetPayloadFromJson ''{}'' zero_payload))"
proof -
  have k: "kept_payload example_payload = example_payload\<lparr>payload_signatures := None\<rparr>"
    by (simp add: kept_payload_def kept_list_def example_payload_def)
  have "canon (payload_data example_payload) = payload_data example_payload" by code_simp
  then have "payload_typed example_payload"
    by (simp add: payload_typed_def example_payload_def zero_payload_def obj_sorted_def)
  from decoded_payload_typed [OF this, of "''{}''"] show ?thesis by (simp add: k)
qed

end
