(* ===== verification/UuidSpec.thy ===== *)
theory UuidSpec
  imports Uuid
begin

text \<open>
  What identifiers promise: a version 1 to 5 identifier reads back from its printed form, version
  and variant are the ones asked for, the two forms agree, and the timestamps of version 1 increase.
\<close>

subsection \<open>Hexadecimal\<close>

lemma hex_encode_append: "hex_encode (a @ b) = hex_encode a @ hex_encode b"
  by (simp add: hex_encode_def)

lemma char_less_256: "(of_char (c :: char) :: nat) < 256"
  by (metis of_char_mod_256 mod_less_divisor zero_less_numeral)

lemma char_div_16: "(of_char (c :: char) :: nat) div 16 < 16"
proof (rule less_mult_imp_div_less)
  show "(of_char c :: nat) < 16 * 16" using char_less_256 [of c] by linarith
qed

lemma hex_decode_encode: "hex_decode (hex_encode b) = Some b"
proof (induction b)
  case Nil
  then show ?case by (simp add: hex_encode_def)
next
  case (Cons c b)
  have d: "(of_char c :: nat) div 16 < 16" by (rule char_div_16)
  have "(16 :: nat) * (of_char c div 16) + of_char c mod 16 = of_char c" by simp
  then have "char_of (16 * (of_char c div 16 :: nat) + of_char c mod 16) = c" by (simp only: char_of_char)
  with Cons d show ?case by (simp add: hex_encode_Cons hex_value_digit)
qed

lemma hex_digit_ok: "n < 16 \<Longrightarrow> hex_value (hex_digit n) \<noteq> None"
  by (simp add: hex_value_digit)

lemma hex_encode_digits: "list_all (\<lambda>c. hex_value c \<noteq> None) (hex_encode b)"
proof (induction b)
  case Nil
  then show ?case by (simp add: hex_encode_def)
next
  case (Cons c b)
  have "(of_char c :: nat) div 16 < 16" by (rule char_div_16)
  with Cons show ?case by (simp add: hex_encode_Cons hex_value_digit)
qed

lemma hex_group_append:
  "length g = n \<Longrightarrow> list_all (\<lambda>c. hex_value c \<noteq> None) g \<Longrightarrow> hex_group n (g @ r) = Some (g, r)"
  by (simp add: hex_group_def)

lemma not_hex_chars: "list_all (\<lambda>c. hex_value c = None) ''{([-u]})''"
  by code_simp

lemma opt_in_hex:
  "g \<noteq> [] \<Longrightarrow> list_all (\<lambda>c. hex_value c \<noteq> None) g \<Longrightarrow> list_all (\<lambda>c. hex_value c = None) cs \<Longrightarrow> opt_in cs (g @ r) = g @ r"
  by (cases g) (auto simp: opt_in_def list_all_iff)

text \<open>The pattern on the groups of an identifier, with and without hyphens.\<close>

lemma match_uuid_groups:
  assumes g: "length g2 = 8" "length g3 = 4" "length g4 = 4" "length g5 = 4" "length g6 = 12"
    and h: "list_all (\<lambda>c. hex_value c \<noteq> None) (g2 @ g3 @ g4 @ g5 @ g6)" and v: "hd g4 \<in> set ''12345''"
    and sep: "sep \<in> {[], ''-''}"
  shows "match_uuid (g2 @ sep @ g3 @ sep @ g4 @ sep @ g5 @ sep @ g6) = Some (g2 @ g3 @ g4 @ g5 @ g6)"
proof -
  have hs: "list_all (\<lambda>c. hex_value c \<noteq> None) g2" "list_all (\<lambda>c. hex_value c \<noteq> None) g3"
    "list_all (\<lambda>c. hex_value c \<noteq> None) g4" "list_all (\<lambda>c. hex_value c \<noteq> None) g5"
    "list_all (\<lambda>c. hex_value c \<noteq> None) g6" using h by simp_all
  have n: "list_all (\<lambda>c. hex_value c = None) ''{([''" "list_all (\<lambda>c. hex_value c = None) ''-''" "hex_value CHR ''u'' = None"
    using not_hex_chars by simp_all
  have o: "opt_in ''-'' (sep @ g @ r) = g @ r" if "g \<noteq> []" "list_all (\<lambda>c. hex_value c \<noteq> None) g" for g r
  proof (cases "sep = []")
    case True
    then show ?thesis using opt_in_hex [OF that n(2), of r] by simp
  next
    case False
    with sep show ?thesis by (simp add: opt_in_def)
  qed
  have ne: "g2 \<noteq> []" "g3 \<noteq> []" "g4 \<noteq> []" "g5 \<noteq> []" "g6 \<noteq> []" using g by auto
  obtain c g2' where c: "g2 = c # g2'" using ne(1) by (cases g2) auto
  with hs(1) n(3) have u: "take 9 (g2 @ r) \<noteq> ''urn:uuid:''" for r by auto
  have o2: "opt_in ''{(['' (g2 @ r) = g2 @ r" for r by (rule opt_in_hex [OF ne(1) hs(1) n(1)])
  have e: "opt_in '']})'' [] = []" by (simp add: opt_in_def)
  have last: "hex_group 12 (opt_in ''-'' (sep @ g6)) = Some (g6, [])"
    using o [OF ne(5) hs(5), of "[]"] hex_group_append [OF g(5) hs(5), of "[]"] by simp
  show ?thesis
    unfolding match_uuid_def Let_def
    by (simp only: u if_False o2 hex_group_append [OF g(1) hs(1)] bind.bind_lunit prod.case o [OF ne(2) hs(2)]
        hex_group_append [OF g(2) hs(2)] o [OF ne(3) hs(3)] hex_group_append [OF g(3) hs(3)] v not_True_eq_False
        o [OF ne(4) hs(4)] hex_group_append [OF g(4) hs(4)] last e if_True simp_thms)
qed

subsection \<open>Printing and reading\<close>

lemma hex_version_digit: "(v :: nat) \<in> {1..5} \<Longrightarrow> hex_digit v \<in> set ''12345''"
proof -
  have "\<forall>v \<in> set [1 :: nat, 2, 3, 4, 5]. hex_digit v \<in> set ''12345''" by code_simp
  moreover assume "v \<in> {1..5}"
  then have "v = 1 \<or> v = 2 \<or> v = 3 \<or> v = 4 \<or> v = 5" by auto
  ultimately show ?thesis by auto
qed

lemma unat_byte_word: "unat (byte_word c :: 8 word) = of_char c"
  unfolding byte_word_def by (simp only: unat_of_nat) (simp add: mod_less [OF char_less_256, simplified])

lemma array_Version_char: "array_Version u = of_char (u ! 6) div 16"
proof -
  have "array_Version u = drop_bit 4 (unat (byte_word (u ! 6) :: 8 word))"
    unfolding array_Version_def by (rule unat_drop_bit_eq)
  then show ?thesis by (simp only: unat_byte_word drop_bit_eq_div) simp
qed

lemma formatter_array:
  assumes "length u = 16"
  shows "formatter (UArray u) f = Inr (sprintf_hex f [take 4 u, take 2 (drop 4 u), take 2 (drop 6 u),
    take 1 (drop 8 u), take 1 (drop 9 u), take 6 (drop 10 u)])"
  using assms by (simp add: formatter_def)

lemma sprintf_CleanHyphen:
  "sprintf_hex CleanHyphen [a, b, c, d, e, f] = hex_encode a @ ''-'' @ hex_encode b @ ''-'' @ hex_encode c @ ''-'' @
     (hex_encode d @ hex_encode e) @ ''-'' @ hex_encode f"
  "sprintf_hex Clean [a, b, c, d, e, f] = hex_encode a @ hex_encode b @ hex_encode c @ (hex_encode d @ hex_encode e) @ hex_encode f"
  by (simp_all add: CleanHyphen_def Clean_def)

lemma New_array: "length u = 16 \<Longrightarrow> New u = Inr (UArray u)"
  by (simp add: New_def array_Unmarshal_def zero_array_def)

lemma array_split:
  assumes "length u = 16"
  shows "take 4 u @ take 2 (drop 4 u) @ take 2 (drop 6 u) @ (take 1 (drop 8 u) @ take 1 (drop 9 u)) @ take 6 (drop 10 u) = u"
proof -
  have "u = take 4 u @ drop 4 u" "drop 4 u = take 2 (drop 4 u) @ drop 6 u" "drop 6 u = take 2 (drop 6 u) @ drop 8 u"
    "drop 8 u = take 1 (drop 8 u) @ drop 9 u" "drop 9 u = take 1 (drop 9 u) @ drop 10 u" "drop 10 u = take 6 (drop 10 u)"
    using assms append_take_drop_id [of 2 "drop 4 u"] append_take_drop_id [of 2 "drop 6 u"]
      append_take_drop_id [of 1 "drop 8 u"] append_take_drop_id [of 1 "drop 9 u"]
    by (simp_all add: drop_drop)
  then show ?thesis by (metis append_assoc)
qed

lemma print_parse:
  assumes "length u = 16" "array_Version u \<in> {1..5}" "f \<in> {CleanHyphen, Clean}"
  shows "\<exists>s. Formatter (UArray u) f = Inr s \<and> ParseUUID s = Inr (Some (UArray u))"
proof -
  let ?g2 = "hex_encode (take 4 u)" and ?g3 = "hex_encode (take 2 (drop 4 u))" and ?g4 = "hex_encode (take 2 (drop 6 u))"
    and ?g5 = "hex_encode (take 1 (drop 8 u)) @ hex_encode (take 1 (drop 9 u))" and ?g6 = "hex_encode (take 6 (drop 10 u))"
  have d6: "drop 6 u = u ! 6 # drop 7 u" using assms(1) Cons_nth_drop_Suc [of 6 u] by simp
  have "hd ?g4 = hex_digit (array_Version u)"
    by (simp add: d6 hex_encode_Cons array_Version_char numeral_2_eq_2)
  then have v: "hd ?g4 \<in> set ''12345''" using hex_version_digit assms(2) by simp
  have hx: "list_all (\<lambda>c. hex_value c \<noteq> None) (?g2 @ ?g3 @ ?g4 @ ?g5 @ ?g6)" by (simp only: list_all_append hex_encode_digits simp_thms)
  have lens: "length ?g2 = 8" "length ?g3 = 4" "length ?g4 = 4" "length ?g5 = 4" "length ?g6 = 12"
    using assms(1) by simp_all
  have m: "match_uuid (?g2 @ sep @ ?g3 @ sep @ ?g4 @ sep @ ?g5 @ sep @ ?g6) = Some (?g2 @ ?g3 @ ?g4 @ ?g5 @ ?g6)"
    if "sep \<in> {[], ''-''}" for sep by (rule match_uuid_groups [OF lens hx v that])
  have "?g2 @ ?g3 @ ?g4 @ ?g5 @ ?g6 = hex_encode u"
    using array_split [OF assms(1)] by (simp only: hex_encode_append [symmetric])
  then have p: "run_bind (NewHex (?g2 @ ?g3 @ ?g4 @ ?g5 @ ?g6)) (\<lambda>u. Inr (Some u)) = Inr (Some (UArray u))"
    by (simp only: NewHex_def hex_decode_encode option.case New_array [OF assms(1)] run_bind_simps)
  have P: "ParseUUID (?g2 @ sep @ ?g3 @ sep @ ?g4 @ sep @ ?g5 @ sep @ ?g6) = Inr (Some (UArray u))"
    if "sep \<in> {[], ''-''}" for sep
    by (simp only: ParseUUID_def m [OF that] option.case p)
  have six: "six_groups f" using assms(3) by (auto simp: six_groups_def CleanHyphen_def Clean_def)
  have F: "Formatter (UArray u) f = Inr (sprintf_hex f [take 4 u, take 2 (drop 4 u), take 2 (drop 6 u),
    take 1 (drop 8 u), take 1 (drop 9 u), take 6 (drop 10 u)])"
    by (simp only: Formatter_def six not_True_eq_False if_False formatter_array [OF assms(1)])
  have H: "ParseUUID (?g2 @ ''-'' @ ?g3 @ ''-'' @ ?g4 @ ''-'' @ ?g5 @ ''-'' @ ?g6) = Inr (Some (UArray u))"
    by (rule P) simp
  have N: "ParseUUID (?g2 @ ?g3 @ ?g4 @ ?g5 @ ?g6) = Inr (Some (UArray u))"
    using P [of "[]"] by (simp only: append_Nil insertI1)
  from assms(3) have "f = CleanHyphen \<or> f = Clean" by simp
  then show ?thesis
  proof
    assume "f = CleanHyphen"
    with F H show ?thesis unfolding \<open>f = CleanHyphen\<close> sprintf_CleanHyphen by blast
  next
    assume "f = Clean"
    with F N show ?thesis unfolding \<open>f = Clean\<close> sprintf_CleanHyphen by blast
  qed
qed

text \<open>
  An identifier of version 1 to 5 printed in one of the plain formats, with or without
  hyphens, is accepted by \<open>ParseUUID\<close> and reads back as the same identifier.
\<close>

theorem uuid_print_parse:
  assumes "length u = 16" "array_Version u \<in> {1..5}" "f \<in> {CleanHyphen, Clean}"
  shows "\<exists>s. Formatter (UArray u) f = Inr s \<and> ParseUUID s = Inr (Some (UArray u))"
  by (rule print_parse [OF assms])

lemma uuid_print_parse_witness:
  "\<exists>s. Formatter (UArray (map char_of [64 :: nat ..< 80])) CleanHyphen = Inr s \<and>
     ParseUUID s = Inr (Some (UArray (map char_of [64 :: nat ..< 80])))"
proof (rule uuid_print_parse)
  have "array_Version (map char_of [64 :: nat ..< 80]) = 4" by code_simp
  then show "array_Version (map char_of [64 :: nat ..< 80]) \<in> {1..5}" by simp
qed simp_all

subsection \<open>Version and variant\<close>

lemma and_single_bit: "(w :: 'a :: len word) AND push_bit n 1 = 0 \<or> w AND push_bit n 1 = push_bit n 1"
  by (cases "bit w n") (auto intro!: bit_word_eqI simp: bit_simps)

lemma and_bit_5: "(w :: 8 word) AND 0x20 = 0 \<or> w AND 0x20 = 0x20"
  using and_single_bit [of w 5] by (simp add: push_bit_eq_mult)

lemma variant_rfc4122: "variant ((w AND 0x3F) OR ReservedRFC4122) = ReservedRFC4122"
proof -
  have "((w AND 0x3F) OR 0x80) AND 0xE0 = (w AND 0x20) OR (0x80 :: 8 word)"
    by (simp add: bit.conj_disj_distrib2 and.assoc)
  then show ?thesis using and_bit_5 [of w]
    by (auto simp: variant_def variantGet_def ReservedRFC4122_def)
qed

lemma version_bits: "v < 16 \<Longrightarrow> unat (drop_bit 4 ((w AND 0x0F) OR push_bit 4 (word_of_nat v)) :: 8 word) = v"
proof -
  assume v: "v < 16"
  have "drop_bit 4 ((w AND mask 4) OR push_bit 4 (word_of_nat v)) = (take_bit 4 (word_of_nat v) :: 8 word)"
    by (rule bit_word_eqI) (auto simp: bit_simps)
  moreover have "unat (take_bit 4 (word_of_nat v) :: 8 word) = v"
    using v by (simp only: unsigned_take_bit_eq unat_of_nat) (simp add: take_bit_eq_mod)
  ultimately show ?thesis by (simp add: mask_eq_exp_minus_1)
qed

lemma array_set_version: "6 < length u \<Longrightarrow> v < 16 \<Longrightarrow> array_Version (array_setVersion v u) = v"
  using version_bits [of v "byte_word (u ! 6)"] by (simp add: array_Version_def array_setVersion_def)

lemma array_set_version_variant [simp]: "array_Variant (array_setVersion v u) = array_Variant u"
  by (simp add: array_Variant_def array_setVersion_def)

lemma array_set_variant: "8 < length u \<Longrightarrow> array_Variant (array_setRFC4122Variant u) = ReservedRFC4122"
  by (simp add: array_Variant_def array_setRFC4122Variant_def variant_rfc4122)

lemma array_set_length [simp]:
  "length (array_setVersion v u) = length u" "length (array_setRFC4122Variant u) = length u"
  by (simp_all add: array_setVersion_def array_setRFC4122Variant_def)

subsection \<open>The two forms\<close>

lemma struct_word_bytes:
  fixes a b c d :: "8 word"
  shows "ucast (drop_bit 24 (ucast d OR push_bit 8 (ucast c) OR push_bit 16 (ucast b) OR push_bit 24 (ucast a) :: 32 word)) = a"
    "ucast (drop_bit 16 (ucast d OR push_bit 8 (ucast c) OR push_bit 16 (ucast b) OR push_bit 24 (ucast a) :: 32 word)) = b"
    "ucast (drop_bit 8 (ucast d OR push_bit 8 (ucast c) OR push_bit 16 (ucast b) OR push_bit 24 (ucast a) :: 32 word)) = c"
    "ucast (ucast d OR push_bit 8 (ucast c) OR push_bit 16 (ucast b) OR push_bit 24 (ucast a) :: 32 word) = d"
    "ucast (drop_bit 8 (ucast d OR push_bit 8 (ucast c) :: 16 word)) = c"
    "ucast (ucast d OR push_bit 8 (ucast c) :: 16 word) = d"
  by (rule bit_word_eqI; auto simp: bit_simps dest: bit_imp_le_length)+

lemma byte_word_ucast: "(byte_word c :: 'a :: len word) = ucast (byte_word c :: 8 word)"
proof -
  have "ucast (byte_word c :: 8 word) = (word_of_nat (unat (byte_word c :: 8 word)) :: 'a word)"
    by (rule of_nat_unat [symmetric])
  then show ?thesis unfolding unat_byte_word by (simp only: byte_word_def)
qed

text \<open>Reading 16 bytes in either form keeps the bytes, the version and the variant.\<close>

lemma take_as_nths: "n \<le> length d \<Longrightarrow> take n d = map ((!) d) [0 ..< n]"
  by (rule nth_equalityI) simp_all

lemma take_ten: "10 \<le> length d \<Longrightarrow> take 10 d = [d ! 0, d ! 1, d ! 2, d ! 3, d ! 4, d ! 5, d ! 6, d ! 7, d ! 8, d ! 9]"
  by (simp add: take_as_nths upt_rec eval_nat_numeral)

lemma struct_fields:
  assumes "length d = 16" "struct_Unmarshal d s = Inr s'" "uuid_size s = 16"
  shows "timeLow s' = ucast (byte_word (d ! 3) :: 8 word) OR push_bit 8 (ucast (byte_word (d ! 2) :: 8 word)) OR
      push_bit 16 (ucast (byte_word (d ! 1) :: 8 word)) OR push_bit 24 (ucast (byte_word (d ! 0) :: 8 word))"
    "timeMid s' = ucast (byte_word (d ! 5) :: 8 word) OR push_bit 8 (ucast (byte_word (d ! 4) :: 8 word))"
    "timeHiAndVersion s' = ucast (byte_word (d ! 7) :: 8 word) OR push_bit 8 (ucast (byte_word (d ! 6) :: 8 word))"
    "sequenceHiAndVariant s' = byte_word (d ! 8)" "sequenceLow s' = byte_word (d ! 9)" "node_id s' = drop 10 d"
    "uuid_size s' = 16"
  using assms by (auto simp: struct_Unmarshal_def byte_word_ucast [where 'a = 32] byte_word_ucast [where 'a = 16])

lemma struct_Bytes_Unmarshal:
  assumes "length d = 16" "struct_Unmarshal d s = Inr s'" "uuid_size s = 16"
  shows "struct_Bytes s' = d"
proof -
  have "d = [d ! 0, d ! 1, d ! 2, d ! 3, d ! 4, d ! 5, d ! 6, d ! 7, d ! 8, d ! 9] @ drop 10 d"
    using append_take_drop_id [of 10 d] take_ten [of d] assms(1) by simp
  moreover have "struct_Bytes s' = [d ! 0, d ! 1, d ! 2, d ! 3, d ! 4, d ! 5, d ! 6, d ! 7, d ! 8, d ! 9] @ drop 10 d"
    by (simp only: struct_Bytes_def struct_fields [OF assms] struct_word_bytes byte_word_byte)
  ultimately show ?thesis by simp
qed


lemma struct_version_bits: "unat (drop_bit 12 (ucast b OR push_bit 8 (ucast a) :: 16 word)) = unat (drop_bit 4 (a :: 8 word))"
  for b :: "8 word"
proof -
  have "drop_bit 12 (ucast b OR push_bit 8 (ucast a) :: 16 word) = ucast (drop_bit 4 a)"
    by (rule bit_word_eqI) (auto simp: bit_simps dest: bit_imp_le_length)
  moreover have "unat (ucast w :: 16 word) = unat w" for w :: "8 word"
    using unsigned_less [of w, where 'a = nat] by (simp add: unsigned_ucast_eq take_bit_nat_eq_self)
  ultimately show ?thesis by (simp only:)
qed

text \<open>
  Unmarshalling the same 16 bytes into the array form and into the struct form succeeds
  for both and gives identifiers with the same bytes (the ones read), version, variant and printed
  form in every format: the two implementations of the interface agree.
\<close>

theorem uuid_forms_agree:
  assumes "length d = 16" "uuid_size s = 16"
  shows "\<exists>s'. UUID_Unmarshal d (UStruct s) = Inr (UStruct s') \<and>
    UUID_Unmarshal d (UArray zero_array) = Inr (UArray d) \<and>
    Bytes (UStruct s') = d \<and> Version (UStruct s') = Version (UArray d) \<and>
    Variant (UStruct s') = Variant (UArray d) \<and> formatter (UStruct s') f = formatter (UArray d) f"
proof -
  obtain s' where s': "struct_Unmarshal d s = Inr s'" and size: "uuid_size s' = 16"
    using assms by (auto simp: struct_Unmarshal_def)
  have b: "struct_Bytes s' = d" by (rule struct_Bytes_Unmarshal [OF assms(1) s' assms(2)])
  have "struct_Version s' = array_Version d" "struct_Variant s' = array_Variant d"
    by (simp_all only: struct_Version_def array_Version_def struct_Variant_def array_Variant_def struct_version_bits
        struct_fields [OF assms(1) s' assms(2)])
  with s' b size assms(1) show ?thesis
    by (intro exI [of _ s']) (simp add: formatter_def array_Unmarshal_def zero_array_def)
qed

lemma uuid_forms_agree_witness:
  "\<exists>s'. UUID_Unmarshal (map char_of [64 :: nat ..< 80]) (UStruct (formatV1 0 0 0 [] 0)) = Inr (UStruct s') \<and>
     Bytes (UStruct s') = map char_of [64 :: nat ..< 80]"
  using uuid_forms_agree [of "map char_of [64 :: nat ..< 80]" "formatV1 0 0 0 [] 0" Clean] by (auto simp: formatV1_def)

subsection \<open>New identifiers\<close>

definition made_as :: "nat \<Rightarrow> UUID run \<Rightarrow> bool" where
  "made_as v r \<longleftrightarrow> (\<exists>u. r = Inr (UArray u) \<and> length u = 16 \<and> array_Version u = v \<and> array_Variant u = ReservedRFC4122)"

lemma made_as_set:
  "length u = 16 \<Longrightarrow> v < 16 \<Longrightarrow> made_as v (Inr (UArray (array_setVersion v (array_setRFC4122Variant u))))"
  by (simp add: made_as_def array_set_version array_set_variant)

lemma sha1_length: "length (sha1 m) = 20"
proof -
  have "length (fold sha1_block bs h) = 5" if "length h = 5" for bs h
    using that by (induction bs arbitrary: h) (simp_all add: sha1_block_def split: prod.split)
  from this [of "[0x67452301, 0xEFCDAB89, 0x98BADCFE, 0x10325476, 0xC3D2E1F0]"]
  show ?thesis by (simp add: sha1_def length_concat comp_def word_bytes_def sum_list_triv)
qed

lemma Digest_array: "16 \<le> length (h (Bytes ns @ n)) \<Longrightarrow> Digest (UArray zero_array) ns n h = Inr (UArray (take 16 (h (Bytes ns @ n))))"
  by (simp add: Digest_def array_Unmarshal_def zero_array_def)

text \<open>
  Identifiers made from names and random numbers carry the version asked for and the
  RFC 4122 variant, whatever the name, the name space, the 16 random bytes and the MD5 function.
\<close>

theorem new_uuid_version:
  assumes "\<And>b. length (md5 b) = 16" "length r = 16"
  shows "made_as 3 (NewV3 md5 ns n) \<and> made_as 4 (NewV4 (Some r)) \<and> made_as 5 (NewV5 ns n)"
proof (intro conjI)
  show "made_as 3 (NewV3 md5 ns n)" using assms by (simp add: NewV3_def Digest_array made_as_set)
  show "made_as 4 (NewV4 (Some r))" using assms by (simp add: NewV4_def made_as_set)
  show "made_as 5 (NewV5 ns n)" by (simp add: NewV5_def Digest_array sha1_length made_as_set)
qed


lemma new_uuid_version_witness:
  "made_as 3 (NewV3 (\<lambda>b. take 16 (b @ replicate 16 CHR ''x'')) (UArray zero_array) ''name'') \<and>
   made_as 4 (NewV4 (Some (replicate 16 CHR ''r'')))"
  using new_uuid_version [of "\<lambda>b. take 16 (b @ replicate 16 CHR ''x'')" "replicate 16 CHR ''r''" "UArray zero_array" "''name''"]
  by simp

subsection \<open>The clock of version 1\<close>

lemma clock_moves:
  "(\<forall>j < k. clock (ts_reads t + j) = lastTimestamp t) \<Longrightarrow> clock (ts_reads t + k) \<noteq> lastTimestamp t \<Longrightarrow> k < fuel \<Longrightarrow>
     currentUUIDTimestamp fuel clock t \<noteq> None"
proof (induction fuel clock t arbitrary: k rule: currentUUIDTimestamp.induct)
  case (2 fuel clock t)
  show ?case
  proof (cases k)
    case 0
    with 2(3) show ?thesis by (simp add: Let_def)
  next
    case (Suc k')
    have "clock (ts_reads t) = lastTimestamp t" using 2(2) Suc by (metis add.right_neutral zero_less_Suc)
    moreover have "clock (Suc (ts_reads t) + j) = lastTimestamp t" if "j < k'" for j
      using 2(2) Suc that by (metis Suc_less_eq add_Suc_right add_Suc)
    ultimately show ?thesis
      using 2(1) [OF refl refl, of k'] 2(3,4) Suc by (auto simp: Let_def)
  qed
qed simp

lemma clock_stuck:
  "uuidsPerTimestamp \<le> uuidsThisTimestamp t \<Longrightarrow> (\<And>j. clock (ts_reads t + j) = lastTimestamp t) \<Longrightarrow>
     currentUUIDTimestamp fuel clock t = None"
proof (induction fuel clock t rule: currentUUIDTimestamp.induct)
  case (2 fuel clock t)
  have "clock (ts_reads t) = lastTimestamp t" using 2(3) [of 0] by simp
  moreover have "clock (Suc (ts_reads t) + j) = lastTimestamp t" for j using 2(3) [of "Suc j"] by simp
  ultimately show ?case using 2(1) [OF refl refl] 2(2) by (auto simp: Let_def)
qed simp

text \<open>
  The loop that waits for the clock ends exactly when it should: it returns a timestamp
  (with enough fuel) if and only if fewer than 1024 timestamps were given for the current reading or
  the clock eventually shows another one; a clock that stands still makes the 1025th call spin for ever.
\<close>

theorem timestamp_returns_iff:
  "(\<exists>fuel. currentUUIDTimestamp fuel clock t \<noteq> None) \<longleftrightarrow>
     uuidsThisTimestamp t < uuidsPerTimestamp \<or> (\<exists>k. clock (ts_reads t + k) \<noteq> lastTimestamp t)"
proof
  assume "\<exists>fuel. currentUUIDTimestamp fuel clock t \<noteq> None"
  with clock_stuck [of t clock] show "uuidsThisTimestamp t < uuidsPerTimestamp \<or> (\<exists>k. clock (ts_reads t + k) \<noteq> lastTimestamp t)"
    by (meson not_le)
next
  assume "uuidsThisTimestamp t < uuidsPerTimestamp \<or> (\<exists>k. clock (ts_reads t + k) \<noteq> lastTimestamp t)"
  then show "\<exists>fuel. currentUUIDTimestamp fuel clock t \<noteq> None"
  proof
    assume "uuidsThisTimestamp t < uuidsPerTimestamp"
    then have "currentUUIDTimestamp 1 clock t \<noteq> None" by (simp add: Let_def)
    then show ?thesis ..
  next
    assume "\<exists>k. clock (ts_reads t + k) \<noteq> lastTimestamp t"
    then obtain k where "clock (ts_reads t + k) \<noteq> lastTimestamp t" "\<forall>j < k. clock (ts_reads t + j) = lastTimestamp t"
      using exists_least_iff [of "\<lambda>k. clock (ts_reads t + k) \<noteq> lastTimestamp t"] by auto
    then have "currentUUIDTimestamp (Suc k) clock t \<noteq> None" using clock_moves [of k clock t "Suc k"] by blast
    then show ?thesis ..
  qed
qed

text \<open>The timestamps given by \<open>n\<close> calls.\<close>

fun timestamps :: "nat \<Rightarrow> nat \<Rightarrow> (nat \<Rightarrow> 64 word) \<Rightarrow> ticker \<Rightarrow> 64 word list option" where
  "timestamps 0 fuel clock t = Some []"
| "timestamps (Suc n) fuel clock t =
     Option.bind (currentUUIDTimestamp fuel clock t) (\<lambda>(x, t'). map_option ((#) x) (timestamps n fuel clock t'))"

text \<open>Readings never go back, different ones are more than 1024 ticks apart and stay below \<open>2^64 - 1024\<close>.\<close>

definition coarse_clock :: "(nat \<Rightarrow> 64 word) \<Rightarrow> bool" where
  "coarse_clock clock \<longleftrightarrow>
     (\<forall>i. unat (clock i) + uuidsPerTimestamp < 2 ^ 64) \<and>
     (\<forall>i j. i < j \<longrightarrow> clock i = clock j \<or> unat (clock i) + uuidsPerTimestamp < unat (clock j))"

text \<open>What a call leaves: the reading was seen, the last timestamp is the reading plus the count.\<close>

definition ticked :: "(nat \<Rightarrow> 64 word) \<Rightarrow> ticker \<Rightarrow> bool" where
  "ticked clock t \<longleftrightarrow> uuidsThisTimestamp t \<le> uuidsPerTimestamp \<and> (\<exists>i < ts_reads t. lastTimestamp t = clock i)"

definition last_given :: "ticker \<Rightarrow> nat" where
  "last_given t = unat (lastTimestamp t) + uuidsThisTimestamp t"

lemma timestamp_step:
  "coarse_clock clock \<Longrightarrow> ticked clock t \<Longrightarrow> currentUUIDTimestamp fuel clock t = Some (x, t') \<Longrightarrow>
     ticked clock t' \<and> last_given t < unat x \<and> last_given t' = unat x"
proof (induction fuel clock t rule: currentUUIDTimestamp.induct)
  case (2 fuel clock t)
  from 2(3) obtain i where i: "i < ts_reads t" "lastTimestamp t = clock i" and u: "uuidsThisTimestamp t \<le> uuidsPerTimestamp"
    by (auto simp: ticked_def)
  let ?now = "clock (ts_reads t)"
  from 2(2) have small: "unat ?now + uuidsPerTimestamp < 2 ^ 64" by (simp add: coarse_clock_def)
  show ?case
  proof (cases "lastTimestamp t = ?now")
    case False
    from 2(2) i False have "unat (lastTimestamp t) + uuidsPerTimestamp < unat ?now" by (auto simp: coarse_clock_def)
    with False u 2(4) show ?thesis by (auto simp: ticked_def last_given_def Let_def)
  next
    case same: True
    show ?thesis
    proof (cases "uuidsThisTimestamp t < uuidsPerTimestamp")
      case True
      have "unat (?now + word_of_nat (Suc (uuidsThisTimestamp t))) = unat ?now + Suc (uuidsThisTimestamp t)"
        using small True by (simp add: unat_word_ariths(1) unat_of_nat uuidsPerTimestamp_def del: of_nat_Suc)
      with same True 2(4) i show ?thesis by (auto simp: ticked_def last_given_def Let_def intro: less_SucI)
    next
      case False
      have "ticked clock (t\<lparr>ts_reads := Suc (ts_reads t)\<rparr>)" using 2(3) by (auto simp: ticked_def intro: less_SucI)
      with same False 2(1) [OF refl refl] 2(2,4) show ?thesis by (simp add: Let_def last_given_def)
    qed
  qed
qed simp


lemma timestamps_sorted:
  "coarse_clock clock \<Longrightarrow> ticked clock t \<Longrightarrow> timestamps n fuel clock t = Some xs \<Longrightarrow>
     sorted_wrt (<) xs \<and> (\<forall>x \<in> set xs. last_given t < unat x)"
proof (induction n arbitrary: t xs)
  case (Suc n)
  then obtain x t' xs' where x: "currentUUIDTimestamp fuel clock t = Some (x, t')"
    and r: "timestamps n fuel clock t' = Some xs'" and xs: "xs = x # xs'"
    by (auto split: bind_splits)
  have s: "ticked clock t'" "last_given t < unat x" "last_given t' = unat x"
    using timestamp_step [OF Suc.prems(1,2) x] by simp_all
  have "sorted_wrt (<) xs'" "\<forall>y \<in> set xs'. unat x < unat y"
    using Suc.IH [OF Suc.prems(1) s(1) r] s(3) by simp_all
  with xs s(2) show ?case by (auto simp: word_less_nat_alt [of x])
qed simp

text \<open>
  As long as the clock does not go back and different readings are more than 1024 ticks
  apart, the timestamps of any number of calls are strictly increasing: no two version 1 identifiers
  share a timestamp.
\<close>

theorem timestamps_increase:
  assumes "coarse_clock clock" "clock 0 \<noteq> 0" "timestamps n fuel clock initial_ticker = Some xs"
  shows "sorted_wrt (<) xs"
proof (cases n)
  case (Suc m)
  then obtain fuel' where f: "fuel = Suc fuel'" using assms(3) by (cases fuel) auto
  let ?t = "\<lparr>lastTimestamp = clock 0, uuidsThisTimestamp = 0, ts_reads = 1\<rparr>"
  have "currentUUIDTimestamp fuel clock initial_ticker = Some (clock 0, ?t)"
    using f assms(2) by (simp add: initial_ticker_def Let_def)
  with assms(3) Suc obtain ys where ys: "timestamps m fuel clock ?t = Some ys" "xs = clock 0 # ys"
    by (auto split: bind_splits)
  have "ticked clock ?t" by (simp add: ticked_def)
  from timestamps_sorted [OF assms(1) this ys(1)] ys(2) show ?thesis
    by (auto simp: last_given_def word_less_nat_alt)
qed (use assms in simp)

lemma timestamps_increase_witness:
  "timestamps 3 1 (\<lambda>i. if i < 2 then 5000 else 7000) initial_ticker = Some [5000, 5001, 7000] \<and>
     sorted_wrt (<) [5000, 5001, 7000 :: 64 word]"
proof
  let ?clock = "\<lambda>i :: nat. if i < 2 then 5000 else 7000 :: 64 word"
  show t: "timestamps 3 1 ?clock initial_ticker = Some [5000, 5001, 7000]" by code_simp
  have "coarse_clock ?clock" by (simp add: coarse_clock_def uuidsPerTimestamp_def)
  from timestamps_increase [OF this _ t] show "sorted_wrt (<) [5000, 5001, 7000 :: 64 word]" by simp
qed

text \<open>A finer clock gives the same timestamp twice.\<close>

lemma timestamps_repeat:
  "timestamps 3 1 (\<lambda>i. if i < 2 then 5000 else 5001) initial_ticker = Some [5000, 5001, 5001]"
  by code_simp

end
