(* ===== verification/AppSpec.thy ===== *)
theory AppSpec
  imports Application PassThrough AppDataSpec UuidSpec
begin

text \<open>
  The program refines an abstract store: every request is one step that leaves it as it is, adds or
  replaces a contact, registers, or stores an instance, and only with a valid token an own one.
  The guarantees about tokens, owners and signatures follow from the steps.
\<close>

subsection \<open>Collections\<close>

text \<open>The interface of a collection: what is found after a document was put.\<close>

locale collection =
  fixes put :: "'d \<Rightarrow> 'c \<Rightarrow> 'c" and get :: "string \<Rightarrow> 'c \<Rightarrow> 'd option" and key :: "'d \<Rightarrow> string"
  assumes get_put: "get k (put d c) = (if k = key d then Some d else get k c)"
begin

lemma contents_put: "(\<lambda>k. get k (put d c)) = (\<lambda>k. get k c)(key d \<mapsto> d)"
  by (auto simp: get_put)

lemma put_twice: "key d = key d' \<Longrightarrow> get k (put d (put d' c)) = get k (put d c)"
  by (simp add: get_put)

end

lemma find_key_simps [simp]:
  "find_key key k [] = None" "find_key key k (d # ds) = (if key d = k then Some d else find_key key k ds)"
  by (simp_all add: find_key_def)

interpretation documents: collection "upsert key" "find_key key" key for key :: "'d \<Rightarrow> string"
proof
  show "find_key key k (upsert key d c) = (if k = key d then Some d else find_key key k c)" for k d c
    by (induction key d c rule: upsert.induct) auto
qed

subsection \<open>The store\<close>

record store =
  st_self :: "Identity option"
  st_registered :: bool
  st_identities :: "string \<rightharpoonup> Identity"
  st_instances :: "string \<rightharpoonup> Instance"

definition no_database :: database where
  "no_database = \<lparr>col_identities = [], col_instances = [], col_settings = []\<rparr>"

definition the_db :: "app \<Rightarrow> database" where
  "the_db w = (case app_db w of None \<Rightarrow> no_database | Some d \<Rightarrow> d)"

definition store_of :: "app \<Rightarrow> store" where
  "store_of w =
     \<lparr>st_self = self (rt w), st_registered = (find_key kv_key ''hostname'' (col_settings (the_db w)) \<noteq> None),
      st_identities = (\<lambda>k. find_key identity_id k (col_identities (the_db w))),
      st_instances = (\<lambda>k. find_key instance_id k (col_instances (the_db w)))\<rparr>"

text \<open>\<open>flaky\<close> says that database calls may fail: the code takes any failure to find the setting for not being
  registered.  \<open>tok\<close> says that the request has a valid token.\<close>

inductive store_step :: "crypto_ops \<Rightarrow> bool \<Rightarrow> bool \<Rightarrow> store \<Rightarrow> store \<Rightarrow> bool" for ops flaky tok where
  stay: "store_step ops flaky tok s s"
| contact: "PrivateJwk i = None \<Longrightarrow> Passhash i = [] \<Longrightarrow>
    store_step ops flaky tok s (s\<lparr>st_identities := (st_identities s)(identity_id i \<mapsto> i)\<rparr>)"
| half_registered: "\<not> st_registered s \<or> flaky \<Longrightarrow>
    store_step ops flaky tok s (s\<lparr>st_identities := (st_identities s)(identity_id i \<mapsto> i)\<rparr>)"
| registered: "\<not> st_registered s \<or> flaky \<Longrightarrow>
    store_step ops flaky tok s
      (s\<lparr>st_identities := (st_identities s)(identity_id i \<mapsto> i), st_registered := True, st_self := Some i\<rparr>)"
| own_instance: "tok \<Longrightarrow> st_self s = Some me \<Longrightarrow> payload_owner (instance_payload i) = identity_id me \<Longrightarrow>
    Instance_Sign ops now i0 = Inr i \<Longrightarrow> instance_owner i = Some me \<Longrightarrow>
    store_step ops flaky tok s (s\<lparr>st_instances := (st_instances s)(instance_id i \<mapsto> i)\<rparr>)"
| foreign_instance: "st_self s = Some me \<Longrightarrow> payload_owner (instance_payload i) \<noteq> identity_id me \<Longrightarrow>
    Instance_Verify ops i = Inr True \<Longrightarrow> instance_id i = [] \<Longrightarrow>
    store_step ops flaky tok s (s\<lparr>st_instances := (st_instances s)([] \<mapsto> i)\<rparr>)"

inductive_cases store_stepE: "store_step ops flaky tok s s'"

lemma store_step_token: "store_step ops flaky tok s s' \<Longrightarrow> (tok \<Longrightarrow> tok') \<Longrightarrow> store_step ops flaky tok' s s'"
  by (induction rule: store_step.induct) (auto intro: store_step.intros)

lemma main_router: "\<exists>router. MakeRouter (main_routes rsa env) = Inr router"
proof -
  have "\<forall>p \<in> set [''/login'', ''/refresh_token'', ''/register'', ''/'', ''/instances'', ''/identities'', ''/settings'']. escapedPathExp p = Inr p"
    by code_simp
  then have e: "escapedPathExp ''/login'' = Inr ''/login''" "escapedPathExp ''/refresh_token'' = Inr ''/refresh_token''"
    "escapedPathExp ''/register'' = Inr ''/register''" "escapedPathExp ''/'' = Inr ''/''"
    "escapedPathExp ''/instances'' = Inr ''/instances''" "escapedPathExp ''/identities'' = Inr ''/identities''"
    "escapedPathExp ''/settings'' = Inr ''/settings''" by simp_all
  have u: "to_upper ''POST'' \<noteq> to_upper ''GET''" by code_simp
  have "\<exists>t. start_loop 0 (main_routes rsa env) (trie_New, Map.empty) = Inr t"
    using u by (simp add: main_routes_def Get_def Post_def e AddRoute_def trie_New_def empty_node_def or_fresh_def)
  moreover have "start \<lparr>Routes = main_routes rsa env, disableTrieCompression = False, index = Map.empty, trie = trie_New\<rparr> \<noteq> Inl CompressOutOfFuel"
    by (rule start_no_fuel_error)
  ultimately show ?thesis by (auto simp: MakeRouter_def start_def split: option.splits)
qed

subsection \<open>What the calls do to the store\<close>

lemma world_simps [simp]:
  "fst (world m c) = fst (m (World c))" "World (snd (world m c)) = snd (m (World c))"
  "Req (snd (world m c)) = Req c" "Out (snd (world m c)) = Out c" "Clock (snd (world m c)) = Clock c"
  "Stats (snd (world m c)) = Stats c"
  by (simp_all add: world_def split: prod.split)

lemma store_of_cong [simp]:
  "store_of (w\<lparr>db_calls := n\<rparr>) = store_of w" "store_of (w\<lparr>draws := n\<rparr>) = store_of w" "store_of (w\<lparr>keys_made := n\<rparr>) = store_of w"
  "store_of (w\<lparr>posts := p\<rparr>) = store_of w" "store_of (w\<lparr>broadcasts := b\<rparr>) = store_of w"
  by (simp_all add: store_of_def the_db_def)

lemma db_call_eq:
  "db_call env f w = (case app_db w of None \<Rightarrow> (Inl NilDereference, w)
     | Some d \<Rightarrow> (case db_error env (db_calls w) of Some e \<Rightarrow> (Inr (Inl e), w\<lparr>db_calls := Suc (db_calls w)\<rparr>)
       | None \<Rightarrow> (Inr (Inr (fst (f d))), w\<lparr>db_calls := Suc (db_calls w), app_db := Some (snd (f d))\<rparr>)))"
  by (simp add: db_call_def Let_def split: option.split prod.split)

lemma db_call_read:
  assumes "\<And>d. snd (f d) = d"
  shows "store_of (snd (db_call env f w)) = store_of w" "rt (snd (db_call env f w)) = rt w"
  by (auto simp: db_call_eq assms store_of_def the_db_def split: option.split)

lemma db_call_write:
  obtains "fst (db_call env f w) = Inl NilDereference" "snd (db_call env f w) = w"
  | e where "fst (db_call env f w) = Inr (Inl e)" "store_of (snd (db_call env f w)) = store_of w" "rt (snd (db_call env f w)) = rt w"
      "db_error env (db_calls w) = Some e"
  | d where "app_db w = Some d" "fst (db_call env f w) = Inr (Inr (fst (f d)))"
      "snd (db_call env f w) = w\<lparr>db_calls := Suc (db_calls w), app_db := Some (snd (f d))\<rparr>"
proof (cases "app_db w")
  case None
  then show thesis by (intro that(1)) (simp_all add: db_call_eq)
next
  case d: (Some d)
  show thesis
  proof (cases "db_error env (db_calls w)")
    case None
    with d show thesis by (intro that(3) [of d]) (simp_all add: db_call_eq)
  next
    case (Some e)
    with d show thesis by (intro that(2) [of e]) (simp_all add: db_call_eq)
  qed
qed


definition flaky :: "environment \<Rightarrow> bool" where
  "flaky env \<longleftrightarrow> (\<exists>n e. db_error env n = Some e)"

definition succeeds :: "('e + 'f + 'a) \<times> 'w \<Rightarrow> bool" where
  "succeeds r \<longleftrightarrow> (\<exists>x. fst r = Inr (Inr x))"

lemma upsert_identity_store:
  "store_of (snd (upsert_identity env i w)) = (if succeeds (upsert_identity env i w)
     then (store_of w)\<lparr>st_identities := (st_identities (store_of w))(identity_id i \<mapsto> i)\<rparr> else store_of w)"
  "rt (snd (upsert_identity env i w)) = rt w"
  unfolding upsert_identity_def
  by (auto simp: db_call_eq succeeds_def store_of_def the_db_def documents.contents_put split: option.split)

lemma upsert_instance_store:
  "store_of (snd (upsert_instance env i w)) = (if succeeds (upsert_instance env i w)
     then (store_of w)\<lparr>st_instances := (st_instances (store_of w))(instance_id i \<mapsto> i)\<rparr> else store_of w)"
  "rt (snd (upsert_instance env i w)) = rt w"
  unfolding upsert_instance_def
  by (auto simp: db_call_eq succeeds_def store_of_def the_db_def documents.contents_put split: option.split)

lemma upsert_setting_store:
  "store_of (snd (upsert_setting env kv w)) = (if succeeds (upsert_setting env kv w) \<and> kv_key kv = ''hostname''
     then (store_of w)\<lparr>st_registered := True\<rparr> else store_of w)"
  "rt (snd (upsert_setting env kv w)) = rt w"
  unfolding upsert_setting_def
  by (auto simp: db_call_eq succeeds_def store_of_def the_db_def documents.get_put split: option.split)

lemma find_setting_store:
  "store_of (snd (find_setting env k w)) = store_of w" "rt (snd (find_setting env k w)) = rt w"
  unfolding find_setting_def by (simp_all add: db_call_read)

lemma find_identity_store:
  "store_of (snd (find_identity env k w)) = store_of w" "rt (snd (find_identity env k w)) = rt w"
  unfolding find_identity_def by (simp_all add: db_call_read)

lemma store_set_self [simp]: "store_of (set_self i w) = (store_of w)\<lparr>st_self := Some i\<rparr>"
  by (simp add: store_of_def set_self_def the_db_def)

text \<open>Nothing that is sent touches the store.\<close>

lemma Send_store [simp]: "store_of (Identity_Send env i p w) = store_of w"
  by (simp add: Identity_Send_def http_post_def)

lemma push_one_store: "store_of (push_one env p k w) = store_of w"
  using find_identity_store [of env k w]
  by (auto simp: push_one_def split: prod.split sum.split option.split)

lemma Push_store [simp]: "store_of (Push env p w) = store_of w"
proof -
  have "store_of (fold (push_one env p) ks w) = store_of w" for ks
    by (induction ks arbitrary: w) (simp_all add: push_one_store)
  then show ?thesis by (simp add: Push_def)
qed

lemma announce_store: "store_of (World (snd (announce env p c))) = store_of (World c)"
  by (simp add: announce_def act_seq_eq Broadcast_def)

lemma read_identity_public: "read_identity r = Some i \<Longrightarrow> PrivateJwk i = None \<and> Passhash i = []"
  by (auto simp: read_identity_def decode_identity_def zero_identity_def Let_def bind_eq_Some_conv split: option.splits prod.splits if_splits)

lemma FetchIdentity_public: "FetchIdentity env uri w = (Some i, w') \<Longrightarrow> PrivateJwk i = None \<and> Passhash i = []"
  by (auto simp: FetchIdentity_def http_post_def decode_identity_def zero_identity_def Let_def bind_eq_Some_conv split: option.splits prod.splits if_splits)

lemma FetchIdentity_store: "FetchIdentity env uri w = (r, w') \<Longrightarrow> store_of w' = store_of w"
  by (auto simp: FetchIdentity_def http_post_def)

subsection \<open>Every handler is a step\<close>

definition steps :: "environment \<Rightarrow> app handler \<Rightarrow> bool" where
  "steps env h \<longleftrightarrow> (\<forall>c. store_step (signing env) (flaky env) (Env (Req c) ''REMOTE_USER'' \<noteq> None)
     (store_of (World c)) (store_of (World (snd (h c)))))"

lemma stepsI: "(\<And>c. store_step (signing env) (flaky env) (Env (Req c) ''REMOTE_USER'' \<noteq> None)
     (store_of (World c)) (store_of (World (snd (h c))))) \<Longrightarrow> steps env h"
  by (simp add: steps_def)

lemma steps_stay: "(\<And>c. store_of (World (snd (h c))) = store_of (World c)) \<Longrightarrow> steps env h"
  by (rule stepsI) (simp add: store_step.stay)

lemma write_self_World [simp]: "World (snd (write_self c)) = World c"
  by (simp add: write_self_def act_bind_eq)

lemma error_answers_World [simp]:
  "World (snd (clientError e c)) = World c" "World (snd (internal e c)) = World c" "World (snd (unauthorized c)) = World c"
  "World (snd (unprocessable c)) = World c"
  by (simp_all add: clientError_def internal_def unauthorized_def unprocessable_def)

lemma steps_Index: "steps env HandlePublicIndex"
  by (rule steps_stay) (simp add: HandlePublicIndex_def act_bind_eq split: option.split)

lemma steps_IndexPost: "steps env (HandlePublicIndexPost env)"
proof (rule stepsI)
  fix c :: "app conn"
  show "store_step (signing env) (flaky env) (Env (Req c) ''REMOTE_USER'' \<noteq> None)
     (store_of (World c)) (store_of (World (snd (HandlePublicIndexPost env c))))"
  proof (cases "read_identity (Req c)")
    case None
    then show ?thesis by (simp add: HandlePublicIndexPost_def act_bind_eq store_step.stay)
  next
    case (Some i)
    then have "store_of (World (snd (HandlePublicIndexPost env c))) = store_of (snd (upsert_identity env i (World c)))"
      by (auto simp: HandlePublicIndexPost_def act_bind_eq split: sum.split)
    with read_identity_public [OF Some] show ?thesis
      by (simp add: upsert_identity_store store_step.contact store_step.stay)
  qed
qed

lemma steps_reads:
  "steps env (HandleInstances env)" "steps env (HandleOwnIdentities env)" "steps env (HandleOwnSettings env)"
  by (rule steps_stay; auto simp: HandleInstances_def HandleOwnIdentities_def HandleOwnSettings_def act_bind_eq db_call_read
      split: sum.split)+


lemma steps_IdentitiesPost: "steps env (HandleOwnIdentitiesPost env)"
proof (rule stepsI)
  fix c :: "app conn"
  show "store_step (signing env) (flaky env) (Env (Req c) ''REMOTE_USER'' \<noteq> None)
     (store_of (World c)) (store_of (World (snd (HandleOwnIdentitiesPost env c))))"
  proof (cases "read_identity (Req c)")
    case None
    then show ?thesis by (simp add: HandleOwnIdentitiesPost_def act_eqs store_step.stay)
  next
    case (Some i)
    obtain r w where f: "FetchIdentity env (GetURI i) (World c) = (r, w)" by fastforce
    show ?thesis
    proof (cases "hostname i = [] \<or> r = None")
      case True
      with Some f FetchIdentity_store [OF f] show ?thesis
        by (auto simp: HandleOwnIdentitiesPost_def act_eqs store_step.stay)
    next
      case False
      then obtain i' where r: "r = Some i'" by auto
      with False Some f have "store_of (World (snd (HandleOwnIdentitiesPost env c))) = store_of (snd (upsert_identity env i' w))"
        by (auto simp: HandleOwnIdentitiesPost_def act_eqs split: sum.split)
      with FetchIdentity_public [of env "GetURI i" "World c" i' w] f r FetchIdentity_store [OF f] show ?thesis
        by (simp add: upsert_identity_store store_step.contact store_step.stay)
    qed
  qed
qed

lemma store_registration_step:
  assumes "\<not> st_registered (store_of (World c)) \<or> flaky env"
  shows "store_step (signing env) (flaky env) tok (store_of (World c)) (store_of (World (snd (store_registration env i c))))"
proof -
  let ?s1 = "(store_of (World c))\<lparr>st_identities := (st_identities (store_of (World c)))(identity_id i \<mapsto> i)\<rparr>"
  let ?kv = "\<lparr>kv_key = ''hostname'', kv_value = hostname i\<rparr>"
  let ?c1 = "snd (world (upsert_identity env i) c)"
  show ?thesis
  proof (cases "succeeds (upsert_identity env i (World c))")
    case False
    then have "store_of (World (snd (store_registration env i c))) = store_of (World c)"
      using upsert_identity_store [of env i "World c"]
      by (auto simp: store_registration_def act_eqs succeeds_def split: sum.split)
    then show ?thesis by (simp add: store_step.stay)
  next
    case ok: True
    then have c1: "store_of (World ?c1) = ?s1" by (simp add: upsert_identity_store)
    show ?thesis
    proof (cases "succeeds (upsert_setting env ?kv (World ?c1))")
      case False
      then have "store_of (World (snd (store_registration env i c))) = ?s1"
        using ok c1 upsert_setting_store [of env ?kv "World ?c1"]
        by (auto simp: store_registration_def act_eqs succeeds_def split: sum.split)
      then show ?thesis using assms by (simp add: store_step.half_registered)
    next
      case True
      then have "store_of (World (snd (store_registration env i c))) = ?s1\<lparr>st_registered := True, st_self := Some i\<rparr>"
        using ok c1 upsert_setting_store [of env ?kv "World ?c1"]
        by (auto simp: store_registration_def act_eqs succeeds_def split: sum.split)
      then show ?thesis
        using store_step.registered [OF assms, of "signing env" tok i] by simp
    qed
  qed
qed

lemma found_setting:
  "fst (find_setting env k w) = Inr (Inr (find_key kv_key k (col_settings (the_db w)))) \<or>
   (\<exists>e. fst (find_setting env k w) = Inr (Inl e)) \<and> flaky env \<or> fst (find_setting env k w) = Inl NilDereference"
  by (auto simp: find_setting_def db_call_eq the_db_def flaky_def split: option.split)

lemma steps_Register: "steps env (HandlePublicRegisterPost env)"
proof (rule stepsI)
  fix c :: "app conn"
  let ?found = "find_setting env ''hostname'' (World c)"
  let ?c1 = "snd (world (find_setting env ''hostname'') c)"
  have c1: "store_of (World ?c1) = store_of (World c)" by (simp add: find_setting_store)
  show "store_step (signing env) (flaky env) (Env (Req c) ''REMOTE_USER'' \<noteq> None)
     (store_of (World c)) (store_of (World (snd (HandlePublicRegisterPost env c))))"
  proof (cases "(\<exists>p. fst ?found = Inl p) \<or> (\<exists>kv. fst ?found = Inr (Inr (Some kv))) \<or> Option.bind (DecodeJsonPayload (Req c)) decode_setup = None")
    case True
    then have "store_of (World (snd (HandlePublicRegisterPost env c))) = store_of (World c)"
      using c1 by (auto simp: HandlePublicRegisterPost_def act_eqs split: sum.split option.split)
    then show ?thesis by (simp add: store_step.stay)
  next
    case False
    obtain pw f l where d: "Option.bind (DecodeJsonPayload (Req c)) decode_setup = Some (pw, f, l)" using False by fast
    obtain x where x: "fst ?found = Inr x" "\<And>kv. x \<noteq> Inr (Some kv)" using False by (cases "fst ?found") simp_all
    have free: "\<not> st_registered (store_of (World c)) \<or> flaky env"
      using found_setting [of env "''hostname''" "World c"] x
      by (cases "find_key kv_key ''hostname'' (col_settings (the_db (World c)))") (auto simp: store_of_def)
    let ?c2 = "snd (world (generate_key env) ?c1)"
    have c2: "store_of (World ?c2) = store_of (World c)" using c1 by (simp add: generate_key_def)
    obtain r i where init: "Identity_Init (new_key env (keys_made (World ?c1))) (new_registration (request_host (Req c)) pw f l) = (r, i)"
      by fastforce
    have "snd (HandlePublicRegisterPost env c) = ?c2 \<or>
        snd (HandlePublicRegisterPost env c) = snd (store_registration env i ?c2)"
      using x d init
      by (auto simp: HandlePublicRegisterPost_def act_eqs generate_key_def split: sum.splits option.splits failure.splits)
    then show ?thesis
    proof
      assume "snd (HandlePublicRegisterPost env c) = ?c2"
      then show ?thesis by (simp only: c2 store_step.stay)
    next
      assume e: "snd (HandlePublicRegisterPost env c) = snd (store_registration env i ?c2)"
      show ?thesis
        using store_registration_step [of ?c2 env] free unfolding e c2 by blast
    qed
  qed
qed

lemma new_uuid_store: "store_of (snd (new_uuid env w)) = store_of w" "rt (snd (new_uuid env w)) = rt w"
  by (simp_all add: new_uuid_def)

lemma time_now_World [simp]: "World (snd (time_now c)) = World c" "fst (time_now c) = Inr (Clock c (Ticks c))"
  by (simp_all add: time_now_def)

lemma post_own_step:
  "store_step (signing env) (flaky env) True (store_of (World c)) (store_of (World (snd (post_own env p c))))"
proof -
  let ?w = "snd (new_uuid env (World c))" and ?now = "time_text env (Clock c (Ticks c))"
  have w: "store_of ?w = store_of (World c)" by (rule new_uuid_store)
  show ?thesis
  proof (cases "fst (new_uuid env (World c))")
    case (Inl e)
    then have "store_of (World (snd (post_own env p c))) = store_of (World c)"
      using w by (simp add: post_own_def act_eqs)
    then show ?thesis by (simp add: store_step.stay)
  next
    case i: (Inr i)
    show ?thesis
    proof (cases "self (rt (World c))")
      case None
      with i w show ?thesis by (simp add: post_own_def act_eqs store_step.stay)
    next
      case me: (Some me)
      let ?c = "snd (time_now (snd (world (new_uuid env) c)))"
      let ?now = "time_text env (Clock (snd (world (new_uuid env) c)) (Ticks (snd (world (new_uuid env) c))))"
      let ?i0 = "\<lparr>instance_id = i, instance_owner = Some me, instance_payload = p\<lparr>payload_id := i, payload_owner := identity_id me\<rparr>\<rparr>"
      have c: "World ?c = ?w" by simp
      show ?thesis
      proof (cases "Instance_Sign (signing env) ?now ?i0")
        case (Inl e)
        with i me w show ?thesis by (cases e) (simp_all add: post_own_def act_eqs store_step.stay)
      next
        case s: (Inr inst)
        then have inst: "instance_owner inst = Some me" "payload_owner (instance_payload inst) = identity_id me" "instance_id inst = i"
          by (auto simp: Instance_Sign_def run_bind_eq_Inr_iff)
        have "store_of (World (snd (post_own env p c))) = store_of (snd (upsert_instance env inst ?w))"
          using i me s c announce_store by (simp add: post_own_def act_eqs split: sum.split)
        moreover have "st_self (store_of (World c)) = Some me" using me by (simp add: store_of_def)
        ultimately show ?thesis
          using store_step.own_instance [of True "store_of (World c)" me inst "signing env" ?now ?i0] s inst w
          by (simp add: upsert_instance_store store_step.stay)
      qed
    qed
  qed
qed

lemma post_foreign_step:
  "store_step (signing env) (flaky env) tok (store_of (World c)) (store_of (World (snd (post_foreign env p c))))"
proof (cases "self (rt (World c))")
  case None
  then show ?thesis by (simp add: post_foreign_def act_eqs store_step.stay)
next
  case me: (Some me)
  let ?i = "\<lparr>instance_id = [], instance_owner = None, instance_payload = p\<rparr>"
  show ?thesis
  proof (cases "payload_owner p \<noteq> identity_id me \<and> Instance_Verify (signing env) ?i = Inr True")
    case False
    then have "store_of (World (snd (post_foreign env p c))) = store_of (World c)"
      using me by (auto simp: post_foreign_def act_eqs Let_def split: sum.split failure.split)
    then show ?thesis by (simp add: store_step.stay)
  next
    case True
    then have "store_of (World (snd (post_foreign env p c))) = store_of (snd (upsert_instance env ?i (World c)))"
      using me announce_store by (auto simp: post_foreign_def act_eqs split: sum.split)
    moreover have "st_self (store_of (World c)) = Some me" using me by (simp add: store_of_def)
    ultimately show ?thesis
      using True store_step.foreign_instance [of "store_of (World c)" me ?i "signing env" "flaky env" tok]
      by (simp add: upsert_instance_store store_step.stay)
  qed
qed

lemma steps_InstancesPost: "steps env (HandleInstancesPost env)"
proof (rule stepsI)
  fix c :: "app conn"
  have "World (snd (HandleInstancesPost env c)) = World c \<or>
      (\<exists>p. HandleInstancesPost env c = (if Env (Req c) ''REMOTE_USER'' = None then post_foreign env p c else post_own env p c))"
    by (auto simp: HandleInstancesPost_def act_eqs Let_def split: option.split)
  then show "store_step (signing env) (flaky env) (Env (Req c) ''REMOTE_USER'' \<noteq> None)
     (store_of (World c)) (store_of (World (snd (HandleInstancesPost env c))))"
    using post_own_step [of env c] post_foreign_step [of env _ c] by (auto intro: store_step.stay)
qed

subsection \<open>Every request is a step\<close>

text \<open>A token that is valid at some reading of the request's clock.\<close>

definition admitted :: "rsa_ops \<Rightarrow> 's conn \<Rightarrow> bool" where
  "admitted rsa c \<longleftrightarrow> (\<exists>n t. token_of rsa ''foobar'' (Clock c n) (Req c) = Some t \<and> claim_str (Claims t) ''id'' \<noteq> None)"

lemma admitted_same: "same_request c c0 \<Longrightarrow> admitted rsa c0 = admitted rsa c"
  by (simp add: admitted_def same_request_def token_of_def bearer_def)

lemma jwt_ready_fields: "the_key jwt_ready = ''foobar''" "MaxRefresh jwt_ready = hour * 24"
  by (simp_all add: jwt_ready_def jwt_setup_def jwtMiddleware_def the_key_def hour_def second_def)

lemma optional_token:
  assumes "steps env h" "Env (Req c) ''REMOTE_USER'' = None"
  shows "store_step (signing env) (flaky env) (admitted rsa c) (store_of (World c))
    (store_of (World (snd (jwtMiddlewareOptionally rsa h c))))"
proof (cases "header_get (ReqHeader (Req c)) ''Authorization'' = []")
  case True
  then have e: "jwtMiddlewareOptionally rsa h c = h c" by (simp add: jwtMiddlewareOptionally_def IfMiddleware_def)
  have "store_step (signing env) (flaky env) (Env (Req c) ''REMOTE_USER'' \<noteq> None) (store_of (World c)) (store_of (World (snd (h c))))"
    using assms(1) unfolding steps_def by blast
  then show ?thesis unfolding e by (rule store_step_token) (simp add: assms(2))
next
  case False
  then have e: "jwtMiddlewareOptionally rsa h c = middlewareImpl rsa jwt_ready h c"
    by (simp add: jwtMiddlewareOptionally_def IfMiddleware_def)
  show ?thesis
    unfolding e
  proof (rule middlewareImpl_cases [where rsa = rsa and mw = jwt_ready and h = h and c = c])
    fix token userId authorized c'
    assume w: "World c' = World c" and t: "token_of rsa (the_key jwt_ready) (Clock c (Ticks c)) (Req c) = Some token"
      "claim_str (Claims token) ''id'' = Some userId" and m: "middlewareImpl rsa jwt_ready h c = h c'"
    have "admitted rsa c" unfolding admitted_def using t by (auto simp: jwt_ready_fields)
    moreover have "store_step (signing env) (flaky env) (Env (Req c') ''REMOTE_USER'' \<noteq> None) (store_of (World c'))
        (store_of (World (snd (h c'))))" using assms(1) unfolding steps_def by blast
    ultimately show "store_step (signing env) (flaky env) (admitted rsa c) (store_of (World c))
        (store_of (World (snd (middlewareImpl rsa jwt_ready h c))))"
      using w m by (simp add: store_step_token [where tok' = True])
  qed (simp_all add: store_step.stay)
qed


text \<open>A handler that takes a step with what the request is admitted to, before any user is set.\<close>

definition admitted_steps :: "rsa_ops \<Rightarrow> environment \<Rightarrow> app handler \<Rightarrow> bool" where
  "admitted_steps rsa env h \<longleftrightarrow> (\<forall>c. Env (Req c) ''REMOTE_USER'' = None \<longrightarrow>
     store_step (signing env) (flaky env) (admitted rsa c) (store_of (World c)) (store_of (World (snd (h c)))))"

lemma admitted_steps_plain: "steps env h \<Longrightarrow> admitted_steps rsa env h"
  unfolding admitted_steps_def
proof (intro allI impI)
  fix c :: "app conn" assume u: "Env (Req c) ''REMOTE_USER'' = None"
  assume "steps env h"
  then have "store_step (signing env) (flaky env) (Env (Req c) ''REMOTE_USER'' \<noteq> None) (store_of (World c)) (store_of (World (snd (h c))))"
    unfolding steps_def by blast
  then show "store_step (signing env) (flaky env) (admitted rsa c) (store_of (World c)) (store_of (World (snd (h c))))"
    by (rule store_step_token) (simp add: u)
qed

lemma admitted_steps_optional: "steps env h \<Longrightarrow> admitted_steps rsa env (jwtMiddlewareOptionally rsa h)"
  unfolding admitted_steps_def using optional_token by blast

lemma LoginHandler_World: "World (snd (LoginHandler rsa mw c)) = World c"
  by (auto simp: LoginHandler_def act_eqs split: option.split sum.split bool.split)

lemma RefreshHandler_World: "World (snd (RefreshHandler rsa mw c)) = World c"
proof -
  obtain c' where "parseToken rsa (the_key mw) c = (Inr (token_of rsa (the_key mw) (Clock c (Ticks c)) (Req c)), c')" "World c' = World c"
    using parseToken_eq by blast
  then show ?thesis
    by (auto simp: RefreshHandler_def act_eqs split: option.split)
qed

lemma route_steps: "list_all (\<lambda>r. admitted_steps rsa env (Func r)) (main_routes rsa env)"
proof -
  have stay: "steps env (LoginHandler rsa jwt_ready)" "steps env (RefreshHandler rsa jwt_ready)"
    by (rule steps_stay, simp add: LoginHandler_World RefreshHandler_World)+
  show ?thesis
    by (simp add: main_routes_def Get_def Post_def admitted_steps_plain admitted_steps_optional stay
        steps_Register steps_Index steps_IndexPost steps_InstancesPost steps_reads steps_IdentitiesPost)
qed

lemma admitted_steps_AppFunc:
  assumes "MakeRouter (main_routes rsa env) = Inr router"
  shows "admitted_steps rsa env (AppFunc router)"
  unfolding admitted_steps_def
proof (intro allI impI)
  fix c :: "app conn" assume u: "Env (Req c) ''REMOTE_USER'' = None"
  from assms show "store_step (signing env) (flaky env) (admitted rsa c) (store_of (World c)) (store_of (World (snd (AppFunc router c))))"
  proof (cases rule: AppFunc_cases [where c = c])
    case (1 i params)
    let ?c = "c\<lparr>Req := (Req c)\<lparr>PathParams := params\<rparr>\<rparr>"
    have "same_request c ?c" by (simp add: same_request_def)
    moreover have "admitted_steps rsa env (Func (main_routes rsa env ! i))" using 1(2) route_steps [of rsa env]
      by (simp add: list_all_iff)
    ultimately show ?thesis
      using 1(3) u admitted_same [of c ?c rsa] unfolding admitted_steps_def by (auto dest!: spec [of _ ?c])
  qed (simp_all add: NotFound_def store_step.stay)
qed

lemma admitted_steps_passes_on:
  assumes "passes_on h' h" "admitted_steps rsa env h"
  shows "admitted_steps rsa env h'"
  unfolding admitted_steps_def
proof (intro allI impI)
  fix c :: "app conn" assume u: "Env (Req c) ''REMOTE_USER'' = None"
  from assms(1) consider "World (snd (h' c)) = World c" | c0 where "same_request c c0" "World (snd (h' c)) = World (snd (h c0))"
    unfolding passes_on_def by blast
  then show "store_step (signing env) (flaky env) (admitted rsa c) (store_of (World c)) (store_of (World (snd (h' c))))"
  proof cases
    case 1
    then show ?thesis by (simp add: store_step.stay)
  next
    case 2
    with u have "Env (Req c0) ''REMOTE_USER'' = None" "World c0 = World c" by (simp_all add: same_request_def)
    with assms(2) 2 admitted_same [of c c0 rsa] show ?thesis unfolding admitted_steps_def by metis
  qed
qed

lemma main_stack_tame: "list_all tame [StatusMiddleware, AccessLogMiddleware render, TimerMiddleware, RecorderMiddleware,
    PoweredByMiddleware [], RecoverMiddleware trace False True, JsonIndentMiddleware [] [], ContentTypeCheckerMiddleware,
    Cors_MiddlewareFunc main_cors]"
  by (simp add: tame_Status tame_AccessLog tame_Timer tame_Recorder tame_PoweredBy tame_Recover tame_JsonIndent
      tame_ContentType tame_Cors)

lemma main_step_exists:
  "\<exists>h. main_handler rsa env render trace = Inr h \<and>
     (\<forall>c. store_step (signing env) (flaky env) (admitted rsa c) (store_of (World c)) (store_of (World (snd (h c)))))"
proof -
  obtain router where router: "MakeRouter (main_routes rsa env) = Inr router" using main_router by blast
  let ?ms = "[StatusMiddleware, AccessLogMiddleware render, TimerMiddleware, RecorderMiddleware,
    PoweredByMiddleware [], RecoverMiddleware trace False True, JsonIndentMiddleware [] [], ContentTypeCheckerMiddleware,
    Cors_MiddlewareFunc main_cors]"
  let ?w = "WrapMiddlewares ?ms (AppFunc router)"
  have h: "main_handler rsa env render trace = Inr (adapterFunc ?w)"
    by (simp add: main_handler_def router MakeHandler_def SetApp_def Use_def NewApi_def DefaultDevStack_def)
  have w: "admitted_steps rsa env ?w"
    by (rule admitted_steps_passes_on [OF tame_Wrap [OF main_stack_tame] admitted_steps_AppFunc [OF router]])
  have "store_step (signing env) (flaky env) (admitted rsa c) (store_of (World c)) (store_of (World (snd (adapterFunc ?w c))))" for c
  proof -
    let ?c = "c\<lparr>Req := (Req c)\<lparr>PathParams := Map.empty, Env := Map.empty\<rparr>,
        Out := ([], \<lparr>Conn = Conn (snd (Out c)), baseWroteHeader = False\<rparr>)\<rparr>"
    have "admitted rsa ?c = admitted rsa c" by (simp add: admitted_def token_of_def bearer_def)
    with w show ?thesis unfolding admitted_steps_def adapterFunc_def by (auto dest!: spec [of _ ?c])
  qed
  with h show ?thesis by blast
qed

lemma main_step:
  "main_handler rsa env render trace = Inr h \<Longrightarrow>
     store_step (signing env) (flaky env) (admitted rsa c) (store_of (World c)) (store_of (World (snd (h c))))"
  using main_step_exists [of rsa env render trace] by auto

text \<open>
  Property C1.  The program refines the abstract store.  The handler is always made, and serving any
  request, whatever is in it, whatever other hosts answer, however calls fail or panic, is one step of
  the store; the step may be one that needs a token only if the request carries a bearer token signed
  with the key and valid at a reading of the clock.
\<close>

theorem main_refines_store:
  "\<exists>h. main_handler rsa env render trace = Inr h \<and>
     (\<forall>c. store_step (signing env) (flaky env) (admitted rsa c) (store_of (World c)) (store_of (World (snd (h c)))))"
  by (rule main_step_exists)

end
