(* ===== verification/StackAnswers.thy ===== *)
theory StackAnswers
  imports MiddlewareSpec
begin

text \<open>
  What the development stack makes of the application it wraps: the application gets the request with
  the start time, a panic of it becomes an error 500 after what it wrote, and the log and the counters account
  for the response.
\<close>

subsection \<open>From the application to the connection\<close>

text \<open>The codes, the body and the log after the application returned, or panicked and was recovered.\<close>

definition final_codes :: "unit run \<Rightarrow> nat list \<Rightarrow> nat list" where
  "final_codes r cs = cs @ (case r of Inr _ \<Rightarrow> [] | Inl p \<Rightarrow> [500])"

definition final_body :: "(go_panic \<Rightarrow> string) \<Rightarrow> unit run \<Rightarrow> bytes \<Rightarrow> bytes" where
  "final_body trace r b = b @ (case r of Inr _ \<Rightarrow> [] | Inl p \<Rightarrow> Marshal (error_json (trace p)))"

definition final_log :: "(go_panic \<Rightarrow> string) \<Rightarrow> unit run \<Rightarrow> string list" where
  "final_log trace r = (case r of Inr _ \<Rightarrow> [] | Inl p \<Rightarrow> [trace p])"

text \<open>The writer of the application prints JSON with two spaces.\<close>

definition indented_body :: "wop list \<Rightarrow> bytes" where
  "indented_body ops = ops_body [JsonIndentLayer False [] ''  ''] ops"

text \<open>
  From \<open>c\<close> the application \<open>a\<close> was called once, on the same request and state with a fresh writer, of which it
  made the calls \<open>ops\<close>; \<open>c'\<close> has the state it left, and the codes \<open>cs\<close> and the body \<open>b\<close> are what it wrote, with the
  answer to a panic.
\<close>

definition passed_on :: "(go_panic \<Rightarrow> string) \<Rightarrow> 's handler \<Rightarrow> 's conn \<Rightarrow> 's conn \<Rightarrow> nat list \<Rightarrow> bytes \<Rightarrow> bool" where
  "passed_on trace a c c' cs b \<longleftrightarrow> (\<exists>c0 r c1 ops.
     World c0 = World c \<and> Req c0 = Req c \<and> LogLines c0 = LogLines c \<and> writer_ok [] [] (Out c0) \<and>
     a c0 = (r, c1) \<and> Out c1 = run_ops ops (Out c0) \<and>
     World c' = World c1 \<and> LogLines c' = LogLines c1 @ final_log trace r \<and>
     cs = final_codes r (op_codes False ops) \<and> b = final_body trace r (indented_body ops))"

lemma passed_on_cong:
  assumes "passed_on trace a c c' cs b" "World d = World c" "Req d = Req c" "LogLines d = LogLines c"
    "World d' = World c'" "LogLines d' = LogLines c'"
  shows "passed_on trace a d d' cs b"
  using assms unfolding passed_on_def by simp

definition plain_writer :: "writer \<Rightarrow> bool" where
  "plain_writer x \<longleftrightarrow> writer_ok [] [] x \<and> (\<forall>v. EncodeJson (fst x) v = Marshal v)"

definition carries :: "(go_panic \<Rightarrow> string) \<Rightarrow> 's handler \<Rightarrow> 's handler \<Rightarrow> bool" where
  "carries trace h a \<longleftrightarrow> answers h \<and> (\<forall>c. plain_writer (Out c) \<longrightarrow>
     (\<exists>cs b. writer_ok cs b (Out (snd (h c))) \<and> passed_on trace a c (snd (h c)) cs b))"

lemma carriesD:
  assumes "carries trace h a" "plain_writer (Out c)"
  obtains cs b c' where "h c = (Inr (), c')" "writer_ok cs b (Out c')" "passed_on trace a c c' cs b" "keeps_stack c c'"
    "list_all2 same_shape (fst (Out c')) (fst (Out c))"
proof -
  have w: "writer_ok [] [] (Out c)" using assms(2) by (simp add: plain_writer_def)
  with assms(1) have "fst (h c) = Inr ()" "keeps_stack c (snd (h c))" "list_all2 same_shape (fst (Out (snd (h c)))) (fst (Out c))"
    unfolding carries_def answers_def fresh_ok_def by blast+
  moreover from assms obtain cs b where "writer_ok cs b (Out (snd (h c)))" "passed_on trace a c (snd (h c)) cs b"
    unfolding carries_def by blast
  ultimately show thesis using that [of "snd (h c)" cs b] by (simp add: prod_eq_iff)
qed

lemma ops_body_layers:
  assumes "\<And>v. EncodeJson ls v = EncodeJson ls' v"
  shows "ops_body ls ops = ops_body ls' ops"
proof -
  have "op_body ls op = op_body ls' op" for op using assms by (cases op) simp_all
  then show ?thesis by (simp add: ops_body_def cong: map_cong)
qed

lemma carries_Recover:
  assumes "well_behaved a"
  shows "carries trace (RecoverMiddleware trace False True (JsonIndentMiddleware [] [] a)) a"
  unfolding carries_def
proof (intro conjI allI impI)
  show "answers (RecoverMiddleware trace False True (JsonIndentMiddleware [] [] a))"
    by (intro answers_Recover fresh_JsonIndent well_behaved_fresh assms)
  fix c :: "'a conn" assume w: "plain_writer (Out c)"
  let ?l = "JsonIndentLayer False [] ''  ''"
  have l: "layer_ok [] [] ?l" by (simp add: layer_ok_def)
  have wc: "writer_ok [] [] (Out c)" using w by (simp add: plain_writer_def)
  obtain r c1 where a: "a (push ?l c) = (r, c1)" by fastforce
  from assms a have "no_exit (fst (a (push ?l c))) \<and> keeps_stack (push ?l c) (snd (a (push ?l c))) \<and>
      (\<exists>ops. Out (snd (a (push ?l c))) = run_ops ops (Out (push ?l c)))"
    unfolding well_behaved_def by blast
  with a obtain ops where c1: "no_exit r" "Out c1 = run_ops ops (Out (push ?l c))" by auto
  have wp: "writer_ok [] [] (Out (push ?l c))" by (rule writer_ok_push [OF l wc])
  have "ops_body (fst (Out (push ?l c))) ops = indented_body ops"
    unfolding indented_body_def by (rule ops_body_layers) (simp add: push_def)
  with run_ops_ok [OF wp, of ops] have w1: "writer_ok (op_codes False ops) (indented_body ops) (Out c1)"
    "list_all2 same_shape (fst (Out c1)) (?l # fst (Out c))"
    by (simp_all add: c1(2)) (simp add: push_def)
  then obtain l' ls' where l': "fst (Out c1) = l' # ls'" "list_all2 same_shape ls' (fst (Out c))"
    by (auto simp: list_all2_Cons2)
  let ?c2 = "c1\<lparr>Out := (ls', snd (Out c1))\<rparr>"
  have I: "JsonIndentMiddleware [] [] a c = (r, ?c2)"
    using a l'(1) by (cases r) (simp_all add: JsonIndentMiddleware_def with_layer_def push_def Let_def)
  have w2: "writer_ok (op_codes False ops) (indented_body ops) (Out ?c2)"
    using w1(1) l'(1) by (simp add: writer_ok_def)
  have on: "passed_on trace a c c' (final_codes r (op_codes False ops)) (final_body trace r (indented_body ops))"
    if "World c' = World c1" "LogLines c' = LogLines c1 @ final_log trace r" for c'
    unfolding passed_on_def
    by (intro exI [of _ "push ?l c"] exI [of _ r] exI [of _ c1] exI [of _ ops])
      (simp add: a c1(2) that wp, simp add: push_def)
  let ?h = "RecoverMiddleware trace False True (JsonIndentMiddleware [] [] a)"
  show "\<exists>cs b. writer_ok cs b (Out (snd (?h c))) \<and> passed_on trace a c (snd (?h c)) cs b"
  proof (cases r)
    case (Inr u)
    then have "?h c = (Inr (), ?c2)" using I by (simp add: Recover_eq)
    with w2 on [of ?c2] Inr show ?thesis by (auto simp: final_codes_def final_body_def final_log_def)
  next
    case (Inl q)
    let ?c3 = "snd (recovered trace False True q ?c2)" and ?ops = "[OpWriteHeader 500, OpWriteJson (error_json (trace q))]"
    have R: "?h c = recovered trace False True q ?c2" using I Inl c1(1) by (simp add: Recover_eq)
    have "EncodeJson ls' v = Marshal v" for v
      using EncodeJson_shape [OF l'(2)] w by (simp add: plain_writer_def)
    then have "writer_ok (op_codes False ops @ [500]) (indented_body ops @ Marshal (error_json (trace q))) (run_ops ?ops (Out ?c2))"
      using run_ops_ok [OF w2, of ?ops] by (simp add: ops_body_def)
    then have "writer_ok (final_codes r (op_codes False ops)) (final_body trace r (indented_body ops)) (Out ?c3)"
      using recovered_simps(4) [of trace False True q ?c2] by (simp add: Inl final_codes_def final_body_def)
    moreover have "LogLines ?c3 = LogLines c1 @ final_log trace r"
      by (simp add: recovered_def act_seq_eq logError_def final_log_def Inl)
    ultimately show ?thesis using on [of ?c3] recovered_simps(3) [of trace False True q ?c2] R by auto
  qed
qed

lemma carries_PoweredBy:
  assumes "carries trace h a"
  shows "carries trace (PoweredByMiddleware x h) a"
proof -
  let ?op = "OpAddHeader ''X-Powered-By'' (if x \<noteq> [] then x else ''go-json-rest'')"
  have e: "PoweredByMiddleware x h c = h (snd (out_op ?op c))" for c
    by (simp add: PoweredByMiddleware_def act_seq_passes)
  have w: "plain_writer (Out (snd (out_op ?op c)))" if "plain_writer (Out c)" for c :: "'a conn"
    using that run_op_ok [of "[]" "[]" "Out c" ?op] by (cases "Out c") (simp add: plain_writer_def)
  show ?thesis
    unfolding carries_def
  proof (intro conjI allI impI)
    show "answers (PoweredByMiddleware x h)" using assms by (simp add: carries_def answers_PoweredBy)
    fix c :: "'a conn" assume "plain_writer (Out c)"
    with w [of c] assms obtain cs b where "writer_ok cs b (Out (snd (h (snd (out_op ?op c)))))"
      "passed_on trace a (snd (out_op ?op c)) (snd (h (snd (out_op ?op c)))) cs b" unfolding carries_def by blast
    then show "\<exists>cs b. writer_ok cs b (Out (snd (PoweredByMiddleware x h c))) \<and>
        passed_on trace a c (snd (PoweredByMiddleware x h c)) cs b"
      unfolding e using passed_on_cong by fastforce
  qed
qed

subsection \<open>The accounting\<close>

lemma Recorder_accounts:
  assumes "carries trace h a" "plain_writer (Out c)"
  obtains cs b c' where "RecorderMiddleware h c = (Inr (), c')" "writer_ok cs b (Out c')" "passed_on trace a c c' cs b"
    "accounted cs b (Req c')" "Stats c' = Stats c" "Clock c' = Clock c"
    "Env (Req c') ''START_TIME'' = Env (Req c) ''START_TIME''" "user_ok (Req c) \<Longrightarrow> user_ok (Req c')"
proof -
  let ?l = "RecorderLayer 0 False 0"
  let ?k = "\<lambda>l. act_seq (set_env ''STATUS_CODE'' (EnvInt (int (statusCode l))))
    (set_env ''BYTES_WRITTEN'' (EnvInt (int (bytesWritten l))))"
  have l: "layer_ok [] [] ?l" by (simp add: layer_ok_def)
  have wc: "writer_ok [] [] (Out c)" using assms(2) by (simp add: plain_writer_def)
  have "plain_writer (Out (push ?l c))"
    using writer_ok_push [OF l wc] assms(2) by (simp add: plain_writer_def push_def)
  from carriesD [OF assms(1) this] obtain cs b c1 where h: "h (push ?l c) = (Inr (), c1)" and
    c1: "writer_ok cs b (Out c1)" "passed_on trace a (push ?l c) c1 cs b" "keeps_stack (push ?l c) c1"
    "list_all2 same_shape (fst (Out c1)) (fst (Out (push ?l c)))" by metis
  from c1(4) obtain l' ls' where l': "fst (Out c1) = l' # ls'" "same_shape l' ?l" by (auto simp: push_def list_all2_Cons2)
  then obtain sc wh n where r: "l' = RecorderLayer sc wh n" by (cases l') auto
  have n: "sc = (if cs = [] then 0 else last cs)" "n = length b" and w: "writer_ok cs b (ls', snd (Out c1))"
    using c1(1) l'(1) r by (simp_all add: writer_ok_def layer_ok_def)
  let ?c1 = "c1\<lparr>Out := (ls', snd (Out c1))\<rparr>" and ?c' = "snd (?k l' (c1\<lparr>Out := (ls', snd (Out c1))\<rparr>))"
  have "RecorderMiddleware h c = ?k l' ?c1"
    using h l'(1) by (simp add: RecorderMiddleware_def with_layer_def push_def Let_def)
  then have "RecorderMiddleware h c = (Inr (), ?c')" by (simp add: act_seq_passes prod_eq_iff)
  moreover have "Out ?c' = Out ?c1" "Stats ?c' = Stats c1" "Clock ?c' = Clock c1" "World ?c' = World c1" "LogLines ?c' = LogLines c1"
    by (simp_all add: act_seq_passes)
  moreover have env: "Env (Req ?c') = (Env (Req c1))(''STATUS_CODE'' \<mapsto> EnvInt (int sc), ''BYTES_WRITTEN'' \<mapsto> EnvInt (int n))"
    by (simp add: act_seq_passes r)
  moreover have "user_ok (Req c1) \<Longrightarrow> user_ok (Req ?c')"
    unfolding user_ok_def env by (simp add: env_string_def)
  moreover have "passed_on trace a c ?c' cs b"
    by (rule passed_on_cong [OF c1(2)]) (simp_all add: push_def act_seq_passes)
  ultimately show thesis
    using that [of ?c' cs b] c1(3) w n by (simp add: accounted_def keeps_stack_def stack_keys_def push_def)
qed

text \<open>The request as the access log and the counters find it.\<close>

lemma Timer_accounts:
  assumes "carries trace h a" "plain_writer (Out c)"
  obtains cs b d c' where "TimerMiddleware (RecorderMiddleware h) c = (Inr (), c')" "writer_ok cs b (Out c')"
    "passed_on trace a (c\<lparr>Req := (Req c)\<lparr>Env := (Env (Req c))(''START_TIME'' \<mapsto> EnvTime (Clock c (Ticks c)))\<rparr>\<rparr>) c' cs b"
    "accounted cs b (Req c')" "Stats c' = Stats c" "Env (Req c') ''START_TIME'' = Some (EnvTime (Clock c (Ticks c)))"
    "Env (Req c') ''ELAPSED_TIME'' = Some (EnvDuration d)" "user_ok (Req c) \<Longrightarrow> user_ok (Req c')"
proof -
  let ?v = "EnvTime (Clock c (Ticks c))"
  let ?c2 = "snd (set_env ''START_TIME'' ?v (c\<lparr>Ticks := Suc (Ticks c)\<rparr>))"
  have "plain_writer (Out ?c2)" using assms(2) by simp
  from Recorder_accounts [OF assms(1) this] obtain cs b c3 where c3: "RecorderMiddleware h ?c2 = (Inr (), c3)"
    "writer_ok cs b (Out c3)" "passed_on trace a ?c2 c3 cs b" "accounted cs b (Req c3)"
    "Stats c3 = Stats ?c2" "Env (Req c3) ''START_TIME'' = Env (Req ?c2) ''START_TIME''"
    "user_ok (Req ?c2) \<Longrightarrow> user_ok (Req c3)" by metis
  let ?d = "Clock c3 (Ticks c3) - Clock c (Ticks c)"
  let ?c' = "snd (set_env ''ELAPSED_TIME'' (EnvDuration ?d) (c3\<lparr>Ticks := Suc (Ticks c3)\<rparr>))"
  have "TimerMiddleware (RecorderMiddleware h) c = (Inr (), ?c')"
    by (simp add: TimerMiddleware_def time_now_def act_bind_eq act_seq_passes c3(1) prod_eq_iff)
  moreover have "passed_on trace a (c\<lparr>Req := (Req c)\<lparr>Env := (Env (Req c))(''START_TIME'' \<mapsto> ?v)\<rparr>\<rparr>) ?c' cs b"
    by (rule passed_on_cong [OF c3(3)]) (simp_all add: set_env_def)
  moreover have "user_ok (Req c) \<Longrightarrow> user_ok (Req ?c')"
    using c3(7) by (simp add: user_ok_def env_string_def)
  ultimately show thesis
    using c3 by (intro that [of ?c' cs b ?d]) (simp_all add: accounted_def)
qed

lemma access_record_accounts:
  assumes "accounted cs b r" "Env r ''START_TIME'' = Some (EnvTime t)"
    "Env r ''ELAPSED_TIME'' = Some (EnvDuration d)" "user_ok r"
  shows "\<exists>u. makeAccessLogRecord r = Inr \<lparr>LogRemoteUser = u, LogStartTime = Some t,
    LogStatusCode = int (if cs = [] then 0 else last cs), LogResponseTime = Some d, LogBytesWritten = int (length b)\<rparr>"
proof -
  obtain u where "env_string (Env r) ''REMOTE_USER'' = Inr u" using assms(4) unfolding user_ok_def by blast
  with assms show ?thesis
    by (simp add: makeAccessLogRecord_def accounted_def env_time_def env_int_def env_duration_def)
qed

text \<open>The request that reaches the application.\<close>

definition entering :: "'s conn \<Rightarrow> 's conn" where
  "entering c = c\<lparr>Req := (Req c)\<lparr>PathParams := Map.empty, Env := [''START_TIME'' \<mapsto> EnvTime (Clock c (Ticks c))]\<rparr>\<rparr>"

lemma stack_answers:
  assumes "well_behaved h" "Status (Conn (snd (Out c))) = None" "RespBody (Conn (snd (Out c))) = []"
  shows "\<exists>c' c0 r c1 ops codes body u d.
    adapterFunc (WrapMiddlewares (StatusMiddleware # DefaultDevStack render trace) h) c = (Inr (), c') \<and>
    World c0 = World c \<and> Req c0 = Req (entering c) \<and> writer_ok [] [] (Out c0) \<and>
    ContentTypeCheckerMiddleware h c0 = (r, c1) \<and> Out c1 = run_ops ops (Out c0) \<and>
    codes = final_codes r (op_codes False ops) \<and> body = final_body trace r (indented_body ops) \<and>
    World c' = World c1 \<and> writer_ok codes body (Out c') \<and>
    LogLines c' = LogLines c1 @ final_log trace r @ [render (Req c') \<lparr>LogRemoteUser = u, LogStartTime = Some (Clock c (Ticks c)),
        LogStatusCode = int (if codes = [] then 0 else last codes), LogResponseTime = Some d, LogBytesWritten = int (length body)\<rparr>] \<and>
    Stats c' = (Stats c)\<lparr>responseCounts := (responseCounts (Stats c))
        ((if codes = [] then 0 else last codes) := responseCounts (Stats c) (if codes = [] then 0 else last codes) + 1),
      totalResponseTime := totalResponseTime (Stats c) + d\<rparr>"
proof -
  let ?a = "ContentTypeCheckerMiddleware h"
  let ?h = "PoweredByMiddleware [] (RecoverMiddleware trace False True (JsonIndentMiddleware [] [] ?a))"
  let ?c = "c\<lparr>Req := (Req c)\<lparr>PathParams := Map.empty, Env := Map.empty\<rparr>,
                Out := ([], \<lparr>Conn = Conn (snd (Out c)), baseWroteHeader = False\<rparr>)\<rparr>"
  have a: "carries trace ?h ?a"
    by (intro carries_PoweredBy carries_Recover well_behaved_ContentType assms)
  have w: "plain_writer (Out ?c)" using assms by (simp add: plain_writer_def writer_ok_def base_ok_def)
  from Timer_accounts [OF a w] obtain cs b d c1 where c1:
    "TimerMiddleware (RecorderMiddleware ?h) ?c = (Inr (), c1)" "writer_ok cs b (Out c1)"
    "passed_on trace ?a (?c\<lparr>Req := (Req ?c)\<lparr>Env := (Env (Req ?c))(''START_TIME'' \<mapsto> EnvTime (Clock ?c (Ticks ?c)))\<rparr>\<rparr>) c1 cs b"
    "accounted cs b (Req c1)" "Stats c1 = Stats ?c" "Env (Req c1) ''START_TIME'' = Some (EnvTime (Clock ?c (Ticks ?c)))"
    "Env (Req c1) ''ELAPSED_TIME'' = Some (EnvDuration d)" "user_ok (Req ?c) \<Longrightarrow> user_ok (Req c1)" by metis
  have "user_ok (Req ?c)" by (simp add: user_ok_def env_string_def)
  with access_record_accounts [OF c1(4,6,7)] c1(8) obtain u where
    rec: "makeAccessLogRecord (Req c1) = Inr \<lparr>LogRemoteUser = u, LogStartTime = Some (Clock ?c (Ticks ?c)),
      LogStatusCode = int (if cs = [] then 0 else last cs), LogResponseTime = Some d, LogBytesWritten = int (length b)\<rparr>"
    by blast
  let ?rec = "\<lparr>LogRemoteUser = u, LogStartTime = Some (Clock ?c (Ticks ?c)),
      LogStatusCode = int (if cs = [] then 0 else last cs), LogResponseTime = Some d, LogBytesWritten = int (length b)\<rparr>"
  let ?c2 = "c1\<lparr>LogLines := LogLines c1 @ [render (Req c1) ?rec]\<rparr>"
  have log: "AccessLogMiddleware render (TimerMiddleware (RecorderMiddleware ?h)) ?c = (Inr (), ?c2)"
    using c1(1) rec by (simp add: AccessLogMiddleware_def act_seq_passes)
  let ?sc = "if cs = [] then 0 else last cs"
  let ?c3 = "?c2\<lparr>Stats := (Stats c1)\<lparr>responseCounts := (responseCounts (Stats c1))(?sc := responseCounts (Stats c1) ?sc + 1),
      totalResponseTime := totalResponseTime (Stats c1) + d\<rparr>\<rparr>"
  have "StatusMiddleware (AccessLogMiddleware render (TimerMiddleware (RecorderMiddleware ?h))) ?c = (Inr (), ?c3)"
    unfolding StatusMiddleware_def using log c1(4,7) by (simp add: act_seq_passes accounted_def)
  then have S: "adapterFunc (WrapMiddlewares (StatusMiddleware # DefaultDevStack render trace) h) c = (Inr (), ?c3)"
    by (simp add: adapterFunc_def WrapMiddlewares_def DefaultDevStack_def)
  have e: "(?c\<lparr>Req := (Req ?c)\<lparr>Env := (Env (Req ?c))(''START_TIME'' \<mapsto> EnvTime (Clock ?c (Ticks ?c)))\<rparr>\<rparr>) =
      (entering c)\<lparr>Out := Out ?c\<rparr>" by (simp add: entering_def)
  from c1(3) obtain c0 r ca ops where p: "World c0 = World c" "Req c0 = Req (entering c)" "writer_ok [] [] (Out c0)"
    "?a c0 = (r, ca)" "Out ca = run_ops ops (Out c0)" "World c1 = World ca" "LogLines c1 = LogLines ca @ final_log trace r"
    "cs = final_codes r (op_codes False ops)" "b = final_body trace r (indented_body ops)"
    unfolding e passed_on_def by (auto simp: entering_def)
  have "Stats ?c3 = (Stats c)\<lparr>responseCounts := (responseCounts (Stats c))(?sc := responseCounts (Stats c) ?sc + 1),
      totalResponseTime := totalResponseTime (Stats c) + d\<rparr>" using c1(5) by simp
  moreover have "LogLines ?c3 = LogLines ca @ final_log trace r @ [render (Req ?c3) ?rec]" using p(7) by simp
  moreover have "World ?c3 = World ca" "writer_ok cs b (Out ?c3)" using p(6) c1(2) by simp_all
  ultimately show ?thesis
    using S p(1-5,8,9)
    by (intro exI [of _ ?c3] exI [of _ c0] exI [of _ r] exI [of _ ca] exI [of _ ops] exI [of _ cs] exI [of _ b] exI [of _ u] exI [of _ d])
      simp
qed

end
