(* ===== verification/AppAnswers.thy ===== *)
theory AppAnswers
  imports AppSpec StackAnswers
begin

text \<open>
  The program answers: its handlers use their writer only through its methods, may panic, but do not end
  the process, so that the stack turns every request into one response.
\<close>

definition quiet :: "('s conn, 'a) act \<Rightarrow> bool" where
  "quiet m \<longleftrightarrow> (\<forall>c. no_exit (fst (m c)) \<and> keeps_stack c (snd (m c)) \<and> Out (snd (m c)) = Out c)"

lemma well_behaved_bind:
  assumes "quiet m" "\<And>x. well_behaved (k x)"
  shows "well_behaved (act_bind m k)"
  unfolding well_behaved_def
proof
  fix c
  have m: "no_exit (fst (m c))" "keeps_stack c (snd (m c))" "Out (snd (m c)) = Out c"
    using assms(1) unfolding quiet_def by blast+
  show "no_exit (fst (act_bind m k c)) \<and> keeps_stack c (snd (act_bind m k c)) \<and>
      (\<exists>ops. Out (snd (act_bind m k c)) = run_ops ops (Out c))"
  proof (cases "fst (m c)")
    case (Inl p)
    with m show ?thesis by (auto simp: act_bind_eq no_exit_def intro: exI [of _ "[]"])
  next
    case (Inr x)
    from assms(2) [of x] obtain ops where "no_exit (fst (k x (snd (m c))))" "keeps_stack (snd (m c)) (snd (k x (snd (m c))))"
      "Out (snd (k x (snd (m c)))) = run_ops ops (Out (snd (m c)))" unfolding well_behaved_def by blast
    with m Inr keeps_stack_trans [OF m(2)] show ?thesis by (auto simp: act_bind_eq)
  qed
qed

lemma quiet_get: "quiet (act_get f)"
  by (simp add: quiet_def)

lemma quiet_time: "quiet time_now"
  by (simp add: quiet_def time_now_def keeps_stack_def)

lemma quiet_world: "(\<And>w. no_exit (fst (m w))) \<Longrightarrow> quiet (world m)"
  by (simp add: quiet_def keeps_stack_def)

lemma well_behaved_panic: "no_exit (Inl p :: unit run) \<Longrightarrow> well_behaved (act_panic p)"
  by (auto simp: well_behaved_def intro: exI [of _ "[]"])

lemma no_exit_panics [simp]:
  "no_exit (Inl NilDereference)" "no_exit (Inl TypeAssertion)" "no_exit (Inl (ExplicitPanic m))" "no_exit (Inl SliceOutOfRange)"
  by (simp_all add: no_exit_def)

lemma well_behaved_modify: "well_behaved (world (act_modify f))"
  unfolding well_behaved_def by (auto simp: keeps_stack_def intro: exI [of _ "[]"])

lemmas well_behaved_rules = well_behaved_bind well_behaved_seq well_behaved_out_op well_behaved_Error well_behaved_return
  well_behaved_modify quiet_get quiet_time quiet_world

lemma no_exit_db_call [simp]: "no_exit (fst (db_call env f w))"
  by (simp add: db_call_eq split: option.split)

lemma no_exit_calls [simp]:
  "no_exit (fst (upsert_identity env i w))" "no_exit (fst (upsert_instance env inst w))" "no_exit (fst (upsert_setting env kv w))"
  "no_exit (fst (find_setting env k w))" "no_exit (fst (find_identity env k w))" "no_exit (fst (generate_key env w))"
  by (simp_all add: upsert_identity_def upsert_instance_def upsert_setting_def find_setting_def find_identity_def generate_key_def)

lemma well_behaved_errors:
  "well_behaved (clientError e)" "well_behaved (internal e)" "well_behaved unauthorized" "well_behaved unprocessable"
  by (simp_all add: clientError_def internal_def unauthorized_def unprocessable_def well_behaved_Error)

lemma well_behaved_write_self: "well_behaved write_self"
  unfolding write_self_def by (intro well_behaved_rules)

lemma well_behaved_reads:
  "well_behaved (HandleInstances env)" "well_behaved (HandleOwnIdentities env)" "well_behaved (HandleOwnSettings env)"
  unfolding HandleInstances_def HandleOwnIdentities_def HandleOwnSettings_def
  by (auto intro!: well_behaved_rules well_behaved_errors split: sum.split)

lemma well_behaved_Index: "well_behaved HandlePublicIndex"
  unfolding HandlePublicIndex_def by (auto intro!: well_behaved_bind quiet_get well_behaved_write_self split: option.split)

lemma well_behaved_IndexPost: "well_behaved (HandlePublicIndexPost env)"
  unfolding HandlePublicIndexPost_def
  by (auto intro!: well_behaved_bind quiet_get quiet_world well_behaved_errors well_behaved_write_self split: option.split)

lemma well_behaved_IdentitiesPost: "well_behaved (HandleOwnIdentitiesPost env)"
  unfolding HandleOwnIdentitiesPost_def
  by (auto intro!: well_behaved_rules well_behaved_errors split: option.split sum.split prod.split)


subsection \<open>No library call ends the process\<close>

definition no_exit_result :: "'a result \<Rightarrow> bool" where
  "no_exit_result r \<longleftrightarrow> (\<forall>m. r \<noteq> Inl (Panics (ProcessExit m)))"

lemma no_exit_result_basic [inv_intros]:
  "no_exit_result (Inr x)" "no_exit_result (Inl (Fails e))" "no_exit_result (or_fail e y)" "no_exit_result (check b e)"
  "no_exit_result (Inl (Panics NilDereference))" "no_exit_result (Inl (Panics IndexOutOfRange))"
  "no_exit_result (Inl (Panics SliceOutOfRange))" "no_exit_result (Inl (Panics TypeAssertion))"
  by (auto simp: no_exit_result_def or_fail_def check_def split: option.split)

lemma no_exit_result_bind [inv_intros]:
  "no_exit_result m \<Longrightarrow> (\<And>x. no_exit_result (f x)) \<Longrightarrow> no_exit_result (run_bind m f)"
  by (auto simp: no_exit_result_def run_bind_eq_Inl_iff)

lemma no_exit_result_splits [inv_intros]:
  "no_exit_result a \<Longrightarrow> no_exit_result b \<Longrightarrow> no_exit_result (if c then a else b)"
  "(\<And>x y. no_exit_result (g x y)) \<Longrightarrow> no_exit_result (case p of (x, y) \<Rightarrow> g x y)"
  "no_exit_result n \<Longrightarrow> (\<And>x. no_exit_result (s x)) \<Longrightarrow> no_exit_result (case opt of None \<Rightarrow> n | Some x \<Rightarrow> s x)"
  by (auto split: prod.split option.split)

lemma no_exit_keys [inv_intros]:
  "no_exit_result (stringFromMap m key)" "no_exit_result (parseECCoordinate x c)" "no_exit_result (parseECPrivateParam x c)"
  "no_exit_result (parseRSAModulusParam x)" "no_exit_result (serializeRSAPublicExponentParam e)"
  "no_exit_result (parseRSAPublicExponentParam x)" "no_exit_result (curve_by_name x)" "no_exit_result (rsaSignatureAlgorithmByName x)"
  by (auto simp: stringFromMap_def parseECCoordinate_def parseECPrivateParam_def parseRSAModulusParam_def
      serializeRSAPublicExponentParam_def parseRSAPublicExponentParam_def curve_by_name_def rsaSignatureAlgorithmByName_def Let_def
      intro!: inv_intros split: option.split json.split)

lemma no_exit_param [inv_intros]: "no_exit_result (parseRSAPrivateKeyParamFromMap m key)" "no_exit_result (check_kid kid m)"
  unfolding parseRSAPrivateKeyParamFromMap_def check_kid_def by (auto intro!: inv_intros)

lemma no_exit_public [inv_intros]:
  "no_exit_result (rsaPublicKeyFromMap m)" "no_exit_result (ecPublicKeyFromMap m)" "no_exit_result (public_toMap k)"
  by (auto simp: rsaPublicKeyFromMap_def ecPublicKeyFromMap_def Let_def intro!: inv_intros)
    (cases k; auto simp: Let_def intro!: inv_intros)

lemma no_exit_UnmarshalPublic [inv_intros]: "no_exit_result (UnmarshalPublicKeyJWK b)"
  unfolding UnmarshalPublicKeyJWK_def by (auto intro!: inv_intros)

lemma no_exit_private [inv_intros]: "no_exit_result (other_primes vs)" "no_exit_result (rsaPrivateKeyFromMap m)" "no_exit_result (ecPrivateKeyFromMap m)"
proof -
  show o: "no_exit_result (other_primes vs)" for vs
    by (induction vs rule: other_primes.induct) (auto intro!: inv_intros split: json.split)
  show "no_exit_result (rsaPrivateKeyFromMap m)" "no_exit_result (ecPrivateKeyFromMap m)"
    unfolding rsaPrivateKeyFromMap_def ecPrivateKeyFromMap_def by (auto intro!: inv_intros o split: json.split)
qed

lemma no_exit_UnmarshalPrivate [inv_intros]: "no_exit_result (UnmarshalPrivateKeyJWK b)"
  unfolding UnmarshalPrivateKeyJWK_def by (auto intro!: inv_intros)

lemma no_exit_toMap [inv_intros]: "no_exit_result (oth_infos rs crt)" "no_exit_result (private_toMap k)"
proof -
  show o: "no_exit_result (oth_infos rs crt)" for rs crt
    by (induction rs crt rule: oth_infos.induct) (auto intro!: inv_intros)
  show "no_exit_result (private_toMap k)"
    by (cases k) (auto simp: Let_def intro!: inv_intros o split: list.split)
qed

lemma no_exit_signing [inv_intros]:
  "no_exit_result (private_Sign ops k b h)" "no_exit_result (public_Verify ops pk b alg sig)" "no_exit_result (signature_key ops hd')"
proof -
  show "no_exit_result (private_Sign ops k b h)" by (cases k) (auto simp: Let_def intro!: inv_intros)
  show "no_exit_result (public_Verify ops pk b alg sig)" by (cases pk) (auto simp: Let_def intro!: inv_intros)
  show "no_exit_result (signature_key ops hd')" by (auto simp: signature_key_def intro!: inv_intros split: list.split)
qed

lemma no_exit_verify [inv_intros]: "no_exit_result (verify_signatures ops js sigs)"
  by (induction sigs) (auto intro!: inv_intros)

lemma no_exit_parse_signature [inv_intros]: "no_exit_result (parse_signature p)"
  unfolding parse_signature_def by (auto intro!: inv_intros)

lemma no_exit_pretty [inv_intros]: "no_exit_result (pretty_blocks ps fl ft)"
  by (induction ps fl ft rule: pretty_blocks.induct) (auto intro!: inv_intros)

lemma no_exit_Verify: "no_exit_result (Instance_Verify ops i)"
  unfolding Instance_Verify_def GetProperJWS_def ParsePrettySignature_def js_Verify_def Let_def
  by (auto intro!: inv_intros)

lemma no_exit_docs [inv_intros]: "no_exit_result (unmarshal_signature_docs ds)" "no_exit_result (signatures_json sigs)"
  "no_exit_result (sort_signatures sigs)"
proof -
  show "no_exit_result (unmarshal_signature_docs ds)" by (induction ds) (auto intro!: inv_intros)
  have "no_exit_result (signature_json s)" for s
    unfolding signature_json_def header_json_def by (auto intro!: inv_intros)
  then show "no_exit_result (signatures_json sigs)" by (induction sigs) (auto intro!: inv_intros)
  show "no_exit_result (sort_signatures sigs)" unfolding sort_signatures_def by (auto intro!: inv_intros)
qed

lemma no_exit_Sign: "no_exit_result (Instance_Sign ops now i)"
  unfolding Instance_Sign_def NewJSONSignature_def js_Sign_def js_JWS_def decode_jws_def GetPrivateKey_def Let_def
  by (auto intro!: inv_intros)

lemma no_exit_transfer: "no_exit_result r \<Longrightarrow> r = Inl e \<Longrightarrow> no_exit_result (Inl e :: 'b result)"
  by (simp add: no_exit_result_def)

lemma no_exit_Init: "no_exit_result (fst (Identity_Init g s))"
proof -
  have k: "no_exit_result (key_indented (private_MarshalJSON k) ind)" "no_exit_result (key_indented (public_MarshalJSON pk) ind)" for k pk ind
    unfolding key_indented_def private_MarshalJSON_def public_MarshalJSON_def by (auto intro!: inv_intros)
  have t: "no_exit_result (makeThumbprint k)" for k
    unfolding makeThumbprint_def Let_def by (auto intro!: inv_intros k split: json.split)
  show ?thesis
    by (auto simp: Identity_Init_def Let_def intro: inv_intros no_exit_transfer [OF k(1)] no_exit_transfer [OF k(2)]
        no_exit_transfer [OF t] split: option.split sum.split prod.split)
qed


subsection \<open>The remaining handlers\<close>

lemma well_behaved_result_panic: "no_exit_result r \<Longrightarrow> r = Inl (Panics p) \<Longrightarrow> well_behaved (act_panic p)"
  by (rule well_behaved_panic) (simp add: no_exit_result_def no_exit_def)

lemma no_exit_panic_of: "no_exit_result r \<Longrightarrow> r = Inl (Panics p) \<Longrightarrow> no_exit (Inl p :: unit run)"
  by (simp add: no_exit_result_def no_exit_def)

lemmas library_panics = no_exit_panic_of [OF no_exit_Sign] no_exit_panic_of [OF no_exit_Verify]

lemma well_behaved_announce: "well_behaved (announce env p)"
  unfolding announce_def by (intro well_behaved_rules)

lemma no_exit_uuid: "no_exit (fst (new_uuid env w))"
  by (auto simp: new_uuid_def NewV4_def Formatter_def formatter_def Let_def split: option.split)

lemma well_behaved_post_own: "well_behaved (post_own env p)"
proof -
  have s: "well_behaved (case Instance_Sign ops now i of Inl (Panics p) \<Rightarrow> act_panic p
      | Inl (Fails e) \<Rightarrow> clientError (error_text env e)
      | Inr inst \<Rightarrow> act_bind (world (upsert_instance env inst)) (\<lambda>r. case r of Inl e \<Rightarrow> clientError e
          | Inr _ \<Rightarrow> announce env (instance_payload inst)))" for ops now i
    by (auto intro!: well_behaved_bind quiet_world well_behaved_errors well_behaved_announce
        well_behaved_result_panic [OF no_exit_Sign] split: sum.split failure.split)
  show ?thesis
    unfolding post_own_def
    by (auto intro!: well_behaved_bind quiet_get quiet_world quiet_time no_exit_uuid well_behaved_panic s split: option.split)
qed

lemma well_behaved_post_foreign: "well_behaved (post_foreign env p)"
  unfolding post_foreign_def Let_def
  by (auto intro!: well_behaved_bind quiet_get quiet_world well_behaved_errors well_behaved_announce well_behaved_panic
      dest: library_panics split: option.split sum.split failure.split bool.split)

lemma well_behaved_InstancesPost: "well_behaved (HandleInstancesPost env)"
  unfolding HandleInstancesPost_def Let_def
  by (auto intro!: well_behaved_bind quiet_get well_behaved_panic well_behaved_post_own well_behaved_post_foreign split: option.split)

lemma well_behaved_Register: "well_behaved (HandlePublicRegisterPost env)"
proof -
  have st: "well_behaved (store_registration env i)" for i
    unfolding store_registration_def
    by (auto intro!: well_behaved_rules well_behaved_errors split: sum.split)
  have i: "well_behaved (case Identity_Init g s of (Inl (Panics p), identity) \<Rightarrow> act_panic p
      | (_, identity) \<Rightarrow> store_registration env identity)" for g s
    using no_exit_Init [of g s]
    by (auto intro!: st well_behaved_result_panic split: prod.split sum.split failure.split)
  show ?thesis
    unfolding HandlePublicRegisterPost_def
    by (auto intro!: well_behaved_bind quiet_get quiet_world well_behaved_errors i split: option.split sum.split prod.split)
qed

lemma well_behaved_unauthorized: "well_behaved (jwt_unauthorized mw)"
  unfolding jwt_unauthorized_def by (intro well_behaved_rules)

lemma well_behaved_issue: "well_behaved (issue rsa mw claims)"
  by (auto simp: issue_def token_New_def SignedString_def intro!: well_behaved_rules well_behaved_unauthorized well_behaved_panic
      split: option.split sum.split)

lemma well_behaved_Login: "well_behaved (LoginHandler rsa jwt_ready)"
proof (rule well_behaved_pointwise)
  fix c :: "app conn"
  have a: "Authenticator jwt_ready = Some authenticate"
    by (simp add: jwt_ready_def jwt_setup_def jwtMiddleware_def hour_def second_def)
  have p: "no_exit (authenticate w u pw)" for w u pw by (simp add: authenticate_def split: option.split)
  have i: "well_behaved (act_bind time_now (\<lambda>now.
      (if MaxRefresh mw \<noteq> 0 then act_bind time_now (\<lambda>now'. issue rsa mw (f now now')) else issue rsa mw (f now now))))"
    for f and mw :: "app JWTMiddleware"
    by (auto intro!: well_behaved_bind quiet_time well_behaved_issue)
  show "\<exists>h'. well_behaved h' \<and> LoginHandler rsa jwt_ready c = h' c"
  proof (cases "Option.bind (DecodeJsonPayload (Req c)) decode_login")
    case None
    then show ?thesis using well_behaved_unauthorized [of jwt_ready] by (auto simp: LoginHandler_def)
  next
    case (Some up)
    obtain u pw where up: "up = (u, pw)" by (cases up)
    consider q where "authenticate (World c) u pw = Inl q" | "authenticate (World c) u pw = Inr False"
      | "authenticate (World c) u pw = Inr True" by (cases "authenticate (World c) u pw") auto
    then show ?thesis
    proof cases
      case 1
      then have "well_behaved (act_panic q :: app handler)"
        using p [of "World c" u pw] by (intro well_behaved_panic) (simp add: no_exit_def)
      then show ?thesis using 1 Some up a by (auto simp: LoginHandler_def)
    next
      case 2
      then show ?thesis using Some up a well_behaved_unauthorized [of jwt_ready] by (auto simp: LoginHandler_def)
    next
      case 3
      then show ?thesis using Some up a i [of jwt_ready "login_claims jwt_ready u"]
        by (auto simp: LoginHandler_def simp del: One_nat_def)
    qed
  qed
qed

lemma quiet_parseToken: "quiet (parseToken rsa key)"
  by (auto simp: quiet_def parseToken_def act_bind_eq time_now_def keeps_stack_def split: option.split)

lemma well_behaved_Refresh: "well_behaved (RefreshHandler rsa mw)"
  unfolding RefreshHandler_def
  by (auto intro!: well_behaved_bind quiet_parseToken quiet_time well_behaved_unauthorized well_behaved_issue well_behaved_panic
      split: option.split)

lemma well_behaved_set_user: "well_behaved (set_env ''REMOTE_USER'' (EnvString u))"
  by (auto simp: well_behaved_def keeps_stack_def stack_keys_def user_ok_def env_string_def intro: exI [of _ "[]"])

lemma well_behaved_set_payload: "well_behaved (set_env ''JWT_PAYLOAD'' v)"
  by (auto simp: well_behaved_def keeps_stack_def stack_keys_def user_ok_def env_string_def intro: exI [of _ "[]"])

lemma well_behaved_jwt:
  assumes "well_behaved h"
  shows "well_behaved (middlewareImpl rsa mw h)"
proof -
  have "well_behaved (\<lambda>c. if \<not> authorized user (Req c) then jwt_unauthorized mw c
      else act_seq (set_env ''REMOTE_USER'' (EnvString user)) (act_seq (set_env ''JWT_PAYLOAD'' v) h) c)" for authorized user v
    by (intro well_behaved_if well_behaved_unauthorized well_behaved_seq well_behaved_set_user well_behaved_set_payload assms)
  then show ?thesis
    unfolding middlewareImpl_def
    by (auto intro!: well_behaved_bind quiet_parseToken well_behaved_unauthorized well_behaved_panic split: option.split)
qed

lemma well_behaved_optional: "well_behaved h \<Longrightarrow> well_behaved (jwtMiddlewareOptionally rsa h)"
  unfolding jwtMiddlewareOptionally_def IfMiddleware_def Let_def
  by (simp only: option.case, intro well_behaved_if well_behaved_jwt)

lemma routes_well_behaved: "list_all (\<lambda>r. well_behaved (Func r)) (main_routes rsa env)"
  by (simp add: main_routes_def Get_def Post_def well_behaved_Login well_behaved_Refresh well_behaved_Register
      well_behaved_optional well_behaved_Index well_behaved_IndexPost well_behaved_InstancesPost well_behaved_reads
      well_behaved_IdentitiesPost)

subsection \<open>Every handler writes an answer\<close>

text \<open>A handler that does not panic has written a status or a body.\<close>

definition speaks :: "'s handler \<Rightarrow> bool" where
  "speaks h \<longleftrightarrow> (\<forall>c. fst (h c) = Inr () \<longrightarrow> (\<exists>ops. Out (snd (h c)) = run_ops ops (Out c) \<and> op_codes False ops \<noteq> []))"

lemma op_codes_append: "op_codes w (ops @ ops') = op_codes w ops @ op_codes (w \<or> op_codes w ops \<noteq> []) ops'"
proof (induction ops arbitrary: w)
  case (Cons op ops)
  then show ?case by (cases op; cases w) simp_all
qed simp

lemma speaks_out_op: "op_codes False [op] \<noteq> [] \<Longrightarrow> speaks (out_op op)"
  unfolding speaks_def by (auto intro!: exI [of _ "[op]"] simp: run_ops_def)

lemma speaks_writes [intro]: "speaks (write_json v)" "speaks (write_header code)"
  by (rule speaks_out_op, simp)+

lemma speaks_Error [intro]: "speaks (Error msg code)"
  unfolding speaks_def by (auto intro!: exI)

lemma speaks_panic [intro]: "speaks (act_panic p)"
  by (simp add: speaks_def)

lemma speaks_first:
  assumes "speaks m" "well_behaved h"
  shows "speaks (act_seq m h)"
  unfolding speaks_def
proof (intro allI impI)
  fix c assume r: "fst (act_seq m h c) = Inr ()"
  then have "fst (m c) = Inr ()" by (auto simp: act_seq_eq split: sum.splits)
  with assms(1) obtain ops where ops: "Out (snd (m c)) = run_ops ops (Out c)" "op_codes False ops \<noteq> []"
    unfolding speaks_def by blast
  from assms(2) obtain ops' where "Out (snd (h (snd (m c)))) = run_ops ops' (Out (snd (m c)))"
    unfolding well_behaved_def by blast
  with ops \<open>fst (m c) = Inr ()\<close> show "\<exists>ops. Out (snd (act_seq m h c)) = run_ops ops (Out c) \<and> op_codes False ops \<noteq> []"
    by (intro exI [of _ "ops @ ops'"]) (simp add: act_seq_eq run_ops_append op_codes_append)
qed

lemma speaks_then:
  assumes "well_behaved m" "speaks h"
  shows "speaks (act_seq m h)"
  unfolding speaks_def
proof (intro allI impI)
  fix c assume "fst (act_seq m h c) = Inr ()"
  then have r: "fst (m c) = Inr ()" "fst (h (snd (m c))) = Inr ()" by (auto simp: act_seq_eq split: sum.splits)
  from assms(1) obtain ops where ops: "Out (snd (m c)) = run_ops ops (Out c)" unfolding well_behaved_def by blast
  from assms(2) r(2) obtain ops' where ops': "Out (snd (h (snd (m c)))) = run_ops ops' (Out (snd (m c)))" "op_codes False ops' \<noteq> []"
    unfolding speaks_def by blast
  have "op_codes False (ops @ ops') \<noteq> []" using ops'(2) by (cases "op_codes False ops = []") (simp_all add: op_codes_append)
  with ops ops' r show "\<exists>ops. Out (snd (act_seq m h c)) = run_ops ops (Out c) \<and> op_codes False ops \<noteq> []"
    by (intro exI [of _ "ops @ ops'"]) (simp add: act_seq_eq run_ops_append)
qed

lemma speaks_bind:
  assumes "quiet m" "\<And>x. speaks (k x)"
  shows "speaks (act_bind m k)"
  unfolding speaks_def
proof (intro allI impI)
  fix c assume r: "fst (act_bind m k c) = Inr ()"
  then obtain x where x: "fst (m c) = Inr x" "fst (k x (snd (m c))) = Inr ()" by (auto simp: act_bind_eq split: sum.splits)
  have o: "Out (snd (m c)) = Out c" using assms(1) unfolding quiet_def by blast
  from assms(2) x(2) obtain ops where "Out (snd (k x (snd (m c)))) = run_ops ops (Out (snd (m c)))" "op_codes False ops \<noteq> []"
    unfolding speaks_def by blast
  with x o show "\<exists>ops. Out (snd (act_bind m k c)) = run_ops ops (Out c) \<and> op_codes False ops \<noteq> []"
    by (auto simp: act_bind_eq)
qed

lemma speaks_pointwise:
  assumes "\<And>c. \<exists>h'. speaks h' \<and> h c = h' c"
  shows "speaks h"
  unfolding speaks_def
proof
  fix c
  from assms obtain h' where "speaks h'" "h c = h' c" by blast
  then show "fst (h c) = Inr () \<longrightarrow> (\<exists>ops. Out (snd (h c)) = run_ops ops (Out c) \<and> op_codes False ops \<noteq> [])"
    unfolding speaks_def by simp
qed

lemma speaks_if: "speaks h \<Longrightarrow> speaks h' \<Longrightarrow> speaks (\<lambda>c. if P c then h c else h' c)"
  by (simp add: speaks_def)

lemma speaks_params: "speaks h \<Longrightarrow> speaks (\<lambda>c. h (c\<lparr>Req := (Req c)\<lparr>PathParams := params\<rparr>\<rparr>))"
  unfolding speaks_def
proof (intro allI impI)
  fix c :: "'a conn"
  let ?c = "c\<lparr>Req := (Req c)\<lparr>PathParams := params\<rparr>\<rparr>"
  assume "\<forall>c. fst (h c) = Inr () \<longrightarrow> (\<exists>ops. Out (snd (h c)) = run_ops ops (Out c) \<and> op_codes False ops \<noteq> [])" "fst (h ?c) = Inr ()"
  then have "\<exists>ops. Out (snd (h ?c)) = run_ops ops (Out ?c) \<and> op_codes False ops \<noteq> []" by blast
  then show "\<exists>ops. Out (snd (h ?c)) = run_ops ops (Out c) \<and> op_codes False ops \<noteq> []" by simp
qed

lemma speaks_AppFunc:
  assumes "MakeRouter routes = Inr router" "\<And>r. r \<in> set routes \<Longrightarrow> speaks (Func r)"
  shows "speaks (AppFunc router)"
proof (rule speaks_pointwise)
  fix c
  from assms(1) show "\<exists>h'. speaks h' \<and> AppFunc router c = h' c"
  proof (cases rule: AppFunc_cases [where c = c])
    case (1 i params)
    then have "speaks (\<lambda>c. Func (routes ! i) (c\<lparr>Req := (Req c)\<lparr>PathParams := params\<rparr>\<rparr>))"
      by (intro speaks_params assms(2)) simp
    with 1 show ?thesis by blast
  qed (auto simp: NotFound_def)
qed

lemma speaks_ContentType:
  assumes "speaks h"
  shows "speaks (ContentTypeCheckerMiddleware h)"
proof (rule speaks_pointwise)
  fix c :: "'a conn"
  consider msg where "ContentTypeCheckerMiddleware h c = Error msg 415 c" | "ContentTypeCheckerMiddleware h c = h c"
    by (fastforce simp: ContentTypeCheckerMiddleware_def Let_def split: prod.splits if_splits)
  then show "\<exists>h'. speaks h' \<and> ContentTypeCheckerMiddleware h c = h' c"
    using assms by cases blast+
qed

lemma well_behaved_option: "well_behaved (if b then set_header k v else act_return ())"
  by (simp add: well_behaved_out_op well_behaved_return)

lemma speaks_preflight: "speaks (cors_preflight mw i)"
  unfolding cors_preflight_def
  by (auto intro!: speaks_then well_behaved_out_op well_behaved_return)

lemma speaks_actual: "speaks h \<Longrightarrow> speaks (cors_actual mw i h)"
  unfolding cors_actual_def
  by (intro speaks_then well_behaved_fold well_behaved_out_op well_behaved_return well_behaved_option)

lemma speaks_Cors:
  assumes "speaks h"
  shows "speaks (Cors_MiddlewareFunc mw h)"
proof (rule speaks_pointwise)
  fix c :: "'a conn"
  let ?i = "GetCorsInfo (Req c)"
  consider msg where "Cors_MiddlewareFunc mw h c = Error msg 403 c" | "Cors_MiddlewareFunc mw h c = h c"
    | "Cors_MiddlewareFunc mw h c = cors_preflight mw ?i c" | "Cors_MiddlewareFunc mw h c = cors_actual mw ?i h c"
    by (cases "IsCors ?i"; cases "RejectNonCorsRequests mw"; cases "OriginValidator mw (Origin ?i) (Req c)";
        cases "IsPreflight ?i"; simp add: Cors_MiddlewareFunc_def Let_def)
  then show "\<exists>h'. speaks h' \<and> Cors_MiddlewareFunc mw h c = h' c"
    using assms speaks_preflight speaks_actual by cases blast+
qed

lemma speaks_codes:
  assumes "speaks h" "h c = (Inr (), c')" "writer_ok [] [] (Out c)" "writer_ok cs b (Out c')"
  shows "cs \<noteq> []"
proof -
  from assms(1) have "fst (h c) = Inr () \<longrightarrow> (\<exists>ops. Out (snd (h c)) = run_ops ops (Out c) \<and> op_codes False ops \<noteq> [])"
    unfolding speaks_def by blast
  with assms(2) obtain ops where "Out c' = run_ops ops (Out c)" "op_codes False ops \<noteq> []" by auto
  with run_ops_ok [OF assms(3), of ops] have "Status (Conn (snd (Out c'))) \<noteq> None" by (auto simp: writer_ok_def base_ok_def)
  with assms(4) show ?thesis by (auto simp: writer_ok_def base_ok_def)
qed

subsection \<open>The handlers of the program\<close>

lemma speaks_errors [intro]:
  "speaks (clientError e)" "speaks (internal e)" "speaks unauthorized" "speaks unprocessable"
  by (simp_all add: clientError_def internal_def unauthorized_def unprocessable_def speaks_Error)

lemma speaks_write_self [intro]: "speaks write_self"
  unfolding write_self_def by (intro speaks_bind quiet_get speaks_writes)

lemma speaks_announce [intro]: "speaks (announce env p)"
  unfolding announce_def by (intro speaks_first speaks_writes well_behaved_modify)

lemmas speaks_rules = speaks_bind quiet_get quiet_time quiet_world no_exit_uuid quiet_parseToken speaks_writes speaks_errors speaks_panic
  speaks_write_self speaks_announce

lemma speaks_Index: "speaks HandlePublicIndex"
  unfolding HandlePublicIndex_def by (auto intro!: speaks_rules split: option.split)

lemma speaks_IndexPost: "speaks (HandlePublicIndexPost env)"
  unfolding HandlePublicIndexPost_def by (auto intro!: speaks_rules split: option.split)

lemma speaks_reads: "speaks (HandleInstances env)" "speaks (HandleOwnIdentities env)" "speaks (HandleOwnSettings env)"
  unfolding HandleInstances_def HandleOwnIdentities_def HandleOwnSettings_def
  by (auto intro!: speaks_rules split: sum.split)

lemma speaks_IdentitiesPost: "speaks (HandleOwnIdentitiesPost env)"
  unfolding HandleOwnIdentitiesPost_def
  by (auto intro!: speaks_rules speaks_then well_behaved_out_op split: option.split sum.split prod.split)

lemma speaks_InstancesPost: "speaks (HandleInstancesPost env)"
  unfolding HandleInstancesPost_def post_own_def post_foreign_def Let_def
  by (auto intro!: speaks_rules split: option.split sum.split failure.split bool.split)

lemma speaks_Register: "speaks (HandlePublicRegisterPost env)"
proof -
  have "speaks (store_registration env i)" for i
    unfolding store_registration_def
    by (auto intro!: speaks_rules speaks_then well_behaved_modify split: sum.split)
  then show ?thesis
    unfolding HandlePublicRegisterPost_def
    by (auto intro!: speaks_rules split: option.split sum.split prod.split failure.split)
qed

lemma speaks_jwt_unauthorized [intro]: "speaks (jwt_unauthorized mw)"
  unfolding jwt_unauthorized_def by (intro speaks_then well_behaved_out_op speaks_Error)

lemma speaks_issue: "speaks (issue rsa mw claims)"
  unfolding issue_def by (auto intro!: speaks_rules split: option.split sum.split)

lemma speaks_Login: "speaks (LoginHandler rsa mw)"
proof (rule speaks_pointwise)
  fix c
  have i: "speaks (act_bind time_now (\<lambda>now.
      (if MaxRefresh mw \<noteq> 0 then act_bind time_now (\<lambda>now'. issue rsa mw (f now now')) else issue rsa mw (f now now))))" for f
    by (auto intro!: speaks_rules speaks_issue)
  show "\<exists>h'. speaks h' \<and> LoginHandler rsa mw c = h' c"
    unfolding LoginHandler_def using i [of "login_claims mw u" for u]
    by (auto split: option.split sum.split bool.split simp del: One_nat_def)
qed

lemma speaks_Refresh: "speaks (RefreshHandler rsa mw)"
  unfolding RefreshHandler_def by (auto intro!: speaks_rules speaks_issue speaks_jwt_unauthorized split: option.split)

lemma speaks_jwt: "speaks h \<Longrightarrow> speaks (middlewareImpl rsa mw h)"
  unfolding middlewareImpl_def
  by (auto intro!: speaks_rules speaks_if speaks_then well_behaved_set_user well_behaved_set_payload split: option.split)

lemma speaks_optional: "speaks h \<Longrightarrow> speaks (jwtMiddlewareOptionally rsa h)"
  unfolding jwtMiddlewareOptionally_def IfMiddleware_def Let_def
  by (simp only: option.case, intro speaks_if speaks_jwt)

lemma routes_speak: "list_all (\<lambda>r. speaks (Func r)) (main_routes rsa env)"
  by (simp add: main_routes_def Get_def Post_def speaks_Login speaks_Refresh speaks_Register speaks_optional speaks_Index
      speaks_IndexPost speaks_InstancesPost speaks_reads speaks_IdentitiesPost)

subsection \<open>The program answers\<close>

text \<open>What the stack of \<open>main\<close> wraps: the check of the content type, CORS and the routes.\<close>

definition main_app :: "app handler router \<Rightarrow> app handler" where
  "main_app router = ContentTypeCheckerMiddleware (Cors_MiddlewareFunc main_cors (AppFunc router))"

text \<open>
  Property C4.  The program answers every request.  Whatever the request, the state of the program and
  its environment, the handler of \<open>main\<close> returns.  The application behind the stack has been called once, on the
  request with its start time and on the state, and has returned or panicked (\<open>r\<close>) after some calls of
  its writer (\<open>ops\<close>); the program keeps the state it left.  When it returned, the response is what it wrote, and
  it wrote one; when it panicked, a 500 with the trace is written after that, so that the status is 500 unless
  one had gone out before.  The first code is the one on the wire, and the counters and the access log have the
  last code and the length of the body.
\<close>

theorem main_answers:
  fixes c :: "app conn"
  assumes "main_handler rsa env render trace = Inr h"
    and "Status (Conn (snd (Out c))) = None" "RespBody (Conn (snd (Out c))) = []"
  shows "\<exists>router c0 r c1 ops codes body c' u d.
    MakeRouter (main_routes rsa env) = Inr router \<and> World c0 = World c \<and> Req c0 = Req (entering c) \<and>
    writer_ok [] [] (Out c0) \<and> main_app router c0 = (r, c1) \<and> Out c1 = run_ops ops (Out c0) \<and>
    codes = op_codes False ops @ (case r of Inr _ \<Rightarrow> [] | Inl p \<Rightarrow> [500]) \<and>
    body = indented_body ops @ (case r of Inr _ \<Rightarrow> [] | Inl p \<Rightarrow> Marshal (error_json (trace p))) \<and>
    h c = (Inr (), c') \<and> World c' = World c1 \<and> codes \<noteq> [] \<and>
    Status (Conn (snd (Out c'))) = Some (hd codes) \<and> RespBody (Conn (snd (Out c'))) = body \<and>
    LogLines c' = LogLines c1 @ (case r of Inr _ \<Rightarrow> [] | Inl p \<Rightarrow> [trace p]) @
      [render (Req c') \<lparr>LogRemoteUser = u, LogStartTime = Some (Clock c (Ticks c)), LogStatusCode = int (last codes),
        LogResponseTime = Some d, LogBytesWritten = int (length body)\<rparr>] \<and>
    responseCounts (Stats c') = (responseCounts (Stats c))(last codes := responseCounts (Stats c) (last codes) + 1)"
proof -
  obtain router where router: "MakeRouter (main_routes rsa env) = Inr router"
    using assms(1) by (cases "MakeRouter (main_routes rsa env)") (simp_all add: main_handler_def)
  let ?a = "Cors_MiddlewareFunc main_cors (AppFunc router)"
  have "well_behaved ?a"
    using routes_well_behaved [of rsa env] by (intro well_behaved_Cors well_behaved_AppFunc [OF router]) (simp add: list_all_iff)
  note stack = stack_answers [OF this assms(2,3), of render trace]
  have s: "speaks (main_app router)"
    using routes_speak [of rsa env] unfolding main_app_def
    by (intro speaks_ContentType speaks_Cors speaks_AppFunc [OF router]) (simp add: list_all_iff)
  have h: "h = adapterFunc (WrapMiddlewares (StatusMiddleware # DefaultDevStack render trace) ?a)"
    using assms(1) by (simp add: main_handler_def router MakeHandler_def SetApp_def Use_def NewApi_def WrapMiddlewares_def)
  from stack obtain c' c0 r c1 ops codes body u d where *: "h c = (Inr (), c')"
    "World c0 = World c" "Req c0 = Req (entering c)" "writer_ok [] [] (Out c0)" "main_app router c0 = (r, c1)" "Out c1 = run_ops ops (Out c0)"
    "codes = final_codes r (op_codes False ops)" "body = final_body trace r (indented_body ops)" "World c' = World c1" "writer_ok codes body (Out c')"
    "LogLines c' = LogLines c1 @ final_log trace r @ [render (Req c') \<lparr>LogRemoteUser = u, LogStartTime = Some (Clock c (Ticks c)),
        LogStatusCode = int (if codes = [] then 0 else last codes), LogResponseTime = Some d, LogBytesWritten = int (length body)\<rparr>]"
    "Stats c' = (Stats c)\<lparr>responseCounts := (responseCounts (Stats c))
        ((if codes = [] then 0 else last codes) := responseCounts (Stats c) (if codes = [] then 0 else last codes) + 1),
      totalResponseTime := totalResponseTime (Stats c) + d\<rparr>"
    unfolding h [symmetric] main_app_def by blast
  have "op_codes False ops \<noteq> []" if "r = Inr ()"
  proof (rule speaks_codes [OF s _ *(4)])
    show "main_app router c0 = (Inr (), c1)" using *(5) that by simp
    show "writer_ok (op_codes False ops) (ops_body (fst (Out c0)) ops) (Out c1)" using run_ops_ok [OF *(4), of ops] *(6) by simp
  qed
  then have n: "codes \<noteq> []" using *(7) by (cases r) (auto simp: final_codes_def)
  have st: "Status (Conn (snd (Out c'))) = Some (hd codes)" "RespBody (Conn (snd (Out c'))) = body"
    using n *(10) by (simp_all add: writer_ok_def base_ok_def)
  have "(if codes = [] then 0 else last codes) = last codes" using n by simp
  note log = *(11,12) [unfolded this]
  have l: "LogLines c' = LogLines c1 @ (case r of Inr _ \<Rightarrow> [] | Inl p \<Rightarrow> [trace p]) @
      [render (Req c') \<lparr>LogRemoteUser = u, LogStartTime = Some (Clock c (Ticks c)), LogStatusCode = int (last codes),
        LogResponseTime = Some d, LogBytesWritten = int (length body)\<rparr>]"
    using log(1) by (simp only: final_log_def)
  have count: "responseCounts (Stats c') = (responseCounts (Stats c))(last codes := responseCounts (Stats c) (last codes) + 1)"
    using log(2) by simp
  have codes: "codes = op_codes False ops @ (case r of Inr _ \<Rightarrow> [] | Inl p \<Rightarrow> [500])"
    "body = indented_body ops @ (case r of Inr _ \<Rightarrow> [] | Inl p \<Rightarrow> Marshal (error_json (trace p)))"
    using *(7,8) by (simp_all only: final_codes_def final_body_def)
  show ?thesis
    by (rule exI [of _ router], rule exI [of _ c0], rule exI [of _ r], rule exI [of _ c1], rule exI [of _ ops],
        rule exI [of _ codes], rule exI [of _ body], rule exI [of _ c'], rule exI [of _ u], rule exI [of _ d])
      (intro conjI router *(1-6,9) codes n st l count)
qed

end
