(* ===== verification/AppClaims.thy ===== *)
theory AppClaims
  imports AppSpec
begin

text \<open>
  The guarantees of the running program over sequences of requests, registration and login, and the
  places where the code does less than it seems to promise.
\<close>

subsection \<open>Sequences of requests\<close>

fun serve :: "app handler \<Rightarrow> app conn list \<Rightarrow> app \<Rightarrow> app" where
  "serve h [] w = w"
| "serve h (c # cs) w = serve h cs (World (snd (h (c\<lparr>World := w\<rparr>))))"

text \<open>What requests without a token can make of a store that is registered.\<close>

definition guarded :: "crypto_ops \<Rightarrow> Identity \<Rightarrow> store \<Rightarrow> store \<Rightarrow> bool" where
  "guarded ops me s0 s \<longleftrightarrow> st_self s = Some me \<and> st_registered s \<and>
     (\<forall>k i. st_instances s k = Some i \<longrightarrow> st_instances s0 k = Some i \<or>
        k = [] \<and> Instance_Verify ops i = Inr True \<and> payload_owner (instance_payload i) \<noteq> identity_id me)"

lemma guarded_step: "guarded ops me s0 s \<Longrightarrow> store_step ops False False s s' \<Longrightarrow> guarded ops me s0 s'"
  by (erule store_stepE) (auto simp: guarded_def)

lemma admitted_World [simp]: "admitted rsa (c\<lparr>World := w\<rparr>) = admitted rsa c"
  by (simp add: admitted_def)

text \<open>
  Property C2.  Requests without a token.  Once the program is registered, and as long as no database call
  fails, no sequence of requests without a valid token ends the registration, changes the identity that the
  running program has (\<open>st_self\<close>), or stores an instance in its name: every instance that was not there before has
  a signature that verifies and another owner.  A failing lookup would let a registered program be registered
  again, and the document of the identity in the database is not protected (\<open>own_identity_overwritten\<close>).
\<close>

theorem untokened_requests:
  assumes "main_handler rsa env render trace = Inr h" "\<not> flaky env"
    and "st_self (store_of w) = Some me" "st_registered (store_of w)" "\<forall>c \<in> set cs. \<not> admitted rsa c"
  shows "st_self (store_of (serve h cs w)) = Some me \<and> st_registered (store_of (serve h cs w)) \<and>
    (\<forall>k i. st_instances (store_of (serve h cs w)) k = Some i \<longrightarrow> st_instances (store_of w) k = Some i \<or>
       k = [] \<and> Instance_Verify (signing env) i = Inr True \<and> payload_owner (instance_payload i) \<noteq> identity_id me)"
proof -
  have step: "store_step (signing env) (flaky env) (admitted rsa c) (store_of (World c)) (store_of (World (snd (h c))))" for c
    using main_step [OF assms(1)] by blast
  have "guarded (signing env) me (store_of w) (store_of v) \<Longrightarrow> guarded (signing env) me (store_of w) (store_of (serve h cs v))" for v
    using assms(5)
  proof (induction cs arbitrary: v)
    case (Cons c cs)
    have "store_step (signing env) False False (store_of v) (store_of (World (snd (h (c\<lparr>World := v\<rparr>)))))"
      using step [of "c\<lparr>World := v\<rparr>"] assms(2) Cons.prems(2) by simp
    from guarded_step [OF Cons.prems(1) this] Cons show ?case by simp
  qed simp
  from this [of w] assms(3,4) show ?thesis by (simp add: guarded_def)
qed


subsection \<open>Registration and login\<close>

lemma db_call_ok: "app_db w = Some d \<Longrightarrow> \<not> flaky env \<Longrightarrow>
    db_call env f w = (Inr (Inr (fst (f d))), w\<lparr>db_calls := Suc (db_calls w), app_db := Some (snd (f d))\<rparr>)"
  by (auto simp: db_call_eq flaky_def split: option.split)

lemma Register_again:
  assumes "app_db (World c) = Some d" "\<not> flaky env" "find_key kv_key ''hostname'' (col_settings d) = Some kv"
  shows "fst (HandlePublicRegisterPost env c) = Inr () \<and>
    store_of (World (snd (HandlePublicRegisterPost env c))) = store_of (World c) \<and>
    Out (snd (HandlePublicRegisterPost env c)) = run_ops [OpWriteHeader 401, OpWriteJson (error_json ''Unauthorized'')] (Out c)"
proof -
  have "fst (find_setting env ''hostname'' (World c)) = Inr (Inr (Some kv))"
    using assms by (simp add: find_setting_def db_call_ok)
  then show ?thesis
    by (simp add: HandlePublicRegisterPost_def act_eqs find_setting_store unauthorized_def)
qed

text \<open>
  Property C5.  Registration.  On a program that is not registered, while database calls work and with a
  usable new RSA key, a set-up request succeeds: the program becomes the identity with that key, its
  thumbprint as identifier, the host of the request and the given password, and stores it; from then on
  exactly that host name and a password with the same SHA-1 log in; and a second registration is
  refused with 401 and changes nothing.
\<close>

theorem registration:
  fixes c :: "app conn"
  assumes "app_db (World c) = Some d" "\<not> flaky env" "find_key kv_key ''hostname'' (col_settings d) = None"
    and "Option.bind (DecodeJsonPayload (Req c)) decode_setup = Some (pw, firstName, lastName)"
    and "new_key env (keys_made (World c)) = Some (RsaPrivate k)" "private_ok (RsaPrivate k)"
  shows "\<exists>me w. fst (HandlePublicRegisterPost env c) = Inr () \<and> World (snd (HandlePublicRegisterPost env c)) = w \<and>
    self (rt w) = Some me \<and> GetPrivateKey me = Inr (RsaPrivate k) \<and> identity_id me = thumbprint_of (rsaPublic k) \<and>
    st_identities (store_of w) = (st_identities (store_of (World c)))(identity_id me \<mapsto> me) \<and>
    (\<forall>user password. authenticate w user password = Inr (sha1 password = sha1 pw \<and> user = request_host (Req c))) \<and>
    (\<forall>c2. World c2 = w \<longrightarrow> fst (HandlePublicRegisterPost env c2) = Inr () \<and>
       store_of (World (snd (HandlePublicRegisterPost env c2))) = store_of w \<and>
       Out (snd (HandlePublicRegisterPost env c2)) = run_ops [OpWriteHeader 401, OpWriteJson (error_json ''Unauthorized'')] (Out c2))"
proof -
  let ?new = "new_registration (request_host (Req c)) pw firstName lastName"
  have "PrivateJwk ?new = None" "PublicJwk ?new = None" by (simp_all add: new_registration_def zero_identity_def)
  from Init_keys [OF assms(6) this] obtain me where me: "Identity_Init (Some (RsaPrivate k)) ?new = (Inr (), me)"
    "GetPrivateKey me = Inr (RsaPrivate k)" "identity_id me = thumbprint_of (rsaPublic k)"
    "hostname me = request_host (Req c)" "Passhash me = hex_encode (sha1 pw)"
    by (auto simp: new_registration_def)
  let ?kv = "\<lparr>kv_key = ''hostname'', kv_value = hostname me\<rparr>"
  let ?d = "d\<lparr>col_identities := upsert identity_id me (col_identities d), col_settings := upsert kv_key ?kv (col_settings d)\<rparr>"
  let ?w = "set_self me ((World c)\<lparr>keys_made := Suc (keys_made (World c)), db_calls := db_calls (World c) + 3, app_db := Some ?d\<rparr>)"
  have f: "find_setting env ''hostname'' (World c) = (Inr (Inr None), (World c)\<lparr>db_calls := Suc (db_calls (World c)), app_db := Some d\<rparr>)"
    using assms by (simp add: find_setting_def db_call_ok)
  have H: "fst (HandlePublicRegisterPost env c) = Inr () \<and> World (snd (HandlePublicRegisterPost env c)) = ?w"
    using assms(2,4,5) me(1)
    by (simp add: HandlePublicRegisterPost_def store_registration_def act_eqs f generate_key_def upsert_identity_def
        upsert_setting_def db_call_ok eval_nat_numeral)
  have auth: "authenticate ?w user password = Inr (sha1 password = sha1 pw \<and> user = request_host (Req c))" for user password
    using me(4,5) by (auto simp: authenticate_def set_self_def dest: hex_encode_inj)
  have again: "fst (HandlePublicRegisterPost env c2) = Inr () \<and>
       store_of (World (snd (HandlePublicRegisterPost env c2))) = store_of ?w \<and>
       Out (snd (HandlePublicRegisterPost env c2)) = run_ops [OpWriteHeader 401, OpWriteJson (error_json ''Unauthorized'')] (Out c2)"
    if w: "World c2 = ?w" for c2 :: "app conn"
  proof -
    have "app_db (World c2) = Some ?d" unfolding w by (simp add: set_self_def)
    moreover have "find_key kv_key ''hostname'' (col_settings ?d) = Some ?kv" by (simp add: documents.get_put)
    ultimately show ?thesis using Register_again [of c2 ?d env ?kv] assms(2) w by simp
  qed
  have st: "st_identities (store_of ?w) = (st_identities (store_of (World c)))(identity_id me \<mapsto> me)"
    using assms(1) by (simp add: store_of_def the_db_def documents.contents_put set_self_def)
  have self: "self (rt ?w) = Some me" by (simp add: set_self_def)
  show ?thesis
    using H self me(2,3) st auth again by (intro exI [of _ me] exI [of _ ?w]) blast
qed


subsection \<open>Own instances\<close>

lemma push_one_sent [simp]:
  "draws (push_one env p k w) = draws w" "broadcasts (push_one env p k w) = broadcasts w"
  by (auto simp: push_one_def find_identity_def db_call_eq Identity_Send_def http_post_def split: option.split)

lemma Push_sent [simp]: "draws (Push env p w) = draws w" "broadcasts (Push env p w) = broadcasts w"
proof -
  have "draws (fold (push_one env p) ks w) = draws w \<and> broadcasts (fold (push_one env p) ks w) = broadcasts w" for ks
    by (induction ks arbitrary: w) simp_all
  then show "draws (Push env p w) = draws w" "broadcasts (Push env p w) = broadcasts w" by (simp_all add: Push_def)
qed




subsection \<open>What the code does not protect\<close>

text \<open>
  Property C7.  The owner of a foreign instance is not bound to its signature.  Anyone with any key can
  store and broadcast an instance in the name of any identity but this one: it is signed with their
  own key, which travels in the signature, and replaces whatever instance of another host was there.
\<close>

theorem forged_owner_stored:
  fixes c :: "app conn"
  assumes "app_db (World c) = Some d" "\<not> flaky env" "self (rt (World c)) = Some me" "Env (Req c) ''REMOTE_USER'' = None"
    and "payload_ok (instance_payload i)" "payload_signatures (instance_payload i) = None"
    and "payload_owner (instance_payload i) \<noteq> identity_id me"
    and "instance_owner i = Some thief" "GetPrivateKey thief = Inr k" "valid_key (signing env) k" "public_ok (PublicKeyOf k)"
    and "Instance_Sign (signing env) now i = Inr i'"
    and "Body (Req c) = Some (Marshal (payload_json (instance_payload i')))" "length (Marshal (payload_json (instance_payload i'))) \<le> max_body"
  shows "fst (HandleInstancesPost env c) = Inr () \<and>
    st_instances (store_of (World (snd (HandleInstancesPost env c)))) [] =
      Some \<lparr>instance_id = [], instance_owner = None, instance_payload = instance_payload i'\<rparr> \<and>
    payload_owner (instance_payload i') = payload_owner (instance_payload i) \<and>
    broadcasts (World (snd (HandleInstancesPost env c))) \<noteq> []"
proof -
  from Sign_result [OF assms(6,8,9,12)] obtain p where
    p: "i' = i\<lparr>instance_payload := (instance_payload i)\<lparr>payload_signatures := Some [p]\<rparr>\<rparr>" "app_signature_ok p" by blast
  let ?i = "\<lparr>instance_id = [], instance_owner = None, instance_payload = instance_payload i'\<rparr>"
  have "payload_ok (instance_payload i')" using assms(5) p by (simp add: payload_ok_def)
  then have dec: "SetPayloadFromJson (take max_body (Marshal (payload_json (instance_payload i')))) zero_payload = (True, instance_payload i')"
    using assms(14) payload_wire by simp
  from signed_verifies [OF assms(6,8-12), of ?i] have v: "Instance_Verify (signing env) ?i = Inr True"
    by (auto simp: Instance_Verify_def)
  have o: "payload_owner (instance_payload i') = payload_owner (instance_payload i)" by (simp add: p)
  have "succeeds (upsert_instance env ?i (World c))" using assms(1,2) by (simp add: upsert_instance_def db_call_ok succeeds_def)
  then obtain x where "fst (upsert_instance env ?i (World c)) = Inr (Inr x)" by (auto simp: succeeds_def)
  then have H: "HandleInstancesPost env c = announce env (instance_payload i') (snd (world (upsert_instance env ?i) c))"
    using assms(3,4,7,13) dec v o by (simp add: HandleInstancesPost_def post_foreign_def act_eqs Let_def)
  show ?thesis
    unfolding H
    using \<open>succeeds _\<close> o by (simp add: announce_store upsert_instance_store) (simp add: announce_def act_seq_eq Broadcast_def)
qed

text \<open>
  A failure that is not answered.  When a foreign instance is valid and storing it fails,
  the handler calls a method of the outer error, which is nil, and panics instead of answering 400.
\<close>

theorem foreign_store_failure_panics:
  fixes c :: "app conn"
  assumes "app_db (World c) = Some d" "db_error env (db_calls (World c)) = Some e" "self (rt (World c)) = Some me"
    and "Env (Req c) ''REMOTE_USER'' = None" "Body (Req c) = Some b"
    and "p = snd (SetPayloadFromJson (take max_body b) zero_payload)" "payload_owner p \<noteq> identity_id me"
    and "Instance_Verify (signing env) \<lparr>instance_id = [], instance_owner = None, instance_payload = p\<rparr> = Inr True"
  shows "fst (HandleInstancesPost env c) = Inl NilDereference \<and> Out (snd (HandleInstancesPost env c)) = Out c"
proof -
  let ?i = "\<lparr>instance_id = [], instance_owner = None, instance_payload = p\<rparr>"
  have "fst (upsert_instance env ?i (World c)) = Inr (Inl e)"
    using assms(1,2) by (simp add: upsert_instance_def db_call_eq)
  then show ?thesis
    using assms(3-5,7,8) unfolding assms(6) by (simp add: HandleInstancesPost_def post_foreign_def act_eqs Let_def)
qed

text \<open>
  Property C8.  Anyone can replace the stored identity.  An unauthenticated \<open>POST /\<close> with the identifier of
  this program's identity replaces its document by the posted one, without private key and password
  hash; the program that starts next on this database with the same host name loads that identity, and
  then nobody can log in.
\<close>

theorem own_identity_overwritten:
  fixes c :: "app conn"
  assumes "app_db (World c) = Some d" "\<not> flaky env" "read_identity (Req c) = Some i"
    and "w = World (snd (HandlePublicIndexPost env c))"
  shows "st_identities (store_of w) (identity_id i) = Some i \<and> PrivateJwk i = None \<and> Passhash i = [] \<and>
    (\<forall>w2. self (rt w2) = Some i \<longrightarrow> (\<forall>user password. authenticate w2 user password = Inr False))"
proof -
  have "succeeds (upsert_identity env i (World c))" using assms(1,2) by (simp add: upsert_identity_def db_call_ok succeeds_def)
  moreover have "store_of w = store_of (snd (upsert_identity env i (World c)))"
    using assms(3,4) by (auto simp: HandlePublicIndexPost_def act_bind_eq split: sum.split)
  ultimately have "st_identities (store_of w) (identity_id i) = Some i" by (simp add: upsert_identity_store)
  moreover have "hex_encode (sha1 password) \<noteq> []" for password
    using sha1_length [of password] by (metis length_hex_encode list.size(3) mult_is_0 zero_neq_numeral)
  then have "\<forall>w2. self (rt w2) = Some i \<longrightarrow> (\<forall>user password. authenticate w2 user password = Inr False)"
    using read_identity_public [OF assms(3)] by (simp add: authenticate_def) metis
  ultimately show ?thesis using read_identity_public [OF assms(3)] by blast
qed

text \<open>What a goroutine that read the key \<open>k\<close> posts, while the database works.\<close>

definition push_sends :: "store \<Rightarrow> Payload \<Rightarrow> string \<Rightarrow> (string \<times> bytes) list" where
  "push_sends s p k =
     (case st_identities s k of
        None \<Rightarrow> []
      | Some i \<Rightarrow> if hostname i \<noteq> [] \<and> GetURI i \<noteq> [] then [(GetURI i @ ''/instances'', Marshal (payload_json p))] else [])"

lemma push_one_posts:
  assumes "app_db w = Some d" "\<not> flaky env"
  shows "posts (push_one env p k w) = posts w @ push_sends (store_of w) p k" "app_db (push_one env p k w) = Some d"
  using assms by (auto simp: push_one_def push_sends_def find_identity_def db_call_ok Identity_Send_def http_post_def
      store_of_def the_db_def split: option.split)

lemma push_posts:
  "app_db w = Some d \<Longrightarrow> \<not> flaky env \<Longrightarrow>
     posts (fold (push_one env p) ks w) = posts w @ concat (map (push_sends (store_of w) p) ks)"
  by (induction ks arbitrary: w) (simp_all add: push_one_posts push_one_store)

text \<open>
  After some moves of \<open>Push\<close> over the keys \<open>ks\<close>: the loop has visited \<open>n\<close> of them and holds the last one of these,
  and the goroutines that have read found the keys of the iterations \<open>is\<close>: their own or later ones.
\<close>

definition push_inv :: "string list \<Rightarrow> push_state \<Rightarrow> nat list \<Rightarrow> nat \<Rightarrow> bool" where
  "push_inv ks s is n \<longleftrightarrow> n \<le> length ks \<and> keys_left s = drop n ks \<and> length is + started s = n \<and>
     (n \<noteq> 0 \<longrightarrow> key_var s = ks ! (n - 1)) \<and> keys_read s = map ((!) ks) is \<and>
     sorted is \<and> (\<forall>j < length is. j \<le> is ! j) \<and> (\<forall>i \<in> set is. i < n)"

lemma push_step_inv: "push_inv ks s is n \<Longrightarrow> \<exists>is n. push_inv ks (push_step mv s) is n"
proof (cases mv)
  case Iterate
  assume i: "push_inv ks s is n"
  show ?thesis
  proof (cases "n < length ks")
    case True
    then have "keys_left s = ks ! n # drop (Suc n) ks" using i by (simp add: push_inv_def Cons_nth_drop_Suc)
    then have "push_step mv s = s\<lparr>key_var := ks ! n, keys_left := drop (Suc n) ks, started := Suc (started s)\<rparr>"
      by (simp add: Iterate)
    moreover have "push_inv ks (s\<lparr>key_var := ks ! n, keys_left := drop (Suc n) ks, started := Suc (started s)\<rparr>) is (Suc n)"
      using i True by (auto simp: push_inv_def less_Suc_eq)
    ultimately show ?thesis by metis
  next
    case False
    with i have "push_step mv s = s" by (simp add: Iterate push_inv_def)
    with i show ?thesis by metis
  qed
next
  case ReadVar
  assume i: "push_inv ks s is n"
  show ?thesis
  proof (cases "started s = 0")
    case True
    with i show ?thesis by (auto simp: ReadVar)
  next
    case False
    with i have "push_inv ks (push_step mv s) (is @ [n - 1]) n"
      by (auto simp: ReadVar push_inv_def sorted_append nth_append less_Suc_eq)
    then show ?thesis by blast
  qed
qed

lemma push_steps_inv: "push_inv ks s is n \<Longrightarrow> \<exists>is n. push_inv ks (fold push_step mvs s) is n"
proof (induction mvs arbitrary: s "is" n)
  case (Cons mv mvs)
  from push_step_inv [OF Cons.prems, of mv] Cons.IH show ?case by fastforce
qed auto

lemma iterates: "keys_left (fold push_step (replicate k Iterate) s) = drop k (keys_left s)"
  by (induction k arbitrary: s) (simp_all split: list.split)

lemma reads:
  "keys_left (fold push_step (replicate k ReadVar) s) = keys_left s"
  "started (fold push_step (replicate k ReadVar) s) = started s - k"
  by (induction k arbitrary: s) simp_all

lemma steps_left: "\<exists>k. keys_left (fold push_step mvs s) = drop k (keys_left s)"
proof (induction mvs arbitrary: s)
  case (Cons mv mvs)
  have "\<exists>k. keys_left (push_step mv s) = drop k (keys_left s)"
    by (cases mv) (auto split: list.split intro: exI [of _ 1] exI [of _ 0])
  with Cons.IH [of "push_step mv s"] show ?case by (metis drop_drop fold_simps(2))
qed (auto intro: exI [of _ 0])

lemma push_run_reads:
  "\<exists>is. keys_read (push_run moves ks) = map ((!) ks) is \<and> length is = length ks \<and> sorted is \<and>
     (\<forall>j < length ks. j \<le> is ! j \<and> is ! j < length ks)"
proof -
  let ?s0 = "\<lparr>key_var = [], keys_left = ks, started = 0, keys_read = []\<rparr>"
  let ?s1 = "fold push_step (replicate (length ks) Iterate) (fold push_step moves ?s0)"
  have r: "push_run moves ks = fold push_step (replicate (length ks) ReadVar) ?s1" by (simp add: push_run_def)
  have "push_inv ks ?s0 [] 0" by (simp add: push_inv_def)
  from push_steps_inv [OF this, of "moves @ replicate (length ks) Iterate @ replicate (length ks) ReadVar"]
  obtain "is" n where i: "push_inv ks (push_run moves ks) is n" by (auto simp: push_run_def)
  from push_steps_inv [OF \<open>push_inv ks ?s0 [] 0\<close>, of "moves @ replicate (length ks) Iterate"]
  obtain is1 n1 where i1: "push_inv ks ?s1 is1 n1" by auto
  have l: "keys_left ?s1 = []" using steps_left [of moves ?s0] by (auto simp: iterates simp del: fold_replicate)
  from l reads(1) have "keys_left (push_run moves ks) = []" unfolding r by simp
  with i have n: "n = length ks" by (auto simp: push_inv_def)
  have "started ?s1 \<le> length ks" using i1 by (simp add: push_inv_def)
  then have "started (push_run moves ks) = 0" unfolding r reads(2) by (simp del: fold_replicate)
  with i n show ?thesis by (auto simp: push_inv_def)
qed

lemma after_loop:
  "keys_left s = [] \<Longrightarrow> key_var s = k \<Longrightarrow> set (keys_read s) \<subseteq> {k} \<Longrightarrow> set (keys_read (fold push_step mvs s)) \<subseteq> {k}"
proof (induction mvs arbitrary: s)
  case (Cons mv mvs)
  then show ?case by (cases mv) auto
qed simp

lemma iterates_all:
  "keys_read s = [] \<Longrightarrow> keys_left s = ks \<Longrightarrow> ks \<noteq> [] \<Longrightarrow>
     key_var (fold push_step (replicate (length ks) Iterate) s) = last ks \<and>
     keys_read (fold push_step (replicate (length ks) Iterate) s) = []"
proof (induction ks arbitrary: s)
  case (Cons k ks)
  then show ?case by (cases "ks = []") simp_all
qed simp

text \<open>The loop ends before any goroutine reads.\<close>

definition loop_first :: "push_move list \<Rightarrow> nat \<Rightarrow> bool" where
  "loop_first moves n \<longleftrightarrow> set (take n moves) \<subseteq> {Iterate}"

lemma push_run_late:
  assumes "loop_first moves (length ks)"
  shows "set (keys_read (push_run moves ks)) \<subseteq> {last ks}"
proof (cases "ks = []")
  case True
  with push_run_reads [of moves ks] show ?thesis by auto
next
  case False
  let ?s0 = "\<lparr>key_var = [], keys_left = ks, started = 0, keys_read = []\<rparr>" and ?n = "length ks"
  have "set (take ?n (moves @ replicate ?n Iterate)) \<subseteq> {Iterate}" using assms by (auto simp: loop_first_def)
  then have "take ?n (moves @ replicate ?n Iterate) = replicate ?n Iterate" by (intro replicate_eqI) auto
  then obtain rest where "moves @ replicate ?n Iterate = replicate ?n Iterate @ rest" by (metis append_take_drop_id)
  then have "push_run moves ks = fold push_step (rest @ replicate ?n ReadVar) (fold push_step (replicate ?n Iterate) ?s0)"
    unfolding push_run_def by (metis (no_types, lifting) append.assoc fold_append comp_apply)
  moreover have "keys_left (fold push_step (replicate ?n Iterate) ?s0) = []" by (simp add: iterates del: fold_replicate)
  ultimately show ?thesis using iterates_all [of ?s0 ks] False
    by (metis (no_types, lifting) after_loop empty_iff empty_set push_state.select_convs(2,4) subsetI)
qed

text \<open>
  Property C9.  The goroutines of \<open>Push\<close> share the loop variable.  However they are scheduled there are as many
  of them as the payload has identities, and the \<open>j\<close>-th that reads posts to the identity of the \<open>j\<close>-th iteration
  or of a later one, never an earlier one than the goroutine before it.  When the loop ends before any of them
  reads, all of them post to the last identity, which gets the payload once for every identity of the map, and
  no other identity is sent anything.  While the database works, nothing else is posted.
\<close>

theorem push_last_only:
  assumes "app_db w = Some d" "\<not> flaky env" "perm_identities p = Some m" "push_order env (map fst m) = ks"
  shows "\<exists>is. posts (Push env p w) = posts w @ concat (map (\<lambda>i. push_sends (store_of w) p (ks ! i)) is) \<and>
    length is = length ks \<and> sorted is \<and> (\<forall>j < length ks. j \<le> is ! j \<and> is ! j < length ks) \<and>
    (loop_first (push_schedule env) (length ks) \<longrightarrow>
       posts (Push env p w) = posts w @ concat (replicate (length ks) (push_sends (store_of w) p (last ks))))"
proof -
  have t: "push_targets env p = keys_read (push_run (push_schedule env) ks)" using assms(3,4) by (simp add: push_targets_def)
  from push_run_reads [of "push_schedule env" ks] obtain "is" where
    i: "push_targets env p = map ((!) ks) is" "length is = length ks" "sorted is" "\<forall>j < length ks. j \<le> is ! j \<and> is ! j < length ks"
    unfolding t by blast
  have p: "posts (Push env p w) = posts w @ concat (map (push_sends (store_of w) p) (push_targets env p))"
    unfolding Push_def by (rule push_posts [OF assms(1,2)])
  have "push_targets env p = replicate (length ks) (last ks)" if "loop_first (push_schedule env) (length ks)"
    using push_run_late [OF that] i(1,2) unfolding t [symmetric] by (intro replicate_eqI) auto
  then have "posts (Push env p w) = posts w @ concat (replicate (length ks) (push_sends (store_of w) p (last ks)))"
    if "loop_first (push_schedule env) (length ks)" using that p by (metis map_replicate)
  moreover have "posts (Push env p w) = posts w @ concat (map (\<lambda>i. push_sends (store_of w) p (ks ! i)) is)"
    using p i(1) by (simp add: comp_def)
  ultimately show ?thesis using i(2-4) by blast
qed

text \<open>Only when every goroutine reads before the next iteration does each identity get the payload.\<close>

lemma push_each_in_turn: "keys_read (push_run (concat (replicate 3 [Iterate, ReadVar])) [''a'', ''b'', ''c'']) = [''a'', ''b'', ''c'']"
  by code_simp

end
