(* ===== verification/AppWitness.thy ===== *)
theory AppWitness
  imports AppAnswers AppClaims
begin

text \<open>
  The properties of the program at concrete states: a database in memory, a fixed random source, the example
  keys and requests.
\<close>

definition example_env :: environment where
  "example_env = \<lparr>db_error = (\<lambda>_. None), random16 = (\<lambda>_. Some (map char_of [64 :: nat ..< 80])),
     new_key = (\<lambda>_. Some (RsaPrivate example_rsa_key)), post_reply = (\<lambda>_ _ _. None), signing = example_ops,
     time_text = (\<lambda>_. []), error_text = (\<lambda>_. []), push_order = (\<lambda>ks. ks), push_schedule = []\<rparr>"

lemma example_env_steady: "\<not> flaky example_env" "signing example_env = example_ops"
  by (simp_all add: flaky_def example_env_def)

definition example_app :: "KV list \<Rightarrow> Identity option \<Rightarrow> app" where
  "example_app settings me = initial_app\<lparr>app_db := Some (no_database\<lparr>col_settings := settings\<rparr>), rt := newRoutingTable\<lparr>self := me\<rparr>\<rparr>"

definition example_call :: "bytes \<Rightarrow> app \<Rightarrow> app conn" where
  "example_call body w = example_conn (example_request\<lparr>Method := ''POST'', Body := Some body, ReqHeader := [], ReqHost := ''h'', Env := Map.empty\<rparr>) w"

lemma example_call_simps [simp]:
  "World (example_call b w) = w" "Body (Req (example_call b w)) = Some b" "Env (Req (example_call b w)) = Map.empty"
  "ReqHost (Req (example_call b w)) = ''h''" "ReqHeader (Req (example_call b w)) = []"
  by (simp_all add: example_call_def example_conn_def)

lemma example_app_simps [simp]:
  "app_db (example_app ss me) = Some (no_database\<lparr>col_settings := ss\<rparr>)" "self (rt (example_app ss me)) = me"
  by (simp_all add: example_app_def)

definition hostname_setting :: KV where
  "hostname_setting = \<lparr>kv_key = ''hostname'', kv_value = ''h''\<rparr>"

lemma example_registered:
  "st_self (store_of (example_app [hostname_setting] (Some i))) = Some i"
  "st_registered (store_of (example_app [hostname_setting] (Some i)))"
  by (simp_all add: store_of_def the_db_def hostname_setting_def)

theorem main_answers_witness:
  "\<exists>h c' code. main_handler example_rsa example_env (\<lambda>_ _. []) (\<lambda>_. []) = Inr h \<and>
     h (example_call ''{}'' (example_app [] None)) = (Inr (), c') \<and> Status (Conn (snd (Out c'))) = Some code"
proof -
  obtain h where h: "main_handler example_rsa example_env (\<lambda>_ _. []) (\<lambda>_. []) = Inr h" using main_step_exists by blast
  have "Status (Conn (snd (Out (example_call ''{}'' (example_app [] None))))) = None"
    "RespBody (Conn (snd (Out (example_call ''{}'' (example_app [] None))))) = []"
    by (simp_all add: example_call_def example_conn_def)
  from main_answers [OF h this] h show ?thesis by blast
qed

theorem untokened_requests_witness:
  "\<exists>h. main_handler example_rsa example_env (\<lambda>_ _. []) (\<lambda>_. []) = Inr h \<and>
     st_self (store_of (serve h [example_call ''{}'' initial_app] (example_app [hostname_setting] (Some example_owner)))) = Some example_owner \<and>
     st_registered (store_of (serve h [example_call ''{}'' initial_app] (example_app [hostname_setting] (Some example_owner))))"
proof -
  obtain h where h: "main_handler example_rsa example_env (\<lambda>_ _. []) (\<lambda>_. []) = Inr h" using main_step_exists by blast
  have "\<forall>c \<in> set [example_call ''{}'' initial_app]. \<not> admitted example_rsa c"
    by (simp add: admitted_def token_of_def bearer_def header_get_def header_values_def)
  from untokened_requests [OF h example_env_steady(1) example_registered this] h show ?thesis by blast
qed

definition setup_body :: bytes where
  "setup_body = Marshal (JObj [(''password'', JStr ''pw'')])"

theorem registration_witness:
  "\<exists>me w. World (snd (HandlePublicRegisterPost example_env (example_call setup_body (example_app [] None)))) = w \<and>
     self (rt w) = Some me \<and> GetPrivateKey me = Inr (RsaPrivate example_rsa_key) \<and> authenticate w ''h'' ''pw'' = Inr True"
proof -
  let ?c = "example_call setup_body (example_app [] None)"
  have n: "\<not> equal_fold ''password'' ''firstName''" "\<not> equal_fold ''password'' ''lastName''" by code_simp+
  have d: "Option.bind (DecodeJsonPayload (Req ?c)) decode_setup = Some (''pw'', [], [])"
    by (simp add: DecodeJsonPayload_def setup_body_def Unmarshal_Marshal decode_setup_def n)
  have k: "private_ok (RsaPrivate example_rsa_key)" by (simp add: example_rsa_key_def plain_fields_def)
  have db: "app_db (World ?c) = Some no_database" by (simp add: no_database_def)
  have s: "find_key kv_key ''hostname'' (col_settings no_database) = None" by (simp add: no_database_def)
  have g: "new_key example_env (keys_made (World ?c)) = Some (RsaPrivate example_rsa_key)" by (simp add: example_env_def)
  from registration [OF db example_env_steady(1) s d g k] have h: "\<exists>me w. World (snd (HandlePublicRegisterPost example_env ?c)) = w \<and>
     self (rt w) = Some me \<and> GetPrivateKey me = Inr (RsaPrivate example_rsa_key) \<and>
     (\<forall>user password. authenticate w user password = Inr (sha1 password = sha1 ''pw'' \<and> user = request_host (Req ?c)))" by blast
  have "request_host (Req ?c) = ''h''" by (simp add: request_host_def)
  with h show ?thesis by auto
qed

subsection \<open>A signed payload within the limit of the body\<close>

lemma length_json_string: "length (json_string s) \<le> 2 + 6 * length s"
proof -
  have "length (escape_char c) \<le> 6" for c by (simp add: escape_char_def Let_def)
  then have "length (concat (map escape_char s)) \<le> 6 * length s"
    by (induction s) (auto intro: add_mono)
  then show ?thesis by (simp add: json_string_def)
qed

lemma length_jose: "length (joseBase64UrlEncode b) \<le> 2 * length b"
proof -
  have "length (b64_raw a b) \<le> 2 * length b" for a by (induction a b rule: b64_raw.induct) auto
  then show ?thesis by (simp add: segment_raw)
qed

lemma length_base32_digits [simp]: "length (base32_digits k v) = k"
  by (induction k arbitrary: v) auto

lemma length_KeyID: "length (KeyID k) \<le> 120"
proof -
  have d: "length (base32_raw b) \<le> 2 * length b" for b
    by (induction b rule: base32_raw.induct) (simp_all del: base32_digits.simps)
  have c: "length (colon_groups n s) \<le> length s + n" for n s
    by (induction n s rule: colon_groups.induct) auto
  have "length (keyIDEncode b) \<le> 4 * length b" for b
    using c [of "length (base32_raw b) div 4 - 1" "base32_raw b"] d [of b] unfolding keyIDEncode_def Let_def by linarith
  from this [of "take 30 (sha256 (pkix k))"] show ?thesis by (simp add: KeyID_def)
qed

lemma length_show_nat: "length (show_nat n) \<le> Suc n"
proof -
  have "length (digits_rev n) \<le> Suc n"
  proof (induction n rule: digits_rev.induct)
    case (1 n)
    show ?case
    proof (cases "n < 10")
      case True
      then show ?thesis by (subst digits_rev.simps) simp
    next
      case False
      then have "Suc (n div 10) \<le> n" by (simp add: Suc_le_eq)
      with 1 [OF False] False show ?thesis by (subst digits_rev.simps) simp
    qed
  qed
  then show ?thesis by (simp add: show_nat_def)
qed
lemmas example_parts = payload_members_def permissions_json_def example_instance_def zero_payload_def json_nl_def json_colon_def

lemmas example_strings = length_json_string [of "''id''"] length_json_string [of "''owner''"] length_json_string [of "''permissions''"]
  length_json_string [of "''identities''"] length_json_string [of "''public''"] length_json_string [of "''schema''"]
  length_json_string [of "''data''"] length_json_string [of "''victim''"] length_json_string [of "''hello''"] length_json_string [of "[]"]

lemma example_protected_short:
  assumes "NewJSONSignature (Payload_ToJSON (instance_payload (example_instance ''victim''))) [] = Inr js0"
  shows "length (protectedHeader [] js0) \<le> 4000"
proof -
  let ?l = "Some ([], ''    '')" and ?ms = "payload_members (instance_payload (example_instance ''victim''))"
  have f: "formatLength js0 = int (body_length ?l ?ms)" "formatTail js0 = closing ?l"
    using assms NewJSONSignature_print [OF doc_layout_ws [OF layout4] payload_members_nonempty, of "instance_payload (example_instance ''victim'')"]
    by (auto simp: ToJSON_print payload_json_def example_instance_ok(2) simp del: json_print.simps)
  have b: "body_length ?l ?ms \<le> 800" using example_strings
    by (simp add: body_length_def example_parts eval_nat_numeral del: payload_members_nonempty)
  have t: "closing ?l = newline # ''}''" by (simp add: closing_def json_nl_def)
  have "length (show_int (int n)) \<le> Suc n" for n using length_show_nat [of n] by (simp add: show_int_def)
  from this [of "body_length ?l ?ms"] b have "length (show_int (int (body_length ?l ?ms))) \<le> 801" by linarith
  with length_jose [of "newline # ''}''"] length_json_string [of "joseBase64UrlEncode (newline # ''}'')"]
    length_json_string [of "''formatLength''"] length_json_string [of "''formatTail''"] length_json_string [of "''time''"] example_strings
  have "length (Marshal (JObj
     [(''formatLength'', JNum (formatLength js0)), (''formatTail'', JStr (joseBase64UrlEncode (formatTail js0))), (''time'', JStr [])])) \<le> 2000"
    by (simp add: Marshal_def json_nl_def json_colon_def f t)
  then show ?thesis
    unfolding protectedHeader_def by (rule order_trans [OF length_jose mult_le_mono2, THEN order_trans]) simp
qed

lemma example_signature:
  assumes "js_Sign example_ops [] example_key js0 = Inr js1" "signatures js0 = []" "js1 = js0\<lparr>signatures := [s]\<rparr>"
    and "signature_json s = Inr v"
  shows "\<exists>kid x y. length kid \<le> 120 \<and> length x \<le> 64 \<and> length y \<le> 64 \<and> length (js_signature s) \<le> 128 \<and>
    v = JObj [(''header'', JObj [(''jwk'', JObj [(''crv'', JStr ''P-256''), (''kid'', JStr kid), (''kty'', JStr ''EC''),
      (''x'', JStr x), (''y'', JStr y)]), (''alg'', JStr ''ES256'')]), (''signature'', JStr (js_signature s)), (''protected'', JStr (js_protected s))]"
proof -
  have k: "octets 256 = 32" "length (nat_bytes 7) \<le> 32" "length (nat_bytes 9) \<le> 32"
    using length_nat_bytes [of 7 32] length_nat_bytes [of 9 32] by (simp_all add: octets_def)
  have sign: "private_Sign example_ops example_key b SHA256 = Inr (sig, alg) \<Longrightarrow> length sig = 64 \<and> alg = ''ES256''" for b sig alg
    using k by (auto simp: example_key_def example_ops_def Let_def es256_def left_pad_def split: if_splits)
  from assms(1,2) obtain sig alg where "private_Sign example_ops example_key (signBytes js0 (protectedHeader [] js0)) SHA256 = Inr (sig, alg)"
    and "signatures js1 = [\<lparr>js_header = \<lparr>js_jwk = Some (PublicKeyOf example_key), js_alg = alg, js_chain = []\<rparr>,
      js_signature = joseBase64UrlEncode sig, js_protected = protectedHeader [] js0\<rparr>]"
    by (auto simp: js_Sign_def Let_def run_bind_eq_Inr_iff)
  with sign assms(3) length_jose [of sig] have g: "length (js_signature s) \<le> 128" "js_alg (js_header s) = ''ES256''"
    "js_chain (js_header s) = []" "js_jwk (js_header s) = Some (PublicKeyOf example_key)" "js_protected s = protectedHeader [] js0" by auto
  define kid x y where "kid = KeyID (EcPublic \<lparr>EcCurve = P256, EcX = 7, EcY = 9, ec_extended = []\<rparr>)"
    and "x = joseBase64UrlEncode (left_pad 32 (nat_bytes 7))" and "y = joseBase64UrlEncode (left_pad 32 (nat_bytes 9))"
  have l: "length kid \<le> 120" "length x \<le> 64" "length y \<le> 64"
    using k length_jose [of "left_pad 32 (nat_bytes 7)"] length_jose [of "left_pad 32 (nat_bytes 9)"] length_KeyID
    by (simp_all add: kid_def x_def y_def length_left_pad)
  have "public_toMap (PublicKeyOf example_key) = Inr [(''crv'', JStr ''P-256''), (''kid'', JStr kid), (''kty'', JStr ''EC''),
      (''x'', JStr x), (''y'', JStr y)]"
    using k by (simp add: example_key_def kid_def x_def y_def)
  with assms(4) g l show ?thesis using protectedHeader_nonempty [of "[]" js0]
    by (intro exI [of _ kid] exI [of _ x] exI [of _ y]) (auto simp: signature_json_def header_json_def run_bind_eq_Inr_iff)
qed

lemma example_signed_short:
  assumes "Instance_Sign example_ops [] (example_instance ''victim'') = Inr i'"
  shows "length (Marshal (payload_json (instance_payload i'))) \<le> max_body"
proof -
  from Sign_result [OF example_instance_ok(2,3) example_owner_key assms] obtain js0 js1 s p v where
    n: "NewJSONSignature (Payload_ToJSON (instance_payload (example_instance ''victim''))) [] = Inr js0"
    and sg: "js_Sign example_ops [] example_key js0 = Inr js1"
    and js1: "js1 = js0\<lparr>signatures := [s]\<rparr>" and v: "signature_json s = Inr v" and s: "js_protected s = protectedHeader [] js0"
    and i': "i' = (example_instance ''victim'')\<lparr>instance_payload := (instance_payload (example_instance ''victim''))\<lparr>payload_signatures := Some [p]\<rparr>\<rparr>"
    and pv: "app_signature_json p = v" by (auto simp: run_bind_eq_Inr_iff)
  from example_signature [OF sg _ js1 v] New_payload [OF n] obtain kid x y where
    l: "length kid \<le> 120" "length x \<le> 64" "length y \<le> 64" "length (js_signature s) \<le> 128"
    and "v = JObj [(''header'', JObj [(''jwk'', JObj [(''crv'', JStr ''P-256''), (''kid'', JStr kid), (''kty'', JStr ''EC''),
      (''x'', JStr x), (''y'', JStr y)]), (''alg'', JStr ''ES256'')]), (''signature'', JStr (js_signature s)), (''protected'', JStr (js_protected s))]"
    by auto
  moreover note example_strings
    length_json_string [of "''signatures''"] length_json_string [of "''header''"] length_json_string [of "''jwk''"] length_json_string [of "''crv''"] length_json_string [of "''P-256''"]
    length_json_string [of "''kid''"] length_json_string [of "''kty''"] length_json_string [of "''EC''"] length_json_string [of "''x''"] length_json_string [of "''y''"]
    length_json_string [of "''alg''"] length_json_string [of "''ES256''"] length_json_string [of "''signature''"] length_json_string [of "''protected''"]
    length_json_string [of kid] length_json_string [of x] length_json_string [of y]
    length_json_string [of "js_signature s"] length_json_string [of "js_protected s"]
  ultimately have "length (Marshal (payload_json (instance_payload i'))) \<le> 40000" using l example_protected_short [OF n] s
    by (simp add: Marshal_def i' pv payload_json_def example_parts del: payload_members_nonempty)
  then show ?thesis by (simp add: max_body_def)
qed

definition example_store :: "bytes \<Rightarrow> app conn" where
  "example_store b = example_call b (example_app [] (Some example_owner))"

lemma example_store_simps [simp]:
  "app_db (World (example_store b)) = Some no_database" "self (rt (World (example_store b))) = Some example_owner"
  "Env (Req (example_store b)) = Map.empty" "Body (Req (example_store b)) = Some b" "identity_id example_owner = ''me''"
  by (simp_all add: example_store_def no_database_def example_owner_def)

lemma example_forged:
  obtains i' where "Instance_Sign example_ops [] (example_instance ''victim'') = Inr i'"
    "payload_owner (instance_payload (example_instance ''victim'')) = ''victim''"
    "payload_owner (instance_payload i') = ''victim''"
    "length (Marshal (payload_json (instance_payload i'))) \<le> max_body" "payload_ok (instance_payload i')"
proof -
  from Sign_succeeds [OF example_instance_ok(2,3) example_owner_key example_key_ok(2), of example_ops "[]"] example_signs
  obtain i' where i': "Instance_Sign example_ops [] (example_instance ''victim'') = Inr i'" by blast
  from Sign_result [OF example_instance_ok(2,3) example_owner_key i'] obtain p where
    p: "i' = (example_instance ''victim'')\<lparr>instance_payload := (instance_payload (example_instance ''victim''))\<lparr>payload_signatures := Some [p]\<rparr>\<rparr>"
      "app_signature_ok p" by blast
  have "payload_ok (instance_payload i')" using p example_instance_ok(1) by (simp add: payload_ok_def)
  with that [OF i' _ _ example_signed_short [OF i']] show thesis by (simp add: p example_instance_def)
qed

subsection \<open>Witnesses\<close>

theorem forged_owner_stored_witness:
  "\<exists>b i. fst (HandleInstancesPost example_env (example_store b)) = Inr () \<and>
     st_instances (store_of (World (snd (HandleInstancesPost example_env (example_store b))))) [] = Some i \<and>
     payload_owner (instance_payload i) = ''victim''"
proof -
  obtain i' where i': "Instance_Sign example_ops [] (example_instance ''victim'') = Inr i'"
    "payload_owner (instance_payload (example_instance ''victim'')) = ''victim''"
    "payload_owner (instance_payload i') = ''victim''"
    "length (Marshal (payload_json (instance_payload i'))) \<le> max_body" by (rule example_forged)
  let ?c = "example_store (Marshal (payload_json (instance_payload i')))"
  have "fst (HandleInstancesPost example_env ?c) = Inr () \<and>
    st_instances (store_of (World (snd (HandleInstancesPost example_env ?c)))) [] =
      Some \<lparr>instance_id = [], instance_owner = None, instance_payload = instance_payload i'\<rparr>"
    using forged_owner_stored [where c = ?c and env = example_env and i = "example_instance ''victim''", OF example_store_simps(1) example_env_steady(1)
        example_store_simps(2) _ example_instance_ok(1,2) _ example_instance_ok(3) example_owner_key] i' example_key_ok
    by (simp add: example_env_steady)
  with i'(3) show ?thesis by (intro exI) auto
qed

theorem foreign_store_failure_panics_witness:
  "\<exists>b. fst (HandleInstancesPost (example_env\<lparr>db_error := \<lambda>_. Some ''down''\<rparr>) (example_store b)) = Inl NilDereference"
proof -
  obtain i' where i': "Instance_Sign example_ops [] (example_instance ''victim'') = Inr i'"
    "payload_owner (instance_payload i') = ''victim''"
    "length (Marshal (payload_json (instance_payload i'))) \<le> max_body" "payload_ok (instance_payload i')" by (rule example_forged)
  let ?b = "Marshal (payload_json (instance_payload i'))" and ?env = "example_env\<lparr>db_error := \<lambda>_. Some ''down''\<rparr>"
  have e: "signing ?env = example_ops" "db_error ?env n = Some ''down''" for n by (simp_all add: example_env_steady)
  have p: "instance_payload i' = snd (SetPayloadFromJson (take max_body ?b) zero_payload)"
    using i'(3,4) by (simp add: payload_wire)
  from signed_verifies [OF example_instance_ok(2,3) example_owner_key example_key_ok i'(1),
      of "\<lparr>instance_id = [], instance_owner = None, instance_payload = instance_payload i'\<rparr>"]
  have v: "Instance_Verify (signing ?env) \<lparr>instance_id = [], instance_owner = None, instance_payload = instance_payload i'\<rparr> = Inr True"
    by (auto simp: Instance_Verify_def e)
  have "payload_owner (instance_payload i') \<noteq> identity_id example_owner" using i'(2) by simp
  from foreign_store_failure_panics [OF example_store_simps(1) e(2) example_store_simps(2) _ example_store_simps(4) p this v]
  show ?thesis by auto
qed



theorem own_identity_overwritten_witness:
  "\<exists>i. st_identities (store_of (World (snd (HandlePublicIndexPost example_env (example_store (Marshal (JObj [(''id'', JStr ''me'')]))))))) ''me'' = Some i \<and>
     Passhash i = []"
proof -
  let ?c = "example_store (Marshal (JObj [(''id'', JStr ''me'')]))"
  have "read_identity (Req ?c) = Some (zero_identity\<lparr>identity_id := ''me''\<rparr>)"
    by (simp add: read_identity_def DecodeJsonPayload_def Unmarshal_Marshal decode_identity_def identity_names zero_identity_def)
  from own_identity_overwritten [OF example_store_simps(1) example_env_steady(1) this refl] show ?thesis by auto
qed

definition example_shared :: Payload where
  "example_shared = zero_payload\<lparr>perm_identities := Some [(''a'', zero_permission), (''b'', zero_permission)]\<rparr>"

definition example_peers :: app where
  "example_peers = initial_app\<lparr>app_db := Some (no_database\<lparr>col_identities :=
     [zero_identity\<lparr>identity_id := ''a'', hostname := ''ha''\<rparr>, zero_identity\<lparr>identity_id := ''b'', hostname := ''hb''\<rparr>]\<rparr>)\<rparr>"

definition example_post :: "string \<times> bytes" where
  "example_post = (GetURI (zero_identity\<lparr>identity_id := ''b'', hostname := ''hb''\<rparr>) @ ''/instances'', Marshal (payload_json example_shared))"

theorem push_last_only_witness:
  "posts (Push example_env example_shared example_peers) = [example_post, example_post]"
proof -
  have m: "perm_identities example_shared = Some [(''a'', zero_permission), (''b'', zero_permission)]"
    "push_order example_env (map fst [(''a'', zero_permission), (''b'', zero_permission)]) = [''a'', ''b'']"
    by (simp_all add: example_shared_def example_env_def)
  have d: "app_db example_peers = Some (no_database\<lparr>col_identities :=
     [zero_identity\<lparr>identity_id := ''a'', hostname := ''ha''\<rparr>, zero_identity\<lparr>identity_id := ''b'', hostname := ''hb''\<rparr>]\<rparr>)"
    by (simp add: example_peers_def)
  have "push_sends (store_of example_peers) example_shared ''b'' = [example_post]" "posts example_peers = []"
    "loop_first (push_schedule example_env) 2"
    by (simp_all add: push_sends_def store_of_def the_db_def d example_post_def GetURI_def zero_identity_def example_peers_def
        initial_app_def loop_first_def example_env_def)
  with push_last_only [OF d example_env_steady(1) m] show ?thesis by (auto simp: numeral_2_eq_2)
qed

end
