(* ===== verification/WsConn.thy ===== *)
theory WsConn
  imports Hash BigInt GoStrings
begin

text \<open>
  Web socket connections (\<open>gorilla/websocket/conn.go\<close>): frames are built in a buffer of fixed size and
  written, possibly masked; messages are read frame by frame, with control frames in between.  The
  operations take the connection and return it.  Each runs as a whole: what the lock \<open>mu\<close> protects is never
  interrupted, and whether \<open>WriteControl\<close> waits for it too long is a matter of the network.
\<close>

unbundle bit_operations_syntax

subsection \<open>Constants and errors\<close>

definition maxFrameHeaderSize :: nat where "maxFrameHeaderSize = 2 + 8 + 4"
definition maxControlFramePayloadSize :: nat where "maxControlFramePayloadSize = 125"
definition finalBit :: nat where "finalBit = 128"
definition maskBit :: nat where "maskBit = 128"
definition defaultWriteBufferSize :: nat where "defaultWriteBufferSize = 4096"
definition continuationFrame :: int where "continuationFrame = 0"
definition noFrame :: int where "noFrame = -1"
definition TextMessage :: int where "TextMessage = 1"
definition BinaryMessage :: int where "BinaryMessage = 2"
definition CloseMessage :: int where "CloseMessage = 8"
definition PingMessage :: int where "PingMessage = 9"
definition PongMessage :: int where "PongMessage = 10"
definition CloseNormalClosure :: nat where "CloseNormalClosure = 1000"
definition CloseGoingAway :: nat where "CloseGoingAway = 1001"
definition CloseProtocolError :: nat where "CloseProtocolError = 1002"
definition CloseNoStatusReceived :: nat where "CloseNoStatusReceived = 1005"
definition CloseAbnormalClosure :: nat where "CloseAbnormalClosure = 1006"
definition CloseMessageTooBig :: nat where "CloseMessageTooBig = 1009"

lemmas ws_consts = maxFrameHeaderSize_def maxControlFramePayloadSize_def finalBit_def maskBit_def continuationFrame_def
  noFrame_def TextMessage_def BinaryMessage_def CloseMessage_def PingMessage_def PongMessage_def

text \<open>\<open>ErrNet\<close> is an error of the network, with its text and whether it is temporary and a timeout.\<close>

datatype ws_error =
    ErrCloseSent
  | ErrReadLimit
  | ErrBadWriteOpCode
  | ErrWriteClosed
  | ErrInvalidControlFrame
  | ErrWriteTimeout
  | ErrExtraInClientMode
  | ErrUnexpectedData
  | ErrProtocol string
  | CloseError nat string
  | ErrEOF
  | ErrNet string bool bool

definition errUnexpectedEOF :: ws_error where
  "errUnexpectedEOF = CloseError CloseAbnormalClosure ''unexpected EOF''"

fun hideTempErr :: "ws_error \<Rightarrow> ws_error" where
  "hideTempErr (ErrNet msg temporary timeout) = ErrNet msg False timeout"
| "hideTempErr e = e"

definition isControl :: "int \<Rightarrow> bool" where
  "isControl frameType \<longleftrightarrow> frameType = CloseMessage \<or> frameType = PingMessage \<or> frameType = PongMessage"

definition isData :: "int \<Rightarrow> bool" where
  "isData frameType \<longleftrightarrow> frameType = TextMessage \<or> frameType = BinaryMessage"

subsection \<open>Masks\<close>

text \<open>The position after the bytes and the masked bytes.\<close>

fun maskBytes :: "bytes \<Rightarrow> nat \<Rightarrow> bytes \<Rightarrow> nat \<times> bytes" where
  "maskBytes key pos [] = (pos mod 4, [])"
| "maskBytes key pos (c # b) =
     (case maskBytes key (Suc pos) b of (pos', r) \<Rightarrow> (pos', xor_byte (of_char (key ! (pos mod 4))) c # r))"

definition mask_key :: "32 word \<Rightarrow> bytes" where
  "mask_key n = [char_of (unat n), char_of (unat (drop_bit 8 n)), char_of (unat (drop_bit 16 n)), char_of (unat (drop_bit 24 n))]"

subsection \<open>The network\<close>

text \<open>
  What the peer sends and how the sequence ends; how many bytes the \<open>i\<close>-th read delivers (at least one while
  there are some); what was written; which writes fail, after how many bytes; whether the connection was
  closed; the random numbers; the clock; whether \<open>WriteControl\<close> gets the lock too late.
\<close>

record wire =
  input :: bytes
  input_end :: ws_error
  read_size :: "nat \<Rightarrow> nat"
  reads :: nat
  sent :: bytes
  write_fault :: "nat \<Rightarrow> (nat \<times> ws_error) option"
  writes :: nat
  wire_closed :: bool
  random32 :: "nat \<Rightarrow> 32 word"
  keys_drawn :: nat
  wire_clock :: "nat \<Rightarrow> int"
  wire_ticks :: nat
  lock_late :: "nat \<Rightarrow> bool"

definition wire_read :: "nat \<Rightarrow> wire \<Rightarrow> (ws_error + bytes) \<times> wire" where
  "wire_read m w =
     (if m = 0 then (Inr [], w)
      else if input w = [] then (Inl (input_end w), w\<lparr>reads := Suc (reads w)\<rparr>)
      else (let n = min m (max 1 (read_size w (reads w))) in
        (Inr (take n (input w)), w\<lparr>reads := Suc (reads w), input := drop n (input w)\<rparr>)))"

definition wire_write :: "bytes \<Rightarrow> wire \<Rightarrow> nat \<times> ws_error option \<times> wire" where
  "wire_write b w =
     (case write_fault w (writes w) of
        None \<Rightarrow> (length b, None, w\<lparr>writes := Suc (writes w), sent := sent w @ b\<rparr>)
      | Some (n, e) \<Rightarrow> (min n (length b), Some e, w\<lparr>writes := Suc (writes w), sent := sent w @ take n b\<rparr>))"

definition wire_close :: "wire \<Rightarrow> wire" where
  "wire_close w = w\<lparr>wire_closed := True\<rparr>"

subsection \<open>Connections\<close>

text \<open>A handler of pings or pongs is given by the error it returns; \<open>None\<close> is the default handler.\<close>

record ws_conn =
  net :: wire
  isServer :: bool
  ws_subprotocol :: string
  closeSent :: bool
  writeErr :: "ws_error option"
  writeBuf :: bytes
  writePos :: nat
  writeFrameType :: int
  writeSeq :: nat
  readErr :: "ws_error option"
  readRemaining :: int
  readFinal :: bool
  readSeq :: nat
  readLength :: int
  readLimit :: int
  readMaskPos :: nat
  readMaskKey :: bytes
  handlePong :: "(string \<Rightarrow> ws_error option) option"
  handlePing :: "(string \<Rightarrow> ws_error option) option"

definition zero_bytes :: "nat \<Rightarrow> bytes" where
  "zero_bytes n = replicate n (char_of (0 :: nat))"

definition newConn :: "wire \<Rightarrow> bool \<Rightarrow> nat \<Rightarrow> ws_conn" where
  "newConn w server writeBufferSize =
     \<lparr>net = w, isServer = server, ws_subprotocol = [], closeSent = False, writeErr = None,
      writeBuf = zero_bytes ((if writeBufferSize = 0 then defaultWriteBufferSize else writeBufferSize) + maxFrameHeaderSize),
      writePos = maxFrameHeaderSize, writeFrameType = noFrame, writeSeq = 0, readErr = None, readRemaining = 0,
      readFinal = True, readSeq = 0, readLength = 0, readLimit = 0, readMaskPos = 0, readMaskKey = zero_bytes 4,
      handlePong = None, handlePing = None\<rparr>"

definition conn_close :: "ws_conn \<Rightarrow> ws_conn" where
  "conn_close c = c\<lparr>net := wire_close (net c)\<rparr>"

definition SetReadLimit :: "int \<Rightarrow> ws_conn \<Rightarrow> ws_conn" where
  "SetReadLimit limit c = c\<lparr>readLimit := limit\<rparr>"

definition SetPingHandler :: "(string \<Rightarrow> ws_error option) option \<Rightarrow> ws_conn \<Rightarrow> ws_conn" where
  "SetPingHandler h c = c\<lparr>handlePing := h\<rparr>"

definition SetPongHandler :: "(string \<Rightarrow> ws_error option) option \<Rightarrow> ws_conn \<Rightarrow> ws_conn" where
  "SetPongHandler h c = c\<lparr>handlePong := h\<rparr>"

definition newMaskKey :: "ws_conn \<Rightarrow> bytes \<times> ws_conn" where
  "newMaskKey c = (mask_key (random32 (net c) (keys_drawn (net c))), c\<lparr>net := (net c)\<lparr>keys_drawn := Suc (keys_drawn (net c))\<rparr>\<rparr>)"

definition wire_now :: "ws_conn \<Rightarrow> int \<times> ws_conn" where
  "wire_now c = (wire_clock (net c) (wire_ticks (net c)), c\<lparr>net := (net c)\<lparr>wire_ticks := Suc (wire_ticks (net c))\<rparr>\<rparr>)"

subsection \<open>Writing\<close>

fun write_bufs :: "bytes list \<Rightarrow> wire \<Rightarrow> ws_error option \<times> wire" where
  "write_bufs [] w = (None, w)"
| "write_bufs (buf # bufs) w =
     (if buf = [] then write_bufs bufs w
      else (case wire_write buf w of
        (n, err, w1) \<Rightarrow>
          (let w2 = (if n \<noteq> length buf then wire_close w1 else w1) in
           case err of Some e \<Rightarrow> (Some e, w2) | None \<Rightarrow> write_bufs bufs w2)))"

definition ws_write :: "int \<Rightarrow> bytes list \<Rightarrow> ws_conn \<Rightarrow> ws_error option \<times> ws_conn" where
  "ws_write frameType bufs c =
     (if closeSent c then (Some ErrCloseSent, c)
      else (let c1 = (if frameType = CloseMessage then c\<lparr>closeSent := True\<rparr> else c) in
        case write_bufs bufs (net c1) of (err, w) \<Rightarrow> (err, c1\<lparr>net := w\<rparr>)))"

definition header_byte0 :: "bool \<Rightarrow> int \<Rightarrow> nat" where
  "header_byte0 final frameType = nat (frameType mod 256) OR (if final then finalBit else 0)"

definition header_byte1 :: "bool \<Rightarrow> nat" where
  "header_byte1 server = (if server then 0 else maskBit)"

definition control_bytes :: "int \<Rightarrow> bytes \<Rightarrow> ws_conn \<Rightarrow> bytes \<times> ws_conn" where
  "control_bytes messageType data c =
     (let b0 = char_of (header_byte0 True messageType);
          b1 = char_of (header_byte1 (isServer c) OR length data)
      in if isServer c then ([b0, b1] @ data, c)
         else (case newMaskKey c of (key, c1) \<Rightarrow> ([b0, b1] @ key @ snd (maskBytes key 0 data), c1)))"

text \<open>\<open>deadline\<close> is \<open>None\<close> for the zero time.\<close>

definition too_late :: "int option \<Rightarrow> ws_conn \<Rightarrow> bool \<times> ws_conn" where
  "too_late deadline c =
     (case deadline of
        None \<Rightarrow> (lock_late (net c) (writes (net c)), c)
      | Some t \<Rightarrow> (case wire_now c of (now, c1) \<Rightarrow> (t < now \<or> lock_late (net c1) (writes (net c1)), c1)))"

definition write_control_frame :: "int \<Rightarrow> bytes \<Rightarrow> ws_conn \<Rightarrow> ws_error option \<times> ws_conn" where
  "write_control_frame messageType buf c =
     (if closeSent c then (Some ErrCloseSent, c)
      else (let c1 = (if messageType = CloseMessage then c\<lparr>closeSent := True\<rparr> else c) in
        case wire_write buf (net c1) of
          (n, err, w) \<Rightarrow> (err, c1\<lparr>net := (if n \<noteq> 0 \<and> n \<noteq> length buf then wire_close w else w)\<rparr>)))"

definition WriteControl :: "int \<Rightarrow> bytes \<Rightarrow> int option \<Rightarrow> ws_conn \<Rightarrow> ws_error option \<times> ws_conn" where
  "WriteControl messageType data deadline c =
     (if \<not> isControl messageType then (Some ErrBadWriteOpCode, c)
      else if maxControlFramePayloadSize < length data then (Some ErrInvalidControlFrame, c)
      else (case control_bytes messageType data c of
        (buf, c1) \<Rightarrow>
          (case too_late deadline c1 of
             (True, c2) \<Rightarrow> (Some ErrWriteTimeout, c2)
           | (False, c2) \<Rightarrow> write_control_frame messageType buf c2)))"

text \<open>\<open>copy(buf[pos:], bs)\<close> where the bytes fit.\<close>

definition put_at :: "nat \<Rightarrow> bytes \<Rightarrow> bytes \<Rightarrow> bytes" where
  "put_at pos bs buf = take pos buf @ bs @ drop (pos + length bs) buf"

definition subslice :: "nat \<Rightarrow> nat \<Rightarrow> bytes \<Rightarrow> bytes" where
  "subslice i j buf = drop i (take j buf)"

definition put_header :: "nat \<Rightarrow> nat \<Rightarrow> nat \<Rightarrow> bool \<Rightarrow> bytes \<Rightarrow> nat \<times> bytes" where
  "put_header len b0 b1 server buf =
     (let framePos = (if server then 4 else 0) in
      if 65536 \<le> len then
        (framePos, put_at framePos ([char_of b0, char_of (b1 OR 127)] @ left_pad 8 (nat_bytes (len mod 2 ^ 64))) buf)
      else if 125 < len then
        (framePos + 6, put_at (framePos + 6) ([char_of b0, char_of (b1 OR 126)] @ left_pad 2 (nat_bytes len)) buf)
      else (framePos + 8, put_at (framePos + 8) [char_of b0, char_of (b1 OR len)] buf))"

definition bad_control :: "bool \<Rightarrow> nat \<Rightarrow> ws_conn \<Rightarrow> bool" where
  "bad_control final len c \<longleftrightarrow> isControl (writeFrameType c) \<and> (\<not> final \<or> maxControlFramePayloadSize < len)"

definition flushFrame :: "bool \<Rightarrow> bytes \<Rightarrow> ws_conn \<Rightarrow> ws_error option \<times> ws_conn" where
  "flushFrame final extra c =
     (let len = writePos c - maxFrameHeaderSize + length extra in
      if bad_control final len c then
        (Some ErrInvalidControlFrame,
         c\<lparr>writePos := maxFrameHeaderSize, writeFrameType := noFrame, writeSeq := Suc (writeSeq c)\<rparr>)
      else (let b0 = header_byte0 final (writeFrameType c);
                b1 = header_byte1 (isServer c);
                (framePos, buf) = put_header len b0 b1 (isServer c) (writeBuf c);
                c1 = (if isServer c then c\<lparr>writeBuf := buf\<rparr>
                  else (case newMaskKey c of (key, c1) \<Rightarrow>
                    c1\<lparr>writeBuf := put_at maxFrameHeaderSize (snd (maskBytes key 0 (subslice maxFrameHeaderSize (writePos c) buf)))
                      (put_at (maxFrameHeaderSize - 4) key buf)\<rparr>))
            in if \<not> isServer c \<and> extra \<noteq> [] then (Some ErrExtraInClientMode, c1\<lparr>writeErr := Some ErrExtraInClientMode\<rparr>)
               else (case ws_write (writeFrameType c1) [subslice framePos (writePos c1) (writeBuf c1), extra] c1 of
                 (err, c2) \<Rightarrow>
                   (err, c2\<lparr>writeErr := err, writePos := maxFrameHeaderSize,
                      writeFrameType := (if final then noFrame else continuationFrame),
                      writeSeq := (if final then Suc (writeSeq c2) else writeSeq c2)\<rparr>))))"

text \<open>A message writer is the number of its message.\<close>

definition NextWriter :: "int \<Rightarrow> ws_conn \<Rightarrow> (ws_error + nat) \<times> ws_conn" where
  "NextWriter messageType c =
     (case writeErr c of
        Some e \<Rightarrow> (Inl e, c)
      | None \<Rightarrow>
          (case (if writeFrameType c \<noteq> noFrame then flushFrame True [] c else (None, c)) of
             (Some e, c1) \<Rightarrow> (Inl e, c1)
           | (None, c1) \<Rightarrow>
               if \<not> isControl messageType \<and> \<not> isData messageType then (Inl ErrBadWriteOpCode, c1)
               else (Inr (writeSeq c1), c1\<lparr>writeFrameType := messageType\<rparr>)))"

definition writer_err :: "nat \<Rightarrow> ws_conn \<Rightarrow> ws_error option" where
  "writer_err s c = (if writeSeq c \<noteq> s then Some ErrWriteClosed else writeErr c)"

definition ncopy :: "nat \<Rightarrow> ws_conn \<Rightarrow> (ws_error + nat) \<times> ws_conn" where
  "ncopy mx c =
     (if writePos c < length (writeBuf c) then (Inr (min (length (writeBuf c) - writePos c) mx), c)
      else (case flushFrame False [] c of
        (Some e, c1) \<Rightarrow> (Inl e, c1)
      | (None, c1) \<Rightarrow> (Inr (min (length (writeBuf c1) - writePos c1) mx), c1)))"

text \<open>The loop that copies into the buffer; \<open>None\<close> when it never ends.\<close>

partial_function (option) copy_loop :: "bytes \<Rightarrow> ws_conn \<Rightarrow> (ws_error option \<times> ws_conn) option" where
  "copy_loop p c =
     (if p = [] then Some (None, c)
      else (case ncopy (length p) c of
        (Inl e, c1) \<Rightarrow> Some (Some e, c1)
      | (Inr n, c1) \<Rightarrow>
          copy_loop (drop n p) (c1\<lparr>writeBuf := put_at (writePos c1) (take n p) (writeBuf c1), writePos := writePos c1 + n\<rparr>)))"

definition writer_write :: "nat \<Rightarrow> bool \<Rightarrow> bytes \<Rightarrow> ws_conn \<Rightarrow> ((ws_error + nat) \<times> ws_conn) option" where
  "writer_write s final p c =
     (case writer_err s c of
        Some e \<Rightarrow> Some (Inl e, c)
      | None \<Rightarrow>
          if 2 * length (writeBuf c) < length p \<and> isServer c then
            (case flushFrame final p c of (Some e, c1) \<Rightarrow> Some (Inl e, c1) | (None, c1) \<Rightarrow> Some (Inr (length p), c1))
          else map_option (\<lambda>(err, c1). (case err of Some e \<Rightarrow> Inl e | None \<Rightarrow> Inr (length p), c1)) (copy_loop p c))"

definition Writer_Write :: "nat \<Rightarrow> bytes \<Rightarrow> ws_conn \<Rightarrow> ((ws_error + nat) \<times> ws_conn) option" where
  "Writer_Write s p = writer_write s False p"

definition Writer_WriteString :: "nat \<Rightarrow> string \<Rightarrow> ws_conn \<Rightarrow> ((ws_error + nat) \<times> ws_conn) option" where
  "Writer_WriteString s p c =
     (case writer_err s c of
        Some e \<Rightarrow> Some (Inl e, c)
      | None \<Rightarrow> map_option (\<lambda>(err, c1). (case err of Some e \<Rightarrow> Inl e | None \<Rightarrow> Inr (length p), c1)) (copy_loop p c))"

text \<open>A reader is the list of the pieces it delivers and the error at their end, \<open>None\<close> for the end of file.\<close>

partial_function (option) read_from_loop ::
  "bytes list \<Rightarrow> ws_error option \<Rightarrow> nat \<Rightarrow> ws_conn \<Rightarrow> (nat \<times> ws_error option \<times> ws_conn) option" where
  "read_from_loop pieces fin nn c =
     (case (if writePos c = length (writeBuf c) then flushFrame False [] c else (None, c)) of
        (Some e, c1) \<Rightarrow> Some (nn, Some e, c1)
      | (None, c1) \<Rightarrow>
          (case pieces of
             [] \<Rightarrow> Some (nn, fin, c1)
           | p # ps \<Rightarrow>
               (let n = min (length p) (length (writeBuf c1) - writePos c1);
                    ps' = (if n < length p then drop n p # ps else ps)
                in read_from_loop ps' fin (nn + n)
                     (c1\<lparr>writeBuf := put_at (writePos c1) (take n p) (writeBuf c1), writePos := writePos c1 + n\<rparr>))))"

definition Writer_ReadFrom :: "nat \<Rightarrow> bytes list \<Rightarrow> ws_error option \<Rightarrow> ws_conn \<Rightarrow> (nat \<times> ws_error option \<times> ws_conn) option" where
  "Writer_ReadFrom s pieces fin c =
     (case writer_err s c of Some e \<Rightarrow> Some (0, Some e, c) | None \<Rightarrow> read_from_loop pieces fin 0 c)"

definition Writer_Close :: "nat \<Rightarrow> ws_conn \<Rightarrow> ws_error option \<times> ws_conn" where
  "Writer_Close s c = (case writer_err s c of Some e \<Rightarrow> (Some e, c) | None \<Rightarrow> flushFrame True [] c)"

definition WriteMessage :: "int \<Rightarrow> bytes \<Rightarrow> ws_conn \<Rightarrow> (ws_error option \<times> ws_conn) option" where
  "WriteMessage messageType data c =
     (case NextWriter messageType c of
        (Inl e, c1) \<Rightarrow> Some (Some e, c1)
      | (Inr s, c1) \<Rightarrow>
          map_option (\<lambda>(r, c2). case r of
              Inl e \<Rightarrow> (Some e, c2)
            | Inr n \<Rightarrow> if writeSeq c2 = s then flushFrame True [] c2 else (None, c2))
            (writer_write s True data c1))"

subsection \<open>Reading\<close>

lemma wire_read_progress:
  "wire_read m w = (Inr b, w1) \<Longrightarrow> 0 < m \<Longrightarrow>
    0 < length b \<and> length (input w1) + length b = length (input w) \<and> length (input w1) < length (input w)"
  by (auto simp: wire_read_def Let_def split: if_splits)

function readFull :: "nat \<Rightarrow> wire \<Rightarrow> (ws_error + bytes) \<times> wire" where
  "readFull m w =
     (if m = 0 then (Inr [], w)
      else (case wire_read m w of
        (Inl e, w1) \<Rightarrow> (Inl (if e = ErrEOF then errUnexpectedEOF else e), w1)
      | (Inr b, w1) \<Rightarrow>
          (case readFull (m - length b) w1 of (Inl e, w2) \<Rightarrow> (Inl e, w2) | (Inr r, w2) \<Rightarrow> (Inr (b @ r), w2))))"
  by pat_completeness auto
termination
  by (relation "measure fst") (auto dest!: wire_read_progress [OF sym])

declare readFull.simps [simp del]

text \<open>\<open>io.CopyN(ioutil.Discard, br, n)\<close>, in pieces of 8192 bytes.\<close>

function discard :: "nat \<Rightarrow> wire \<Rightarrow> ws_error option \<times> wire" where
  "discard m w =
     (if m = 0 then (None, w)
      else (case wire_read (min m 8192) w of
        (Inl e, w1) \<Rightarrow> (Some e, w1)
      | (Inr b, w1) \<Rightarrow> discard (m - length b) w1))"
  by pat_completeness auto
termination
  by (relation "measure fst") (auto dest!: wire_read_progress [OF sym])

declare discard.simps [simp del]

definition FormatCloseMessage :: "nat \<Rightarrow> string \<Rightarrow> bytes" where
  "FormatCloseMessage closeCode txt = left_pad 2 (nat_bytes (closeCode mod 65536)) @ txt"

definition ws_writeWait :: int where
  "ws_writeWait = 1000000000"

text \<open>A control message with a deadline one second from now; its error is ignored.\<close>

definition send_control :: "int \<Rightarrow> bytes \<Rightarrow> ws_conn \<Rightarrow> ws_conn" where
  "send_control messageType data c =
     (case wire_now c of (now, c1) \<Rightarrow> snd (WriteControl messageType data (Some (now + ws_writeWait)) c1))"

definition handleProtocolError :: "string \<Rightarrow> ws_conn \<Rightarrow> (ws_error + 'a) \<times> ws_conn" where
  "handleProtocolError message c =
     (Inl (ErrProtocol message), send_control CloseMessage (FormatCloseMessage CloseProtocolError message) c)"

text \<open>The conversion of an unsigned to a signed 64-bit integer, and the wrap-around of its addition.\<close>

definition int64 :: "int \<Rightarrow> int" where
  "int64 i = sint (word_of_int i :: 64 word)"

definition read_bytes :: "nat \<Rightarrow> (bytes \<Rightarrow> ws_conn \<Rightarrow> (ws_error + 'a) \<times> ws_conn) \<Rightarrow> ws_conn \<Rightarrow> (ws_error + 'a) \<times> ws_conn" where
  "read_bytes m k c =
     (case readFull m (net c) of (Inl e, w) \<Rightarrow> (Inl e, c\<lparr>net := w\<rparr>) | (Inr b, w) \<Rightarrow> k b (c\<lparr>net := w\<rparr>))"

text \<open>The checks of the frame header: the message of the protocol error, or the connection with \<open>readFinal\<close> set.\<close>

definition check_header :: "bool \<Rightarrow> int \<Rightarrow> ws_conn \<Rightarrow> string + ws_conn" where
  "check_header final frameType c =
     (if isControl frameType then
        (if int maxControlFramePayloadSize < readRemaining c then Inl ''control frame length > 125''
         else if \<not> final then Inl ''control frame not final''
         else Inr c)
      else if isData frameType then
        (if \<not> readFinal c then Inl ''message start before final message frame'' else Inr (c\<lparr>readFinal := final\<rparr>))
      else if frameType = continuationFrame then
        (if readFinal c then Inl ''continuation after final message frame'' else Inr (c\<lparr>readFinal := final\<rparr>))
      else Inl (''unknown opcode '' @ show_int frameType))"

definition read_frame_length :: "(ws_conn \<Rightarrow> (ws_error + 'a) \<times> ws_conn) \<Rightarrow> ws_conn \<Rightarrow> (ws_error + 'a) \<times> ws_conn" where
  "read_frame_length k c =
     (if readRemaining c = 126 then read_bytes 2 (\<lambda>b c1. k (c1\<lparr>readRemaining := int (bytes_nat b)\<rparr>)) c
      else if readRemaining c = 127 then read_bytes 8 (\<lambda>b c1. k (c1\<lparr>readRemaining := int64 (int (bytes_nat b))\<rparr>)) c
      else k c)"

definition read_mask :: "bool \<Rightarrow> (ws_conn \<Rightarrow> (ws_error + 'a) \<times> ws_conn) \<Rightarrow> ws_conn \<Rightarrow> (ws_error + 'a) \<times> ws_conn" where
  "read_mask masked k c =
     (if masked then read_bytes 4 (\<lambda>b c1. k (c1\<lparr>readMaskKey := b\<rparr>)) (c\<lparr>readMaskPos := 0\<rparr>) else k c)"

text \<open>A data frame: the length of the message so far and its limit.\<close>

definition data_frame :: "int \<Rightarrow> ws_conn \<Rightarrow> (ws_error + int) \<times> ws_conn" where
  "data_frame frameType c =
     (let c1 = c\<lparr>readLength := int64 (readLength c + readRemaining c)\<rparr> in
      if 0 < readLimit c1 \<and> readLimit c1 < readLength c1
      then (Inl ErrReadLimit, send_control CloseMessage (FormatCloseMessage CloseMessageTooBig []) c1)
      else (Inr frameType, c1))"

definition handle_control :: "int \<Rightarrow> bytes \<Rightarrow> ws_conn \<Rightarrow> (ws_error + int) \<times> ws_conn" where
  "handle_control frameType payload c =
     (if frameType = PongMessage then
        (case handlePong c of
           None \<Rightarrow> (Inr frameType, c)
         | Some h \<Rightarrow> (case h payload of Some e \<Rightarrow> (Inl e, c) | None \<Rightarrow> (Inr frameType, c)))
      else if frameType = PingMessage then
        (case handlePing c of
           None \<Rightarrow> (Inr frameType, send_control PongMessage payload c)
         | Some h \<Rightarrow> (case h payload of Some e \<Rightarrow> (Inl e, c) | None \<Rightarrow> (Inr frameType, c)))
      else (let closeCode = (if 2 \<le> length payload then bytes_nat (take 2 payload) else CloseNoStatusReceived);
                closeText = (if 2 \<le> length payload then drop 2 payload else [])
            in (Inl (if closeCode = CloseNormalClosure \<or> closeCode = CloseGoingAway then ErrEOF else CloseError closeCode closeText),
                send_control CloseMessage [] c)))"

definition control_frame :: "int \<Rightarrow> ws_conn \<Rightarrow> (ws_error + int) \<times> ws_conn" where
  "control_frame frameType c =
     (if 0 < readRemaining c then
        read_bytes (nat (readRemaining c)) (\<lambda>payload c1.
          handle_control frameType (if isServer c1 then snd (maskBytes (readMaskKey c1) 0 payload) else payload) c1)
          (c\<lparr>readRemaining := 0\<rparr>)
      else handle_control frameType [] c)"

definition frame_body :: "int \<Rightarrow> ws_conn \<Rightarrow> (ws_error + int) \<times> ws_conn" where
  "frame_body frameType c =
     (if frameType = continuationFrame \<or> isData frameType then data_frame frameType c else control_frame frameType c)"

definition masked_frame :: "bool \<Rightarrow> int \<Rightarrow> ws_conn \<Rightarrow> (ws_error + int) \<times> ws_conn" where
  "masked_frame masked frameType c =
     (if masked \<noteq> isServer c then handleProtocolError ''incorrect mask flag'' c
      else read_mask masked (frame_body frameType) c)"

definition advanceFrame :: "ws_conn \<Rightarrow> (ws_error + int) \<times> ws_conn" where
  "advanceFrame c =
     (case (if 0 < readRemaining c then discard (nat (readRemaining c)) (net c) else (None, net c)) of
        (Some e, w) \<Rightarrow> (Inl e, c\<lparr>net := w\<rparr>)
      | (None, w) \<Rightarrow>
          read_bytes 2 (\<lambda>b c1.
            (let b0 = of_char (b ! 0); b1 = of_char (b ! 1);
                 final = (b0 AND finalBit \<noteq> 0); frameType = int (b0 AND 15); reserved = drop_bit 4 b0 AND 7;
                 masked = (b1 AND maskBit \<noteq> 0); c2 = c1\<lparr>readRemaining := int (b1 AND 127)\<rparr>
             in if reserved \<noteq> 0 then handleProtocolError (''unexpected reserved bits '' @ show_nat reserved) c2
                else (case check_header final frameType c2 of
                  Inl message \<Rightarrow> handleProtocolError message c2
                | Inr c3 \<Rightarrow>
                    read_frame_length (masked_frame masked frameType) c3))) (c\<lparr>net := w\<rparr>))"

subsubsection \<open>What reading consumes\<close>

abbreviation unread :: "ws_conn \<Rightarrow> nat" where
  "unread c \<equiv> length (input (net c))"

lemma readFull_unread: "readFull m w = (Inr b, w1) \<Longrightarrow> length b = m \<and> length (input w1) + m = length (input w)"
proof (induction m w arbitrary: b w1 rule: readFull.induct)
  case (1 m w)
  show ?case
  proof (cases "m = 0")
    case True
    with 1(2) show ?thesis by (simp add: readFull.simps)
  next
    case False
    with 1(2) obtain b1 w2 r where r: "wire_read m w = (Inr b1, w2)" "readFull (m - length b1) w2 = (Inr r, w1)" "b = b1 @ r"
      by (subst (asm) readFull.simps) (auto split: prod.splits sum.splits)
    have "length b1 \<le> m" using r(1) by (auto simp: wire_read_def Let_def split: if_splits)
    with wire_read_progress [OF r(1)] 1(1) [OF False _ _ r(2)] r False show ?thesis by fastforce
  qed
qed

lemma discard_unread: "discard m w = (None, w1) \<Longrightarrow> length (input w1) + m = length (input w)"
proof (induction m w arbitrary: w1 rule: discard.induct)
  case (1 m w)
  show ?case
  proof (cases "m = 0")
    case True
    with 1(2) show ?thesis by (simp add: discard.simps)
  next
    case False
    with 1(2) obtain b w2 where r: "wire_read (min m 8192) w = (Inr b, w2)" "discard (m - length b) w2 = (None, w1)"
      by (subst (asm) discard.simps) (auto split: prod.splits sum.splits)
    have "length b \<le> m" using r(1) by (auto simp: wire_read_def Let_def split: if_splits)
    with wire_read_progress [OF r(1)] 1(1) [OF False _ _ r(2)] r False show ?thesis by fastforce
  qed
qed

lemma wire_write_input: "wire_write b w = (n, e, w1) \<Longrightarrow> input w1 = input w"
  by (auto simp: wire_write_def split: option.splits)

lemma control_parts_input:
  "input (net (snd (control_bytes t d c))) = input (net c)"
  "input (net (snd (too_late dl c))) = input (net c)"
  "input (net (snd (write_control_frame t b c))) = input (net c)"
  by (auto simp: control_bytes_def Let_def newMaskKey_def too_late_def wire_now_def write_control_frame_def wire_close_def
      dest: wire_write_input split: option.split prod.split)

lemma WriteControl_input [simp]: "input (net (snd (WriteControl t d dl c))) = input (net c)"
  using control_parts_input(1) [of t d c] control_parts_input(2) [of dl "snd (control_bytes t d c)"]
    control_parts_input(3) [of t "fst (control_bytes t d c)" "snd (too_late dl (snd (control_bytes t d c)))"]
  by (auto simp: WriteControl_def split: prod.split bool.split)

lemma send_control_input [simp]: "input (net (send_control t d c)) = input (net c)"
  by (simp add: send_control_def wire_now_def)

lemma read_bytes_unread:
  assumes "read_bytes m k c = (Inr t, c1)" "\<And>b c2 t' c1'. k b c2 = (Inr t', c1') \<Longrightarrow> unread c1' \<le> unread c2"
  shows "unread c1 + m \<le> unread c"
  using assms(1) readFull_unread [of m "net c"]
  by (auto simp: read_bytes_def split: prod.splits sum.splits dest!: assms(2))

lemma handle_control_unread: "handle_control f p c = (Inr t, c1) \<Longrightarrow> unread c1 \<le> unread c"
  by (auto simp: handle_control_def Let_def split: if_splits option.splits)

lemma control_frame_unread: "control_frame f c = (Inr t, c1) \<Longrightarrow> unread c1 \<le> unread c"
  by (auto simp: control_frame_def split: if_splits dest: handle_control_unread dest!: read_bytes_unread)

lemma data_frame_unread: "data_frame f c = (Inr t, c1) \<Longrightarrow> unread c1 \<le> unread c"
  by (auto simp: data_frame_def Let_def split: if_splits)

lemma read_mask_unread:
  assumes "read_mask b k c = (Inr t, c1)" "\<And>c2 t' c1'. k c2 = (Inr t', c1') \<Longrightarrow> unread c1' \<le> unread c2"
  shows "unread c1 \<le> unread c"
proof (cases b)
  case True
  then have "unread c1 + 4 \<le> unread (c\<lparr>readMaskPos := 0\<rparr>)"
    using assms(1) by (intro read_bytes_unread) (auto simp: read_mask_def dest: assms(2))
  then show ?thesis by simp
next
  case False
  with assms show ?thesis by (auto simp: read_mask_def)
qed

lemma read_frame_length_unread:
  assumes "read_frame_length k c = (Inr t, c1)" "\<And>c2 t' c1'. k c2 = (Inr t', c1') \<Longrightarrow> unread c1' \<le> unread c2"
  shows "unread c1 \<le> unread c"
  using assms(1) by (auto simp: read_frame_length_def split: if_splits dest: assms(2) intro: add_leD1 dest!: read_bytes_unread)

lemma check_header_net: "check_header final f c = Inr c1 \<Longrightarrow> net c1 = net c"
  by (auto simp: check_header_def split: if_splits)

lemma handleProtocolError_error [simp]: "handleProtocolError m c = (Inr t, c1) \<longleftrightarrow> False"
  by (simp add: handleProtocolError_def)

lemma masked_frame_unread: "masked_frame b f c = (Inr t, c1) \<Longrightarrow> unread c1 \<le> unread c"
  by (auto simp: masked_frame_def frame_body_def split: if_splits dest: data_frame_unread control_frame_unread
      elim!: read_mask_unread)

lemma advanceFrame_unread:
  assumes "advanceFrame c = (Inr t, c1)"
  shows "unread c1 + 2 \<le> unread c"
proof -
  obtain w where w: "(if 0 < readRemaining c then discard (nat (readRemaining c)) (net c) else (None, net c)) = (None, w)"
    using assms by (auto simp: advanceFrame_def split: prod.splits option.splits)
  then have le: "length (input w) \<le> unread c" by (auto split: if_splits dest: discard_unread)
  have "unread c1 + 2 \<le> unread (c\<lparr>net := w\<rparr>)"
    using assms unfolding advanceFrame_def w prod.case option.case
    by (rule read_bytes_unread)
       (auto simp: Let_def split: if_splits sum.splits dest!: read_frame_length_unread [OF _ masked_frame_unread] check_header_net)
  with le show ?thesis by simp
qed

subsubsection \<open>Messages\<close>

function next_frame :: "ws_conn \<Rightarrow> (ws_error + int) \<times> ws_conn" where
  "next_frame c =
     (case readErr c of
        Some e \<Rightarrow> (Inl e, c)
      | None \<Rightarrow>
          (case advanceFrame c of
             (Inl e, c1) \<Rightarrow> (Inl (hideTempErr e), c1\<lparr>readErr := Some (hideTempErr e)\<rparr>)
           | (Inr frameType, c1) \<Rightarrow> if isData frameType then (Inr frameType, c1) else next_frame c1))"
  by pat_completeness auto
termination
  by (relation "measure unread") (auto dest!: advanceFrame_unread [OF sym])

declare next_frame.simps [simp del]

text \<open>A message reader is the number of its message, which \<open>NextReader\<close> has just made current.\<close>

definition NextReader :: "ws_conn \<Rightarrow> (ws_error + int) \<times> ws_conn" where
  "NextReader c = next_frame (c\<lparr>readSeq := Suc (readSeq c), readLength := 0\<rparr>)"

text \<open>A read of up to \<open>m\<close> bytes: what was read, and the error.\<close>

definition read_payload :: "nat \<Rightarrow> ws_conn \<Rightarrow> (bytes \<times> ws_error option) \<times> ws_conn" where
  "read_payload m c =
     (case wire_read (if readRemaining c < int m then nat (readRemaining c) else m) (net c) of
        (Inl e, w) \<Rightarrow> (([], Some (hideTempErr e)), c\<lparr>net := w, readErr := Some (hideTempErr e)\<rparr>)
      | (Inr b, w) \<Rightarrow>
          (let (pos, b') = (if isServer c then maskBytes (readMaskKey c) (readMaskPos c) b else (readMaskPos c, b))
           in ((b', None), c\<lparr>net := w, readMaskPos := pos, readRemaining := readRemaining c - int (length b)\<rparr>)))"

function reader_loop :: "nat \<Rightarrow> nat \<Rightarrow> ws_conn \<Rightarrow> (bytes \<times> ws_error option) \<times> ws_conn" where
  "reader_loop s m c =
     (case readErr c of
        Some e \<Rightarrow> (([], Some (if e = ErrEOF \<and> s = readSeq c then errUnexpectedEOF else e)), c)
      | None \<Rightarrow>
          if 0 < readRemaining c then read_payload m c
          else if readFinal c then (([], Some ErrEOF), c\<lparr>readSeq := Suc (readSeq c)\<rparr>)
          else (case advanceFrame c of
             (Inl e, c1) \<Rightarrow> reader_loop s m (c1\<lparr>readErr := Some (hideTempErr e)\<rparr>)
           | (Inr frameType, c1) \<Rightarrow>
               reader_loop s m (if isData frameType then c1\<lparr>readErr := Some ErrUnexpectedData\<rparr> else c1)))"
  by pat_completeness auto
termination
  by (relation "measure (\<lambda>(s, m, c). if readErr c = None then Suc (unread c) else 0)")
     (auto dest!: advanceFrame_unread [OF sym])

declare reader_loop.simps [simp del]

definition Reader_Read :: "nat \<Rightarrow> nat \<Rightarrow> ws_conn \<Rightarrow> (bytes \<times> ws_error option) \<times> ws_conn" where
  "Reader_Read s m c = (if s \<noteq> readSeq c then (([], Some ErrEOF), c) else reader_loop s m c)"

lemma reader_loop_unread: "reader_loop s m c = ((b, None), c1) \<Longrightarrow> 0 < m \<Longrightarrow> unread c1 < unread c"
proof (induction s m c rule: reader_loop.induct)
  case (1 s m c)
  show ?case
  proof (cases "readErr c")
    case (Some e)
    with 1(3) show ?thesis by (subst (asm) reader_loop.simps) simp
  next
    case None
    show ?thesis
    proof (cases "0 < readRemaining c \<or> readFinal c")
      case True
      with 1(3,4) None show ?thesis
        by (subst (asm) reader_loop.simps)
           (auto simp: read_payload_def Let_def split: if_splits prod.splits sum.splits dest!: wire_read_progress)
    next
      case False
      obtain r c2 where a: "advanceFrame c = (r, c2)" by (cases "advanceFrame c")
      show ?thesis
      proof (cases r)
        case (Inl e)
        with a False None 1(3) show ?thesis
          by (subst (asm) reader_loop.simps) (simp, subst (asm) reader_loop.simps, simp)
      next
        case (Inr t)
        let ?c3 = "if isData t then c2\<lparr>readErr := Some ErrUnexpectedData\<rparr> else c2"
        have "reader_loop s m ?c3 = ((b, None), c1)"
          using a False None 1(3) Inr by (subst (asm) reader_loop.simps) simp
        with 1(2) [of r c2 t] a False None Inr 1(4) have "unread c1 < unread ?c3" by simp
        with advanceFrame_unread [of c t c2] a Inr show ?thesis by (simp split: if_splits)
      qed
    qed
  qed
qed

text \<open>\<open>ioutil.ReadAll\<close>, which asks for at least 512 bytes at a time and takes the end of file for the end.\<close>

function read_all :: "nat \<Rightarrow> ws_conn \<Rightarrow> (bytes \<times> ws_error option) \<times> ws_conn" where
  "read_all s c =
     (case Reader_Read s 512 c of
        ((b, None), c1) \<Rightarrow> (case read_all s c1 of ((r, e), c2) \<Rightarrow> ((b @ r, e), c2))
      | ((b, Some e), c1) \<Rightarrow> ((b, if e = ErrEOF then None else Some e), c1))"
  by pat_completeness auto
termination
  by (relation "measure (\<lambda>(s, c). unread c)")
     (auto simp: Reader_Read_def split: if_splits dest!: reader_loop_unread [OF sym])

declare read_all.simps [simp del]

definition ReadMessage :: "ws_conn \<Rightarrow> (int \<times> bytes \<times> ws_error option) \<times> ws_conn" where
  "ReadMessage c =
     (case NextReader c of
        (Inl e, c1) \<Rightarrow> ((noFrame, [], Some e), c1)
      | (Inr messageType, c1) \<Rightarrow> (case read_all (readSeq c1) c1 of ((p, e), c2) \<Rightarrow> ((messageType, p, e), c2)))"

end
