(* ===== verification/WsSpec.thy ===== *)
theory WsSpec
  imports WsConn
begin

text \<open>
  What the web socket connection promises: every message that is written arrives, in either direction,
  through every buffer size and fragmentation; limits, closing and protocol errors; and where the reader
  does not keep its promises.
\<close>

subsection \<open>Masking\<close>

lemma key_byte [simp]: "of_char c < (256 :: nat)"
  by (metis mod_less_divisor of_char_mod_256 zero_less_numeral)

lemma byte_bound: "take_bit 8 n = n \<Longrightarrow> n < (256 :: nat)"
  by (simp add: take_bit_nat_eq_self_iff)

lemma xor_byte_twice [simp]: "k < 256 \<Longrightarrow> xor_byte k (xor_byte k c) = c"
proof -
  assume k: "k < 256"
  have "take_bit 8 (of_char c :: nat) = of_char c" "take_bit 8 k = k"
    using k key_byte [of c] by (simp_all add: take_bit_nat_eq_self_iff)
  then have "of_char c XOR k < (256 :: nat)" by (intro byte_bound) (simp only: take_bit_xor)
  then have "of_char (char_of (of_char c XOR k) :: char) = of_char c XOR k" by simp
  then show ?thesis by (simp add: xor_byte_def xor.assoc)
qed

lemma maskBytes_pos: "fst (maskBytes key pos b) = (pos + length b) mod 4"
  by (induction key pos b rule: maskBytes.induct) (auto split: prod.splits)

lemma maskBytes_length [simp]: "length (snd (maskBytes key pos b)) = length b"
  by (induction key pos b rule: maskBytes.induct) (auto split: prod.splits)

lemma maskBytes_cong: "pos mod 4 = pos' mod 4 \<Longrightarrow> snd (maskBytes key pos b) = snd (maskBytes key pos' b)"
proof (induction b arbitrary: pos pos')
  case (Cons c b)
  then have "Suc pos mod 4 = Suc pos' mod 4" by (metis mod_Suc)
  from Cons.IH [OF this] Cons.prems show ?case by (simp add: case_prod_unfold)
qed simp

lemma maskBytes_mod [simp]: "snd (maskBytes key (pos mod 4) b) = snd (maskBytes key pos b)"
  by (rule maskBytes_cong) simp

lemma maskBytes_append:
  "snd (maskBytes key pos (a @ b)) = snd (maskBytes key pos a) @ snd (maskBytes key (pos + length a) b)"
  by (induction key pos a rule: maskBytes.induct) (simp_all add: case_prod_unfold)

lemma maskBytes_twice [simp]: "snd (maskBytes key pos (snd (maskBytes key pos b))) = b"
  by (induction key pos b rule: maskBytes.induct) (simp_all add: case_prod_unfold)

subsection \<open>Frames\<close>

lemma header_bits:
  assumes "n < (128 :: nat)"
  shows "(n OR 128) AND 127 = n" "(n OR 128) AND 128 \<noteq> 0" "n AND 127 = n" "n AND 128 = 0" "n OR 128 < 256"
proof -
  have m: "(127 :: nat) = mask 7" "(128 :: nat) = 2 ^ 7" by (simp_all add: mask_eq_exp_minus_1)
  have t: "take_bit 7 n = n" using assms by (simp add: take_bit_nat_eq_self_iff)
  have b: "\<not> bit n 7" using assms by (metis bit_take_bit_iff less_irrefl t)
  show "(n OR 128) AND 127 = n" "n AND 127 = n" using t by (simp_all only: m take_bit_eq_mask [symmetric] take_bit_or) simp_all
  show "(n OR 128) AND 128 \<noteq> 0" "n AND 128 = 0"
    using b by (simp_all only: m and_exp_eq_0_iff_not_bit) (simp_all add: bit_simps)
  have "take_bit 8 n = n" using assms by (simp add: take_bit_nat_eq_self_iff)
  then show "n OR 128 < 256" by (intro byte_bound) (simp only: take_bit_or, simp)
qed

lemma type_bits:
  assumes "t \<in> {0, 1, 2, 8, 9, 10 :: int}"
  shows "nat (t mod 256) < 128" "nat (t mod 256) AND 15 = nat t" "(nat (t mod 256) OR 128) AND 15 = nat t"
    "drop_bit 4 (nat (t mod 256)) AND 7 = 0" "drop_bit 4 (nat (t mod 256) OR 128) AND 7 = 0"
  using assms by auto

lemma subslice_length [simp]: "length (subslice i j buf) = min j (length buf) - i"
  by (simp add: subslice_def)

lemma length_put_at [simp]: "pos + length bs \<le> length buf \<Longrightarrow> length (put_at pos bs buf) = length buf"
  by (simp add: put_at_def)

lemma subslice_split: "i \<le> j \<Longrightarrow> j \<le> k \<Longrightarrow> subslice i k buf = subslice i j buf @ subslice j k buf"
proof -
  assume "i \<le> j" "j \<le> k"
  then have "k - i = (j - i) + (k - j)" "drop (j - i) (drop i buf) = drop j buf" by simp_all
  then show ?thesis by (simp only: subslice_def drop_take take_add)
qed

lemma subslice_before [simp]: "j \<le> p \<Longrightarrow> p \<le> length buf \<Longrightarrow> subslice i j (put_at p bs buf) = subslice i j buf"
  by (simp add: subslice_def put_at_def)

lemma subslice_after [simp]:
  assumes "p + length bs \<le> i" "p + length bs \<le> length buf"
  shows "subslice i j (put_at p bs buf) = subslice i j buf"
proof -
  have "drop i (put_at p bs buf) = drop i buf" using assms by (simp add: put_at_def)
  then show ?thesis by (simp add: subslice_def drop_take)
qed

lemma subslice_at [simp]: "j = p + length bs \<Longrightarrow> p \<le> length buf \<Longrightarrow> subslice p j (put_at p bs buf) = bs"
  by (simp add: subslice_def put_at_def)

lemma subslice_empty [simp]: "j \<le> i \<Longrightarrow> subslice i j buf = []"
  by (simp add: subslice_def)

text \<open>A frame as it is written.\<close>

definition len_code :: "nat \<Rightarrow> nat" where
  "len_code n = (if 65536 \<le> n then 127 else if 125 < n then 126 else n)"

definition len_ext :: "nat \<Rightarrow> bytes" where
  "len_ext n = (if 65536 \<le> n then left_pad 8 (nat_bytes n) else if 125 < n then left_pad 2 (nat_bytes n) else [])"

definition frame_head :: "bool \<Rightarrow> bool \<Rightarrow> int \<Rightarrow> nat \<Rightarrow> bytes" where
  "frame_head server final t n =
     [char_of (header_byte0 final t), char_of (header_byte1 server OR len_code n)] @ len_ext n"

definition frame_bytes :: "bool \<Rightarrow> bool \<Rightarrow> int \<Rightarrow> bytes \<Rightarrow> bytes \<Rightarrow> bytes" where
  "frame_bytes server final t key p =
     frame_head server final t (length p) @ (if server then p else key @ snd (maskBytes key 0 p))"

lemma len_ext_length: "n < 2 ^ 64 \<Longrightarrow> length (len_ext n) = (if 65536 \<le> n then 8 else if 125 < n then 2 else 0)"
  using length_nat_bytes [of n 8] length_nat_bytes [of n 2] by (auto simp: len_ext_def intro!: length_left_pad)

lemma put_header_slice:
  assumes "put_header n (header_byte0 final t) (header_byte1 server) server buf = (fp, buf')"
    and "n < 2 ^ 64" "14 \<le> length buf"
  shows "fp + length (frame_head server final t n) = (if server then 14 else 10) \<and>
    buf' = put_at fp (frame_head server final t n) buf"
  using assms len_ext_length [OF assms(2)]
  by (auto simp: put_header_def frame_head_def Let_def len_code_def len_ext_def split: if_splits)

definition unflushed :: "ws_conn \<Rightarrow> bytes" where
  "unflushed c = subslice maxFrameHeaderSize (writePos c) (writeBuf c)"

text \<open>A connection that can write: its buffer has room for data, and nothing has failed.\<close>

definition writable :: "ws_conn \<Rightarrow> bool" where
  "writable c \<longleftrightarrow> 14 \<le> writePos c \<and> writePos c \<le> length (writeBuf c) \<and> 14 < length (writeBuf c) \<and>
     write_fault (net c) = (\<lambda>_. None) \<and> \<not> closeSent c \<and> writeErr c = None"

lemma mask_key_length [simp]: "length (mask_key n) = 4"
  by (simp add: mask_key_def)

lemma write_bufs_ok: "write_fault w = (\<lambda>_. None) \<Longrightarrow>
    \<exists>w'. write_bufs bufs w = (None, w') \<and> sent w' = sent w @ concat bufs \<and> write_fault w' = (\<lambda>_. None) \<and>
      input w' = input w"
  by (induction bufs w rule: write_bufs.induct) (auto simp: wire_write_def)

lemma ws_write_ok:
  assumes "\<not> closeSent c" "write_fault (net c) = (\<lambda>_. None)"
  shows "\<exists>w. ws_write t bufs c = (None, c\<lparr>closeSent := (t = CloseMessage), net := w\<rparr>) \<and>
    sent w = sent (net c) @ concat bufs \<and> write_fault w = (\<lambda>_. None)"
proof (cases "t = CloseMessage")
  case True
  from write_bufs_ok [of "net (c\<lparr>closeSent := True\<rparr>)" bufs] assms True show ?thesis by (auto simp: ws_write_def)
next
  case False
  from write_bufs_ok [OF assms(2), of bufs] assms(1) False show ?thesis by (cases c) (auto simp: ws_write_def)
qed

definition flushed :: "bool \<Rightarrow> bytes \<Rightarrow> ws_conn \<Rightarrow> bytes \<Rightarrow> ws_conn \<Rightarrow> bool" where
  "flushed final extra c key c' \<longleftrightarrow> length key = 4 \<and>
     sent (net c') = sent (net c) @ frame_bytes (isServer c) final (writeFrameType c) key (unflushed c @ extra) \<and>
     writePos c' = 14 \<and> length (writeBuf c') = length (writeBuf c) \<and> write_fault (net c') = (\<lambda>_. None) \<and>
     closeSent c' = (writeFrameType c = CloseMessage) \<and> writeErr c' = None \<and>
     writeFrameType c' = (if final then noFrame else continuationFrame) \<and>
     writeSeq c' = (if final then Suc (writeSeq c) else writeSeq c) \<and> isServer c' = isServer c"

lemma flushFrame_ok:
  assumes w: "writable c" and ctl: "\<not> (isControl (writeFrameType c) \<and> (\<not> final \<or> 125 < length (unflushed c @ extra)))"
    and len: "length (unflushed c @ extra) < 2 ^ 64" and ex: "isServer c \<or> extra = []"
  shows "\<exists>c' key. flushFrame final extra c = (None, c') \<and> flushed final extra c key c'"
proof -
  let ?n = "writePos c - maxFrameHeaderSize + length extra"
  let ?h = "frame_head (isServer c) final (writeFrameType c) ?n"
  have c: "14 \<le> writePos c" "writePos c \<le> length (writeBuf c)" "14 < length (writeBuf c)"
    "write_fault (net c) = (\<lambda>_. None)" "\<not> closeSent c" "writeErr c = None" using w by (simp_all add: writable_def)
  have m: "maxFrameHeaderSize = 14" by (simp add: ws_consts)
  have n: "?n = length (unflushed c @ extra)" using c by (simp add: unflushed_def ws_consts)
  with len have n64: "?n < 2 ^ 64" by simp
  obtain fp buf where h: "put_header ?n (header_byte0 final (writeFrameType c)) (header_byte1 (isServer c)) (isServer c) (writeBuf c) = (fp, buf)" by (meson surj_pair)
  from put_header_slice [OF h n64] c have fp: "fp + length ?h = (if isServer c then 14 else 10)" "buf = put_at fp ?h (writeBuf c)" by auto
  have noctl: "\<not> bad_control final ?n c"
    using ctl unfolding n bad_control_def by (simp add: ws_consts)
  show ?thesis
  proof (cases "isServer c")
    case True
    have s: "subslice fp (writePos c) buf = ?h @ unflushed c"
      using c fp True subslice_split [of fp 14 "writePos c" buf] by (simp add: unflushed_def ws_consts)
    from ws_write_ok [of "c\<lparr>writeBuf := buf\<rparr>" "writeFrameType c" "[subslice fp (writePos c) buf, extra]"] c
    obtain w' where w': "ws_write (writeFrameType c) [subslice fp (writePos c) buf, extra] (c\<lparr>writeBuf := buf\<rparr>) =
        (None, c\<lparr>writeBuf := buf, closeSent := (writeFrameType c = CloseMessage), net := w'\<rparr>)"
      "sent w' = sent (net c) @ (?h @ unflushed c) @ extra" "write_fault w' = (\<lambda>_. None)" by (auto simp: s)
    define d where "d = c\<lparr>writeBuf := buf, closeSent := (writeFrameType c = CloseMessage), net := w',
        writeErr := None, writePos := maxFrameHeaderSize, writeFrameType := (if final then noFrame else continuationFrame),
        writeSeq := (if final then Suc (writeSeq c) else writeSeq c)\<rparr>"
    have "flushFrame final extra c = (None, d)"
      using noctl h w'(1) True unfolding flushFrame_def Let_def d_def by (simp split del: if_split cong: if_cong)
    moreover have "length buf = length (writeBuf c)" using fp c True by simp
    then have "flushed final extra c (mask_key 0) d"
      using w'(2,3) True n by (simp add: flushed_def frame_bytes_def m d_def)
    ultimately show ?thesis by blast
  next
    case False
    with ex have e: "extra = []" by simp
    define key where "key = mask_key (random32 (net c) (keys_drawn (net c)))"
    define body where "body = snd (maskBytes key 0 (unflushed c))"
    define buf2 where "buf2 = put_at 14 body (put_at 10 key buf)"
    define c1 where "c1 = c\<lparr>net := (net c)\<lparr>keys_drawn := Suc (keys_drawn (net c))\<rparr>, writeBuf := buf2\<rparr>"
    have l: "length buf = length (writeBuf c)" "length key = 4" "length body = writePos c - 14" "length (put_at 10 key buf) = length (writeBuf c)"
      using fp c False by (simp_all add: key_def body_def unflushed_def ws_consts)
    have p: "subslice 14 (writePos c) buf = unflushed c" using fp c False by (simp add: unflushed_def ws_consts)
    have "subslice fp (writePos c) buf2 = subslice fp 14 buf2 @ body"
      using subslice_split [of fp 14 "writePos c" buf2] fp False c l by (simp add: buf2_def)
    also have "subslice fp 14 buf2 = subslice fp 10 (put_at 10 key buf) @ key"
      using subslice_split [of fp 10 14 "put_at 10 key buf"] fp False c l by (simp add: buf2_def)
    finally have s: "subslice fp (writePos c) buf2 = ?h @ key @ body" using fp False c l by simp
    from ws_write_ok [of c1 "writeFrameType c" "[subslice fp (writePos c) buf2, []]"] c
    obtain w' where w': "ws_write (writeFrameType c) [subslice fp (writePos c) buf2, []] c1 =
        (None, c1\<lparr>closeSent := (writeFrameType c = CloseMessage), net := w'\<rparr>)"
      "sent w' = sent (net c) @ ?h @ key @ body" "write_fault w' = (\<lambda>_. None)" by (auto simp: s c1_def)
    define d where "d = c1\<lparr>closeSent := (writeFrameType c = CloseMessage), net := w',
        writeErr := None, writePos := maxFrameHeaderSize, writeFrameType := (if final then noFrame else continuationFrame),
        writeSeq := (if final then Suc (writeSeq c) else writeSeq c)\<rparr>"
    have "flushFrame final extra c = (None, d)"
      using noctl h w'(1) False e p unfolding flushFrame_def Let_def d_def
      by (simp split del: if_split cong: if_cong add: m newMaskKey_def key_def [symmetric] body_def [symmetric]
          buf2_def [symmetric] c1_def)
    moreover have "length buf2 = length (writeBuf c)" using l c by (simp add: buf2_def)
    then have "flushed final extra c key d"
      using w'(2,3) False n e l(2) by (simp add: flushed_def frame_bytes_def c1_def body_def m d_def)
    ultimately show ?thesis by blast
  qed
qed

subsection \<open>Messages as frames\<close>

text \<open>The frames of an unfinished message, with their keys and payloads: the first has the type of the message.\<close>

fun frames_bytes :: "bool \<Rightarrow> int \<Rightarrow> (bytes \<times> bytes) list \<Rightarrow> bytes" where
  "frames_bytes server t [] = []"
| "frames_bytes server t ((k, p) # fs) = frame_bytes server False t k p @ frames_bytes server continuationFrame fs"

definition next_type :: "int \<Rightarrow> (bytes \<times> bytes) list \<Rightarrow> int" where
  "next_type t fs = (if fs = [] then t else continuationFrame)"

definition payload_of :: "(bytes \<times> bytes) list \<Rightarrow> bytes" where
  "payload_of fs = concat (map snd fs)"

definition keys_ok :: "(bytes \<times> bytes) list \<Rightarrow> bool" where
  "keys_ok fs \<longleftrightarrow> (\<forall>f \<in> set fs. length (fst f) = 4)"

lemma frames_append:
  "frames_bytes server t (fs @ gs) = frames_bytes server t fs @ frames_bytes server (next_type t fs) gs"
  by (induction server t fs rule: frames_bytes.induct) (auto simp: next_type_def)

lemma payload_simps [simp]: "payload_of [] = []" "payload_of (f # fs) = snd f @ payload_of fs"
  "payload_of (fs @ gs) = payload_of fs @ payload_of gs"
  by (simp_all add: payload_of_def)

lemma keys_simps [simp]: "keys_ok []" "keys_ok (f # fs) \<longleftrightarrow> length (fst f) = 4 \<and> keys_ok fs"
  by (simp_all add: keys_ok_def)

lemma flushed_writable:
  assumes "flushed final extra c key c'" "writable c" "writeFrameType c \<noteq> CloseMessage"
  shows "writable c' \<and> unflushed c' = []"
  using assms by (simp add: flushed_def writable_def unflushed_def ws_consts)

definition filled :: "nat \<Rightarrow> bytes \<Rightarrow> ws_conn \<Rightarrow> ws_conn" where
  "filled n p c = c\<lparr>writeBuf := put_at (writePos c) (take n p) (writeBuf c), writePos := writePos c + n\<rparr>"

lemma filled_ok:
  assumes "writable c" "n \<le> length (writeBuf c) - writePos c" "n \<le> length p"
  shows "writable (filled n p c) \<and> unflushed (filled n p c) = unflushed c @ take n p \<and> net (filled n p c) = net c \<and>
    writeFrameType (filled n p c) = writeFrameType c \<and> writeSeq (filled n p c) = writeSeq c \<and>
    isServer (filled n p c) = isServer c \<and> length (writeBuf (filled n p c)) = length (writeBuf c)"
proof -
  let ?b = "put_at (writePos c) (take n p) (writeBuf c)"
  have w: "14 \<le> writePos c" "writePos c + n \<le> length (writeBuf c)" using assms by (auto simp: writable_def)
  have "subslice 14 (writePos c + n) ?b = subslice 14 (writePos c) (writeBuf c) @ take n p"
    using subslice_split [of 14 "writePos c" "writePos c + n" ?b] w assms(3) by simp
  moreover have "length ?b = length (writeBuf c)" using w assms(3) by simp
  ultimately show ?thesis using assms w by (auto simp: writable_def filled_def unflushed_def ws_consts)
qed

definition copied :: "bytes \<Rightarrow> ws_conn \<Rightarrow> (bytes \<times> bytes) list \<Rightarrow> ws_conn \<Rightarrow> bool" where
  "copied p c fs c' \<longleftrightarrow> writable c' \<and> keys_ok fs \<and> payload_of fs @ unflushed c' = unflushed c @ p \<and>
     sent (net c') = sent (net c) @ frames_bytes (isServer c) (writeFrameType c) fs \<and>
     writeFrameType c' = next_type (writeFrameType c) fs \<and> writeSeq c' = writeSeq c \<and> isServer c' = isServer c"

lemma copied_filled:
  assumes "writable c" "n \<le> length (writeBuf c) - writePos c" "n \<le> length p" "copied (drop n p) (filled n p c) fs c'"
  shows "copied p c fs c'"
  using filled_ok [OF assms(1-3)] assms(4) by (simp add: copied_def)

lemma copied_flushed:
  assumes "flushed False [] c key c1" "copied p c1 fs c'" "writable c" "writeFrameType c \<noteq> CloseMessage"
  shows "copied p c ((key, unflushed c) # fs) c'"
  using flushed_writable [OF assms(1,3,4)] assms(1,2)
  by (auto simp: copied_def flushed_def next_type_def)

lemma copy_loop_ok:
  assumes "writable c" "\<not> isControl (writeFrameType c)" "length (unflushed c @ p) < 2 ^ 64"
  shows "\<exists>fs c'. copy_loop p c = Some (None, c') \<and> copied p c fs c'"
  using assms
proof (induction "length p" arbitrary: p c rule: less_induct)
  case less
  show ?case
  proof (cases "p = []")
    case True
    with less.prems show ?thesis
      by (intro exI [of _ "[]"] exI [of _ c]) (simp add: copy_loop.simps copied_def next_type_def)
  next
    case p: False
    have close: "writeFrameType c \<noteq> CloseMessage" using less.prems(2) by (auto simp: isControl_def)
    have step: "\<exists>fs c'. copy_loop (drop n p) (filled n p c1) = Some (None, c') \<and> copied p c1 fs c'"
      if c1: "writable c1" "\<not> isControl (writeFrameType c1)" "length (unflushed c1 @ p) < 2 ^ 64"
        "writePos c1 < length (writeBuf c1)" "n = min (length (writeBuf c1) - writePos c1) (length p)" for c1 n
    proof -
      have n: "0 < n" "n \<le> length (writeBuf c1) - writePos c1" "n \<le> length p" using p c1(4,5) by auto
      note f = filled_ok [OF c1(1) n(2,3)]
      have "length (drop n p) < length p" using n p by simp
      from less.hyps [OF this, of "filled n p c1"] f c1(2,3) obtain fs c' where
        "copy_loop (drop n p) (filled n p c1) = Some (None, c')" "copied (drop n p) (filled n p c1) fs c'" by auto
      with copied_filled [OF c1(1) n(2,3)] show ?thesis by blast
    qed
    show ?thesis
    proof (cases "writePos c < length (writeBuf c)")
      case True
      from step [OF less.prems True refl] show ?thesis
        using p True by (subst copy_loop.simps) (simp add: ncopy_def filled_def)
    next
      case False
      from flushFrame_ok [OF less.prems(1), of False "[]"] less.prems(2,3) obtain c1 key where
        fl: "flushFrame False [] c = (None, c1)" "flushed False [] c key c1" by auto
      note w = flushed_writable [OF fl(2) less.prems(1) close]
      have c1: "\<not> isControl (writeFrameType c1)" "writePos c1 < length (writeBuf c1)"
        using fl(2) w by (auto simp: flushed_def isControl_def ws_consts writable_def)
      from step [OF _ c1(1) _ c1(2) refl] w less.prems(3) obtain fs c' where
        "copy_loop (drop (min (length (writeBuf c1) - writePos c1) (length p)) p)
          (filled (min (length (writeBuf c1) - writePos c1) (length p)) p c1) = Some (None, c')" "copied p c1 fs c'" by auto
      moreover from copied_flushed [OF fl(2) this(2) less.prems(1) close] have "copied p c ((key, unflushed c) # fs) c'" .
      ultimately show ?thesis using p False fl(1)
        by (subst copy_loop.simps) (simp add: ncopy_def filled_def, blast)
    qed
  qed
qed

text \<open>Between messages.\<close>

definition ready :: "ws_conn \<Rightarrow> bool" where
  "ready c \<longleftrightarrow> writable c \<and> writeFrameType c = noFrame \<and> unflushed c = []"

definition message_bytes :: "bool \<Rightarrow> int \<Rightarrow> (bytes \<times> bytes) list \<Rightarrow> bytes \<Rightarrow> bytes \<Rightarrow> bytes" where
  "message_bytes server t fs key p = frames_bytes server t fs @ frame_bytes server True (next_type t fs) key p"

lemma WriteMessage_ok:
  assumes c: "ready c" and t: "isData t" and len: "length data < 2 ^ 64"
  shows "\<exists>c' fs key p. WriteMessage t data c = Some (None, c') \<and> ready c' \<and> isServer c' = isServer c \<and>
    keys_ok fs \<and> length key = 4 \<and> payload_of fs @ p = data \<and>
    sent (net c') = sent (net c) @ message_bytes (isServer c) t fs key p"
proof -
  define c1 where "c1 = c\<lparr>writeFrameType := t\<rparr>"
  have nw: "NextWriter t c = (Inr (writeSeq c1), c1)"
    using c t by (simp add: NextWriter_def ready_def writable_def c1_def)
  have c1: "writable c1" "unflushed c1 = []" "writeFrameType c1 = t" "isServer c1 = isServer c" "net c1 = net c"
    "writeErr c1 = None" using c by (simp_all add: ready_def writable_def unflushed_def c1_def)
  have data: "\<not> isControl t" "t \<noteq> CloseMessage" using t by (auto simp: isData_def isControl_def ws_consts)
  have ready: "ready c3" if "flushed True ex c2 key c3" "writable c2" "writeFrameType c2 \<noteq> CloseMessage" for ex c2 key c3
    using flushed_writable [OF that] that(1) by (simp add: ready_def flushed_def)
  show ?thesis
  proof (cases "2 * length (writeBuf c1) < length data \<and> isServer c1")
    case True
    from flushFrame_ok [OF c1(1), of True data] c1(2,3) data len True obtain c2 key where
      f: "flushFrame True data c1 = (None, c2)" "flushed True data c1 key c2" by auto
    then have "WriteMessage t data c = Some (None, c2)"
      using nw True c1(6) by (simp add: WriteMessage_def writer_write_def writer_err_def flushed_def)
    with ready [OF f(2) c1(1)] f(2) c1 data show ?thesis
      by (intro exI [of _ c2] exI [of _ "[]"] exI [of _ key] exI [of _ data])
        (simp add: flushed_def message_bytes_def next_type_def)
  next
    case False
    from copy_loop_ok [OF c1(1), of data] c1(2,3) data len obtain fs c2 where
      l: "copy_loop data c1 = Some (None, c2)" "copied data c1 fs c2" by auto
    have c2: "writable c2" "writeSeq c2 = writeSeq c1" "keys_ok fs" "payload_of fs @ unflushed c2 = data"
      "writeFrameType c2 = next_type t fs" "isServer c2 = isServer c" "sent (net c2) = sent (net c) @ frames_bytes (isServer c) t fs"
      using l(2) c1 by (simp_all add: copied_def)
    have d2: "\<not> isControl (next_type t fs)" "next_type t fs \<noteq> CloseMessage"
      using data by (auto simp: next_type_def isControl_def ws_consts)
    have "length (unflushed c2) \<le> length data" using c2(4) by (metis length_append le_add2)
    with flushFrame_ok [OF c2(1), of True "[]"] d2 c2(5) len obtain c3 key where
      f: "flushFrame True [] c2 = (None, c3)" "flushed True [] c2 key c3" by auto
    have "WriteMessage t data c = Some (None, c3)"
      using nw False c1(6) l(1) c2(2) f(1) by (auto simp: WriteMessage_def writer_write_def writer_err_def)
    with ready [OF f(2) c2(1)] f(2) c2 d2 show ?thesis
      by (intro exI [of _ c3] exI [of _ fs] exI [of _ key] exI [of _ "unflushed c2"])
        (simp add: flushed_def message_bytes_def)
  qed
qed

subsection \<open>Reading frames\<close>

text \<open>Reading changes nothing else of the network.\<close>

definition same_wire :: "wire \<Rightarrow> wire \<Rightarrow> bool" where
  "same_wire w w' \<longleftrightarrow> sent w' = sent w \<and> write_fault w' = write_fault w \<and> wire_clock w' = wire_clock w \<and>
     lock_late w' = lock_late w \<and> input_end w' = input_end w"

lemma same_wire_refl [simp]: "same_wire w w"
  by (simp add: same_wire_def)

lemma same_wire_trans: "same_wire a b \<Longrightarrow> same_wire b c \<Longrightarrow> same_wire a c"
  by (simp add: same_wire_def)

lemma wire_read_quiet: "wire_read m w = (r, w') \<Longrightarrow> same_wire w w'"
  by (auto simp: wire_read_def same_wire_def Let_def split: if_splits)

lemma wire_read_ok:
  assumes "0 < m" "input w \<noteq> []"
  shows "\<exists>n w'. wire_read m w = (Inr (take n (input w)), w') \<and> 0 < n \<and> n \<le> m \<and> input w' = drop n (input w)"
  using assms
  by (auto simp: wire_read_def Let_def intro!: exI [of _ "min m (max 1 (read_size w (reads w)))"])

lemma readFull_ok:
  "length b = m \<Longrightarrow> input w = b @ r \<Longrightarrow> \<exists>w'. readFull m w = (Inr b, w') \<and> input w' = r"
proof (induction m w arbitrary: b rule: readFull.induct)
  case (1 m w)
  show ?case
  proof (cases "m = 0")
    case True
    with 1(2,3) show ?thesis by (subst readFull.simps) simp
  next
    case False
    with 1(2,3) have "input w \<noteq> []" by auto
    with wire_read_ok [of m w] False obtain n w1 where n: "wire_read m w = (Inr (take n (input w)), w1)" "0 < n" "n \<le> m"
      "input w1 = drop n (input w)" by auto
    have t: "take n (input w) = take n b" "input w1 = drop n b @ r" "length (take n b) = n" using n(3,4) 1(2,3) by auto
    have "length (drop n b) = m - length (take n b)" using 1(2) n(3) by simp
    with 1(1) [OF False n(1) [symmetric] refl, of "drop n b"] t obtain w2 where
      "readFull (m - n) w1 = (Inr (drop n b), w2)" "input w2 = r" by auto
    with n(1) t False show ?thesis by (subst readFull.simps) simp
  qed
qed

lemma readFull_quiet: "readFull m w = (r, w') \<Longrightarrow> same_wire w w'"
proof (induction m w arbitrary: r w' rule: readFull.induct)
  case (1 m w)
  show ?case
  proof (cases "m = 0")
    case True
    with 1(2) show ?thesis by (simp add: readFull.simps)
  next
    case False
    obtain x w1 where x: "wire_read m w = (x, w1)" by (cases "wire_read m w")
    note q = wire_read_quiet [OF x]
    show ?thesis
    proof (cases x)
      case (Inl e)
      with 1(2) False x q show ?thesis by (subst (asm) readFull.simps) auto
    next
      case (Inr b)
      obtain y w2 where y: "readFull (m - length b) w1 = (y, w2)" by (cases "readFull (m - length b) w1")
      from 1(1) [OF False x [symmetric] Inr y] same_wire_trans [OF q] have "same_wire w w2" by blast
      with 1(2) False x Inr y show ?thesis by (subst (asm) readFull.simps) (auto split: sum.splits)
    qed
  qed
qed

lemma read_bytes_ok:
  assumes "length b = m" "input (net c) = b @ r"
  shows "\<exists>w. (input w = r \<and> same_wire (net c) w) \<and> read_bytes m k c = k b (c\<lparr>net := w\<rparr>)"
  using readFull_ok [OF assms] readFull_quiet by (fastforce simp: read_bytes_def)

lemma int64_id: "- (2 ^ 63) \<le> i \<Longrightarrow> i < 2 ^ 63 \<Longrightarrow> int64 i = i"
  by (simp add: int64_def int_word_sint)

lemma head_bytes:
  assumes "t \<in> {0, 1, 2, 8, 9, 10 :: int}" "n < 2 ^ 64"
  shows "\<exists>a b. frame_head server final t n = [a, b] @ len_ext n \<and>
    (of_char a AND finalBit \<noteq> 0) = final \<and> int (of_char a AND 15) = t \<and> drop_bit 4 (of_char a) AND 7 = (0 :: nat) \<and>
    (of_char b AND maskBit \<noteq> 0) = (\<not> server) \<and> of_char b AND 127 = len_code n"
proof -
  let ?x = "header_byte0 final t" and ?y = "header_byte1 server OR len_code n"
  note hb = header_bits [OF type_bits(1) [OF assms(1)]]
  have l: "len_code n < 128" by (simp add: len_code_def)
  note lb = header_bits [OF l]
  have x: "?x = (if final then nat (t mod 256) OR 128 else nat (t mod 256))" by (simp add: header_byte0_def ws_consts)
  have y: "?y = (if server then len_code n else len_code n OR 128)"
    by (cases server) (simp_all add: header_byte1_def maskBit_def, rule or.commute)
  have "?x < 256" "?y < 256" unfolding x y using type_bits(1) [OF assms(1)] hb(5) l lb(5) by (simp_all split: if_split)
  then have c: "of_char (char_of ?x :: char) = ?x" "of_char (char_of ?y :: char) = ?y" by simp_all
  have t: "int (nat t) = t" using assms(1) by auto
  have "(?x AND finalBit \<noteq> 0) = final" unfolding x finalBit_def using hb(2,4) by (cases final) simp_all
  moreover have "int (?x AND 15) = t" unfolding x using type_bits(2,3) [OF assms(1)] t by (cases final) simp_all
  moreover have "drop_bit 4 ?x AND 7 = 0" unfolding x using type_bits(4,5) [OF assms(1)] by (cases final) simp_all
  moreover have "(?y AND maskBit \<noteq> 0) = (\<not> server)" unfolding y maskBit_def using lb(2,4) by (cases server) simp_all
  moreover have "?y AND 127 = len_code n" unfolding y using lb(1,3) by (cases server) simp_all
  ultimately show ?thesis
    apply -
    apply (rule exI [of _ "char_of ?x"])
    apply (rule exI [of _ "char_of ?y"])
    apply (simp only: c frame_head_def append_Cons append_Nil)
    done
qed

lemma read_frame_length_ok:
  assumes "readRemaining c = int (len_code n)" "input (net c) = len_ext n @ r" "n < 2 ^ 64"
  shows "\<exists>w. (input w = r \<and> same_wire (net c) w) \<and> read_frame_length k c = k (c\<lparr>net := w, readRemaining := int64 (int n)\<rparr>)"
proof -
  have l: "length (len_ext n) = (if 65536 \<le> n then 8 else if 125 < n then 2 else 0)" using assms(3) by (intro len_ext_length)
  consider "n \<le> 125" | "125 < n" "n < 65536" | "65536 \<le> n" by linarith
  then show ?thesis
  proof cases
    case 1
    with assms show ?thesis
      by (intro exI [of _ "net c"]) (cases c, simp add: read_frame_length_def len_code_def len_ext_def int64_id)
  next
    case 2
    from read_bytes_ok [of "len_ext n" 2 c r "\<lambda>b c1. k (c1\<lparr>readRemaining := int (bytes_nat b)\<rparr>)"] 2 l assms(2) obtain w where
      "input w = r \<and> same_wire (net c) w" "read_bytes 2 (\<lambda>b c1. k (c1\<lparr>readRemaining := int (bytes_nat b)\<rparr>)) c =
        k (c\<lparr>net := w, readRemaining := int (bytes_nat (len_ext n))\<rparr>)" by auto
    with 2 assms(1) show ?thesis by (intro exI [of _ w]) (simp add: read_frame_length_def len_code_def len_ext_def int64_id)
  next
    case 3
    from read_bytes_ok [of "len_ext n" 8 c r "\<lambda>b c1. k (c1\<lparr>readRemaining := int64 (int (bytes_nat b))\<rparr>)"] 3 l assms(2) obtain w where
      "input w = r \<and> same_wire (net c) w" "read_bytes 8 (\<lambda>b c1. k (c1\<lparr>readRemaining := int64 (int (bytes_nat b))\<rparr>)) c =
        k (c\<lparr>net := w, readRemaining := int64 (int (bytes_nat (len_ext n)))\<rparr>)" by auto
    with 3 assms(1,3) show ?thesis
      by (intro exI [of _ w]) (simp add: read_frame_length_def len_code_def len_ext_def)
  qed
qed

lemma read_mask_ok:
  assumes "length key = 4" "input (net c) = (if isServer c then key else []) @ r"
  shows "\<exists>w pos key'. (input w = r \<and> same_wire (net c) w) \<and> (isServer c \<longrightarrow> pos = 0 \<and> key' = key) \<and>
    read_mask (isServer c) k c = k (c\<lparr>net := w, readMaskPos := pos, readMaskKey := key'\<rparr>)"
proof (cases "isServer c")
  case True
  from read_bytes_ok [of key 4 "c\<lparr>readMaskPos := 0\<rparr>" r "\<lambda>b c1. k (c1\<lparr>readMaskKey := b\<rparr>)"] assms True
  obtain w where "input w = r \<and> same_wire (net c) w" "read_bytes 4 (\<lambda>b c1. k (c1\<lparr>readMaskKey := b\<rparr>)) (c\<lparr>readMaskPos := 0\<rparr>) =
      k (c\<lparr>readMaskPos := 0, net := w, readMaskKey := key\<rparr>)" by auto
  with True show ?thesis by (intro exI [of _ w] exI [of _ 0] exI [of _ key]) (cases c, simp add: read_mask_def)
next
  case False
  with assms show ?thesis
    by (intro exI [of _ "net c"] exI [of _ "readMaskPos c"] exI [of _ "readMaskKey c"]) (cases c, simp add: read_mask_def)
qed

text \<open>A frame is taken apart up to its mask, and up to its body.\<close>

lemma advanceFrame_start:
  assumes i: "input (net c) = frame_head (\<not> masked) final t n @ r" and t: "t \<in> {0, 1, 2, 8, 9, 10}" and n: "n < 2 ^ 64"
    and rem: "readRemaining c \<le> 0" and ch: "\<And>w. check_header final t (c\<lparr>net := w, readRemaining := int (len_code n)\<rparr>) =
      Inr (c\<lparr>net := w, readRemaining := int (len_code n), readFinal := fin\<rparr>)"
  shows "\<exists>w. (input w = r \<and> same_wire (net c) w) \<and>
    advanceFrame c = masked_frame masked t (c\<lparr>readFinal := fin, net := w, readRemaining := int64 (int n)\<rparr>)"
proof -
  from head_bytes [OF t n, of "\<not> masked" final] obtain a b where h: "frame_head (\<not> masked) final t n = [a, b] @ len_ext n"
    and a: "(of_char a AND finalBit \<noteq> 0) = final" "int (of_char a AND 15) = t" "drop_bit 4 (of_char a) AND 7 = (0 :: nat)"
    and b: "(of_char b AND maskBit \<noteq> 0) = masked" "of_char b AND 127 = len_code n" by auto
  define k1 where "k1 = read_frame_length (masked_frame masked t)"
  from i h have "input (net c) = [a, b] @ len_ext n @ r" by simp
  from readFull_ok [OF _ this, of 2] obtain w1 where w1: "readFull 2 (net c) = (Inr [a, b], w1)" "input w1 = len_ext n @ r" by auto
  have 1: "advanceFrame c = k1 (c\<lparr>net := w1, readRemaining := int (len_code n), readFinal := fin\<rparr>)"
    using rem w1(1) ch [of w1] unfolding advanceFrame_def read_bytes_def k1_def
    by (simp add: Let_def a(2,3) b(2) a(1) [unfolded neq0_conv] b(1) [unfolded neq0_conv])
  from read_frame_length_ok [of "c\<lparr>net := w1, readRemaining := int (len_code n), readFinal := fin\<rparr>" n r "masked_frame masked t"] w1(2) n
  obtain w2 where w2: "input w2 = r \<and> same_wire w1 w2" and 2: "k1 (c\<lparr>net := w1, readRemaining := int (len_code n), readFinal := fin\<rparr>) =
      masked_frame masked t (c\<lparr>readFinal := fin, net := w2, readRemaining := int64 (int n)\<rparr>)" by (auto simp: k1_def)
  have "same_wire (net c) w2" using readFull_quiet [OF w1(1)] w2 same_wire_trans by blast
  with 1 2 w2 show ?thesis by (intro exI [of _ w2]) simp
qed

lemma advanceFrame_masked:
  assumes i: "input (net c) = frame_head (\<not> isServer c) final t n @ (if isServer c then key else []) @ r" and k: "length key = 4"
    and t: "t \<in> {0, 1, 2, 8, 9, 10}" and n: "n < 2 ^ 64" and rem: "readRemaining c \<le> 0"
    and ch: "\<And>w. check_header final t (c\<lparr>net := w, readRemaining := int (len_code n)\<rparr>) =
      Inr (c\<lparr>net := w, readRemaining := int (len_code n), readFinal := fin\<rparr>)"
  shows "\<exists>w pos key'. (input w = r \<and> same_wire (net c) w) \<and> (isServer c \<longrightarrow> pos = 0 \<and> key' = key) \<and>
    advanceFrame c = frame_body t (c\<lparr>readFinal := fin, readRemaining := int64 (int n), net := w, readMaskPos := pos, readMaskKey := key'\<rparr>)"
proof -
  let ?r = "(if isServer c then key else []) @ r"
  from advanceFrame_start [OF i t n rem ch] obtain w where w: "input w = ?r \<and> same_wire (net c) w"
    and a: "advanceFrame c = masked_frame (isServer c) t (c\<lparr>readFinal := fin, net := w, readRemaining := int64 (int n)\<rparr>)" by blast
  from read_mask_ok [OF k, of "c\<lparr>readFinal := fin, net := w, readRemaining := int64 (int n)\<rparr>" r "frame_body t"] w
  obtain w3 pos key' where w3: "input w3 = r \<and> same_wire w w3" "isServer c \<longrightarrow> pos = 0 \<and> key' = key" and
    3: "read_mask (isServer c) (frame_body t) (c\<lparr>readFinal := fin, net := w, readRemaining := int64 (int n)\<rparr>) =
      frame_body t (c\<lparr>readFinal := fin, readRemaining := int64 (int n), net := w3, readMaskPos := pos, readMaskKey := key'\<rparr>)" by auto
  have "same_wire (net c) w3" using w w3(1) same_wire_trans by blast
  with a 3 w3 show ?thesis
    by (intro exI [of _ w3] exI [of _ pos] exI [of _ key']) (simp add: masked_frame_def)
qed

lemma advanceFrame_head:
  assumes "input (net c) = frame_head (\<not> isServer c) final t n @ (if isServer c then key else []) @ r" "length key = 4"
    "t \<in> {0, 1, 2, 8, 9, 10}" "n < 2 ^ 63" "readRemaining c \<le> 0"
    "\<And>w. check_header final t (c\<lparr>net := w, readRemaining := int (len_code n)\<rparr>) =
      Inr (c\<lparr>net := w, readRemaining := int (len_code n), readFinal := fin\<rparr>)"
  shows "\<exists>w pos key'. (input w = r \<and> same_wire (net c) w) \<and> (isServer c \<longrightarrow> pos = 0 \<and> key' = key) \<and>
    advanceFrame c = frame_body t (c\<lparr>readFinal := fin, readRemaining := int n, net := w, readMaskPos := pos, readMaskKey := key'\<rparr>)"
proof -
  have "int64 (int n) = int n" using assms(4) by (simp add: int64_id)
  with advanceFrame_masked [OF assms(1-3) _ assms(5,6)] assms(4) show ?thesis by simp
qed

text \<open>
  The next \<open>p\<close> of the payload of the current frame, of which \<open>e\<close> more bytes are to come, is next on the
  network, followed by \<open>r\<close>.
\<close>

definition partly :: "ws_conn \<Rightarrow> nat \<Rightarrow> bytes \<Rightarrow> bytes \<Rightarrow> bool" where
  "partly c e p r \<longleftrightarrow> readRemaining c = int (length p + e) \<and>
     input (net c) = (if isServer c then snd (maskBytes (readMaskKey c) (readMaskPos c) p) else p) @ r"

abbreviation holding :: "ws_conn \<Rightarrow> bytes \<Rightarrow> bytes \<Rightarrow> bool" where
  "holding c p r \<equiv> partly c 0 p r"

lemmas holding_def = partly_def

text \<open>What stays the same on the reading side.\<close>

definition same_reader :: "ws_conn \<Rightarrow> ws_conn \<Rightarrow> bool" where
  "same_reader c c' \<longleftrightarrow> isServer c' = isServer c \<and> readErr c' = readErr c \<and> readSeq c' = readSeq c \<and> readLimit c' = readLimit c \<and>
     closeSent c' = closeSent c \<and> handlePing c' = handlePing c \<and> handlePong c' = handlePong c \<and> same_wire (net c) (net c')"

definition within :: "ws_conn \<Rightarrow> nat \<Rightarrow> bool" where
  "within c n \<longleftrightarrow> - (2 ^ 63) \<le> readLength c \<and> int n < 2 ^ 63 \<and> readLength c + int n < 2 ^ 63 \<and>
     (readLimit c \<le> 0 \<or> readLength c + int n \<le> readLimit c)"

lemma advance_data:
  assumes i: "input (net c) = frame_bytes (\<not> isServer c) final t key p @ r" and k: "length key = 4"
    and t: "t = continuationFrame \<and> \<not> readFinal c \<or> isData t \<and> readFinal c" and rem: "readRemaining c \<le> 0"
    and lim: "within c (length p)"
  shows "\<exists>c'. advanceFrame c = (Inr t, c') \<and> holding c' p r \<and> readFinal c' = final \<and> same_reader c c' \<and>
    readLength c' = readLength c + int (length p)"
proof -
  let ?p = "if isServer c then snd (maskBytes key 0 p) else p"
  have "input (net c) = frame_head (\<not> isServer c) final t (length p) @ (if isServer c then key else []) @ ?p @ r"
    using i by (simp add: frame_bytes_def)
  moreover have "t \<in> {0, 1, 2, 8, 9, 10}" using t by (auto simp: isData_def ws_consts)
  moreover have n: "length p < 2 ^ 63" using lim by (simp add: within_def)
  moreover have "check_header final t (c\<lparr>net := w, readRemaining := int (len_code (length p))\<rparr>) =
      Inr (c\<lparr>net := w, readRemaining := int (len_code (length p)), readFinal := final\<rparr>)" for w
    using t by (auto simp: check_header_def isData_def isControl_def ws_consts)
  ultimately obtain w pos key' where w: "input w = ?p @ r \<and> same_wire (net c) w" "isServer c \<longrightarrow> pos = 0 \<and> key' = key"
    and a: "advanceFrame c = frame_body t (c\<lparr>readFinal := final, readRemaining := int (length p), net := w, readMaskPos := pos, readMaskKey := key'\<rparr>)"
    using advanceFrame_head [OF _ k _ _ rem] by metis
  have l: "int64 (readLength c + int (length p)) = readLength c + int (length p)"
    using lim by (intro int64_id) (auto simp: within_def)
  have "advanceFrame c = (Inr t, c\<lparr>readFinal := final, readRemaining := int (length p), net := w, readMaskPos := pos, readMaskKey := key',
      readLength := readLength c + int (length p)\<rparr>)"
    using t lim l by (auto simp: a frame_body_def data_frame_def within_def)
  with w show ?thesis by (auto simp: holding_def same_reader_def)
qed

lemma read_payload_ok:
  assumes h: "partly c e p r" and p: "p \<noteq> []" and m: "0 < m" and e: "e = 0 \<or> r = []"
  shows "\<exists>b q c'. read_payload m c = ((b, None), c') \<and> b \<noteq> [] \<and> p = b @ q \<and> partly c' e q r \<and> same_reader c c' \<and>
    readFinal c' = readFinal c \<and> readLength c' = readLength c"
proof -
  define k where "k = (if readRemaining c < int m then nat (readRemaining c) else m)"
  let ?e = "\<lambda>pos x. if isServer c then snd (maskBytes (readMaskKey c) pos x) else x"
  have "0 < int (length p)" using p by simp
  then have "0 < int (length p) + int e" by linarith
  with h m e have k: "0 < k" "k \<le> length p \<or> r = []" by (auto simp: k_def partly_def)
  have i: "input (net c) = ?e (readMaskPos c) p @ r" using h by (simp add: partly_def)
  have "input (net c) \<noteq> []" using i p by (auto simp: length_greater_0_conv [symmetric] simp del: length_greater_0_conv)
  from wire_read_ok [OF k(1) this] obtain n w where n: "wire_read k (net c) = (Inr (take n (input (net c))), w)" "0 < n" "n \<le> k"
    "input w = drop n (input (net c))" by blast
  define b q where "b = take n p" and "q = drop n p"
  have p: "p = b @ q" "n - length b = 0 \<or> q = [] \<and> r = []" "b \<noteq> []" using n(2,3) k(2) p by (auto simp: b_def q_def)
  have e: "?e (readMaskPos c) p = ?e (readMaskPos c) b @ ?e (readMaskPos c + length b) q"
    by (simp add: p(1) maskBytes_append)
  have "length b \<le> n" by (simp add: b_def)
  then have t: "take n (input (net c)) = ?e (readMaskPos c) b" "input w = ?e (readMaskPos c + length b) q @ r"
    using p(2) n(4) by (auto simp: i e)
  have "read_payload m c = ((b, None), c\<lparr>net := w, readMaskPos := (if isServer c then (readMaskPos c + length b) mod 4 else readMaskPos c),
      readRemaining := readRemaining c - int (length b)\<rparr>)"
    using n(1) t(1) maskBytes_pos [of "readMaskKey c" "readMaskPos c" "?e (readMaskPos c) b"]
    by (auto simp: read_payload_def k_def [symmetric] Let_def case_prod_unfold)
  with p t(2) h wire_read_quiet [OF n(1)] show ?thesis by (auto simp: partly_def same_reader_def)
qed

subsection \<open>Reading messages\<close>

text \<open>In the middle of a message: what it still has to give, and what follows it.\<close>

definition mid_message :: "ws_conn \<Rightarrow> bytes \<Rightarrow> bytes \<Rightarrow> bool" where
  "mid_message c data rest \<longleftrightarrow> readErr c = None \<and>
     (if readFinal c then holding c data rest
      else \<exists>p fs key q. keys_ok fs \<and> length key = 4 \<and> data = p @ payload_of fs @ q \<and> within c (length (payload_of fs @ q)) \<and>
        holding c p (message_bytes (\<not> isServer c) continuationFrame fs key q @ rest))"

lemma mid_messageI:
  assumes "readErr c = None" "\<not> readFinal c" "keys_ok fs" "length key = 4" "data = p @ payload_of fs @ q"
    "within c (length (payload_of fs @ q))" "holding c p (message_bytes (\<not> isServer c) continuationFrame fs key q @ rest)"
  shows "mid_message c data rest"
  using assms unfolding mid_message_def by (simp only: if_False simp_thms) blast

lemma within_same:
  "within c n \<Longrightarrow> same_reader c c' \<Longrightarrow> readLength c' = readLength c \<Longrightarrow> within c' n"
  by (simp add: within_def same_reader_def)

definition reader_ready :: "ws_conn \<Rightarrow> bool" where
  "reader_ready c \<longleftrightarrow> readErr c = None \<and> readRemaining c = 0 \<and> readFinal c"

lemma next_type_0 [simp]: "next_type continuationFrame fs = continuationFrame"
  by (simp add: next_type_def)

lemma advance_message:
  assumes i: "input (net c) = message_bytes (\<not> isServer c) t fs key q @ rest" and k: "keys_ok fs" "length key = 4"
    and t: "t = continuationFrame \<and> \<not> readFinal c \<or> isData t \<and> readFinal c" and rem: "readRemaining c \<le> 0"
    and lim: "within c (length (payload_of fs @ q))" and err: "readErr c = None"
  shows "\<exists>c'. advanceFrame c = (Inr t, c') \<and> mid_message c' (payload_of fs @ q) rest \<and> same_reader c c'"
proof (cases fs)
  case Nil
  with i have "input (net c) = frame_bytes (\<not> isServer c) True t key q @ rest" by (simp add: message_bytes_def next_type_def)
  from advance_data [OF this k(2) t rem] lim Nil obtain c' where
    "advanceFrame c = (Inr t, c')" "holding c' q rest" "readFinal c'" "same_reader c c'" by auto
  with Nil err show ?thesis by (auto simp: mid_message_def same_reader_def)
next
  case (Cons f gs)
  obtain k1 p1 where f: "f = (k1, p1)" by (cases f)
  have "input (net c) = frame_bytes (\<not> isServer c) False t k1 p1 @ message_bytes (\<not> isServer c) continuationFrame gs key q @ rest"
    using i by (simp add: Cons f message_bytes_def next_type_def)
  moreover have "within c (length p1)" using lim by (auto simp: within_def Cons f)
  moreover have "length k1 = 4" using k Cons f by simp
  ultimately obtain c' where c': "advanceFrame c = (Inr t, c')"
    "holding c' p1 (message_bytes (\<not> isServer c) continuationFrame gs key q @ rest)" "\<not> readFinal c'" "same_reader c c'"
    "readLength c' = readLength c + int (length p1)" using advance_data [of c False t k1 p1, OF _ _ t rem] by blast
  have "within c' (length (payload_of gs @ q))" using lim c'(4,5) by (auto simp: within_def same_reader_def Cons f)
  then have "mid_message c' (payload_of fs @ q) rest"
    using c'(2-4) err k by (intro mid_messageI [of c' gs key _ p1 q]) (simp_all add: same_reader_def Cons f)
  with c'(1,4) show ?thesis by blast
qed

text \<open>What is the same after a message.\<close>

definition same_side :: "ws_conn \<Rightarrow> ws_conn \<Rightarrow> bool" where
  "same_side c c' \<longleftrightarrow> isServer c' = isServer c \<and> readLimit c' = readLimit c \<and> closeSent c' = closeSent c \<and>
     handlePing c' = handlePing c \<and> handlePong c' = handlePong c \<and> same_wire (net c) (net c')"

lemma same_side_reader: "same_reader c c' \<Longrightarrow> same_side c c'"
  by (simp add: same_reader_def same_side_def)

lemma same_side_trans: "same_side a b \<Longrightarrow> same_side b c \<Longrightarrow> same_side a c"
  by (auto simp: same_side_def intro: same_wire_trans)

lemma same_reader_trans: "same_reader a b \<Longrightarrow> same_reader b c \<Longrightarrow> same_reader a c"
  by (auto simp: same_reader_def intro: same_wire_trans)

lemma reader_loop_ok:
  assumes "mid_message c data rest" "0 < m"
  shows "(\<exists>c'. data = [] \<and> reader_loop s m c = (([], Some ErrEOF), c') \<and> reader_ready c' \<and> input (net c') = rest \<and>
      same_side c c') \<or>
    (\<exists>b d c'. b \<noteq> [] \<and> data = b @ d \<and> reader_loop s m c = ((b, None), c') \<and> mid_message c' d rest \<and> same_reader c c')"
  using assms(1)
proof (induction "unread c" arbitrary: c rule: less_induct)
  case less
  have err: "readErr c = None" using less.prems by (simp add: mid_message_def)
  show ?case
  proof (cases "readFinal c")
    case final: True
    with less.prems have h: "holding c data rest" by (simp add: mid_message_def)
    show ?thesis
    proof (cases "data = []")
      case True
      with h final err show ?thesis
        by (intro disjI1) (subst reader_loop.simps, auto simp: holding_def reader_ready_def same_side_def)
    next
      case False
      from read_payload_ok [OF h False assms(2) disjI1 [OF refl]] obtain b q c' where r: "read_payload m c = ((b, None), c')" "b \<noteq> []"
        "data = b @ q" "holding c' q rest" "same_reader c c'" "readFinal c' = readFinal c" by blast
      have "0 < readRemaining c" using h False by (simp add: holding_def)
      then have "reader_loop s m c = ((b, None), c')" using err r(1) by (subst reader_loop.simps) simp
      with r final err show ?thesis by (intro disjI2) (auto simp: mid_message_def same_reader_def)
    qed
  next
    case nonfinal: False
    with less.prems obtain p fs key q where k: "keys_ok fs" "length key = 4" and d: "data = p @ payload_of fs @ q"
      and lim: "within c (length (payload_of fs @ q))"
      and h: "holding c p (message_bytes (\<not> isServer c) continuationFrame fs key q @ rest)" by (auto simp: mid_message_def)
    show ?thesis
    proof (cases "p = []")
      case True
      with h have i: "input (net c) = message_bytes (\<not> isServer c) continuationFrame fs key q @ rest" "readRemaining c = 0"
        by (auto simp: holding_def)
      from advance_message [OF i(1) k _ _ lim err] nonfinal i(2) obtain c1 where
        a: "advanceFrame c = (Inr continuationFrame, c1)" "mid_message c1 data rest" "same_reader c c1" using True d by auto
      have "reader_loop s m c = reader_loop s m c1"
        using err i(2) nonfinal a(1) by (subst reader_loop.simps) (simp add: isData_def ws_consts)
      moreover have "unread c1 < unread c" using advanceFrame_unread [OF a(1)] by simp
      ultimately show ?thesis
        using less.hyps [of c1] a(2) same_reader_trans [OF a(3)] same_side_trans [OF same_side_reader [OF a(3)]] by metis
    next
      case False
      from read_payload_ok [OF h False assms(2) disjI1 [OF refl]] obtain b p' c' where r: "read_payload m c = ((b, None), c')" "b \<noteq> []"
        "p = b @ p'" "holding c' p' (message_bytes (\<not> isServer c) continuationFrame fs key q @ rest)" "same_reader c c'"
        "readFinal c' = readFinal c" "readLength c' = readLength c" by blast
      have "0 < readRemaining c" using h False by (simp add: holding_def)
      then have l: "reader_loop s m c = ((b, None), c')" using err r(1) by (subst reader_loop.simps) simp
      have "mid_message c' (p' @ payload_of fs @ q) rest"
        using r(4-7) nonfinal err k within_same [OF lim r(5,7)]
        by (intro mid_messageI [of c' fs key _ p' q]) (simp_all add: same_reader_def)
      with l r(2,3,5) d show ?thesis by (intro disjI2) auto
    qed
  qed
qed

lemma read_all_ok:
  assumes "mid_message c data rest"
  shows "\<exists>c'. read_all (readSeq c) c = ((data, None), c') \<and> reader_ready c' \<and> input (net c') = rest \<and> same_side c c'"
  using assms
proof (induction "length data" arbitrary: data c rule: less_induct)
  case less
  have "0 < (512 :: nat)" by simp
  from reader_loop_ok [OF less.prems this, of "readSeq c"]
  show ?case
  proof (elim disjE exE conjE)
    fix c' assume "data = []" "reader_loop (readSeq c) 512 c = (([], Some ErrEOF), c')" "reader_ready c'" "input (net c') = rest"
      "same_side c c'"
    then show ?thesis by (subst read_all.simps) (simp add: Reader_Read_def)
  next
    fix b d c1 assume r: "b \<noteq> []" "data = b @ d" "reader_loop (readSeq c) 512 c = ((b, None), c1)" "mid_message c1 d rest"
      "same_reader c c1"
    from less.hyps [OF _ r(4)] r(1,2) obtain c' where "read_all (readSeq c1) c1 = ((d, None), c')" "reader_ready c'"
      "input (net c') = rest" "same_side c1 c'" by auto
    moreover have "readSeq c1 = readSeq c" using r(5) by (simp add: same_reader_def)
    ultimately show ?thesis using r(2,3) same_side_trans [OF same_side_reader [OF r(5)]]
      by (subst read_all.simps) (simp add: Reader_Read_def)
  qed
qed

lemma next_frame_ok:
  assumes c: "reader_ready c" "readLength c = 0" and i: "input (net c) = message_bytes (\<not> isServer c) t fs key q @ rest"
    and k: "keys_ok fs" "length key = 4" and t: "isData t" and len: "length (payload_of fs @ q) < 2 ^ 63"
    and lim: "readLimit c \<le> 0 \<or> int (length (payload_of fs @ q)) \<le> readLimit c"
  shows "\<exists>c'. next_frame c = (Inr t, c') \<and> mid_message c' (payload_of fs @ q) rest \<and> same_reader c c'"
proof -
  have "within c (length (payload_of fs @ q))" using c len lim by (simp add: within_def)
  from advance_message [OF i k _ _ this] c t obtain c1 where
    a: "advanceFrame c = (Inr t, c1)" "mid_message c1 (payload_of fs @ q) rest" "same_reader c c1"
    by (auto simp: reader_ready_def)
  with c t show ?thesis by (subst next_frame.simps) (simp add: reader_ready_def)
qed

lemma ReadMessage_from:
  assumes "NextReader c = (Inr t, c1)" "mid_message c1 data rest"
  shows "\<exists>c'. ReadMessage c = ((t, data, None), c') \<and> reader_ready c' \<and> input (net c') = rest \<and> same_side c1 c'"
  using assms(1) read_all_ok [OF assms(2)] by (auto simp: ReadMessage_def)

definition new_message :: "ws_conn \<Rightarrow> ws_conn" where
  "new_message c = c\<lparr>readSeq := Suc (readSeq c), readLength := 0\<rparr>"

lemma new_message_simps [simp]: "reader_ready (new_message c) = reader_ready c" "readLength (new_message c) = 0"
  "net (new_message c) = net c" "isServer (new_message c) = isServer c" "readLimit (new_message c) = readLimit c"
  "same_side c (new_message c)" "NextReader c = next_frame (new_message c)" "handlePing (new_message c) = handlePing c"
  "closeSent (new_message c) = closeSent c"
  by (simp_all add: new_message_def reader_ready_def same_side_def NextReader_def)

lemma ReadMessage_ok:
  assumes c: "reader_ready c" and i: "input (net c) = message_bytes (\<not> isServer c) t fs key q @ rest"
    and k: "keys_ok fs" "length key = 4" and t: "isData t" and len: "length (payload_of fs @ q) < 2 ^ 63"
    and lim: "readLimit c \<le> 0 \<or> int (length (payload_of fs @ q)) \<le> readLimit c"
  shows "\<exists>c'. ReadMessage c = ((t, payload_of fs @ q, None), c') \<and> reader_ready c' \<and> input (net c') = rest \<and> same_side c c'"
proof -
  from next_frame_ok [of "new_message c" t fs key q rest] assms obtain c1 where
    n: "NextReader c = (Inr t, c1)" "mid_message c1 (payload_of fs @ q) rest" "same_reader (new_message c) c1" by auto
  have "same_side c c1" using same_side_trans [OF new_message_simps(6) same_side_reader [OF n(3)]] .
  from ReadMessage_from [OF n(1,2)] same_side_trans [OF this] show ?thesis by blast
qed

subsection \<open>Messages travel\<close>

fun write_messages :: "(int \<times> bytes) list \<Rightarrow> ws_conn \<Rightarrow> ws_conn option" where
  "write_messages [] c = Some c"
| "write_messages ((t, d) # ms) c =
     (case WriteMessage t d c of Some (None, c1) \<Rightarrow> write_messages ms c1 | _ \<Rightarrow> None)"

fun read_messages :: "nat \<Rightarrow> ws_conn \<Rightarrow> (int \<times> bytes \<times> ws_error option) list \<times> ws_conn" where
  "read_messages 0 c = ([], c)"
| "read_messages (Suc n) c =
     (case ReadMessage c of (m, c1) \<Rightarrow> (case read_messages n c1 of (ms, c2) \<Rightarrow> (m # ms, c2)))"

definition message_ok :: "int \<Rightarrow> int \<times> bytes \<Rightarrow> bool" where
  "message_ok limit m \<longleftrightarrow> isData (fst m) \<and> length (snd m) < 2 ^ 63 \<and> (limit \<le> 0 \<or> int (length (snd m)) \<le> limit)"

lemma messages_written:
  assumes "ready w" "\<forall>m \<in> set ms. message_ok limit m"
  shows "\<exists>w' b. write_messages ms w = Some w' \<and> ready w' \<and> isServer w' = isServer w \<and> sent (net w') = sent (net w) @ b \<and>
    (\<forall>r rest. reader_ready r \<and> isServer r = (\<not> isServer w) \<and> readLimit r = limit \<and> input (net r) = b @ rest \<longrightarrow>
      (\<exists>r'. read_messages (length ms) r = (map (\<lambda>(t, d). (t, d, None)) ms, r') \<and> reader_ready r' \<and> input (net r') = rest))"
  using assms
proof (induction ms arbitrary: w)
  case Nil
  then show ?case by (intro exI [of _ w] exI [of _ "[]"]) auto
next
  case (Cons m ms)
  obtain t d where m: "m = (t, d)" by (cases m)
  from Cons.prems(2) m have ok: "isData t" "length d < 2 ^ 63" "limit \<le> 0 \<or> int (length d) \<le> limit" by (auto simp: message_ok_def)
  from ok(2) have "length d < 2 ^ 64" by simp
  from WriteMessage_ok [OF Cons.prems(1) ok(1) this] obtain w1 fs key p where
    w1: "WriteMessage t d w = Some (None, w1)" "ready w1" "isServer w1 = isServer w" "keys_ok fs" "length key = 4"
      "payload_of fs @ p = d" "sent (net w1) = sent (net w) @ message_bytes (isServer w) t fs key p" by blast
  from Cons.IH [OF w1(2)] Cons.prems(2) obtain w' b where
    w': "write_messages ms w1 = Some w'" "ready w'" "isServer w' = isServer w1" "sent (net w') = sent (net w1) @ b"
    and r: "\<And>r rest. reader_ready r \<Longrightarrow> isServer r = (\<not> isServer w1) \<Longrightarrow> readLimit r = limit \<Longrightarrow> input (net r) = b @ rest \<Longrightarrow>
      \<exists>r'. read_messages (length ms) r = (map (\<lambda>(t, d). (t, d, None)) ms, r') \<and> reader_ready r' \<and> input (net r') = rest"
    by auto
  have "\<exists>r'. read_messages (length (m # ms)) r = (map (\<lambda>(t, d). (t, d, None)) (m # ms), r') \<and> reader_ready r' \<and> input (net r') = rest"
    if h: "reader_ready r" "isServer r = (\<not> isServer w)" "readLimit r = limit"
      "input (net r) = (message_bytes (isServer w) t fs key p @ b) @ rest" for r rest
  proof -
    from h have i: "input (net r) = message_bytes (\<not> isServer r) t fs key p @ b @ rest" by simp
    from ReadMessage_ok [OF h(1) i w1(4,5) ok(1)] ok(2,3) h(3) w1(6) obtain r1 where
      r1: "ReadMessage r = ((t, d, None), r1)" "reader_ready r1" "input (net r1) = b @ rest" "isServer r1 = isServer r"
        "readLimit r1 = readLimit r" by (auto simp: same_side_def)
    from r [OF r1(2) _ _ r1(3)] r1(4,5) h(2,3) w1(3) obtain r' where
      "read_messages (length ms) r1 = (map (\<lambda>(t, d). (t, d, None)) ms, r')" "reader_ready r'" "input (net r') = rest" by auto
    with r1(1) m show ?thesis by simp
  qed
  with w1 w' m show ?case
    by (intro exI [of _ w'] exI [of _ "message_bytes (isServer w) t fs key p @ b"]) auto
qed

text \<open>
  Property C12.  Web socket messages travel.  Whatever is written to a connection between messages, over a
  buffer of any size, as server or as client, fragmented and masked as that needs, the other side reads
  back as the same messages in the same order, however the network cuts the bytes into reads, and is
  then between messages again.
\<close>

theorem messages_travel:
  assumes "ready w" "\<forall>m \<in> set ms. message_ok limit m"
    and "reader_ready r" "isServer r = (\<not> isServer w)" "readLimit r = limit"
  shows "\<exists>w' b. write_messages ms w = Some w' \<and> sent (net w') = sent (net w) @ b \<and>
    (\<forall>rest. input (net r) = b @ rest \<longrightarrow>
      (\<exists>r'. read_messages (length ms) r = (map (\<lambda>(t, d). (t, d, None)) ms, r') \<and> reader_ready r' \<and> input (net r') = rest))"
  using messages_written [OF assms(1,2)] assms(3-5) by blast

subsection \<open>Closing\<close>

lemma closed_write: "closeSent c \<Longrightarrow> ws_write t bufs c = (Some ErrCloseSent, c)"
  by (simp add: ws_write_def)

definition silent :: "ws_conn \<Rightarrow> ws_conn \<Rightarrow> bool" where
  "silent c c' \<longleftrightarrow> closeSent c' \<and> sent (net c') = sent (net c)"

lemma flushFrame_closed:
  assumes "closeSent c"
  shows "\<exists>e c'. flushFrame final extra c = (Some e, c') \<and> silent c c'"
  using assms by (auto simp: flushFrame_def Let_def closed_write newMaskKey_def silent_def split: prod.split)

lemma write_control_closed: "closeSent c \<Longrightarrow> \<exists>e c'. WriteControl t d dl c = (Some e, c') \<and> silent c c'"
  by (auto simp: WriteControl_def control_bytes_def Let_def newMaskKey_def too_late_def wire_now_def write_control_frame_def
      silent_def split: option.split bool.split prod.split)

lemma copy_loop_full:
  assumes "closeSent c" "\<not> writePos c < length (writeBuf c)"
  shows "\<exists>e c'. copy_loop p c = Some (e, c') \<and> silent c c' \<and> (e = None \<longrightarrow> c' = c)"
proof (cases "p = []")
  case True
  with assms(1) show ?thesis by (simp add: copy_loop.simps silent_def)
next
  case False
  from flushFrame_closed [OF assms(1), of False "[]"] obtain e c' where "flushFrame False [] c = (Some e, c')" "silent c c'" by blast
  with False assms(2) show ?thesis by (subst copy_loop.simps) (simp add: ncopy_def)
qed

lemma copy_loop_closed:
  assumes "closeSent c"
  shows "\<exists>e c'. copy_loop p c = Some (e, c') \<and> silent c c' \<and> (e = None \<longrightarrow> writeSeq c' = writeSeq c)"
proof (cases "p \<noteq> [] \<and> writePos c < length (writeBuf c)")
  case True
  define n where "n = min (length (writeBuf c) - writePos c) (length p)"
  have l: "copy_loop p c = copy_loop (drop n p) (filled n p c)"
    using True by (subst copy_loop.simps) (simp add: ncopy_def filled_def n_def)
  have f: "closeSent (filled n p c)" "sent (net (filled n p c)) = sent (net c)" "writeSeq (filled n p c) = writeSeq c"
    using assms by (simp_all add: filled_def)
  show ?thesis
  proof (cases "drop n p = []")
    case True
    then show ?thesis using l f by (simp add: copy_loop.simps silent_def)
  next
    case False
    have "length (put_at (writePos c) (take n p) (writeBuf c)) = length (writeBuf c)" using True by (intro length_put_at) (simp add: n_def, arith)
    then have "\<not> writePos (filled n p c) < length (writeBuf (filled n p c))" using False True by (simp add: filled_def n_def)
    from copy_loop_full [OF f(1) this, of "drop n p"] l f(2,3) show ?thesis by (auto simp: silent_def)
  qed
next
  case False
  then have "p = [] \<or> \<not> writePos c < length (writeBuf c)" by blast
  then show ?thesis
  proof
    assume "p = []"
    with assms show ?thesis by (simp add: copy_loop.simps silent_def)
  next
    assume "\<not> writePos c < length (writeBuf c)"
    from copy_loop_full [OF assms this] show ?thesis by blast
  qed
qed

lemma silent_trans: "silent a b \<Longrightarrow> silent b c \<Longrightarrow> silent a c"
  by (simp add: silent_def)

lemma NextWriter_closed:
  assumes "closeSent c"
  shows "\<exists>r c1. NextWriter t c = (r, c1) \<and> silent c c1 \<and> (\<forall>s. r = Inr s \<longrightarrow> s = writeSeq c1 \<and> writeErr c1 = None)"
proof (cases "writeErr c = None \<and> writeFrameType c \<noteq> noFrame")
  case True
  from flushFrame_closed [OF assms, of True "[]"] True show ?thesis by (auto simp: NextWriter_def)
next
  case False
  with assms show ?thesis by (auto simp: NextWriter_def silent_def split: option.split)
qed

lemma WriteMessage_closed:
  assumes "closeSent c"
  shows "\<exists>e c'. WriteMessage t data c = Some (Some e, c') \<and> silent c c'"
proof -
  from NextWriter_closed [OF assms] obtain r c1 where n: "NextWriter t c = (r, c1)" "silent c c1"
    "\<forall>s. r = Inr s \<longrightarrow> s = writeSeq c1 \<and> writeErr c1 = None" by blast
  have closed: "closeSent c1" using n(2) by (simp add: silent_def)
  show ?thesis
  proof (cases r)
    case (Inl e)
    with n show ?thesis by (simp add: WriteMessage_def)
  next
    case (Inr s)
    then have s: "writer_err s c1 = None" "s = writeSeq c1" using n(3) by (simp_all add: writer_err_def)
    show ?thesis
    proof (cases "2 * length (writeBuf c1) < length data \<and> isServer c1")
      case True
      from flushFrame_closed [OF closed, of True data] obtain e c2 where f: "flushFrame True data c1 = (Some e, c2)" "silent c1 c2" by blast
      have "silent c c2" using n(2) f(2) silent_trans by blast
      with f(1) n(1) Inr s True show ?thesis by (simp add: WriteMessage_def writer_write_def)
    next
      case False
      from copy_loop_closed [OF closed, of data] obtain e c2 where
        l: "copy_loop data c1 = Some (e, c2)" "silent c1 c2" "e = None \<longrightarrow> writeSeq c2 = writeSeq c1" by blast
      from flushFrame_closed [of c2 True "[]"] l(2) obtain e3 c3 where f: "flushFrame True [] c2 = (Some e3, c3)" "silent c2 c3"
        by (auto simp: silent_def)
      have "silent c c2" "silent c c3" using n(2) l(2) f(2) silent_trans by blast+
      moreover have "writer_write s True data c1 = Some (case e of None \<Rightarrow> Inr (length data) | Some x \<Rightarrow> Inl x, c2)"
        using s(1) False l(1) by (auto simp: writer_write_def)
      ultimately show ?thesis using l(3) f(1) n(1) Inr s(2) by (cases e) (simp_all add: WriteMessage_def)
    qed
  qed
qed

text \<open>
  Property C18.  A close frame is the last frame.  Once one was sent, every later message and control frame
  fails and writes nothing, whatever state the message writer was left in.
\<close>

theorem close_is_last:
  assumes "closeSent c"
  shows "(\<exists>e c'. WriteMessage t data c = Some (Some e, c') \<and> closeSent c' \<and> sent (net c') = sent (net c)) \<and>
    (\<exists>e c'. WriteControl t data deadline c = (Some e, c') \<and> closeSent c' \<and> sent (net c') = sent (net c))"
  using WriteMessage_closed [OF assms, of t data] write_control_closed [OF assms, of t data deadline]
  by (simp add: silent_def)

subsection \<open>Control frames\<close>

text \<open>The clock does not run backwards over the second a control frame may wait, and the lock is free.\<close>

definition on_time :: "ws_conn \<Rightarrow> bool" where
  "on_time c \<longleftrightarrow> (\<forall>n. wire_clock (net c) (Suc n) \<le> wire_clock (net c) n + ws_writeWait) \<and> (\<forall>n. \<not> lock_late (net c) n)"

lemma wire_write_ok: "write_fault w = (\<lambda>_. None) \<Longrightarrow> wire_write b w = (length b, None, w\<lparr>writes := Suc (writes w), sent := sent w @ b\<rparr>)"
  by (simp add: wire_write_def)

definition keeps_net :: "ws_conn \<Rightarrow> wire \<Rightarrow> bool" where
  "keeps_net c w \<longleftrightarrow> input w = input (net c) \<and> write_fault w = (\<lambda>_. None) \<and> wire_clock w = wire_clock (net c) \<and>
     lock_late w = lock_late (net c) \<and> input_end w = input_end (net c)"

lemma write_control_frame_ok:
  assumes "\<not> closeSent c" "wire_write buf (net c) = (length buf, None, w)"
  shows "write_control_frame t buf c = (None, c\<lparr>closeSent := (t = CloseMessage), net := w\<rparr>)"
proof (cases "t = CloseMessage")
  case True
  with assms show ?thesis by (simp add: write_control_frame_def)
next
  case False
  from assms(1) have "c\<lparr>net := w\<rparr> = c\<lparr>closeSent := False, net := w\<rparr>" by (cases c) simp
  with False assms show ?thesis by (simp add: write_control_frame_def)
qed

lemma send_control_ok:
  assumes t: "isControl t" and d: "length d \<le> 125" and c: "\<not> closeSent c" "write_fault (net c) = (\<lambda>_. None)" "on_time c"
  shows "\<exists>key w. length key = 4 \<and> send_control t d c = c\<lparr>closeSent := (t = CloseMessage), net := w\<rparr> \<and>
    sent w = sent (net c) @ frame_bytes (isServer c) True t key d \<and> keeps_net c w"
proof -
  define c1 where "c1 = snd (wire_now c)"
  define key where "key = mask_key (random32 (net c1) (keys_drawn (net c1)))"
  define c2 where "c2 = (if isServer c then c1 else snd (newMaskKey c1))"
  define now where "now = wire_clock (net c) (wire_ticks (net c))"
  have b: "control_bytes t d c1 = (frame_bytes (isServer c) True t key d, c2)"
    using d by (simp add: control_bytes_def c1_def c2_def wire_now_def frame_bytes_def frame_head_def len_code_def len_ext_def
        key_def newMaskKey_def Let_def)
  define c3 where "c3 = snd (wire_now c2)"
  have l: "too_late (Some (now + ws_writeWait)) c2 = (False, c3)"
    using c(3) by (simp add: too_late_def wire_now_def c3_def c2_def c1_def newMaskKey_def now_def on_time_def not_less)
  have n: "sent (net c3) = sent (net c)" "keeps_net c (net c3)"
    using c(2) by (simp_all add: c3_def c2_def c1_def wire_now_def newMaskKey_def keeps_net_def)
  have s: "send_control t d c = snd (write_control_frame t (frame_bytes (isServer c) True t key d) c3)"
    using t d b l by (simp add: send_control_def WriteControl_def c1_def now_def wire_now_def ws_consts)
  define w where "w = (net c3)\<lparr>writes := Suc (writes (net c3)), sent := sent (net c3) @ frame_bytes (isServer c) True t key d\<rparr>"
  have w: "sent w = sent (net c) @ frame_bytes (isServer c) True t key d" "keeps_net c w"
    using n by (simp_all add: w_def keeps_net_def)
  have "wire_write (frame_bytes (isServer c) True t key d) (net c3) = (length (frame_bytes (isServer c) True t key d), None, w)"
    using n(2) wire_write_ok [of "net c3"] by (simp add: w_def keeps_net_def)
  moreover have c3: "c3 = c\<lparr>net := net c3\<rparr>"
    by (simp add: c3_def c2_def c1_def wire_now_def newMaskKey_def)
  then have "closeSent c3 = closeSent c" by (metis ws_conn.select_convs(4) ws_conn.surjective ws_conn.update_convs(1))
  ultimately have "write_control_frame t (frame_bytes (isServer c) True t key d) c3 = (None, c3\<lparr>closeSent := (t = CloseMessage), net := w\<rparr>)"
    using c(1) by (intro write_control_frame_ok) simp_all
  also have "c3\<lparr>closeSent := (t = CloseMessage), net := w\<rparr> = c\<lparr>closeSent := (t = CloseMessage), net := w\<rparr>"
    by (subst c3) (cases c, simp)
  finally have "write_control_frame t (frame_bytes (isServer c) True t key d) c3 = (None, c\<lparr>closeSent := (t = CloseMessage), net := w\<rparr>)" .
  with s w show ?thesis by (intro exI [of _ key] exI [of _ w]) (simp add: key_def)
qed

lemma on_time_quiet: "keeps_net c w \<Longrightarrow> on_time c \<Longrightarrow> on_time (c\<lparr>net := w\<rparr>)"
  by (simp add: keeps_net_def on_time_def)

text \<open>Able to answer with control frames.\<close>

definition answering :: "ws_conn \<Rightarrow> bool" where
  "answering c \<longleftrightarrow> \<not> closeSent c \<and> write_fault (net c) = (\<lambda>_. None) \<and> on_time c"

lemma answering_quiet: "answering c \<Longrightarrow> closeSent c' = closeSent c \<Longrightarrow> same_wire (net c) (net c') \<Longrightarrow> answering c'"
  by (simp add: answering_def same_wire_def on_time_def)

lemma advance_ping:
  assumes i: "input (net c) = frame_bytes (\<not> isServer c) True PingMessage key p @ r" and k: "length key = 4" "length p \<le> 125"
    and c: "reader_ready c" "handlePing c = None" "answering c"
  shows "\<exists>c' pk. advanceFrame c = (Inr PingMessage, c') \<and> length pk = 4 \<and> reader_ready c' \<and> input (net c') = r \<and>
    sent (net c') = sent (net c) @ frame_bytes (isServer c) True PongMessage pk p \<and> readLength c' = readLength c \<and>
    isServer c' = isServer c \<and> readLimit c' = readLimit c"
proof -
  let ?p = "if isServer c then snd (maskBytes key 0 p) else p"
  have "input (net c) = frame_head (\<not> isServer c) True PingMessage (length p) @ (if isServer c then key else []) @ ?p @ r"
    using i by (simp add: frame_bytes_def)
  moreover have "check_header True PingMessage (c\<lparr>net := w, readRemaining := int (len_code (length p))\<rparr>) =
      Inr (c\<lparr>net := w, readRemaining := int (len_code (length p)), readFinal := True\<rparr>)" for w
    using k(2) c(1) by (cases c) (simp add: check_header_def isControl_def len_code_def reader_ready_def ws_consts)
  ultimately obtain w pos key' where w: "input w = ?p @ r \<and> same_wire (net c) w" "isServer c \<longrightarrow> pos = 0 \<and> key' = key"
    and a: "advanceFrame c = frame_body PingMessage (c\<lparr>readFinal := True, readRemaining := int (length p), net := w, readMaskPos := pos, readMaskKey := key'\<rparr>)"
    using advanceFrame_head [of c True PingMessage "length p" key "?p @ r" True] k c(1) by (auto simp: reader_ready_def ws_consts)
  define c1 where "c1 = c\<lparr>readFinal := True, net := w, readMaskPos := pos, readMaskKey := key', readRemaining := 0\<rparr>"
  have c1s: "isServer c1 = isServer c" "readMaskKey c1 = key'" "net c1 = w" "readRemaining c1 = 0" by (simp_all add: c1_def)
  have "\<exists>w2. input w2 = r \<and> same_wire w w2 \<and> advanceFrame c = handle_control PingMessage p (c1\<lparr>net := w2\<rparr>)"
  proof (cases "p = []")
    case True
    have "c\<lparr>readFinal := True, readRemaining := 0, net := w, readMaskPos := pos, readMaskKey := key'\<rparr> = c1\<lparr>net := w\<rparr>"
      by (cases c) (simp add: c1_def)
    then have "advanceFrame c = handle_control PingMessage p (c1\<lparr>net := w\<rparr>)"
      using True c1s(4) by (simp add: a frame_body_def control_frame_def isData_def ws_consts)
    then show ?thesis using w(1) True by (intro exI [of _ w]) simp
  next
    case False
    from read_bytes_ok [of ?p "length p" c1 r "\<lambda>payload c2. handle_control PingMessage
        (if isServer c2 then snd (maskBytes (readMaskKey c2) 0 payload) else payload) c2"] w(1) obtain w2 where
      "input w2 = r \<and> same_wire w w2" "read_bytes (length p) (\<lambda>payload c2. handle_control PingMessage
        (if isServer c2 then snd (maskBytes (readMaskKey c2) 0 payload) else payload) c2) c1 =
        handle_control PingMessage (if isServer c then snd (maskBytes key' 0 ?p) else ?p) (c1\<lparr>net := w2\<rparr>)"
      by (cases "isServer c") (auto simp: c1s)
    moreover have "(if isServer c then snd (maskBytes key' 0 ?p) else ?p) = p" using w(2) by simp
    ultimately show ?thesis using False
      by (intro exI [of _ w2]) (simp add: a frame_body_def control_frame_def isData_def ws_consts c1_def)
  qed
  then obtain w2 where w2: "input w2 = r" "same_wire w w2" "advanceFrame c = handle_control PingMessage p (c1\<lparr>net := w2\<rparr>)" by blast
  have q: "same_wire (net c) w2" using w(1) w2(2) same_wire_trans by blast
  have "answering (c1\<lparr>net := w2\<rparr>)" by (rule answering_quiet [OF c(3)]) (simp_all add: c1_def q)
  then obtain pk w3 where w3: "length pk = 4" "send_control PongMessage p (c1\<lparr>net := w2\<rparr>) = (c1\<lparr>net := w2\<rparr>)\<lparr>closeSent := False, net := w3\<rparr>"
      "sent w3 = sent w2 @ frame_bytes (isServer c) True PongMessage pk p" "input w3 = r"
    using send_control_ok [of PongMessage p "c1\<lparr>net := w2\<rparr>"] k(2) w2(1)
    by (auto simp: answering_def isControl_def ws_consts keeps_net_def c1_def)
  have "handle_control PingMessage p (c1\<lparr>net := w2\<rparr>) = (Inr PingMessage, (c1\<lparr>net := w2\<rparr>)\<lparr>closeSent := False, net := w3\<rparr>)"
    using c(2) w3(2) by (simp add: handle_control_def c1_def ws_consts)
  with w2(3) w3 q c(1) show ?thesis
    by (intro exI [of _ "(c1\<lparr>net := w2\<rparr>)\<lparr>closeSent := False, net := w3\<rparr>"] exI [of _ pk])
      (simp add: reader_ready_def c1_def same_wire_def)
qed

text \<open>
  Property C17.  Pings are answered in passing.  A ping in front of a message, with the default handler, is
  answered by a pong with the same payload, the only thing that is written, and the message is read
  as if the ping had not been there.
\<close>

theorem ping_answered:
  assumes "reader_ready c" "handlePing c = None" "answering c" "length k = 4" "length p \<le> 125"
    and "input (net c) = frame_bytes (\<not> isServer c) True PingMessage k p @ message_bytes (\<not> isServer c) t fs key q @ rest"
    and "keys_ok fs" "length key = 4" "isData t" "length (payload_of fs @ q) < 2 ^ 63"
    and "readLimit c \<le> 0 \<or> int (length (payload_of fs @ q)) \<le> readLimit c"
  shows "\<exists>c' pk. ReadMessage c = ((t, payload_of fs @ q, None), c') \<and> length pk = 4 \<and>
    sent (net c') = sent (net c) @ frame_bytes (isServer c) True PongMessage pk p \<and> reader_ready c' \<and> input (net c') = rest"
proof -
  have "answering (new_message c)" by (rule answering_quiet [OF assms(3)]) simp_all
  from advance_ping [of "new_message c" k p, OF _ assms(4,5) _ _ this] assms obtain c1 pk where
    c1: "advanceFrame (new_message c) = (Inr PingMessage, c1)" "length pk = 4" "reader_ready c1"
      "input (net c1) = message_bytes (\<not> isServer c) t fs key q @ rest" "readLength c1 = 0" "isServer c1 = isServer c"
      "readLimit c1 = readLimit c" "sent (net c1) = sent (net c) @ frame_bytes (isServer c) True PongMessage pk p" by auto
  have "next_frame (new_message c) = next_frame c1"
    using c1(1) assms(1) by (subst next_frame.simps) (simp add: reader_ready_def new_message_def isData_def ws_consts)
  with next_frame_ok [of c1 t fs key q rest] c1(3-7) assms(7-11) obtain c2 where
    "NextReader c = (Inr t, c2)" "mid_message c2 (payload_of fs @ q) rest" "same_reader c1 c2" by auto
  with ReadMessage_from [OF this(1,2)] c1(2,8) show ?thesis
    by (auto simp: same_side_def same_reader_def same_wire_def)
qed

end
