(* ===== verification/WsHandshake.thy ===== *)
theory WsHandshake
  imports WsSpec Http Base64
begin

text \<open>
  The opening handshake of web sockets (\<open>gorilla/websocket/server.go\<close>, \<open>client.go\<close>, \<open>util.go\<close>), with the part of
  \<open>net/http\<close> and \<open>net/textproto\<close> (Go 1.4) that reads the header of a response from the connection.  A
  header is a list of keys with their values in the order in which the loop over the map meets them.
  Deadlines are not modelled: what they do is that reads and writes fail.
\<close>

subsection \<open>Tokens and keys\<close>

text \<open>\<open>header[key]\<close>, without making the key canonical.\<close>

definition header_index :: "header \<Rightarrow> string \<Rightarrow> string list" where
  "header_index h k = (case map_of h k of None \<Rightarrow> [] | Some vs \<Rightarrow> vs)"

definition tokenListContainsValue :: "header \<Rightarrow> string \<Rightarrow> string \<Rightarrow> bool" where
  "tokenListContainsValue h name val =
     list_ex (\<lambda>v. list_ex (\<lambda>s. equal_fold val (TrimSpace s)) (split_on (CHR '','') v)) (header_index h name)"

definition keyGUID :: bytes where
  "keyGUID = ''258EAFA5-E914-47DA-95CA-C5AB0DC85B11''"

definition computeAcceptKey :: "string \<Rightarrow> string" where
  "computeAcceptKey challengeKey = b64_encode StdAlphabet (sha1 (challengeKey @ keyGUID))"

text \<open>The random source delivers sixteen bytes or an error.\<close>

definition generateChallengeKey :: "ws_error + bytes \<Rightarrow> ws_error + string" where
  "generateChallengeKey random = (case random of Inl e \<Rightarrow> Inl e | Inr p \<Rightarrow> Inr (b64_encode StdAlphabet p))"

subsection \<open>The server\<close>

text \<open>\<open>UpgradeError\<close> and \<open>CheckOrigin\<close> are the functions of the application, if it gives any.\<close>

record Upgrader =
  WriteBufferSize :: nat
  UpSubprotocols :: "string list option"
  UpgradeError :: "(nat \<Rightarrow> string \<Rightarrow> Response \<Rightarrow> Response) option"
  CheckOrigin :: "(Request \<Rightarrow> bool) option"

definition StatusText :: "nat \<Rightarrow> string" where
  "StatusText code =
     (if code = 400 then ''Bad Request'' else if code = 403 then ''Forbidden''
      else if code = 405 then ''Method Not Allowed'' else if code = 500 then ''Internal Server Error'' else [])"

definition http_Error :: "string \<Rightarrow> nat \<Rightarrow> Response \<Rightarrow> Response" where
  "http_Error msg code w =
     http_write (msg @ [newline])
       (http_write_header code (w\<lparr>RespHeader := header_set ''Content-Type'' ''text/plain; charset=utf-8'' (RespHeader w)\<rparr>))"

definition returnError :: "Upgrader \<Rightarrow> nat \<Rightarrow> string \<Rightarrow> Response \<Rightarrow> Response" where
  "returnError u status reason w =
     (case UpgradeError u of Some f \<Rightarrow> f status reason w | None \<Rightarrow> http_Error (StatusText status) status w)"

definition checkSameOrigin :: "Request \<Rightarrow> bool" where
  "checkSameOrigin r =
     (case header_index (ReqHeader r) ''Origin'' of
        [] \<Rightarrow> True
      | origin # os \<Rightarrow> (case Parse origin of None \<Rightarrow> False | Some u \<Rightarrow> UrlHost u = ReqHost r))"

definition Subprotocols :: "Request \<Rightarrow> string list" where
  "Subprotocols r =
     (let h = TrimSpace (header_get (ReqHeader r) ''Sec-Websocket-Protocol'')
      in if h = [] then [] else map TrimSpace (split_on (CHR '','') h))"

text \<open>\<open>responseHeader\<close> may be nil.\<close>

definition selectSubprotocol :: "Upgrader \<Rightarrow> Request \<Rightarrow> header option \<Rightarrow> string" where
  "selectSubprotocol u r responseHeader =
     (case UpSubprotocols u of
        Some ps \<Rightarrow> (case List.find (\<lambda>p. p \<in> set (Subprotocols r)) ps of Some p \<Rightarrow> p | None \<Rightarrow> [])
      | None \<Rightarrow> (case responseHeader of Some h \<Rightarrow> header_get h ''Sec-Websocket-Protocol'' | None \<Rightarrow> []))"

text \<open>What is wrong with the request: the status and the reason.\<close>

definition handshake_problem :: "Upgrader \<Rightarrow> Request \<Rightarrow> (nat \<times> string) option" where
  "handshake_problem u r =
     (if take 1 (header_index (ReqHeader r) ''Sec-Websocket-Version'') \<noteq> [''13''] then Some (400, ''websocket: version != 13'')
      else if \<not> tokenListContainsValue (ReqHeader r) ''Connection'' ''upgrade'' then
        Some (400, ''websocket: could not find connection header with token '' @ [CHR 0x27] @ ''upgrade'' @ [CHR 0x27])
      else if \<not> tokenListContainsValue (ReqHeader r) ''Upgrade'' ''websocket'' then
        Some (400, ''websocket: could not find upgrade header with token '' @ [CHR 0x27] @ ''websocket'' @ [CHR 0x27])
      else if \<not> (case CheckOrigin u of Some f \<Rightarrow> f r | None \<Rightarrow> checkSameOrigin r) then
        Some (403, ''websocket: origin not allowed'')
      else if header_get (ReqHeader r) ''Sec-Websocket-Key'' = [] then Some (400, ''websocket: key missing or blank'')
      else None)"

definition crlf :: bytes where
  "crlf = [char_of (13 :: nat), newline]"

definition sanitise :: "string \<Rightarrow> string" where
  "sanitise = map (\<lambda>b. if (of_char b :: nat) \<le> 31 then CHR '' '' else b)"

definition header_line :: "string \<Rightarrow> string \<Rightarrow> bytes" where
  "header_line k v = k @ '': '' @ v @ crlf"

definition accept_lines :: "string \<Rightarrow> bytes" where
  "accept_lines challengeKey = ''HTTP/1.1 101 Switching Protocols'' @ crlf @ header_line ''Upgrade'' ''websocket'' @
     header_line ''Connection'' ''Upgrade'' @ header_line ''Sec-WebSocket-Accept'' (computeAcceptKey challengeKey)"

definition response_headers :: "header \<Rightarrow> bytes" where
  "response_headers h = concat (map (\<lambda>(k, vs). if k = ''Sec-Websocket-Protocol'' then []
     else concat (map (\<lambda>v. header_line k (sanitise v)) vs)) h)"

definition upgrade_response :: "string \<Rightarrow> string \<Rightarrow> header option \<Rightarrow> bytes" where
  "upgrade_response challengeKey subprotocol responseHeader =
     accept_lines challengeKey @
     (if subprotocol \<noteq> [] then header_line ''Sec-Websocket-Protocol'' subprotocol else []) @
     response_headers (case responseHeader of None \<Rightarrow> [] | Some h \<Rightarrow> h) @ crlf"

text \<open>What the server of \<open>net/http\<close> gives for the connection, and what has been read from it too far.\<close>

datatype hijack = NotHijacker | HijackError string | Hijacked wire bytes

datatype upgrade_result = HandshakeError string | UpgradeFailed ws_error wire | Upgraded ws_conn

definition Upgrade :: "Upgrader \<Rightarrow> Request \<Rightarrow> header option \<Rightarrow> hijack \<Rightarrow> Response \<Rightarrow> upgrade_result \<times> Response" where
  "Upgrade u r responseHeader hj w =
     (case handshake_problem u r of
        Some (status, reason) \<Rightarrow> (HandshakeError reason, returnError u status reason w)
      | None \<Rightarrow>
          (let challengeKey = header_get (ReqHeader r) ''Sec-Websocket-Key'';
               subprotocol = selectSubprotocol u r responseHeader
           in case hj of
                NotHijacker \<Rightarrow>
                  (let reason = ''websocket: response does not implement http.Hijacker''
                   in (HandshakeError reason, returnError u 500 reason w))
              | HijackError reason \<Rightarrow> (HandshakeError reason, returnError u 500 reason w)
              | Hijacked netConn buffered \<Rightarrow>
                  if buffered \<noteq> [] then
                    (UpgradeFailed (ErrProtocol ''client sent data before handshake is complete'') (wire_close netConn), w)
                  else (case wire_write (upgrade_response challengeKey subprotocol responseHeader) netConn of
                      (n, Some e, net1) \<Rightarrow> (UpgradeFailed e (wire_close net1), w)
                    | (n, None, net1) \<Rightarrow>
                        (Upgraded ((newConn net1 True (WriteBufferSize u))\<lparr>ws_subprotocol := subprotocol\<rparr>), w))))"

subsection \<open>The handler\<close>

text \<open>\<open>upgrader\<close> and \<open>serveWs\<close> of \<open>ws.go\<close>, up to the connection it hands to the pumps.\<close>

definition upgrader :: Upgrader where
  "upgrader = \<lparr>WriteBufferSize = 1024, UpSubprotocols = None, UpgradeError = None, CheckOrigin = None\<rparr>"

definition serveWs_upgrade :: "Request \<Rightarrow> hijack \<Rightarrow> Response \<Rightarrow> ws_conn option \<times> Response" where
  "serveWs_upgrade r hj w =
     (if Method r \<noteq> ''GET'' then (None, http_Error ''Method not allowed'' 405 w)
      else (case Upgrade upgrader r None hj w of (Upgraded c, w1) \<Rightarrow> (Some c, w1) | (_, w1) \<Rightarrow> (None, w1)))"

end
