(* ===== verification/WsClient.thy ===== *)
theory WsClient
  imports WsHandshake
begin

text \<open>
  The client's side of the handshake (\<open>gorilla/websocket/client.go\<close>): the request, the check of the response,
  which \<open>net/http\<close> reads from the connection, and the dialer up to the network and TLS.
\<close>

subsection \<open>Headers on the connection\<close>

text \<open>
  \<open>textproto.Reader\<close> on the bytes that are still to come: a line without its end (\<open>None\<close> when nothing comes
  any more), and a line with the lines that continue it.
\<close>

definition blank :: "char \<Rightarrow> bool" where
  "blank c \<longleftrightarrow> c = CHR '' '' \<or> c = char_of (9 :: nat)"

definition trim_blanks :: "string \<Rightarrow> string" where
  "trim_blanks s = rev (dropWhile blank (rev (dropWhile blank s)))"

definition drop_cr :: "string \<Rightarrow> string" where
  "drop_cr l = (if l \<noteq> [] \<and> last l = char_of (13 :: nat) then butlast l else l)"

definition read_line :: "bytes \<Rightarrow> (string \<times> bytes) option" where
  "read_line s =
     (if s = [] then None
      else (let l = takeWhile (\<lambda>c. c \<noteq> newline) s; r = dropWhile (\<lambda>c. c \<noteq> newline) s
        in Some (if r = [] then (l, []) else (drop_cr l, tl r))))"

lemma read_line_shorter: "read_line s = Some (l, r) \<Longrightarrow> length r < length s"
proof -
  assume a: "read_line s = Some (l, r)"
  have "length (dropWhile (\<lambda>c. c \<noteq> newline) s) \<le> length s" by (rule length_dropWhile_le)
  with a show ?thesis by (cases "dropWhile (\<lambda>c. c \<noteq> newline) s") (auto simp: read_line_def Let_def split: if_splits)
qed

function continued :: "string \<Rightarrow> bytes \<Rightarrow> string \<times> bytes" where
  "continued acc s =
     (if s \<noteq> [] \<and> blank (hd s) then
        (case read_line (dropWhile blank s) of
           None \<Rightarrow> (acc, [])
         | Some (l, r) \<Rightarrow> continued (acc @ '' '' @ trim_blanks l) r)
      else (acc, s))"
  by pat_completeness auto
termination
proof (relation "measure (\<lambda>(acc, s). length s)", goal_cases)
  case (2 acc s p l r)
  then have "length r < length (dropWhile blank s)" by (auto dest: read_line_shorter)
  also have "\<dots> \<le> length s" by (rule length_dropWhile_le)
  finally show ?case by simp
qed simp

declare continued.simps [simp del]

lemma continued_le: "continued acc s = (l, r) \<Longrightarrow> length r \<le> length s"
proof (induction acc s arbitrary: l r rule: continued.induct)
  case (1 acc s)
  have "length (dropWhile blank s) \<le> length s" by (rule length_dropWhile_le)
  with 1 show ?case
    by (subst (asm) (2) continued.simps) (fastforce split: if_splits option.splits prod.splits dest: read_line_shorter)
qed

definition read_continued :: "bytes \<Rightarrow> (string \<times> bytes) option" where
  "read_continued s =
     (case read_line s of
        None \<Rightarrow> None
      | Some (l, r) \<Rightarrow> Some (if l = [] then (l, r) else continued (trim_blanks l) r))"

lemma read_continued_shorter: "read_continued s = Some (l, r) \<Longrightarrow> length r < length s"
  by (fastforce simp: read_continued_def split: option.splits if_splits dest: read_line_shorter continued_le)

text \<open>The key and the value of a line.\<close>

definition header_entry :: "string \<Rightarrow> (string \<times> string) option" where
  "header_entry kv =
     (if CHR '':'' \<in> set kv then
        (case url_split (CHR '':'') True kv of
           (k, v) \<Rightarrow> Some (CanonicalHeaderKey (trim_right (CHR '' '') k), dropWhile blank v))
      else None)"

text \<open>\<open>ReadMIMEHeader\<close>: the header and what follows it; \<open>None\<close> is an error.\<close>

function ReadMIMEHeader :: "bytes \<Rightarrow> header \<Rightarrow> (header \<times> bytes) option" where
  "ReadMIMEHeader s h =
     (case read_continued s of
        None \<Rightarrow> None
      | Some (kv, r) \<Rightarrow>
          if kv = [] then Some (h, r)
          else (case header_entry kv of
             None \<Rightarrow> None
           | Some (k, v) \<Rightarrow> ReadMIMEHeader r (obj_put k (header_index h k @ [v]) h)))"
  by pat_completeness auto
termination
  by (relation "measure (\<lambda>(s, h). length s)") (auto dest: read_continued_shorter)

declare ReadMIMEHeader.simps [simp del]

record http_response =
  StatusCode :: int
  HttpHeader :: header

text \<open>\<open>strconv.Atoi\<close>, and \<open>http.ParseHTTPVersion\<close>, whose numbers may be large but not negative.\<close>

definition atoi :: "string \<Rightarrow> int option" where
  "atoi s =
     (let digits = (if s \<noteq> [] \<and> (hd s = CHR ''+'' \<or> hd s = CHR ''-'') then tl s else s);
          (n, r) = read_digits 0 digits;
          i = (if s \<noteq> [] \<and> hd s = CHR ''-'' then - int n else int n)
      in if digits = [] \<or> r \<noteq> [] \<or> i < - (2 ^ 63) \<or> 2 ^ 63 \<le> i then None else Some i)"

definition http_version_ok :: "string \<Rightarrow> bool" where
  "http_version_ok v \<longleftrightarrow> v = ''HTTP/1.1'' \<or> v = ''HTTP/1.0'' \<or>
     prefix ''HTTP/'' v \<and> CHR ''.'' \<in> set (drop 5 v) \<and>
     (case url_split (CHR ''.'') True (drop 5 v) of
        (major, minor) \<Rightarrow>
          (case (atoi major, atoi minor) of
             (Some i, Some j) \<Rightarrow> 0 \<le> i \<and> i \<le> 1000000 \<and> 0 \<le> j \<and> j \<le> 1000000
           | _ \<Rightarrow> False))"

text \<open>\<open>http.ReadResponse\<close> up to the header; the body is not read.\<close>

definition ReadResponse :: "bytes \<Rightarrow> (http_response \<times> bytes) option" where
  "ReadResponse s =
     Option.bind (read_line s) (\<lambda>(line, r).
       (case split_two (CHR '' '') line of
          [proto, rest] \<Rightarrow>
            Option.bind (atoi (hd (split_two (CHR '' '') rest))) (\<lambda>code.
              if http_version_ok proto
              then map_option (\<lambda>(h, r'). (\<lparr>StatusCode = code, HttpHeader = h\<rparr>, r')) (ReadMIMEHeader r [])
              else None)
        | _ \<Rightarrow> None))"

subsection \<open>The client\<close>

definition request_headers :: "header \<Rightarrow> bytes" where
  "request_headers h = concat (map (\<lambda>(k, vs). concat (map (header_line k) vs)) h)"

definition client_request :: "URL \<Rightarrow> string \<Rightarrow> header \<Rightarrow> bytes" where
  "client_request u challengeKey requestHeader =
     ''GET '' @ RequestURI u @ '' HTTP/1.1'' @ crlf @ header_line ''Host'' (UrlHost u) @ header_line ''Upgrade'' ''websocket'' @
     header_line ''Connection'' ''Upgrade'' @ header_line ''Sec-WebSocket-Version'' ''13'' @
     header_line ''Sec-WebSocket-Key'' challengeKey @ request_headers requestHeader @ crlf"

definition accepted :: "string \<Rightarrow> http_response \<Rightarrow> bool" where
  "accepted acceptKey resp \<longleftrightarrow> StatusCode resp = 101 \<and>
     equal_fold (header_get (HttpHeader resp) ''Upgrade'') ''websocket'' \<and>
     equal_fold (header_get (HttpHeader resp) ''Connection'') ''upgrade'' \<and>
     header_get (HttpHeader resp) ''Sec-Websocket-Accept'' = acceptKey"

datatype client_result = ClientError "ws_error option" wire | BadHandshake http_response wire | ClientConn ws_conn http_response

text \<open>An error of \<open>ReadResponse\<close> is \<open>ClientError None\<close>.\<close>

definition NewClient :: "ws_error + bytes \<Rightarrow> wire \<Rightarrow> URL \<Rightarrow> header \<Rightarrow> nat \<Rightarrow> client_result" where
  "NewClient random w u requestHeader writeBufSize =
     (case generateChallengeKey random of
        Inl e \<Rightarrow> ClientError (Some e) w
      | Inr challengeKey \<Rightarrow>
          (case wire_write (client_request u challengeKey requestHeader) w of
             (n, Some e, w1) \<Rightarrow> ClientError (Some e) w1
           | (n, None, w1) \<Rightarrow>
               (case ReadResponse (input w1) of
                  None \<Rightarrow> ClientError None (w1\<lparr>input := []\<rparr>)
                | Some (resp, r) \<Rightarrow>
                    (let w2 = w1\<lparr>input := r\<rparr> in
                     if \<not> accepted (computeAcceptKey challengeKey) resp then BadHandshake resp w2
                     else ClientConn ((newConn w2 False writeBufSize)\<lparr>ws_subprotocol :=
                         header_get (HttpHeader resp) ''Sec-Websocket-Protocol''\<rparr>) resp))))"

subsection \<open>Addresses\<close>

definition parseURL :: "string \<Rightarrow> URL option" where
  "parseURL s =
     (case (if prefix ''ws://'' s then Some (''ws'', drop 5 s) else if prefix ''wss://'' s then Some (''wss'', drop 6 s) else None) of
        None \<Rightarrow> None
      | Some (scheme, s') \<Rightarrow>
          (let (host, opaque) = url_split (CHR ''/'') False s';
               u = empty_url\<lparr>Scheme := scheme, Opaque := (if opaque = [] then ''/'' else opaque), UrlHost := host\<rparr>
           in if CHR ''@'' \<in> set (UrlHost u) then None else Some u))"

text \<open>The index of the last occurrence, from one; zero when there is none.\<close>

fun last_index :: "char \<Rightarrow> string \<Rightarrow> nat" where
  "last_index c [] = 0"
| "last_index c (x # s) = (if 0 < last_index c s then Suc (last_index c s) else if x = c then 1 else 0)"

definition hostPortNoPort :: "URL \<Rightarrow> string \<times> string" where
  "hostPortNoPort u =
     (let i = last_index (CHR '':'') (UrlHost u) in
      if last_index (CHR '']'') (UrlHost u) < i then (UrlHost u, take (i - 1) (UrlHost u))
      else (UrlHost u @ (if Scheme u = ''wss'' then '':443'' else '':80''), UrlHost u))"

text \<open>What \<open>Dial\<close> does to the header and the host before it calls \<open>NewClient\<close>.\<close>

definition dial_header :: "string list \<Rightarrow> header \<Rightarrow> URL \<Rightarrow> header \<times> URL" where
  "dial_header subprotocols requestHeader u =
     (let h = (if subprotocols \<noteq> [] then header_set ''Sec-Websocket-Protocol'' (join_with '', '' subprotocols) requestHeader
               else requestHeader)
      in if header_index h ''Host'' \<noteq> []
         then (filter (\<lambda>(k, vs). k \<noteq> ''Host'') h, u\<lparr>UrlHost := header_get h ''Host''\<rparr>)
         else (h, u))"

text \<open>
  \<open>Dial\<close>: \<open>netDial\<close> and the TLS client, which wraps the connection for the host without its port, are given.
  A connection that does not become a web socket is closed.
\<close>

datatype dial_result = MalformedURL | DialFailed ws_error | DialError client_result | Dialled ws_conn http_response

definition close_failed :: "client_result \<Rightarrow> client_result" where
  "close_failed r =
     (case r of ClientError e w \<Rightarrow> ClientError e (wire_close w) | BadHandshake resp w \<Rightarrow> BadHandshake resp (wire_close w) | _ \<Rightarrow> r)"

definition Dial :: "(string \<Rightarrow> ws_error + wire) \<Rightarrow> (string \<Rightarrow> wire \<Rightarrow> ws_error + wire) \<Rightarrow> string list \<Rightarrow> nat \<Rightarrow>
    ws_error + bytes \<Rightarrow> string \<Rightarrow> header \<Rightarrow> dial_result" where
  "Dial netDial tls subprotocols writeBufSize random urlStr requestHeader =
     (case parseURL urlStr of
        None \<Rightarrow> MalformedURL
      | Some u \<Rightarrow>
          (case hostPortNoPort u of (hostPort, hostNoPort) \<Rightarrow>
            (case netDial hostPort of
               Inl e \<Rightarrow> DialFailed e
             | Inr w0 \<Rightarrow>
                 (case (if Scheme u = ''wss'' then tls hostNoPort w0 else Inr w0) of
                    Inl e \<Rightarrow> DialFailed e
                  | Inr w \<Rightarrow>
                      (case dial_header subprotocols requestHeader u of (h, u') \<Rightarrow>
                        (case NewClient random w u' h writeBufSize of
                           ClientConn c resp \<Rightarrow> Dialled c resp
                         | r \<Rightarrow> DialError (close_failed r)))))))"

end
