(* ===== verification/WsHandshakeSpec.thy ===== *)
theory WsHandshakeSpec
  imports WsClient
begin

text \<open>
  The two sides of the handshake agree, and what they refuse.
\<close>

subsection \<open>Lines\<close>

lemma newline_cr [simp]: "char_of (13 :: nat) \<noteq> newline" "\<not> blank newline" "\<not> blank (char_of (13 :: nat))" "\<not> blank (CHR '':'')"
  "newline \<noteq> CHR '':''" "newline \<noteq> CHR '' ''"
  by code_simp+

lemma takeWhile_stop: "c \<notin> set l \<Longrightarrow> takeWhile (\<lambda>x. x \<noteq> c) (l @ c # r) = l"
  "c \<notin> set l \<Longrightarrow> dropWhile (\<lambda>x. x \<noteq> c) (l @ c # r) = c # r"
  by (induction l) auto

lemma read_line_crlf [simp]: "newline \<notin> set l \<Longrightarrow> read_line (l @ crlf @ r) = Some (l, r)"
  using takeWhile_stop [of newline "l @ [char_of (13 :: nat)]" r] newline_cr(1) [symmetric]
  by (simp add: read_line_def crlf_def drop_cr_def Let_def)

definition token :: "string \<Rightarrow> bool" where
  "token k \<longleftrightarrow> k \<noteq> [] \<and> (\<forall>c \<in> set k. \<not> blank c \<and> c \<noteq> CHR '':'' \<and> c \<noteq> newline)"

definition field_value :: "string \<Rightarrow> string" where
  "field_value v = dropWhile blank (rev (dropWhile blank (rev (CHR '' '' # v))))"

definition clean :: "string \<Rightarrow> bool" where
  "clean v \<longleftrightarrow> newline \<notin> set v \<and> (v = [] \<or> \<not> blank (hd v) \<and> \<not> blank (last v))"

lemma field_value_clean: "clean v \<Longrightarrow> field_value v = v"
proof (cases v rule: rev_cases)
  case Nil
  then show ?thesis by (simp add: field_value_def blank_def)
next
  case (snoc ys y)
  assume "clean v"
  with snoc have y: "\<not> blank y" "\<not> blank (hd (ys @ [y]))" by (auto simp: clean_def)
  then have "field_value v = dropWhile blank (CHR '' '' # ys @ [y])" by (simp add: field_value_def snoc)
  also have "\<dots> = dropWhile blank (ys @ [y])" by (simp add: blank_def)
  also have "\<dots> = v" using y(2) by (cases "ys @ [y]") (auto simp: snoc)
  finally show ?thesis .
qed

lemma dropWhile_mid: "\<not> P x \<Longrightarrow> dropWhile P (a @ x # b) = dropWhile P a @ x # b"
  by (induction a) auto

lemma trim_header:
  assumes "token k"
  shows "trim_blanks (k @ '': '' @ v) = k @ CHR '':'' # rev (dropWhile blank (rev (CHR '' '' # v)))"
proof -
  have d: "dropWhile blank (k @ s) = k @ s" for s using assms by (cases k) (auto simp: token_def)
  have "dropWhile blank (rev (CHR '' '' # v) @ CHR '':'' # rev k) = dropWhile blank (rev (CHR '' '' # v)) @ CHR '':'' # rev k"
    by (rule dropWhile_mid) simp
  then show ?thesis by (simp add: trim_blanks_def d)
qed

lemma header_entry_line:
  assumes "token k"
  shows "header_entry (trim_blanks (k @ '': '' @ v)) = Some (CanonicalHeaderKey k, field_value v)"
proof -
  have "CHR '':'' \<notin> set k" "CHR '' '' \<notin> set k" using assms by (auto simp: token_def blank_def)
  then show ?thesis unfolding trim_header [OF assms]
    by (simp add: header_entry_def url_split_def field_value_def trim_right_id takeWhile_stop)
qed

lemma ReadMIMEHeader_line:
  assumes "token k" "newline \<notin> set v" "r = [] \<or> \<not> blank (hd r)"
  shows "ReadMIMEHeader (header_line k v @ r) h = ReadMIMEHeader r (header_add k (field_value v) h)"
proof -
  have n: "newline \<notin> set (k @ '': '' @ v)" using assms(1,2) by (auto simp: token_def)
  have "continued (trim_blanks (k @ '': '' @ v)) r = (trim_blanks (k @ '': '' @ v), r)"
    using assms(3) by (subst continued.simps) auto
  then have "read_continued (header_line k v @ r) = Some (trim_blanks (k @ '': '' @ v), r)"
    using read_line_crlf [OF n, of r] by (simp add: read_continued_def header_line_def)
  moreover have "trim_blanks (k @ '': '' @ v) \<noteq> []" unfolding trim_header [OF assms(1)] by simp
  ultimately show ?thesis using header_entry_line [OF assms(1), of v]
    by (subst ReadMIMEHeader.simps) (simp add: header_add_def header_values_def header_index_def)
qed

lemma ReadMIMEHeader_end [simp]: "ReadMIMEHeader (crlf @ r) h = Some (h, r)"
  using read_line_crlf [of "[]" r] by (subst ReadMIMEHeader.simps) (simp add: read_continued_def)

definition header_lines :: "(string \<times> string) list \<Rightarrow> bytes" where
  "header_lines ls = concat (map (\<lambda>(k, v). header_line k v) ls)"

definition lines_ok :: "(string \<times> string) list \<Rightarrow> bool" where
  "lines_ok ls \<longleftrightarrow> (\<forall>(k, v) \<in> set ls. token k \<and> newline \<notin> set v)"

lemma header_lines_simps [simp]: "header_lines [] = []" "header_lines ((k, v) # ls) = header_line k v @ header_lines ls"
  "header_lines (ls @ ms) = header_lines ls @ header_lines ms"
  by (simp_all add: header_lines_def)

lemma lines_ok_simps [simp]: "lines_ok []" "lines_ok ((k, v) # ls) \<longleftrightarrow> token k \<and> newline \<notin> set v \<and> lines_ok ls"
  "lines_ok (ls @ ms) \<longleftrightarrow> lines_ok ls \<and> lines_ok ms"
  by (auto simp: lines_ok_def)

definition header_of :: "(string \<times> string) list \<Rightarrow> header \<Rightarrow> header" where
  "header_of ls h = fold (\<lambda>(k, v). header_add k (field_value v)) ls h"

lemma not_blank_lines: "lines_ok ls \<Longrightarrow> \<not> blank (hd (header_lines ls @ crlf @ r))"
proof (cases ls)
  case (Cons l ls')
  assume "lines_ok ls"
  with Cons show ?thesis by (cases l) (auto simp: header_line_def token_def hd_append)
qed (simp add: crlf_def)

lemma ReadMIMEHeader_lines:
  "lines_ok ls \<Longrightarrow> ReadMIMEHeader (header_lines ls @ crlf @ r) h = Some (header_of ls h, r)"
proof (induction ls arbitrary: h)
  case (Cons l ls)
  obtain k v where l: "l = (k, v)" by (cases l)
  with Cons.prems have ok: "token k" "newline \<notin> set v" "lines_ok ls" by auto
  from ReadMIMEHeader_line [OF ok(1,2), of "header_lines ls @ crlf @ r" h] not_blank_lines [OF ok(3)] Cons.IH [OF ok(3)]
  show ?case by (simp add: l header_of_def)
qed (simp add: header_of_def)

lemma header_values_of:
  "header_values (header_of ls h) key =
     header_values h key @ map (\<lambda>(k, v). field_value v) (filter (\<lambda>(k, v). CanonicalHeaderKey k = CanonicalHeaderKey key) ls)"
  by (induction ls arbitrary: h) (auto simp: header_of_def header_add_def header_values_def split: option.splits)


subsection \<open>What the sides write\<close>

definition response_lines :: "string \<Rightarrow> string \<Rightarrow> header \<Rightarrow> (string \<times> string) list" where
  "response_lines challengeKey subprotocol rh =
     [(''Upgrade'', ''websocket''), (''Connection'', ''Upgrade''), (''Sec-WebSocket-Accept'', computeAcceptKey challengeKey)] @
     (if subprotocol \<noteq> [] then [(''Sec-Websocket-Protocol'', subprotocol)] else []) @
     concat (map (\<lambda>(k, vs). if k = ''Sec-Websocket-Protocol'' then [] else map (\<lambda>v. (k, sanitise v)) vs) rh)"

lemma response_headers_lines: "response_headers rh =
    header_lines (concat (map (\<lambda>(k, vs). if k = ''Sec-Websocket-Protocol'' then [] else map (\<lambda>v. (k, sanitise v)) vs) rh))"
  by (induction rh) (auto simp: response_headers_def header_lines_def comp_def)

lemma upgrade_response_lines:
  "upgrade_response challengeKey subprotocol (Some rh) =
     ''HTTP/1.1 101 Switching Protocols'' @ crlf @ header_lines (response_lines challengeKey subprotocol rh) @ crlf"
  by (simp add: upgrade_response_def accept_lines_def response_lines_def response_headers_lines)

definition request_lines :: "URL \<Rightarrow> string \<Rightarrow> header \<Rightarrow> (string \<times> string) list" where
  "request_lines u challengeKey qh =
     [(''Host'', UrlHost u), (''Upgrade'', ''websocket''), (''Connection'', ''Upgrade''), (''Sec-WebSocket-Version'', ''13''),
      (''Sec-WebSocket-Key'', challengeKey)] @ concat (map (\<lambda>(k, vs). map (Pair k) vs) qh)"

lemma request_headers_lines: "request_headers qh = header_lines (concat (map (\<lambda>(k, vs). map (Pair k) vs) qh))"
  by (induction qh) (auto simp: request_headers_def header_lines_def comp_def)

lemma client_request_lines:
  "client_request u challengeKey qh =
     (''GET '' @ RequestURI u @ '' HTTP/1.1'') @ crlf @ header_lines (request_lines u challengeKey qh) @ crlf"
  by (simp add: client_request_def request_lines_def request_headers_lines)

text \<open>The lines are well formed, whatever the values.\<close>

lemma newline_code: "of_char newline = (10 :: nat)"
  by (simp add: newline_def)

lemma sanitise_newline [simp]: "newline \<notin> set (sanitise v)"
  by (auto simp: sanitise_def newline_code split: if_splits)

lemma b64_clean: "clean (b64_encode StdAlphabet p)"
proof -
  have "\<not> blank c \<and> c \<noteq> newline" if "c \<in> set (b64_encode StdAlphabet p)" for c
  proof -
    have "b64_value StdAlphabet CHR '' '' = None" "b64_value StdAlphabet (char_of (9 :: nat)) = None"
      "b64_value StdAlphabet newline = None" "pad \<noteq> newline" "\<not> blank pad" by code_simp+
    with that b64_raw_chars [of c StdAlphabet p] show ?thesis by (auto simp: b64_encode_def blank_def)
  qed
  then show ?thesis by (cases "b64_encode StdAlphabet p" rule: rev_cases) (auto simp: clean_def hd_append split: list.splits)
qed

definition plain_header :: "header \<Rightarrow> bool" where
  "plain_header h \<longleftrightarrow> (\<forall>(k, vs) \<in> set h. token k \<and> CanonicalHeaderKey k = k)"

lemma fixed_tokens [simp]: "token ''Host''" "token ''Upgrade''" "token ''Connection''" "token ''Sec-WebSocket-Accept''"
  "token ''Sec-Websocket-Protocol''" "token ''Sec-WebSocket-Version''" "token ''Sec-WebSocket-Key''"
  by code_simp+

lemma clean_consts: "clean ''websocket''" "clean ''Upgrade''" "clean ''13''"
  by code_simp+

lemma clean_newline: "clean v \<Longrightarrow> newline \<notin> set v"
  by (simp add: clean_def)

lemma response_lines_ok:
  assumes "plain_header rh" "clean subprotocol"
  shows "lines_ok (response_lines challengeKey subprotocol rh)"
proof -
  have "lines_ok (concat (map (\<lambda>(k, vs). if k = ''Sec-Websocket-Protocol'' then [] else map (\<lambda>v. (k, sanitise v)) vs) rh))"
    using assms(1) by (auto simp: lines_ok_def plain_header_def split: if_splits)
  with assms(2) clean_consts [THEN clean_newline] show ?thesis
    by (auto simp: response_lines_def computeAcceptKey_def clean_newline b64_clean)
qed


lemma canonical_consts [simp]:
  "CanonicalHeaderKey ''Upgrade'' = ''Upgrade''" "CanonicalHeaderKey ''Connection'' = ''Connection''"
  "CanonicalHeaderKey ''Sec-WebSocket-Accept'' = ''Sec-Websocket-Accept''"
  "CanonicalHeaderKey ''Sec-Websocket-Accept'' = ''Sec-Websocket-Accept''"
  "CanonicalHeaderKey ''Sec-Websocket-Protocol'' = ''Sec-Websocket-Protocol''"
  "CanonicalHeaderKey ''Sec-WebSocket-Version'' = ''Sec-Websocket-Version''"
  "CanonicalHeaderKey ''Sec-Websocket-Version'' = ''Sec-Websocket-Version''"
  "CanonicalHeaderKey ''Sec-WebSocket-Key'' = ''Sec-Websocket-Key''"
  "CanonicalHeaderKey ''Sec-Websocket-Key'' = ''Sec-Websocket-Key''" "CanonicalHeaderKey ''Host'' = ''Host''"
  by code_simp+

lemma header_get_of: "header_get (header_of ls []) key =
    (case filter (\<lambda>(k, v). CanonicalHeaderKey k = CanonicalHeaderKey key) ls of [] \<Rightarrow> [] | l # _ \<Rightarrow> field_value (snd l))"
  unfolding header_get_def header_values_of by (auto simp: header_values_def split: list.splits)

lemmas field_consts = clean_consts [THEN field_value_clean] b64_clean [THEN field_value_clean]

lemma response_protocol:
  assumes "plain_header rh" "clean subprotocol"
  shows "header_get (header_of (response_lines challengeKey subprotocol rh) []) ''Sec-Websocket-Protocol'' = subprotocol"
proof -
  have "filter (\<lambda>(k, v). CanonicalHeaderKey k = ''Sec-Websocket-Protocol'')
      (concat (map (\<lambda>(k, vs). if k = ''Sec-Websocket-Protocol'' then [] else map (\<lambda>v. (k, sanitise v)) vs) rh)) = []"
    using assms(1) by (auto simp: plain_header_def filter_empty_conv split: if_splits)
  with field_value_clean [OF assms(2)] show ?thesis
    by (auto simp: header_get_of response_lines_def)
qed

lemma response_accepted:
  "accepted (computeAcceptKey key) \<lparr>StatusCode = 101, HttpHeader = header_of (response_lines key subprotocol rh) []\<rparr>"
proof -
  have "equal_fold ''websocket'' ''websocket''" "equal_fold ''Upgrade'' ''upgrade''" by code_simp+
  then show ?thesis by (simp add: accepted_def header_get_of response_lines_def field_consts computeAcceptKey_def)
qed

lemma ReadResponse_upgrade:
  assumes "plain_header rh" "clean subprotocol"
  shows "ReadResponse (upgrade_response key subprotocol (Some rh) @ rest) =
    Some (\<lparr>StatusCode = 101, HttpHeader = header_of (response_lines key subprotocol rh) []\<rparr>, rest)"
proof -
  let ?status = "''HTTP/1.1 101 Switching Protocols''"
  have s: "newline \<notin> set ?status" "split_two (CHR '' '') ?status = [''HTTP/1.1'', ''101 Switching Protocols'']"
    "atoi (hd (split_two (CHR '' '') ''101 Switching Protocols'')) = Some 101" "http_version_ok ''HTTP/1.1''" by code_simp+
  have "ReadMIMEHeader (header_lines (response_lines key subprotocol rh) @ crlf @ rest) [] =
      Some (header_of (response_lines key subprotocol rh) [], rest)"
    by (rule ReadMIMEHeader_lines) (rule response_lines_ok [OF assms])
  moreover have "read_line (upgrade_response key subprotocol (Some rh) @ rest) =
      Some (?status, header_lines (response_lines key subprotocol rh) @ crlf @ rest)"
    unfolding upgrade_response_lines append_assoc by (rule read_line_crlf [OF s(1)])
  ultimately show ?thesis by (simp add: ReadResponse_def s(2-4) del: split_two.simps)
qed

text \<open>The header of a request, as the server of \<open>net/http\<close> reads it.\<close>

definition received_header :: "bytes \<Rightarrow> header option" where
  "received_header b = Option.bind (read_line b) (\<lambda>(line, s). map_option fst (ReadMIMEHeader s []))"

lemma request_received:
  assumes "lines_ok (request_lines u key qh)" "newline \<notin> set (RequestURI u)"
  shows "received_header (client_request u key qh) = Some (header_of (request_lines u key qh) [])"
proof -
  have "newline \<notin> set ''GET ''" "newline \<notin> set '' HTTP/1.1''" by code_simp+
  with assms(2) have "newline \<notin> set (''GET '' @ RequestURI u @ '' HTTP/1.1'')" by (simp only: set_append Un_iff simp_thms)
  from read_line_crlf [OF this] ReadMIMEHeader_lines [OF assms(1), of "[]"] show ?thesis
    by (simp add: received_header_def client_request_lines)
qed


text \<open>A request that the client may send: nothing in it breaks a line.\<close>

definition sendable :: "URL \<Rightarrow> header \<Rightarrow> bool" where
  "sendable u qh \<longleftrightarrow> newline \<notin> set (RequestURI u) \<and> newline \<notin> set (UrlHost u) \<and>
     (\<forall>(k, vs) \<in> set qh. token k \<and> (\<forall>v \<in> set vs. newline \<notin> set v))"

definition handshake_keys :: "string list" where
  "handshake_keys = [''Sec-Websocket-Version'', ''Connection'', ''Upgrade'', ''Sec-Websocket-Key'']"

lemma request_lines_ok: "sendable u qh \<Longrightarrow> newline \<notin> set key \<Longrightarrow> lines_ok (request_lines u key qh)"
proof -
  assume a: "sendable u qh" "newline \<notin> set key"
  then have "lines_ok (concat (map (\<lambda>(k, vs). map (Pair k) vs) qh))" by (auto simp: lines_ok_def sendable_def)
  with a clean_consts [THEN clean_newline] show ?thesis by (simp add: request_lines_def sendable_def)
qed

lemma header_index_canonical: "CanonicalHeaderKey k = k \<Longrightarrow> header_index h k = header_values h k"
  by (simp add: header_index_def header_values_def)

lemma request_good:
  assumes "\<forall>k \<in> set handshake_keys. header_index (ReqHeader r) k = header_index (header_of (request_lines url (b64_encode StdAlphabet p) qh) []) k"
    and "b64_encode StdAlphabet p \<noteq> []" "case CheckOrigin u of Some f \<Rightarrow> f r | None \<Rightarrow> checkSameOrigin r"
  shows "handshake_problem u r = None" "header_get (ReqHeader r) ''Sec-Websocket-Key'' = b64_encode StdAlphabet p"
proof -
  let ?h = "header_of (request_lines url (b64_encode StdAlphabet p) qh) []"
  obtain v1 v2 v3 v4 where v: "header_values ?h ''Sec-Websocket-Version'' = ''13'' # v1"
    "header_values ?h ''Connection'' = ''Upgrade'' # v2" "header_values ?h ''Upgrade'' = ''websocket'' # v3"
    "header_values ?h ''Sec-Websocket-Key'' = b64_encode StdAlphabet p # v4"
    by (simp add: header_values_of request_lines_def field_consts header_values_def [of "[]"])
  have t: "list_ex (\<lambda>s. equal_fold ''upgrade'' (TrimSpace s)) (split_on (CHR '','') ''Upgrade'')"
    "list_ex (\<lambda>s. equal_fold ''websocket'' (TrimSpace s)) (split_on (CHR '','') ''websocket'')" by code_simp+
  have i: "header_index (ReqHeader r) k = header_values ?h k" "header_index (ReqHeader r) k = header_values (ReqHeader r) k"
    if "k \<in> set handshake_keys" for k
    using assms(1) that by (auto simp: handshake_keys_def header_index_canonical)
  have k: "header_get (ReqHeader r) ''Sec-Websocket-Key'' = b64_encode StdAlphabet p"
    using i [of "''Sec-Websocket-Key''"] v(4) by (simp add: header_get_def handshake_keys_def)
  then show "header_get (ReqHeader r) ''Sec-Websocket-Key'' = b64_encode StdAlphabet p" .
  have "take 1 (header_index (ReqHeader r) ''Sec-Websocket-Version'') = [''13'']"
    using i(1) [of "''Sec-Websocket-Version''"] v(1) by (simp add: handshake_keys_def)
  moreover have "tokenListContainsValue (ReqHeader r) ''Connection'' ''upgrade''"
    using i(1) [of "''Connection''"] v(2) t(1) by (simp add: tokenListContainsValue_def handshake_keys_def del: split_on.simps)
  moreover have "tokenListContainsValue (ReqHeader r) ''Upgrade'' ''websocket''"
    using i(1) [of "''Upgrade''"] v(3) t(2) by (simp add: tokenListContainsValue_def handshake_keys_def del: split_on.simps)
  ultimately show "handshake_problem u r = None" using assms(2,3) k by (simp add: handshake_problem_def)
qed


lemma new_connection:
  "reader_ready (newConn w server n)" "isServer (newConn w server n) = server" "readLimit (newConn w server n) = 0"
  "net (newConn w server n) = w" "write_fault w = (\<lambda>_. None) \<Longrightarrow> ready (newConn w server n)"
  by (auto simp: newConn_def reader_ready_def ready_def writable_def unflushed_def ws_consts zero_bytes_def defaultWriteBufferSize_def)

lemma named_connection: "ready (c\<lparr>ws_subprotocol := p\<rparr>) = ready c" "reader_ready (c\<lparr>ws_subprotocol := p\<rparr>) = reader_ready c"
  by (simp_all add: ready_def writable_def unflushed_def reader_ready_def)

text \<open>The server accepts what the client sent, and the client what the server answers.\<close>

lemma Upgrade_ok:
  assumes "handshake_problem u r = None" "write_fault sw = (\<lambda>_. None)"
  shows "\<exists>c. Upgrade u r rh (Hijacked sw []) w = (Upgraded c, w) \<and> ready c \<and> isServer c \<and> reader_ready c \<and>
    ws_subprotocol c = selectSubprotocol u r rh \<and> sent (net c) = sent sw @
      upgrade_response (header_get (ReqHeader r) ''Sec-Websocket-Key'') (selectSubprotocol u r rh) rh"
  using assms by (simp add: Upgrade_def wire_write_ok Let_def named_connection new_connection)

lemma NewClient_ok:
  assumes "write_fault cw = (\<lambda>_. None)" "plain_header rh" "clean subprotocol"
    "input cw = upgrade_response (b64_encode StdAlphabet p) subprotocol (Some rh) @ rest"
  shows "\<exists>c resp. NewClient (Inr p) cw url qh n = ClientConn c resp \<and> ready c \<and> reader_ready c \<and> \<not> isServer c \<and>
    readLimit c = 0 \<and> input (net c) = rest \<and> ws_subprotocol c = subprotocol \<and>
    sent (net c) = sent cw @ client_request url (b64_encode StdAlphabet p) qh"
  using assms(1) response_accepted [of "b64_encode StdAlphabet p" subprotocol rh] response_protocol [OF assms(2,3)]
  by (simp add: NewClient_def generateChallengeKey_def wire_write_ok assms(4) ReadResponse_upgrade [OF assms(2,3)]
      named_connection new_connection)

text \<open>
  Property C11.  A web socket session opens and carries messages.  When the server's request has the header
  that the client sent and its origin is allowed, the upgrade succeeds; the client accepts the response,
  with the subprotocol that the server chose, whatever header values the application adds; and the messages
  that the server then writes are what the client reads.
\<close>

theorem session_travels:
  assumes "sendable url qh" "p \<noteq> []" "write_fault sw = (\<lambda>_. None)" "write_fault cw = (\<lambda>_. None)"
    and "received_header (client_request url (b64_encode StdAlphabet p) qh) = Some h"
    and "\<forall>k \<in> set handshake_keys. header_index (ReqHeader r) k = header_index h k"
    and "case CheckOrigin u of Some f \<Rightarrow> f r | None \<Rightarrow> checkSameOrigin r"
    and "plain_header rh" "clean (selectSubprotocol u r (Some rh))" "\<forall>m \<in> set ms. message_ok 0 m"
  shows "\<exists>s b. fst (Upgrade u r (Some rh) (Hijacked sw []) w) = Upgraded s \<and>
    map_option (sent \<circ> net) (write_messages ms s) = Some (sent sw @ b) \<and>
    (input cw = b \<longrightarrow> (\<exists>c resp c'. NewClient (Inr p) cw url qh n = ClientConn c resp \<and>
      ws_subprotocol c = selectSubprotocol u r (Some rh) \<and>
      read_messages (length ms) c = (map (\<lambda>(t, d). (t, d, None)) ms, c')))"
proof -
  let ?key = "b64_encode StdAlphabet p" and ?sub = "selectSubprotocol u r (Some rh)"
  have nl: "newline \<notin> set ?key" by (rule clean_newline [OF b64_clean])
  have "b64_encode StdAlphabet [] = []" by code_simp
  then have "?key \<noteq> []"
    using assms(2) b64_decode_encode [of StdAlphabet p] b64_decode_encode [of StdAlphabet "[]"] by (metis option.inject)
  moreover have "h = header_of (request_lines url ?key qh) []"
    using request_received [OF request_lines_ok [OF assms(1) nl]] assms(1,5) by (simp add: sendable_def)
  ultimately have good: "handshake_problem u r = None" "header_get (ReqHeader r) ''Sec-Websocket-Key'' = ?key"
    using request_good [of r url p qh u] assms(6,7) by auto
  from Upgrade_ok [OF good(1) assms(3), of "Some rh" w] good(2) obtain s where
    s: "Upgrade u r (Some rh) (Hijacked sw []) w = (Upgraded s, w)" "ready s" "isServer s"
      "sent (net s) = sent sw @ upgrade_response ?key ?sub (Some rh)" by auto
  from messages_written [OF s(2) assms(10)] obtain s' b where
    w: "write_messages ms s = Some s'" "sent (net s') = sent (net s) @ b" and
    r: "\<And>c. reader_ready c \<Longrightarrow> isServer c = (\<not> isServer s) \<Longrightarrow> readLimit c = 0 \<Longrightarrow> input (net c) = b \<Longrightarrow>
      \<exists>c'. read_messages (length ms) c = (map (\<lambda>(t, d). (t, d, None)) ms, c')" by (metis append_Nil2)
  have "\<exists>c resp c'. NewClient (Inr p) cw url qh n = ClientConn c resp \<and> ws_subprotocol c = ?sub \<and>
      read_messages (length ms) c = (map (\<lambda>(t, d). (t, d, None)) ms, c')" if "input cw = upgrade_response ?key ?sub (Some rh) @ b"
    using NewClient_ok [OF assms(4,8,9) that, of url qh n] r s(3) by metis
  with s(1,4) w show ?thesis
    by (intro exI [of _ s] exI [of _ "upgrade_response ?key ?sub (Some rh) @ b"]) simp
qed

subsection \<open>What is refused\<close>

lemma http_Error_status:
  "Status w = None \<Longrightarrow> Status (http_Error msg code w) = Some code"
  "Status w = None \<Longrightarrow> RespBody (http_Error msg code w) = RespBody w @ msg @ [newline]"
  by (simp_all add: http_Error_def http_write_def http_write_header_def Let_def)

text \<open>
  Property C19.  Pages of other sites cannot open a web socket.  A request whose \<open>Origin\<close> is not a URL on the
  host of the request gets an error response, 400 when something else is wrong with it too and 403
  otherwise, and no connection; the network connection is not even taken from the server.
\<close>

theorem cross_site_refused:
  assumes "Method r = ''GET''" "header_index (ReqHeader r) ''Origin'' = origin # os"
    and "\<forall>u. Parse origin = Some u \<longrightarrow> UrlHost u \<noteq> ReqHost r" "Status w = None"
  shows "\<exists>w'. (\<forall>hj. serveWs_upgrade r hj w = (None, w')) \<and> Status w' \<in> {Some 400, Some 403} \<and>
    (handshake_problem upgrader r = Some (403, ''websocket: origin not allowed'') \<longrightarrow>
      Status w' = Some 403 \<and> RespBody w' = RespBody w @ ''Forbidden'' @ [newline])"
proof -
  have "\<not> checkSameOrigin r" using assms(2,3) by (auto simp: checkSameOrigin_def split: option.splits)
  moreover have "CheckOrigin upgrader = None" by (simp add: upgrader_def)
  ultimately have "\<exists>status reason. handshake_problem upgrader r = Some (status, reason) \<and> status \<in> {400, 403}"
    by (simp add: handshake_problem_def)
  then obtain status reason where p: "handshake_problem upgrader r = Some (status, reason)" "status \<in> {400, 403}" by blast
  have "serveWs_upgrade r hj w = (None, http_Error (StatusText status) status w)" for hj
    using assms(1) p(1) by (simp add: serveWs_upgrade_def Upgrade_def returnError_def upgrader_def)
  moreover have "StatusText 403 = ''Forbidden''" by (simp add: StatusText_def)
  ultimately show ?thesis using p http_Error_status [OF assms(4)] by auto
qed

text \<open>
  Where the two sides are too lenient or too strict.  A subprotocol that the application passes in its response
  header is the only value that is written as it is, so that a line break in it adds lines to the response.
\<close>

lemma subprotocol_not_sanitised:
  assumes "UpSubprotocols u = None" "header_get rh ''Sec-Websocket-Protocol'' = p @ crlf @ k @ '': '' @ v" "p \<noteq> []"
  shows "upgrade_response key (selectSubprotocol u r (Some rh)) (Some rh) =
    accept_lines key @ header_line ''Sec-Websocket-Protocol'' p @ header_line k v @ response_headers rh @ crlf"
  using assms by (simp add: selectSubprotocol_def upgrade_response_def header_line_def crlf_def)

text \<open>A query without a path stays in the host, and a path that starts with two slashes names another host.\<close>

lemma parseURL_query_in_host: "map_option UrlHost (parseURL ''ws://a.org?x=1'') = Some ''a.org?x=1''"
  by code_simp

lemma parseURL_double_slash: "map_option RequestURI (parseURL ''ws://a.org//b'') = Some ''ws://b''"
  by code_simp

text \<open>A response whose \<open>Connection\<close> header is a list with the right token is refused.\<close>

lemma connection_list_refused:
  "header_get (HttpHeader resp) ''Connection'' = ''keep-alive, Upgrade'' \<Longrightarrow> \<not> accepted key resp"
proof -
  have "\<not> equal_fold ''keep-alive, Upgrade'' ''upgrade''" by code_simp
  then show "header_get (HttpHeader resp) ''Connection'' = ''keep-alive, Upgrade'' \<Longrightarrow> \<not> accepted key resp"
    by (simp add: accepted_def)
qed

end
