(* ===== verification/WsLimits.thy ===== *)
theory WsLimits
  imports WsSpec
begin

text \<open>
  Where reading stops: frames with the wrong mask flag, messages beyond the read limit, and two ways in
  which the code does not keep what it promises, a limit that a negative length lifts and a message that
  is cut off by the end of the connection and passes for a whole one.
\<close>

subsection \<open>Errors\<close>

lemma check_data:
  assumes "t = continuationFrame \<and> \<not> readFinal c \<or> isData t \<and> readFinal c"
  shows "check_header final t (c\<lparr>net := w, readRemaining := int (len_code n)\<rparr>) =
    Inr (c\<lparr>net := w, readRemaining := int (len_code n), readFinal := final\<rparr>)" "t \<in> {0, 1, 2, 8, 9, 10}"
  using assms by (auto simp: check_header_def isData_def isControl_def ws_consts)

text \<open>What a close frame with a code does to the connection: the frame is written and no other can be.\<close>

definition closed_with :: "nat \<Rightarrow> string \<Rightarrow> ws_conn \<Rightarrow> ws_conn \<Rightarrow> bool" where
  "closed_with code msg c c' \<longleftrightarrow> closeSent c' \<and> (\<exists>key. length key = 4 \<and>
     sent (net c') = sent (net c) @ frame_bytes (isServer c) True CloseMessage key (FormatCloseMessage code msg))"

lemma FormatClose_length: "length (FormatCloseMessage code msg) = 2 + length msg"
  using length_nat_bytes [of "code mod 65536" 2] length_left_pad [of "nat_bytes (code mod 65536)" 2]
  by (simp add: FormatCloseMessage_def)

lemma send_close_ok:
  assumes "answering c" "same_wire (net c) w" "length msg \<le> 123"
  shows "\<exists>w'. send_control CloseMessage (FormatCloseMessage code msg) (c\<lparr>net := w\<rparr>) = c\<lparr>closeSent := True, net := w'\<rparr> \<and>
    input w' = input w \<and> closed_with code msg c (c\<lparr>closeSent := True, net := w'\<rparr>)"
proof -
  have "answering (c\<lparr>net := w\<rparr>)" by (rule answering_quiet [OF assms(1)]) (simp_all add: assms(2))
  then obtain key w' where "length key = 4" "send_control CloseMessage (FormatCloseMessage code msg) (c\<lparr>net := w\<rparr>) =
      (c\<lparr>net := w\<rparr>)\<lparr>closeSent := True, net := w'\<rparr>" "keeps_net (c\<lparr>net := w\<rparr>) w'"
      "sent w' = sent w @ frame_bytes (isServer c) True CloseMessage key (FormatCloseMessage code msg)"
    using send_control_ok [of CloseMessage "FormatCloseMessage code msg" "c\<lparr>net := w\<rparr>"] assms(3)
    by (auto simp: answering_def isControl_def FormatClose_length)
  moreover have "(c\<lparr>net := w\<rparr>)\<lparr>closeSent := True, net := w'\<rparr> = c\<lparr>closeSent := True, net := w'\<rparr>" by (cases c) simp
  ultimately show ?thesis using assms(2) by (intro exI [of _ w']) (auto simp: closed_with_def keeps_net_def same_wire_def)
qed

lemma ReadMessage_fails:
  assumes "reader_ready c" "advanceFrame (new_message c) = (Inl e, c1)" "hideTempErr e = e"
  shows "ReadMessage c = ((noFrame, [], Some e), c1\<lparr>readErr := Some e\<rparr>)"
proof -
  have "readErr (new_message c) = None" using assms(1) by (simp add: reader_ready_def new_message_def)
  with assms(2,3) have "next_frame (new_message c) = (Inl e, c1\<lparr>readErr := Some e\<rparr>)" by (subst next_frame.simps) simp
  then show ?thesis by (simp add: ReadMessage_def)
qed

lemma ReadMessage_failed: "readErr c = Some e \<Longrightarrow> ReadMessage c = ((noFrame, [], Some e), new_message c)"
  by (simp add: ReadMessage_def, subst next_frame.simps) (simp add: new_message_def)

text \<open>
  Property C16.  Masks are checked.  A server that is sent a data frame without a mask, or a client that is
  sent one with a mask, delivers nothing of it, answers with a close frame for a protocol error, and reads
  no further message.
\<close>

theorem unmasked_refused:
  assumes "reader_ready c" "answering c" "isData t" "length p < 2 ^ 63"
    and "input (net c) = frame_bytes (isServer c) final t key p @ rest"
  shows "\<exists>c'. ReadMessage c = ((noFrame, [], Some (ErrProtocol ''incorrect mask flag'')), c') \<and>
    closed_with CloseProtocolError ''incorrect mask flag'' c c' \<and>
    ReadMessage c' = ((noFrame, [], Some (ErrProtocol ''incorrect mask flag'')), new_message c')"
proof -
  let ?c = "new_message c" and ?m = "''incorrect mask flag''"
  have r: "readRemaining ?c \<le> 0" "t = continuationFrame \<and> \<not> readFinal ?c \<or> isData t \<and> readFinal ?c"
    using assms(1,3) by (simp_all add: reader_ready_def new_message_def)
  have "input (net ?c) = frame_head (\<not> (\<not> isServer c)) final t (length p) @
      (if isServer c then p else key @ snd (maskBytes key 0 p)) @ rest" using assms(5) by (simp add: frame_bytes_def)
  from advanceFrame_start [OF this check_data(2) [OF r(2)] _ r(1) check_data(1) [OF r(2)]] assms(4)
  obtain w where w: "same_wire (net c) w" and a: "advanceFrame ?c = masked_frame (\<not> isServer c) t
      (?c\<lparr>readFinal := final, net := w, readRemaining := int64 (int (length p))\<rparr>)" by auto
  define d where "d = ?c\<lparr>readFinal := final, readRemaining := int64 (int (length p))\<rparr>"
  have d: "?c\<lparr>readFinal := final, net := w, readRemaining := int64 (int (length p))\<rparr> = d\<lparr>net := w\<rparr>" by (cases c) (simp add: d_def)
  have ds: "answering d" "net d = net c" "isServer d = isServer c"
    by (auto simp: d_def intro: answering_quiet [OF assms(2)])
  from send_close_ok [OF ds(1), of w ?m CloseProtocolError] w ds(2) obtain w' where
    w': "send_control CloseMessage (FormatCloseMessage CloseProtocolError ?m) (d\<lparr>net := w\<rparr>) = d\<lparr>closeSent := True, net := w'\<rparr>"
      "closed_with CloseProtocolError ?m d (d\<lparr>closeSent := True, net := w'\<rparr>)" by auto
  have "advanceFrame ?c = (Inl (ErrProtocol ?m), d\<lparr>closeSent := True, net := w'\<rparr>)"
    unfolding a d using ds(3) w'(1) by (simp add: masked_frame_def handleProtocolError_def)
  from ReadMessage_fails [OF assms(1) this] w'(2) ds show ?thesis
    by (auto simp: closed_with_def ReadMessage_failed)
qed

subsection \<open>The read limit\<close>

lemma closed_with_same: "same_reader c c1 \<Longrightarrow> closed_with code msg c1 c2 \<Longrightarrow> closed_with code msg c c2"
  by (auto simp: closed_with_def same_reader_def same_wire_def)

lemma answering_same: "answering c \<Longrightarrow> same_reader c c' \<Longrightarrow> answering c'"
  unfolding same_reader_def by (elim conjE) (rule answering_quiet)

text \<open>A reader with a limit, and what is still to come beyond it.\<close>

definition limited :: "ws_conn \<Rightarrow> nat \<Rightarrow> bool" where
  "limited c n \<longleftrightarrow> readErr c = None \<and> answering c \<and> 0 < readLimit c \<and> 0 \<le> readLength c \<and> readLength c \<le> readLimit c \<and>
     readLimit c < readLength c + int n \<and> readLength c + int n < 2 ^ 63"

lemma advance_over:
  assumes i: "input (net c) = frame_bytes (\<not> isServer c) final t key p @ r" and k: "length key = 4"
    and t: "t = continuationFrame \<and> \<not> readFinal c \<or> isData t \<and> readFinal c" and rem: "readRemaining c \<le> 0"
    and lim: "limited c (length p)"
  shows "\<exists>c'. advanceFrame c = (Inl ErrReadLimit, c') \<and> closed_with CloseMessageTooBig [] c c' \<and> readSeq c' = readSeq c"
proof -
  let ?p = "if isServer c then snd (maskBytes key 0 p) else p"
  have "input (net c) = frame_head (\<not> isServer c) final t (length p) @ (if isServer c then key else []) @ ?p @ r"
    using i by (simp add: frame_bytes_def)
  from advanceFrame_head [OF this k check_data(2) [OF t] _ rem check_data(1) [OF t]] lim
  obtain w pos key' where w: "same_wire (net c) w" and a: "advanceFrame c =
      frame_body t (c\<lparr>readFinal := final, readRemaining := int (length p), net := w, readMaskPos := pos, readMaskKey := key'\<rparr>)"
    by (auto simp: limited_def)
  define d where "d = c\<lparr>readFinal := final, readRemaining := int (length p), readMaskPos := pos, readMaskKey := key',
    readLength := readLength c + int (length p)\<rparr>"
  have l: "int64 (readLength c + int (length p)) = readLength c + int (length p)"
    using lim by (intro int64_id) (auto simp: limited_def)
  have d: "answering d" "net d = net c" "isServer d = isServer c" "readSeq d = readSeq c"
    "readLimit d = readLimit c" "readLength d = readLength c + int (length p)"
    using lim by (auto simp: d_def limited_def intro: answering_quiet)
  from send_close_ok [OF d(1), of w "[]" CloseMessageTooBig] w d(2) obtain w' where
    w': "send_control CloseMessage (FormatCloseMessage CloseMessageTooBig []) (d\<lparr>net := w\<rparr>) = d\<lparr>closeSent := True, net := w'\<rparr>"
      "closed_with CloseMessageTooBig [] d (d\<lparr>closeSent := True, net := w'\<rparr>)" by auto
  have n: "c\<lparr>readFinal := final, readRemaining := int (length p), net := w, readMaskPos := pos, readMaskKey := key',
      readLength := readLength c + int (length p)\<rparr> = d\<lparr>net := w\<rparr>" by (cases c) (simp add: d_def)
  have "t = continuationFrame \<or> isData t" using t by blast
  then have "advanceFrame c = (Inl ErrReadLimit, d\<lparr>closeSent := True, net := w'\<rparr>)"
    unfolding a using lim by (simp add: frame_body_def data_frame_def Let_def l n w'(1) d(5,6) limited_def)
  with w'(2) d show ?thesis by (auto simp: closed_with_def)
qed

text \<open>In a message that is too long: what was delivered counts against the limit.\<close>

definition too_long :: "ws_conn \<Rightarrow> nat \<Rightarrow> bytes \<Rightarrow> bool" where
  "too_long c a data \<longleftrightarrow> \<not> readFinal c \<and> (\<exists>p fs key q rest. keys_ok fs \<and> length key = 4 \<and> data = p @ payload_of fs @ q \<and>
     int (a + length p) \<le> readLength c \<and> limited c (length (payload_of fs @ q)) \<and>
     holding c p (message_bytes (\<not> isServer c) continuationFrame fs key q @ rest))"

definition limit_hit :: "ws_conn \<Rightarrow> ws_conn \<Rightarrow> bool" where
  "limit_hit c c' \<longleftrightarrow> closed_with CloseMessageTooBig [] c c' \<and> readSeq c' = readSeq c"

lemma limit_hit_same: "same_reader c c1 \<Longrightarrow> limit_hit c1 c2 \<Longrightarrow> limit_hit c c2"
  by (auto simp: limit_hit_def same_reader_def intro: closed_with_same)

lemma advance_too_long:
  assumes i: "input (net c) = message_bytes (\<not> isServer c) t fs key q @ rest" and k: "keys_ok fs" "length key = 4"
    and t: "t = continuationFrame \<and> \<not> readFinal c \<or> isData t \<and> readFinal c" and rem: "readRemaining c \<le> 0"
    and lim: "limited c (length (payload_of fs @ q))" and a: "int a \<le> readLength c"
  shows "(\<exists>c'. advanceFrame c = (Inr t, c') \<and> too_long c' a (payload_of fs @ q) \<and> same_reader c c') \<or>
    (\<exists>c'. advanceFrame c = (Inl ErrReadLimit, c') \<and> limit_hit c c')"
proof (cases fs)
  case Nil
  with i have "input (net c) = frame_bytes (\<not> isServer c) True t key q @ rest" by (simp add: message_bytes_def next_type_def)
  from advance_over [OF this k(2) t rem] lim Nil show ?thesis by (auto simp: limit_hit_def)
next
  case (Cons f gs)
  obtain k1 p1 where f: "f = (k1, p1)" by (cases f)
  have i1: "input (net c) = frame_bytes (\<not> isServer c) False t k1 p1 @ message_bytes (\<not> isServer c) continuationFrame gs key q @ rest"
    using i by (simp add: Cons f message_bytes_def next_type_def)
  have k1: "length k1 = 4" using k Cons f by simp
  show ?thesis
  proof (cases "readLength c + int (length p1) \<le> readLimit c")
    case True
    with lim have "within c (length p1)" by (auto simp: within_def limited_def Cons f)
    from advance_data [OF i1 k1 t rem this] obtain c' where c': "advanceFrame c = (Inr t, c')"
      "holding c' p1 (message_bytes (\<not> isServer c) continuationFrame gs key q @ rest)" "\<not> readFinal c'" "same_reader c c'"
      "readLength c' = readLength c + int (length p1)" by blast
    have "limited c' (length (payload_of gs @ q))" using lim True c'(4,5)
      by (auto simp: limited_def same_reader_def Cons f intro: answering_same [OF _ c'(4)])
    then have "too_long c' a (payload_of fs @ q)" unfolding too_long_def
      using c' k a by (intro conjI exI [of _ p1] exI [of _ gs] exI [of _ key] exI [of _ q] exI [of _ rest])
        (simp_all add: Cons f same_reader_def)
    with c' show ?thesis by blast
  next
    case False
    with lim have "limited c (length p1)" by (auto simp: limited_def Cons f)
    from advance_over [OF i1 k1 t rem this] show ?thesis by (auto simp: limit_hit_def)
  qed
qed

lemma reader_loop_too_long:
  assumes "too_long c a data" "0 < m"
  shows "(\<exists>c'. reader_loop (readSeq c) m c = (([], Some ErrReadLimit), c') \<and> limit_hit c c') \<or>
    (\<exists>b d c'. b \<noteq> [] \<and> data = b @ d \<and> reader_loop (readSeq c) m c = ((b, None), c') \<and> too_long c' (a + length b) d \<and> same_reader c c')"
  using assms(1)
proof (induction "unread c" arbitrary: c rule: less_induct)
  case less
  then obtain p fs key q rest where nonfinal: "\<not> readFinal c" and k: "keys_ok fs" "length key = 4" and d: "data = p @ payload_of fs @ q"
    and a: "int (a + length p) \<le> readLength c" and lim: "limited c (length (payload_of fs @ q))"
    and h: "holding c p (message_bytes (\<not> isServer c) continuationFrame fs key q @ rest)" by (auto simp: too_long_def)
  have err: "readErr c = None" using lim by (simp add: limited_def)
  show ?case
  proof (cases "p = []")
    case True
    with h have i: "input (net c) = message_bytes (\<not> isServer c) continuationFrame fs key q @ rest" "readRemaining c = 0"
      by (auto simp: holding_def)
    from advance_too_long [OF i(1) k _ _ lim, of a] nonfinal i(2) a True d
    consider c1 where "advanceFrame c = (Inr continuationFrame, c1)" "too_long c1 a data" "same_reader c c1"
      | c1 where "advanceFrame c = (Inl ErrReadLimit, c1)" "limit_hit c c1" by auto
    then show ?thesis
    proof cases
      case 1
      have "reader_loop (readSeq c) m c = reader_loop (readSeq c1) m c1"
        using err i(2) nonfinal 1(1,3) by (subst reader_loop.simps) (simp add: isData_def ws_consts same_reader_def)
      moreover have "unread c1 < unread c" using advanceFrame_unread [OF 1(1)] by simp
      ultimately show ?thesis
        using less.hyps [of c1] 1(2) limit_hit_same [OF 1(3)] same_reader_trans [OF 1(3)] by metis
    next
      case 2
      have "reader_loop (readSeq c) m c = reader_loop (readSeq c) m (c1\<lparr>readErr := Some ErrReadLimit\<rparr>)"
        using err i(2) nonfinal 2(1) by (subst reader_loop.simps) simp
      also have "\<dots> = (([], Some ErrReadLimit), c1\<lparr>readErr := Some ErrReadLimit\<rparr>)" by (subst reader_loop.simps) simp
      finally show ?thesis using 2(2) by (auto simp: limit_hit_def closed_with_def)
    qed
  next
    case False
    from read_payload_ok [OF h False assms(2) disjI1 [OF refl]] obtain b p' c' where r: "read_payload m c = ((b, None), c')" "b \<noteq> []"
      "p = b @ p'" "holding c' p' (message_bytes (\<not> isServer c) continuationFrame fs key q @ rest)" "same_reader c c'"
      "readFinal c' = readFinal c" "readLength c' = readLength c" by blast
    have "0 < readRemaining c" using h False by (simp add: holding_def)
    then have l: "reader_loop (readSeq c) m c = ((b, None), c')" using err r(1) by (subst reader_loop.simps) simp
    have "limited c' (length (payload_of fs @ q))" using lim r(5,7)
      by (auto simp: limited_def same_reader_def intro: answering_same [OF _ r(5)])
    then have "too_long c' (a + length b) (p' @ payload_of fs @ q)" unfolding too_long_def
      using r(3-7) nonfinal k a by (intro conjI exI [of _ p'] exI [of _ fs] exI [of _ key] exI [of _ q] exI [of _ rest])
        (simp_all add: same_reader_def)
    with l r(2,3,5) d show ?thesis by (intro disjI2) auto
  qed
qed

lemma read_all_too_long:
  assumes "too_long c a data"
  shows "\<exists>b d c'. read_all (readSeq c) c = ((b, Some ErrReadLimit), c') \<and> data = b @ d \<and> limit_hit c c' \<and>
    int (a + length b) \<le> readLimit c"
  using assms
proof (induction "length data" arbitrary: data a c rule: less_induct)
  case less
  have a: "int a \<le> readLimit c" using less.prems by (auto simp: too_long_def limited_def)
  have "0 < (512 :: nat)" by simp
  from reader_loop_too_long [OF less.prems this]
  show ?case
  proof (elim disjE exE conjE)
    fix c' assume "reader_loop (readSeq c) 512 c = (([], Some ErrReadLimit), c')" "limit_hit c c'"
    with a show ?thesis by (subst read_all.simps) (auto simp: Reader_Read_def)
  next
    fix b d c1 assume r: "b \<noteq> []" "data = b @ d" "reader_loop (readSeq c) 512 c = ((b, None), c1)" "too_long c1 (a + length b) d"
      "same_reader c c1"
    from less.hyps [OF _ r(4)] r(1,2) obtain b' d' c' where l: "read_all (readSeq c1) c1 = ((b', Some ErrReadLimit), c')"
      "d = b' @ d'" "limit_hit c1 c'" "int (a + length b + length b') \<le> readLimit c1" by auto
    have s: "readSeq c1 = readSeq c" "readLimit c1 = readLimit c" using r(5) by (simp_all add: same_reader_def)
    have "read_all (readSeq c) c = ((b @ b', Some ErrReadLimit), c')"
      using r(3) l(1) s(1) by (subst read_all.simps) (simp add: Reader_Read_def)
    with l(2-4) r(2) s(2) limit_hit_same [OF r(5) l(3)] show ?thesis by (auto simp: add.assoc)
  qed
qed

text \<open>
  Property C13.  The read limit holds.  A message whose frames are together longer than the limit is not
  delivered: reading it ends in an error, what was read of it until then is within the limit, and the peer
  is sent a close frame that says the message was too big.
\<close>

theorem limit_enforced:
  assumes "reader_ready c" "answering c" "isData t" "keys_ok fs" "length key = 4" "length (payload_of fs @ q) < 2 ^ 63"
    and "input (net c) = message_bytes (\<not> isServer c) t fs key q @ rest"
    and "0 < readLimit c" "readLimit c < int (length (payload_of fs @ q))"
  shows "\<exists>t' b d c'. ReadMessage c = ((t', b, Some ErrReadLimit), c') \<and> payload_of fs @ q = b @ d \<and>
    int (length b) \<le> readLimit c \<and> closed_with CloseMessageTooBig [] c c'"
proof -
  let ?c = "new_message c"
  have r: "readRemaining ?c \<le> 0" "t = continuationFrame \<and> \<not> readFinal ?c \<or> isData t \<and> readFinal ?c" "readErr ?c = None"
    using assms(1,3) by (simp_all add: reader_ready_def new_message_def)
  have "answering ?c" by (rule answering_quiet [OF assms(2)]) simp_all
  then have lim: "limited ?c (length (payload_of fs @ q))" using assms(6,8,9) r(3) by (simp add: limited_def)
  from advance_too_long [OF _ assms(4,5) r(2,1) lim, of rest 0] assms(7)
  consider c1 where "advanceFrame ?c = (Inr t, c1)" "too_long c1 0 (payload_of fs @ q)" "same_reader ?c c1"
    | c1 where "advanceFrame ?c = (Inl ErrReadLimit, c1)" "limit_hit ?c c1" by auto
  then show ?thesis
  proof cases
    case 1
    from read_all_too_long [OF 1(2)] obtain b d c' where l: "read_all (readSeq c1) c1 = ((b, Some ErrReadLimit), c')"
      "payload_of fs @ q = b @ d" "limit_hit c1 c'" "int (length b) \<le> readLimit c1" by auto
    have "NextReader c = (Inr t, c1)" using r(3) 1(1) assms(3) by (simp, subst next_frame.simps) simp
    with l(1) have "ReadMessage c = ((t, b, Some ErrReadLimit), c')" by (simp add: ReadMessage_def)
    moreover have "closed_with CloseMessageTooBig [] c c'" "readLimit c1 = readLimit c"
      using limit_hit_same [OF 1(3) l(3)] 1(3) by (simp_all add: limit_hit_def closed_with_def same_reader_def)
    ultimately show ?thesis using l(2,4) by auto
  next
    case 2
    from ReadMessage_fails [OF assms(1) 2(1)] 2(2) assms(8) show ?thesis
      by (auto simp: limit_hit_def closed_with_def)
  qed
qed

subsection \<open>A negative length\<close>

lemma int64_negative: "0 < k \<Longrightarrow> k \<le> 2 ^ 63 \<Longrightarrow> int64 (int (2 ^ 64 - k)) = - int k"
proof -
  assume k: "0 < k" "k \<le> 2 ^ 63"
  then have "int (2 ^ 64 - k) = - int k + 2 ^ 64" by (simp add: of_nat_diff)
  moreover have "(word_of_int (- int k + 2 ^ 64) :: 64 word) = word_of_int (- int k)"
    by (rule word_of_int_eq_iff [THEN iffD2]) (simp add: take_bit_eq_mod)
  ultimately have "int64 (int (2 ^ 64 - k)) = int64 (- int k)" by (simp only: int64_def)
  with k show ?thesis by (simp add: int64_id)
qed

text \<open>
  Property C14.  A negative length lifts the read limit.  A frame that is not the last of its message and
  gives its length as \<open>2\<^sup>6\<^sup>4 - k\<close> is taken for one without payload and makes the length of the message so far
  negative; the frames that follow may then be longer than the read limit by \<open>k\<close> bytes, and the message is
  delivered without an error.
\<close>

theorem limit_bypassed:
  assumes "reader_ready c" "isData t" "0 < k" "k \<le> 2 ^ 63" "length key1 = 4" "keys_ok fs" "length key = 4"
    and "input (net c) = frame_head (\<not> isServer c) False t (2 ^ 64 - k) @ (if isServer c then key1 else []) @
      message_bytes (\<not> isServer c) continuationFrame fs key q @ rest"
    and "0 < readLimit c" "int (length (payload_of fs @ q)) \<le> readLimit c + int k" "length (payload_of fs @ q) < 2 ^ 63"
  shows "\<exists>c'. ReadMessage c = ((t, payload_of fs @ q, None), c') \<and> reader_ready c' \<and> input (net c') = rest"
proof -
  let ?c = "new_message c"
  have r: "readRemaining ?c \<le> 0" "t = continuationFrame \<and> \<not> readFinal ?c \<or> isData t \<and> readFinal ?c" "readErr ?c = None"
    using assms(1,2) by (simp_all add: reader_ready_def new_message_def)
  have i: "input (net ?c) = frame_head (\<not> isServer ?c) False t (2 ^ 64 - k) @ (if isServer ?c then key1 else []) @
      message_bytes (\<not> isServer c) continuationFrame fs key q @ rest" using assms(8) by simp
  have "2 ^ 64 - k < 2 ^ 64" using assms(3) by simp
  from advanceFrame_masked [OF i assms(5) check_data(2) [OF r(2)] this r(1) check_data(1) [OF r(2)]]
  obtain w pos key' where w: "input w = message_bytes (\<not> isServer c) continuationFrame fs key q @ rest" and
    a: "advanceFrame ?c = frame_body t (?c\<lparr>readFinal := False, readRemaining := - int k, net := w, readMaskPos := pos, readMaskKey := key'\<rparr>)"
    using int64_negative [OF assms(3,4)] by auto
  define c1 where "c1 = ?c\<lparr>readFinal := False, readRemaining := - int k, net := w, readMaskPos := pos, readMaskKey := key',
    readLength := - int k\<rparr>"
  have c1: "net c1 = w" "isServer c1 = isServer c" "\<not> readFinal c1" "readRemaining c1 \<le> 0" "readErr c1 = None"
    "readLimit c1 = readLimit c" "readLength c1 = - int k" using r(3) by (simp_all add: c1_def)
  have "int64 (- int k) = - int k" using assms(4) by (simp add: int64_id)
  then have "advanceFrame ?c = (Inr t, c1)"
    unfolding a using assms(2,9) by (simp add: frame_body_def data_frame_def c1_def)
  with r(3) assms(2) have n: "NextReader c = (Inr t, c1)" by (simp, subst next_frame.simps) simp
  have "within c1 (length (payload_of fs @ q))" using assms(3,4,10,11) by (simp add: within_def c1)
  from advance_message [OF _ assms(6,7) _ c1(4) this c1(5)] w obtain c2 where
    c2: "advanceFrame c1 = (Inr continuationFrame, c2)" "mid_message c2 (payload_of fs @ q) rest" "same_reader c1 c2"
    by (auto simp: c1)
  have "reader_loop (readSeq c1) 512 c1 = reader_loop (readSeq c2) 512 c2"
    using c1(3-5) c2(1,3) by (subst reader_loop.simps) (simp add: isData_def ws_consts same_reader_def)
  then have "read_all (readSeq c1) c1 = read_all (readSeq c2) c2"
    by (simp add: read_all.simps [of _ c1] read_all.simps [of _ c2] Reader_Read_def) (use c2(3) in \<open>simp add: same_reader_def\<close>)
  with read_all_ok [OF c2(2)] n show ?thesis by (auto simp: ReadMessage_def)
qed

subsection \<open>A message that is cut off\<close>

lemma read_all_cut:
  assumes "partly c e p []" "0 < e" "readErr c = None" "input_end (net c) = ErrEOF"
  shows "\<exists>c'. read_all (readSeq c) c = ((p, None), c')"
  using assms
proof (induction "length p" arbitrary: p c rule: less_induct)
  case less
  have rem: "0 < readRemaining c" using less.prems(1,2) by (simp add: partly_def)
  then have l: "reader_loop (readSeq c) 512 c = read_payload 512 c" using less.prems(3) by (subst reader_loop.simps) simp
  show ?case
  proof (cases "p = []")
    case True
    with less.prems have "wire_read m (net c) = (Inl ErrEOF, (net c)\<lparr>reads := Suc (reads (net c))\<rparr>)" if "0 < m" for m
      using that by (simp add: wire_read_def partly_def)
    then obtain c' where "read_payload 512 c = (([], Some ErrEOF), c')" using rem by (auto simp: read_payload_def)
    with l True show ?thesis by (subst read_all.simps) (simp add: Reader_Read_def)
  next
    case False
    from read_payload_ok [OF less.prems(1) False, of 512] obtain b q c1 where r: "read_payload 512 c = ((b, None), c1)" "b \<noteq> []"
      "p = b @ q" "partly c1 e q []" "same_reader c c1" by auto
    from less.hyps [OF _ r(4) less.prems(2)] r(2,3,5) less.prems(3,4) obtain c' where
      "read_all (readSeq c1) c1 = ((q, None), c')" by (auto simp: same_reader_def same_wire_def)
    with l r(1,3,5) show ?thesis by (subst read_all.simps) (simp add: Reader_Read_def same_reader_def)
  qed
qed

text \<open>
  Property C15.  A message that is cut off passes for a whole one.  When the peer's connection ends
  within the payload of a frame, the part that arrived is delivered as the message, and without an
  error, however much of it is missing.
\<close>

theorem truncated_read_as_complete:
  assumes "reader_ready c" "isData t" "length key = 4" "length p < n" "n < 2 ^ 63" "readLimit c \<le> 0 \<or> int n \<le> readLimit c"
    and "input (net c) = frame_head (\<not> isServer c) final t n @ (if isServer c then key @ snd (maskBytes key 0 p) else p)"
    and "input_end (net c) = ErrEOF"
  shows "\<exists>c'. ReadMessage c = ((t, p, None), c')"
proof -
  let ?c = "new_message c" and ?p = "if isServer c then snd (maskBytes key 0 p) else p"
  have r: "readRemaining ?c \<le> 0" "t = continuationFrame \<and> \<not> readFinal ?c \<or> isData t \<and> readFinal ?c" "readErr ?c = None"
    using assms(1,2) by (simp_all add: reader_ready_def new_message_def)
  have "input (net ?c) = frame_head (\<not> isServer ?c) final t n @ (if isServer ?c then key else []) @ ?p"
    using assms(7) by simp
  from advanceFrame_head [OF this assms(3) check_data(2) [OF r(2)] assms(5) r(1) check_data(1) [OF r(2)]]
  obtain w pos key' where w: "input w = ?p" "same_wire (net c) w" "isServer c \<longrightarrow> pos = 0 \<and> key' = key" and a: "advanceFrame ?c =
      frame_body t (?c\<lparr>readFinal := final, readRemaining := int n, net := w, readMaskPos := pos, readMaskKey := key'\<rparr>)"
    by auto
  define c1 where "c1 = ?c\<lparr>readFinal := final, readRemaining := int n, net := w, readMaskPos := pos, readMaskKey := key',
    readLength := int n\<rparr>"
  have "int64 (int n) = int n" using assms(5) by (simp add: int64_id)
  then have "advanceFrame ?c = (Inr t, c1)"
    unfolding a using assms(2,6) by (auto simp: frame_body_def data_frame_def c1_def)
  with r(3) assms(2) have n: "NextReader c = (Inr t, c1)" by (simp, subst next_frame.simps) simp
  have "partly c1 (n - length p) p []" using w assms(4) by (auto simp: partly_def c1_def)
  from read_all_cut [OF this] assms(4,8) w(2) r(3) n show ?thesis
    by (auto simp: ReadMessage_def c1_def same_wire_def)
qed

end
