(* ===== verification/WsWitness.thy ===== *)
theory WsWitness
  imports WsLimits
begin

text \<open>The properties of web socket connections at concrete connections.\<close>

text \<open>A network without faults that delivers one byte at a time, and a server on it.\<close>

definition demo_wire :: "bytes \<Rightarrow> wire" where
  "demo_wire b = \<lparr>input = b, input_end = ErrEOF, read_size = (\<lambda>_. 1), reads = 0, sent = [], write_fault = (\<lambda>_. None), writes = 0,
     wire_closed = False, random32 = (\<lambda>_. 7), keys_drawn = 0, wire_clock = (\<lambda>_. 0), wire_ticks = 0, lock_late = (\<lambda>_. False)\<rparr>"

definition demo_server :: "bytes \<Rightarrow> ws_conn" where
  "demo_server b = newConn (demo_wire b) True 4"

definition demo_key :: bytes where
  "demo_key = ''key!''"

lemma demo_key_length: "length demo_key = 4"
  by (simp add: demo_key_def)

lemma demo_conn: "reader_ready (newConn (demo_wire b) s 4)" "answering (newConn (demo_wire b) s 4)"
  "ready (newConn (demo_wire b) s 4)"
  "readLimit (newConn (demo_wire b) s 4) = 0" "net (newConn (demo_wire b) s 4) = demo_wire b"
  "isServer (newConn (demo_wire b) s 4) = s" "handlePing (newConn (demo_wire b) s 4) = None"
  by (simp_all add: newConn_def reader_ready_def answering_def on_time_def demo_wire_def ws_writeWait_def ready_def writable_def
      unflushed_def ws_consts zero_bytes_def)

lemma demo_server_facts: "reader_ready (demo_server b)" "answering (demo_server b)" "readLimit (demo_server b) = 0"
  "net (demo_server b) = demo_wire b" "isServer (demo_server b)" "handlePing (demo_server b) = None"
  by (simp_all add: demo_server_def demo_conn)

lemma demo_limit: "reader_ready (SetReadLimit n (demo_server b))" "answering (SetReadLimit n (demo_server b))"
  "readLimit (SetReadLimit n (demo_server b)) = n" "net (SetReadLimit n (demo_server b)) = demo_wire b"
  "isServer (SetReadLimit n (demo_server b))"
  using demo_server_facts [of b] by (simp_all add: SetReadLimit_def reader_ready_def answering_def on_time_def)

lemma demo_wire_simps: "input (demo_wire b) = b" "input_end (demo_wire b) = ErrEOF" "sent (demo_wire b) = []"
  by (simp_all add: demo_wire_def)

lemma demo_data: "isData TextMessage" "isData BinaryMessage"
  by (simp_all add: isData_def)

theorem messages_travel_witness:
  "\<exists>w' r'. write_messages [(TextMessage, ''hello''), (BinaryMessage, [])] (demo_server []) = Some w' \<and>
     read_messages 2 (newConn (demo_wire (sent (net w'))) False 4) =
       ([(TextMessage, ''hello'', None), (BinaryMessage, [], None)], r')"
proof -
  let ?ms = "[(TextMessage, ''hello''), (BinaryMessage, [])]"
  have ms: "\<forall>m \<in> set ?ms. message_ok 0 m" by (simp add: message_ok_def demo_data)
  have w: "ready (demo_server [])" "isServer (newConn (demo_wire b) False 4) = (\<not> isServer (demo_server []))" for b
    by (simp_all add: demo_server_def demo_conn)
  note travel = messages_travel [OF w(1) ms demo_conn(1) w(2) demo_conn(4)]
  from travel [of "[]"] obtain w' where w': "write_messages ?ms (demo_server []) = Some w'" by blast
  from travel [of "sent (net w')"] w' show ?thesis
    by (auto simp: demo_conn demo_server_facts demo_server_def demo_wire_simps numeral_2_eq_2)
qed

theorem close_is_last_witness:
  "\<exists>e c'. WriteMessage TextMessage ''late'' (snd (WriteControl CloseMessage [] None (demo_server []))) = Some (Some e, c')"
proof -
  have "closeSent (snd (WriteControl CloseMessage [] None (demo_server [])))"
    by (simp add: WriteControl_def isControl_def control_bytes_def demo_server_def newConn_def too_late_def demo_wire_def
        write_control_frame_def Let_def case_prod_unfold)
  from close_is_last [OF this] show ?thesis by blast
qed

theorem ping_answered_witness:
  "\<exists>c' pk. ReadMessage (demo_server (frame_bytes False True PingMessage demo_key ''hi'' @
       message_bytes False TextMessage [(demo_key, ''a'')] demo_key ''bc'')) = ((TextMessage, ''abc'', None), c') \<and>
     sent (net c') = frame_bytes True True PongMessage pk ''hi''"
  using ping_answered [of "demo_server (frame_bytes False True PingMessage demo_key ''hi'' @
       message_bytes False TextMessage [(demo_key, ''a'')] demo_key ''bc'')" demo_key "''hi''" TextMessage "[(demo_key, ''a'')]"
       demo_key "''bc''" "[]"]
  by (auto simp: demo_server_facts demo_wire_simps demo_key_length demo_data)

theorem unmasked_refused_witness:
  "\<exists>c'. ReadMessage (demo_server (frame_bytes True True TextMessage [] ''plain'')) =
     ((noFrame, [], Some (ErrProtocol ''incorrect mask flag'')), c') \<and> closeSent c'"
  using unmasked_refused [of "demo_server (frame_bytes True True TextMessage [] ''plain'')" TextMessage "''plain''" True "[]" "[]"]
  by (auto simp: demo_server_facts demo_wire_simps demo_data closed_with_def)

theorem limit_enforced_witness:
  "\<exists>t b c'. ReadMessage (SetReadLimit 3 (demo_server (message_bytes False TextMessage [(demo_key, ''ab'')] demo_key ''cd''))) =
     ((t, b, Some ErrReadLimit), c') \<and> closeSent c'"
  using limit_enforced [of "SetReadLimit 3 (demo_server (message_bytes False TextMessage [(demo_key, ''ab'')] demo_key ''cd''))"
      TextMessage "[(demo_key, ''ab'')]" demo_key "''cd''" "[]"]
  by (auto simp: demo_limit demo_wire_simps demo_key_length demo_data closed_with_def)

theorem limit_bypassed_witness:
  "\<exists>c'. ReadMessage (SetReadLimit 1 (demo_server (frame_head False False TextMessage (2 ^ 64 - 4) @ demo_key @
     message_bytes False continuationFrame [] demo_key ''hello''))) = ((TextMessage, ''hello'', None), c')"
  using limit_bypassed [of "SetReadLimit 1 (demo_server (frame_head False False TextMessage (2 ^ 64 - 4) @ demo_key @
     message_bytes False continuationFrame [] demo_key ''hello''))" TextMessage 4 demo_key "[]" demo_key "''hello''" "[]"]
  by (auto simp: demo_limit demo_wire_simps demo_key_length demo_data)

theorem truncated_read_as_complete_witness:
  "\<exists>c'. ReadMessage (demo_server (frame_head False True TextMessage 5 @ demo_key @ snd (maskBytes demo_key 0 ''he''))) =
     ((TextMessage, ''he'', None), c')"
  using truncated_read_as_complete [of "demo_server (frame_head False True TextMessage 5 @ demo_key @ snd (maskBytes demo_key 0 ''he''))"
      TextMessage demo_key "''he''" 5 True]
  by (auto simp: demo_server_facts demo_wire_simps demo_key_length demo_data)

end
