(* ===== verification/WsSession.thy ===== *)
theory WsSession
  imports WsHandshakeSpec WsWitness
begin

text \<open>The properties of the handshake at a concrete request.\<close>

definition demo_url :: URL where
  "demo_url = empty_url\<lparr>Scheme := ''ws'', UrlHost := ''a.org'', Opaque := ''/chat''\<rparr>"

definition demo_nonce :: bytes where
  "demo_nonce = ''sixteen bytes...''"

definition demo_request :: "header \<Rightarrow> Request" where
  "demo_request h = \<lparr>Method = ''GET'', ReqUrl = demo_url, ReqHeader = h, ReqHost = ''a.org'', Body = Some [], ContentLength = 0,
     PathParams = (\<lambda>_. None), Env = (\<lambda>_. None)\<rparr>"

definition demo_header :: header where
  "demo_header = header_of (request_lines demo_url (b64_encode StdAlphabet demo_nonce) []) []"

definition demo_upgrader :: Upgrader where
  "demo_upgrader = upgrader\<lparr>UpSubprotocols := Some [''chat'']\<rparr>"

lemma demo_sendable: "sendable demo_url []"
  by code_simp

lemma demo_received: "received_header (client_request demo_url (b64_encode StdAlphabet demo_nonce) []) = Some demo_header"
  unfolding demo_header_def
  by (rule request_received [OF request_lines_ok [OF demo_sendable clean_newline [OF b64_clean]]]) code_simp

lemma demo_no_origin: "header_index demo_header ''Origin'' = []" "header_get demo_header ''Sec-Websocket-Protocol'' = []"
  by code_simp+

lemma demo_allowed: "case CheckOrigin demo_upgrader of Some f \<Rightarrow> f (demo_request demo_header) | None \<Rightarrow> checkSameOrigin (demo_request demo_header)"
  by (simp add: demo_upgrader_def upgrader_def checkSameOrigin_def demo_request_def demo_no_origin)

lemma demo_protocol: "selectSubprotocol demo_upgrader (demo_request demo_header) (Some []) = []"
proof -
  have "TrimSpace [] = []" by code_simp
  then show ?thesis
    by (simp add: selectSubprotocol_def demo_upgrader_def Subprotocols_def demo_request_def demo_no_origin)
qed

definition fresh_response :: Response where
  "fresh_response = \<lparr>RespHeader = [], Status = None, SentHeader = [], RespBody = []\<rparr>"

theorem session_travels_witness:
  "\<exists>s b c resp c'. fst (Upgrade demo_upgrader (demo_request demo_header) (Some []) (Hijacked (demo_wire []) []) fresh_response) = Upgraded s \<and>
     map_option (sent \<circ> net) (write_messages [(TextMessage, ''hi'')] s) = Some b \<and>
     NewClient (Inr demo_nonce) (demo_wire b) demo_url [] 4 = ClientConn c resp \<and>
     read_messages 1 c = ([(TextMessage, ''hi'', None)], c')"
proof -
  have w: "write_fault (demo_wire b) = (\<lambda>_. None)" for b by (simp add: demo_wire_def)
  have k: "\<forall>k \<in> set handshake_keys. header_index (ReqHeader (demo_request demo_header)) k = header_index demo_header k"
    by (simp add: demo_request_def)
  have n: "demo_nonce \<noteq> []" "plain_header []" "clean (selectSubprotocol demo_upgrader (demo_request demo_header) (Some []))"
    by (simp_all add: demo_nonce_def plain_header_def clean_def demo_protocol)
  have m: "\<forall>m \<in> set [(TextMessage, ''hi'')]. message_ok 0 m" by (simp add: message_ok_def demo_data)
  note travels = session_travels [OF demo_sendable n(1) w w demo_received k demo_allowed n(2,3) m, of "[]" fresh_response]
  from travels [of "[]" 4] obtain s b where
    s: "fst (Upgrade demo_upgrader (demo_request demo_header) (Some []) (Hijacked (demo_wire []) []) fresh_response) = Upgraded s"
      "map_option (sent \<circ> net) (write_messages [(TextMessage, ''hi'')] s) = Some b" by (auto simp: demo_wire_simps)
  from travels [of b 4] s show ?thesis by (auto simp: demo_wire_simps)
qed

text \<open>The same request from a page of another site.\<close>

definition demo_cross :: Request where
  "demo_cross = demo_request [(''Connection'', [''Upgrade'']), (''Origin'', [''http://evil.org'']),
     (''Sec-Websocket-Key'', [''key'']), (''Sec-Websocket-Version'', [''13'']), (''Upgrade'', [''websocket''])]"

theorem cross_site_refused_witness:
  "\<exists>w'. serveWs_upgrade demo_cross NotHijacker fresh_response = (None, w') \<and> RespBody w' = ''Forbidden'' @ [newline]"
proof -
  have r: "Method demo_cross = ''GET''" "header_index (ReqHeader demo_cross) ''Origin'' = ''http://evil.org'' # []"
    "map_option UrlHost (Parse ''http://evil.org'') = Some ''evil.org''" "ReqHost demo_cross = ''a.org''"
    "handshake_problem upgrader demo_cross = Some (403, ''websocket: origin not allowed'')" by code_simp+
  have "\<forall>u. Parse ''http://evil.org'' = Some u \<longrightarrow> UrlHost u \<noteq> ReqHost demo_cross" using r(3,4) by auto
  from cross_site_refused [OF r(1,2) this, of fresh_response] r(5) show ?thesis by (auto simp: fresh_response_def)
qed

end
