(* ===== verification/TrustGraph.thy ===== *)
theory TrustGraph
  imports Json "HOL-Library.Word"
begin

unbundle bit_operations_syntax

text \<open>
  The trust graph of libtrust (\<open>trustgraph/memory_graph.go\<close>, the collapsing of statements in \<open>statement.go\<close>).
  Grants are pointers in the code: here they are addresses in a list of grants (\<open>heap\<close>), so that a grant
  that is in several nodes is changed in all of them, and that the same grant is met twice.
\<close>

subsection \<open>Grants and their tree\<close>

record Grant =
  Subject :: string
  Permission :: "16 word"
  Grantee :: string
  grant_statement :: "nat option"

datatype grantNode = GrantNode (node_grants: "nat list") (node_children: "(string \<times> grantNode) list")

type_synonym grant_tree = "(string \<times> grantNode) list"

definition newGrantNode :: grantNode where
  "newGrantNode = GrantNode [] []"

text \<open>The loop over the parts of a grantee, which counts a grant in every node it passes, or in those with a name.\<close>

fun add_grant :: "bool \<Rightarrow> nat \<Rightarrow> string list \<Rightarrow> grant_tree \<Rightarrow> grant_tree" where
  "add_grant named a [] nodes = nodes"
| "add_grant named a (part # parts) nodes =
     (let node = (case map_of nodes part of None \<Rightarrow> newGrantNode | Some n \<Rightarrow> n)
      in obj_put part (GrantNode (if named \<and> part = [] then node_grants node else node_grants node @ [a])
           (add_grant named a parts (node_children node))) nodes)"

fun find_node :: "string list \<Rightarrow> grant_tree \<Rightarrow> grantNode option" where
  "find_node [] nodes = None"
| "find_node [part] nodes = map_of nodes part"
| "find_node (part # parts) nodes =
     (case map_of nodes part of None \<Rightarrow> None | Some n \<Rightarrow> find_node parts (node_children n))"

definition NewMemoryGraph :: "Grant list \<Rightarrow> nat list \<Rightarrow> grant_tree" where
  "NewMemoryGraph heap grants = fold (\<lambda>a. add_grant True a (split_on (CHR ''/'') (Grantee (heap ! a)))) grants []"

definition getGrants :: "grant_tree \<Rightarrow> string \<Rightarrow> nat list" where
  "getGrants g name = (case find_node (split_on (CHR ''/'') name) g of None \<Rightarrow> [] | Some n \<Rightarrow> node_grants n)"

definition isSubName :: "string \<Rightarrow> string \<Rightarrow> bool" where
  "isSubName name sub \<longleftrightarrow> prefix sub name \<and> (length name = length sub \<or> name ! length sub = CHR ''/'')"

subsection \<open>Walking the grants\<close>

text \<open>What does not change on a walk; \<open>walk_stop\<close> is whether the walk function ends it at the first grant it finds.\<close>

record walk =
  walk_heap :: "Grant list"
  walk_graph :: grant_tree
  walk_target :: string
  walk_permission :: "16 word"
  walk_stop :: bool

definition permits :: "walk \<Rightarrow> nat \<Rightarrow> bool" where
  "permits w a \<longleftrightarrow> Permission (walk_heap w ! a) AND walk_permission w = walk_permission w"

definition found :: "walk \<Rightarrow> nat \<Rightarrow> bool" where
  "found w a \<longleftrightarrow> isSubName (walk_target w) (Subject (walk_heap w ! a))"

text \<open>
  The first loop of \<open>walkGrants\<close>: whether the walk is over, the visited grants, the grants to follow, and the
  chains that were collected.
\<close>

fun scan_grants :: "walk \<Rightarrow> nat list \<Rightarrow> nat list \<Rightarrow> nat set \<Rightarrow> nat list \<Rightarrow> nat list list \<Rightarrow>
    bool \<times> nat set \<times> nat list \<times> nat list list" where
  "scan_grants w chain [] visited subGrants out = (False, visited, subGrants, out)"
| "scan_grants w chain (a # grants) visited subGrants out =
     (if a \<in> visited then scan_grants w chain grants visited subGrants out
      else (let visited' = insert a visited in
        if permits w a then
          if found w a then
            (if walk_stop w then (True, visited', subGrants, out)
             else scan_grants w chain grants visited' subGrants (out @ [chain @ [a]]))
          else scan_grants w chain grants visited' (subGrants @ [a]) out
        else scan_grants w chain grants visited' subGrants out))"

text \<open>The grants of a graph, which bound the walk.\<close>

fun node_addrs :: "grantNode \<Rightarrow> nat set" where
  "node_addrs (GrantNode gs ch) = set gs \<union> \<Union> (set (map (\<lambda>(k, n). node_addrs n) ch))"

definition graph_addrs :: "grant_tree \<Rightarrow> nat set" where
  "graph_addrs g = \<Union> (set (map (\<lambda>(k, n). node_addrs n) g))"

lemma finite_node_addrs [simp]: "finite (node_addrs n)"
  by (induction n rule: node_addrs.induct) auto

lemma finite_graph_addrs [simp]: "finite (graph_addrs g)"
  by (auto simp: graph_addrs_def)

lemma find_node_addrs: "find_node parts g = Some n \<Longrightarrow> set (node_grants n) \<subseteq> graph_addrs g"
proof (induction parts g rule: find_node.induct)
  case (2 part nodes)
  then have "(part, n) \<in> set nodes" by (simp add: map_of_SomeD)
  then show ?case by (cases n) (force simp: graph_addrs_def)
next
  case (3 part p parts nodes)
  then obtain m where m: "map_of nodes part = Some m" "find_node (p # parts) (node_children m) = Some n"
    by (auto split: option.splits)
  have "graph_addrs (node_children m) \<subseteq> node_addrs m" by (cases m) (auto simp: graph_addrs_def)
  moreover have "node_addrs m \<subseteq> graph_addrs nodes" using map_of_SomeD [OF m(1)] by (force simp: graph_addrs_def)
  ultimately show ?case using 3(1) [OF m] by blast
qed simp

lemma getGrants_addrs: "set (getGrants g name) \<subseteq> graph_addrs g"
  by (cases "find_node (split_on (CHR ''/'') name) g") (auto simp: getGrants_def dest: find_node_addrs)

lemma scan_visited: "scan_grants w chain gs v subs out = (b, v', subs', out') \<Longrightarrow>
    v \<subseteq> v' \<and> v' \<subseteq> v \<union> set gs \<and> (\<exists>new. subs' = subs @ new \<and> set new \<subseteq> v' - v)"
proof (induction w chain gs v subs out rule: scan_grants.induct)
  case (2 w chain a gs v subs out)
  show ?case
  proof (cases "a \<in> v")
    case True
    with 2(1) 2(5) show ?thesis by fastforce
  next
    case new: False
    show ?thesis
    proof (cases "permits w a \<and> \<not> found w a")
      case True
      with 2(3) [OF new refl] 2(5) new have "insert a v \<subseteq> v' \<and> v' \<subseteq> insert a v \<union> set gs \<and>
          (\<exists>new. subs' = (subs @ [a]) @ new \<and> set new \<subseteq> v' - insert a v)" by (simp add: Let_def)
      then show ?thesis using new by fastforce
    next
      case False
      then have "(b, v', subs', out') = (True, insert a v, subs, out) \<or>
          insert a v \<subseteq> v' \<and> v' \<subseteq> insert a v \<union> set gs \<and> (\<exists>new. subs' = subs @ new \<and> set new \<subseteq> v' - insert a v)"
        using 2(2) [OF new refl] 2(4) [OF new refl] 2(5) new by (auto simp: Let_def split: if_splits)
      then show ?thesis by fastforce
    qed
  qed
qed simp

text \<open>The second loop, over the grants to follow, with the walk from each of them.\<close>

function walk_subs :: "walk \<Rightarrow> nat list \<Rightarrow> nat list \<Rightarrow> nat set \<Rightarrow> nat list list \<Rightarrow> bool \<times> nat set \<times> nat list list" where
  "walk_subs w chain [] visited out = (False, visited, out)"
| "walk_subs w chain (a # grants) visited out =
     (case scan_grants w (chain @ [a]) (getGrants (walk_graph w) (Subject (walk_heap w ! a))) visited [] out of
        (True, v1, subs, out1) \<Rightarrow> (True, v1, out1)
      | (False, v1, subs, out1) \<Rightarrow>
          (case walk_subs w (chain @ [a]) subs v1 out1 of
             (True, v2, out2) \<Rightarrow> (True, v2, out2)
           | (False, v2, out2) \<Rightarrow> walk_subs w chain grants v2 out2))"
  by pat_completeness auto

lemma walk_subs_visited:
  assumes "walk_subs_dom (w, chain, gs, v, out)"
  shows "walk_subs w chain gs v out = (b, v', out') \<Longrightarrow> v \<subseteq> v'"
  using assms
proof (induction w chain gs v out arbitrary: b v' out' rule: walk_subs.pinduct)
  case (2 w chain a gs v out)
  obtain b1 v1 subs out1 where s: "scan_grants w (chain @ [a]) (getGrants (walk_graph w) (Subject (walk_heap w ! a))) v [] out = (b1, v1, subs, out1)"
    by (metis prod_cases4)
  obtain b2 v2 out2 where r: "walk_subs w (chain @ [a]) subs v1 out1 = (b2, v2, out2)" by (metis prod_cases3)
  note le = scan_visited [OF s]
  show ?case
  proof (cases "b1 \<or> b2")
    case True
    from 2(1,4) s r have e: "(if b1 then (True, v1, out1) else if b2 then (True, v2, out2) else walk_subs w chain gs v2 out2) = (b, v', out')"
      by (simp add: walk_subs.psimps split: bool.splits)
    show ?thesis
    proof (cases b1)
      case True
      with e le show ?thesis by simp
    next
      case False
      with \<open>b1 \<or> b2\<close> e have "v' = v2" by simp
      moreover from False s have s': "scan_grants w (chain @ [a]) (getGrants (walk_graph w) (Subject (walk_heap w ! a))) v [] out = (False, v1, subs, out1)" by simp
      have "v1 \<subseteq> v2" using 2(2) [OF s' [symmetric] refl refl refl r] .
      ultimately show ?thesis using le by blast
    qed
  next
    case False
    then have b: "b1 = False" "b2 = False" by simp_all
    have "v1 \<subseteq> v2" using 2(2) [OF s [unfolded b, symmetric] refl refl refl r] .
    moreover have "v2 \<subseteq> v'"
      using 2(1,4) s r b by (intro 2(3) [OF s [unfolded b, symmetric] refl refl refl r [unfolded b, symmetric] refl refl]) (simp add: walk_subs.psimps)
    ultimately show ?thesis using le by blast
  qed
qed (simp add: walk_subs.psimps)


lemma unvisited_le: "v \<subseteq> v' \<Longrightarrow> card (graph_addrs g - v') \<le> card (graph_addrs g - v)"
  by (intro card_mono) auto

lemma unvisited_less: "v \<subseteq> v' \<Longrightarrow> a \<in> graph_addrs g \<Longrightarrow> a \<in> v' - v \<Longrightarrow> card (graph_addrs g - v') < card (graph_addrs g - v)"
  by (intro psubset_card_mono) auto

lemma scan_unvisited:
  assumes "scan_grants w chain (getGrants g name) v [] out = (b, v', subs, out')"
  shows "card (graph_addrs g - v') < card (graph_addrs g - v) \<or> card (graph_addrs g - v') \<le> card (graph_addrs g - v) \<and> subs = []"
proof (cases subs)
  case Nil
  with scan_visited [OF assms] unvisited_le show ?thesis by auto
next
  case (Cons a as)
  with scan_visited [OF assms] have "v \<subseteq> v'" "a \<in> v' - v" "a \<in> set (getGrants g name)" by auto
  with unvisited_less [of v v' a g] getGrants_addrs show ?thesis by blast
qed

termination walk_subs
proof (relation "measures [\<lambda>(w, chain, gs, v, out). card (graph_addrs (walk_graph w) - v), \<lambda>(w, chain, gs, v, out). length gs]", goal_cases)
  case (2 w chain a grants v out p b v1 q subs out1)
  then have "scan_grants w (chain @ [a]) (getGrants (walk_graph w) (Subject (walk_heap w ! a))) v [] out = (False, v1, subs, out1)" by simp
  from scan_unvisited [OF this] show ?case by auto
next
  case (3 w chain a grants v out p b v1 q subs out1 r c v2 out2)
  then have s: "scan_grants w (chain @ [a]) (getGrants (walk_graph w) (Subject (walk_heap w ! a))) v [] out = (False, v1, subs, out1)"
    and r: "walk_subs w (chain @ [a]) subs v1 out1 = (False, v2, out2)" and d: "walk_subs_dom (w, chain @ [a], subs, v1, out1)" by auto
  have "v \<subseteq> v2" using scan_visited [OF s] walk_subs_visited [OF d r] by blast
  from unvisited_le [OF this, of "walk_graph w"] show ?case by (auto simp: le_less)
qed simp

text \<open>\<open>walkGrants\<close> from a name, with the chain and the visited grants of the caller.\<close>

definition walkGrants :: "walk \<Rightarrow> string \<Rightarrow> nat list \<Rightarrow> nat set \<Rightarrow> nat list list \<Rightarrow> bool \<times> nat set \<times> nat list list" where
  "walkGrants w start chain visited out =
     (case scan_grants w chain (getGrants (walk_graph w) start) visited [] out of
        (True, v1, subs, out1) \<Rightarrow> (True, v1, out1)
      | (False, v1, subs, out1) \<Rightarrow> walk_subs w chain subs v1 out1)"

definition trust_Verify :: "Grant list \<Rightarrow> grant_tree \<Rightarrow> string \<Rightarrow> string \<Rightarrow> 16 word \<Rightarrow> bool" where
  "trust_Verify heap g keyID target permission =
     fst (walkGrants \<lparr>walk_heap = heap, walk_graph = g, walk_target = target, walk_permission = permission, walk_stop = True\<rparr>
       keyID [] {} [])"

definition trust_GetGrants :: "Grant list \<Rightarrow> grant_tree \<Rightarrow> string \<Rightarrow> string \<Rightarrow> 16 word \<Rightarrow> nat list list" where
  "trust_GetGrants heap g keyID target permission =
     snd (snd (walkGrants \<lparr>walk_heap = heap, walk_graph = g, walk_target = target, walk_permission = permission, walk_stop = False\<rparr>
       keyID [] {} []))"


subsection \<open>Statements\<close>

text \<open>
  A revocation is a grant whose permissions are taken away.  The statement of a grant is its number in the
  list that is collapsed.  Times are numbers; statements of the same time, whose order \<open>sort.Sort\<close> does not
  fix, keep theirs.
\<close>

record Statement =
  Grants :: "Grant list"
  Revocations :: "Grant list"
  Expiration :: int
  IssuedAt :: int

definition IsExpired :: "int \<Rightarrow> Statement \<Rightarrow> bool" where
  "IsExpired now s \<longleftrightarrow> Expiration s < now - 10000000000"

definition revoke :: "Grant \<Rightarrow> nat \<Rightarrow> Grant list \<Rightarrow> Grant list" where
  "revoke r a heap =
     (if isSubName (Subject (heap ! a)) (Subject r)
      then heap[a := (heap ! a)\<lparr>Permission := Permission (heap ! a) AND NOT (Permission r)\<rparr>] else heap)"

definition add_grants :: "nat \<Rightarrow> Grant list \<Rightarrow> Grant list \<times> grant_tree \<Rightarrow> Grant list \<times> grant_tree" where
  "add_grants i = fold (\<lambda>g (heap, roots).
     (heap @ [g\<lparr>grant_statement := Some i\<rparr>], add_grant False (length heap) (split_on (CHR ''/'') (Grantee g)) roots))"

definition apply_revocations :: "Grant list \<Rightarrow> Grant list \<times> grant_tree \<Rightarrow> Grant list \<times> grant_tree" where
  "apply_revocations rs = fold (\<lambda>r (heap, roots).
     (case find_node (split_on (CHR ''/'') (Grantee r)) roots of
        None \<Rightarrow> (heap, roots)
      | Some n \<Rightarrow> (fold (revoke r) (node_grants n) heap, roots))) rs"

fun collapse :: "(nat \<times> Statement) list \<Rightarrow> Grant list \<times> grant_tree \<Rightarrow> Grant list \<times> grant_tree" where
  "collapse [] s = s"
| "collapse ((i, st) # sts) s = collapse sts (apply_revocations (Revocations st) (add_grants i (Grants st) s))"

fun min_expired :: "int \<Rightarrow> Statement list \<Rightarrow> int" where
  "min_expired zero [] = zero"
| "min_expired zero (s # ss) = fold (\<lambda>s m. if Expiration s < m then Expiration s else m) ss (Expiration s)"

text \<open>The grants in the order of the loop over the map of roots, and the time at which the first of them expires.\<close>

definition CollapseStatements :: "int \<Rightarrow> int \<Rightarrow> Statement list \<Rightarrow> bool \<Rightarrow> Grant list \<times> int" where
  "CollapseStatements zero now statements useExpired =
     (let sorted = sort_key (\<lambda>(i, s). IssuedAt s) (filter (\<lambda>(i, s). useExpired \<or> \<not> IsExpired now s) (enumerate 0 statements));
          (heap, roots) = collapse sorted ([], [])
      in (map ((!) heap) (concat (map (\<lambda>(k, n). node_grants n) roots)), min_expired zero (map snd sorted)))"

definition FilterStatements :: "Grant list \<Rightarrow> nat list" where
  "FilterStatements grants = remdups (List.map_filter grant_statement grants)"

end
