(* ===== verification/TrustGraphSpec.thy ===== *)
theory TrustGraphSpec
  imports TrustGraph "HOL-Library.Multiset"
begin

text \<open>
  The trust graph against what it stands for: the tree finds the grants of a name, the walk decides
  whether a chain of grants leads to the target, and collapsing statements takes away exactly what
  was revoked later.
\<close>

subsection \<open>The tree\<close>

definition grants_at :: "string list \<Rightarrow> grant_tree \<Rightarrow> nat list" where
  "grants_at parts nodes = (case find_node parts nodes of None \<Rightarrow> [] | Some n \<Rightarrow> node_grants n)"

lemma grants_at_Cons: "parts \<noteq> [] \<Longrightarrow> grants_at (p # parts) nodes =
    (case map_of nodes p of None \<Rightarrow> [] | Some n \<Rightarrow> grants_at parts (node_children n))"
  by (cases parts) (auto simp: grants_at_def split: option.splits)

lemma grants_at_single: "grants_at [p] nodes = (case map_of nodes p of None \<Rightarrow> [] | Some n \<Rightarrow> node_grants n)"
  by (simp add: grants_at_def)

lemma grants_at_empty [simp]: "grants_at ps [] = []"
  by (cases ps rule: remdups_adj.cases) (simp_all add: grants_at_def)

lemma grants_at_add:
  "ps \<noteq> [] \<Longrightarrow> grants_at ps (add_grant named a parts nodes) =
     grants_at ps nodes @ (if prefix ps parts \<and> \<not> (named \<and> last ps = []) then [a] else [])"
proof (induction parts arbitrary: ps nodes)
  case (Cons part parts)
  obtain p qs where ps: "ps = p # qs" using Cons.prems by (cases ps) auto
  show ?case
  proof (cases "qs = []")
    case True
    then show ?thesis by (auto simp: ps grants_at_single Let_def newGrantNode_def split: option.splits)
  next
    case False
    show ?thesis
    proof (cases "p = part")
      case True
      with False Cons.IH [OF False] show ?thesis
        by (simp add: ps grants_at_Cons Let_def newGrantNode_def split: option.splits)
    next
      case neq: False
      with False show ?thesis by (simp add: ps grants_at_Cons Let_def split: option.splits)
    qed
  qed
qed simp

abbreviation name_parts :: "string \<Rightarrow> string list" where
  "name_parts \<equiv> split_on (CHR ''/'')"

text \<open>A name has the grants of the grantees at it and below it, unless it ends in a slash.\<close>

definition covers :: "string \<Rightarrow> string \<Rightarrow> bool" where
  "covers name grantee \<longleftrightarrow> prefix (name_parts name) (name_parts grantee) \<and> last (name_parts name) \<noteq> []"

lemma memory_graph_grants:
  "ps \<noteq> [] \<Longrightarrow> grants_at ps (fold (\<lambda>a. add_grant True a (name_parts (Grantee (heap ! a)))) grants nodes) =
     grants_at ps nodes @ filter (\<lambda>a. prefix ps (name_parts (Grantee (heap ! a))) \<and> last ps \<noteq> []) grants"
  by (induction grants arbitrary: nodes) (auto simp: grants_at_add)

lemma getGrants_at: "getGrants g name = grants_at (name_parts name) g"
  by (simp add: getGrants_def grants_at_def)

lemma getGrants_memory: "getGrants (NewMemoryGraph heap grants) name = filter (\<lambda>a. covers name (Grantee (heap ! a))) grants"
  using memory_graph_grants [of "name_parts name" heap grants "[]"]
  by (simp add: getGrants_at NewMemoryGraph_def covers_def)

text \<open>A name is at or below a subject.\<close>

definition at_or_below :: "string \<Rightarrow> string \<Rightarrow> bool" where
  "at_or_below name sub \<longleftrightarrow> name = sub \<or> prefix (sub @ ''/'') name"

lemma isSubName_below: "isSubName name sub = at_or_below name sub"
proof (cases "prefix sub name")
  case True
  then obtain rest where "name = sub @ rest" ..
  then show ?thesis by (cases rest) (auto simp: isSubName_def at_or_below_def nth_append)
next
  case False
  then show ?thesis by (auto simp: isSubName_def at_or_below_def prefix_def)
qed

subsection \<open>The walk\<close>

text \<open>A chain of grants with the permission leads from the name to the target.\<close>

inductive authorised :: "Grant list \<Rightarrow> nat list \<Rightarrow> string \<Rightarrow> 16 word \<Rightarrow> string \<Rightarrow> bool"
  for heap grants target permission where
  found: "a \<in> set grants \<Longrightarrow> covers name (Grantee (heap ! a)) \<Longrightarrow> Permission (heap ! a) AND permission = permission \<Longrightarrow>
    at_or_below target (Subject (heap ! a)) \<Longrightarrow> authorised heap grants target permission name"
| via: "a \<in> set grants \<Longrightarrow> covers name (Grantee (heap ! a)) \<Longrightarrow> Permission (heap ! a) AND permission = permission \<Longrightarrow>
    authorised heap grants target permission (Subject (heap ! a)) \<Longrightarrow> authorised heap grants target permission name"

text \<open>The same over the graph of a walk.\<close>

inductive reaches :: "walk \<Rightarrow> string \<Rightarrow> bool" for w where
  found: "a \<in> set (getGrants (walk_graph w) name) \<Longrightarrow> permits w a \<Longrightarrow> found w a \<Longrightarrow> reaches w name"
| via: "a \<in> set (getGrants (walk_graph w) name) \<Longrightarrow> permits w a \<Longrightarrow> reaches w (Subject (walk_heap w ! a)) \<Longrightarrow> reaches w name"

text \<open>What a grant leads to.\<close>

abbreviation onward :: "walk \<Rightarrow> nat \<Rightarrow> nat set" where
  "onward w a \<equiv> set (getGrants (walk_graph w) (Subject (walk_heap w ! a)))"

lemma scan_stops:
  "scan_grants w chain gs v subs out = (True, v', subs', out') \<Longrightarrow> \<exists>a \<in> set gs. permits w a \<and> found w a"
proof (induction w chain gs v subs out rule: scan_grants.induct)
  case (2 w chain a gs v subs out)
  then show ?case by (auto simp: Let_def split: if_splits)
qed simp

lemma scan_goes_on:
  "scan_grants w chain gs v subs out = (False, v', subs', out') \<Longrightarrow> walk_stop w \<Longrightarrow>
     set gs \<subseteq> v' \<and> v \<subseteq> v' \<and> (\<forall>a \<in> v' - v. permits w a \<longrightarrow> \<not> found w a) \<and>
     (\<exists>new. subs' = subs @ new \<and> set new = {a \<in> v' - v. permits w a})"
proof (induction w chain gs v subs out rule: scan_grants.induct)
  case (2 w chain a gs v subs out)
  show ?case
  proof (cases "a \<in> v")
    case True
    from 2(1) [OF True] 2(5,6) True have "set gs \<subseteq> v' \<and> v \<subseteq> v' \<and> (\<forall>a \<in> v' - v. permits w a \<longrightarrow> \<not> found w a) \<and>
        (\<exists>new. subs' = subs @ new \<and> set new = {a \<in> v' - v. permits w a})" by simp
    with True show ?thesis by auto
  next
    case new: False
    show ?thesis
    proof (cases "permits w a")
      case True
      with 2(5,6) new have f: "\<not> found w a" by (auto simp: Let_def)
      from 2(3) [OF new refl True f] 2(5,6) new True f obtain new' where
        "set gs \<subseteq> v'" "insert a v \<subseteq> v'" "\<forall>b \<in> v' - insert a v. permits w b \<longrightarrow> \<not> found w b"
        "subs' = (subs @ [a]) @ new'" "set new' = {b \<in> v' - insert a v. permits w b}" by (auto simp: Let_def)
      with True f new show ?thesis by (intro conjI exI [of _ "a # new'"]) auto
    next
      case False
      with 2(4) [OF new refl False] 2(5,6) new show ?thesis by (fastforce simp: Let_def)
    qed
  qed
qed simp

lemma scan_subs: "scan_grants w chain gs v subs out = (b, v', subs', out') \<Longrightarrow> set subs' \<subseteq> set subs \<union> {a \<in> set gs. permits w a}"
proof (induction w chain gs v subs out rule: scan_grants.induct)
  case (2 w chain a gs v subs out)
  then show ?case by (auto simp: Let_def split: if_splits)
qed simp

lemma walk_subs_sound:
  "walk_subs w chain gs v out = (True, v', out') \<Longrightarrow> \<exists>a \<in> set gs. reaches w (Subject (walk_heap w ! a))"
proof (induction w chain gs v out arbitrary: v' out' rule: walk_subs.induct)
  case (2 w chain a gs v out)
  obtain b1 v1 subs out1 where s: "scan_grants w (chain @ [a]) (getGrants (walk_graph w) (Subject (walk_heap w ! a))) v [] out = (b1, v1, subs, out1)"
    by (metis prod_cases4)
  obtain b2 v2 out2 where r: "walk_subs w (chain @ [a]) subs v1 out1 = (b2, v2, out2)" by (metis prod_cases3)
  consider "b1" | "\<not> b1" "b2" | "\<not> b1" "\<not> b2" by blast
  then show ?case
  proof cases
    case 1
    with s scan_stops [of w "chain @ [a]" _ v "[]" out v1 subs out1] have "reaches w (Subject (walk_heap w ! a))"
      by (auto intro: reaches.found)
    then show ?thesis by simp
  next
    case 2
    with s r have s': "scan_grants w (chain @ [a]) (getGrants (walk_graph w) (Subject (walk_heap w ! a))) v [] out = (False, v1, subs, out1)"
      and r': "walk_subs w (chain @ [a]) subs v1 out1 = (True, v2, out2)" by simp_all
    from "2.IH"(1) [OF s' [symmetric] refl refl refl r'] scan_subs [OF s']
    have "reaches w (Subject (walk_heap w ! a))" by (auto intro: reaches.via)
    then show ?thesis by simp
  next
    case 3
    with s r have s': "scan_grants w (chain @ [a]) (getGrants (walk_graph w) (Subject (walk_heap w ! a))) v [] out = (False, v1, subs, out1)"
      and r': "walk_subs w (chain @ [a]) subs v1 out1 = (False, v2, out2)" by simp_all
    with "2.prems" have "walk_subs w chain gs v2 out2 = (True, v', out')" by simp
    from "2.IH"(2) [OF s' [symmetric] refl refl refl r' [symmetric] refl refl this] show ?thesis by simp
  qed
qed simp

text \<open>After a walk that found nothing, everything that a visited grant leads to was visited too.\<close>

definition explored :: "walk \<Rightarrow> nat set \<Rightarrow> nat set \<Rightarrow> bool" where
  "explored w v v' \<longleftrightarrow> v \<subseteq> v' \<and> (\<forall>a \<in> v' - v. permits w a \<longrightarrow> \<not> found w a \<and> onward w a \<subseteq> v')"

lemma walk_subs_complete:
  "walk_subs w chain gs v out = (False, v', out') \<Longrightarrow> walk_stop w \<Longrightarrow> explored w v v' \<and> (\<forall>a \<in> set gs. onward w a \<subseteq> v')"
proof (induction w chain gs v out arbitrary: v' out' rule: walk_subs.induct)
  case (2 w chain a gs v out)
  obtain b1 v1 subs out1 where s: "scan_grants w (chain @ [a]) (getGrants (walk_graph w) (Subject (walk_heap w ! a))) v [] out = (b1, v1, subs, out1)"
    by (metis prod_cases4)
  obtain b2 v2 out2 where r: "walk_subs w (chain @ [a]) subs v1 out1 = (b2, v2, out2)" by (metis prod_cases3)
  from "2.prems"(1) s r have b: "b1 = False" "b2 = False" by (auto split: bool.splits)
  note s = s [unfolded b] and r = r [unfolded b]
  with "2.prems"(1) have t: "walk_subs w chain gs v2 out2 = (False, v', out')" by simp
  from scan_goes_on [OF s "2.prems"(2)] have 1: "onward w a \<subseteq> v1" "v \<subseteq> v1" "\<forall>a \<in> v1 - v. permits w a \<longrightarrow> \<not> found w a"
    "set subs = {a \<in> v1 - v. permits w a}" by auto
  note 2 = "2.IH"(1) [OF s [symmetric] refl refl refl r "2.prems"(2)]
  note 3 = "2.IH"(2) [OF s [symmetric] refl refl refl r [symmetric] refl refl t "2.prems"(2)]
  have "v1 \<subseteq> v2" "v2 \<subseteq> v'" using 2 3 by (auto simp: explored_def)
  have "\<not> found w b \<and> onward w b \<subseteq> v'" if b: "b \<in> v' - v" "permits w b" for b
  proof -
    consider "b \<in> v1 - v" | "b \<in> v2 - v1" | "b \<in> v' - v2" using b by blast
    then show ?thesis
    proof cases
      case 1
      then have "b \<in> set subs" using b \<open>set subs = _\<close> by simp
      with 2 \<open>v2 \<subseteq> v'\<close> have "onward w b \<subseteq> v'" by blast
      with 1 b \<open>\<forall>a \<in> v1 - v. _\<close> show ?thesis by blast
    next
      case 2
      with \<open>explored w v1 v2 \<and> _\<close> b \<open>v2 \<subseteq> v'\<close> show ?thesis by (auto simp: explored_def)
    next
      case 3
      with \<open>explored w v2 v' \<and> _\<close> b show ?thesis by (auto simp: explored_def)
    qed
  qed
  moreover have "v \<subseteq> v'" "\<forall>b \<in> set (a # gs). onward w b \<subseteq> v'"
    using 1 3 \<open>v1 \<subseteq> v2\<close> \<open>v2 \<subseteq> v'\<close> by auto
  ultimately show ?case by (simp add: explored_def)
qed (simp add: explored_def)

lemma explored_all:
  assumes "explored w {} v" "reaches w name"
  shows "\<not> set (getGrants (walk_graph w) name) \<subseteq> v"
  using assms(2)
proof induction
  case (found a name)
  with assms(1) show ?case by (auto simp: explored_def)
next
  case (via a name)
  with assms(1) show ?case by (auto simp: explored_def)
qed

lemma walkGrants_reaches:
  assumes "walk_stop w"
  shows "fst (walkGrants w name [] {} []) \<longleftrightarrow> reaches w name"
proof -
  obtain b1 v1 subs out1 where s: "scan_grants w [] (getGrants (walk_graph w) name) {} [] [] = (b1, v1, subs, out1)"
    by (metis prod_cases4)
  obtain b2 v2 out2 where r: "walk_subs w [] subs v1 out1 = (b2, v2, out2)" by (metis prod_cases3)
  show ?thesis
  proof (cases b1)
    case True
    with s scan_stops [of w "[]" _ "{}" "[]" "[]" v1 subs out1] have "reaches w name" by (auto intro: reaches.found)
    with s True show ?thesis by (simp add: walkGrants_def)
  next
    case False
    with s have s: "scan_grants w [] (getGrants (walk_graph w) name) {} [] [] = (False, v1, subs, out1)" by simp
    show ?thesis
    proof (cases b2)
      case True
      with walk_subs_sound r scan_subs [OF s] have "reaches w name" by (fastforce intro: reaches.via)
      with s r True show ?thesis by (simp add: walkGrants_def)
    next
      case False
      with r have r: "walk_subs w [] subs v1 out1 = (False, v2, out2)" by simp
      from scan_goes_on [OF s assms] have 1: "set (getGrants (walk_graph w) name) \<subseteq> v1" "\<forall>a \<in> v1. permits w a \<longrightarrow> \<not> found w a"
        "set subs = {a \<in> v1. permits w a}" by auto
      from walk_subs_complete [OF r assms] have e: "explored w v1 v2" "\<forall>a \<in> set subs. onward w a \<subseteq> v2" by simp_all
      have "\<not> found w a \<and> onward w a \<subseteq> v2" if "a \<in> v2" "permits w a" for a
        using that e 1(2,3) by (cases "a \<in> v1") (simp_all add: explored_def)
      then have "explored w {} v2" "v1 \<subseteq> v2" using e(1) by (simp_all add: explored_def)
      with explored_all 1(1) have "\<not> reaches w name" by blast
      with s r show ?thesis by (simp add: walkGrants_def)
    qed
  qed
qed

lemma reaches_authorised:
  "reaches \<lparr>walk_heap = heap, walk_graph = NewMemoryGraph heap grants, walk_target = target, walk_permission = permission,
      walk_stop = stop\<rparr> name \<longleftrightarrow> authorised heap grants target permission name" (is "reaches ?w name \<longleftrightarrow> _")
proof
  show "reaches ?w name \<Longrightarrow> authorised heap grants target permission name"
  proof (induction rule: reaches.induct)
    case (found a name)
    then show ?case by - (rule authorised.found [of a], auto simp: getGrants_memory permits_def found_def isSubName_below)
  next
    case (via a name)
    then show ?case by - (rule authorised.via [of a], auto simp: getGrants_memory permits_def)
  qed
  show "authorised heap grants target permission name \<Longrightarrow> reaches ?w name"
  proof (induction rule: authorised.induct)
    case (found a name)
    then show ?case by - (rule reaches.found [of a], auto simp: getGrants_memory permits_def found_def isSubName_below)
  next
    case (via a name)
    then show ?case by - (rule reaches.via [of a], auto simp: getGrants_memory permits_def)
  qed
qed

text \<open>
  Property C38.  Verification is reachability in the grants.  Whatever the grants, with cycles and repetitions,
  \<open>Verify\<close> returns and says yes exactly when a chain of grants, each with all of the permission, leads from the key
  to a subject that the target is at or below.  The permission bits have no meaning of their own here: a grant of
  any bit counts on every name below its subject, although the comment on the bits says that \<open>0x01\<close> is for the
  name itself without its sub nodes and \<open>0x04\<close> delegates it to them (see \<open>two_ways_verified\<close>).
\<close>

theorem Verify_exact:
  "trust_Verify heap (NewMemoryGraph heap grants) keyID target permission \<longleftrightarrow> authorised heap grants target permission keyID"
  by (simp add: trust_Verify_def walkGrants_reaches reaches_authorised)

subsection \<open>Collapsing statements\<close>

text \<open>What revocations leave of a grant.\<close>

definition revokes :: "Grant \<Rightarrow> Grant \<Rightarrow> bool" where
  "revokes r g \<longleftrightarrow> prefix (name_parts (Grantee r)) (name_parts (Grantee g)) \<and> at_or_below (Subject g) (Subject r)"

definition cut_grant :: "Grant \<Rightarrow> Grant \<Rightarrow> Grant" where
  "cut_grant r g = (if revokes r g then g\<lparr>Permission := Permission g AND NOT (Permission r)\<rparr> else g)"

fun collapsed :: "(nat \<times> Statement) list \<Rightarrow> Grant list" where
  "collapsed [] = []"
| "collapsed ((i, st) # sts) =
     map (\<lambda>g. fold cut_grant (concat (map (Revocations \<circ> snd) ((i, st) # sts))) (g\<lparr>grant_statement := Some i\<rparr>)) (Grants st) @ collapsed sts"

lemma cut_grant_simps [simp]: "Grantee (cut_grant r g) = Grantee g" "Subject (cut_grant r g) = Subject g"
  by (simp_all add: cut_grant_def)

lemma fold_cut_Grantee [simp]: "Grantee (fold cut_grant rs g) = Grantee g"
  by (induction rs arbitrary: g) simp_all

text \<open>The tree holds the addresses of the heap by the paths of their grantees.\<close>

definition indexed :: "Grant list \<times> grant_tree \<Rightarrow> bool" where
  "indexed s \<longleftrightarrow> (\<forall>ps. ps \<noteq> [] \<longrightarrow> grants_at ps (snd s) =
     filter (\<lambda>a. prefix ps (name_parts (Grantee (fst s ! a)))) [0..<length (fst s)])"

lemma indexed_add:
  assumes "indexed (heap, roots)"
  shows "indexed (heap @ [g], add_grant False (length heap) (name_parts (Grantee g)) roots)"
proof -
  have "filter (\<lambda>a. prefix ps (name_parts (Grantee ((heap @ [g]) ! a)))) [0..<length heap] =
      filter (\<lambda>a. prefix ps (name_parts (Grantee (heap ! a)))) [0..<length heap]" for ps
    by (rule filter_cong) (simp_all add: nth_append)
  with assms show ?thesis by (simp add: indexed_def grants_at_add)
qed

lemma add_grants_indexed:
  "indexed s \<Longrightarrow> indexed (add_grants i gs s) \<and> fst (add_grants i gs s) = fst s @ map (\<lambda>g. g\<lparr>grant_statement := Some i\<rparr>) gs"
proof (induction gs arbitrary: s)
  case (Cons g gs)
  obtain heap roots where s: "s = (heap, roots)" by (cases s)
  from Cons.prems have "indexed (heap @ [g\<lparr>grant_statement := Some i\<rparr>], add_grant False (length heap) (name_parts (Grantee g)) roots)"
    unfolding s by (rule indexed_add [of heap roots "g\<lparr>grant_statement := Some i\<rparr>", simplified])
  from Cons.IH [OF this] show ?case by (simp add: s add_grants_def)
qed (simp add: add_grants_def)

lemma revoke_nth:
  "b < length heap \<Longrightarrow> revoke r a heap ! b =
     (if a = b \<and> isSubName (Subject (heap ! b)) (Subject r)
      then (heap ! b)\<lparr>Permission := Permission (heap ! b) AND NOT (Permission r)\<rparr> else heap ! b)"
  by (cases "a = b") (simp_all add: revoke_def)

lemma revoke_length [simp]: "length (revoke r a heap) = length heap"
  by (simp add: revoke_def)

lemma fold_revoke:
  assumes "distinct as" "b < length heap"
  shows "length (fold (revoke r) as heap) = length heap \<and> fold (revoke r) as heap ! b =
     (if b \<in> set as \<and> isSubName (Subject (heap ! b)) (Subject r)
      then (heap ! b)\<lparr>Permission := Permission (heap ! b) AND NOT (Permission r)\<rparr> else heap ! b)"
  using assms by (induction as arbitrary: heap) (auto simp: revoke_nth)

lemma fold_revoke_length [simp]: "length (fold (revoke r) as heap) = length heap"
  by (induction as arbitrary: heap) simp_all

lemma apply_revocations_cut:
  "indexed (heap, roots) \<Longrightarrow> apply_revocations rs (heap, roots) = (map (\<lambda>g. fold cut_grant rs g) heap, roots)"
proof (induction rs arbitrary: heap)
  case (Cons r rs)
  let ?as = "grants_at (name_parts (Grantee r)) roots"
  have as: "?as = filter (\<lambda>a. prefix (name_parts (Grantee r)) (name_parts (Grantee (heap ! a)))) [0..<length heap]"
    using Cons.prems by (simp add: indexed_def)
  have cut_grant: "fold (revoke r) ?as heap = map (cut_grant r) heap"
  proof (rule nth_equalityI)
    fix b assume "b < length (fold (revoke r) ?as heap)"
    then have "b < length heap" by simp
    with fold_revoke [of ?as b heap r] show "fold (revoke r) ?as heap ! b = map (cut_grant r) heap ! b"
      by (auto simp: as cut_grant_def revokes_def isSubName_below)
  qed simp
  have step: "apply_revocations (r # rs) (heap, roots) = apply_revocations rs (map (cut_grant r) heap, roots)"
    using cut_grant by (cases "find_node (name_parts (Grantee r)) roots") (simp_all add: apply_revocations_def grants_at_def)
  have "filter (\<lambda>a. prefix ps (name_parts (Grantee (map (cut_grant r) heap ! a)))) [0..<length heap] =
      filter (\<lambda>a. prefix ps (name_parts (Grantee (heap ! a)))) [0..<length heap]" for ps
    by (rule filter_cong) simp_all
  with Cons.prems have "indexed (map (cut_grant r) heap, roots)" by (simp add: indexed_def)
  from Cons.IH [OF this] show ?case by (simp add: step)
qed (simp add: apply_revocations_def)

lemma indexed_cut: "indexed (heap, roots) \<Longrightarrow> indexed (map (fold cut_grant rs) heap, roots)"
proof -
  assume "indexed (heap, roots)"
  moreover have "filter (\<lambda>a. prefix ps (name_parts (Grantee (map (fold cut_grant rs) heap ! a)))) [0..<length heap] =
      filter (\<lambda>a. prefix ps (name_parts (Grantee (heap ! a)))) [0..<length heap]" for ps
    by (rule filter_cong) simp_all
  ultimately show ?thesis by (simp add: indexed_def)
qed

lemma collapse_heap:
  "indexed s \<Longrightarrow> indexed (collapse sts s) \<and>
     fst (collapse sts s) = map (fold cut_grant (concat (map (Revocations \<circ> snd) sts))) (fst s) @ collapsed sts"
proof (induction sts s rule: collapse.induct)
  case (2 i st sts s)
  obtain heap roots where a: "add_grants i (Grants st) s = (heap, roots)" by (meson surj_pair)
  note ai = add_grants_indexed [OF 2(2), of i "Grants st", unfolded a fst_conv]
  note h = ai [THEN conjunct1] ai [THEN conjunct2]
  have r: "apply_revocations (Revocations st) (heap, roots) = (map (fold cut_grant (Revocations st)) heap, roots)"
    by (rule apply_revocations_cut [OF h(1)])
  have "indexed (apply_revocations (Revocations st) (add_grants i (Grants st) s))"
    unfolding a r by (rule indexed_cut [OF h(1)])
  from 2(1) [OF this] have "indexed (collapse ((i, st) # sts) s) \<and> fst (collapse ((i, st) # sts) s) =
      map (fold cut_grant (concat (map (Revocations \<circ> snd) sts))) (map (fold cut_grant (Revocations st)) heap) @ collapsed sts"
    by (simp add: a r comp_def)
  then show ?case by (simp add: h(2) comp_def)
qed (simp add: comp_def map_idI)


text \<open>The roots hold every address once.\<close>

definition root_grants :: "grant_tree \<Rightarrow> nat list" where
  "root_grants roots = concat (map (\<lambda>(k, n). node_grants n) roots)"

lemma root_grants_put:
  "obj_sorted m \<Longrightarrow> mset (root_grants (obj_put k v m)) + (case map_of m k of None \<Rightarrow> {#} | Some n \<Rightarrow> mset (node_grants n)) =
     mset (root_grants m) + mset (node_grants v)"
proof (induction k v m rule: obj_put.induct)
  case (2 k v k' v' m)
  have "map_of m k = None" if "k < k'"
  proof -
    have "k \<notin> fst ` set m" using 2(2) that by (auto simp: obj_sorted_def)
    then show ?thesis by (simp add: map_of_eq_None_iff)
  qed
  moreover have "obj_sorted m" using 2(2) by (simp add: obj_sorted_def)
  ultimately show ?case using 2(1) by (auto simp: root_grants_def ac_simps split: option.splits)
qed (simp add: root_grants_def)

definition rooted :: "Grant list \<times> grant_tree \<Rightarrow> bool" where
  "rooted s \<longleftrightarrow> obj_sorted (snd s) \<and> mset (root_grants (snd s)) = mset [0..<length (fst s)]"

lemma root_grants_add:
  assumes "obj_sorted roots" "parts \<noteq> []"
  shows "obj_sorted (add_grant False a parts roots) \<and> mset (root_grants (add_grant False a parts roots)) = add_mset a (mset (root_grants roots))"
proof -
  obtain p ps where p: "parts = p # ps" using assms(2) by (cases parts) auto
  define n where "n = (case map_of roots p of None \<Rightarrow> newGrantNode | Some n \<Rightarrow> n)"
  let ?v = "GrantNode (node_grants n @ [a]) (add_grant False a ps (node_children n))"
  have e: "add_grant False a parts roots = obj_put p ?v roots" by (simp add: p n_def Let_def)
  have "mset (root_grants (obj_put p ?v roots)) = add_mset a (mset (root_grants roots))"
    using root_grants_put [OF assms(1), of p ?v] by (auto simp: n_def newGrantNode_def split: option.splits)
  with obj_put_sorted [OF assms(1)] show ?thesis by (simp add: e)
qed

lemma add_grants_rooted: "rooted s \<Longrightarrow> rooted (add_grants i gs s)"
proof (induction gs arbitrary: s)
  case (Cons g gs)
  obtain heap roots where s: "s = (heap, roots)" by (cases s)
  with Cons.prems root_grants_add [of roots "name_parts (Grantee g)" "length heap"]
  have "rooted (heap @ [g\<lparr>grant_statement := Some i\<rparr>], add_grant False (length heap) (name_parts (Grantee g)) roots)"
    by (simp add: rooted_def)
  from Cons.IH [OF this] show ?case by (simp add: s add_grants_def)
qed (simp add: add_grants_def)

lemma apply_revocations_rooted: "rooted s \<Longrightarrow> rooted (apply_revocations rs s)"
proof (induction rs arbitrary: s)
  case (Cons r rs)
  obtain heap roots where s: "s = (heap, roots)" by (cases s)
  show ?case
  proof (cases "find_node (name_parts (Grantee r)) roots")
    case None
    with Cons s show ?thesis by (simp add: apply_revocations_def)
  next
    case (Some n)
    have "rooted (fold (revoke r) (node_grants n) heap, roots)" using Cons.prems by (simp add: s rooted_def)
    from Cons.IH [OF this] show ?thesis by (simp add: s Some apply_revocations_def)
  qed
qed (simp add: apply_revocations_def)

lemma collapse_rooted: "rooted s \<Longrightarrow> rooted (collapse sts s)"
  by (induction sts s rule: collapse.induct) (simp_all add: add_grants_rooted apply_revocations_rooted)

definition valid_statements :: "int \<Rightarrow> Statement list \<Rightarrow> bool \<Rightarrow> (nat \<times> Statement) list" where
  "valid_statements now statements useExpired =
     sort_key (\<lambda>(i, s). IssuedAt s) (filter (\<lambda>(i, s). useExpired \<or> \<not> IsExpired now s) (enumerate 0 statements))"

lemma valid_statements_issued:
  "mset (valid_statements now statements useExpired) =
     filter_mset (\<lambda>(i, s). useExpired \<or> \<not> IsExpired now s) (mset (enumerate 0 statements))"
  "sorted (map (\<lambda>(i, s). IssuedAt s) (valid_statements now statements useExpired))"
  by (simp_all add: valid_statements_def)

lemma min_expired_Min:
  "min_expired zero ss = (if ss = [] then zero else Min (Expiration ` set ss))"
proof (cases ss)
  case (Cons s rest)
  have "fold (\<lambda>s m. if Expiration s < m then Expiration s else m) ts m = Min (insert m (Expiration ` set ts))" for ts m
  proof (induction ts arbitrary: m)
    case (Cons t ts)
    have "(if Expiration t < m then Expiration t else m) = min m (Expiration t)" by (simp add: min_def)
    with Cons.IH [of "min m (Expiration t)"]
    have "fold (\<lambda>s m. if Expiration s < m then Expiration s else m) (t # ts) m =
        Min (insert (min m (Expiration t)) (Expiration ` set ts))" by simp
    also have "\<dots> = Min (insert m (insert (Expiration t) (Expiration ` set ts)))"
      by (cases "ts = []") (simp_all add: Min_insert min.assoc)
    finally show ?case by simp
  qed simp
  then show ?thesis by (simp add: Cons)
qed simp

text \<open>
  Property C39.  Collapsing statements applies the revocations.  With the statements that are to be used put
  in the order in which they were issued, the result has every one of their grants once, tagged with its
  statement, less the permissions that the revocations of its own and of every later statement take from
  grantees at or below theirs on subjects at or below theirs (an earlier revocation takes nothing); and the time
  returned is the earliest of their expirations, or the zero time when there is none.  The grants are a
  multiset: the code collects them from a map, in no fixed order.
\<close>

theorem collapse_exact:
  "\<exists>sts. mset sts = filter_mset (\<lambda>(i, s). useExpired \<or> \<not> IsExpired now s) (mset (enumerate 0 statements)) \<and>
     sorted (map (\<lambda>(i, s). IssuedAt s) sts) \<and>
     mset (fst (CollapseStatements zero now statements useExpired)) = mset (collapsed sts) \<and>
     snd (CollapseStatements zero now statements useExpired) =
       (if sts = [] then zero else Min (Expiration ` snd ` set sts))"
proof -
  let ?sts = "valid_statements now statements useExpired"
  obtain heap roots where s: "collapse ?sts ([], []) = (heap, roots)" by (meson surj_pair)
  have e: "CollapseStatements zero now statements useExpired = (map ((!) heap) (root_grants roots), min_expired zero (map snd ?sts))"
    using s unfolding valid_statements_def by (simp add: CollapseStatements_def root_grants_def)
  have "indexed ([], [])" by (simp add: indexed_def)
  from collapse_heap [OF this, of ?sts] s have h: "heap = collapsed ?sts" by simp
  have "rooted ([], [])" by (simp add: rooted_def root_grants_def obj_sorted_def)
  from collapse_rooted [OF this, of ?sts] s have "mset (root_grants roots) = mset [0..<length heap]" by (simp add: rooted_def)
  then have "mset (map ((!) heap) (root_grants roots)) = mset (map ((!) heap) [0..<length heap])" by (simp only: mset_map)
  also have "\<dots> = mset heap" by (simp add: map_nth)
  finally have "mset (fst (CollapseStatements zero now statements useExpired)) = mset (collapsed ?sts)" by (simp add: e h)
  moreover have "snd (CollapseStatements zero now statements useExpired) = (if ?sts = [] then zero else Min (Expiration ` snd ` set ?sts))"
    by (simp add: e min_expired_Min)
  ultimately show ?thesis using valid_statements_issued by blast
qed

text \<open>
  \<open>GetGrants\<close> promises all chains that allow a permission, but a grant is followed once: of two chains to the same
  grant only the first is returned.
\<close>

definition two_ways :: "Grant list" where
  "two_ways = map (\<lambda>(subject, grantee). \<lparr>Subject = subject, Permission = 1, Grantee = grantee, grant_statement = None\<rparr>)
     [(''/a'', ''key''), (''/b'', ''key''), (''/c'', ''/a''), (''/c'', ''/b''), (''/d'', ''/c'')]"

lemma GetGrants_misses_chains:
  "trust_GetGrants two_ways (NewMemoryGraph two_ways [0, 1, 2, 3, 4]) ''key'' ''/d'' 1 = [[0, 2, 4]]"
  by code_simp

text \<open>
  The grants at work.  The first line is not what the comment on the permissions says: \<open>0x01\<close> on \<open>/d\<close> is
  documented as reading the node without its sub nodes, and the walk grants it on \<open>/d/e\<close>.
\<close>

theorem two_ways_verified:
  "trust_Verify two_ways (NewMemoryGraph two_ways [0, 1, 2, 3, 4]) ''key'' ''/d/e'' 1"
  "\<not> trust_Verify two_ways (NewMemoryGraph two_ways [0, 1, 2, 3, 4]) ''/b'' ''/a'' 1"
  by code_simp+

text \<open>Two statements: the second revokes a permission that the first grants.\<close>

definition demo_statements :: "Statement list" where
  "demo_statements =
     [\<lparr>Grants = [\<lparr>Subject = ''/d'', Permission = 3, Grantee = ''key'', grant_statement = None\<rparr>], Revocations = [], Expiration = 100, IssuedAt = 1\<rparr>,
      \<lparr>Grants = [], Revocations = [\<lparr>Subject = ''/d'', Permission = 1, Grantee = ''key'', grant_statement = None\<rparr>], Expiration = 50, IssuedAt = 2\<rparr>]"

theorem collapse_exact_witness:
  "snd (CollapseStatements 0 20 demo_statements False) = 50"
proof -
  from collapse_exact [of False 20 demo_statements 0] obtain sts where
    m: "mset sts = filter_mset (\<lambda>(i, s). False \<or> \<not> IsExpired 20 s) (mset (enumerate 0 demo_statements))" and
    e: "snd (CollapseStatements 0 20 demo_statements False) = (if sts = [] then 0 else Min (Expiration ` snd ` set sts))" by blast
  have "mset sts = mset (enumerate 0 demo_statements)" unfolding m by (simp add: demo_statements_def IsExpired_def)
  then have s: "set sts = set (enumerate 0 demo_statements)" and "length sts = length (enumerate 0 demo_statements)"
    by (rule mset_eq_setD, rule mset_eq_length)
  then have n: "sts \<noteq> []" by (auto simp only: demo_statements_def length_enumerate list.size)
  have "Expiration ` snd ` set (enumerate 0 demo_statements) = {100, 50}" by (simp add: demo_statements_def)
  then have "Min (Expiration ` snd ` set sts) = 50" unfolding s by simp
  with n show ?thesis unfolding e by simp
qed

end
