(* ===== verification/BsonTypes.thy ===== *)
theory BsonTypes
  imports Json "HOL-Library.Word"
begin

text \<open>
  The Go types and values that \<open>labix.org/v2/mgo/bson\<close> meets through reflection, and how it reads the
  fields of a struct type (\<open>getStructInfo\<close> in \<open>bson.go\<close>).  Types whose methods take part in the encoding
  (\<open>Getter\<close>, \<open>Setter\<close>) are the client's code and have no types here, nor have \<open>url.URL\<close>, arrays of
  a fixed length and 32-bit floats.  Panic texts that quote a tag leave out the quotes; \<open>time.Time\<close> and \<open>Raw\<close>
  are not inlined.
\<close>

subsection \<open>Types\<close>

datatype int_kind = KInt | KInt8 | KInt16 | KInt32 | KInt64
datatype uint_kind = KUint | KUint8 | KUint16 | KUint32 | KUint64 | KUintptr

text \<open>A struct type has its name and fields; a field its name, its package path (private fields only), its
  tag, the part of the tag under \<open>bson\<close>, and its type.\<close>

datatype go_type =
    TIface | TString | TObjectId | TInt int_kind | TUint uint_kind | TFloat64 | TBool | TTime | TRaw | TD
  | TSlice go_type | TMap go_type go_type | TPtr go_type | TStruct string "struct_field list"
and struct_field = StructField string string string string go_type

fun type_name :: "go_type \<Rightarrow> string" where
  "type_name TIface = ''interface {}''"
| "type_name TString = ''string''"
| "type_name TObjectId = ''bson.ObjectId''"
| "type_name (TInt KInt) = ''int''"
| "type_name (TInt KInt8) = ''int8''"
| "type_name (TInt KInt16) = ''int16''"
| "type_name (TInt KInt32) = ''int32''"
| "type_name (TInt KInt64) = ''int64''"
| "type_name (TUint KUint) = ''uint''"
| "type_name (TUint KUint8) = ''uint8''"
| "type_name (TUint KUint16) = ''uint16''"
| "type_name (TUint KUint32) = ''uint32''"
| "type_name (TUint KUint64) = ''uint64''"
| "type_name (TUint KUintptr) = ''uintptr''"
| "type_name TFloat64 = ''float64''"
| "type_name TBool = ''bool''"
| "type_name TTime = ''time.Time''"
| "type_name TRaw = ''bson.Raw''"
| "type_name TD = ''bson.D''"
| "type_name (TSlice t) = ''[]'' @ type_name t"
| "type_name (TMap k t) = ''map['' @ type_name k @ '']'' @ type_name t"
| "type_name (TPtr t) = ''*'' @ type_name t"
| "type_name (TStruct n fs) = n"

text \<open>\<open>reflect.TypeOf(M{})\<close>; the maps with string keys and values of any type are one type.\<close>

definition typeM :: go_type where
  "typeM = TMap TString TIface"

definition typeDocElem :: go_type where
  "typeDocElem = TStruct ''bson.DocElem''
     [StructField ''Name'' '''' '''' '''' TString, StructField ''Value'' '''' '''' '''' TIface]"

definition string_kind :: "go_type \<Rightarrow> bool" where
  "string_kind t \<longleftrightarrow> t = TString \<or> t = TObjectId"

subsection \<open>Panics\<close>

text \<open>
  A panic with a string or an error, which \<open>handleErr\<close> turns into an error; one that it passes on
  (run-time errors and \<open>externalPanic\<close>); and, for the decoder, the end of the fuel.
\<close>

datatype bson_panic = Failed string | Passed go_panic | OutOfFuel

lemma run_bind_cong [fundef_cong]:
  "m = m' \<Longrightarrow> (\<And>x. m' = Inr x \<Longrightarrow> f x = g x) \<Longrightarrow> run_bind m f = run_bind m' g"
  by (cases m') simp_all

subsection \<open>Struct types\<close>

record field_info =
  Key :: string
  Num :: nat
  OmitEmpty :: bool
  MinSize :: bool
  Inline :: "nat list"

record struct_info =
  FieldsList :: "field_info list"
  InlineMap :: "nat option"

text \<open>\<open>FieldsMap\<close> has the fields of \<open>FieldsList\<close> under their keys.\<close>

definition FieldsMap :: "struct_info \<Rightarrow> string \<Rightarrow> field_info option" where
  "FieldsMap s = map_of (map (\<lambda>i. (Key i, i)) (FieldsList s))"

text \<open>The tag: the part under \<open>bson\<close>, or all of it when it is not in the conventional form.\<close>

definition field_tag :: "string \<Rightarrow> string \<Rightarrow> string" where
  "field_tag raw tag = (if tag = [] \<and> CHR '':'' \<notin> set raw then raw else tag)"

text \<open>The key, whether empty values are left out, the smallest size is used, and the field is inlined.\<close>

fun parse_flags :: "string list \<Rightarrow> bool \<times> bool \<times> bool \<Rightarrow> bson_panic + bool \<times> bool \<times> bool" where
  "parse_flags [] acc = Inr acc"
| "parse_flags (flag # flags) (omit, mins, inl) =
     (if flag = ''omitempty'' then parse_flags flags (True, mins, inl)
      else if flag = ''minsize'' then parse_flags flags (omit, True, inl)
      else if flag = ''inline'' then parse_flags flags (omit, mins, True)
      else Inl (Passed (ExplicitPanic (''Unsupported flag '' @ flag))))"

definition parse_tag :: "string \<Rightarrow> bson_panic + string \<times> bool \<times> bool \<times> bool" where
  "parse_tag tag =
     (if CHR ''/'' \<in> set tag then Inl (Passed (ExplicitPanic (''Replace tag '' @ tag)))
      else (case split_on (CHR '','') tag of
          [] \<Rightarrow> Inr (tag, False, False, False)
        | key # flags \<Rightarrow> run_bind (parse_flags flags (False, False, False)) (\<lambda>acc. Inr (key, acc))))"

text \<open>Adding a field, and the fields of an inlined struct with their path from the outer one.\<close>

definition add_field :: "string \<Rightarrow> field_info \<Rightarrow> struct_info \<Rightarrow> bson_panic + struct_info" where
  "add_field st info s =
     (if Key info \<in> Key ` set (FieldsList s) then Inl (Failed (''Duplicated key '' @ [CHR 0x27] @ Key info @ [CHR 0x27] @ '' in struct '' @ st))
      else Inr (s\<lparr>FieldsList := FieldsList s @ [info]\<rparr>))"

fun add_inlined :: "string \<Rightarrow> nat \<Rightarrow> field_info list \<Rightarrow> struct_info \<Rightarrow> bson_panic + struct_info" where
  "add_inlined st i [] s = Inr s"
| "add_inlined st i (info # infos) s =
     run_bind (add_field st (info\<lparr>Inline := (if Inline info = [] then [i, Num info] else i # Inline info)\<rparr>) s)
       (add_inlined st i infos)"

fun struct_fields :: "string \<Rightarrow> nat \<Rightarrow> struct_field list \<Rightarrow> struct_info \<Rightarrow> bson_panic + struct_info" where
  "struct_fields st i [] s = Inr s"
| "struct_fields st i (StructField name pkg raw tag t # fds) s =
     (if pkg \<noteq> [] \<or> field_tag raw tag = ''-'' then struct_fields st (Suc i) fds s
      else run_bind (parse_tag (field_tag raw tag)) (\<lambda>(key, omit, mins, inl).
        if inl then
          (case t of
             TMap k v \<Rightarrow>
               if InlineMap s \<noteq> None then Inl (Failed (''Multiple ,inline maps in struct '' @ st))
               else if k \<noteq> TString then Inl (Failed (''Option ,inline needs a map with string keys in struct '' @ st))
               else struct_fields st (Suc i) fds (s\<lparr>InlineMap := Some i\<rparr>)
           | TStruct n fs \<Rightarrow>
               run_bind (struct_fields n 0 fs \<lparr>FieldsList = [], InlineMap = None\<rparr>) (\<lambda>sub.
               run_bind (add_inlined st i (FieldsList sub) s) (struct_fields st (Suc i) fds))
           | _ \<Rightarrow> Inl (Failed ''Option ,inline needs a struct value or map field''))
        else run_bind (add_field st \<lparr>Key = (if key \<noteq> [] then key else map to_lower_char name), Num = i, OmitEmpty = omit, MinSize = mins, Inline = []\<rparr> s)
          (struct_fields st (Suc i) fds)))"

definition getStructInfo :: "string \<Rightarrow> struct_field list \<Rightarrow> bson_panic + struct_info" where
  "getStructInfo st fds = struct_fields st 0 fds \<lparr>FieldsList = [], InlineMap = None\<rparr>"

end
