(* ===== verification/Bson.thy ===== *)
theory Bson
  imports BsonTypes Uuid "HOL-Library.Signed_Division"
begin

unbundle bit_operations_syntax

text \<open>
  BSON encoding and decoding (\<open>labix.org/v2/mgo/bson\<close>: \<open>encode.go\<close>, \<open>decode.go\<close>, \<open>Marshal\<close> and \<open>Unmarshal\<close> of \<open>bson.go\<close>).
  A value carries its Go type as far as the code looks at it.  Values in interfaces are the values themselves,
  a nil pointer or interface is \<open>BNil\<close>; nil and empty slices and maps are not told apart.  A map is the
  list of its entries in the order of the iteration, without repeated keys; a map that was decoded is sorted.
  Floats are their bits, integers 64-bit words, a time its Unix seconds and its nanoseconds.
\<close>

datatype bson_value =
    BFloat "64 word"
  | BString bytes
  | BSymbol bytes
  | BObjectId bytes
  | BInt int_kind "64 word"
  | BUint uint_kind "64 word"
  | BMongoTimestamp "64 word"
  | BMinKey
  | BMaxKey
  | BBool bool
  | BNil
  | BUndefined
  | BTime "64 word" "32 word"
  | BBytes bytes
  | BBinary char bytes
  | BRegEx bytes bytes
  | BJavaScript bytes "bson_value option"
  | BRaw char bytes
  | BPtr bson_value
  | BArray "bson_value list"
  | BDoc "(string \<times> bson_value) list"
  | BMap "(string \<times> bson_value) list"
  | BStruct string "struct_field list" "bson_value list"

fun value_type :: "bson_value \<Rightarrow> string" where
  "value_type (BFloat w) = ''float64''"
| "value_type (BString s) = ''string''"
| "value_type (BSymbol s) = ''bson.Symbol''"
| "value_type (BObjectId s) = ''bson.ObjectId''"
| "value_type (BInt k i) = type_name (TInt k)"
| "value_type (BUint k i) = type_name (TUint k)"
| "value_type (BMongoTimestamp i) = ''bson.MongoTimestamp''"
| "value_type (BBool b) = ''bool''"
| "value_type v = ''bson.orderKey''"

subsection \<open>Zero values\<close>

text \<open>\<open>isZero\<close> of a value of a static type: an interface is looked at as such, not at what it holds.\<close>

function isZero :: "go_type \<Rightarrow> bson_value \<Rightarrow> bool" where
  "isZero t v =
     (if t = TIface then v = BNil else
      case v of
        BNil \<Rightarrow> True
      | BPtr x \<Rightarrow> False
      | BString s \<Rightarrow> s = [] | BSymbol s \<Rightarrow> s = [] | BObjectId s \<Rightarrow> s = []
      | BArray vs \<Rightarrow> vs = [] | BDoc kvs \<Rightarrow> kvs = [] | BMap kvs \<Rightarrow> kvs = [] | BBytes b \<Rightarrow> b = []
      | BInt k i \<Rightarrow> i = 0 | BUint k i \<Rightarrow> i = 0 | BMongoTimestamp i \<Rightarrow> i = 0
      | BMinKey \<Rightarrow> False | BMaxKey \<Rightarrow> False
      | BFloat w \<Rightarrow> w = 0 \<or> w = 0x8000000000000000
      | BBool b \<Rightarrow> \<not> b
      | BTime s n \<Rightarrow> s = - 62135596800 \<and> n = 0
      | BUndefined \<Rightarrow> True
      | BBinary k d \<Rightarrow> k = CHR 0x00 \<and> d = []
      | BRegEx p opts \<Rightarrow> p = [] \<and> opts = []
      | BJavaScript c s \<Rightarrow> c = [] \<and> s = None
      | BRaw k d \<Rightarrow> k = CHR 0x00 \<and> d = []
      | BStruct n fs vs \<Rightarrow> list_all2 (\<lambda>f x. case f of StructField _ _ _ _ u \<Rightarrow> isZero u x) fs vs)"
  by pat_completeness auto
termination
  by (relation "measure (\<lambda>(t, v). size v)") (auto dest!: set_zip_rightD simp: less_Suc_eq_le intro: size_list_estimation')

declare isZero.simps [simp del]

subsection \<open>Encoding\<close>

definition addInt32 :: "32 word \<Rightarrow> bytes" where
  "addInt32 u = [word_byte (ucast u), word_byte (ucast (drop_bit 8 u)), word_byte (ucast (drop_bit 16 u)),
     word_byte (ucast (drop_bit 24 u))]"

definition addInt64 :: "64 word \<Rightarrow> bytes" where
  "addInt64 u = [word_byte (ucast u), word_byte (ucast (drop_bit 8 u)), word_byte (ucast (drop_bit 16 u)),
     word_byte (ucast (drop_bit 24 u)), word_byte (ucast (drop_bit 32 u)), word_byte (ucast (drop_bit 40 u)),
     word_byte (ucast (drop_bit 48 u)), word_byte (ucast (drop_bit 56 u))]"

definition addCStr :: "bytes \<Rightarrow> bytes" where
  "addCStr v = v @ [CHR 0x00]"

definition addStr :: "bytes \<Rightarrow> bytes" where
  "addStr v = addInt32 (of_nat (length v + 1)) @ addCStr v"

definition addBinary :: "char \<Rightarrow> bytes \<Rightarrow> bytes" where
  "addBinary subtype v =
     (if subtype = CHR 0x02 then addInt32 (of_nat (length v + 4)) @ [subtype] @ addInt32 (of_nat (length v))
      else addInt32 (of_nat (length v)) @ [subtype]) @ v"

definition addElemName :: "char \<Rightarrow> string \<Rightarrow> bytes" where
  "addElemName kind name = [kind] @ name @ [CHR 0x00]"

text \<open>What \<open>reserveInt32\<close> and \<open>setInt32\<close> put in front of the bytes in between.\<close>

definition with_length :: "bytes \<Rightarrow> bytes" where
  "with_length b = addInt32 (of_nat (length b + 4)) @ b"

definition add_int :: "bool \<Rightarrow> int_kind \<Rightarrow> 64 word \<Rightarrow> string \<Rightarrow> bytes" where
  "add_int minSize k i name =
     (if (minSize \<or> k \<noteq> KInt64) \<and> - 2147483648 \<le> sint i \<and> sint i \<le> 2147483647
      then addElemName CHR 0x10 name @ addInt32 (ucast i)
      else addElemName CHR 0x12 name @ addInt64 i)"

definition add_uint :: "bool \<Rightarrow> uint_kind \<Rightarrow> 64 word \<Rightarrow> string \<Rightarrow> bson_panic + bytes" where
  "add_uint minSize k u name =
     (if sint u < 0 then Inl (Failed ''BSON has no uint64 type, and value is too large to fit correctly in an int64'')
      else if uint u \<le> 2147483647 \<and> (minSize \<or> k \<notin> {KUint64, KUintptr})
      then Inr (addElemName CHR 0x10 name @ addInt32 (ucast u))
      else Inr (addElemName CHR 0x12 name @ addInt64 u))"

text \<open>\<open>FieldByIndex\<close>: the field at a path, and its type.\<close>

fun field_at :: "nat list \<Rightarrow> bson_value \<Rightarrow> bson_value" where
  "field_at [] v = v"
| "field_at (i # is) (BStruct n fs vs) = (if i < length vs then field_at is (vs ! i) else BNil)"
| "field_at (i # is) v = BNil"

fun type_at :: "nat list \<Rightarrow> go_type \<Rightarrow> go_type" where
  "type_at [] t = t"
| "type_at (i # is) (TStruct n fs) =
     (if i < length fs then case fs ! i of StructField _ _ _ _ t \<Rightarrow> type_at is t else TIface)"
| "type_at (i # is) t = TIface"

definition field_path :: "field_info \<Rightarrow> nat list" where
  "field_path info = (if Inline info = [] then [Num info] else Inline info)"

text \<open>
  What \<open>addDoc\<close> iterates over: the elements with their names and whether they are kept small, or the panic at
  the place of an element.
\<close>

type_synonym elem = "string \<times> bool \<times> bson_value"

definition plain_elems :: "(string \<times> bson_value) list \<Rightarrow> (bson_panic + elem) list" where
  "plain_elems kvs = map (\<lambda>(k, v). Inr (k, False, v)) kvs"

definition index_elems :: "bson_value list \<Rightarrow> (bson_panic + elem) list" where
  "index_elems vs = map (\<lambda>(i, v). Inr (show_nat i, False, v)) (enumerate 0 vs)"

definition inline_elems :: "struct_info \<Rightarrow> bson_value list \<Rightarrow> (bson_panic + elem) list" where
  "inline_elems s vs =
     (case InlineMap s of
        None \<Rightarrow> []
      | Some i \<Rightarrow> (case field_at [i] (BStruct [] [] vs) of
            BMap kvs \<Rightarrow> map (\<lambda>(k, v). if FieldsMap s k \<noteq> None
                then Inl (Failed (''Can'' @ [CHR 0x27] @ ''t have key '' @ k @ '' in inlined map; conflicts with struct field''))
                else Inr (k, False, v)) kvs
          | _ \<Rightarrow> []))"

definition field_elems :: "struct_info \<Rightarrow> string \<Rightarrow> struct_field list \<Rightarrow> bson_value list \<Rightarrow> (bson_panic + elem) list" where
  "field_elems s n fs vs =
     concat (map (\<lambda>info.
       if OmitEmpty info \<and> isZero (type_at (field_path info) (TStruct n fs)) (field_at (field_path info) (BStruct n fs vs)) then []
       else [Inr (Key info, MinSize info, field_at (field_path info) (BStruct n fs vs))]) (FieldsList s))"

definition struct_elems :: "string \<Rightarrow> struct_field list \<Rightarrow> bson_value list \<Rightarrow> (bson_panic + elem) list" where
  "struct_elems n fs vs =
     (case getStructInfo n fs of
        Inl p \<Rightarrow> [Inl p]
      | Inr s \<Rightarrow> inline_elems s vs @ field_elems s n fs vs)"

fun doc_elems :: "bson_value \<Rightarrow> (bson_panic + elem) list" where
  "doc_elems (BMap kvs) = plain_elems kvs"
| "doc_elems (BDoc kvs) = plain_elems kvs"
| "doc_elems (BArray vs) = index_elems vs"
| "doc_elems (BBytes b) = index_elems (map (\<lambda>c. BUint KUint8 (byte_word c)) b)"
| "doc_elems (BStruct n fs vs) = struct_elems n fs vs"
| "doc_elems (BBinary k d) = [Inr (''kind'', False, BUint KUint8 (byte_word k)), Inr (''data'', False, BBytes d)]"
| "doc_elems (BRegEx p opts) = [Inr (''pattern'', False, BString p), Inr (''options'', False, BString opts)]"
| "doc_elems (BJavaScript c s) =
     [Inr (''code'', False, BString c), Inr (''scope'', False, (case s of None \<Rightarrow> BNil | Some v \<Rightarrow> v))]"
| "doc_elems (BTime s n) = []"
| "doc_elems BUndefined = []"
| "doc_elems BNil = [Inl (Failed ''reflect: call of reflect.Value.Interface on zero Value'')]"
| "doc_elems v = [Inl (Failed (''Can'' @ [CHR 0x27] @ ''t marshal '' @ value_type v @ '' as a BSON document''))]"

text \<open>The elements of a document are smaller than the document.\<close>

definition rank :: "bson_value \<Rightarrow> nat" where
  "rank v = 3 * size v + (case v of BBinary k d \<Rightarrow> 2 | BBytes b \<Rightarrow> 1 | BRegEx p opts \<Rightarrow> 1 | _ \<Rightarrow> 0)"

lemma rank_less: "size x < size v \<Longrightarrow> rank x < rank v"
  by (auto simp: rank_def split: bson_value.split)

lemma field_at_size: "size (field_at is v) \<le> size v"
proof (induction "is" v rule: field_at.induct)
  case (2 i "is" n fs vs)
  show ?case
  proof (cases "i < length vs")
    case True
    then have "size (vs ! i) \<le> size_list size vs" by (intro size_list_estimation' [of "vs ! i"]) auto
    with 2 True show ?thesis by simp
  qed simp
qed simp_all

lemma field_at_less: "is \<noteq> [] \<Longrightarrow> size (field_at is (BStruct n fs vs)) < size (BStruct n fs vs)"
proof (cases "is")
  case (Cons i js)
  show ?thesis
  proof (cases "i < length vs")
    case True
    then have "size (vs ! i) \<le> size_list size vs" by (intro size_list_estimation' [of "vs ! i"]) auto
    with Cons True field_at_size [of js "vs ! i"] show ?thesis by simp
  qed (simp add: Cons)
qed simp

lemma doc_elems_rank:
  assumes "Inr (k, m, x) \<in> set (doc_elems v)"
  shows "rank x < rank v"
proof (cases v)
  case (BStruct n fs vs)
  have less: "rank (field_at is (BStruct n fs vs)) < rank v" if "is \<noteq> []" for "is"
    using field_at_less [OF that] rank_less BStruct by blast
  from assms BStruct obtain s where s: "getStructInfo n fs = Inr s"
    and e: "Inr (k, m, x) \<in> set (inline_elems s vs) \<or> Inr (k, m, x) \<in> set (field_elems s n fs vs)"
    by (auto simp: struct_elems_def split: sum.splits)
  from e show ?thesis
  proof
    assume "Inr (k, m, x) \<in> set (inline_elems s vs)"
    then obtain i where "InlineMap s = Some i" and e: "Inr (k, m, x) \<in> set (inline_elems s vs)"
      by (cases "InlineMap s") (auto simp: inline_elems_def)
    then obtain kvs where i: "field_at [i] (BStruct [] [] vs) = BMap kvs" and x: "(k, x) \<in> set kvs"
      by (cases "field_at [i] (BStruct [] [] vs)") (auto simp: inline_elems_def simp del: field_at.simps split: if_splits)
    have sx: "size x < size (BMap kvs)"
      using x by (auto simp: less_Suc_eq_le intro: size_list_estimation')
    have "size (field_at [i] (BStruct n fs vs)) < size v" unfolding BStruct by (rule field_at_less) simp
    moreover have "field_at [i] (BStruct n fs vs) = BMap kvs" using i by simp
    ultimately show ?thesis using sx by (intro rank_less) simp
  next
    assume "Inr (k, m, x) \<in> set (field_elems s n fs vs)"
    then obtain info where "x = field_at (field_path info) (BStruct n fs vs)"
      by (auto simp: field_elems_def split: if_splits)
    with less [of "field_path info"] show ?thesis by (simp add: field_path_def split: if_splits)
  qed
next
  case (BArray vs)
  with assms have "x \<in> set vs" by (auto simp: index_elems_def in_set_enumerate_eq)
  then have "size x < size v" using BArray by (auto simp: less_Suc_eq_le intro: size_list_estimation')
  then show ?thesis by (rule rank_less)
next
  case (BDoc kvs)
  with assms have "(k, x) \<in> set kvs" by (auto simp: plain_elems_def)
  then have "size x < size v" using BDoc by (auto simp: less_Suc_eq_le intro: size_list_estimation')
  then show ?thesis by (rule rank_less)
next
  case (BMap kvs)
  with assms have "(k, x) \<in> set kvs" by (auto simp: plain_elems_def)
  then have "size x < size v" using BMap by (auto simp: less_Suc_eq_le intro: size_list_estimation')
  then show ?thesis by (rule rank_less)
next
  case (BJavaScript c s)
  with assms show ?thesis by (auto simp: rank_def split: option.splits bson_value.splits)
qed (use assms in \<open>auto simp: rank_def index_elems_def in_set_enumerate_eq split: option.splits\<close>)

text \<open>The bytes of a list of elements, up to the first panic.\<close>

fun concat_runs :: "('e + bytes) list \<Rightarrow> 'e + bytes" where
  "concat_runs [] = Inr []"
| "concat_runs (r # rs) = run_bind r (\<lambda>b. run_bind (concat_runs rs) (\<lambda>bs. Inr (b @ bs)))"

function addElem :: "string \<Rightarrow> bool \<Rightarrow> bson_value \<Rightarrow> bson_panic + bytes"
  and addDoc :: "bson_value \<Rightarrow> bson_panic + bytes" where
  "addElem name minSize v =
     (case v of
        BNil \<Rightarrow> Inr (addElemName CHR 0x0A name)
      | BPtr x \<Rightarrow> addElem name minSize x
      | BObjectId s \<Rightarrow>
          if length s \<noteq> 12 then Inl (Failed (''ObjectIDs must be exactly 12 bytes long (got '' @ show_nat (length s) @ '')''))
          else Inr (addElemName CHR 0x07 name @ s)
      | BSymbol s \<Rightarrow> Inr (addElemName CHR 0x0E name @ addStr s)
      | BString s \<Rightarrow> Inr (addElemName CHR 0x02 name @ addStr s)
      | BFloat w \<Rightarrow> Inr (addElemName CHR 0x01 name @ addInt64 w)
      | BUint k u \<Rightarrow> add_uint minSize k u name
      | BMongoTimestamp i \<Rightarrow> Inr (addElemName CHR 0x11 name @ addInt64 i)
      | BMaxKey \<Rightarrow> Inr (addElemName CHR 0x7F name)
      | BMinKey \<Rightarrow> Inr (addElemName CHR 0xFF name)
      | BInt k i \<Rightarrow> Inr (add_int minSize k i name)
      | BBool b \<Rightarrow> Inr (addElemName CHR 0x08 name @ [if b then CHR 0x01 else CHR 0x00])
      | BMap kvs \<Rightarrow> run_bind (addDoc v) (\<lambda>d. Inr (addElemName CHR 0x03 name @ d))
      | BBytes b \<Rightarrow> Inr (addElemName CHR 0x05 name @ addBinary CHR 0x00 b)
      | BDoc kvs \<Rightarrow> run_bind (addDoc v) (\<lambda>d. Inr (addElemName CHR 0x03 name @ d))
      | BArray vs \<Rightarrow> run_bind (addDoc v) (\<lambda>d. Inr (addElemName CHR 0x04 name @ d))
      | BRaw k d \<Rightarrow> Inr (addElemName (if k = CHR 0x00 then CHR 0x03 else k) name @ d)
      | BBinary k d \<Rightarrow> Inr (addElemName CHR 0x05 name @ addBinary k d)
      | BRegEx p opts \<Rightarrow> Inr (addElemName CHR 0x0B name @ addCStr p @ addCStr opts)
      | BJavaScript c s \<Rightarrow> (case s of
            None \<Rightarrow> Inr (addElemName CHR 0x0D name @ addStr c)
          | Some x \<Rightarrow> run_bind (addDoc x) (\<lambda>d. Inr (addElemName CHR 0x0F name @ with_length (addStr c @ d))))
      | BTime s n \<Rightarrow> Inr (addElemName CHR 0x09 name @ addInt64 (s * 1000 + ucast (n div 1000000)))
      | BUndefined \<Rightarrow> Inr (addElemName CHR 0x06 name)
      | BStruct st fs vs \<Rightarrow> run_bind (addDoc v) (\<lambda>d. Inr (addElemName CHR 0x03 name @ d)))"
| "addDoc v =
     (case v of
        BPtr x \<Rightarrow> addDoc x
      | BRaw k d \<Rightarrow>
          if k \<noteq> CHR 0x03 \<and> k \<noteq> CHR 0x00
          then Inl (Failed (''Attempted to unmarshal Raw kind '' @ show_nat (of_char k) @ '' as a document''))
          else Inr d
      | _ \<Rightarrow> run_bind (concat_runs (map (\<lambda>e. case e of Inl p \<Rightarrow> Inl p | Inr (k, m, x) \<Rightarrow> addElem k m x) (doc_elems v)))
          (\<lambda>b. Inr (with_length (b @ [CHR 0x00]))))"
  by pat_completeness auto
termination
  by (relation "measures [\<lambda>x. case x of Inl (_, _, v) \<Rightarrow> rank v | Inr v \<Rightarrow> rank v, \<lambda>x. case x of Inl _ \<Rightarrow> 1 | Inr _ \<Rightarrow> 0]")
    (auto dest: doc_elems_rank simp: rank_less simp del: doc_elems.simps)

declare addElem.simps [simp del] addDoc.simps [simp del]

text \<open>\<open>handleErr\<close>: a panic with a text becomes an error, the others go on.\<close>

definition handleErr :: "bson_panic + 'a \<Rightarrow> bson_panic + (string + 'a)" where
  "handleErr r = (case r of Inl (Failed s) \<Rightarrow> Inr (Inl s) | Inl p \<Rightarrow> Inl p | Inr x \<Rightarrow> Inr (Inr x))"

definition bson_Marshal :: "bson_value \<Rightarrow> bson_panic + (string + bytes)" where
  "bson_Marshal v = handleErr (addDoc v)"

definition D_Map :: "(string \<times> bson_value) list \<Rightarrow> (string \<times> bson_value) list" where
  "D_Map d = fold (\<lambda>(k, v) m. obj_put k v m) d []"

end
