(* ===== verification/BsonDecode.thy ===== *)
theory BsonDecode
  imports Bson
begin

text \<open>
  The decoder of \<open>decode.go\<close>.  The position \<open>d.i\<close> is the input that is left; the end of a document is the
  number of bytes that are left behind it.  Maps, pointers and structs that are decoded into are fresh ones.
\<close>

subsection \<open>Basic types\<close>

definition corrupted :: "bson_panic + 'a" where
  "corrupted = Inl (Failed ''Document is corrupted'')"

definition readByte :: "bytes \<Rightarrow> bson_panic + char \<times> bytes" where
  "readByte b = (case b of [] \<Rightarrow> corrupted | c # r \<Rightarrow> Inr (c, r))"

text \<open>A negative length moves \<open>d.i\<close> back, which the check against the end allows, and slices out of range.\<close>

definition readBytes :: "32 word \<Rightarrow> bytes \<Rightarrow> bson_panic + bytes \<times> bytes" where
  "readBytes n b =
     (if int (length b) < sint n then corrupted
      else if sint n < 0 then Inl (Passed SliceOutOfRange)
      else Inr (take (nat (sint n)) b, drop (nat (sint n)) b))"

definition readInt32 :: "bytes \<Rightarrow> bson_panic + 32 word \<times> bytes" where
  "readInt32 b = run_bind (readBytes 4 b) (\<lambda>(x, r).
     Inr (byte_word (x ! 0) OR push_bit 8 (byte_word (x ! 1)) OR push_bit 16 (byte_word (x ! 2)) OR
       push_bit 24 (byte_word (x ! 3)), r))"

definition readInt64 :: "bytes \<Rightarrow> bson_panic + 64 word \<times> bytes" where
  "readInt64 b = run_bind (readBytes 8 b) (\<lambda>(x, r).
     Inr (byte_word (x ! 0) OR push_bit 8 (byte_word (x ! 1)) OR push_bit 16 (byte_word (x ! 2)) OR
       push_bit 24 (byte_word (x ! 3)) OR push_bit 32 (byte_word (x ! 4)) OR push_bit 40 (byte_word (x ! 5)) OR
       push_bit 48 (byte_word (x ! 6)) OR push_bit 56 (byte_word (x ! 7)), r))"

definition readCStr :: "bytes \<Rightarrow> bson_panic + bytes \<times> bytes" where
  "readCStr b =
     (case dropWhile (\<lambda>c. c \<noteq> CHR 0x00) b of [] \<Rightarrow> corrupted | _ # r \<Rightarrow> Inr (takeWhile (\<lambda>c. c \<noteq> CHR 0x00) b, r))"

definition readStr :: "bytes \<Rightarrow> bson_panic + bytes \<times> bytes" where
  "readStr b = run_bind (readInt32 b) (\<lambda>(n, r). run_bind (readBytes (n - 1) r) (\<lambda>(s, r).
     run_bind (readByte r) (\<lambda>(c, r). if c \<noteq> CHR 0x00 then corrupted else Inr (s, r))))"

definition readBinary :: "bytes \<Rightarrow> bson_panic + (char \<times> bytes) \<times> bytes" where
  "readBinary b = run_bind (readInt32 b) (\<lambda>(n, r). run_bind (readByte r) (\<lambda>(kind, r). run_bind (readBytes n r) (\<lambda>(x, r).
     Inr ((kind, if kind = CHR 0x02 \<and> 4 \<le> length x then drop 4 x else x), r))))"

definition readBool :: "bytes \<Rightarrow> bson_panic + bool \<times> bytes" where
  "readBool b = run_bind (readByte b) (\<lambda>(c, r). Inr (c = CHR 0x01, r))"

definition readRegEx :: "bytes \<Rightarrow> bson_panic + bson_value \<times> bytes" where
  "readRegEx b = run_bind (readCStr b) (\<lambda>(p, r). run_bind (readCStr r) (\<lambda>(opts, r). Inr (BRegEx p opts, r)))"

text \<open>\<open>time.Unix\<close>, and a time from milliseconds.\<close>

definition time_Unix :: "int \<Rightarrow> int \<Rightarrow> bson_value" where
  "time_Unix sec nsec =
     (if nsec < 0 \<or> 1000000000 \<le> nsec then
        let n = nsec sdiv 1000000000; sec = sec + n; nsec = nsec - n * 1000000000 in
        if nsec < 0 then BTime (word_of_int (sec - 1)) (word_of_int (nsec + 1000000000))
        else BTime (word_of_int sec) (word_of_int nsec)
      else BTime (word_of_int sec) (word_of_int nsec))"

definition read_time :: "64 word \<Rightarrow> bson_value" where
  "read_time i =
     (if i = - 62135596800000 then BTime (- 62135596800) 0
      else time_Unix (sint i sdiv 1000) (sint i smod 1000 * 1000000))"

text \<open>The elements that are neither documents nor arrays nor code with a scope.\<close>

definition read_scalar :: "char \<Rightarrow> bytes \<Rightarrow> bson_panic + bson_value \<times> bytes" where
  "read_scalar kind b =
     (if kind = CHR 0x01 then run_bind (readInt64 b) (\<lambda>(w, r). Inr (BFloat w, r))
      else if kind = CHR 0x02 then run_bind (readStr b) (\<lambda>(s, r). Inr (BString s, r))
      else if kind = CHR 0x05 then run_bind (readBinary b) (\<lambda>((k, d), r).
        Inr (if k = CHR 0x00 \<or> k = CHR 0x02 then BBytes d else BBinary k d, r))
      else if kind = CHR 0x06 then Inr (BUndefined, b)
      else if kind = CHR 0x07 then run_bind (readBytes 12 b) (\<lambda>(s, r). Inr (BObjectId s, r))
      else if kind = CHR 0x08 then run_bind (readBool b) (\<lambda>(x, r). Inr (BBool x, r))
      else if kind = CHR 0x09 then run_bind (readInt64 b) (\<lambda>(i, r). Inr (read_time i, r))
      else if kind = CHR 0x0A then Inr (BNil, b)
      else if kind = CHR 0x0B then readRegEx b
      else if kind = CHR 0x0D then run_bind (readStr b) (\<lambda>(s, r). Inr (BJavaScript s None, r))
      else if kind = CHR 0x0E then run_bind (readStr b) (\<lambda>(s, r). Inr (BSymbol s, r))
      else if kind = CHR 0x10 then run_bind (readInt32 b) (\<lambda>(i, r). Inr (BInt KInt (scast i), r))
      else if kind = CHR 0x11 then run_bind (readInt64 b) (\<lambda>(i, r). Inr (BMongoTimestamp i, r))
      else if kind = CHR 0x12 then run_bind (readInt64 b) (\<lambda>(i, r). Inr (BInt KInt64 i, r))
      else if kind = CHR 0x7F then Inr (BMaxKey, b)
      else if kind = CHR 0xFF then Inr (BMinKey, b)
      else Inl (Failed (''Unknown element kind (0x'' @ map to_upper_char (hex_encode [kind]) @ '')'')))"

subsection \<open>Targets\<close>

primrec zero :: "go_type \<Rightarrow> bson_value" and zero_field :: "struct_field \<Rightarrow> bson_value" where
  "zero TIface = BNil"
| "zero TString = BString []"
| "zero TObjectId = BObjectId []"
| "zero (TInt k) = BInt k 0"
| "zero (TUint k) = BUint k 0"
| "zero TFloat64 = BFloat 0"
| "zero TBool = BBool False"
| "zero TTime = BTime (- 62135596800) 0"
| "zero TRaw = BRaw CHR 0x00 []"
| "zero TD = BDoc []"
| "zero (TSlice t) = (if t = TUint KUint8 then BBytes [] else if t = typeDocElem then BDoc [] else BArray [])"
| "zero (TMap k t) = BMap []"
| "zero (TPtr t) = BNil"
| "zero (TStruct n fs) = BStruct n fs (map zero_field fs)"
| "zero_field (StructField name pkg raw tag t) = zero t"

text \<open>What is behind the pointers of a type, and a value behind them.\<close>

fun base_type :: "go_type \<Rightarrow> go_type" where
  "base_type (TPtr t) = base_type t"
| "base_type t = t"

fun behind :: "go_type \<Rightarrow> bson_value \<Rightarrow> bson_value" where
  "behind (TPtr t) v = BPtr (behind t v)"
| "behind t v = v"

text \<open>Conversions between floats and integers, which Go leaves to the machine where the value does not fit.\<close>

record float_ops =
  float_int :: "64 word \<Rightarrow> 64 word"
  float_uint :: "64 word \<Rightarrow> 64 word"
  int_float :: "64 word \<Rightarrow> 64 word"

definition set_int :: "int_kind \<Rightarrow> 64 word \<Rightarrow> bson_value" where
  "set_int k i = BInt k (case k of
     KInt8 \<Rightarrow> scast (ucast i :: 8 word) | KInt16 \<Rightarrow> scast (ucast i :: 16 word)
   | KInt32 \<Rightarrow> scast (ucast i :: 32 word) | _ \<Rightarrow> i)"

definition set_uint :: "uint_kind \<Rightarrow> 64 word \<Rightarrow> bson_value" where
  "set_uint k u = BUint k (case k of
     KUint8 \<Rightarrow> ucast (ucast u :: 8 word) | KUint16 \<Rightarrow> ucast (ucast u :: 16 word)
   | KUint32 \<Rightarrow> ucast (ucast u :: 32 word) | _ \<Rightarrow> u)"

fun value_int :: "bson_value \<Rightarrow> 64 word option" where
  "value_int (BInt k i) = Some i"
| "value_int (BMongoTimestamp i) = Some i"
| "value_int BMaxKey = Some 0x7FFFFFFFFFFFFFFF"
| "value_int BMinKey = Some 0x8000000000000000"
| "value_int v = None"

fun value_string :: "bson_value \<Rightarrow> bytes option" where
  "value_string (BString s) = Some s"
| "value_string (BSymbol s) = Some s"
| "value_string (BObjectId s) = Some s"
| "value_string v = None"

text \<open>The value as one of the type of the target, if it can be one; \<open>nil\<close> was dealt with.\<close>

fun convert :: "float_ops \<Rightarrow> go_type \<Rightarrow> bson_value \<Rightarrow> bson_value option" where
  "convert fl (TPtr t) v = map_option BPtr (convert fl t v)"
| "convert fl TIface v = Some v"
| "convert fl TString v = (case v of BBytes b \<Rightarrow> Some (BString b) | _ \<Rightarrow> map_option BString (value_string v))"
| "convert fl TObjectId v = (case v of BBytes b \<Rightarrow> Some (BObjectId b) | _ \<Rightarrow> map_option BObjectId (value_string v))"
| "convert fl (TSlice t) v =
     (if t = TUint KUint8 then (case v of BBytes b \<Rightarrow> Some (BBytes b) | _ \<Rightarrow> map_option BBytes (value_string v))
      else None)"
| "convert fl (TInt k) v =
     (case v of
        BFloat w \<Rightarrow> Some (set_int k (float_int fl w))
      | BBool b \<Rightarrow> Some (set_int k (if b then 1 else 0))
      | _ \<Rightarrow> map_option (set_int k) (value_int v))"
| "convert fl (TUint k) v =
     (case v of
        BFloat w \<Rightarrow> Some (set_uint k (float_uint fl w))
      | BBool b \<Rightarrow> Some (set_uint k (if b then 1 else 0))
      | _ \<Rightarrow> map_option (set_uint k) (value_int v))"
| "convert fl TFloat64 v =
     (case v of
        BFloat w \<Rightarrow> Some (BFloat w)
      | BBool b \<Rightarrow> Some (BFloat (if b then 0x3FF0000000000000 else 0))
      | _ \<Rightarrow> map_option (BFloat \<circ> int_float fl) (value_int v))"
| "convert fl TBool v =
     (case v of
        BBool b \<Rightarrow> Some (BBool b)
      | BFloat w \<Rightarrow> Some (BBool (w \<noteq> 0 \<and> w \<noteq> 0x8000000000000000))
      | _ \<Rightarrow> map_option (\<lambda>i. BBool (i \<noteq> 0)) (value_int v))"
| "convert fl TTime v = (case v of BTime s n \<Rightarrow> Some v | _ \<Rightarrow> None)"
| "convert fl t v = None"

text \<open>What an element did to its target: a value for it, nothing although it counts as set, or no match.\<close>

datatype outcome = Stored bson_value | Left | Mismatch

text \<open>What the elements of a document go into.\<close>

datatype doc_target = Entries go_type | Fields struct_info string "struct_field list" | Dropped | Elems

definition blackHole :: go_type where
  "blackHole = TStruct ''struct {}'' []"

definition inline_elem :: "struct_info \<Rightarrow> struct_field list \<Rightarrow> go_type option" where
  "inline_elem s fs = (case InlineMap s of
     None \<Rightarrow> None
   | Some i \<Rightarrow> (case type_at [i] (TStruct [] fs) of TMap k t \<Rightarrow> Some t | _ \<Rightarrow> None))"

definition doc_target :: "go_type \<Rightarrow> go_type \<Rightarrow> bson_panic + doc_target \<times> go_type" where
  "doc_target dt t =
     (case t of
        TMap k e \<Rightarrow>
          if \<not> string_kind k then Inl (Failed (''BSON map must have string keys. Got: '' @ type_name t))
          else Inr (Entries e, if e = TIface then t else dt)
      | TStruct n fs \<Rightarrow> run_bind (getStructInfo n fs) (\<lambda>s. Inr (Fields s n fs,
          (case InlineMap s of Some i \<Rightarrow> if inline_elem s fs = Some TIface then type_at [i] t else dt | None \<Rightarrow> dt)))
      | TTime \<Rightarrow> Inr (Dropped, dt)
      | TRaw \<Rightarrow> Inr (Dropped, dt)
      | TD \<Rightarrow> Inr (Elems, TD)
      | TSlice e \<Rightarrow>
          if e = typeDocElem then Inr (Elems, t)
          else Inl (Failed (''Unsupported document type for unmarshalling: '' @ type_name t))
      | _ \<Rightarrow> Inl (Failed (''Unsupported document type for unmarshalling: '' @ type_name t)))"

fun item_type :: "doc_target \<Rightarrow> string \<Rightarrow> go_type" where
  "item_type (Entries t) name = t"
| "item_type (Fields s n fs) name =
     (case FieldsMap s name of
        Some info \<Rightarrow> type_at (field_path info) (TStruct n fs)
      | None \<Rightarrow> (case inline_elem s fs of Some t \<Rightarrow> t | None \<Rightarrow> blackHole))"
| "item_type Dropped name = blackHole"
| "item_type Elems name = TIface"

fun set_at :: "nat list \<Rightarrow> bson_value \<Rightarrow> bson_value \<Rightarrow> bson_value" where
  "set_at [] x v = x"
| "set_at (i # is) x (BStruct n fs vs) = BStruct n fs (vs[i := set_at is x (vs ! i)])"
| "set_at (i # is) x v = v"

definition put_entry :: "go_type \<Rightarrow> string \<Rightarrow> outcome \<Rightarrow> bson_value \<Rightarrow> bson_value" where
  "put_entry t name res m =
     (case m of
        BMap kvs \<Rightarrow> (case res of
            Stored v \<Rightarrow> BMap (obj_put name v kvs) | Left \<Rightarrow> BMap (obj_put name (zero t) kvs) | Mismatch \<Rightarrow> m)
      | _ \<Rightarrow> m)"

fun put_item :: "doc_target \<Rightarrow> string \<Rightarrow> outcome \<Rightarrow> bson_value \<Rightarrow> bson_value" where
  "put_item (Entries t) name res out = put_entry t name res out"
| "put_item (Fields s n fs) name res out =
     (case FieldsMap s name of
        Some info \<Rightarrow> (case res of Stored v \<Rightarrow> set_at (field_path info) v out | _ \<Rightarrow> out)
      | None \<Rightarrow> (case InlineMap s of
            Some i \<Rightarrow> set_at [i] (put_entry (item_type (Fields s n fs) name) name res (field_at [i] out)) out
          | None \<Rightarrow> out))"
| "put_item Dropped name res out = out"
| "put_item Elems name res out =
     (case (res, out) of (Stored v, BDoc kvs) \<Rightarrow> BDoc (kvs @ [(name, v)]) | _ \<Rightarrow> out)"

text \<open>The elements of a slice, and the slice with elements of that type.\<close>

definition slice_elem :: "go_type \<Rightarrow> go_type option" where
  "slice_elem t = (case t of TSlice e \<Rightarrow> Some e | TD \<Rightarrow> Some typeDocElem | _ \<Rightarrow> None)"

definition byte_of_value :: "bson_value \<Rightarrow> char" where
  "byte_of_value v = (case v of BUint k u \<Rightarrow> word_byte (ucast u) | _ \<Rightarrow> CHR 0x00)"

definition pair_of_value :: "bson_value \<Rightarrow> string \<times> bson_value" where
  "pair_of_value v = (case v of BStruct _ _ [BString n, x] \<Rightarrow> (n, x) | _ \<Rightarrow> ([], BNil))"

definition mk_slice :: "go_type \<Rightarrow> bson_value list \<Rightarrow> bson_value" where
  "mk_slice e vs =
     (if e = TUint KUint8 then BBytes (map byte_of_value vs)
      else if e = typeDocElem then BDoc (map pair_of_value vs) else BArray vs)"

definition append_item :: "go_type \<Rightarrow> outcome \<Rightarrow> bson_value list \<Rightarrow> bson_value list" where
  "append_item t res vs = (case res of Stored v \<Rightarrow> vs @ [v] | Left \<Rightarrow> vs @ [zero t] | Mismatch \<Rightarrow> vs)"

subsection \<open>Documents and elements\<close>

text \<open>The length in front of a document, and the number of bytes behind its end.\<close>

definition readDocLen :: "bytes \<Rightarrow> bson_panic + nat \<times> bytes" where
  "readDocLen b = run_bind (readInt32 b) (\<lambda>(n, r).
     if sint n \<le> 4 \<or> int (length b) < sint n \<or> b ! (nat (sint n) - 1) \<noteq> CHR 0x00 then corrupted
     else Inr (length b - nat (sint n), r))"

fun skip_name :: "nat \<Rightarrow> bytes \<Rightarrow> bson_panic + bytes" where
  "skip_name stop [] = corrupted"
| "skip_name stop (c # b) =
     (if length (c # b) \<le> stop then corrupted else if c = CHR 0x00 then Inr b else skip_name stop b)"

text \<open>The kinds of target that \<open>readDocTo\<close> is called with.\<close>

definition takes_document :: "go_type \<Rightarrow> bool" where
  "takes_document t = (case t of TIface \<Rightarrow> True | TPtr u \<Rightarrow> True | TStruct n fs \<Rightarrow> True | TTime \<Rightarrow> True | TRaw \<Rightarrow> True |
     TMap k e \<Rightarrow> True | TD \<Rightarrow> True | _ \<Rightarrow> False)"

text \<open>An element that was read, put into its target: as it is written into a raw one, else converted.\<close>

definition set_value :: "float_ops \<Rightarrow> go_type \<Rightarrow> char \<Rightarrow> bytes \<Rightarrow> bson_value \<Rightarrow> bytes \<Rightarrow> outcome" where
  "set_value fl t kind b v r =
     (if t = TRaw then Stored (BRaw kind (take (length b - length r) b))
      else if v = BNil then Stored (zero t)
      else case convert fl t v of Some x \<Rightarrow> Stored x | None \<Rightarrow> Mismatch)"

text \<open>The end of the loop over the elements, at the zero byte.\<close>

definition doc_end :: "nat \<Rightarrow> 'a \<Rightarrow> bytes \<Rightarrow> bson_panic + 'a \<times> bytes" where
  "doc_end stop x r = (if length r \<noteq> stop then corrupted else Inr (x, r))"

text \<open>
  The fuel is one more than the elements that can still begin.  \<open>dt\<close> is \<open>d.docType\<close>, the type of documents in interfaces.
\<close>

function read_items :: "float_ops \<Rightarrow> nat \<Rightarrow> go_type \<Rightarrow> doc_target \<Rightarrow> nat \<Rightarrow> bson_value \<Rightarrow> bytes \<Rightarrow> bson_panic + bson_value \<times> bytes"
  and slice_items :: "float_ops \<Rightarrow> nat \<Rightarrow> go_type \<Rightarrow> go_type \<Rightarrow> nat \<Rightarrow> bson_value list \<Rightarrow> bytes \<Rightarrow> bson_panic + bson_value list \<times> bytes"
  and readDocTo :: "float_ops \<Rightarrow> nat \<Rightarrow> go_type \<Rightarrow> go_type \<Rightarrow> bytes \<Rightarrow> bson_panic + bson_value \<times> bytes"
  and readElemTo :: "float_ops \<Rightarrow> nat \<Rightarrow> go_type \<Rightarrow> go_type \<Rightarrow> char \<Rightarrow> bytes \<Rightarrow> bson_panic + outcome \<times> bytes" where
  "read_items fl n dt tgt stop out b =
     (case b of
        [] \<Rightarrow> Inl (Passed IndexOutOfRange)
      | kind # r \<Rightarrow>
          if kind = CHR 0x00 then doc_end stop out r
          else (case n of 0 \<Rightarrow> Inl OutOfFuel | Suc m \<Rightarrow>
            run_bind (readCStr r) (\<lambda>(name, r).
            if length r \<le> stop then corrupted
            else run_bind (readElemTo fl m dt (item_type tgt name) kind r) (\<lambda>(res, r).
            if length r \<le> stop then corrupted
            else read_items fl m dt tgt stop (put_item tgt name res out) r))))"
| "slice_items fl n dt t stop vs b =
     (case b of
        [] \<Rightarrow> Inl (Passed IndexOutOfRange)
      | kind # r \<Rightarrow>
          if kind = CHR 0x00 then doc_end stop vs r
          else (case n of 0 \<Rightarrow> Inl OutOfFuel | Suc m \<Rightarrow>
            run_bind (skip_name stop r) (\<lambda>r.
            run_bind (readElemTo fl m dt t kind r) (\<lambda>(res, r).
            if length r \<le> stop then corrupted
            else slice_items fl m dt t stop (append_item t res vs) r))))"
| "readDocTo fl n dt t b =
     (let u = (if base_type t = TIface then dt else base_type t) in
      run_bind (doc_target dt u) (\<lambda>(tgt, dt').
      run_bind (readDocLen b) (\<lambda>(stop, r).
      run_bind (read_items fl n dt' tgt stop (zero u) r) (\<lambda>(out, r).
        Inr (behind t (if u = TRaw then BRaw CHR 0x03 (take (length b - length r) b) else out), r)))))"
| "readElemTo fl n dt t kind b =
     (if kind = CHR 0x03 then
        if takes_document t then run_bind (readDocTo fl n dt t b) (\<lambda>(v, r). Inr (Stored v, r))
        else run_bind (readDocTo fl n dt blackHole b) (\<lambda>(v, r). Inr (Left, r))
      else if kind = CHR 0x04 \<and> slice_elem (base_type t) \<noteq> None then
        run_bind (readDocLen b) (\<lambda>(stop, r).
        run_bind (slice_items fl n dt (the (slice_elem (base_type t))) stop [] r) (\<lambda>(vs, r).
          Inr (Stored (behind t (mk_slice (the (slice_elem (base_type t))) vs)), r)))
      else if kind = CHR 0x04 then
        run_bind (readDocLen b) (\<lambda>(stop, r).
        run_bind (slice_items fl n dt TIface stop [] r) (\<lambda>(vs, r). Inr (set_value fl t kind b (BArray vs) r, r)))
      else if kind = CHR 0x0F then
        run_bind (readStr (drop 4 b)) (\<lambda>(code, r).
        run_bind (readDocTo fl n dt typeM r) (\<lambda>(scope, r). Inr (set_value fl t kind b (BJavaScript code (Some scope)) r, r)))
      else run_bind (read_scalar kind b) (\<lambda>(v, r). Inr (set_value fl t kind b v r, r)))"
  by pat_completeness auto
termination
  by (relation "measures [\<lambda>x. case x of Inl (Inl (_, n, _)) \<Rightarrow> n | Inl (Inr (_, n, _)) \<Rightarrow> n | Inr (Inl (_, n, _)) \<Rightarrow> n | Inr (Inr (_, n, _)) \<Rightarrow> n,
      \<lambda>x. case x of Inl _ \<Rightarrow> 0 | Inr (Inl _) \<Rightarrow> 1 | Inr (Inr _) \<Rightarrow> 2]") auto

declare read_items.simps [simp del] slice_items.simps [simp del] readDocTo.simps [simp del] readElemTo.simps [simp del]

text \<open>
  \<open>Unmarshal\<close> into a variable of a type, a map or a non-nil pointer, and \<open>Raw.Unmarshal\<close>, which says whether the types
  matched.  There are fewer elements than bytes.
\<close>

definition bson_Unmarshal :: "float_ops \<Rightarrow> bytes \<Rightarrow> go_type \<Rightarrow> bson_panic + (string + bson_value)" where
  "bson_Unmarshal fl b t =
     (case t of
        TStruct n fs \<Rightarrow> Inr (Inl (''Unmarshal can'' @ [CHR 0x27] @ ''t deal with struct values. Use a pointer.''))
      | TTime \<Rightarrow> Inr (Inl (''Unmarshal can'' @ [CHR 0x27] @ ''t deal with struct values. Use a pointer.''))
      | TRaw \<Rightarrow> Inr (Inl (''Unmarshal can'' @ [CHR 0x27] @ ''t deal with struct values. Use a pointer.''))
      | TMap k v \<Rightarrow> handleErr (run_bind (readDocTo fl (length b) typeM t b) (\<lambda>(v, r). Inr v))
      | TPtr u \<Rightarrow> handleErr (run_bind (readDocTo fl (length b) typeM t b) (\<lambda>(v, r). Inr v))
      | _ \<Rightarrow> Inr (Inl ''Unmarshal needs a map or a pointer to a struct.''))"

definition Raw_Unmarshal :: "float_ops \<Rightarrow> char \<Rightarrow> bytes \<Rightarrow> go_type \<Rightarrow> bson_panic + (string + outcome)" where
  "Raw_Unmarshal fl kind b t = handleErr (run_bind (readElemTo fl (length b) typeM t kind b) (\<lambda>(res, r). Inr res))"

end
