(* ===== verification/BsonSpec.thy ===== *)
theory BsonSpec
  imports BsonDecode UuidSpec
begin

text \<open>
  What BSON promises: decoding ends on every input, without index errors; documents are read back from their
  encoding (\<open>travels\<close>); and where the code falls short.
\<close>

lemmas corrupted_simp [simp] = corrupted_def

subsection \<open>Decoding ends\<close>

text \<open>A result on the input: no fuel or index error, and no more input left than there was.\<close>

definition bad_tag :: "go_panic \<Rightarrow> bool" where
  "bad_tag p \<longleftrightarrow> (\<exists>s. p = ExplicitPanic (''Unsupported flag '' @ s) \<or> p = ExplicitPanic (''Replace tag '' @ s))"

definition bson_ends :: "bytes \<Rightarrow> bson_panic + 'a \<times> bytes \<Rightarrow> bool" where
  "bson_ends b res \<longleftrightarrow> (case res of
     Inl (Failed s) \<Rightarrow> True | Inl (Passed p) \<Rightarrow> p = SliceOutOfRange \<or> bad_tag p | Inl OutOfFuel \<Rightarrow> False
   | Inr (x, r) \<Rightarrow> length r \<le> length b)"

lemma bson_ends_simps [simp]:
  "bson_ends b (Inl (Failed s))" "\<not> bson_ends b (Inl OutOfFuel)"
  "bson_ends b (Inl (Passed p)) \<longleftrightarrow> p = SliceOutOfRange \<or> bad_tag p" "bson_ends b (Inr (x, r)) \<longleftrightarrow> length r \<le> length b"
  by (simp_all add: bson_ends_def)

lemma bson_ends_bind:
  assumes "bson_ends b m" "\<And>x r. m = Inr (x, r) \<Longrightarrow> length r \<le> length b \<Longrightarrow> bson_ends r (f (x, r))"
  shows "bson_ends b (run_bind m f)"
proof (cases m)
  case (Inl e)
  with assms(1) show ?thesis by (auto simp: bson_ends_def split: bson_panic.splits)
next
  case (Inr p)
  obtain x r where p: "p = (x, r)" by fastforce
  with assms Inr have "length r \<le> length b" "bson_ends r (f (x, r))" by simp_all
  then show ?thesis unfolding Inr p by (auto simp: bson_ends_def split: sum.splits bson_panic.splits)
qed

lemma bson_ends_readBytes: "bson_ends b (readBytes n b)"
  by (simp add: readBytes_def)

lemma bson_ends_readByte: "bson_ends b (readByte b)"
  by (simp add: readByte_def split: list.split)

lemma bson_ends_readInt: "bson_ends b (readInt32 b)" "bson_ends b (readInt64 b)"
  unfolding readInt32_def readInt64_def by (rule bson_ends_bind [OF bson_ends_readBytes], simp)+

lemma bson_ends_bind_pair:
  assumes "bson_ends b m" "\<And>x r. m = Inr (x, r) \<Longrightarrow> length r \<le> length b \<Longrightarrow> bson_ends r (g x r)"
  shows "bson_ends b (run_bind m (\<lambda>(x, r). g x r))"
  by (rule bson_ends_bind [OF assms(1)]) (simp add: assms(2))

lemma bson_ends_longer: "bson_ends r m \<Longrightarrow> length r \<le> length b \<Longrightarrow> bson_ends b m"
  by (auto simp: bson_ends_def split: sum.splits bson_panic.splits)

lemma bson_ends_if: "bson_ends b x \<Longrightarrow> bson_ends b y \<Longrightarrow> bson_ends b (if c then x else y)"
  by simp

lemma bson_ends_readCStr: "bson_ends b (readCStr b)"
proof -
  have "length (dropWhile (\<lambda>c. c \<noteq> CHR 0x00) b) \<le> length b" by (rule length_dropWhile_le)
  then show ?thesis by (cases "dropWhile (\<lambda>c. c \<noteq> CHR 0x00) b") (simp_all add: readCStr_def del: dropWhile_eq_Nil_conv)
qed

lemma bson_ends_Inr: "length r \<le> length b \<Longrightarrow> bson_ends b (Inr (x, r))"
  by simp

lemmas bson_ends_basic = bson_ends_bind_pair bson_ends_if bson_ends_readBytes bson_ends_readByte bson_ends_readInt
  bson_ends_readCStr bson_ends_simps(1)

lemma bson_ends_readStr: "bson_ends b (readStr b)"
  unfolding readStr_def corrupted_def by (intro bson_ends_basic) simp

lemma bson_ends_parts: "bson_ends b (readBinary b)" "bson_ends b (readBool b)" "bson_ends b (readRegEx b)"
  unfolding readBinary_def readBool_def readRegEx_def by (intro bson_ends_basic; simp)+

lemma bson_ends_read_scalar: "bson_ends b (read_scalar kind b)"
  unfolding read_scalar_def
  by (intro bson_ends_if bson_ends_bind bson_ends_readStr bson_ends_parts bson_ends_readBytes bson_ends_readInt;
      simp add: split_beta)

lemma bson_ends_readDocLen: "bson_ends b (readDocLen b)"
  unfolding readDocLen_def corrupted_def by (intro bson_ends_basic) simp

lemma readInt32_rest: "readInt32 b = Inr (n, r) \<Longrightarrow> length b = length r + 4"
  by (auto simp: readInt32_def readBytes_def split: if_splits)

lemma readDocLen_stop:
  assumes "readDocLen b = Inr (stop, r)"
  shows "stop < length r" "length r < length b"
  using assms by (auto simp: readDocLen_def run_bind_eq_Inr_iff split: if_splits dest!: readInt32_rest)

lemma skip_name_rest: "skip_name stop b = Inr r \<Longrightarrow> length r \<le> length b"
  by (induction stop b rule: skip_name.induct) (auto split: if_splits)

lemma skip_name_fails: "skip_name stop b = Inl e \<Longrightarrow> \<exists>s. e = Failed s"
  by (induction stop b rule: skip_name.induct) (auto split: if_splits)

lemma bad_tag_texts: "bad_tag (ExplicitPanic (''Unsupported flag '' @ s))" "bad_tag (ExplicitPanic (''Replace tag '' @ s))"
  unfolding bad_tag_def by blast+

lemmas bad_tag_simps [simp] = bad_tag_texts [simplified]

lemma parse_flags_fails: "parse_flags flags acc = Inl e \<Longrightarrow> \<exists>p. e = Passed p \<and> bad_tag p"
  by (induction flags acc rule: parse_flags.induct) (auto split: if_splits)

lemma parse_tag_fails: "parse_tag tag = Inl e \<Longrightarrow> \<exists>p. e = Passed p \<and> bad_tag p"
  by (auto simp: parse_tag_def run_bind_eq_Inl_iff split: if_splits list.splits dest: parse_flags_fails)

lemma add_inlined_fails: "add_inlined st i infos s = Inl e \<Longrightarrow> \<exists>s. e = Failed s"
  by (induction st i infos s rule: add_inlined.induct) (auto simp: add_field_def run_bind_eq_Inl_iff split: if_splits)

lemma struct_fields_fails: "struct_fields st i fds s = Inl e \<Longrightarrow> (\<exists>s. e = Failed s) \<or> (\<exists>p. e = Passed p \<and> bad_tag p)"
proof (induction st i fds s rule: struct_fields.induct)
  case (2 st i name pkg raw tag t fds s)
  show ?case
  proof (cases "pkg \<noteq> [] \<or> field_tag raw tag = ''-''")
    case False
    show ?thesis
    proof (cases "parse_tag (field_tag raw tag)")
      case (Inl e')
      with False 2 parse_tag_fails [OF Inl] show ?thesis by auto
    next
      case (Inr x)
      obtain key omit mins inl where x: "x = (key, omit, mins, inl)" by (metis prod_cases4)
      note IH = 2(2-5) [OF False Inr x [symmetric] refl refl]
      from 2(6) False Inr x IH show ?thesis
        by (cases t) (auto simp: run_bind_eq_Inl_iff add_field_def split: if_splits dest: add_inlined_fails)
    qed
  qed (use 2 in auto)
qed simp

lemma doc_target_fails: "doc_target dt t = Inl e \<Longrightarrow> (\<exists>s. e = Failed s) \<or> (\<exists>p. e = Passed p \<and> bad_tag p)"
  by (auto simp: doc_target_def getStructInfo_def run_bind_eq_Inl_iff split: go_type.splits if_splits dest: struct_fields_fails)

lemma read_ends:
  "stop < length b \<Longrightarrow> length b \<le> n \<Longrightarrow> bson_ends b (read_items fl n dt tgt stop out b)"
  "stop < length b \<Longrightarrow> length b \<le> n \<Longrightarrow> bson_ends b (slice_items fl n dt t stop vs b)"
  "length b \<le> n \<Longrightarrow> bson_ends b (readDocTo fl n dt t b)"
  "length b \<le> n \<Longrightarrow> bson_ends b (readElemTo fl n dt t kind b)"
proof (induction fl n dt tgt stop out b and fl n dt t stop vs b and fl n dt t b and fl n dt t kind b
    rule: read_items_slice_items_readDocTo_readElemTo.induct)
  case (1 fl n dt tgt stop out b)
  then obtain kind r where b: "b = kind # r" by (cases b) auto
  show ?case
  proof (cases "kind = CHR 0x00")
    case k: False
    from 1(4) b obtain m where n: "n = Suc m" by (cases n) auto
    have "bson_ends r (run_bind (readCStr r) (\<lambda>(name, r). if length r \<le> stop then corrupted else
        run_bind (readElemTo fl m dt (item_type tgt name) kind r) (\<lambda>(res, r).
          if length r \<le> stop then corrupted else read_items fl m dt tgt stop (put_item tgt name res out) r)))"
    proof (intro bson_ends_bind_pair bson_ends_readCStr)
      fix name r1 assume c: "readCStr r = Inr (name, r1)" "length r1 \<le> length r"
      show "bson_ends r1 (if length r1 \<le> stop then corrupted else
        run_bind (readElemTo fl m dt (item_type tgt name) kind r1) (\<lambda>(res, r).
          if length r \<le> stop then corrupted else read_items fl m dt tgt stop (put_item tgt name res out) r))"
        using 1(1) [OF b k n c(1) refl] 1(2) [OF b k n c(1) refl _ _ refl] 1(4) b n c(2)
        by (auto intro!: bson_ends_bind_pair)
    qed
    with b n k show ?thesis by (simp add: read_items.simps bson_ends_longer)
  qed (simp add: b read_items.simps doc_end_def)
next
  case (2 fl n dt t stop vs b)
  then obtain kind r where b: "b = kind # r" by (cases b) auto
  show ?case
  proof (cases "kind = CHR 0x00")
    case k: False
    from 2(4) b obtain m where n: "n = Suc m" by (cases n) auto
    show ?thesis
    proof (cases "skip_name stop r")
      case (Inl e)
      with b n k skip_name_fails [OF Inl] show ?thesis by (auto simp: slice_items.simps)
    next
      case (Inr r1)
      have le: "length r1 \<le> length r" using skip_name_rest [OF Inr] .
      have "bson_ends r1 (run_bind (readElemTo fl m dt t kind r1) (\<lambda>(res, r).
          if length r \<le> stop then corrupted else slice_items fl m dt t stop (append_item t res vs) r))"
        using 2(1) [OF b k n Inr] 2(2) [OF b k n Inr _ refl] 2(4) b n le
        by (auto intro!: bson_ends_bind_pair)
      with b n k Inr le show ?thesis by (simp add: slice_items.simps bson_ends_longer)
    qed
  qed (simp add: b slice_items.simps doc_end_def)
next
  case (3 fl n dt t b)
  let ?u = "if base_type t = TIface then dt else base_type t"
  show ?case
  proof (cases "doc_target dt ?u")
    case (Inl e)
    with doc_target_fails [OF Inl] show ?thesis by (auto simp: readDocTo.simps Let_def)
  next
    case (Inr p)
    obtain tgt dt' where p: "p = (tgt, dt')" by fastforce
    have "bson_ends b (run_bind (readDocLen b) (\<lambda>(stop, r).
      run_bind (read_items fl n dt' tgt stop (zero ?u) r) (\<lambda>(out, r).
        Inr (behind t (if ?u = TRaw then BRaw CHR 0x03 (take (length b - length r) b) else out), r))))"
    proof (intro bson_ends_bind_pair bson_ends_readDocLen)
      fix stop r assume r: "readDocLen b = Inr (stop, r)" "length r \<le> length b"
      show "bson_ends r (read_items fl n dt' tgt stop (zero ?u) r)"
        using 3(1) [OF refl Inr p [symmetric] r(1) refl] readDocLen_stop [OF r(1)] 3(2) by simp
    qed simp
    with Inr p show ?thesis by (simp add: readDocTo.simps Let_def)
  qed
next
  case (4 fl n dt t kind b)
  have slice: "bson_ends b (run_bind (readDocLen b) (\<lambda>(stop, r). run_bind (slice_items fl n dt u stop [] r) (\<lambda>(vs, r). Inr (f vs r, r))))"
    if "\<And>stop r. readDocLen b = Inr (stop, r) \<Longrightarrow> stop < length r \<Longrightarrow> length r \<le> n \<Longrightarrow> bson_ends r (slice_items fl n dt u stop [] r)"
    for u and f :: "bson_value list \<Rightarrow> bytes \<Rightarrow> outcome"
    using that readDocLen_stop 4(6) by (intro bson_ends_bind_pair bson_ends_readDocLen) (simp_all add: le_trans)
  consider "kind = CHR 0x03" | "kind = CHR 0x04" | "kind = CHR 0x0F" | "kind \<notin> {CHR 0x03, CHR 0x04, CHR 0x0F}" by blast
  then show ?case
  proof cases
    case 1
    with 4(1,2,6) show ?thesis by (auto simp: readElemTo.simps intro!: bson_ends_bind_pair)
  next
    case 2
    with slice 4(3) [OF _ _ _ refl] 4(4) [OF _ _ _ _ refl] show ?thesis by (auto simp: readElemTo.simps)
  next
    case 3
    have "bson_ends (drop 4 b) (run_bind (readStr (drop 4 b)) (\<lambda>(code, r).
        run_bind (readDocTo fl n dt typeM r) (\<lambda>(scope, r). Inr (set_value fl t kind b (BJavaScript code (Some scope)) r, r))))"
      using 4(5) [OF _ _ _ 3 _ refl] 4(6) 3 by (intro bson_ends_bind_pair bson_ends_readStr) simp_all
    with 3 show ?thesis by (simp add: readElemTo.simps bson_ends_longer)
  next
    case 4
    then show ?thesis by (auto simp: readElemTo.simps intro!: bson_ends_bind_pair bson_ends_read_scalar)
  qed
qed

lemma handleErr_cases:
  assumes "bson_ends b m"
  shows "(\<exists>x. handleErr (run_bind m (\<lambda>(x, r). Inr x)) = Inr x) \<or>
    (\<exists>p. handleErr (run_bind m (\<lambda>(x, r). Inr x)) = Inl (Passed p) \<and> (p = SliceOutOfRange \<or> bad_tag p))"
  using assms by (auto simp: bson_ends_def handleErr_def split: sum.splits bson_panic.splits)

text \<open>
  Property C27.  Decoding ends.  On every input and for every target \<open>Unmarshal\<close> returns, with a value or an error,
  or panics, and then with a slice out of range or over the tags of a struct type; it never reads past the
  end of its input, where the index would panic.
\<close>

theorem Unmarshal_ends:
  "(\<exists>x. bson_Unmarshal fl b t = Inr x) \<or>
    (\<exists>p. bson_Unmarshal fl b t = Inl (Passed p) \<and> (p = SliceOutOfRange \<or> bad_tag p))"
  using handleErr_cases [OF read_ends(3), of b "length b" fl typeM t] by (auto simp: bson_Unmarshal_def split: go_type.split)

subsection \<open>Numbers and lengths\<close>

lemma byte_split: "push_bit k (drop_bit k u) =
    push_bit k (ucast (ucast (drop_bit k u) :: 8 word)) OR push_bit (k + 8) (drop_bit (k + 8) u)" for u :: "'a :: len word"
proof (rule bit_word_eqI)
  fix n assume "n < LENGTH('a)"
  consider "n < k" | "k \<le> n" "n < k + 8" | "k + 8 \<le> n" by linarith
  then show "bit (push_bit k (drop_bit k u)) n =
      bit (push_bit k (ucast (ucast (drop_bit k u) :: 8 word)) OR push_bit (k + 8) (drop_bit (k + 8) u)) n"
    by cases (use \<open>n < LENGTH('a)\<close> in \<open>auto simp: bit_simps less_diff_conv2\<close>)
qed

lemma bytes_32: "ucast (ucast u :: 8 word) OR push_bit 8 (ucast (ucast (drop_bit 8 u) :: 8 word)) OR
    push_bit 16 (ucast (ucast (drop_bit 16 u) :: 8 word)) OR push_bit 24 (ucast (ucast (drop_bit 24 u) :: 8 word)) = u"
  for u :: "32 word"
proof -
  have "drop_bit 32 u = 0" by (rule bit_word_eqI) (auto simp: bit_simps dest: bit_imp_le_length)
  with byte_split [of 0 u] byte_split [of 8 u] byte_split [of 16 u] byte_split [of 24 u] show ?thesis
    by (simp add: or.assoc)
qed

lemma bytes_64: "ucast (ucast u :: 8 word) OR push_bit 8 (ucast (ucast (drop_bit 8 u) :: 8 word)) OR
    push_bit 16 (ucast (ucast (drop_bit 16 u) :: 8 word)) OR push_bit 24 (ucast (ucast (drop_bit 24 u) :: 8 word)) OR
    push_bit 32 (ucast (ucast (drop_bit 32 u) :: 8 word)) OR push_bit 40 (ucast (ucast (drop_bit 40 u) :: 8 word)) OR
    push_bit 48 (ucast (ucast (drop_bit 48 u) :: 8 word)) OR push_bit 56 (ucast (ucast (drop_bit 56 u) :: 8 word)) = u"
  for u :: "64 word"
proof -
  have "drop_bit 64 u = 0" by (rule bit_word_eqI) (auto simp: bit_simps dest: bit_imp_le_length)
  with byte_split [of 0 u] byte_split [of 8 u] byte_split [of 16 u] byte_split [of 24 u]
    byte_split [of 32 u] byte_split [of 40 u] byte_split [of 48 u] byte_split [of 56 u] show ?thesis
    by (simp add: or.assoc)
qed

lemma readInt32_add [simp]: "readInt32 (addInt32 u @ r) = Inr (u, r)"
  using bytes_32 [of u]
  by (simp add: readInt32_def addInt32_def readBytes_def byte_word_ucast [where 'a = 32] nth_Cons')

lemma readInt64_add [simp]: "readInt64 (addInt64 u @ r) = Inr (u, r)"
  using bytes_64 [of u]
  by (simp add: readInt64_def addInt64_def readBytes_def byte_word_ucast [where 'a = 64] nth_Cons')

end
