(* ===== verification/BsonTravel.thy ===== *)
theory BsonTravel
  imports BsonSpec
begin

text \<open>
  Documents are read back from their encoding.
\<close>

subsection \<open>Basic types\<close>

lemma length_addInt [simp]: "length (addInt32 u) = 4" "length (addInt64 w) = 8"
  by (simp_all add: addInt32_def addInt64_def)

lemma sint_small: "k < 2147483648 \<Longrightarrow> sint (of_nat k :: 32 word) = int k"
  by (simp add: signed_of_nat signed_take_bit_int_eq_self)

lemma readBytes_add: "length s < 2147483648 \<Longrightarrow> n = of_nat (length s) \<Longrightarrow> readBytes n (s @ r) = Inr (s, r)"
  by (simp add: readBytes_def sint_small)

lemma readCStr_add [simp]: "CHR 0x00 \<notin> set s \<Longrightarrow> readCStr (s @ CHR 0x00 # r) = Inr (s, r)"
  by (auto simp: readCStr_def dropWhile_append takeWhile_append split: list.split)

lemma readStr_add: "length s + 1 < 2147483648 \<Longrightarrow> readStr (addStr s @ r) = Inr (s, r)"
  by (simp add: readStr_def addStr_def addCStr_def readBytes_add readByte_def)

lemma readBinary_add:
  "length d + 4 < 2147483648 \<Longrightarrow> readBinary (addBinary k d @ r) = Inr ((k, d), r)"
  using readBytes_add [of "addInt32 (of_nat (length d)) @ d" _ r] readBytes_add [of d _ r]
  by (simp add: readBinary_def addBinary_def readByte_def add.commute [of 4])

lemma readDocLen_with:
  assumes "length b + 5 < 2147483648"
  shows "readDocLen (with_length (b @ [CHR 0x00]) @ r) = Inr (length r, b @ CHR 0x00 # r)"
proof -
  let ?n = "of_nat (length b + 5) :: 32 word"
  from assms have n: "sint ?n = int (length b + 5)" by (intro sint_small) simp
  then have n': "nat (sint ?n) = length b + 5" by simp
  have "(addInt32 ?n @ b @ CHR 0x00 # r) ! (length b + 4) = CHR 0x00" by (simp add: nth_append)
  moreover have "with_length (b @ [CHR 0x00]) @ r = addInt32 ?n @ b @ CHR 0x00 # r"
    by (simp add: with_length_def add.commute)
  ultimately show ?thesis
    unfolding readDocLen_def by (simp add: n n' add.commute [of 4] del: of_nat_add)
qed

lemma length_addStr: "length (addStr s) = length s + 5"
  by (simp add: addStr_def addCStr_def)

lemma length_addBinary: "length (addBinary k d) = length d + (if k = CHR 0x02 then 9 else 5)"
  by (simp add: addBinary_def)

subsection \<open>Loops over encoded elements\<close>

text \<open>
  An encoded element that is read back into a target: the name is free, and enough fuel is the length of
  the input.
\<close>

fun nil_value :: "bson_value \<Rightarrow> bool" where
  "nil_value BNil = True"
| "nil_value (BPtr v) = nil_value v"
| "nil_value v = False"

definition decodes :: "go_type \<Rightarrow> go_type \<Rightarrow> bool \<Rightarrow> bson_value \<Rightarrow> bson_value \<Rightarrow> bool" where
  "decodes dt t m v w \<longleftrightarrow> (\<exists>kind p. kind \<noteq> CHR 0x00 \<and> (kind = CHR 0x0A \<longrightarrow> nil_value v) \<and> (\<forall>name. addElem name m v = Inr (addElemName kind name @ p)) \<and>
     (length p < 2147483648 \<longrightarrow> (\<forall>fl n r. length (p @ r) \<le> n \<longrightarrow> readElemTo fl n dt t kind (p @ r) = Inr (Stored w, r))))"

lemma decodesE:
  assumes "decodes dt t m v w"
  obtains kind p where "kind \<noteq> CHR 0x00" "kind = CHR 0x0A \<Longrightarrow> nil_value v" "\<And>name. addElem name m v = Inr (addElemName kind name @ p)"
    "\<And>fl n r. length p < 2147483648 \<Longrightarrow> length (p @ r) \<le> n \<Longrightarrow> readElemTo fl n dt t kind (p @ r) = Inr (Stored w, r)"
proof -
  from assms obtain kind p where k: "kind \<noteq> CHR 0x00" "kind = CHR 0x0A \<longrightarrow> nil_value v" "\<forall>name. addElem name m v = Inr (addElemName kind name @ p)"
    and r: "length p < 2147483648 \<longrightarrow> (\<forall>fl n r. length (p @ r) \<le> n \<longrightarrow> readElemTo fl n dt t kind (p @ r) = Inr (Stored w, r))"
    unfolding decodes_def by (elim exE conjE)
  show thesis
  proof (rule that)
    show "kind \<noteq> CHR 0x00" "kind = CHR 0x0A \<Longrightarrow> nil_value v" "\<And>name. addElem name m v = Inr (addElemName kind name @ p)"
      using k by simp_all
    show "\<And>fl n r. length p < 2147483648 \<Longrightarrow> length (p @ r) \<le> n \<Longrightarrow> readElemTo fl n dt t kind (p @ r) = Inr (Stored w, r)"
      using r by simp
  qed
qed

abbreviation enc_elem :: "bson_panic + elem \<Rightarrow> bson_panic + bytes" where
  "enc_elem e \<equiv> (case e of Inl p \<Rightarrow> Inl p | Inr (k, m, x) \<Rightarrow> addElem k m x)"

lemma read_items_elems:
  assumes "list_all2 (\<lambda>(k, m, x) w. CHR 0x00 \<notin> set k \<and> decodes dt (item_type tgt k) m x w) es ws"
  shows "\<exists>b. concat_runs (map (\<lambda>e. enc_elem (Inr e)) es) = Inr b \<and>
    (length b < 2147483648 \<longrightarrow> (\<forall>fl n out r. length (b @ CHR 0x00 # r) \<le> n \<longrightarrow>
      read_items fl n dt tgt (length r) out (b @ CHR 0x00 # r) =
        Inr (fold (\<lambda>((k, m, x), w). put_item tgt k (Stored w)) (zip es ws) out, r)))"
  using assms
proof (induction rule: list_all2_induct)
  case Nil
  then show ?case by (simp add: read_items.simps doc_end_def)
next
  case (Cons e es w ws)
  obtain k m x where e: "e = (k, m, x)" by (metis prod_cases3)
  from Cons(1) e have name: "CHR 0x00 \<notin> set k" and "decodes dt (item_type tgt k) m x w" by simp_all
  from this(2) obtain kind p where kind: "kind \<noteq> CHR 0x00" and enc: "\<And>name. addElem name m x = Inr (addElemName kind name @ p)"
    and p: "\<And>fl n r. length p < 2147483648 \<Longrightarrow> length (p @ r) \<le> n \<Longrightarrow> readElemTo fl n dt (item_type tgt k) kind (p @ r) = Inr (Stored w, r)"
    by (rule decodesE) blast
  note k = name kind enc
  from Cons(3) obtain b where b: "concat_runs (map (\<lambda>e. enc_elem (Inr e)) es) = Inr b"
    and rd: "length b < 2147483648 \<Longrightarrow> length (b @ CHR 0x00 # r) \<le> n \<Longrightarrow>
      read_items fl n dt tgt (length r) out (b @ CHR 0x00 # r) =
        Inr (fold (\<lambda>((k, m, x), w). put_item tgt k (Stored w)) (zip es ws) out, r)" for fl n out r
    by blast
  show ?case
  proof (intro exI conjI impI allI)
    show "concat_runs (map (\<lambda>e. enc_elem (Inr e)) (e # es)) = Inr (addElemName kind k @ p @ b)" using b by (simp add: e k)
    fix fl n out r
    assume len: "length (addElemName kind k @ p @ b) < 2147483648" and n: "length ((addElemName kind k @ p @ b) @ CHR 0x00 # r) \<le> n"
    from n obtain m' where m': "n = Suc m'" by (cases n) (auto simp: addElemName_def)
    have "readElemTo fl m' dt (item_type tgt k) kind (p @ b @ CHR 0x00 # r) = Inr (Stored w, b @ CHR 0x00 # r)"
      using len n m' by (intro p) (auto simp: addElemName_def)
    moreover have "read_items fl m' dt tgt (length r) (put_item tgt k (Stored w) out) (b @ CHR 0x00 # r) =
        Inr (fold (\<lambda>((k, m, x), w). put_item tgt k (Stored w)) (zip es ws) (put_item tgt k (Stored w) out), r)"
      using len n m' by (intro rd) (auto simp: addElemName_def)
    ultimately show "read_items fl n dt tgt (length r) out ((addElemName kind k @ p @ b) @ CHR 0x00 # r) =
        Inr (fold (\<lambda>((k, m, x), w). put_item tgt k (Stored w)) (zip (e # es) (w # ws)) out, r)"
      using k(1,2) unfolding m' e by (subst read_items.simps) (simp add: addElemName_def)
  qed
qed

lemma skip_name_add: "CHR 0x00 \<notin> set s \<Longrightarrow> stop < length r \<Longrightarrow> skip_name stop (s @ CHR 0x00 # r) = Inr r"
  by (induction s) auto

lemma slice_items_elems:
  assumes "list_all2 (\<lambda>(k, m, x) w. CHR 0x00 \<notin> set k \<and> decodes dt t m x w) es ws"
  shows "\<exists>b. concat_runs (map (\<lambda>e. enc_elem (Inr e)) es) = Inr b \<and>
    (length b < 2147483648 \<longrightarrow> (\<forall>fl n vs r. length (b @ CHR 0x00 # r) \<le> n \<longrightarrow>
      slice_items fl n dt t (length r) vs (b @ CHR 0x00 # r) = Inr (vs @ ws, r)))"
  using assms
proof (induction rule: list_all2_induct)
  case Nil
  then show ?case by (simp add: slice_items.simps doc_end_def)
next
  case (Cons e es w ws)
  obtain k m x where e: "e = (k, m, x)" by (metis prod_cases3)
  from Cons(1) e have name: "CHR 0x00 \<notin> set k" and "decodes dt t m x w" by simp_all
  from this(2) obtain kind p where kind: "kind \<noteq> CHR 0x00" and enc: "\<And>name. addElem name m x = Inr (addElemName kind name @ p)"
    and p: "\<And>fl n r. length p < 2147483648 \<Longrightarrow> length (p @ r) \<le> n \<Longrightarrow> readElemTo fl n dt t kind (p @ r) = Inr (Stored w, r)"
    by (rule decodesE) blast
  note k = name kind enc
  from Cons(3) obtain b where b: "concat_runs (map (\<lambda>e. enc_elem (Inr e)) es) = Inr b"
    and rd: "length b < 2147483648 \<Longrightarrow> length (b @ CHR 0x00 # r) \<le> n \<Longrightarrow>
      slice_items fl n dt t (length r) vs (b @ CHR 0x00 # r) = Inr (vs @ ws, r)" for fl n vs r
    by blast
  show ?case
  proof (intro exI conjI impI allI)
    show "concat_runs (map (\<lambda>e. enc_elem (Inr e)) (e # es)) = Inr (addElemName kind k @ p @ b)" using b by (simp add: e k)
    fix fl n vs r
    assume len: "length (addElemName kind k @ p @ b) < 2147483648" and n: "length ((addElemName kind k @ p @ b) @ CHR 0x00 # r) \<le> n"
    from n obtain m' where m': "n = Suc m'" by (cases n) (auto simp: addElemName_def)
    have "readElemTo fl m' dt t kind (p @ b @ CHR 0x00 # r) = Inr (Stored w, b @ CHR 0x00 # r)"
      using len n m' by (intro p) (auto simp: addElemName_def)
    moreover have "slice_items fl m' dt t (length r) (vs @ [w]) (b @ CHR 0x00 # r) = Inr (vs @ w # ws, r)"
      using rd [of r m' fl "vs @ [w]"] len n m' by (auto simp: addElemName_def)
    moreover have "skip_name (length r) (k @ CHR 0x00 # p @ b @ CHR 0x00 # r) = Inr (p @ b @ CHR 0x00 # r)"
      by (rule skip_name_add [OF k(1)]) simp
    ultimately show "slice_items fl n dt t (length r) vs ((addElemName kind k @ p @ b) @ CHR 0x00 # r) = Inr (vs @ w # ws, r)"
      using k(1,2) unfolding m' by (subst slice_items.simps) (simp add: addElemName_def append_item_def)
  qed
qed

lemma decodesI:
  assumes "kind \<noteq> CHR 0x00" "kind = CHR 0x0A \<Longrightarrow> nil_value v" "\<And>name. addElem name m v = Inr (addElemName kind name @ p)"
    "\<And>fl n r. length p < 2147483648 \<Longrightarrow> length (p @ r) \<le> n \<Longrightarrow> readElemTo fl n dt t kind (p @ r) = Inr (Stored w, r)"
  shows "decodes dt t m v w"
  unfolding decodes_def using assms by (intro exI [of _ kind] exI [of _ p]) simp

subsection \<open>Pointers\<close>

lemma decodes_through: "decodes dt t m v w \<Longrightarrow> decodes dt t m (BPtr v) w"
  by (erule decodesE, rule decodesI) (auto simp: addElem.simps [of _ _ "BPtr v"])

lemma read_time_some: "read_time i \<noteq> BNil"
  by (simp add: read_time_def time_Unix_def Let_def)

lemma read_scalar_nil: "read_scalar kind b = Inr (BNil, r) \<Longrightarrow> kind = CHR 0x0A"
  by (rule ccontr)
    (auto simp: read_scalar_def readRegEx_def run_bind_eq_Inr_iff split_beta prod_eq_iff read_time_some split: if_splits)

lemma run_bind_assoc: "run_bind (run_bind m f) g = run_bind m (\<lambda>x. run_bind (f x) g)"
  by (cases m) simp_all

lemma readDocTo_ptr: "readDocTo fl n dt (TPtr t) b = run_bind (readDocTo fl n dt t b) (\<lambda>(v, r). Inr (BPtr v, r))"
  by (simp add: readDocTo.simps run_bind_assoc split_def Let_def split del: if_split cong: if_cong)

lemma readElemTo_ptr:
  assumes "readElemTo fl n dt t kind b = Inr (Stored w, r)" "kind \<noteq> CHR 0x0A" "t \<noteq> TRaw"
  shows "readElemTo fl n dt (TPtr t) kind b = Inr (Stored (BPtr w), r)"
proof -
  have set: "set_value fl (TPtr t) kind b v r = Stored (BPtr w)" if "set_value fl t kind b v r = Stored w" "v \<noteq> BNil" for v
    using that assms(3) by (auto simp: set_value_def split: option.splits)
  consider "kind = CHR 0x03" | "kind = CHR 0x04" | "kind = CHR 0x0F" | "kind \<notin> {CHR 0x03, CHR 0x04, CHR 0x0F}" by blast
  then show ?thesis
  proof cases
    case 1
    with assms(1) have "readDocTo fl n dt t b = Inr (w, r)"
      by (auto simp: readElemTo.simps run_bind_eq_Inr_iff split: if_splits)
    then have "readDocTo fl n dt (TPtr t) b = Inr (BPtr w, r)"
      by (simp add: readDocTo_ptr)
    with 1 show ?thesis by (simp add: readElemTo.simps takes_document_def)
  next
    case 2
    with assms(1) set show ?thesis by (fastforce simp: readElemTo.simps run_bind_eq_Inr_iff split: if_splits)
  next
    case 3
    with assms(1) set show ?thesis by (fastforce simp: readElemTo.simps run_bind_eq_Inr_iff)
  next
    case 4
    with assms(1) obtain v where v: "read_scalar kind b = Inr (v, r)" "set_value fl t kind b v r = Stored w"
      by (auto simp: readElemTo.simps run_bind_eq_Inr_iff)
    with read_scalar_nil assms(2) have "v \<noteq> BNil" by auto
    with 4 v set show ?thesis by (simp add: readElemTo.simps)
  qed
qed

lemma decodes_ptr:
  assumes "decodes dt t m v w" "\<not> nil_value v" "t \<noteq> TRaw"
  shows "decodes dt (TPtr t) m (BPtr v) (BPtr w)"
  using assms(1)
proof (rule decodesE)
  fix kind p
  assume k: "kind \<noteq> CHR 0x00" "kind = CHR 0x0A \<Longrightarrow> nil_value v" "\<And>name. addElem name m v = Inr (addElemName kind name @ p)"
    and r: "\<And>fl n r. length p < 2147483648 \<Longrightarrow> length (p @ r) \<le> n \<Longrightarrow> readElemTo fl n dt t kind (p @ r) = Inr (Stored w, r)"
  show ?thesis
  proof (rule decodesI [of kind _ _ p])
    show "readElemTo fl n dt (TPtr t) kind (p @ r) = Inr (Stored (BPtr w), r)"
      if "length p < 2147483648" "length (p @ r) \<le> n" for fl n r
      using k(2) assms(2) by (intro readElemTo_ptr r that assms(3)) auto
  qed (use k assms(2) in \<open>auto simp: addElem.simps [of _ _ "BPtr v"]\<close>)
qed

subsection \<open>Scalars\<close>

text \<open>What the decoder makes of the encoding of a value that is neither a document nor an array.\<close>

definition fits_int32 :: "64 word \<Rightarrow> bool" where
  "fits_int32 i \<longleftrightarrow> - 2147483648 \<le> sint i \<and> sint i \<le> 2147483647"

fun scalar_back :: "bool \<Rightarrow> bson_value \<Rightarrow> bson_value option" where
  "scalar_back m (BFloat w) = Some (BFloat w)"
| "scalar_back m (BString s) = Some (BString s)"
| "scalar_back m (BSymbol s) = Some (BSymbol s)"
| "scalar_back m (BObjectId s) = (if length s = 12 then Some (BObjectId s) else None)"
| "scalar_back m (BInt k i) = Some (if (m \<or> k \<noteq> KInt64) \<and> fits_int32 i then BInt KInt i else BInt KInt64 i)"
| "scalar_back m (BUint k u) =
     (if sint u < 0 then None
      else Some (if uint u \<le> 2147483647 \<and> (m \<or> k \<notin> {KUint64, KUintptr}) then BInt KInt u else BInt KInt64 u))"
| "scalar_back m (BMongoTimestamp i) = Some (BMongoTimestamp i)"
| "scalar_back m BMinKey = Some BMinKey"
| "scalar_back m BMaxKey = Some BMaxKey"
| "scalar_back m (BBool b) = Some (BBool b)"
| "scalar_back m BUndefined = Some BUndefined"
| "scalar_back m (BTime s n) =
     (if \<bar>sint s\<bar> < 9000000000000000 \<and> n < 1000000000 then Some (BTime s (n div 1000000 * 1000000)) else None)"
| "scalar_back m (BBytes b) = Some (BBytes b)"
| "scalar_back m (BBinary k d) = Some (if k = CHR 0x00 \<or> k = CHR 0x02 then BBytes d else BBinary k d)"
| "scalar_back m (BRegEx p opts) = (if CHR 0x00 \<in> set (p @ opts) then None else Some (BRegEx p opts))"
| "scalar_back m (BJavaScript c None) = Some (BJavaScript c None)"
| "scalar_back m v = None"

lemma scalar_back_some: "scalar_back m v = Some x \<Longrightarrow> x \<noteq> BNil \<and> \<not> nil_value v"
  by (induction m v rule: scalar_back.induct) (auto split: if_splits)

lemma sint_range: "- 9223372036854775808 \<le> sint (w :: 64 word)" "sint w < 9223372036854775808"
  using sint_greater_eq [of w] sint_less [of w] by simp_all

lemma signed_thousands:
  fixes a q :: int
  assumes "0 \<le> q" "q < 1000"
  shows "(a * 1000 + q) sdiv 1000 = (if 0 \<le> a \<or> q = 0 then a else a + 1)"
    "(a * 1000 + q) smod 1000 = (if 0 \<le> a \<or> q = 0 then q else q - 1000)"
proof -
  have pos: "I sdiv 1000 = I div 1000 \<and> I smod 1000 = I mod 1000" if "0 \<le> I" for I :: int
    using that by (cases "I = 0") (simp_all add: signed_divide_int_def signed_modulo_int_def)
  have neg: "I sdiv 1000 = - (- I div 1000) \<and> I smod 1000 = - (- I mod 1000)" if "I < 0" for I :: int
    using that by (simp add: signed_divide_int_def signed_modulo_int_def)
  have "(a * 1000 + q) sdiv 1000 = (if 0 \<le> a \<or> q = 0 then a else a + 1) \<and>
      (a * 1000 + q) smod 1000 = (if 0 \<le> a \<or> q = 0 then q else q - 1000)"
  proof (cases "0 \<le> a")
    case True
    with assms have "0 \<le> a * 1000 + q" by simp
    moreover have "(a * 1000 + q) div 1000 = a" "(a * 1000 + q) mod 1000 = q" using assms by simp_all
    ultimately show ?thesis using pos [of "a * 1000 + q"] True by (simp only: simp_thms if_True)
  next
    case False
    with assms have "a * 1000 + q < 0" by simp
    note n = neg [OF this]
    show ?thesis
    proof (cases "q = 0")
      case True
      with n False show ?thesis by simp
    next
      case q: False
      have e: "- (a * 1000 + q) = (1000 - q) + (- a - 1) * 1000" by simp
      have d: "(1000 - q) div 1000 = 0" by (rule div_pos_pos_trivial) (use assms q in auto)
      have "- (a * 1000 + q) div 1000 = - a - 1 + (1000 - q) div 1000" unfolding e by (rule div_mult_self1) simp
      moreover have "- (a * 1000 + q) mod 1000 = 1000 - q"
        unfolding e mod_mult_self1 by (rule mod_pos_pos_trivial) (use assms q in auto)
      ultimately have "(a * 1000 + q) sdiv 1000 = - (- a - 1) \<and> (a * 1000 + q) smod 1000 = - (1000 - q)"
        using n by (simp only: d add_0_right)
      with False q show ?thesis by simp
    qed
  qed
  then show "(a * 1000 + q) sdiv 1000 = (if 0 \<le> a \<or> q = 0 then a else a + 1)"
    "(a * 1000 + q) smod 1000 = (if 0 \<le> a \<or> q = 0 then q else q - 1000)" by blast+
qed

lemma time_back:
  assumes "\<bar>sint s\<bar> < 9000000000000000" "n < 1000000000"
  shows "read_time (s * 1000 + ucast (n div 1000000 :: 32 word)) = BTime s (n div 1000000 * 1000000)"
proof -
  let ?q = "uint (n div 1000000)" and ?i = "s * 1000 + ucast (n div 1000000 :: 32 word)"
  have n: "uint n < 1000000000" using assms(2) by (simp add: word_less_def)
  then have q: "?q = uint n div 1000000" "0 \<le> ?q" "?q < 1000" by (simp_all add: uint_div pos_imp_zdiv_nonneg_iff)
  have s: "- 9000000000000000 < sint s" "sint s < 9000000000000000" using assms(1) by auto
  have i: "sint ?i = sint s * 1000 + ?q"
  proof -
    have "?i = word_of_int (sint s * 1000 + ?q)" by simp
    then have "sint ?i = signed_take_bit 63 (sint s * 1000 + ?q)" by (simp only: sint_sbintrunc') simp
    also have "\<dots> = sint s * 1000 + ?q" using s q by (intro signed_take_bit_int_eq_self) simp_all
    finally show ?thesis .
  qed
  have "word_of_int (?q * 1000000) = (of_int ?q * 1000000 :: 32 word)" by simp
  also have "\<dots> = n div 1000000 * 1000000" by (simp only: of_int_uint ucast_id id_apply)
  finally have nsec: "word_of_int (?q * 1000000) = n div 1000000 * 1000000" .
  have div: "(?q * 1000000 - 1000000000) sdiv 1000000000 = 0" if "0 < ?q"
    using q that by (auto simp: signed_divide_int_def sgn_if abs_if)
  show ?thesis
  proof (cases "?i = - 62135596800000")
    case True
    then have "sint s * 1000 + ?q = sint (- 62135596800000 :: 64 word)" using i by simp
    then have e: "sint s * 1000 + ?q = - 62135596800000" by simp
    have "sint s = - 62135596800" by (rule antisym) (use e q(2,3) in linarith)+
    with e have "?q = 0" by simp
    then have "n div 1000000 = 0" by (simp only: uint_0_iff)
    have "s = word_of_int (sint s)" by (simp only: of_int_sint scast_id id_apply)
    also have "\<dots> = - 62135596800"
      unfolding \<open>sint s = - 62135596800\<close> by (simp only: of_int_minus of_int_numeral)
    finally have "s = - 62135596800" .
    with True \<open>n div 1000000 = 0\<close> show ?thesis by (simp add: read_time_def)
  next
    case False
    then have "read_time ?i = time_Unix (sint ?i sdiv 1000) (sint ?i smod 1000 * 1000000)" by (simp add: read_time_def)
    also have "\<dots> = BTime s (n div 1000000 * 1000000)"
      unfolding i signed_thousands [OF q(2,3)] using q nsec div
      by (auto simp: time_Unix_def Let_def algebra_simps)
    finally show ?thesis .
  qed
qed

lemma int32_back: "fits_int32 i \<Longrightarrow> scast (ucast i :: 32 word) = i"
proof -
  assume "fits_int32 i"
  then have "signed_take_bit 31 (sint i) = sint i" by (intro signed_take_bit_int_eq_self) (simp_all add: fits_int32_def)
  moreover have "ucast (word_of_int (sint i) :: 64 word) = (word_of_int (sint i) :: 32 word)"
    by (rule ucast_down_wi) (simp add: is_down)
  then have "(ucast i :: 32 word) = word_of_int (sint i)" by (simp only: of_int_sint scast_id id_apply)
  ultimately have "sint (ucast i :: 32 word) = sint i" by (simp only: sint_sbintrunc') simp
  then show ?thesis by (simp add: scast_eq)
qed

lemma uint32_back: "uint u \<le> 2147483647 \<Longrightarrow> scast (ucast u :: 32 word) = (u :: 64 word)"
proof -
  assume "uint u \<le> 2147483647"
  moreover have "- (2 ^ 63) \<le> uint u" by (rule order.trans [of _ 0]) simp_all
  ultimately have "sint u = uint u" unfolding sint_uint by (intro signed_take_bit_int_eq_self) simp_all
  moreover have "- 2147483648 \<le> uint u" by (rule order.trans [of _ 0]) simp_all
  ultimately have "fits_int32 u" using \<open>uint u \<le> 2147483647\<close> by (simp only: fits_int32_def)
  then show ?thesis by (rule int32_back)
qed

lemma scalar_encoded:
  assumes "scalar_back m v = Some x"
  obtains kind p where "kind \<notin> {CHR 0x00, CHR 0x03, CHR 0x04, CHR 0x0A, CHR 0x0F}"
    "\<And>name. addElem name m v = Inr (addElemName kind name @ p)"
    "\<And>r. length p < 2147483648 \<Longrightarrow> read_scalar kind (p @ r) = Inr (x, r)"
proof (cases v)
  case (BFloat w)
  with assms have x: "x = BFloat w" by (simp split: if_splits)
  from assms BFloat show thesis unfolding x
    by (intro that [of "CHR 0x01" "addInt64 w"]) (simp_all add: x addElem.simps read_scalar_def)
next
  case (BString s)
  with assms have x: "x = BString s" by (simp split: if_splits)
  from assms BString show thesis unfolding x
    by (intro that [of "CHR 0x02" "addStr s"]) (simp_all add: x addElem.simps read_scalar_def readStr_add length_addStr)
next
  case (BSymbol s)
  with assms have x: "x = BSymbol s" by (simp split: if_splits)
  from assms BSymbol show thesis unfolding x
    by (intro that [of "CHR 0x0E" "addStr s"]) (simp_all add: x addElem.simps read_scalar_def readStr_add length_addStr)
next
  case (BObjectId s)
  with assms have x: "x = BObjectId s" by (simp split: if_splits)
  from assms BObjectId show thesis unfolding x
    by (intro that [of "CHR 0x07" s]) (auto simp: x addElem.simps read_scalar_def readBytes_add split: if_splits)
next
  case (BInt k i)
  show thesis
  proof (cases "(m \<or> k \<noteq> KInt64) \<and> fits_int32 i")
    case True
    with assms BInt show thesis
      by (intro that [of "CHR 0x10" "addInt32 (ucast i)"])
        (simp_all add: addElem.simps add_int_def read_scalar_def int32_back, simp_all add: fits_int32_def)
  next
    case False
    with assms BInt show thesis
      by (intro that [of "CHR 0x12" "addInt64 i"])
        (auto simp: addElem.simps add_int_def read_scalar_def fits_int32_def)
  qed
next
  case (BUint k u)
  show thesis
  proof (cases "uint u \<le> 2147483647 \<and> (m \<or> k \<notin> {KUint64, KUintptr})")
    case True
    with assms BUint show thesis
      by (intro that [of "CHR 0x10" "addInt32 (ucast u)"])
        (auto simp: addElem.simps add_uint_def read_scalar_def uint32_back split: if_splits)
  next
    case False
    with assms BUint show thesis
      by (intro that [of "CHR 0x12" "addInt64 u"])
        (auto simp: addElem.simps add_uint_def read_scalar_def split: if_splits)
  qed
next
  case (BMongoTimestamp i)
  with assms have x: "x = BMongoTimestamp i" by (simp split: if_splits)
  from assms BMongoTimestamp show thesis unfolding x
    by (intro that [of "CHR 0x11" "addInt64 i"]) (simp_all add: x addElem.simps read_scalar_def)
next
  case BMinKey
  with assms have x: "x = BMinKey" by (simp split: if_splits)
  from assms BMinKey show thesis unfolding x
    by (intro that [of "CHR 0xFF" "[]"]) (simp_all add: x addElem.simps read_scalar_def)
next
  case BMaxKey
  with assms have x: "x = BMaxKey" by (simp split: if_splits)
  from assms BMaxKey show thesis unfolding x
    by (intro that [of "CHR 0x7F" "[]"]) (simp_all add: x addElem.simps read_scalar_def)
next
  case (BBool b)
  with assms have x: "x = BBool b" by (simp split: if_splits)
  from assms BBool show thesis unfolding x
    by (intro that [of "CHR 0x08" "[if b then CHR 0x01 else CHR 0x00]"])
      (simp_all add: x addElem.simps read_scalar_def readBool_def readByte_def)
next
  case BUndefined
  with assms have x: "x = BUndefined" by (simp split: if_splits)
  from assms BUndefined show thesis unfolding x
    by (intro that [of "CHR 0x06" "[]"]) (simp_all add: x addElem.simps read_scalar_def)
next
  case (BTime s n)
  with assms have x: "x = BTime s (n div 1000000 * 1000000)" by (simp split: if_splits)
  from assms BTime show thesis unfolding x
    by (intro that [of "CHR 0x09" "addInt64 (s * 1000 + ucast (n div 1000000))"])
      (auto simp: x addElem.simps read_scalar_def time_back split: if_splits)
next
  case (BBytes b)
  with assms have x: "x = BBytes b" by (simp split: if_splits)
  from assms BBytes show thesis unfolding x
    by (intro that [of "CHR 0x05" "addBinary CHR 0x00 b"])
      (simp_all add: x addElem.simps read_scalar_def readBinary_add length_addBinary)
next
  case (BBinary k d)
  with assms have x: "x = (if k = CHR 0x00 \<or> k = CHR 0x02 then BBytes d else BBinary k d)" by (simp split: if_splits)
  from assms BBinary show thesis unfolding x
    by (intro that [of "CHR 0x05" "addBinary k d"])
      (auto simp: x addElem.simps read_scalar_def readBinary_add length_addBinary)
next
  case (BRegEx p opts)
  with assms have x: "x = BRegEx p opts" by (simp split: if_splits)
  from assms BRegEx show thesis unfolding x
    by (intro that [of "CHR 0x0B" "addCStr p @ addCStr opts"])
      (auto simp: x addElem.simps read_scalar_def readRegEx_def addCStr_def split: if_splits)
next
  case (BJavaScript c s)
  with assms have s: "s = None" and x: "x = BJavaScript c None" by (cases s; simp)+
  show thesis
    by (intro that [of "CHR 0x0D" "addStr c"])
      (simp_all add: x BJavaScript s addElem.simps read_scalar_def readStr_add length_addStr)
qed (use assms in simp_all)

text \<open>A value that was read, in its target.\<close>

definition fits_target :: "go_type \<Rightarrow> bson_value \<Rightarrow> bson_value \<Rightarrow> bool" where
  "fits_target t x w \<longleftrightarrow> t \<noteq> TRaw \<and> x \<noteq> BNil \<and> (\<forall>fl. convert fl t x = Some w)"

lemma fits_target_set: "fits_target t x w \<Longrightarrow> set_value fl t kind b x r = Stored w"
  by (simp add: fits_target_def set_value_def)

lemma decodes_scalar:
  assumes "scalar_back m v = Some x" "fits_target t x w"
  shows "decodes dt t m v w"
  using assms(1)
proof (rule scalar_encoded)
  fix kind p
  assume k: "kind \<notin> {CHR 0x00, CHR 0x03, CHR 0x04, CHR 0x0A, CHR 0x0F}"
    and e: "\<And>name. addElem name m v = Inr (addElemName kind name @ p)"
    and r: "\<And>r. length p < 2147483648 \<Longrightarrow> read_scalar kind (p @ r) = Inr (x, r)"
  show ?thesis
  proof (rule decodesI [of kind _ _ p])
    show "readElemTo fl n dt t kind (p @ r) = Inr (Stored w, r)" if "length p < 2147483648" for fl n r
      using k r [OF that] fits_target_set [OF assms(2)] by (simp add: readElemTo.simps)
  qed (use k e in auto)
qed

lemma decodes_nil: "t \<noteq> TRaw \<Longrightarrow> decodes dt t m BNil (zero t)"
  by (rule decodesI [of "CHR 0x0A" _ _ "[]"]) (simp_all add: addElem.simps readElemTo.simps read_scalar_def set_value_def)

subsection \<open>Documents and arrays\<close>

definition is_doc :: "bson_value \<Rightarrow> bool" where
  "is_doc v \<longleftrightarrow> (case v of BMap _ \<Rightarrow> True | BDoc _ \<Rightarrow> True | BStruct _ _ _ \<Rightarrow> True | _ \<Rightarrow> False)"

abbreviation put_all :: "doc_target \<Rightarrow> elem list \<Rightarrow> bson_value list \<Rightarrow> bson_value \<Rightarrow> bson_value" where
  "put_all tgt es ws \<equiv> fold (\<lambda>((k, m, x), w). put_item tgt k (Stored w)) (zip es ws)"

lemma addDoc_elems:
  "is_doc v \<or> (\<exists>vs. v = BArray vs) \<Longrightarrow> doc_elems v = map Inr es \<Longrightarrow>
    concat_runs (map (\<lambda>e. enc_elem (Inr e)) es) = Inr b \<Longrightarrow> addDoc v = Inr (with_length (b @ [CHR 0x00]))"
  by (cases v) (auto simp: is_doc_def addDoc.simps comp_def)

lemma readDocTo_elems:
  assumes "is_doc v" "doc_elems v = map Inr es" "u = (if base_type t = TIface then dt else base_type t)" "u \<noteq> TRaw"
    "doc_target dt u = Inr (tgt, dt')"
    "list_all2 (\<lambda>(k, m, x) w. CHR 0x00 \<notin> set k \<and> decodes dt' (item_type tgt k) m x w) es ws"
  obtains d where "addDoc v = Inr d" "5 \<le> length d"
    "\<And>fl n r. length d < 2147483648 \<Longrightarrow> length (d @ r) \<le> n \<Longrightarrow>
      readDocTo fl n dt t (d @ r) = Inr (behind t (put_all tgt es ws (zero u)), r)"
proof -
  from read_items_elems [OF assms(6)] obtain b where b: "concat_runs (map (\<lambda>e. enc_elem (Inr e)) es) = Inr b"
    and rd: "length b < 2147483648 \<longrightarrow> (\<forall>fl n out r. length (b @ CHR 0x00 # r) \<le> n \<longrightarrow>
      read_items fl n dt' tgt (length r) out (b @ CHR 0x00 # r) = Inr (put_all tgt es ws out, r))"
    by (elim exE conjE)
  show thesis
  proof (rule that)
    show "addDoc v = Inr (with_length (b @ [CHR 0x00]))" using addDoc_elems assms(1,2) b by blast
    show "5 \<le> length (with_length (b @ [CHR 0x00]))" by (simp add: with_length_def)
    fix fl n r
    assume len: "length (with_length (b @ [CHR 0x00])) < 2147483648" "length (with_length (b @ [CHR 0x00]) @ r) \<le> n"
    then have l: "readDocLen (with_length (b @ [CHR 0x00]) @ r) = Inr (length r, b @ CHR 0x00 # r)"
      by (intro readDocLen_with) (simp add: with_length_def)
    have "length b < 2147483648" "length (b @ CHR 0x00 # r) \<le> n" using len by (simp_all add: with_length_def)
    with rd have "read_items fl n dt' tgt (length r) (zero u) (b @ CHR 0x00 # r) = Inr (put_all tgt es ws (zero u), r)" by blast
    with l assms(3,4,5) show "readDocTo fl n dt t (with_length (b @ [CHR 0x00]) @ r) = Inr (behind t (put_all tgt es ws (zero u)), r)"
      by (simp add: readDocTo.simps Let_def split del: if_split)
  qed
qed

lemma decodes_doc:
  assumes "is_doc v" "takes_document t" "doc_elems v = map Inr es" "u = (if base_type t = TIface then dt else base_type t)" "u \<noteq> TRaw"
    "doc_target dt u = Inr (tgt, dt')"
    "list_all2 (\<lambda>(k, m, x) w. CHR 0x00 \<notin> set k \<and> decodes dt' (item_type tgt k) m x w) es ws"
  shows "decodes dt t m v (behind t (put_all tgt es ws (zero u)))"
  using assms(1,3-7)
proof (rule readDocTo_elems)
  fix d
  assume d: "addDoc v = Inr d" and r: "\<And>fl n r. length d < 2147483648 \<Longrightarrow> length (d @ r) \<le> n \<Longrightarrow>
      readDocTo fl n dt t (d @ r) = Inr (behind t (put_all tgt es ws (zero u)), r)"
  show ?thesis
  proof (rule decodesI [of "CHR 0x03" _ _ d])
    show "addElem name m v = Inr (addElemName CHR 0x03 name @ d)" for name
      using assms(1) d by (cases v) (simp_all add: is_doc_def addElem.simps)
    show "readElemTo fl n dt t CHR 0x03 (d @ r) = Inr (Stored (behind t (put_all tgt es ws (zero u))), r)"
      if "length d < 2147483648" "length (d @ r) \<le> n" for fl n r
      using r [OF that] assms(2) by (simp add: readElemTo.simps)
  qed simp_all
qed

lemma show_nat_no_zero: "CHR 0x00 \<notin> set (show_nat i)"
  using show_nat_digits [of "CHR 0x00" i] by (auto simp: digit_value_def)

lemma index_elems_all:
  assumes "list_all2 (decodes dt e False) vs ws"
  obtains es where "doc_elems (BArray vs) = map Inr es"
    "list_all2 (\<lambda>(k, m, x) w. CHR 0x00 \<notin> set k \<and> decodes dt e m x w) es ws"
proof (rule that [of "map (\<lambda>(i, v). (show_nat i, False, v)) (enumerate 0 vs)"])
  show "doc_elems (BArray vs) = map Inr (map (\<lambda>(i, v). (show_nat i, False, v)) (enumerate 0 vs))"
    by (simp add: index_elems_def split_def)
  show "list_all2 (\<lambda>(k, m, x) w. CHR 0x00 \<notin> set k \<and> decodes dt e m x w)
      (map (\<lambda>(i, v). (show_nat i, False, v)) (enumerate 0 vs)) ws"
    using assms show_nat_no_zero by (simp add: list_all2_conv_all_nth nth_enumerate_eq)
qed

text \<open>The array behind its length, read as elements of a type.\<close>

lemma array_encoded:
  assumes "list_all2 (decodes dt e False) vs ws"
  obtains d where "addDoc (BArray vs) = Inr d"
    "\<And>fl n r. length d < 2147483648 \<Longrightarrow> length (d @ r) \<le> n \<Longrightarrow>
      run_bind (readDocLen (d @ r)) (\<lambda>(stop, r). slice_items fl n dt e stop [] r) = Inr (ws, r)"
proof -
  from assms obtain es where es: "doc_elems (BArray vs) = map Inr es"
    "list_all2 (\<lambda>(k, m, x) w. CHR 0x00 \<notin> set k \<and> decodes dt e m x w) es ws" by (rule index_elems_all)
  from slice_items_elems [OF es(2)] obtain b where b: "concat_runs (map (\<lambda>e. enc_elem (Inr e)) es) = Inr b"
    and rd: "length b < 2147483648 \<longrightarrow> (\<forall>fl n vs r. length (b @ CHR 0x00 # r) \<le> n \<longrightarrow>
      slice_items fl n dt e (length r) vs (b @ CHR 0x00 # r) = Inr (vs @ ws, r))"
    by (elim exE conjE)
  show thesis
  proof (rule that)
    show "addDoc (BArray vs) = Inr (with_length (b @ [CHR 0x00]))" using addDoc_elems es(1) b by blast
    fix fl n r
    assume len: "length (with_length (b @ [CHR 0x00])) < 2147483648" "length (with_length (b @ [CHR 0x00]) @ r) \<le> n"
    then have l: "readDocLen (with_length (b @ [CHR 0x00]) @ r) = Inr (length r, b @ CHR 0x00 # r)"
      by (intro readDocLen_with) (simp add: with_length_def)
    have "length b < 2147483648" "length (b @ CHR 0x00 # r) \<le> n" using len by (simp_all add: with_length_def)
    with rd have "slice_items fl n dt e (length r) [] (b @ CHR 0x00 # r) = Inr ([] @ ws, r)" by blast
    with l show "run_bind (readDocLen (with_length (b @ [CHR 0x00]) @ r)) (\<lambda>(stop, r). slice_items fl n dt e stop [] r) = Inr (ws, r)"
      by simp
  qed
qed

lemma decodes_array:
  assumes "list_all2 (decodes dt e False) vs ws"
    "slice_elem (base_type t) = Some e \<and> w = behind t (mk_slice e ws) \<or>
     slice_elem (base_type t) = None \<and> e = TIface \<and> fits_target t (BArray ws) w"
  shows "decodes dt t m (BArray vs) w"
  using assms(1)
proof (rule array_encoded)
  fix d
  assume d: "addDoc (BArray vs) = Inr d"
    and r: "\<And>fl n r. length d < 2147483648 \<Longrightarrow> length (d @ r) \<le> n \<Longrightarrow>
      run_bind (readDocLen (d @ r)) (\<lambda>(stop, r). slice_items fl n dt e stop [] r) = Inr (ws, r)"
  show ?thesis
  proof (rule decodesI [of "CHR 0x04" _ _ d])
    show "addElem name m (BArray vs) = Inr (addElemName CHR 0x04 name @ d)" for name
      using d by (simp add: addElem.simps)
    show "readElemTo fl n dt t CHR 0x04 (d @ r) = Inr (Stored w, r)"
      if "length d < 2147483648" "length (d @ r) \<le> n" for fl n r
    proof -
      from r [OF that, of fl] obtain stop r1 where l: "readDocLen (d @ r) = Inr (stop, r1)" "slice_items fl n dt e stop [] r1 = Inr (ws, r)"
        by (auto simp: run_bind_eq_Inr_iff)
      from assms(2) show ?thesis
      proof
        assume "slice_elem (base_type t) = Some e \<and> w = behind t (mk_slice e ws)"
        with l show ?thesis by (simp add: readElemTo.simps)
      next
        assume "slice_elem (base_type t) = None \<and> e = TIface \<and> fits_target t (BArray ws) w"
        with l show ?thesis by (simp add: readElemTo.simps fits_target_set)
      qed
    qed
  qed simp_all
qed

lemma decodes_javascript:
  assumes "is_doc x" "doc_elems x = map Inr es"
    "list_all2 (\<lambda>(k, m, x) w. CHR 0x00 \<notin> set k \<and> decodes typeM TIface m x w) es ws"
    "fits_target t (BJavaScript c (Some (put_all (Entries TIface) es ws (BMap [])))) w"
  shows "decodes dt t m (BJavaScript c (Some x)) w"
proof -
  have u: "typeM = (if base_type typeM = TIface then dt else base_type typeM)" "typeM \<noteq> TRaw"
    "doc_target dt typeM = Inr (Entries TIface, typeM)" by (simp_all add: typeM_def doc_target_def string_kind_def)
  from assms(3) have all: "list_all2 (\<lambda>(k, m, x) w. CHR 0x00 \<notin> set k \<and> decodes typeM (item_type (Entries TIface) k) m x w) es ws"
    by simp
  from assms(1,2) u all show ?thesis
  proof (rule readDocTo_elems)
    fix d
    assume d: "addDoc x = Inr d" "5 \<le> length d" and r: "\<And>fl n r. length d < 2147483648 \<Longrightarrow> length (d @ r) \<le> n \<Longrightarrow>
        readDocTo fl n dt typeM (d @ r) = Inr (behind typeM (put_all (Entries TIface) es ws (zero typeM)), r)"
    show ?thesis
    proof (rule decodesI [of "CHR 0x0F" _ _ "with_length (addStr c @ d)"])
      show "addElem name m (BJavaScript c (Some x)) = Inr (addElemName CHR 0x0F name @ with_length (addStr c @ d))" for name
        using d by (simp add: addElem.simps)
      fix fl n r
      assume len: "length (with_length (addStr c @ d)) < 2147483648" "length (with_length (addStr c @ d) @ r) \<le> n"
      have "readStr (addStr c @ d @ r) = Inr (c, d @ r)"
        using len by (intro readStr_add) (simp add: with_length_def length_addStr)
      moreover have "readDocTo fl n dt typeM (d @ r) = Inr (put_all (Entries TIface) es ws (BMap []), r)"
        using r [of r n fl] len by (simp add: with_length_def length_addStr typeM_def)
      moreover have "drop 4 (with_length (addStr c @ d) @ r) = addStr c @ d @ r" by (simp add: with_length_def)
      ultimately show "readElemTo fl n dt t CHR 0x0F (with_length (addStr c @ d) @ r) = Inr (Stored w, r)"
        using fits_target_set [OF assms(4)] by (simp add: readElemTo.simps)
    qed simp_all
  qed
qed

subsection \<open>What reads back\<close>

text \<open>
  \<open>travels dt t m v w\<close>: a value \<open>v\<close>, encoded and decoded into a target of type \<open>t\<close> where documents in interfaces become
  \<open>dt\<close>, is read back as \<open>w\<close>.  Entries of maps and ordered documents are the same bytes; the target decides what they
  become.  Names must not have zero bytes.
\<close>

definition entries_of :: "bson_value \<Rightarrow> (string \<times> bson_value) list \<Rightarrow> bool" where
  "entries_of v kvs \<longleftrightarrow> v = BMap kvs \<or> v = BDoc kvs"

text \<open>The fields of a struct that are stored.\<close>

definition stored_fields :: "struct_info \<Rightarrow> struct_field list \<Rightarrow> bson_value list \<Rightarrow> field_info list" where
  "stored_fields s fs vs =
     filter (\<lambda>info. \<not> (OmitEmpty info \<and> isZero (type_at [Num info] (TStruct [] fs)) (vs ! Num info))) (FieldsList s)"

definition plain_struct :: "struct_info \<Rightarrow> struct_field list \<Rightarrow> bool" where
  "plain_struct s fs \<longleftrightarrow> InlineMap s = None \<and> (\<forall>info \<in> set (FieldsList s). Inline info = [])"

lemma list_all2_implies [mono]: "(\<And>x y. P x y \<longrightarrow> Q x y) \<Longrightarrow> list_all2 P xs ys \<longrightarrow> list_all2 Q xs ys"
  by (auto elim: list_all2_mono)

inductive travels :: "go_type \<Rightarrow> go_type \<Rightarrow> bool \<Rightarrow> bson_value \<Rightarrow> bson_value \<Rightarrow> bool" where
  nil: "t \<noteq> TRaw \<Longrightarrow> travels dt t m BNil (zero t)"
| scalar: "scalar_back m v = Some x \<Longrightarrow> fits_target t x w \<Longrightarrow> travels dt t m v w"
| through: "travels dt TIface m v w \<Longrightarrow> travels dt TIface m (BPtr v) w"
| pointer: "travels dt t m v w \<Longrightarrow> \<not> nil_value v \<Longrightarrow> t \<noteq> TRaw \<Longrightarrow> travels dt (TPtr t) m (BPtr v) (BPtr w)"
| slice: "list_all2 (\<lambda>x y. travels dt e False x y) vs ws \<Longrightarrow> travels dt (TSlice e) m (BArray vs) (mk_slice e ws)"
| array: "list_all2 (\<lambda>x y. travels dt TIface False x y) vs ws \<Longrightarrow> travels dt TIface m (BArray vs) (BArray ws)"
| map: "entries_of v kvs \<Longrightarrow> (if t = TIface then dt else t) = TMap k e \<Longrightarrow> string_kind k \<Longrightarrow>
    list_all2 (\<lambda>p y. CHR 0x00 \<notin> set (fst p) \<and> travels (if e = TIface then TMap k e else dt) e False (snd p) y) kvs ws \<Longrightarrow>
    travels dt t m v (BMap (obj_of (zip (map fst kvs) ws)))"
| doc: "entries_of v kvs \<Longrightarrow> (if t = TIface then dt else t) = TD \<Longrightarrow>
    list_all2 (\<lambda>p y. CHR 0x00 \<notin> set (fst p) \<and> travels TD TIface False (snd p) y) kvs ws \<Longrightarrow>
    travels dt t m v (BDoc (zip (map fst kvs) ws))"
| struct: "getStructInfo n fs = Inr s \<Longrightarrow> plain_struct s fs \<Longrightarrow> length vs = length fs \<Longrightarrow>
    list_all2 (\<lambda>info y. CHR 0x00 \<notin> set (Key info) \<and>
      travels dt (type_at [Num info] (TStruct [] fs)) (MinSize info) (vs ! Num info) y) (stored_fields s fs vs) ws \<Longrightarrow>
    travels dt (TStruct n fs) m (BStruct n fs vs)
      (BStruct n fs (fold (\<lambda>(info, y) zs. zs[Num info := y]) (zip (stored_fields s fs vs) ws) (map zero_field fs)))"
| code: "entries_of x kvs \<Longrightarrow> list_all2 (\<lambda>p y. CHR 0x00 \<notin> set (fst p) \<and> travels typeM TIface False (snd p) y) kvs ws \<Longrightarrow>
    fits_target t (BJavaScript c (Some (BMap (obj_of (zip (map fst kvs) ws))))) w \<Longrightarrow>
    travels dt t m (BJavaScript c (Some x)) w"

lemma entries_of_doc:
  assumes "entries_of v kvs"
  shows "is_doc v" "doc_elems v = map Inr (map (\<lambda>(k, x). (k, False, x)) kvs)"
  using assms by (auto simp: entries_of_def is_doc_def plain_elems_def)

lemma put_all_entries:
  "length ws = length kvs \<Longrightarrow> put_all (Entries e) (map (\<lambda>(k, x). (k, False, x)) kvs) ws (BMap m) =
    BMap (fold (\<lambda>(k, v) m. obj_put k v m) (zip (map fst kvs) ws) m)"
  by (induction ws kvs arbitrary: m rule: list_induct2) (auto simp: put_entry_def)

lemma put_all_elems:
  "length ws = length kvs \<Longrightarrow> put_all Elems (map (\<lambda>(k, x). (k, False, x)) kvs) ws (BDoc m) = BDoc (m @ zip (map fst kvs) ws)"
  by (induction ws kvs arbitrary: m rule: list_induct2) auto

text \<open>The keys of a struct are distinct, and its own fields have their numbers.\<close>

definition fields_good :: "nat \<Rightarrow> struct_info \<Rightarrow> bool" where
  "fields_good k s \<longleftrightarrow> distinct (map Key (FieldsList s)) \<and> (\<forall>info \<in> set (FieldsList s). Inline info = [] \<longrightarrow> Num info < k)"

lemma add_field_good:
  "add_field st info s = Inr s' \<Longrightarrow> fields_good k s \<Longrightarrow> (Inline info = [] \<Longrightarrow> Num info < k) \<Longrightarrow> fields_good k s'"
  by (auto simp: add_field_def fields_good_def split: if_splits)

lemma add_inlined_good: "add_inlined st i infos s = Inr s' \<Longrightarrow> fields_good k s \<Longrightarrow> fields_good k s'"
proof (induction st i infos s rule: add_inlined.induct)
  case (2 st i info infos s)
  then obtain s1 where "add_field st (info\<lparr>Inline := (if Inline info = [] then [i, Num info] else i # Inline info)\<rparr>) s = Inr s1"
    "add_inlined st i infos s1 = Inr s'" by (auto simp: run_bind_eq_Inr_iff)
  moreover from this(1) 2(3) have "fields_good k s1" by (rule add_field_good) (simp split: if_splits)
  ultimately show ?case using 2(1) by blast
qed simp

lemma fields_good_le: "fields_good k s \<Longrightarrow> k \<le> l \<Longrightarrow> fields_good l s"
  by (auto simp: fields_good_def)

lemma struct_fields_good: "struct_fields st i fds s = Inr s' \<Longrightarrow> fields_good i s \<Longrightarrow> fields_good (i + length fds) s'"
proof (induction st i fds s arbitrary: s' rule: struct_fields.induct)
  case (2 st i name pkg raw tag t fds s)
  have good: "fields_good (Suc i) s" using 2(7) by (rule fields_good_le) simp
  show ?case
  proof (cases "pkg \<noteq> [] \<or> field_tag raw tag = ''-''")
    case False
    then obtain key omit mins inl where x: "parse_tag (field_tag raw tag) = Inr (key, omit, mins, inl)"
      using 2(6) by (auto simp: run_bind_eq_Inr_iff)
    note IH = 2(2-5) [OF False x refl refl refl]
    show ?thesis
    proof (cases inl)
      case True
      show ?thesis
      proof (cases t)
        case (TMap k v)
        with 2(6) False x True IH(1) [OF _ TMap] good show ?thesis by (auto simp: fields_good_def split: if_splits)
      next
        case (TStruct n fs)
        with 2(6) False x True obtain sub s1 where s: "struct_fields n 0 fs \<lparr>FieldsList = [], InlineMap = None\<rparr> = Inr sub"
          "add_inlined st i (FieldsList sub) s = Inr s1" "struct_fields st (Suc i) fds s1 = Inr s'"
          by (auto simp: run_bind_eq_Inr_iff)
        from add_inlined_good [OF s(2) good] IH(3) [OF True TStruct s(1,2) s(3)] show ?thesis by simp
      qed (use 2(6) False x True in auto)
    next
      case inl: False
      let ?info = "\<lparr>Key = (if key \<noteq> [] then key else map to_lower_char name), Num = i, OmitEmpty = omit, MinSize = mins, Inline = []\<rparr>"
      from inl 2(6) False x obtain s1 where s: "add_field st ?info s = Inr s1" "struct_fields st (Suc i) fds s1 = Inr s'"
        by (auto simp: run_bind_eq_Inr_iff)
      from add_field_good [OF s(1) good] IH(4) [OF inl s] show ?thesis by simp
    qed
  qed (use 2(1,6) good in auto)
qed simp

lemma getStructInfo_good: "getStructInfo n fs = Inr s \<Longrightarrow> fields_good (length fs) s"
  unfolding getStructInfo_def by (drule struct_fields_good) (simp_all add: fields_good_def)

lemma FieldsMap_Key: "distinct (map Key (FieldsList s)) \<Longrightarrow> info \<in> set (FieldsList s) \<Longrightarrow> FieldsMap s (Key info) = Some info"
  unfolding FieldsMap_def by (rule map_of_is_SomeI) (simp_all add: comp_def)

text \<open>The elements of a struct, and putting them into one.\<close>

lemma struct_stored:
  assumes "getStructInfo n fs = Inr s" "plain_struct s fs" "length vs = length fs"
  shows "doc_elems (BStruct n fs vs) = map Inr (map (\<lambda>info. (Key info, MinSize info, vs ! Num info)) (stored_fields s fs vs))"
proof -
  from getStructInfo_good [OF assms(1)] have good: "fields_good (length fs) s" .
  have field: "field_path info = [Num info]" "field_at [Num info] (BStruct n fs vs) = vs ! Num info"
    "type_at [Num info] (TStruct n fs) = type_at [Num info] (TStruct [] fs)"
    if "info \<in> set (FieldsList s)" for info
    using that good assms(2,3) by (auto simp: fields_good_def plain_struct_def field_path_def)
  have "concat (map (\<lambda>info. if OmitEmpty info \<and> isZero (type_at (field_path info) (TStruct n fs)) (field_at (field_path info) (BStruct n fs vs))
        then [] else [Inr (Key info, MinSize info, field_at (field_path info) (BStruct n fs vs))]) infos) =
      map Inr (map (\<lambda>info. (Key info, MinSize info, vs ! Num info))
        (filter (\<lambda>info. \<not> (OmitEmpty info \<and> isZero (type_at [Num info] (TStruct [] fs)) (vs ! Num info))) infos))"
    if "set infos \<subseteq> set (FieldsList s)" for infos
    using that by (induction infos) (auto simp: field simp del: type_at.simps field_at.simps)
  from this [of "FieldsList s"] assms(1,2) show ?thesis
    by (simp add: struct_elems_def inline_elems_def plain_struct_def field_elems_def stored_fields_def del: type_at.simps field_at.simps)
qed

lemma put_all_struct:
  assumes "getStructInfo n fs = Inr s" "plain_struct s fs" "set infos \<subseteq> set (FieldsList s)" "length infos = length ws"
  shows "put_all (Fields s n fs) (map (\<lambda>info. (Key info, MinSize info, vs ! Num info)) infos) ws (BStruct n fs zs) =
    BStruct n fs (fold (\<lambda>(info, y) zs. zs[Num info := y]) (zip infos ws) zs)"
  using assms(4,3)
proof (induction infos ws arbitrary: zs rule: list_induct2)
  case (Cons info infos w ws)
  then have info: "info \<in> set (FieldsList s)" by simp
  with getStructInfo_good [OF assms(1)] have "FieldsMap s (Key info) = Some info"
    by (intro FieldsMap_Key) (auto simp: fields_good_def)
  moreover from info assms(2) have "field_path info = [Num info]" by (simp add: plain_struct_def field_path_def)
  ultimately show ?case using Cons by simp
qed simp

theorem travels_decodes: "travels dt t m v w \<Longrightarrow> decodes dt t m v w"
proof (induction rule: travels.induct)
  case (nil t dt m)
  then show ?case by (rule decodes_nil)
next
  case (scalar m v x t w dt)
  then show ?case by (rule decodes_scalar)
next
  case (through dt m v w)
  show ?case by (rule decodes_through [OF through.IH])
next
  case (pointer dt t m v w)
  then show ?case using decodes_ptr by blast
next
  case (slice dt e vs ws m)
  then have all: "list_all2 (decodes dt e False) vs ws" by (auto elim: list_all2_mono)
  show ?case by (rule decodes_array [OF all]) (simp add: slice_elem_def)
next
  case (array dt vs ws m)
  then have all: "list_all2 (decodes dt TIface False) vs ws" by (auto elim: list_all2_mono)
  show ?case by (rule decodes_array [OF all]) (simp add: slice_elem_def fits_target_def)
next
  case (map v kvs t dt k e ws m)
  let ?dt = "if e = TIface then TMap k e else dt"
  from map(4) have len: "length ws = length kvs" by (simp add: list_all2_lengthD)
  from map(4) have all: "list_all2 (\<lambda>(k, m, x) w. CHR 0x00 \<notin> set k \<and> decodes ?dt (item_type (Entries e) k) m x w)
      (map (\<lambda>(k, x). (k, False, x)) kvs) ws"
    by (auto simp: list_all2_conv_all_nth split_beta)
  from map(2) have t: "TMap k e = (if base_type t = TIface then dt else base_type t)" "takes_document t" "behind t = id"
    by (auto simp: takes_document_def fun_eq_iff split: if_splits)
  have target: "doc_target dt (TMap k e) = Inr (Entries e, ?dt)" using map(3) by (simp add: doc_target_def)
  have "decodes dt t m v (behind t (put_all (Entries e) (map (\<lambda>(k, x). (k, False, x)) kvs) ws (zero (TMap k e))))"
    by (rule decodes_doc [OF entries_of_doc(1) t(2) entries_of_doc(2) t(1) _ target all]) (use map(1) in auto)
  then show ?case by (simp add: put_all_entries [OF len] t(3) obj_of_def)
next
  case (doc v kvs t dt ws m)
  from doc(3) have len: "length ws = length kvs" by (simp add: list_all2_lengthD)
  from doc(3) have all: "list_all2 (\<lambda>(k, m, x) w. CHR 0x00 \<notin> set k \<and> decodes TD (item_type Elems k) m x w)
      (map (\<lambda>(k, x). (k, False, x)) kvs) ws"
    by (auto simp: list_all2_conv_all_nth split_beta)
  from doc(2) have t: "TD = (if base_type t = TIface then dt else base_type t)" "takes_document t" "behind t = id"
    by (auto simp: takes_document_def fun_eq_iff split: if_splits)
  have target: "doc_target dt TD = Inr (Elems, TD)" by (simp add: doc_target_def)
  have "decodes dt t m v (behind t (put_all Elems (map (\<lambda>(k, x). (k, False, x)) kvs) ws (zero TD)))"
    by (rule decodes_doc [OF entries_of_doc(1) t(2) entries_of_doc(2) t(1) _ target all]) (use doc(1) in auto)
  then show ?case by (simp add: put_all_elems [OF len] t(3))
next
  case (struct n fs s vs dt ws m)
  let ?infos = "stored_fields s fs vs" and ?t = "TStruct n fs"
  let ?es = "map (\<lambda>info. (Key info, MinSize info, vs ! Num info)) ?infos"
  have sub: "set ?infos \<subseteq> set (FieldsList s)" by (auto simp: stored_fields_def)
  have item: "item_type (Fields s n fs) (Key info) = type_at [Num info] (TStruct [] fs)" if "info \<in> set ?infos" for info
  proof -
    from that sub have info: "info \<in> set (FieldsList s)" by blast
    with getStructInfo_good [OF struct(1)] have "FieldsMap s (Key info) = Some info"
      by (intro FieldsMap_Key) (auto simp: fields_good_def)
    with info struct(2) show ?thesis by (simp add: plain_struct_def field_path_def)
  qed
  from struct(4) have len: "length ?infos = length ws" by (simp add: list_all2_lengthD)
  have all: "list_all2 (\<lambda>(k, m, x) w. CHR 0x00 \<notin> set k \<and> decodes dt (item_type (Fields s n fs) k) m x w) ?es ws"
    using struct(4) by (auto simp: list_all2_conv_all_nth item simp del: type_at.simps item_type.simps)
  have t: "?t = (if base_type ?t = TIface then dt else base_type ?t)" "?t \<noteq> TRaw" "takes_document ?t"
    by (simp_all add: takes_document_def)
  have target: "doc_target dt ?t = Inr (Fields s n fs, dt)"
    using struct(1,2) by (simp add: doc_target_def plain_struct_def)
  have d: "is_doc (BStruct n fs vs)" by (simp add: is_doc_def)
  have "decodes dt ?t m (BStruct n fs vs) (behind ?t (put_all (Fields s n fs) ?es ws (zero ?t)))"
    by (rule decodes_doc [OF d t(3) struct_stored [OF struct(1-3)] t(1,2) target all])
  then show ?case by (simp add: put_all_struct [OF struct(1,2) sub len])
next
  case (code x kvs ws t c w dt m)
  from code(3) have len: "length ws = length kvs" by (simp add: list_all2_lengthD)
  from code(3) have all: "list_all2 (\<lambda>(k, m, x) w. CHR 0x00 \<notin> set k \<and> decodes typeM TIface m x w)
      (map (\<lambda>(k, x). (k, False, x)) kvs) ws"
    by (auto simp: list_all2_conv_all_nth split_beta)
  show ?case
    by (rule decodes_javascript [OF entries_of_doc [OF code(1)] all])
      (use code(2) len in \<open>simp add: put_all_entries obj_of_def\<close>)
qed

lemma doc_bytes:
  assumes "decodes dt t m v w" "is_doc v" "takes_document t"
  obtains d where "addDoc v = Inr d"
    "\<And>fl n r. length d < 2147483648 \<Longrightarrow> length (d @ r) \<le> n \<Longrightarrow> readDocTo fl n dt t (d @ r) = Inr (w, r)"
  using assms(1)
proof (rule decodesE)
  fix kind p
  assume e: "\<And>name. addElem name m v = Inr (addElemName kind name @ p)"
    and r: "\<And>fl n r. length p < 2147483648 \<Longrightarrow> length (p @ r) \<le> n \<Longrightarrow> readElemTo fl n dt t kind (p @ r) = Inr (Stored w, r)"
  have "addElem [] m v = run_bind (addDoc v) (\<lambda>d. Inr (addElemName CHR 0x03 [] @ d))"
    using assms(2) by (cases v) (simp_all add: is_doc_def addElem.simps)
  with e [of "[]"] obtain d where d: "addDoc v = Inr d" "addElemName CHR 0x03 [] @ d = addElemName kind [] @ p"
    by (auto simp: run_bind_eq_Inr_iff)
  then have k: "kind = CHR 0x03" "p = d" by (simp_all add: addElemName_def)
  show thesis
  proof (rule that)
    show "addDoc v = Inr d" by (rule d(1))
    show "readDocTo fl n dt t (d @ r) = Inr (w, r)" if "length d < 2147483648" "length (d @ r) \<le> n" for fl n r
      using r [of r n fl] that k assms(3) by (auto simp: readElemTo.simps run_bind_eq_Inr_iff)
  qed
qed

lemma bson_travels:
  assumes "travels typeM t False v w" "is_doc v" "takes_document t"
  shows "\<exists>b. bson_Marshal v = Inr (Inr b) \<and>
    (length b < 2147483648 \<longrightarrow> bson_Unmarshal fl b (TPtr t) = Inr (Inr (BPtr w)))"
  using travels_decodes [OF assms(1)] assms(2,3)
proof (rule doc_bytes)
  fix d
  assume d: "addDoc v = Inr d"
    and r: "\<And>fl n r. length d < 2147483648 \<Longrightarrow> length (d @ r) \<le> n \<Longrightarrow> readDocTo fl n typeM t (d @ r) = Inr (w, r)"
  have "bson_Unmarshal fl d (TPtr t) = Inr (Inr (BPtr w))" if "length d < 2147483648"
    using r [of "[]" "length d" fl] that by (simp add: bson_Unmarshal_def handleErr_def readDocTo_ptr)
  with d show ?thesis by (auto simp: bson_Marshal_def handleErr_def)
qed

subsection \<open>What malformed input and names with zero bytes do\<close>

text \<open>
  Property C28.  A malformed document crashes the decoder.  A string element whose length is not positive makes
  \<open>readBytes\<close> slice out of range, a run-time panic that \<open>handleErr\<close> passes on instead of returning an error.
\<close>

theorem short_string_crashes:
  assumes "CHR 0x00 \<notin> set name" "sint (n - 1) < 0" "length name + length rest < 2000000000" "t \<in> {typeM, TPtr TIface, TPtr TD}"
  shows "bson_Unmarshal fl (with_length (addElemName CHR 0x02 name @ addInt32 n @ rest @ [CHR 0x00])) t = Inl (Passed SliceOutOfRange)"
proof -
  let ?b = "addElemName CHR 0x02 name @ addInt32 n @ rest"
  have l: "readDocLen (with_length (?b @ [CHR 0x00])) = Inr (0, ?b @ [CHR 0x00])"
    using readDocLen_with [of ?b "[]"] assms(3) by (simp add: addElemName_def)
  have items: "read_items fl (Suc k) dt tgt 0 out (?b @ [CHR 0x00]) = Inl (Passed SliceOutOfRange)" for k dt tgt out
    using assms(1,2) by (subst read_items.simps)
      (simp add: addElemName_def readElemTo.simps read_scalar_def readStr_def readBytes_def)
  obtain k where k: "length (with_length (?b @ [CHR 0x00])) = Suc k" by (simp add: with_length_def addInt32_def)
  from assms(4) have "\<exists>tgt dt. doc_target typeM (if base_type t = TIface then typeM else base_type t) = Inr (tgt, dt)"
    by (auto simp: doc_target_def typeM_def string_kind_def)
  then obtain tgt dt where "doc_target typeM (if base_type t = TIface then typeM else base_type t) = Inr (tgt, dt)" by blast
  then have "readDocTo fl (Suc k) typeM t (with_length (?b @ [CHR 0x00])) = Inl (Passed SliceOutOfRange)"
    by (simp add: readDocTo.simps Let_def l [simplified] items [simplified])
  moreover have "bson_Unmarshal fl b t = handleErr (run_bind (readDocTo fl (length b) typeM t b) (\<lambda>(v, r). Inr v))" for b
    using assms(4) by (auto simp: bson_Unmarshal_def typeM_def)
  ultimately show ?thesis using k by (simp add: handleErr_def)
qed

text \<open>
  Property C29.  Names can smuggle elements.  Element names are written without a check for zero bytes, so that a
  document with one entry under a chosen name has the same bytes as one with two: here a boolean in front of
  the entry's own.
\<close>

theorem names_smuggle_elements:
  "bson_Marshal (BMap ((a @ [CHR 0x00, CHR 0x01, CHR 0x08] @ b, BBool x) # kvs)) =
   bson_Marshal (BMap ((a, BBool True) # (b, BBool x) # kvs))"
  by (simp add: bson_Marshal_def addDoc.simps plain_elems_def addElem.simps addElemName_def run_bind_assoc)

end
