(* ===== verification/BsonReads.thy ===== *)
theory BsonReads
  imports BsonTravel
begin

text \<open>
  Reading documents back as the documentation of \<open>Marshal\<close> and \<open>Unmarshal\<close> has it: tags by their form, empty values,
  the conversions that are promised, and what becomes of a value, stated without the functions that encode and
  decode, which are then shown to do it.
\<close>

subsection \<open>Tags\<close>

text \<open>\<open>"[<key>][,<flag1>[,<flag2>]]"\<close>, alone or under the name \<open>bson\<close> of a conventional tag.\<close>

fun tag_text :: "struct_field \<Rightarrow> string" where
  "tag_text (StructField name pkg raw tag t) = (if tag \<noteq> [] then tag else if CHR '':'' \<in> set raw then [] else raw)"

fun field_type :: "struct_field \<Rightarrow> go_type" where
  "field_type (StructField name pkg raw tag t) = t"

fun exported :: "struct_field \<Rightarrow> bool" where
  "exported (StructField name pkg raw tag t) \<longleftrightarrow> pkg = [] \<and> tag_text (StructField name pkg raw tag t) \<noteq> ''-''"

definition tag_flags :: "struct_field \<Rightarrow> string list" where
  "tag_flags f = tl (split_on (CHR '','') (tag_text f))"

fun field_key :: "struct_field \<Rightarrow> string" where
  "field_key (StructField name pkg raw tag t) =
     (let k = takeWhile (\<lambda>c. c \<noteq> CHR '','') (tag_text (StructField name pkg raw tag t))
      in if k = [] then map to_lower_char name else k)"

text \<open>Tags that are understood, but for \<open>inline\<close>; the keys must differ.\<close>

definition plain_tags :: "struct_field list \<Rightarrow> bool" where
  "plain_tags fs \<longleftrightarrow> distinct (map field_key (filter exported fs)) \<and>
     (\<forall>f \<in> set fs. exported f \<longrightarrow> CHR ''/'' \<notin> set (tag_text f) \<and> set (tag_flags f) \<subseteq> {''omitempty'', ''minsize''})"

definition info_of :: "nat \<Rightarrow> struct_field \<Rightarrow> field_info" where
  "info_of i f = \<lparr>Key = field_key f, Num = i, OmitEmpty = ''omitempty'' \<in> set (tag_flags f), MinSize = ''minsize'' \<in> set (tag_flags f), Inline = []\<rparr>"

definition infos_of :: "nat \<Rightarrow> struct_field list \<Rightarrow> field_info list" where
  "infos_of i fs = map (\<lambda>(j, f). info_of j f) (filter (\<lambda>(j, f). exported f) (enumerate i fs))"

lemma split_on_hd: "hd (split_on c s) = takeWhile (\<lambda>x. x \<noteq> c) s"
proof (induction s)
  case (Cons x s)
  then show ?case using split_on_not_Nil [of c s] by (cases "split_on c s") auto
qed simp

lemma parse_flags_plain:
  "set flags \<subseteq> {''omitempty'', ''minsize''} \<Longrightarrow>
     parse_flags flags (a, b, c) = Inr (a \<or> ''omitempty'' \<in> set flags, b \<or> ''minsize'' \<in> set flags, c)"
  by (induction flags arbitrary: a b) auto

lemma parse_tag_plain:
  assumes "CHR ''/'' \<notin> set tag" "set (tl (split_on (CHR '','') tag)) \<subseteq> {''omitempty'', ''minsize''}"
  shows "parse_tag tag = Inr (takeWhile (\<lambda>c. c \<noteq> CHR '','') tag, ''omitempty'' \<in> set (tl (split_on (CHR '','') tag)),
    ''minsize'' \<in> set (tl (split_on (CHR '','') tag)), False)"
proof -
  obtain key flags where s: "split_on (CHR '','') tag = key # flags" by (metis split_on_not_Nil neq_Nil_conv)
  with split_on_hd [of "CHR '',''" tag] have "key = takeWhile (\<lambda>c. c \<noteq> CHR '','') tag" by simp
  with s assms show ?thesis by (simp add: parse_tag_def parse_flags_plain)
qed

lemma infos_of_Cons: "infos_of i (f # fs) = (if exported f then [info_of i f] else []) @ infos_of (Suc i) fs"
  by (simp add: infos_of_def)

lemma field_tag_text: "field_tag raw tag = tag_text (StructField name pkg raw tag t)"
  by (simp add: field_tag_def)

lemma struct_fields_plain:
  assumes "plain_tags fs" "Key ` set (FieldsList s) \<inter> field_key ` set (filter exported fs) = {}"
  shows "struct_fields st i fs s = Inr (s\<lparr>FieldsList := FieldsList s @ infos_of i fs\<rparr>)"
  using assms
proof (induction fs arbitrary: i s)
  case Nil
  then show ?case by (simp add: infos_of_def)
next
  case (Cons f fs)
  obtain name pkg raw tag t where f: "f = StructField name pkg raw tag t" by (cases f)
  have plain: "plain_tags fs" using Cons.prems(1) by (auto simp: plain_tags_def split: if_splits)
  show ?case
  proof (cases "exported f")
    case False
    then have "struct_fields st i (f # fs) s = struct_fields st (Suc i) fs s" by (auto simp: f field_tag_def split: if_splits)
    with Cons.IH [OF plain, of s "Suc i"] Cons.prems(2) False show ?thesis by (simp add: infos_of_Cons)
  next
    case True
    have tag: "parse_tag (tag_text f) = Inr (takeWhile (\<lambda>c. c \<noteq> CHR '','') (tag_text f), ''omitempty'' \<in> set (tag_flags f),
        ''minsize'' \<in> set (tag_flags f), False)"
      unfolding tag_flags_def by (rule parse_tag_plain) (use Cons.prems(1) True in \<open>simp_all add: plain_tags_def tag_flags_def\<close>)
    have k: "field_key f \<notin> Key ` set (FieldsList s)" using Cons.prems(2) True by auto
    let ?s = "s\<lparr>FieldsList := FieldsList s @ [info_of i f]\<rparr>"
    have ft: "field_tag raw tag = tag_text f" unfolding f by (rule field_tag_text)
    have e: "pkg = []" "tag_text f \<noteq> ''-''" using True f by (metis exported.simps)+
    have key: "field_key f = (if takeWhile (\<lambda>c. c \<noteq> CHR '','') (tag_text f) \<noteq> [] then takeWhile (\<lambda>c. c \<noteq> CHR '','') (tag_text f)
          else map to_lower_char name)"
      by (simp add: f Let_def)
    have "struct_fields st i (f # fs) s = run_bind (add_field st (info_of i f) s) (struct_fields st (Suc i) fs)"
      by (subst f, subst struct_fields.simps(2), unfold ft tag) (simp add: e info_of_def key)
    moreover have "add_field st (info_of i f) s = Inr ?s" using k by (simp add: add_field_def info_of_def)
    ultimately have "struct_fields st i (f # fs) s = struct_fields st (Suc i) fs ?s" by simp
    moreover have "Key ` set (FieldsList ?s) \<inter> field_key ` set (filter exported fs) = {}"
      using Cons.prems True by (auto simp: plain_tags_def info_of_def)
    ultimately show ?thesis using Cons.IH [OF plain, of ?s "Suc i"] True by (simp add: infos_of_Cons)
  qed
qed

lemma getStructInfo_plain:
  "plain_tags fs \<Longrightarrow> getStructInfo n fs = Inr \<lparr>FieldsList = infos_of 0 fs, InlineMap = None\<rparr>"
  by (simp add: getStructInfo_def struct_fields_plain)

subsection \<open>Empty values\<close>

text \<open>The zero value of a type, and empty strings, slices and maps; what an interface holds does not matter.\<close>

inductive empty_value :: "go_type \<Rightarrow> bson_value \<Rightarrow> bool" where
  "empty_value t BNil"
| "t \<noteq> TIface \<Longrightarrow> v \<in> {BString [], BSymbol [], BObjectId [], BArray [], BDoc [], BMap [], BBytes []} \<Longrightarrow> empty_value t v"
| "t \<noteq> TIface \<Longrightarrow> v \<in> {BInt k 0, BUint l 0, BMongoTimestamp 0, BBool False, BFloat 0, BFloat 0x8000000000000000} \<Longrightarrow> empty_value t v"
| "t \<noteq> TIface \<Longrightarrow> v \<in> {BTime (- 62135596800) 0, BUndefined, BBinary CHR 0x00 [], BRegEx [] [], BJavaScript [] None, BRaw CHR 0x00 []} \<Longrightarrow>
    empty_value t v"
| "t \<noteq> TIface \<Longrightarrow> list_all2 (\<lambda>f x. empty_value (field_type f) x) fs vs \<Longrightarrow> empty_value t (BStruct n fs vs)"

lemma isZero_empty: "isZero t v \<longleftrightarrow> empty_value t v"
proof (induction t v rule: isZero.induct)
  case (1 t v)
  show ?case
  proof (cases "\<exists>n fs vs. v = BStruct n fs vs")
    case True
    then obtain n fs vs where v: "v = BStruct n fs vs" by blast
    have "list_all2 (\<lambda>f x. case f of StructField a b c d u \<Rightarrow> isZero u x) fs vs =
        list_all2 (\<lambda>f x. empty_value (field_type f) x) fs vs" if "t \<noteq> TIface"
    proof (rule list.rel_cong [OF refl refl])
      fix f x assume m: "f \<in> set fs" "x \<in> set vs"
      obtain a b c d u where f: "f = StructField a b c d u" by (cases f)
      from 1 [OF that v m f] show "(case f of StructField a b c d u \<Rightarrow> isZero u x) = empty_value (field_type f) x"
        by (simp add: f)
    qed
    then show ?thesis unfolding v by (subst isZero.simps, subst empty_value.simps) auto
  next
    case False
    then show ?thesis by (subst isZero.simps, subst empty_value.simps) (cases v, auto)
  qed
qed


subsection \<open>Conversions\<close>

text \<open>The ranges of the integer types, with \<open>int\<close> and \<open>uint\<close> of 64 bits.\<close>

fun int_range :: "int_kind \<Rightarrow> int set" where
  "int_range KInt8 = {- 128..127}"
| "int_range KInt16 = {- 32768..32767}"
| "int_range KInt32 = {- 2147483648..2147483647}"
| "int_range k = {- 9223372036854775808..9223372036854775807}"

fun uint_range :: "uint_kind \<Rightarrow> int set" where
  "uint_range KUint8 = {0..255}"
| "uint_range KUint16 = {0..65535}"
| "uint_range KUint32 = {0..4294967295}"
| "uint_range k = {0..18446744073709551615}"

fun integer_of :: "bson_value \<Rightarrow> int option" where
  "integer_of (BInt k i) = Some (sint i)"
| "integer_of (BMongoTimestamp i) = Some (sint i)"
| "integer_of v = None"

fun text_of :: "bson_value \<Rightarrow> bytes option" where
  "text_of (BString s) = Some s"
| "text_of (BSymbol s) = Some s"
| "text_of (BObjectId s) = Some s"
| "text_of (BBytes b) = Some b"
| "text_of v = None"

text \<open>
  What an element with a value becomes in a target of a type: what is in an interface keeps its kind; integers
  that fit keep their value; booleans become 1 or 0, numbers are true unless they are 0; strings and binary data
  become strings and bytes.  Floats and integers are not converted into each other here, and raw targets have
  no place.
\<close>

inductive reads_into :: "go_type \<Rightarrow> bson_value \<Rightarrow> bson_value \<Rightarrow> bool" where
  behind: "reads_into t x w \<Longrightarrow> reads_into (TPtr t) x (BPtr w)"
| any: "x \<noteq> BNil \<Longrightarrow> reads_into TIface x x"
| string: "text_of x = Some s \<Longrightarrow> reads_into TString x (BString s)"
| object_id: "text_of x = Some s \<Longrightarrow> reads_into TObjectId x (BObjectId s)"
| bytes: "text_of x = Some s \<Longrightarrow> reads_into (TSlice (TUint KUint8)) x (BBytes s)"
| int: "integer_of x = Some n \<Longrightarrow> n \<in> int_range k \<Longrightarrow> reads_into (TInt k) x (BInt k (word_of_int n))"
| uint: "integer_of x = Some n \<Longrightarrow> n \<in> uint_range k \<Longrightarrow> reads_into (TUint k) x (BUint k (word_of_int n))"
| int_true: "reads_into (TInt k) (BBool True) (BInt k 1)"
| int_false: "reads_into (TInt k) (BBool False) (BInt k 0)"
| uint_true: "reads_into (TUint k) (BBool True) (BUint k 1)"
| uint_false: "reads_into (TUint k) (BBool False) (BUint k 0)"
| float: "reads_into TFloat64 (BFloat w) (BFloat w)"
| float_true: "reads_into TFloat64 (BBool True) (BFloat 0x3FF0000000000000)"
| float_false: "reads_into TFloat64 (BBool False) (BFloat 0)"
| bool: "reads_into TBool (BBool b) (BBool b)"
| bool_int: "integer_of x = Some n \<Longrightarrow> reads_into TBool x (BBool (n \<noteq> 0))"
| bool_zero: "w \<in> {0, 0x8000000000000000} \<Longrightarrow> reads_into TBool (BFloat w) (BBool False)"
| bool_float: "w \<notin> {0, 0x8000000000000000} \<Longrightarrow> reads_into TBool (BFloat w) (BBool True)"
| time: "reads_into TTime (BTime s n) (BTime s n)"

lemma integer_of_value: "integer_of x = Some n \<Longrightarrow> value_int x = Some (word_of_int n) \<and> x \<noteq> BNil \<and> n = sint (word_of_int n :: 64 word)"
  by (cases x) auto

lemma sint_narrow:
  fixes i :: "64 word"
  shows "sint (ucast i :: 8 word) = signed_take_bit 7 (sint i)" "sint (ucast i :: 16 word) = signed_take_bit 15 (sint i)"
    "sint (ucast i :: 32 word) = signed_take_bit 31 (sint i)"
  by (transfer, simp add: signed_take_bit_take_bit)+

lemma scast_back: "sint w = sint i \<Longrightarrow> scast w = i"
  by (simp add: scast_eq)

lemma set_int_range: "sint i \<in> int_range k \<Longrightarrow> set_int k i = BInt k i"
  by (cases k) (auto simp: set_int_def sint_narrow signed_take_bit_int_eq_self intro!: scast_back)

lemma ucast_back: "uint w = uint i \<Longrightarrow> ucast w = i"
  by (simp add: ucast_eq)

lemma uint_narrow:
  fixes i :: "64 word"
  shows "uint i < 256 \<Longrightarrow> ucast (ucast i :: 8 word) = i" "uint i < 65536 \<Longrightarrow> ucast (ucast i :: 16 word) = i"
    "uint i < 4294967296 \<Longrightarrow> ucast (ucast i :: 32 word) = i"
  by (rule ucast_back, simp add: unsigned_ucast_eq take_bit_int_eq_self)+

lemma set_uint_range:
  assumes "sint i \<in> uint_range k"
  shows "set_uint k i = BUint k i"
proof -
  from assms have "0 \<le> sint i" by (cases k) auto
  moreover have "sint i < 2 ^ 64" using sint_range(2) [of i] by simp
  ultimately have "uint i = sint i" unfolding uint_sint [of i] by (intro take_bit_int_eq_self) simp_all
  with assms uint_narrow [of i] show ?thesis
    by (cases k) (auto simp: set_uint_def)
qed

lemma reads_into_fits: "reads_into t x w \<Longrightarrow> fits_target t x w"
proof (induction rule: reads_into.induct)
  case (behind t x w)
  then show ?case by (auto simp: fits_target_def)
next
  case (int x n k)
  from integer_of_value [OF int(1)] int(2) set_int_range [of "word_of_int n" k] show ?case
    by (cases x) (auto simp: fits_target_def)
next
  case (uint x n k)
  from integer_of_value [OF uint(1)] uint(2) set_uint_range [of "word_of_int n" k] show ?case
    by (cases x) (auto simp: fits_target_def)
next
  case (bool_int x n)
  from integer_of_value [OF bool_int] show ?case by (cases x) (auto simp: fits_target_def)
qed (auto simp: fits_target_def set_int_def set_uint_def split: int_kind.split uint_kind.split elim: text_of.elims)

subsection \<open>Documents\<close>

text \<open>A field that is written: exported, and not left out for being empty.\<close>

definition written :: "struct_field \<Rightarrow> bson_value \<Rightarrow> bool" where
  "written f v \<longleftrightarrow> exported f \<and> \<not> (''omitempty'' \<in> set (tag_flags f) \<and> empty_value (field_type f) v)"

text \<open>
  \<open>reads_as dt t m v w\<close>: the value \<open>v\<close>, written as an element (\<open>m\<close>: of the smallest size) and read into a target of type
  \<open>t\<close>, becomes \<open>w\<close>; documents in interfaces become \<open>dt\<close>.  What an element holds is what \<open>scalar_back\<close> says: integers in
  32 bits when they fit and are not 64-bit ones or are to be kept small, times in milliseconds.  Nil gives the zero value; maps and
  ordered documents are the same elements, and the target decides what they become; of a struct, the fields that
  are written are read under the key of their tag, and the others are zero.
\<close>

inductive reads_as :: "go_type \<Rightarrow> go_type \<Rightarrow> bool \<Rightarrow> bson_value \<Rightarrow> bson_value \<Rightarrow> bool" where
  nil: "t \<noteq> TRaw \<Longrightarrow> reads_as dt t m BNil (zero t)"
| scalar: "scalar_back m v = Some x \<Longrightarrow> reads_into t x w \<Longrightarrow> reads_as dt t m v w"
| through: "reads_as dt TIface m v w \<Longrightarrow> reads_as dt TIface m (BPtr v) w"
| pointer: "reads_as dt t m v w \<Longrightarrow> \<not> nil_value v \<Longrightarrow> t \<noteq> TRaw \<Longrightarrow> reads_as dt (TPtr t) m (BPtr v) (BPtr w)"
| slice: "e \<noteq> TUint KUint8 \<Longrightarrow> e \<noteq> typeDocElem \<Longrightarrow> list_all2 (\<lambda>x y. reads_as dt e False x y) vs ws \<Longrightarrow>
    reads_as dt (TSlice e) m (BArray vs) (BArray ws)"
| array: "list_all2 (\<lambda>x y. reads_as dt TIface False x y) vs ws \<Longrightarrow> reads_as dt TIface m (BArray vs) (BArray ws)"
| map: "entries_of v kvs \<Longrightarrow> (if t = TIface then dt else t) = TMap k e \<Longrightarrow> k \<in> {TString, TObjectId} \<Longrightarrow>
    list_all2 (\<lambda>p y. CHR 0x00 \<notin> set (fst p) \<and> reads_as (if e = TIface then TMap k e else dt) e False (snd p) y) kvs ws \<Longrightarrow>
    reads_as dt t m v (BMap (obj_of (zip (map fst kvs) ws)))"
| doc: "entries_of v kvs \<Longrightarrow> (if t = TIface then dt else t) = TD \<Longrightarrow>
    list_all2 (\<lambda>p y. CHR 0x00 \<notin> set (fst p) \<and> reads_as TD TIface False (snd p) y) kvs ws \<Longrightarrow>
    reads_as dt t m v (BDoc (zip (map fst kvs) ws))"
| struct: "plain_tags fs \<Longrightarrow> length vs = length fs \<Longrightarrow> length ws = length fs \<Longrightarrow>
    (\<forall>i < length fs. (written (fs ! i) (vs ! i) \<longrightarrow> CHR 0x00 \<notin> set (field_key (fs ! i)) \<and>
        reads_as dt (field_type (fs ! i)) (''minsize'' \<in> set (tag_flags (fs ! i))) (vs ! i) (ws ! i)) \<and>
      (\<not> written (fs ! i) (vs ! i) \<longrightarrow> ws ! i = zero (field_type (fs ! i)))) \<Longrightarrow>
    reads_as dt (TStruct n fs) m (BStruct n fs vs) (BStruct n fs ws)"
| code: "entries_of x kvs \<Longrightarrow> list_all2 (\<lambda>p y. CHR 0x00 \<notin> set (fst p) \<and> reads_as typeM TIface False (snd p) y) kvs ws \<Longrightarrow>
    reads_into t (BJavaScript c (Some (BMap (obj_of (zip (map fst kvs) ws))))) w \<Longrightarrow>
    reads_as dt t m (BJavaScript c (Some x)) w"

lemma stored_infos:
  "stored_fields \<lparr>FieldsList = infos_of 0 fs, InlineMap = None\<rparr> fs vs =
     map (\<lambda>(i, f). info_of i f) (filter (\<lambda>(i, f). written f (vs ! i)) (enumerate 0 fs))"
proof -
  have "filter (\<lambda>info. \<not> (OmitEmpty info \<and> isZero (type_at [Num info] (TStruct [] fs)) (vs ! Num info))) (map (\<lambda>(i, f). info_of i f) ps) =
      map (\<lambda>(i, f). info_of i f) (filter (\<lambda>(i, f). \<not> (''omitempty'' \<in> set (tag_flags f) \<and> empty_value (field_type f) (vs ! i))) ps)"
    if "set ps \<subseteq> set (enumerate 0 fs)" for ps
    using that
  proof (induction ps)
    case (Cons p ps)
    obtain i f where p: "p = (i, f)" by fastforce
    with Cons.prems have i: "i < length fs" "fs ! i = f" by (auto simp: in_set_enumerate_eq)
    then have "type_at [i] (TStruct [] fs) = field_type f" by (cases f) simp
    with Cons show ?case by (simp add: p info_of_def isZero_empty del: type_at.simps)
  qed simp
  note e = this
  have "set (filter (\<lambda>(j, f). exported f) (enumerate 0 fs)) \<subseteq> set (enumerate 0 fs)" by auto
  from e [OF this] show ?thesis
    unfolding stored_fields_def infos_of_def struct_info.select_convs filter_filter
    by (elim trans) (rule arg_cong [of _ _ "map (\<lambda>(i, f). info_of i f)"], rule filter_cong, auto simp: written_def)
qed

lemma fold_update_same:
  assumes "\<And>info y. (info, y) \<in> set ps \<Longrightarrow> y = vs ! Num info" "length zs = length vs"
    "\<And>i. i < length vs \<Longrightarrow> i \<notin> Num ` fst ` set ps \<Longrightarrow> zs ! i = vs ! i"
  shows "fold (\<lambda>(info, y) zs. zs[Num info := y]) ps zs = vs"
  using assms
proof (induction ps arbitrary: zs)
  case Nil
  then show ?case by (intro nth_equalityI) auto
next
  case (Cons p ps)
  obtain info y where p: "p = (info, y)" by fastforce
  have "fold (\<lambda>(info, y) zs. zs[Num info := y]) ps (zs[Num info := y]) = vs"
  proof (rule Cons.IH)
    fix i assume "i < length vs" "i \<notin> Num ` fst ` set ps"
    then show "zs[Num info := y] ! i = vs ! i" using Cons.prems p by (cases "i = Num info") auto
  qed (use Cons.prems p in auto)
  then show ?case by (simp add: p)
qed

theorem reads_as_travels: "reads_as dt t m v w \<Longrightarrow> travels dt t m v w"
proof (induction rule: reads_as.induct)
  case (nil t dt m)
  then show ?case by (rule travels.nil)
next
  case (scalar m v x t w dt)
  then show ?case by (intro travels.scalar reads_into_fits)
next
  case (through dt m v w)
  then show ?case by (intro travels.through)
next
  case (pointer dt t m v w)
  then show ?case by (intro travels.pointer)
next
  case (slice e dt vs ws m)
  then have "list_all2 (travels dt e False) vs ws" by (auto elim: list_all2_mono)
  from travels.slice [OF this] slice(1,2) show ?case by (simp add: mk_slice_def)
next
  case (array dt vs ws m)
  then show ?case by (intro travels.array) (auto elim: list_all2_mono)
next
  case (map v kvs t dt k e ws m)
  then show ?case by (intro travels.map [of v kvs t dt k e]) (auto simp: string_kind_def elim: list_all2_mono)
next
  case (doc v kvs t dt ws m)
  then show ?case by (intro travels.doc) (auto elim: list_all2_mono)
next
  case (struct fs vs ws dt n m)
  let ?s = "\<lparr>FieldsList = infos_of 0 fs, InlineMap = None\<rparr>"
  let ?ps = "filter (\<lambda>(i, f). written f (vs ! i)) (enumerate 0 fs)"
  let ?ys = "map (\<lambda>(i, f). ws ! i) ?ps"
  have stored: "stored_fields ?s fs vs = map (\<lambda>(i, f). info_of i f) ?ps" by (rule stored_infos)
  have plain: "plain_struct ?s fs" by (auto simp: plain_struct_def infos_of_def info_of_def)
  have "list_all2 (\<lambda>info y. CHR 0x00 \<notin> set (Key info) \<and>
      travels dt (type_at [Num info] (TStruct [] fs)) (MinSize info) (vs ! Num info) y) (stored_fields ?s fs vs) ?ys"
    unfolding stored list.rel_map
  proof (rule list.rel_refl_strong)
    fix p assume p: "p \<in> set ?ps"
    obtain i f where f: "p = (i, f)" by fastforce
    with p have i: "i < length fs" "fs ! i = f" "written f (vs ! i)" by (auto simp: in_set_enumerate_eq)
    then have "type_at [i] (TStruct [] fs) = field_type f" by (cases f) simp
    with i struct(4) show "CHR 0x00 \<notin> set (Key (case p of (i, f) \<Rightarrow> info_of i f)) \<and>
        travels dt (type_at [Num (case p of (i, f) \<Rightarrow> info_of i f)] (TStruct [] fs)) (MinSize (case p of (i, f) \<Rightarrow> info_of i f))
          (vs ! Num (case p of (i, f) \<Rightarrow> info_of i f)) (case p of (i, f) \<Rightarrow> ws ! i)"
      by (auto simp: f info_of_def simp del: type_at.simps)
  qed
  from travels.struct [OF getStructInfo_plain [OF struct(1)] plain struct(2) this]
  have t: "travels dt (TStruct n fs) m (BStruct n fs vs)
      (BStruct n fs (fold (\<lambda>(info, y) zs. zs[Num info := y]) (zip (stored_fields ?s fs vs) ?ys) (map zero_field fs)))" .
  have z: "zip (stored_fields ?s fs vs) ?ys = map (\<lambda>(i, f). (info_of i f, ws ! i)) ?ps"
    unfolding stored zip_map_map by (simp add: zip_same_conv_map case_prod_beta)
  have "fold (\<lambda>(info, y) zs. zs[Num info := y]) (zip (stored_fields ?s fs vs) ?ys) (map zero_field fs) = ws"
  proof (rule fold_update_same)
    show "y = ws ! Num info" if "(info, y) \<in> set (zip (stored_fields ?s fs vs) ?ys)" for info y
      using that unfolding z by (auto simp: info_of_def)
    show "map zero_field fs ! i = ws ! i" if i: "i < length ws" "i \<notin> Num ` fst ` set (zip (stored_fields ?s fs vs) ?ys)" for i
    proof -
      have "\<not> written (fs ! i) (vs ! i)"
      proof
        assume w: "written (fs ! i) (vs ! i)"
        with i(1) struct(3) have "(i, fs ! i) \<in> set ?ps" by (auto simp: in_set_enumerate_eq)
        then have "(info_of i (fs ! i), ws ! i) \<in> set (zip (stored_fields ?s fs vs) ?ys)" unfolding z by force
        then have "Num (info_of i (fs ! i)) \<in> Num ` fst ` set (zip (stored_fields ?s fs vs) ?ys)" by force
        with i(2) show False by (simp add: info_of_def)
      qed
      with struct(3,4) i(1) show ?thesis by (cases "fs ! i") simp
    qed
  qed (simp add: struct(3))
  with t show ?case by simp
next
  case (code x kvs ws t c w dt m)
  then show ?case by (intro travels.code reads_into_fits) (auto elim: list_all2_mono)
qed

text \<open>
  Property C26.  BSON documents read back.  What \<open>reads_as\<close> says of a document, from the documentation of the package, is
  what \<open>Unmarshal\<close> makes of the bytes that \<open>Marshal\<close> made of it, as long as they are fewer than 2 GB: every kind of element,
  nested documents, arrays, pointers and structs read into their own type, with the keys and flags of the tags, the
  widths of integers, milliseconds of times, the conversions that are promised, and zeros for fields that are
  left out.  Not covered are inlined fields, raw values and targets, conversions between floats and integers, and
  integers that do not fit their target (\<open>wide_int_wraps\<close>).
\<close>

theorem bson_reads_back:
  assumes "reads_as typeM t False v w" "is_doc v" "takes_document t"
  shows "\<exists>b. bson_Marshal v = Inr (Inr b) \<and>
    (length b < 2147483648 \<longrightarrow> bson_Unmarshal fl b (TPtr t) = Inr (Inr (BPtr w)))"
  using reads_as_travels [OF assms(1)] assms(2,3) by (rule bson_travels)

text \<open>
  An integer that does not fit its target is documented to be skipped without a word; it is stored modulo the
  width of the target.
\<close>

lemma wide_int_wraps:
  "\<exists>b. bson_Marshal (BMap [(''a'', BInt KInt 300)]) = Inr (Inr b) \<and>
     bson_Unmarshal fl b (TPtr (TMap TString (TInt KInt8))) = Inr (Inr (BPtr (BMap [(''a'', BInt KInt8 44)])))"
proof -
  have "fits_target (TInt KInt8) (BInt KInt 300) (BInt KInt8 44)" by (simp add: fits_target_def set_int_def)
  then have "travels typeM (TInt KInt8) False (BInt KInt 300) (BInt KInt8 44)"
    by (rule travels.scalar [rotated]) (simp add: fits_int32_def)
  then have "travels typeM (TMap TString (TInt KInt8)) False (BMap [(''a'', BInt KInt 300)])
      (BMap (obj_of (zip (map fst [(''a'', BInt KInt 300)]) [BInt KInt8 44])))"
    by (intro travels.map [of _ _ _ _ TString "TInt KInt8"]) (simp_all add: entries_of_def string_kind_def)
  from bson_travels [OF this, of fl] obtain b where b: "bson_Marshal (BMap [(''a'', BInt KInt 300)]) = Inr (Inr b)"
    "length b < 2147483648 \<Longrightarrow> bson_Unmarshal fl b (TPtr (TMap TString (TInt KInt8))) = Inr (Inr (BPtr (BMap [(''a'', BInt KInt8 44)])))"
    by (auto simp: is_doc_def takes_document_def obj_of_def)
  have "case bson_Marshal (BMap [(''a'', BInt KInt 300)]) of Inr (Inr b) \<Rightarrow> length b < 100 | _ \<Rightarrow> False" by code_simp
  with b show ?thesis by simp
qed

end
