(* ===== verification/AppDocuments.thy ===== *)
theory AppDocuments
  imports BsonReads AppDataSpec
begin

text \<open>
  The documents of the program in the database: the struct types of \<open>identity.go\<close>, \<open>instance.go\<close> and \<open>main.go\<close> with
  their tags, the values of the model's records in them, and that they read back unchanged, which the
  handlers' model takes for granted.  Nil and empty maps and slices are not told apart.
\<close>

subsection \<open>Types\<close>

abbreviation tagged :: "string \<Rightarrow> string \<Rightarrow> go_type \<Rightarrow> struct_field" where
  "tagged name tag t \<equiv> StructField name [] (''bson:'' @ tag) tag t"

definition KV_fields :: "struct_field list" where
  "KV_fields = [tagged ''Key'' ''_id'' TString, tagged ''Value'' ''value'' TString]"

definition Identity_fields :: "struct_field list" where
  "Identity_fields =
     [tagged ''ID'' ''_id'' TString, tagged ''Hostname'' ''hostname'' TString,
      tagged ''PrivateJwk'' ''_jwk'' (TMap TString TIface), tagged ''PublicJwk'' ''jwk'' (TMap TString TIface),
      tagged ''Passhash'' ''passhash'' TString, tagged ''FirstName'' ''firstName'' TString,
      tagged ''LastName'' ''lastName'' TString]"

definition jsHeader_fields :: "struct_field list" where
  "jsHeader_fields =
     [tagged ''JWK'' ''jwk,omitempty'' (TSlice (TUint KUint8)), StructField ''Algorithm'' [] ''json:alg'' [] TString,
      tagged ''Chain'' ''x5c,omitempty'' (TSlice TString)]"

definition jsSignature_fields :: "struct_field list" where
  "jsSignature_fields =
     [tagged ''Header'' ''header'' (TStruct ''main.jsHeader'' jsHeader_fields), tagged ''Signature'' ''signature'' TString,
      tagged ''Protected'' ''protected'' TString]"

definition PayloadIdentities_fields :: "struct_field list" where
  "PayloadIdentities_fields =
     [tagged ''Archive'' ''archive'' TBool, tagged ''Modify'' ''modify'' TBool, tagged ''Remove'' ''remove'' TBool]"

definition Permissions_fields :: "struct_field list" where
  "Permissions_fields =
     [tagged ''Identities'' ''identities'' (TMap TString (TStruct ''main.PayloadIdentities'' PayloadIdentities_fields)),
      tagged ''Public'' ''public'' TBool]"

definition Payload_fields :: "struct_field list" where
  "Payload_fields =
     [tagged ''ID'' ''id'' TString, tagged ''Owner'' ''owner'' TString,
      tagged ''Permissions'' ''permissions'' (TStruct ''struct'' Permissions_fields),
      tagged ''Schema'' ''schema'' TString, tagged ''Data'' ''data'' TIface,
      tagged ''Signatures'' ''signatures,omitempty'' (TSlice (TStruct ''main.jsSignature'' jsSignature_fields))]"

definition Instance_fields :: "struct_field list" where
  "Instance_fields =
     [tagged ''ID'' ''_id'' TString, tagged ''Owner'' ''owner'' (TPtr (TStruct ''main.Identity'' Identity_fields)),
      tagged ''Payload'' ''payload'' (TStruct ''main.Payload'' Payload_fields)]"

subsection \<open>Values\<close>

text \<open>A decoded JSON value, with the bits of its numbers.\<close>

fun bson_of_json :: "(int \<Rightarrow> 64 word) \<Rightarrow> json \<Rightarrow> bson_value" where
  "bson_of_json num JNull = BNil"
| "bson_of_json num (JBool b) = BBool b"
| "bson_of_json num (JNum n) = BFloat (num n)"
| "bson_of_json num (JStr s) = BString s"
| "bson_of_json num (JArr vs) = BArray (map (bson_of_json num) vs)"
| "bson_of_json num (JObj kvs) = BMap (map (\<lambda>(k, v). (k, bson_of_json num v)) kvs)"

definition bson_of_obj :: "(int \<Rightarrow> 64 word) \<Rightarrow> obj option \<Rightarrow> bson_value" where
  "bson_of_obj num m = BMap (case m of None \<Rightarrow> [] | Some kvs \<Rightarrow> map (\<lambda>(k, v). (k, bson_of_json num v)) kvs)"

definition KV_document :: "KV \<Rightarrow> bson_value" where
  "KV_document kv = BStruct ''main.KV'' KV_fields [BString (kv_key kv), BString (kv_value kv)]"

definition Identity_document :: "(int \<Rightarrow> 64 word) \<Rightarrow> Identity \<Rightarrow> bson_value" where
  "Identity_document num s = BStruct ''main.Identity'' Identity_fields
     [BString (identity_id s), BString (hostname s), bson_of_obj num (PrivateJwk s), bson_of_obj num (PublicJwk s),
      BString (Passhash s), BString (FirstName s), BString (LastName s)]"

definition signature_document :: "(json \<Rightarrow> bytes) \<Rightarrow> app_signature \<Rightarrow> bson_value" where
  "signature_document raw s = BStruct ''main.jsSignature'' jsSignature_fields
     [BStruct ''main.jsHeader'' jsHeader_fields
        [BBytes (case ph_jwk (ps_header s) of None \<Rightarrow> [] | Some v \<Rightarrow> raw v), BString (ph_alg (ps_header s)),
         BArray (case ph_chain (ps_header s) of None \<Rightarrow> [] | Some c \<Rightarrow> map BString c)],
      BString (ps_signature s), BString (ps_protected s)]"

definition permission_document :: "PayloadIdentities \<Rightarrow> bson_value" where
  "permission_document p = BStruct ''main.PayloadIdentities'' PayloadIdentities_fields
     [BBool (can_archive p), BBool (can_modify p), BBool (can_remove p)]"

definition Payload_document :: "(int \<Rightarrow> 64 word) \<Rightarrow> (json \<Rightarrow> bytes) \<Rightarrow> Payload \<Rightarrow> bson_value" where
  "Payload_document num raw p = BStruct ''main.Payload'' Payload_fields
     [BString (payload_id p), BString (payload_owner p),
      BStruct ''struct'' Permissions_fields
        [BMap (case perm_identities p of None \<Rightarrow> [] | Some m \<Rightarrow> map (\<lambda>(k, v). (k, permission_document v)) m),
         BBool (perm_public p)],
      BString (schema p), bson_of_json num (payload_data p),
      BArray (case payload_signatures p of None \<Rightarrow> [] | Some ss \<Rightarrow> map (signature_document raw) ss)]"

definition Instance_document :: "(int \<Rightarrow> 64 word) \<Rightarrow> (json \<Rightarrow> bytes) \<Rightarrow> Instance \<Rightarrow> bson_value" where
  "Instance_document num raw i = BStruct ''main.Instance'' Instance_fields
     [BString (instance_id i),
      (case instance_owner i of None \<Rightarrow> BNil | Some s \<Rightarrow> BPtr (Identity_document num s)),
      Payload_document num raw (instance_payload i)]"

subsection \<open>Reading back\<close>

lemma list_all2_map_right: "(\<And>x. x \<in> set xs \<Longrightarrow> P x (g x)) \<Longrightarrow> list_all2 P xs (map g xs)"
  by (simp add: list.rel_map list.rel_refl_strong)

text \<open>A struct whose stored fields read back as themselves, and whose left out ones are zero.\<close>

lemma struct_same:
  assumes "getStructInfo n fs = Inr s" "plain_struct s fs" "length vs = length fs" "Num ` set (FieldsList s) = {..<length fs}"
    "\<And>info. info \<in> set (FieldsList s) \<Longrightarrow> CHR 0x00 \<notin> set (Key info) \<and>
      (travels dt (type_at [Num info] (TStruct [] fs)) (MinSize info) (vs ! Num info) (vs ! Num info) \<and>
       (OmitEmpty info \<longrightarrow> isZero (type_at [Num info] (TStruct [] fs)) (vs ! Num info) \<longrightarrow>
         vs ! Num info = zero (type_at [Num info] (TStruct [] fs))))"
  shows "travels dt (TStruct n fs) m (BStruct n fs vs) (BStruct n fs vs)"
proof -
  let ?ws = "map (\<lambda>info. vs ! Num info) (stored_fields s fs vs)"
  have all: "list_all2 (\<lambda>info y. CHR 0x00 \<notin> set (Key info) \<and>
      travels dt (type_at [Num info] (TStruct [] fs)) (MinSize info) (vs ! Num info) y) (stored_fields s fs vs) ?ws"
    by (rule list_all2_map_right) (use assms(5) in \<open>simp add: stored_fields_def del: type_at.simps\<close>)
  have "fold (\<lambda>(info, y) zs. zs[Num info := y]) (zip (stored_fields s fs vs) ?ws) (map zero_field fs) = vs"
  proof (rule fold_update_same)
    fix i assume i: "i < length vs" "i \<notin> Num ` fst ` set (zip (stored_fields s fs vs) ?ws)"
    with assms(3,4) obtain info where info: "info \<in> set (FieldsList s)" "Num info = i" by (metis imageE lessThan_iff)
    moreover have "fst ` set (zip (stored_fields s fs vs) ?ws) = set (stored_fields s fs vs)"
      by (metis length_map list.set_map map_fst_zip)
    ultimately have "OmitEmpty info \<and> isZero (type_at [Num info] (TStruct [] fs)) (vs ! Num info)"
      using i(2) by (auto simp: stored_fields_def simp del: type_at.simps)
    with assms(5) [OF info(1)] have "vs ! i = zero (type_at [i] (TStruct [] fs))" using info(2) by auto
    then show "map zero_field fs ! i = vs ! i" using i(1) assms(3) by (cases "fs ! i") simp
  qed (auto simp: assms(3) set_zip)
  with travels.struct [OF assms(1-3) all, of m] show ?thesis by simp
qed

text \<open>Names without zero bytes, in a value in canonical form.\<close>

fun names_ok :: "json \<Rightarrow> bool" where
  "names_ok (JArr vs) \<longleftrightarrow> (\<forall>v \<in> set vs. names_ok v)"
| "names_ok (JObj kvs) \<longleftrightarrow> (\<forall>(k, v) \<in> set kvs. CHR 0x00 \<notin> set k \<and> names_ok v)"
| "names_ok v \<longleftrightarrow> True"

lemma travels_scalar: "scalar_back m v = Some v \<Longrightarrow> fits_target t v v \<Longrightarrow> travels dt t m v v"
  by (rule travels.scalar)

lemma canon_obj:
  assumes "canon (JObj kvs) = JObj kvs"
  shows "obj_sorted kvs" "(k, v) \<in> set kvs \<Longrightarrow> canon v = v"
proof -
  let ?m = "map (\<lambda>(k, v). (k, canon v)) kvs"
  from assms have e: "obj_of ?m = kvs" by simp
  have "obj_sorted (obj_of ?m)" unfolding obj_of_def by (rule sorted_fold_put) (simp add: obj_sorted_def)
  with e show "obj_sorted kvs" by simp
  assume "(k, v) \<in> set kvs"
  then have "(k, v) \<in> set (obj_of ?m)" by (simp add: e)
  then have "(k, v) \<in> set ?m" using set_fold_put [of ?m "[]"] by (auto simp: obj_of_def)
  then show "canon v = v" by auto
qed

lemma map_same:
  assumes "t = TMap TString e \<or> t = TIface \<and> dt = typeM \<and> e = TIface" "dt = typeM" "obj_sorted kvs"
    "\<And>k v. (k, v) \<in> set kvs \<Longrightarrow> CHR 0x00 \<notin> set k \<and> travels typeM e False (f v) (f v)"
  shows "travels dt t m (BMap (map (\<lambda>(k, v). (k, f v)) kvs)) (BMap (map (\<lambda>(k, v). (k, f v)) kvs))"
proof -
  let ?kvs = "map (\<lambda>(k, v). (k, f v)) kvs"
  have "travels dt t m (BMap ?kvs) (BMap (obj_of (zip (map fst ?kvs) (map snd ?kvs))))"
  proof (rule travels.map)
    show "entries_of (BMap ?kvs) ?kvs" by (simp add: entries_of_def)
    show "(if t = TIface then dt else t) = TMap TString e" using assms(1,2) by (auto simp: typeM_def)
    show "list_all2 (\<lambda>p y. CHR 0x00 \<notin> set (fst p) \<and> travels (if e = TIface then TMap TString e else dt) e False (snd p) y)
        ?kvs (map snd ?kvs)"
      by (rule list_all2_map_right) (use assms(2,4) in \<open>auto simp: typeM_def\<close>)
  qed (simp add: string_kind_def)
  moreover have "obj_sorted ?kvs" using assms(3) by (simp add: obj_sorted_def comp_def split_beta)
  moreover have "zip (map fst ?kvs) (map snd ?kvs) = ?kvs" by (rule zip_map_fst_snd)
  ultimately show ?thesis by (simp only: obj_of_sorted)
qed

lemma json_travels: "canon j = j \<Longrightarrow> names_ok j \<Longrightarrow> travels typeM TIface m (bson_of_json num j) (bson_of_json num j)"
proof (induction j arbitrary: m)
  case JNull
  show ?case using travels.nil [of TIface typeM m] by simp
next
  case (JArr vs)
  have "canon v = v" if "v \<in> set vs" for v using JArr(2) that by (auto simp: map_eq_conv [of canon vs id, simplified])
  then have "list_all2 (\<lambda>x y. travels typeM TIface False x y) (map (bson_of_json num) vs) (map (bson_of_json num) vs)"
    using JArr(1,3) by (auto simp: list_all2_conv_all_nth)
  then show ?case using travels.array by simp
next
  case (JObj kvs)
  from JObj(2) have "obj_sorted kvs" by (rule canon_obj(1))
  moreover have "CHR 0x00 \<notin> set k \<and> travels typeM TIface False (bson_of_json num v) (bson_of_json num v)"
    if "(k, v) \<in> set kvs" for k v
    using JObj(1) [OF that, of v] JObj(3) canon_obj(2) [OF JObj(2) that] that by auto
  ultimately show ?case using map_same [of TIface TIface typeM kvs "bson_of_json num" m] by simp
qed (simp_all add: travels_scalar fits_target_def)

lemma travels_basic [simp]:
  "travels dt TString m (BString s) (BString s)"
  "travels dt TBool m (BBool b) (BBool b)"
  "travels dt (TSlice (TUint KUint8)) m (BBytes d) (BBytes d)"
  "travels dt (TPtr t) m BNil BNil"
  using travels.nil [of "TPtr t" dt m] by (simp_all add: travels_scalar fits_target_def)

lemma slice_same:
  "e \<noteq> TUint KUint8 \<Longrightarrow> e \<noteq> typeDocElem \<Longrightarrow> (\<And>v. v \<in> set vs \<Longrightarrow> travels dt e False v v) \<Longrightarrow>
    travels dt (TSlice e) m (BArray vs) (BArray vs)"
  using travels.slice [of dt e vs vs m] by (simp add: mk_slice_def list.rel_refl_strong)

definition obj_ok :: "obj option \<Rightarrow> bool" where
  "obj_ok m \<longleftrightarrow> (case m of None \<Rightarrow> True | Some kvs \<Rightarrow> canon (JObj kvs) = JObj kvs \<and> names_ok (JObj kvs))"

lemma obj_same: "obj_ok m \<Longrightarrow> travels typeM (TMap TString TIface) k (bson_of_obj num m) (bson_of_obj num m)"
proof (cases m)
  case None
  then show ?thesis using map_same [of "TMap TString TIface" TIface typeM "[]" id k] by (simp add: bson_of_obj_def obj_sorted_def)
next
  case (Some kvs)
  assume ok: "obj_ok m"
  then have c: "canon (JObj kvs) = JObj kvs" by (simp add: obj_ok_def Some)
  show ?thesis unfolding bson_of_obj_def Some option.case
  proof (rule map_same)
    show "obj_sorted kvs" using c by (rule canon_obj(1))
    show "CHR 0x00 \<notin> set k \<and> travels typeM TIface False (bson_of_json num v) (bson_of_json num v)"
      if "(k, v) \<in> set kvs" for k v
      using canon_obj(2) [OF c that] ok that by (auto simp: obj_ok_def Some intro: json_travels)
  qed simp_all
qed

lemma struct_infos:
  "getStructInfo ''main.KV'' KV_fields = Inr \<lparr>FieldsList = map (\<lambda>(i, k). \<lparr>Key = k, Num = i, OmitEmpty = False, MinSize = False, Inline = []\<rparr>)
     (enumerate 0 [''_id'', ''value'']), InlineMap = None\<rparr>"
  "getStructInfo ''main.Identity'' Identity_fields = Inr \<lparr>FieldsList = map (\<lambda>(i, k). \<lparr>Key = k, Num = i, OmitEmpty = False, MinSize = False, Inline = []\<rparr>)
     (enumerate 0 [''_id'', ''hostname'', ''_jwk'', ''jwk'', ''passhash'', ''firstName'', ''lastName'']), InlineMap = None\<rparr>"
  "getStructInfo ''main.jsHeader'' jsHeader_fields = Inr \<lparr>FieldsList = map (\<lambda>(i, k, omit). \<lparr>Key = k, Num = i, OmitEmpty = omit, MinSize = False, Inline = []\<rparr>)
     (enumerate 0 [(''jwk'', True), (''algorithm'', False), (''x5c'', True)]), InlineMap = None\<rparr>"
  "getStructInfo ''main.jsSignature'' jsSignature_fields = Inr \<lparr>FieldsList = map (\<lambda>(i, k). \<lparr>Key = k, Num = i, OmitEmpty = False, MinSize = False, Inline = []\<rparr>)
     (enumerate 0 [''header'', ''signature'', ''protected'']), InlineMap = None\<rparr>"
  "getStructInfo ''main.PayloadIdentities'' PayloadIdentities_fields = Inr \<lparr>FieldsList = map (\<lambda>(i, k). \<lparr>Key = k, Num = i, OmitEmpty = False, MinSize = False, Inline = []\<rparr>)
     (enumerate 0 [''archive'', ''modify'', ''remove'']), InlineMap = None\<rparr>"
  "getStructInfo ''struct'' Permissions_fields = Inr \<lparr>FieldsList = map (\<lambda>(i, k). \<lparr>Key = k, Num = i, OmitEmpty = False, MinSize = False, Inline = []\<rparr>)
     (enumerate 0 [''identities'', ''public'']), InlineMap = None\<rparr>"
  "getStructInfo ''main.Payload'' Payload_fields = Inr \<lparr>FieldsList = map (\<lambda>(i, k, omit). \<lparr>Key = k, Num = i, OmitEmpty = omit, MinSize = False, Inline = []\<rparr>)
     (enumerate 0 [(''id'', False), (''owner'', False), (''permissions'', False), (''schema'', False), (''data'', False), (''signatures'', True)]), InlineMap = None\<rparr>"
  "getStructInfo ''main.Instance'' Instance_fields = Inr \<lparr>FieldsList = map (\<lambda>(i, k). \<lparr>Key = k, Num = i, OmitEmpty = False, MinSize = False, Inline = []\<rparr>)
     (enumerate 0 [''_id'', ''owner'', ''payload'']), InlineMap = None\<rparr>"
  by code_simp+

lemma KV_same: "travels typeM (TStruct ''main.KV'' KV_fields) m (KV_document kv) (KV_document kv)"
  unfolding KV_document_def
  by (rule struct_same [OF struct_infos(1)]) (auto simp: plain_struct_def KV_fields_def lessThan_Suc eval_nat_numeral)

lemma Identity_same:
  assumes "obj_ok (PrivateJwk s)" "obj_ok (PublicJwk s)"
  shows "travels typeM (TStruct ''main.Identity'' Identity_fields) m (Identity_document num s) (Identity_document num s)"
  unfolding Identity_document_def
  by (rule struct_same [OF struct_infos(2)])
    (auto simp: plain_struct_def Identity_fields_def lessThan_Suc eval_nat_numeral obj_same assms)

lemma isZero_slices [simp]: "isZero (TSlice t) (BBytes b) \<longleftrightarrow> b = []" "isZero (TSlice t) (BArray vs) \<longleftrightarrow> vs = []"
  by (simp_all add: isZero.simps)

lemma typeDocElem_other [simp]: "TString \<noteq> typeDocElem" "TStruct ''main.jsSignature'' fs \<noteq> typeDocElem"
  by (simp_all add: typeDocElem_def)

lemma strings_same [simp]: "travels dt (TSlice TString) m (BArray (map BString c)) (BArray (map BString c))"
  by (rule slice_same) auto

lemma header_same:
  "travels typeM (TStruct ''main.jsHeader'' jsHeader_fields) m
     (BStruct ''main.jsHeader'' jsHeader_fields [BBytes d, BString a, BArray (map BString c)])
     (BStruct ''main.jsHeader'' jsHeader_fields [BBytes d, BString a, BArray (map BString c)])"
  by (rule struct_same [OF struct_infos(3)])
    (auto simp: plain_struct_def jsHeader_fields_def lessThan_Suc eval_nat_numeral)

lemma signature_same:
  "travels typeM (TStruct ''main.jsSignature'' jsSignature_fields) m (signature_document raw s) (signature_document raw s)"
proof -
  have chain: "(case ph_chain h of None \<Rightarrow> [] | Some c \<Rightarrow> map BString c) = map BString (case ph_chain h of None \<Rightarrow> [] | Some c \<Rightarrow> c)" for h
    by (simp split: option.split)
  show ?thesis
    unfolding signature_document_def chain
    by (intro struct_same [OF struct_infos(4)])
      (auto simp: plain_struct_def jsSignature_fields_def lessThan_Suc eval_nat_numeral header_same)
qed

lemma permission_same:
  "travels typeM (TStruct ''main.PayloadIdentities'' PayloadIdentities_fields) m (permission_document p) (permission_document p)"
  unfolding permission_document_def
  by (rule struct_same [OF struct_infos(5)])
    (auto simp: plain_struct_def PayloadIdentities_fields_def lessThan_Suc eval_nat_numeral)

text \<open>Payloads as they are decoded (\<open>payload_typed\<close>), without zero bytes in names.\<close>

definition payload_ok :: "Payload \<Rightarrow> bool" where
  "payload_ok p \<longleftrightarrow> payload_typed p \<and> names_ok (payload_data p) \<and>
     (\<forall>m. perm_identities p = Some m \<longrightarrow> (\<forall>k \<in> fst ` set m. CHR 0x00 \<notin> set k))"

lemma permissions_same:
  assumes "payload_ok p"
  shows "travels typeM (TStruct ''struct'' Permissions_fields) m
    (BStruct ''struct'' Permissions_fields
      [BMap (case perm_identities p of None \<Rightarrow> [] | Some m \<Rightarrow> map (\<lambda>(k, v). (k, permission_document v)) m), BBool b])
    (BStruct ''struct'' Permissions_fields
      [BMap (case perm_identities p of None \<Rightarrow> [] | Some m \<Rightarrow> map (\<lambda>(k, v). (k, permission_document v)) m), BBool b])"
proof -
  let ?kvs = "case perm_identities p of None \<Rightarrow> [] | Some m \<Rightarrow> m"
  have "travels typeM (TMap TString (TStruct ''main.PayloadIdentities'' PayloadIdentities_fields)) k
      (BMap (map (\<lambda>(k, v). (k, permission_document v)) ?kvs)) (BMap (map (\<lambda>(k, v). (k, permission_document v)) ?kvs))" for k
    by (rule map_same; cases "perm_identities p")
      (use assms in \<open>force simp: payload_ok_def payload_typed_def obj_sorted_def permission_same\<close>)+
  moreover have "(case perm_identities p of None \<Rightarrow> [] | Some m \<Rightarrow> map (\<lambda>(k, v). (k, permission_document v)) m) =
      map (\<lambda>(k, v). (k, permission_document v)) ?kvs" by (simp split: option.split)
  ultimately show ?thesis
    by (intro struct_same [OF struct_infos(6)])
      (auto simp: plain_struct_def Permissions_fields_def lessThan_Suc eval_nat_numeral)
qed

lemma Payload_same:
  assumes "payload_ok p"
  shows "travels typeM (TStruct ''main.Payload'' Payload_fields) m (Payload_document num raw p) (Payload_document num raw p)"
proof -
  have "travels typeM (TSlice (TStruct ''main.jsSignature'' jsSignature_fields)) k
      (BArray (map (signature_document raw) ss)) (BArray (map (signature_document raw) ss))" for k ss
    by (rule slice_same) (auto simp: signature_same)
  moreover have "(case payload_signatures p of None \<Rightarrow> [] | Some ss \<Rightarrow> map (signature_document raw) ss) =
      map (signature_document raw) (case payload_signatures p of None \<Rightarrow> [] | Some ss \<Rightarrow> ss)" by (simp split: option.split)
  moreover have "travels typeM TIface k (bson_of_json num (payload_data p)) (bson_of_json num (payload_data p))" for k
    using assms by (intro json_travels) (auto simp: payload_ok_def payload_typed_def)
  ultimately show ?thesis
    unfolding Payload_document_def
    by (intro struct_same [OF struct_infos(7)])
      (auto simp: plain_struct_def Payload_fields_def lessThan_Suc eval_nat_numeral permissions_same [OF assms])
qed

definition identity_ok :: "Identity \<Rightarrow> bool" where
  "identity_ok s \<longleftrightarrow> obj_ok (PrivateJwk s) \<and> obj_ok (PublicJwk s)"

lemma Instance_same:
  assumes "payload_ok (instance_payload i)" "\<And>s. instance_owner i = Some s \<Longrightarrow> identity_ok s"
  shows "travels typeM (TStruct ''main.Instance'' Instance_fields) m (Instance_document num raw i) (Instance_document num raw i)"
proof -
  have owner: "travels typeM (TPtr (TStruct ''main.Identity'' Identity_fields)) k
      (case instance_owner i of None \<Rightarrow> BNil | Some s \<Rightarrow> BPtr (Identity_document num s))
      (case instance_owner i of None \<Rightarrow> BNil | Some s \<Rightarrow> BPtr (Identity_document num s))" for k
    using assms(2) Identity_same by (auto simp: identity_ok_def Identity_document_def split: option.split intro!: travels.pointer)
  show ?thesis
    unfolding Instance_document_def
    by (rule struct_same [OF struct_infos(8)])
      (auto simp: plain_struct_def Instance_fields_def lessThan_Suc eval_nat_numeral Payload_same [OF assms(1)] owner)
qed

text \<open>
  Property C25.  Stored documents read back.  Settings, identities and instances, as the program stores them
  (data as it is decoded from JSON, names without zero bytes, less than 2 GB), are encoded, and decoding them into
  their struct types gives the values that were stored; this is what the model of the handlers assumes of the
  database.
\<close>

theorem stored_documents_read_back:
  assumes "identity_ok s" "payload_ok (instance_payload i)" "\<And>s. instance_owner i = Some s \<Longrightarrow> identity_ok s"
    "(v, t) \<in> {(KV_document kv, TStruct ''main.KV'' KV_fields), (Identity_document num s, TStruct ''main.Identity'' Identity_fields),
       (Instance_document num raw i, TStruct ''main.Instance'' Instance_fields)}"
  shows "\<exists>b. bson_Marshal v = Inr (Inr b) \<and>
    (length b < 2147483648 \<longrightarrow> bson_Unmarshal fl b (TPtr t) = Inr (Inr (BPtr v)))"
proof (rule bson_travels)
  show "travels typeM t False v v"
    using assms KV_same Identity_same Instance_same by (auto simp: identity_ok_def)
  show "is_doc v" "takes_document t"
    using assms(4) by (auto simp: is_doc_def takes_document_def KV_document_def Identity_document_def Instance_document_def)
qed

end
