(* ===== verification/BsonWitness.thy ===== *)
theory BsonWitness
  imports AppDocuments
begin

text \<open>The properties of the documents at concrete ones.\<close>

definition demo_floats :: float_ops where
  "demo_floats = \<lparr>float_int = (\<lambda>w. w), float_uint = (\<lambda>w. w), int_float = (\<lambda>w. w)\<rparr>"

text \<open>A struct with flags in its tags and an interface that holds a document, and integers read as booleans.\<close>

definition demo_fields :: "struct_field list" where
  "demo_fields = [StructField ''Num'' [] ''n,minsize'' [] (TInt KInt64), StructField ''Left'' [] ''l,omitempty'' [] TString,
     StructField ''Any'' [] [] [] TIface, StructField ''Time'' [] [] [] TTime, StructField ''hidden'' ''main'' [] [] TBool]"

definition demo_struct :: bson_value where
  "demo_struct = BStruct ''T'' demo_fields [BInt KInt64 7, BString [], BDoc [(''s'', BArray [BString ''x'', BNil])],
     BTime (- 1) 999999999, BBool True]"

definition demo_struct_back :: bson_value where
  "demo_struct_back = BStruct ''T'' demo_fields [BInt KInt64 7, BString [], BMap [(''s'', BArray [BString ''x'', BNil])],
     BTime (- 1) 999000000, BBool False]"

lemma demo_struct_reads: "reads_as typeM (TStruct ''T'' demo_fields) False demo_struct demo_struct_back"
proof -
  have n: "reads_as typeM (TInt KInt64) True (BInt KInt64 7) (BInt KInt64 7)"
    using reads_into.int [of "BInt KInt 7" 7 KInt64]
    by (intro reads_as.scalar [of _ _ "BInt KInt 7"]) (simp_all add: fits_int32_def)
  have nil: "reads_as typeM TIface False BNil BNil" using reads_as.nil [of TIface typeM False] by simp
  have s: "reads_as typeM TIface False (BString ''x'') (BString ''x'')"
    by (rule reads_as.scalar [of _ _ "BString ''x''"]) (simp_all add: reads_into.any)
  have arr: "reads_as typeM TIface False (BArray [BString ''x'', BNil]) (BArray [BString ''x'', BNil])"
    by (rule reads_as.array) (simp add: nil s)
  have "reads_as typeM TIface False (BDoc [(''s'', BArray [BString ''x'', BNil])])
      (BMap (obj_of (zip (map fst [(''s'', BArray [BString ''x'', BNil])]) [BArray [BString ''x'', BNil]])))"
    by (rule reads_as.map [of _ _ _ _ TString TIface]) (simp_all add: entries_of_def typeM_def arr [unfolded typeM_def])
  then have d: "reads_as typeM TIface False (BDoc [(''s'', BArray [BString ''x'', BNil])]) (BMap [(''s'', BArray [BString ''x'', BNil])])"
    by (simp add: obj_of_def)
  have t: "reads_as typeM TTime False (BTime (- 1) 999999999) (BTime (- 1) 999000000)"
    by (rule reads_as.scalar [of _ _ "BTime (- 1) 999000000"]) (code_simp, rule reads_into.time)
  have e: "empty_value TString (BString [])" by (rule empty_value.intros(2)) simp_all
  have tags: "plain_tags demo_fields" "map exported demo_fields = [True, True, True, True, False]"
    "map tag_flags demo_fields = [[''minsize''], [''omitempty''], [], [], []]"
    "map field_key demo_fields = [''n'', ''l'', ''any'', ''time'', ''hidden'']"
    by code_simp+
  have "map field_type demo_fields = [TInt KInt64, TString, TIface, TTime, TBool]" by (simp add: demo_fields_def)
  show ?thesis
    unfolding demo_struct_def demo_struct_back_def
    by (rule reads_as.struct [OF tags(1)])
      (use n d t e tags(2-4) in \<open>simp_all add: demo_fields_def written_def less_Suc_eq all_conj_distrib\<close>)
qed

lemma demo_bools: "reads_as typeM (TMap TString TBool) False (BMap [(''x'', BInt KInt 3)]) (BMap [(''x'', BBool True)])"
proof -
  have "reads_as typeM TBool False (BInt KInt 3) (BBool (3 \<noteq> (0 :: int)))"
    by (rule reads_as.scalar [of _ _ "BInt KInt 3"]) (simp add: fits_int32_def, rule reads_into.bool_int, simp)
  then have "reads_as typeM (TMap TString TBool) False (BMap [(''x'', BInt KInt 3)])
      (BMap (obj_of (zip (map fst [(''x'', BInt KInt 3)]) [BBool True])))"
    by (intro reads_as.map [of _ _ _ _ TString TBool]) (simp_all add: entries_of_def)
  then show ?thesis by (simp add: obj_of_def)
qed

lemma demo_short:
  "case bson_Marshal demo_struct of Inr (Inr b) \<Rightarrow> length b < 250 | _ \<Rightarrow> False"
  "case bson_Marshal (BMap [(''x'', BInt KInt 3)]) of Inr (Inr b) \<Rightarrow> length b < 250 | _ \<Rightarrow> False"
  by code_simp+

theorem bson_reads_back_witness:
  "(\<exists>b. bson_Marshal demo_struct = Inr (Inr b) \<and>
      bson_Unmarshal demo_floats b (TPtr (TStruct ''T'' demo_fields)) = Inr (Inr (BPtr demo_struct_back))) \<and>
   (\<exists>b. bson_Marshal (BMap [(''x'', BInt KInt 3)]) = Inr (Inr b) \<and>
      bson_Unmarshal demo_floats b (TPtr (TMap TString TBool)) = Inr (Inr (BPtr (BMap [(''x'', BBool True)]))))"
proof -
  have d: "is_doc demo_struct" "takes_document (TStruct ''T'' demo_fields)" "is_doc (BMap [(''x'', BInt KInt 3)])"
    "takes_document (TMap TString TBool)"
    by (simp_all add: is_doc_def demo_struct_def takes_document_def)
  from bson_reads_back [OF demo_struct_reads d(1,2)] bson_reads_back [OF demo_bools d(3,4)] demo_short
  show ?thesis by (fastforce split: sum.splits)
qed

theorem short_string_crashes_witness:
  "bson_Unmarshal demo_floats (with_length (addElemName CHR 0x02 ''a'' @ addInt32 0 @ [] @ [CHR 0x00])) typeM = Inl (Passed SliceOutOfRange)"
  by (rule short_string_crashes) simp_all

definition demo_owner :: Identity where
  "demo_owner = zero_identity\<lparr>identity_id := ''i'', PublicJwk := Some [(''kty'', JStr ''EC'')]\<rparr>"

definition demo_stored :: Instance where
  "demo_stored = \<lparr>instance_id = ''x'', instance_owner = Some demo_owner,
     instance_payload = zero_payload\<lparr>payload_data := JArr [JNull, JStr ''y'']\<rparr>\<rparr>"

definition demo_raw :: "json \<Rightarrow> bytes" where
  "demo_raw v = []"

definition demo_num :: "int \<Rightarrow> 64 word" where
  "demo_num n = word_of_int n"

lemma demo_stored_short: "case bson_Marshal (Instance_document demo_num demo_raw demo_stored) of Inr (Inr b) \<Rightarrow> length b < 250 | _ \<Rightarrow> False"
  by code_simp

theorem stored_documents_read_back_witness:
  "\<exists>b. bson_Marshal (Instance_document demo_num demo_raw demo_stored) = Inr (Inr b) \<and>
     bson_Unmarshal demo_floats b (TPtr (TStruct ''main.Instance'' Instance_fields)) =
       Inr (Inr (BPtr (Instance_document demo_num demo_raw demo_stored)))"
proof -
  have i: "identity_ok demo_owner" by code_simp
  have p: "payload_ok (instance_payload demo_stored)"
    by (simp add: payload_ok_def payload_typed_def demo_stored_def zero_payload_def)
  have o: "identity_ok s" if "instance_owner demo_stored = Some s" for s
    using that i by (simp add: demo_stored_def)
  have "\<exists>b. bson_Marshal (Instance_document demo_num demo_raw demo_stored) = Inr (Inr b) \<and> (length b < 2147483648 \<longrightarrow>
      bson_Unmarshal demo_floats b (TPtr (TStruct ''main.Instance'' Instance_fields)) =
        Inr (Inr (BPtr (Instance_document demo_num demo_raw demo_stored))))"
    by (rule stored_documents_read_back [OF i p o, of _ _ "\<lparr>kv_key = [], kv_value = []\<rparr>" demo_num demo_raw]) simp_all
  with demo_stored_short show ?thesis by (auto split: sum.splits)
qed

end
