(* ===== verification/ObjectIds.thy ===== *)
theory ObjectIds
  imports BsonSpec
begin

unbundle bit_operations_syntax

text \<open>
  Object identifiers of the database (\<open>ObjectId\<close> in \<open>bson.go\<close>): 12 bytes with the second, the machine, the process
  and a counter.  The machine identifier (a hash of the host name, or random bytes), the process number and the
  clock are arguments; the counter, a global variable that is incremented atomically, is state.
\<close>

type_synonym ObjectId = bytes

definition put_uint32 :: "32 word \<Rightarrow> bytes" where
  "put_uint32 w = [word_byte (ucast (drop_bit 24 w)), word_byte (ucast (drop_bit 16 w)),
     word_byte (ucast (drop_bit 8 w)), word_byte (ucast w)]"

definition NewObjectId :: "bytes \<Rightarrow> int \<Rightarrow> int \<Rightarrow> 32 word \<Rightarrow> ObjectId \<times> 32 word" where
  "NewObjectId machineId pid now objectIdCounter =
     (let i = objectIdCounter + 1 in
      (put_uint32 (word_of_int now) @ [machineId ! 0, machineId ! 1, machineId ! 2,
         word_byte (word_of_int (pid div 256)), word_byte (word_of_int pid),
         word_byte (ucast (drop_bit 16 i)), word_byte (ucast (drop_bit 8 i)), word_byte (ucast i)], i))"

definition NewObjectIdWithTime :: "int \<Rightarrow> ObjectId" where
  "NewObjectIdWithTime t = put_uint32 (word_of_int t) @ replicate 8 CHR 0x00"

definition Valid :: "ObjectId \<Rightarrow> bool" where
  "Valid oid \<longleftrightarrow> length oid = 12"

definition byteSlice :: "ObjectId \<Rightarrow> nat \<Rightarrow> nat \<Rightarrow> bytes run" where
  "byteSlice oid start stop =
     (if length oid \<noteq> 12 then Inl (ExplicitPanic (''Invalid ObjectId: '' @ oid)) else Inr (take (stop - start) (drop start oid)))"

definition Time :: "ObjectId \<Rightarrow> int run" where
  "Time oid = run_bind (byteSlice oid 0 4) (\<lambda>b. Inr (uint (byte_word (b ! 3) OR push_bit 8 (byte_word (b ! 2)) OR
     push_bit 16 (byte_word (b ! 1)) OR push_bit 24 (byte_word (b ! 0)) :: 32 word)))"

definition Machine :: "ObjectId \<Rightarrow> bytes run" where
  "Machine oid = byteSlice oid 4 7"

definition Pid :: "ObjectId \<Rightarrow> 16 word run" where
  "Pid oid = run_bind (byteSlice oid 7 9) (\<lambda>b. Inr (byte_word (b ! 1) OR push_bit 8 (byte_word (b ! 0))))"

definition Counter :: "ObjectId \<Rightarrow> 32 word run" where
  "Counter oid = run_bind (byteSlice oid 9 12) (\<lambda>b.
     Inr (push_bit 16 (byte_word (b ! 0)) OR push_bit 8 (byte_word (b ! 1)) OR byte_word (b ! 2)))"

definition ObjectIdHex :: "string \<Rightarrow> ObjectId run" where
  "ObjectIdHex s = (case hex_decode s of
     Some d \<Rightarrow> if length d \<noteq> 12 then Inl (ExplicitPanic (''Invalid input to ObjectIdHex: '' @ s)) else Inr d
   | None \<Rightarrow> Inl (ExplicitPanic (''Invalid input to ObjectIdHex: '' @ s)))"

definition IsObjectIdHex :: "string \<Rightarrow> bool" where
  "IsObjectIdHex s \<longleftrightarrow> length s = 24 \<and> hex_decode s \<noteq> None"

definition ObjectId_Hex :: "ObjectId \<Rightarrow> string" where
  "ObjectId_Hex oid = hex_encode oid"

definition ObjectId_String :: "ObjectId \<Rightarrow> string" where
  "ObjectId_String oid = ''ObjectIdHex('' @ [CHR 0x22] @ hex_encode oid @ [CHR 0x22] @ '')''"

definition ObjectId_MarshalJSON :: "ObjectId \<Rightarrow> bytes" where
  "ObjectId_MarshalJSON oid = [CHR 0x22] @ hex_encode oid @ [CHR 0x22]"

text \<open>The error (its text without the reason that \<open>hex\<close> gives), or the identifier.\<close>

definition ObjectId_UnmarshalJSON :: "bytes \<Rightarrow> string + ObjectId" where
  "ObjectId_UnmarshalJSON data =
     (if length data \<noteq> 26 \<or> data ! 0 \<noteq> CHR 0x22 \<or> data ! 25 \<noteq> CHR 0x22 then Inl (''Invalid ObjectId in JSON: '' @ data)
      else (case hex_decode (take 24 (drop 1 data)) of
          None \<Rightarrow> Inl (''Invalid ObjectId in JSON: '' @ data)
        | Some buf \<Rightarrow> Inr buf))"

subsection \<open>Identifiers and their forms\<close>

lemma ObjectId_forms:
  assumes "Valid oid"
  shows "ObjectIdHex (ObjectId_Hex oid) = Inr oid" "IsObjectIdHex (ObjectId_Hex oid)"
    "ObjectId_UnmarshalJSON (ObjectId_MarshalJSON oid) = Inr oid"
proof -
  have len: "length (hex_encode oid) = 24" using assms by (simp add: Valid_def)
  show "ObjectIdHex (ObjectId_Hex oid) = Inr oid" "IsObjectIdHex (ObjectId_Hex oid)"
    using assms len by (simp_all add: ObjectIdHex_def IsObjectIdHex_def ObjectId_Hex_def hex_decode_encode Valid_def)
  show "ObjectId_UnmarshalJSON (ObjectId_MarshalJSON oid) = Inr oid"
    using len by (simp add: ObjectId_UnmarshalJSON_def ObjectId_MarshalJSON_def hex_decode_encode nth_append)
qed

subsection \<open>New identifiers\<close>

text \<open>A new identifier has its parts.\<close>

lemma object_id_parts:
  assumes "length m = 3"
  shows "Valid (fst (NewObjectId m p t c))" "Time (fst (NewObjectId m p t c)) = Inr (uint (word_of_int t :: 32 word))"
    "Machine (fst (NewObjectId m p t c)) = Inr m"
proof -
  obtain x y z where m: "m = [x, y, z]" using assms by (auto simp: eval_nat_numeral length_Suc_conv)
  show "Valid (fst (NewObjectId m p t c))" "Machine (fst (NewObjectId m p t c)) = Inr m"
    by (simp_all add: m NewObjectId_def Valid_def Machine_def byteSlice_def put_uint32_def Let_def)
  show "Time (fst (NewObjectId m p t c)) = Inr (uint (word_of_int t :: 32 word))"
    using bytes_32 [of "word_of_int t"]
    by (simp add: m NewObjectId_def Time_def byteSlice_def put_uint32_def Let_def byte_word_ucast [where 'a = 32])
qed

text \<open>A process that makes identifiers at the given times.\<close>

fun new_ids :: "bytes \<Rightarrow> int \<Rightarrow> int list \<Rightarrow> 32 word \<Rightarrow> ObjectId list" where
  "new_ids machineId pid [] c = []"
| "new_ids machineId pid (t # ts) c =
     (case NewObjectId machineId pid t c of (oid, c') \<Rightarrow> oid # new_ids machineId pid ts c')"

lemma word_byte_inj [simp]: "word_byte v = word_byte w \<longleftrightarrow> v = w"
  by (metis word_byte_word)

lemma low_bytes: "ucast (drop_bit 16 i) = (ucast (drop_bit 16 j) :: 8 word) \<Longrightarrow> ucast (drop_bit 8 i) = (ucast (drop_bit 8 j) :: 8 word) \<Longrightarrow>
    ucast i = (ucast j :: 8 word) \<Longrightarrow> take_bit 24 i = take_bit 24 j" for i j :: "32 word"
proof (rule bit_word_eqI)
  fix n :: nat
  assume b: "ucast (drop_bit 16 i) = (ucast (drop_bit 16 j) :: 8 word)" "ucast (drop_bit 8 i) = (ucast (drop_bit 8 j) :: 8 word)"
    "ucast i = (ucast j :: 8 word)"
  have bits: "bit i (k + m) = bit j (k + m)" if "ucast (drop_bit k i) = (ucast (drop_bit k j) :: 8 word)" "m < 8" for k m
  proof -
    from that(1) have "bit (ucast (drop_bit k i) :: 8 word) m = bit (ucast (drop_bit k j) :: 8 word) m" by simp
    with that(2) show ?thesis by (simp add: bit_simps)
  qed
  consider "n < 8" | "8 \<le> n" "n < 16" | "16 \<le> n" "n < 24" | "24 \<le> n" by linarith
  then show "bit (take_bit 24 i) n = bit (take_bit 24 j) n"
    using bits [of 0 n] bits [of 8 "n - 8"] bits [of 16 "n - 16"] b by cases (auto simp: bit_simps)
qed

lemma NewObjectId_counter:
  assumes "fst (NewObjectId m p t c) = fst (NewObjectId m p u d)"
  shows "take_bit 24 (c + 1) = take_bit 24 (d + 1)"
  using assms by (intro low_bytes) (simp_all add: NewObjectId_def put_uint32_def Let_def)

lemma new_ids_nth:
  "i < length ts \<Longrightarrow> new_ids m p ts c ! i = fst (NewObjectId m p (ts ! i) (c + of_nat i))"
proof (induction ts arbitrary: c i)
  case (Cons t ts)
  then show ?case by (cases i) (simp_all add: NewObjectId_def Let_def add.assoc add.commute)
qed simp

lemma length_new_ids [simp]: "length (new_ids m p ts c) = length ts"
  by (induction ts arbitrary: c) (simp_all add: NewObjectId_def Let_def)

lemma low_counter: "unat (take_bit 24 (c + of_nat i + 1)) = (unat c + i + 1) mod 16777216" for c :: "32 word"
proof -
  have "c + of_nat i + 1 = of_nat (unat c + i + 1)" by simp
  then have "unat (c + of_nat i + 1) = (unat c + i + 1) mod 4294967296" by (simp only: unat_of_nat) (simp add: take_bit_eq_mod)
  then show ?thesis by (simp only: unsigned_take_bit_eq) (simp add: take_bit_eq_mod mod_mod_cancel)
qed

text \<open>
  Property C30.  Object identifiers are unique for 16 million.  However the clock stands, up to 2^24 identifiers in a row
  from one process differ from each other.
\<close>

theorem object_ids_distinct:
  assumes "length ts \<le> 16777216"
  shows "distinct (new_ids machineId pid ts c)"
proof (subst distinct_conv_nth, intro allI impI)
  fix i j
  assume "i < length (new_ids machineId pid ts c)" "j < length (new_ids machineId pid ts c)" "i \<noteq> j"
  then have ij: "i < length ts" "j < length ts" "i \<noteq> j" by simp_all
  show "new_ids machineId pid ts c ! i \<noteq> new_ids machineId pid ts c ! j"
  proof
    assume "new_ids machineId pid ts c ! i = new_ids machineId pid ts c ! j"
    then have "take_bit 24 (c + of_nat i + 1) = take_bit 24 (c + of_nat j + 1)"
      using ij by (intro NewObjectId_counter) (simp add: new_ids_nth)
    then have "(unat c + i + 1) mod 16777216 = (unat c + j + 1) mod 16777216" by (metis low_counter)
    then have "i mod 16777216 = j mod 16777216" by (auto simp: nat_mod_eq_iff)
    with ij assms show False by simp
  qed
qed

theorem object_ids_distinct_witness:
  "distinct (new_ids [CHR 0x01, CHR 0x02, CHR 0x03] 7 [0, 0, 5] 0xFFFFFF)"
  by (rule object_ids_distinct) simp

text \<open>After that a second that has not passed repeats an identifier.\<close>

lemma object_id_repeats: "fst (NewObjectId m p t c) = fst (NewObjectId m p t (c + 16777216))"
proof -
  have "ucast (drop_bit k (c + 16777216 + 1)) = (ucast (drop_bit k (c + 1)) :: 8 word)" if "k \<le> 16" for k
  proof -
    have "(unat c + 16777216 + 1) mod 16777216 = (unat c + 0 + 1) mod 16777216"
      using mod_add_self2 [of "unat c + 1" 16777216] by (simp only: ac_simps add_0_left)
    then have "unat (take_bit 24 (c + 16777216 + 1)) = unat (take_bit 24 (c + 1))"
      using low_counter [of c 16777216] low_counter [of c 0] by simp
    then have e: "take_bit 24 (c + 16777216 + 1) = take_bit 24 (c + 1)" by (rule unsigned_word_eqI)
    have "bit (c + 16777216 + 1) n = bit (c + 1) n" if "n < 24" for n
      using arg_cong [OF e, of "\<lambda>w. bit w n"] that by (simp add: bit_simps)
    then show ?thesis using \<open>k \<le> 16\<close> by (intro bit_word_eqI) (simp add: bit_simps)
  qed
  from this [of 16] this [of 8] this [of 0] show ?thesis by (simp add: NewObjectId_def Let_def)
qed

end
