(* ===== verification/Spec2Isabelle.thy ===== *)
theory Spec2Isabelle
  imports Pumps AppWitness WsSession TrustGraphSpec BsonWitness ObjectIds
begin

text \<open>
  Inkblot: a verification library for the server in \<open>src/\<close> and the packages under
  \<open>src/Godeps/_workspace\<close> that carry its logic.

  Inkblot is a personal server.  A host is one identity with a key pair; it stores signed instances, its
  own and those that other hosts post to it, sends its own to the hosts of the identities they are
  shared with, and broadcasts every stored instance to web sockets.  Requests run through the go-json-rest
  stack: middlewares around a router over a trie, with a token middleware on some routes.  Signatures are
  libtrust's signed JSON, instances have UUIDs.

  Parts, from the bottom (theory, code):

  \<^item> \<open>Prelude\<close>: runs that may panic (\<open>run\<close>, \<open>go_panic\<close>), results with errors and panics, bytes, associations.
  \<^item> \<open>Hub\<close>, \<open>Pumps\<close> (\<open>hub.go\<close>, \<open>ws.go\<close>): the map of connections with their buffered channels; the goroutines as
    an inductive step relation.  Theorems over all interleavings: the hub never panics, clients get the
    broadcasts in order and complete, buffers stay within 256 messages, the hub is never blocked for
    good.  Connections are numbers, the channel heap is shared by hub and pumps as in the code.
  \<^item> \<open>WsConn\<close>, \<open>WsSpec\<close>, \<open>WsLimits\<close>, \<open>WsWitness\<close> (\<open>gorilla/websocket/conn.go\<close>): the connection under the pumps, frame by
    frame.  A connection (\<open>ws_conn\<close>) holds its network (\<open>wire\<close>: what comes in and in what pieces, how it ends, what
    was sent, which writes fail, the clock).  Messages travel through any buffer and any cutting of
    the bytes, a close frame is the last one, pings are answered, the read limit holds for sane lengths;
    a negative length lifts it, and a message that is cut off is read as a whole one.
  \<^item> \<open>WsHandshake\<close>, \<open>WsClient\<close>, \<open>WsHandshakeSpec\<close>, \<open>WsSession\<close> (\<open>server.go\<close>, \<open>client.go\<close>, \<open>util.go\<close>, \<open>serveWs\<close>): both sides of the
    opening handshake with the reading of a response header.  The two sides agree and the session
    that opens carries messages; pages of other hosts are refused.
  \<^item> \<open>GoStrings\<close>, \<open>Base64\<close>, \<open>Json\<close>, \<open>GoUrl\<close>, \<open>GoMime\<close>, \<open>GoDecode\<close>, \<open>BigInt\<close>, \<open>Hash\<close>: what the code uses of the Go standard
    library, written out: number printing, base64, JSON printing, parsing and decoding into structs,
    URL parsing and escaping, media types, big-endian numbers, SHA-1 and SHA-2 with HMAC on words.
  \<^item> \<open>Trie\<close>, \<open>TrieSpec\<close> (\<open>rest/trie/impl.go\<close>), \<open>Router\<close> (\<open>rest/router.go\<close>, \<open>rest/route.go\<close>): insertion, compression
    and search; the router's escaping, table and dispatch.  The trie is compared with its set of token
    paths: search is matching, insertion is a dictionary update, compression is invisible.
  \<^item> \<open>Http\<close>, \<open>Middleware\<close>, \<open>MiddlewareSpec\<close>, \<open>StackAnswers\<close> (\<open>rest/*.go\<close>): requests, the layered response writer, every middleware,
    and what the development stack makes of the application it wraps, panics included.
    A handler is an action on a connection record (\<open>conn\<close>), which holds request, response layers, clock,
    statistics and the state of the program (\<open>World\<close>); \<open>act_bind\<close> sequences, \<open>Inl\<close> is a panic.
  \<^item> \<open>JwtToken\<close>, \<open>JwtMiddleware\<close> (\<open>jwt-go\<close>, \<open>auth_jwt.go\<close>): tokens and the guard, login and refresh handlers.
  \<^item> \<open>Keys\<close>, \<open>KeysSpec\<close>, \<open>JsonSign\<close>, \<open>JsonSignSpec\<close> (\<open>libtrust\<close>): keys and their JSON web keys, signing and verifying,
    the JWS and the pretty form.  The locale \<open>signing_keys\<close> states what a scheme promises and is
    interpreted on the keys (\<open>trust_keys\<close>).
  \<^item> \<open>TrustGraph\<close>, \<open>TrustGraphSpec\<close> (\<open>libtrust/trustgraph\<close>): grants as addresses in a heap, their tree, the walk over
    them, and statements with revocations.  The walk is compared with reachability along the grants
    (\<open>authorised\<close>), the collapsed statements with their grants cut by the revocations that follow.
  \<^item> \<open>Uuid\<close>, \<open>UuidSpec\<close> (\<open>twinj/uuid\<close>): both representations, printing and parsing, the versions, clock and state.
  \<^item> \<open>AppData\<close>, \<open>AppDataSpec\<close> (\<open>identity.go\<close>, \<open>instance.go\<close>, \<open>routingTable.go\<close>): the data, its JSON forms, \<open>Init\<close>, \<open>Sign\<close>
    and \<open>Verify\<close>.
  \<^item> \<open>BsonTypes\<close>, \<open>Bson\<close>, \<open>BsonDecode\<close>, \<open>BsonSpec\<close>, \<open>BsonTravel\<close>, \<open>BsonReads\<close> (\<open>labix.org/v2/mgo/bson\<close>): the documents of the database.  Go types
    and values (\<open>go_type\<close>, \<open>bson_value\<close>), the reading of struct tags, the encoder and the decoder, whose position is
    the input that is left.  \<open>travels\<close> says inductively what a value becomes when it is decoded into a type;
    \<open>reads_as\<close> says it in the terms of the package's documentation, with tags, empty values and conversions of its
    own, and \<open>bson_reads_back\<close> that encoder and decoder do so; decoding ends on every input.
  \<^item> \<open>AppDocuments\<close>, \<open>BsonWitness\<close>: the struct types of the program with their tags; what is stored reads back.
    \<open>ObjectIds\<close> (\<open>bson.go\<close>): identifiers and their parts.
  \<^item> \<open>AppHandlers\<close>, \<open>Application\<close> (\<open>handlers.go\<close>, \<open>main.go\<close>): the handlers on the state of the process (\<open>app\<close>: database,
    routing table, what was sent) and the program they are composed into.
  \<^item> \<open>PassThrough\<close>, \<open>AppSpec\<close>, \<open>AppAnswers\<close>, \<open>AppClaims\<close>, \<open>AppWitness\<close>: the stack seen from the handlers, the refinement of
    an abstract store, answers to every request, the guarantees over sequences of requests, what
    the code does not protect, and all of it at concrete states.

  The abstract specification of the program is the relation \<open>store_step\<close> of \<open>AppSpec\<close>: a store has
  identities, instances, who the program is and whether it is registered, and a step says what a request
  may do to it, with and without a token and with failing database calls.  \<open>main_refines_store\<close> shows that every
  request through the whole stack is such a step; \<open>untokened_requests\<close> is an invariant over it.  The
  collections of the database implement maps (locale \<open>collection\<close>, interpreted on the association lists).

  Arguments of the model, with what is assumed of them: elliptic curve signing and verifying and
  certificates (\<open>crypto_ops\<close>, with \<open>valid_key\<close>: a signature that is made verifies), RSA exponentiation
  for tokens, random bytes and generated keys, the clock, which database calls fail and with what text,
  the answers of other hosts, the scheduling of the goroutines of \<open>Push\<close> against its loop, the network of a web
  socket and the TLS client of its dialer.  RSA signatures of
  libtrust are written out (PKCS 1 v1.5 over modular exponentiation).

  Bounds and fuel: the JSON parser and the trie loops recurse on fuel that is bounded by the length of the
  input, with lemmas that it is enough; \<open>currentUUIDTimestamp\<close> waits for a clock and is \<open>None\<close> when it waits
  for ever (\<open>timestamp_returns_iff\<close>); the loops that copy into the buffer of a web socket are partial functions,
  and return for every buffer that \<open>newConn\<close> makes (\<open>copy_loop_ok\<close>); reading ends because every frame consumes
  input; the decoder of documents has the length of its input as fuel, since every element takes bytes
  (\<open>Unmarshal_ends\<close>).  The length of a web socket message is kept as the signed 64-bit integer of the code.  Other lengths and status codes are unbounded integers where the code
  cannot overflow them in memory; hashes, versions, error bits and UUID fields are words.

  Simplifications: numbers in JSON are integers without a bound, and a fraction or an exponent is an error of the
  parser, where Go decodes a 64-bit float and prints a large one with an exponent; the strings of JSON are
  bytes, so that invalid UTF-8 is copied and two escaped surrogates are not combined into one character, where Go
  replaces and combines them.  A broadcast of a handler is recorded in a list: the send on the channel of the
  hub, which waits for the hub, is modelled with the pumps and not in the handlers.  The goroutines of \<open>Push\<close> run
  one after the other once they have read the loop variable.

  Not modelled, and why: the database driver (\<open>mgo\<close>: network protocol and transactions; the handlers
  see collections of documents, which \<open>stored_documents_read_back\<close> justifies for the encoding), in \<open>bson\<close> the methods \<open>GetBSON\<close> and
  \<open>SetBSON\<close> of client types, \<open>RawD\<close>, \<open>url.URL\<close>, arrays of fixed length and 32-bit floats, and the difference between nil and
  empty slices and maps, the static pages, the gzip writer, the access log
  templates (\<open>text/template\<close>; an argument), PEM and key files and TLS set-up of libtrust (files and
  X.509), the JSON and X.509 side of trust statements, the deadlines of sockets (they show as errors of reads and writes), the JSON helpers of the web
  socket package (not called), the command line tool of jwt-go, the gob file of the UUID
  state, sockets and process start.
\<close>

end
